(* ===== verification/Libelf_Prelude.thy ===== *)
theory Libelf_Prelude
  imports "HOL-Library.Word" "HOL-Library.Monad_Syntax"
begin

text \<open>
  Shared vocabulary of the libelf development: the fixed-width integer types of the C code,
  byte strings, the reading and writing of integers in the byte order of the host, and the
  generic lemmas on words and lists that the component theories use.

  A C call that can abort (a failing \<open>assert\<close>) or leave the memory it may touch (a wild
  read or write) is a function into an \<open>option\<close>: \<open>None\<close> is the abort or the wild access,
  \<open>Some\<close> is a call that returns. The error returns of the library itself (\<open>NULL\<close>, 0, -1)
  are ordinary values under \<open>Some\<close>.
\<close>

unbundle bit_operations_syntax

type_synonym u8 = "8 word"
type_synonym u16 = "16 word"
type_synonym u32 = "32 word"
type_synonym u64 = "64 word"
type_synonym bytes = "8 word list"

named_theorems codec_simps
named_theorems layout_simps

section \<open>Control flow shared by the translations\<close>

text \<open>\<open>c_assert\<close> is the C macro \<open>assert\<close> (the makefile does not define \<open>NDEBUG\<close>).\<close>

definition c_assert :: "bool \<Rightarrow> unit option" where
  "c_assert b = (if b then Some () else None)"

lemma c_assert_True [simp]: "c_assert True = Some ()"
  by (simp add: c_assert_def)

lemma c_assert_Some [simp]: "c_assert b = Some u \<longleftrightarrow> b"
  by (simp add: c_assert_def)

lemma c_assert_None [simp]: "c_assert b = None \<longleftrightarrow> \<not> b"
  by (simp add: c_assert_def)

lemma bind_assert_Some [simp]:
  "Option.bind (c_assert b) f = Some r \<longleftrightarrow> b \<and> f () = Some r"
  by (simp add: c_assert_def)

lemma bind_Some_iff: "Option.bind m f = Some r \<longleftrightarrow> (\<exists>x. m = Some x \<and> f x = Some r)"
  by (cases m) auto

lemma bind_None_iff: "Option.bind m f = None \<longleftrightarrow> m = None \<or> (\<exists>x. m = Some x \<and> f x = None)"
  by (cases m) auto

section \<open>Byte windows\<close>

text \<open>\<open>slice_at bs off n\<close>: the \<open>n\<close> bytes at offset \<open>off\<close>; \<open>None\<close> if they are not all there.\<close>

definition slice_at :: "'a list \<Rightarrow> nat \<Rightarrow> nat \<Rightarrow> 'a list option" where
  "slice_at bs off n = (if off + n \<le> length bs then Some (take n (drop off bs)) else None)"

definition patch_at :: "'a list \<Rightarrow> nat \<Rightarrow> 'a list \<Rightarrow> 'a list option" where
  "patch_at bs off new =
     (if off + length new \<le> length bs
      then Some (take off bs @ new @ drop (off + length new) bs) else None)"

lemma slice_at_length: "slice_at bs off n = Some r \<Longrightarrow> length r = n"
  by (auto simp: slice_at_def split: if_splits)

lemma slice_at_Some_iff: "(\<exists>r. slice_at bs off n = Some r) \<longleftrightarrow> off + n \<le> length bs"
  by (simp add: slice_at_def)

lemma patch_at_length: "patch_at bs off new = Some r \<Longrightarrow> length r = length bs"
  by (auto simp: patch_at_def split: if_splits)

lemma slice_patch_same:
  "patch_at bs off new = Some r \<Longrightarrow> slice_at r off (length new) = Some new"
  by (auto simp: patch_at_def slice_at_def split: if_splits)

lemma slice_patch_before:
  assumes "patch_at bs off new = Some r" "i + n \<le> off"
  shows "slice_at r i n = slice_at bs i n"
  using assms by (auto simp: patch_at_def slice_at_def drop_take min_def split: if_splits)

lemma slice_patch_after:
  assumes "patch_at bs off new = Some r" "off + length new \<le> i"
  shows "slice_at r i n = slice_at bs i n"
proof -
  from assms(1) have r: "r = take off bs @ new @ drop (off + length new) bs"
    and le: "off + length new \<le> length bs"
    by (auto simp: patch_at_def split: if_splits)
  have "drop i r = drop i bs"
    using assms(2) le unfolding r by (simp add: drop_append)
  moreover have "length r = length bs" using assms(1) by (rule patch_at_length)
  ultimately show ?thesis by (simp add: slice_at_def)
qed

section \<open>Integers as bytes\<close>

text \<open>
  The byte order of the host. \<open>word_bytes n w\<close> are the \<open>n\<close> low-order bytes of \<open>w\<close>, least
  significant first; \<open>bytes_word\<close> reads them back.
\<close>

datatype endian = LSB | MSB

definition word_bytes :: "nat \<Rightarrow> 'a::len word \<Rightarrow> bytes" where
  "word_bytes n w = map (\<lambda>i. ucast (drop_bit (8 * i) w)) [0..<n]"

primrec bytes_word :: "bytes \<Rightarrow> 'a::len word" where
  "bytes_word [] = 0"
| "bytes_word (b # bs) = push_bit 8 (bytes_word bs) OR ucast b"

definition put_word :: "endian \<Rightarrow> nat \<Rightarrow> 'a::len word \<Rightarrow> bytes" where
  "put_word bo n w = (case bo of LSB \<Rightarrow> word_bytes n w | MSB \<Rightarrow> rev (word_bytes n w))"

definition get_word :: "endian \<Rightarrow> bytes \<Rightarrow> 'a::len word" where
  "get_word bo bs = (case bo of LSB \<Rightarrow> bytes_word bs | MSB \<Rightarrow> bytes_word (rev bs))"

lemma length_word_bytes [simp, codec_simps]: "length (word_bytes n w) = n"
  by (simp add: word_bytes_def)

lemma length_put_word [simp, codec_simps]: "length (put_word bo n w) = n"
  by (simp add: put_word_def split: endian.split)

lemma word_bytes_Suc:
  "word_bytes (Suc n) w = ucast w # word_bytes n (drop_bit 8 w)"
proof -
  have "[0..<Suc n] = 0 # map Suc [0..<n]"
    by (simp add: map_Suc_upt upt_conv_Cons)
  then show ?thesis
    by (simp add: word_bytes_def drop_bit_drop_bit algebra_simps comp_def)
qed

lemma word_bytes_0 [simp]: "word_bytes 0 w = []"
  by (simp add: word_bytes_def)

lemma bit_bytes_word:
  "bit (bytes_word bs :: 'a::len word) n \<longleftrightarrow>
     n < LENGTH('a) \<and> n div 8 < length bs \<and> bit (bs ! (n div 8)) (n mod 8)"
proof (induction bs arbitrary: n)
  case Nil
  then show ?case by simp
next
  case (Cons b bs)
  show ?case
  proof (cases "n < 8")
    case True
    then show ?thesis by (auto simp: bit_or_iff bit_push_bit_iff bit_ucast_iff)
  next
    case False
    then have "n div 8 = Suc ((n - 8) div 8)" "n mod 8 = (n - 8) mod 8"
      by (simp_all add: le_div_geq le_mod_geq)
    moreover have "\<not> bit b n" using False bit_imp_le_length[of b n] by auto
    ultimately show ?thesis using False Cons.IH[of "n - 8"]
      by (auto simp: bit_or_iff bit_push_bit_iff bit_ucast_iff)
  qed
qed

lemma bit_word_bytes:
  "i < n \<Longrightarrow> bit (word_bytes n w ! i) k \<longleftrightarrow> k < 8 \<and> bit w (8 * i + k)"
  by (auto simp: word_bytes_def bit_ucast_iff bit_drop_bit_eq)

lemma bytes_word_bytes:
  assumes "LENGTH('a::len) \<le> 8 * n"
  shows "bytes_word (word_bytes n (w :: 'a word)) = w"
proof (rule bit_word_eqI)
  fix k assume k: "k < LENGTH('a)"
  then have "k div 8 < n" using assms by auto
  then show "bit (bytes_word (word_bytes n w) :: 'a word) k = bit w k"
    using k by (simp add: bit_bytes_word bit_word_bytes)
qed

lemma word_bytes_bytes:
  assumes "8 * length bs \<le> LENGTH('a::len)"
  shows "word_bytes (length bs) (bytes_word bs :: 'a word) = bs"
proof (rule nth_equalityI)
  show "length (word_bytes (length bs) (bytes_word bs :: 'a word)) = length bs" by simp
  fix i assume "i < length (word_bytes (length bs) (bytes_word bs :: 'a word))"
  then have i: "i < length bs" by simp
  show "word_bytes (length bs) (bytes_word bs :: 'a word) ! i = bs ! i"
  proof (rule bit_word_eqI)
    fix k assume k: "k < LENGTH(8)"
    have "8 * i + k < LENGTH('a)" "(8 * i + k) div 8 = i" "(8 * i + k) mod 8 = k"
      using i k assms by auto
    then show "bit (word_bytes (length bs) (bytes_word bs :: 'a word) ! i) k = bit (bs ! i) k"
      using i k by (simp add: bit_word_bytes bit_bytes_word)
  qed
qed

lemma get_put_word [codec_simps]:
  "LENGTH('a::len) \<le> 8 * n \<Longrightarrow> get_word bo (put_word bo n (w :: 'a word)) = w"
  by (simp add: get_word_def put_word_def bytes_word_bytes split: endian.split)

lemma put_get_word [codec_simps]:
  assumes "length bs = n" "8 * n \<le> LENGTH('a::len)"
  shows "put_word bo n (get_word bo bs :: 'a word) = bs"
  using assms word_bytes_bytes[of bs, where 'a = 'a] word_bytes_bytes[of "rev bs", where 'a = 'a]
  by (auto simp: get_word_def put_word_def split: endian.split)

lemma get_word_other:
  "get_word MSB bs = get_word LSB (rev bs)"
  by (simp add: get_word_def)

lemma put_word_other:
  "put_word MSB n w = rev (put_word LSB n w)"
  by (simp add: put_word_def)

section \<open>Width changes\<close>

lemma unat_lt2p: "unat (w :: 'a::len word) < 2 ^ LENGTH('a)"
  by (rule unsigned_less)

lemma unat_ucast_mod: "unat (ucast (w :: 'a::len word) :: 'b::len word) = unat w mod 2 ^ LENGTH('b)"
  by (simp add: unsigned_ucast_eq take_bit_eq_mod)

lemma unat_ucast_up [simp]:
  assumes "LENGTH('a::len) \<le> LENGTH('b::len)"
  shows "unat (ucast (w :: 'a word) :: 'b word) = unat w"
proof -
  have "unat w < 2 ^ LENGTH('b)"
    using less_le_trans[OF unat_lt2p[of w], of "2 ^ LENGTH('b)"] assms by simp
  then show ?thesis by (simp add: unat_ucast_mod)
qed

lemma unat_minus_le: "b \<le> a \<Longrightarrow> unat (a - b) = unat a - unat (b :: 'a::len word)"
  by (simp add: unat_sub)

section \<open>Rounding up\<close>

text \<open>
  \<open>roundup2 x y\<close> on Linux is \<open>roundup(x, y)\<close> of \<open><sys/param.h>\<close>, that is
  \<open>((x + y - 1) / y) * y\<close> in unsigned arithmetic (see the fallback in \<open>_elftc.h\<close>).
\<close>

definition c_roundup :: "u64 \<Rightarrow> u64 \<Rightarrow> u64" where
  "c_roundup x y = ((x + (y - 1)) div y) * y"

lemma nat_roundup_props:
  fixes x y :: nat
  assumes "0 < y"
  shows "x \<le> ((x + (y - 1)) div y) * y" "((x + (y - 1)) div y) * y < x + y"
proof -
  have "(x + (y - 1)) mod y < y" using assms by simp
  moreover have "((x + (y - 1)) div y) * y + (x + (y - 1)) mod y = x + (y - 1)"
    by (rule div_mult_mod_eq)
  ultimately show "x \<le> ((x + (y - 1)) div y) * y" "((x + (y - 1)) div y) * y < x + y"
    using assms by linarith+
qed

lemma unat_c_roundup:
  assumes "0 < unat y" "unat x + (unat y - 1) < 2 ^ 64"
  shows "unat (c_roundup x y) = ((unat x + (unat y - 1)) div unat y) * unat y"
proof -
  have y1: "unat (y - 1) = unat y - 1"
    using assms(1) by (simp add: unat_minus_one unat_gt_0)
  have s: "unat (x + (y - 1)) = unat x + (unat y - 1)"
    using assms(2) y1 by (simp add: unat_word_ariths)
  have d: "unat ((x + (y - 1)) div y) = (unat x + (unat y - 1)) div unat y"
    using s by (simp add: unat_div)
  have le: "((unat x + (unat y - 1)) div unat y) * unat y \<le> unat x + (unat y - 1)"
    by (rule div_times_less_eq_dividend)
  have "((unat x + (unat y - 1)) div unat y) * unat y < 2 ^ LENGTH(64)"
    using le_less_trans[OF le assms(2)] by simp
  then show ?thesis
    unfolding c_roundup_def unat_word_ariths(2) d by (rule mod_less)
qed

lemma c_roundup_bounds:
  assumes "0 < unat y" "unat x + (unat y - 1) < 2 ^ 64"
  shows "unat x \<le> unat (c_roundup x y)" "unat (c_roundup x y) < unat x + unat y"
    "unat y dvd unat (c_roundup x y)"
  using nat_roundup_props[of "unat y" "unat x"] assms by (simp_all add: unat_c_roundup)

end
