(* ===== verification/Elf_Types.thy ===== *)
theory Elf_Types
  imports Libelf_Prelude
begin

text \<open>
  The data model shared by the library: the enumerations of \<open>libelf.h\<close>, the constants of
  \<open>sys/elf_common.h\<close> the code tests, the file structures of \<open>sys/elf32.h\<close> and
  \<open>sys/elf64.h\<close> as records, the member lists of \<open>elf_types.m4\<close>, and the tables of file
  sizes, memory sizes and alignments that the m4 templates generate from them.

  Memory layout is that of an LP64 host (x86-64, AArch64): a scalar is aligned to its size.
\<close>

section \<open>Enumerations\<close>

datatype Elf_Kind = ELF_K_NONE | ELF_K_AR | ELF_K_COFF | ELF_K_ELF | ELF_K_NUM

text \<open>
  An \<open>Elf_Type\<close> object may hold an integer that is no enumerator in range (\<open>ELF_T_NUM\<close>, -1):
  \<open>ELF_T_INVALID i\<close>.
\<close>

datatype Elf_Type =
    ELF_T_ADDR | ELF_T_BYTE | ELF_T_CAP | ELF_T_DYN | ELF_T_EHDR | ELF_T_HALF | ELF_T_LWORD
  | ELF_T_MOVE | ELF_T_MOVEP | ELF_T_NOTE | ELF_T_OFF | ELF_T_PHDR | ELF_T_REL | ELF_T_RELA
  | ELF_T_SHDR | ELF_T_SWORD | ELF_T_SXWORD | ELF_T_SYMINFO | ELF_T_SYM | ELF_T_VDEF
  | ELF_T_VNEED | ELF_T_WORD | ELF_T_XWORD | ELF_T_GNUHASH
  | ELF_T_INVALID int

fun elf_type_valid :: "Elf_Type \<Rightarrow> bool" where
  "elf_type_valid (ELF_T_INVALID i) = False"
| "elf_type_valid t = True"

datatype Elf_Cmd =
    ELF_C_NULL | ELF_C_CLR | ELF_C_FDDONE | ELF_C_FDREAD | ELF_C_RDWR | ELF_C_READ
  | ELF_C_SET | ELF_C_WRITE | ELF_C_NUM

datatype Elf_Error =
    ELF_E_NONE | ELF_E_ARCHIVE | ELF_E_ARGUMENT | ELF_E_CLASS | ELF_E_DATA | ELF_E_HEADER
  | ELF_E_IO | ELF_E_LAYOUT | ELF_E_MODE | ELF_E_RANGE | ELF_E_RESOURCE | ELF_E_SECTION
  | ELF_E_SEQUENCE | ELF_E_UNIMPL | ELF_E_VERSION | ELF_E_NUM

primrec elf_error_code :: "Elf_Error \<Rightarrow> u32" where
  "elf_error_code ELF_E_NONE = 0"
| "elf_error_code ELF_E_ARCHIVE = 1"
| "elf_error_code ELF_E_ARGUMENT = 2"
| "elf_error_code ELF_E_CLASS = 3"
| "elf_error_code ELF_E_DATA = 4"
| "elf_error_code ELF_E_HEADER = 5"
| "elf_error_code ELF_E_IO = 6"
| "elf_error_code ELF_E_LAYOUT = 7"
| "elf_error_code ELF_E_MODE = 8"
| "elf_error_code ELF_E_RANGE = 9"
| "elf_error_code ELF_E_RESOURCE = 10"
| "elf_error_code ELF_E_SECTION = 11"
| "elf_error_code ELF_E_SEQUENCE = 12"
| "elf_error_code ELF_E_UNIMPL = 13"
| "elf_error_code ELF_E_VERSION = 14"
| "elf_error_code ELF_E_NUM = 15"

section \<open>Constants\<close>

abbreviation "ELFCLASSNONE \<equiv> (0 :: int)"
abbreviation "ELFCLASS32 \<equiv> (1 :: int)"
abbreviation "ELFCLASS64 \<equiv> (2 :: int)"

abbreviation "ELFDATANONE \<equiv> (0 :: u32)"
abbreviation "ELFDATA2LSB \<equiv> (1 :: u32)"
abbreviation "ELFDATA2MSB \<equiv> (2 :: u32)"

abbreviation "EV_NONE \<equiv> (0 :: u32)"
abbreviation "EV_CURRENT \<equiv> (1 :: u32)"

abbreviation "EI_CLASS \<equiv> (4 :: nat)"
abbreviation "EI_DATA \<equiv> (5 :: nat)"
abbreviation "EI_VERSION \<equiv> (6 :: nat)"
abbreviation "EI_NIDENT \<equiv> (16 :: nat)"

definition ELFMAG :: bytes where
  "ELFMAG = [0x7f, 0x45, 0x4c, 0x46]"

abbreviation "EM_NONE \<equiv> (0 :: u16)"
abbreviation "EM_MIPS \<equiv> (8 :: u16)"

abbreviation "SHN_UNDEF \<equiv> (0 :: u64)"
abbreviation "SHN_LORESERVE \<equiv> (0xff00 :: u64)"
abbreviation "SHN_XINDEX \<equiv> (0xffff :: u64)"
abbreviation "PN_XNUM \<equiv> (0xffff :: u64)"

abbreviation "SHF_ALLOC \<equiv> (2 :: u64)"

abbreviation "SHT_NULL \<equiv> (0 :: u32)"
abbreviation "SHT_PROGBITS \<equiv> (1 :: u32)"
abbreviation "SHT_SYMTAB \<equiv> (2 :: u32)"
abbreviation "SHT_STRTAB \<equiv> (3 :: u32)"
abbreviation "SHT_RELA \<equiv> (4 :: u32)"
abbreviation "SHT_HASH \<equiv> (5 :: u32)"
abbreviation "SHT_DYNAMIC \<equiv> (6 :: u32)"
abbreviation "SHT_NOTE \<equiv> (7 :: u32)"
abbreviation "SHT_NOBITS \<equiv> (8 :: u32)"
abbreviation "SHT_REL \<equiv> (9 :: u32)"
abbreviation "SHT_DYNSYM \<equiv> (11 :: u32)"
abbreviation "SHT_INIT_ARRAY \<equiv> (14 :: u32)"
abbreviation "SHT_FINI_ARRAY \<equiv> (15 :: u32)"
abbreviation "SHT_PREINIT_ARRAY \<equiv> (16 :: u32)"
abbreviation "SHT_GROUP \<equiv> (17 :: u32)"
abbreviation "SHT_SYMTAB_SHNDX \<equiv> (18 :: u32)"
abbreviation "SHT_LOOS \<equiv> (0x60000000 :: u32)"
abbreviation "SHT_SUNW_dof \<equiv> (0x6ffffff4 :: u32)"
abbreviation "SHT_SUNW_cap \<equiv> (0x6ffffff5 :: u32)"
abbreviation "SHT_GNU_HASH \<equiv> (0x6ffffff6 :: u32)"
abbreviation "SHT_GNU_LIBLIST \<equiv> (0x6ffffff7 :: u32)"
abbreviation "SHT_SUNW_move \<equiv> (0x6ffffffa :: u32)"
abbreviation "SHT_SUNW_syminfo \<equiv> (0x6ffffffc :: u32)"
abbreviation "SHT_SUNW_verdef \<equiv> (0x6ffffffd :: u32)"
abbreviation "SHT_SUNW_verneed \<equiv> (0x6ffffffe :: u32)"
abbreviation "SHT_SUNW_versym \<equiv> (0x6fffffff :: u32)"

section \<open>Members of a structure\<close>

text \<open>The basic types a member of \<open>elf_types.m4\<close> can have, and their values.\<close>

datatype ftype = BYTE | HALF | WORD | SWORD | LWORD | XWORD | SXWORD | ADDR | OFF | IDENT

datatype fval = VByte u8 | VHalf u16 | VWord u32 | VXword u64 | VIdent bytes

text \<open>\<open>field_size ec f\<close>: the size of a member in bytes, in the file and in memory.\<close>

fun field_size :: "int \<Rightarrow> ftype \<Rightarrow> nat" where
  "field_size ec BYTE = 1"
| "field_size ec HALF = 2"
| "field_size ec WORD = 4"
| "field_size ec SWORD = 4"
| "field_size ec LWORD = 8"
| "field_size ec XWORD = 8"
| "field_size ec SXWORD = 8"
| "field_size ec ADDR = (if ec = ELFCLASS32 then 4 else 8)"
| "field_size ec OFF = (if ec = ELFCLASS32 then 4 else 8)"
| "field_size ec IDENT = EI_NIDENT"

fun field_align :: "int \<Rightarrow> ftype \<Rightarrow> nat" where
  "field_align ec IDENT = 1"
| "field_align ec f = field_size ec f"

type_synonym member_list = "(string \<times> ftype) list"

section \<open>The member lists of \<open>elf_types.m4\<close>\<close>

definition Elf32_Cap_DEF :: member_list where
  "Elf32_Cap_DEF = [(''c_tag'', WORD), (''c_un.c_val'', WORD)]"

definition Elf64_Cap_DEF :: member_list where
  "Elf64_Cap_DEF = [(''c_tag'', XWORD), (''c_un.c_val'', XWORD)]"

definition Elf32_Dyn_DEF :: member_list where
  "Elf32_Dyn_DEF = [(''d_tag'', SWORD), (''d_un.d_ptr'', WORD)]"

definition Elf64_Dyn_DEF :: member_list where
  "Elf64_Dyn_DEF = [(''d_tag'', SXWORD), (''d_un.d_ptr'', XWORD)]"

definition Elf32_Ehdr_DEF :: member_list where
  "Elf32_Ehdr_DEF = [(''e_ident'', IDENT), (''e_type'', HALF), (''e_machine'', HALF), (''e_version'',
     WORD), (''e_entry'', ADDR), (''e_phoff'', OFF), (''e_shoff'', OFF), (''e_flags'',
     WORD), (''e_ehsize'', HALF), (''e_phentsize'', HALF), (''e_phnum'', HALF),
     (''e_shentsize'', HALF), (''e_shnum'', HALF), (''e_shstrndx'', HALF)]"

definition Elf64_Ehdr_DEF :: member_list where
  "Elf64_Ehdr_DEF = [(''e_ident'', IDENT), (''e_type'', HALF), (''e_machine'', HALF), (''e_version'',
     WORD), (''e_entry'', ADDR), (''e_phoff'', OFF), (''e_shoff'', OFF), (''e_flags'',
     WORD), (''e_ehsize'', HALF), (''e_phentsize'', HALF), (''e_phnum'', HALF),
     (''e_shentsize'', HALF), (''e_shnum'', HALF), (''e_shstrndx'', HALF)]"

definition Elf32_Move_DEF :: member_list where
  "Elf32_Move_DEF = [(''m_value'', LWORD), (''m_info'', WORD), (''m_poffset'', WORD), (''m_repeat'',
     HALF), (''m_stride'', HALF)]"

definition Elf64_Move_DEF :: member_list where
  "Elf64_Move_DEF = [(''m_value'', LWORD), (''m_info'', XWORD), (''m_poffset'', XWORD), (''m_repeat'',
     HALF), (''m_stride'', HALF)]"

definition Elf32_Phdr_DEF :: member_list where
  "Elf32_Phdr_DEF = [(''p_type'', WORD), (''p_offset'', OFF), (''p_vaddr'', ADDR), (''p_paddr'', ADDR),
     (''p_filesz'', WORD), (''p_memsz'', WORD), (''p_flags'', WORD), (''p_align'', WORD)]"

definition Elf64_Phdr_DEF :: member_list where
  "Elf64_Phdr_DEF = [(''p_type'', WORD), (''p_flags'', WORD), (''p_offset'', OFF), (''p_vaddr'', ADDR),
     (''p_paddr'', ADDR), (''p_filesz'', XWORD), (''p_memsz'', XWORD), (''p_align'',
     XWORD)]"

definition Elf32_Rel_DEF :: member_list where
  "Elf32_Rel_DEF = [(''r_offset'', ADDR), (''r_info'', WORD)]"

definition Elf64_Rel_DEF :: member_list where
  "Elf64_Rel_DEF = [(''r_offset'', ADDR), (''r_info'', XWORD)]"

definition Elf32_Rela_DEF :: member_list where
  "Elf32_Rela_DEF = [(''r_offset'', ADDR), (''r_info'', WORD), (''r_addend'', SWORD)]"

definition Elf64_Rela_DEF :: member_list where
  "Elf64_Rela_DEF = [(''r_offset'', ADDR), (''r_info'', XWORD), (''r_addend'', SXWORD)]"

definition Elf32_Shdr_DEF :: member_list where
  "Elf32_Shdr_DEF = [(''sh_name'', WORD), (''sh_type'', WORD), (''sh_flags'', WORD), (''sh_addr'', ADDR),
     (''sh_offset'', OFF), (''sh_size'', WORD), (''sh_link'', WORD), (''sh_info'', WORD),
     (''sh_addralign'', WORD), (''sh_entsize'', WORD)]"

definition Elf64_Shdr_DEF :: member_list where
  "Elf64_Shdr_DEF = [(''sh_name'', WORD), (''sh_type'', WORD), (''sh_flags'', XWORD), (''sh_addr'',
     ADDR), (''sh_offset'', OFF), (''sh_size'', XWORD), (''sh_link'', WORD),
     (''sh_info'', WORD), (''sh_addralign'', XWORD), (''sh_entsize'', XWORD)]"

definition Elf32_Sym_DEF :: member_list where
  "Elf32_Sym_DEF = [(''st_name'', WORD), (''st_value'', ADDR), (''st_size'', WORD), (''st_info'', BYTE),
     (''st_other'', BYTE), (''st_shndx'', HALF)]"

definition Elf64_Sym_DEF :: member_list where
  "Elf64_Sym_DEF = [(''st_name'', WORD), (''st_info'', BYTE), (''st_other'', BYTE), (''st_shndx'',
     HALF), (''st_value'', ADDR), (''st_size'', XWORD)]"

definition Elf32_Syminfo_DEF :: member_list where
  "Elf32_Syminfo_DEF = [(''si_boundto'', HALF), (''si_flags'', HALF)]"

definition Elf64_Syminfo_DEF :: member_list where
  "Elf64_Syminfo_DEF = [(''si_boundto'', HALF), (''si_flags'', HALF)]"

definition Elf32_Verdaux_DEF :: member_list where
  "Elf32_Verdaux_DEF = [(''vda_name'', WORD), (''vda_next'', WORD)]"

definition Elf64_Verdaux_DEF :: member_list where
  "Elf64_Verdaux_DEF = [(''vda_name'', WORD), (''vda_next'', WORD)]"

definition Elf32_Verdef_DEF :: member_list where
  "Elf32_Verdef_DEF = [(''vd_version'', HALF), (''vd_flags'', HALF), (''vd_ndx'', HALF), (''vd_cnt'',
     HALF), (''vd_hash'', WORD), (''vd_aux'', WORD), (''vd_next'', WORD)]"

definition Elf64_Verdef_DEF :: member_list where
  "Elf64_Verdef_DEF = [(''vd_version'', HALF), (''vd_flags'', HALF), (''vd_ndx'', HALF), (''vd_cnt'',
     HALF), (''vd_hash'', WORD), (''vd_aux'', WORD), (''vd_next'', WORD)]"

definition Elf32_Verneed_DEF :: member_list where
  "Elf32_Verneed_DEF = [(''vn_version'', HALF), (''vn_cnt'', HALF), (''vn_file'', WORD), (''vn_aux'', WORD),
     (''vn_next'', WORD)]"

definition Elf64_Verneed_DEF :: member_list where
  "Elf64_Verneed_DEF = [(''vn_version'', HALF), (''vn_cnt'', HALF), (''vn_file'', WORD), (''vn_aux'', WORD),
     (''vn_next'', WORD)]"

definition Elf32_Vernaux_DEF :: member_list where
  "Elf32_Vernaux_DEF = [(''vna_hash'', WORD), (''vna_flags'', HALF), (''vna_other'', HALF), (''vna_name'',
     WORD), (''vna_next'', WORD)]"

definition Elf64_Vernaux_DEF :: member_list where
  "Elf64_Vernaux_DEF = [(''vna_hash'', WORD), (''vna_flags'', HALF), (''vna_other'', HALF), (''vna_name'',
     WORD), (''vna_next'', WORD)]"

lemmas member_list_defs [layout_simps] =
  Elf32_Cap_DEF_def Elf64_Cap_DEF_def Elf32_Dyn_DEF_def Elf64_Dyn_DEF_def Elf32_Ehdr_DEF_def
  Elf64_Ehdr_DEF_def Elf32_Move_DEF_def Elf64_Move_DEF_def Elf32_Phdr_DEF_def
  Elf64_Phdr_DEF_def Elf32_Rel_DEF_def Elf64_Rel_DEF_def Elf32_Rela_DEF_def
  Elf64_Rela_DEF_def Elf32_Shdr_DEF_def Elf64_Shdr_DEF_def Elf32_Sym_DEF_def
  Elf64_Sym_DEF_def Elf32_Syminfo_DEF_def Elf64_Syminfo_DEF_def Elf32_Verdaux_DEF_def
  Elf64_Verdaux_DEF_def Elf32_Verdef_DEF_def Elf64_Verdef_DEF_def Elf32_Verneed_DEF_def
  Elf64_Verneed_DEF_def Elf32_Vernaux_DEF_def Elf64_Vernaux_DEF_def

section \<open>The structures as records\<close>

text \<open>
  A field of \<open>Elf64_X\<close> keeps its C name, the same field of \<open>Elf32_X\<close> has the suffix 32. Fields that two
  structures share in C (\<open>r_offset\<close> of \<open>Rel\<close> and \<open>Rela\<close>, \<open>e_version\<close> of the header and of the
  descriptor) are told apart by a prefix. Signed members are kept as words and read with \<open>sint\<close>.

  \<open>X_fields\<close> lists the members in the order of the structure, \<open>X_of\<close> reads such a list back.
\<close>

text \<open>Reading the next member, of a given type, from a member list.\<close>

fun take_byte :: "fval list \<Rightarrow> (u8 \<times> fval list) option" where
  "take_byte (VByte x # fs) = Some (x, fs)"
| "take_byte _ = None"

fun take_half :: "fval list \<Rightarrow> (u16 \<times> fval list) option" where
  "take_half (VHalf x # fs) = Some (x, fs)"
| "take_half _ = None"

fun take_word :: "fval list \<Rightarrow> (u32 \<times> fval list) option" where
  "take_word (VWord x # fs) = Some (x, fs)"
| "take_word _ = None"

fun take_xword :: "fval list \<Rightarrow> (u64 \<times> fval list) option" where
  "take_xword (VXword x # fs) = Some (x, fs)"
| "take_xword _ = None"

fun take_ident :: "fval list \<Rightarrow> (bytes \<times> fval list) option" where
  "take_ident (VIdent x # fs) = Some (x, fs)"
| "take_ident _ = None"

lemma take_field_iff:
  "take_byte fs = Some (b, fs') \<longleftrightarrow> fs = VByte b # fs'"
  "take_half fs = Some (h, fs') \<longleftrightarrow> fs = VHalf h # fs'"
  "take_word fs = Some (w, fs') \<longleftrightarrow> fs = VWord w # fs'"
  "take_xword fs = Some (x, fs') \<longleftrightarrow> fs = VXword x # fs'"
  "take_ident fs = Some (i, fs') \<longleftrightarrow> fs = VIdent i # fs'"
  by (cases fs rule: take_byte.cases; auto; cases fs rule: take_half.cases; auto)+

record Elf32_Cap =
  c_tag32 :: u32
  c_val32 :: u32

definition Elf32_Cap_fields :: "Elf32_Cap \<Rightarrow> fval list" where
  "Elf32_Cap_fields r =
     [VWord (c_tag32 r), VWord (c_val32 r)]"

definition Elf32_Cap_of :: "fval list \<Rightarrow> Elf32_Cap option" where
  "Elf32_Cap_of fs = do {
     (x0, fs) \<leftarrow> take_word fs;
     (x1, fs) \<leftarrow> take_word fs;
     (if fs = [] then Some \<lparr>c_tag32 = x0, c_val32 = x1\<rparr>
      else None) }"

lemma Elf32_Cap_of_fields [codec_simps]: "Elf32_Cap_of (Elf32_Cap_fields r) = Some r"
  by (simp add: Elf32_Cap_fields_def Elf32_Cap_of_def)

lemma Elf32_Cap_fields_of: "Elf32_Cap_of fs = Some r \<Longrightarrow> Elf32_Cap_fields r = fs"
  by (auto simp: Elf32_Cap_fields_def Elf32_Cap_of_def take_field_iff bind_Some_iff split: if_splits)

record Elf64_Cap =
  c_tag :: u64
  c_val :: u64

definition Elf64_Cap_fields :: "Elf64_Cap \<Rightarrow> fval list" where
  "Elf64_Cap_fields r =
     [VXword (c_tag r), VXword (c_val r)]"

definition Elf64_Cap_of :: "fval list \<Rightarrow> Elf64_Cap option" where
  "Elf64_Cap_of fs = do {
     (x0, fs) \<leftarrow> take_xword fs;
     (x1, fs) \<leftarrow> take_xword fs;
     (if fs = [] then Some \<lparr>c_tag = x0, c_val = x1\<rparr>
      else None) }"

lemma Elf64_Cap_of_fields [codec_simps]: "Elf64_Cap_of (Elf64_Cap_fields r) = Some r"
  by (simp add: Elf64_Cap_fields_def Elf64_Cap_of_def)

lemma Elf64_Cap_fields_of: "Elf64_Cap_of fs = Some r \<Longrightarrow> Elf64_Cap_fields r = fs"
  by (auto simp: Elf64_Cap_fields_def Elf64_Cap_of_def take_field_iff bind_Some_iff split: if_splits)

record Elf32_Dyn =
  d_tag32 :: u32
  d_val32 :: u32

definition Elf32_Dyn_fields :: "Elf32_Dyn \<Rightarrow> fval list" where
  "Elf32_Dyn_fields r =
     [VWord (d_tag32 r), VWord (d_val32 r)]"

definition Elf32_Dyn_of :: "fval list \<Rightarrow> Elf32_Dyn option" where
  "Elf32_Dyn_of fs = do {
     (x0, fs) \<leftarrow> take_word fs;
     (x1, fs) \<leftarrow> take_word fs;
     (if fs = [] then Some \<lparr>d_tag32 = x0, d_val32 = x1\<rparr>
      else None) }"

lemma Elf32_Dyn_of_fields [codec_simps]: "Elf32_Dyn_of (Elf32_Dyn_fields r) = Some r"
  by (simp add: Elf32_Dyn_fields_def Elf32_Dyn_of_def)

lemma Elf32_Dyn_fields_of: "Elf32_Dyn_of fs = Some r \<Longrightarrow> Elf32_Dyn_fields r = fs"
  by (auto simp: Elf32_Dyn_fields_def Elf32_Dyn_of_def take_field_iff bind_Some_iff split: if_splits)

record Elf64_Dyn =
  d_tag :: u64
  d_val :: u64

definition Elf64_Dyn_fields :: "Elf64_Dyn \<Rightarrow> fval list" where
  "Elf64_Dyn_fields r =
     [VXword (d_tag r), VXword (d_val r)]"

definition Elf64_Dyn_of :: "fval list \<Rightarrow> Elf64_Dyn option" where
  "Elf64_Dyn_of fs = do {
     (x0, fs) \<leftarrow> take_xword fs;
     (x1, fs) \<leftarrow> take_xword fs;
     (if fs = [] then Some \<lparr>d_tag = x0, d_val = x1\<rparr>
      else None) }"

lemma Elf64_Dyn_of_fields [codec_simps]: "Elf64_Dyn_of (Elf64_Dyn_fields r) = Some r"
  by (simp add: Elf64_Dyn_fields_def Elf64_Dyn_of_def)

lemma Elf64_Dyn_fields_of: "Elf64_Dyn_of fs = Some r \<Longrightarrow> Elf64_Dyn_fields r = fs"
  by (auto simp: Elf64_Dyn_fields_def Elf64_Dyn_of_def take_field_iff bind_Some_iff split: if_splits)

record Elf32_Ehdr =
  e_ident32 :: bytes
  e_type32 :: u16
  e_machine32 :: u16
  eh_version32 :: u32
  e_entry32 :: u32
  e_phoff32 :: u32
  e_shoff32 :: u32
  eh_flags32 :: u32
  e_ehsize32 :: u16
  e_phentsize32 :: u16
  e_phnum32 :: u16
  e_shentsize32 :: u16
  e_shnum32 :: u16
  e_shstrndx32 :: u16

definition Elf32_Ehdr_fields :: "Elf32_Ehdr \<Rightarrow> fval list" where
  "Elf32_Ehdr_fields r =
     [VIdent (e_ident32 r), VHalf (e_type32 r), VHalf (e_machine32 r), VWord (eh_version32
      r), VWord (e_entry32 r), VWord (e_phoff32 r), VWord (e_shoff32 r), VWord (eh_flags32
      r), VHalf (e_ehsize32 r), VHalf (e_phentsize32 r), VHalf (e_phnum32 r), VHalf
      (e_shentsize32 r), VHalf (e_shnum32 r), VHalf (e_shstrndx32 r)]"

definition Elf32_Ehdr_of :: "fval list \<Rightarrow> Elf32_Ehdr option" where
  "Elf32_Ehdr_of fs = do {
     (x0, fs) \<leftarrow> take_ident fs;
     (x1, fs) \<leftarrow> take_half fs;
     (x2, fs) \<leftarrow> take_half fs;
     (x3, fs) \<leftarrow> take_word fs;
     (x4, fs) \<leftarrow> take_word fs;
     (x5, fs) \<leftarrow> take_word fs;
     (x6, fs) \<leftarrow> take_word fs;
     (x7, fs) \<leftarrow> take_word fs;
     (x8, fs) \<leftarrow> take_half fs;
     (x9, fs) \<leftarrow> take_half fs;
     (x10, fs) \<leftarrow> take_half fs;
     (x11, fs) \<leftarrow> take_half fs;
     (x12, fs) \<leftarrow> take_half fs;
     (x13, fs) \<leftarrow> take_half fs;
     (if fs = [] then Some \<lparr>e_ident32 = x0, e_type32 = x1, e_machine32 = x2, eh_version32 = x3, e_entry32 = x4,
       e_phoff32 = x5, e_shoff32 = x6, eh_flags32 = x7, e_ehsize32 = x8, e_phentsize32 =
       x9, e_phnum32 = x10, e_shentsize32 = x11, e_shnum32 = x12, e_shstrndx32 = x13\<rparr>
      else None) }"

lemma Elf32_Ehdr_of_fields [codec_simps]: "Elf32_Ehdr_of (Elf32_Ehdr_fields r) = Some r"
  by (simp add: Elf32_Ehdr_fields_def Elf32_Ehdr_of_def)

lemma Elf32_Ehdr_fields_of: "Elf32_Ehdr_of fs = Some r \<Longrightarrow> Elf32_Ehdr_fields r = fs"
  by (auto simp: Elf32_Ehdr_fields_def Elf32_Ehdr_of_def take_field_iff bind_Some_iff split: if_splits)

record Elf64_Ehdr =
  e_ident :: bytes
  e_type :: u16
  e_machine :: u16
  eh_version :: u32
  e_entry :: u64
  e_phoff :: u64
  e_shoff :: u64
  eh_flags :: u32
  e_ehsize :: u16
  e_phentsize :: u16
  e_phnum :: u16
  e_shentsize :: u16
  e_shnum :: u16
  e_shstrndx :: u16

definition Elf64_Ehdr_fields :: "Elf64_Ehdr \<Rightarrow> fval list" where
  "Elf64_Ehdr_fields r =
     [VIdent (e_ident r), VHalf (e_type r), VHalf (e_machine r), VWord (eh_version r),
      VXword (e_entry r), VXword (e_phoff r), VXword (e_shoff r), VWord (eh_flags r),
      VHalf (e_ehsize r), VHalf (e_phentsize r), VHalf (e_phnum r), VHalf (e_shentsize r),
      VHalf (e_shnum r), VHalf (e_shstrndx r)]"

definition Elf64_Ehdr_of :: "fval list \<Rightarrow> Elf64_Ehdr option" where
  "Elf64_Ehdr_of fs = do {
     (x0, fs) \<leftarrow> take_ident fs;
     (x1, fs) \<leftarrow> take_half fs;
     (x2, fs) \<leftarrow> take_half fs;
     (x3, fs) \<leftarrow> take_word fs;
     (x4, fs) \<leftarrow> take_xword fs;
     (x5, fs) \<leftarrow> take_xword fs;
     (x6, fs) \<leftarrow> take_xword fs;
     (x7, fs) \<leftarrow> take_word fs;
     (x8, fs) \<leftarrow> take_half fs;
     (x9, fs) \<leftarrow> take_half fs;
     (x10, fs) \<leftarrow> take_half fs;
     (x11, fs) \<leftarrow> take_half fs;
     (x12, fs) \<leftarrow> take_half fs;
     (x13, fs) \<leftarrow> take_half fs;
     (if fs = [] then Some \<lparr>e_ident = x0, e_type = x1, e_machine = x2, eh_version = x3, e_entry = x4, e_phoff =
       x5, e_shoff = x6, eh_flags = x7, e_ehsize = x8, e_phentsize = x9, e_phnum = x10,
       e_shentsize = x11, e_shnum = x12, e_shstrndx = x13\<rparr>
      else None) }"

lemma Elf64_Ehdr_of_fields [codec_simps]: "Elf64_Ehdr_of (Elf64_Ehdr_fields r) = Some r"
  by (simp add: Elf64_Ehdr_fields_def Elf64_Ehdr_of_def)

lemma Elf64_Ehdr_fields_of: "Elf64_Ehdr_of fs = Some r \<Longrightarrow> Elf64_Ehdr_fields r = fs"
  by (auto simp: Elf64_Ehdr_fields_def Elf64_Ehdr_of_def take_field_iff bind_Some_iff split: if_splits)

record Elf32_Move =
  m_value32 :: u64
  m_info32 :: u32
  m_poffset32 :: u32
  m_repeat32 :: u16
  m_stride32 :: u16

definition Elf32_Move_fields :: "Elf32_Move \<Rightarrow> fval list" where
  "Elf32_Move_fields r =
     [VXword (m_value32 r), VWord (m_info32 r), VWord (m_poffset32 r), VHalf (m_repeat32
      r), VHalf (m_stride32 r)]"

definition Elf32_Move_of :: "fval list \<Rightarrow> Elf32_Move option" where
  "Elf32_Move_of fs = do {
     (x0, fs) \<leftarrow> take_xword fs;
     (x1, fs) \<leftarrow> take_word fs;
     (x2, fs) \<leftarrow> take_word fs;
     (x3, fs) \<leftarrow> take_half fs;
     (x4, fs) \<leftarrow> take_half fs;
     (if fs = [] then Some \<lparr>m_value32 = x0, m_info32 = x1, m_poffset32 = x2, m_repeat32 = x3, m_stride32 = x4\<rparr>
      else None) }"

lemma Elf32_Move_of_fields [codec_simps]: "Elf32_Move_of (Elf32_Move_fields r) = Some r"
  by (simp add: Elf32_Move_fields_def Elf32_Move_of_def)

lemma Elf32_Move_fields_of: "Elf32_Move_of fs = Some r \<Longrightarrow> Elf32_Move_fields r = fs"
  by (auto simp: Elf32_Move_fields_def Elf32_Move_of_def take_field_iff bind_Some_iff split: if_splits)

record Elf64_Move =
  m_value :: u64
  m_info :: u64
  m_poffset :: u64
  m_repeat :: u16
  m_stride :: u16

definition Elf64_Move_fields :: "Elf64_Move \<Rightarrow> fval list" where
  "Elf64_Move_fields r =
     [VXword (m_value r), VXword (m_info r), VXword (m_poffset r), VHalf (m_repeat r),
      VHalf (m_stride r)]"

definition Elf64_Move_of :: "fval list \<Rightarrow> Elf64_Move option" where
  "Elf64_Move_of fs = do {
     (x0, fs) \<leftarrow> take_xword fs;
     (x1, fs) \<leftarrow> take_xword fs;
     (x2, fs) \<leftarrow> take_xword fs;
     (x3, fs) \<leftarrow> take_half fs;
     (x4, fs) \<leftarrow> take_half fs;
     (if fs = [] then Some \<lparr>m_value = x0, m_info = x1, m_poffset = x2, m_repeat = x3, m_stride = x4\<rparr>
      else None) }"

lemma Elf64_Move_of_fields [codec_simps]: "Elf64_Move_of (Elf64_Move_fields r) = Some r"
  by (simp add: Elf64_Move_fields_def Elf64_Move_of_def)

lemma Elf64_Move_fields_of: "Elf64_Move_of fs = Some r \<Longrightarrow> Elf64_Move_fields r = fs"
  by (auto simp: Elf64_Move_fields_def Elf64_Move_of_def take_field_iff bind_Some_iff split: if_splits)

record Elf32_Phdr =
  p_type32 :: u32
  p_offset32 :: u32
  p_vaddr32 :: u32
  p_paddr32 :: u32
  p_filesz32 :: u32
  p_memsz32 :: u32
  p_flags32 :: u32
  p_align32 :: u32

definition Elf32_Phdr_fields :: "Elf32_Phdr \<Rightarrow> fval list" where
  "Elf32_Phdr_fields r =
     [VWord (p_type32 r), VWord (p_offset32 r), VWord (p_vaddr32 r), VWord (p_paddr32 r),
      VWord (p_filesz32 r), VWord (p_memsz32 r), VWord (p_flags32 r), VWord (p_align32 r)]"

definition Elf32_Phdr_of :: "fval list \<Rightarrow> Elf32_Phdr option" where
  "Elf32_Phdr_of fs = do {
     (x0, fs) \<leftarrow> take_word fs;
     (x1, fs) \<leftarrow> take_word fs;
     (x2, fs) \<leftarrow> take_word fs;
     (x3, fs) \<leftarrow> take_word fs;
     (x4, fs) \<leftarrow> take_word fs;
     (x5, fs) \<leftarrow> take_word fs;
     (x6, fs) \<leftarrow> take_word fs;
     (x7, fs) \<leftarrow> take_word fs;
     (if fs = [] then Some \<lparr>p_type32 = x0, p_offset32 = x1, p_vaddr32 = x2, p_paddr32 = x3, p_filesz32 = x4,
       p_memsz32 = x5, p_flags32 = x6, p_align32 = x7\<rparr>
      else None) }"

lemma Elf32_Phdr_of_fields [codec_simps]: "Elf32_Phdr_of (Elf32_Phdr_fields r) = Some r"
  by (simp add: Elf32_Phdr_fields_def Elf32_Phdr_of_def)

lemma Elf32_Phdr_fields_of: "Elf32_Phdr_of fs = Some r \<Longrightarrow> Elf32_Phdr_fields r = fs"
  by (auto simp: Elf32_Phdr_fields_def Elf32_Phdr_of_def take_field_iff bind_Some_iff split: if_splits)

record Elf64_Phdr =
  p_type :: u32
  p_flags :: u32
  p_offset :: u64
  p_vaddr :: u64
  p_paddr :: u64
  p_filesz :: u64
  p_memsz :: u64
  p_align :: u64

definition Elf64_Phdr_fields :: "Elf64_Phdr \<Rightarrow> fval list" where
  "Elf64_Phdr_fields r =
     [VWord (p_type r), VWord (p_flags r), VXword (p_offset r), VXword (p_vaddr r), VXword
      (p_paddr r), VXword (p_filesz r), VXword (p_memsz r), VXword (p_align r)]"

definition Elf64_Phdr_of :: "fval list \<Rightarrow> Elf64_Phdr option" where
  "Elf64_Phdr_of fs = do {
     (x0, fs) \<leftarrow> take_word fs;
     (x1, fs) \<leftarrow> take_word fs;
     (x2, fs) \<leftarrow> take_xword fs;
     (x3, fs) \<leftarrow> take_xword fs;
     (x4, fs) \<leftarrow> take_xword fs;
     (x5, fs) \<leftarrow> take_xword fs;
     (x6, fs) \<leftarrow> take_xword fs;
     (x7, fs) \<leftarrow> take_xword fs;
     (if fs = [] then Some \<lparr>p_type = x0, p_flags = x1, p_offset = x2, p_vaddr = x3, p_paddr = x4, p_filesz = x5,
       p_memsz = x6, p_align = x7\<rparr>
      else None) }"

lemma Elf64_Phdr_of_fields [codec_simps]: "Elf64_Phdr_of (Elf64_Phdr_fields r) = Some r"
  by (simp add: Elf64_Phdr_fields_def Elf64_Phdr_of_def)

lemma Elf64_Phdr_fields_of: "Elf64_Phdr_of fs = Some r \<Longrightarrow> Elf64_Phdr_fields r = fs"
  by (auto simp: Elf64_Phdr_fields_def Elf64_Phdr_of_def take_field_iff bind_Some_iff split: if_splits)

record Elf32_Rel =
  r_offset32 :: u32
  r_info32 :: u32

definition Elf32_Rel_fields :: "Elf32_Rel \<Rightarrow> fval list" where
  "Elf32_Rel_fields r =
     [VWord (r_offset32 r), VWord (r_info32 r)]"

definition Elf32_Rel_of :: "fval list \<Rightarrow> Elf32_Rel option" where
  "Elf32_Rel_of fs = do {
     (x0, fs) \<leftarrow> take_word fs;
     (x1, fs) \<leftarrow> take_word fs;
     (if fs = [] then Some \<lparr>r_offset32 = x0, r_info32 = x1\<rparr>
      else None) }"

lemma Elf32_Rel_of_fields [codec_simps]: "Elf32_Rel_of (Elf32_Rel_fields r) = Some r"
  by (simp add: Elf32_Rel_fields_def Elf32_Rel_of_def)

lemma Elf32_Rel_fields_of: "Elf32_Rel_of fs = Some r \<Longrightarrow> Elf32_Rel_fields r = fs"
  by (auto simp: Elf32_Rel_fields_def Elf32_Rel_of_def take_field_iff bind_Some_iff split: if_splits)

record Elf64_Rel =
  r_offset :: u64
  r_info :: u64

definition Elf64_Rel_fields :: "Elf64_Rel \<Rightarrow> fval list" where
  "Elf64_Rel_fields r =
     [VXword (r_offset r), VXword (r_info r)]"

definition Elf64_Rel_of :: "fval list \<Rightarrow> Elf64_Rel option" where
  "Elf64_Rel_of fs = do {
     (x0, fs) \<leftarrow> take_xword fs;
     (x1, fs) \<leftarrow> take_xword fs;
     (if fs = [] then Some \<lparr>r_offset = x0, r_info = x1\<rparr>
      else None) }"

lemma Elf64_Rel_of_fields [codec_simps]: "Elf64_Rel_of (Elf64_Rel_fields r) = Some r"
  by (simp add: Elf64_Rel_fields_def Elf64_Rel_of_def)

lemma Elf64_Rel_fields_of: "Elf64_Rel_of fs = Some r \<Longrightarrow> Elf64_Rel_fields r = fs"
  by (auto simp: Elf64_Rel_fields_def Elf64_Rel_of_def take_field_iff bind_Some_iff split: if_splits)

record Elf32_Rela =
  ra_offset32 :: u32
  ra_info32 :: u32
  ra_addend32 :: u32

definition Elf32_Rela_fields :: "Elf32_Rela \<Rightarrow> fval list" where
  "Elf32_Rela_fields r =
     [VWord (ra_offset32 r), VWord (ra_info32 r), VWord (ra_addend32 r)]"

definition Elf32_Rela_of :: "fval list \<Rightarrow> Elf32_Rela option" where
  "Elf32_Rela_of fs = do {
     (x0, fs) \<leftarrow> take_word fs;
     (x1, fs) \<leftarrow> take_word fs;
     (x2, fs) \<leftarrow> take_word fs;
     (if fs = [] then Some \<lparr>ra_offset32 = x0, ra_info32 = x1, ra_addend32 = x2\<rparr>
      else None) }"

lemma Elf32_Rela_of_fields [codec_simps]: "Elf32_Rela_of (Elf32_Rela_fields r) = Some r"
  by (simp add: Elf32_Rela_fields_def Elf32_Rela_of_def)

lemma Elf32_Rela_fields_of: "Elf32_Rela_of fs = Some r \<Longrightarrow> Elf32_Rela_fields r = fs"
  by (auto simp: Elf32_Rela_fields_def Elf32_Rela_of_def take_field_iff bind_Some_iff split: if_splits)

record Elf64_Rela =
  ra_offset :: u64
  ra_info :: u64
  ra_addend :: u64

definition Elf64_Rela_fields :: "Elf64_Rela \<Rightarrow> fval list" where
  "Elf64_Rela_fields r =
     [VXword (ra_offset r), VXword (ra_info r), VXword (ra_addend r)]"

definition Elf64_Rela_of :: "fval list \<Rightarrow> Elf64_Rela option" where
  "Elf64_Rela_of fs = do {
     (x0, fs) \<leftarrow> take_xword fs;
     (x1, fs) \<leftarrow> take_xword fs;
     (x2, fs) \<leftarrow> take_xword fs;
     (if fs = [] then Some \<lparr>ra_offset = x0, ra_info = x1, ra_addend = x2\<rparr>
      else None) }"

lemma Elf64_Rela_of_fields [codec_simps]: "Elf64_Rela_of (Elf64_Rela_fields r) = Some r"
  by (simp add: Elf64_Rela_fields_def Elf64_Rela_of_def)

lemma Elf64_Rela_fields_of: "Elf64_Rela_of fs = Some r \<Longrightarrow> Elf64_Rela_fields r = fs"
  by (auto simp: Elf64_Rela_fields_def Elf64_Rela_of_def take_field_iff bind_Some_iff split: if_splits)

record Elf32_Shdr =
  sh_name32 :: u32
  sh_type32 :: u32
  sh_flags32 :: u32
  sh_addr32 :: u32
  sh_offset32 :: u32
  sh_size32 :: u32
  sh_link32 :: u32
  sh_info32 :: u32
  sh_addralign32 :: u32
  sh_entsize32 :: u32

definition Elf32_Shdr_fields :: "Elf32_Shdr \<Rightarrow> fval list" where
  "Elf32_Shdr_fields r =
     [VWord (sh_name32 r), VWord (sh_type32 r), VWord (sh_flags32 r), VWord (sh_addr32 r),
      VWord (sh_offset32 r), VWord (sh_size32 r), VWord (sh_link32 r), VWord (sh_info32
      r), VWord (sh_addralign32 r), VWord (sh_entsize32 r)]"

definition Elf32_Shdr_of :: "fval list \<Rightarrow> Elf32_Shdr option" where
  "Elf32_Shdr_of fs = do {
     (x0, fs) \<leftarrow> take_word fs;
     (x1, fs) \<leftarrow> take_word fs;
     (x2, fs) \<leftarrow> take_word fs;
     (x3, fs) \<leftarrow> take_word fs;
     (x4, fs) \<leftarrow> take_word fs;
     (x5, fs) \<leftarrow> take_word fs;
     (x6, fs) \<leftarrow> take_word fs;
     (x7, fs) \<leftarrow> take_word fs;
     (x8, fs) \<leftarrow> take_word fs;
     (x9, fs) \<leftarrow> take_word fs;
     (if fs = [] then Some \<lparr>sh_name32 = x0, sh_type32 = x1, sh_flags32 = x2, sh_addr32 = x3, sh_offset32 = x4,
       sh_size32 = x5, sh_link32 = x6, sh_info32 = x7, sh_addralign32 = x8, sh_entsize32 =
       x9\<rparr>
      else None) }"

lemma Elf32_Shdr_of_fields [codec_simps]: "Elf32_Shdr_of (Elf32_Shdr_fields r) = Some r"
  by (simp add: Elf32_Shdr_fields_def Elf32_Shdr_of_def)

lemma Elf32_Shdr_fields_of: "Elf32_Shdr_of fs = Some r \<Longrightarrow> Elf32_Shdr_fields r = fs"
  by (auto simp: Elf32_Shdr_fields_def Elf32_Shdr_of_def take_field_iff bind_Some_iff split: if_splits)

record Elf64_Shdr =
  sh_name :: u32
  sh_type :: u32
  sh_flags :: u64
  sh_addr :: u64
  sh_offset :: u64
  sh_size :: u64
  sh_link :: u32
  sh_info :: u32
  sh_addralign :: u64
  sh_entsize :: u64

definition Elf64_Shdr_fields :: "Elf64_Shdr \<Rightarrow> fval list" where
  "Elf64_Shdr_fields r =
     [VWord (sh_name r), VWord (sh_type r), VXword (sh_flags r), VXword (sh_addr r),
      VXword (sh_offset r), VXword (sh_size r), VWord (sh_link r), VWord (sh_info r),
      VXword (sh_addralign r), VXword (sh_entsize r)]"

definition Elf64_Shdr_of :: "fval list \<Rightarrow> Elf64_Shdr option" where
  "Elf64_Shdr_of fs = do {
     (x0, fs) \<leftarrow> take_word fs;
     (x1, fs) \<leftarrow> take_word fs;
     (x2, fs) \<leftarrow> take_xword fs;
     (x3, fs) \<leftarrow> take_xword fs;
     (x4, fs) \<leftarrow> take_xword fs;
     (x5, fs) \<leftarrow> take_xword fs;
     (x6, fs) \<leftarrow> take_word fs;
     (x7, fs) \<leftarrow> take_word fs;
     (x8, fs) \<leftarrow> take_xword fs;
     (x9, fs) \<leftarrow> take_xword fs;
     (if fs = [] then Some \<lparr>sh_name = x0, sh_type = x1, sh_flags = x2, sh_addr = x3, sh_offset = x4, sh_size =
       x5, sh_link = x6, sh_info = x7, sh_addralign = x8, sh_entsize = x9\<rparr>
      else None) }"

lemma Elf64_Shdr_of_fields [codec_simps]: "Elf64_Shdr_of (Elf64_Shdr_fields r) = Some r"
  by (simp add: Elf64_Shdr_fields_def Elf64_Shdr_of_def)

lemma Elf64_Shdr_fields_of: "Elf64_Shdr_of fs = Some r \<Longrightarrow> Elf64_Shdr_fields r = fs"
  by (auto simp: Elf64_Shdr_fields_def Elf64_Shdr_of_def take_field_iff bind_Some_iff split: if_splits)

record Elf32_Sym =
  st_name32 :: u32
  st_value32 :: u32
  st_size32 :: u32
  st_info32 :: u8
  st_other32 :: u8
  st_shndx32 :: u16

definition Elf32_Sym_fields :: "Elf32_Sym \<Rightarrow> fval list" where
  "Elf32_Sym_fields r =
     [VWord (st_name32 r), VWord (st_value32 r), VWord (st_size32 r), VByte (st_info32 r),
      VByte (st_other32 r), VHalf (st_shndx32 r)]"

definition Elf32_Sym_of :: "fval list \<Rightarrow> Elf32_Sym option" where
  "Elf32_Sym_of fs = do {
     (x0, fs) \<leftarrow> take_word fs;
     (x1, fs) \<leftarrow> take_word fs;
     (x2, fs) \<leftarrow> take_word fs;
     (x3, fs) \<leftarrow> take_byte fs;
     (x4, fs) \<leftarrow> take_byte fs;
     (x5, fs) \<leftarrow> take_half fs;
     (if fs = [] then Some \<lparr>st_name32 = x0, st_value32 = x1, st_size32 = x2, st_info32 = x3, st_other32 = x4,
       st_shndx32 = x5\<rparr>
      else None) }"

lemma Elf32_Sym_of_fields [codec_simps]: "Elf32_Sym_of (Elf32_Sym_fields r) = Some r"
  by (simp add: Elf32_Sym_fields_def Elf32_Sym_of_def)

lemma Elf32_Sym_fields_of: "Elf32_Sym_of fs = Some r \<Longrightarrow> Elf32_Sym_fields r = fs"
  by (auto simp: Elf32_Sym_fields_def Elf32_Sym_of_def take_field_iff bind_Some_iff split: if_splits)

record Elf64_Sym =
  st_name :: u32
  st_info :: u8
  st_other :: u8
  st_shndx :: u16
  st_value :: u64
  st_size :: u64

definition Elf64_Sym_fields :: "Elf64_Sym \<Rightarrow> fval list" where
  "Elf64_Sym_fields r =
     [VWord (st_name r), VByte (st_info r), VByte (st_other r), VHalf (st_shndx r), VXword
      (st_value r), VXword (st_size r)]"

definition Elf64_Sym_of :: "fval list \<Rightarrow> Elf64_Sym option" where
  "Elf64_Sym_of fs = do {
     (x0, fs) \<leftarrow> take_word fs;
     (x1, fs) \<leftarrow> take_byte fs;
     (x2, fs) \<leftarrow> take_byte fs;
     (x3, fs) \<leftarrow> take_half fs;
     (x4, fs) \<leftarrow> take_xword fs;
     (x5, fs) \<leftarrow> take_xword fs;
     (if fs = [] then Some \<lparr>st_name = x0, st_info = x1, st_other = x2, st_shndx = x3, st_value = x4, st_size =
       x5\<rparr>
      else None) }"

lemma Elf64_Sym_of_fields [codec_simps]: "Elf64_Sym_of (Elf64_Sym_fields r) = Some r"
  by (simp add: Elf64_Sym_fields_def Elf64_Sym_of_def)

lemma Elf64_Sym_fields_of: "Elf64_Sym_of fs = Some r \<Longrightarrow> Elf64_Sym_fields r = fs"
  by (auto simp: Elf64_Sym_fields_def Elf64_Sym_of_def take_field_iff bind_Some_iff split: if_splits)

record Elf32_Syminfo =
  si_boundto32 :: u16
  si_flags32 :: u16

definition Elf32_Syminfo_fields :: "Elf32_Syminfo \<Rightarrow> fval list" where
  "Elf32_Syminfo_fields r =
     [VHalf (si_boundto32 r), VHalf (si_flags32 r)]"

definition Elf32_Syminfo_of :: "fval list \<Rightarrow> Elf32_Syminfo option" where
  "Elf32_Syminfo_of fs = do {
     (x0, fs) \<leftarrow> take_half fs;
     (x1, fs) \<leftarrow> take_half fs;
     (if fs = [] then Some \<lparr>si_boundto32 = x0, si_flags32 = x1\<rparr>
      else None) }"

lemma Elf32_Syminfo_of_fields [codec_simps]: "Elf32_Syminfo_of (Elf32_Syminfo_fields r) = Some r"
  by (simp add: Elf32_Syminfo_fields_def Elf32_Syminfo_of_def)

lemma Elf32_Syminfo_fields_of: "Elf32_Syminfo_of fs = Some r \<Longrightarrow> Elf32_Syminfo_fields r = fs"
  by (auto simp: Elf32_Syminfo_fields_def Elf32_Syminfo_of_def take_field_iff bind_Some_iff split: if_splits)

record Elf64_Syminfo =
  si_boundto :: u16
  si_flags :: u16

definition Elf64_Syminfo_fields :: "Elf64_Syminfo \<Rightarrow> fval list" where
  "Elf64_Syminfo_fields r =
     [VHalf (si_boundto r), VHalf (si_flags r)]"

definition Elf64_Syminfo_of :: "fval list \<Rightarrow> Elf64_Syminfo option" where
  "Elf64_Syminfo_of fs = do {
     (x0, fs) \<leftarrow> take_half fs;
     (x1, fs) \<leftarrow> take_half fs;
     (if fs = [] then Some \<lparr>si_boundto = x0, si_flags = x1\<rparr>
      else None) }"

lemma Elf64_Syminfo_of_fields [codec_simps]: "Elf64_Syminfo_of (Elf64_Syminfo_fields r) = Some r"
  by (simp add: Elf64_Syminfo_fields_def Elf64_Syminfo_of_def)

lemma Elf64_Syminfo_fields_of: "Elf64_Syminfo_of fs = Some r \<Longrightarrow> Elf64_Syminfo_fields r = fs"
  by (auto simp: Elf64_Syminfo_fields_def Elf64_Syminfo_of_def take_field_iff bind_Some_iff split: if_splits)

section \<open>File sizes: \<open>libelf_fsize.m4\<close>\<close>

text \<open>\<open>struct_def ec t\<close>: the member list \<open>Elf32_\<close>/\<open>Elf64_\<close>\<open>NAME_DEF\<close> of a fixed-size composite type.\<close>

fun struct_def :: "int \<Rightarrow> Elf_Type \<Rightarrow> member_list option" where
  "struct_def ec ELF_T_CAP = Some (if ec = ELFCLASS32 then Elf32_Cap_DEF else Elf64_Cap_DEF)"
| "struct_def ec ELF_T_DYN = Some (if ec = ELFCLASS32 then Elf32_Dyn_DEF else Elf64_Dyn_DEF)"
| "struct_def ec ELF_T_EHDR = Some (if ec = ELFCLASS32 then Elf32_Ehdr_DEF else Elf64_Ehdr_DEF)"
| "struct_def ec ELF_T_MOVE = Some (if ec = ELFCLASS32 then Elf32_Move_DEF else Elf64_Move_DEF)"
| "struct_def ec ELF_T_PHDR = Some (if ec = ELFCLASS32 then Elf32_Phdr_DEF else Elf64_Phdr_DEF)"
| "struct_def ec ELF_T_REL = Some (if ec = ELFCLASS32 then Elf32_Rel_DEF else Elf64_Rel_DEF)"
| "struct_def ec ELF_T_RELA = Some (if ec = ELFCLASS32 then Elf32_Rela_DEF else Elf64_Rela_DEF)"
| "struct_def ec ELF_T_SHDR = Some (if ec = ELFCLASS32 then Elf32_Shdr_DEF else Elf64_Shdr_DEF)"
| "struct_def ec ELF_T_SYM = Some (if ec = ELFCLASS32 then Elf32_Sym_DEF else Elf64_Sym_DEF)"
| "struct_def ec ELF_T_SYMINFO =
     Some (if ec = ELFCLASS32 then Elf32_Syminfo_DEF else Elf64_Syminfo_DEF)"
| "struct_def ec t = None"

text \<open>\<open>prim_type ec t\<close>: the integral type a primitive \<open>Elf_Type\<close> is an alias for, where it exists.\<close>

fun prim_type :: "int \<Rightarrow> Elf_Type \<Rightarrow> ftype option" where
  "prim_type ec ELF_T_ADDR = Some ADDR"
| "prim_type ec ELF_T_HALF = Some HALF"
| "prim_type ec ELF_T_LWORD = Some LWORD"
| "prim_type ec ELF_T_OFF = Some OFF"
| "prim_type ec ELF_T_SWORD = Some SWORD"
| "prim_type ec ELF_T_WORD = Some WORD"
| "prim_type ec ELF_T_XWORD = (if ec = ELFCLASS32 then None else Some XWORD)"
| "prim_type ec ELF_T_SXWORD = (if ec = ELFCLASS32 then None else Some SXWORD)"
| "prim_type ec t = None"

text \<open>The m4 macros \<open>FSZ32\<close> and \<open>FSZ64\<close> add up the sizes of the members.\<close>

primrec FSZ :: "int \<Rightarrow> member_list \<Rightarrow> nat" where
  "FSZ ec [] = 0"
| "FSZ ec (m # ms) = field_size ec (snd m) + FSZ ec ms"

text \<open>Types whose size the macros take as 1 (a byte count stands for their variable size).\<close>

definition byte_sized :: "Elf_Type \<Rightarrow> bool" where
  "byte_sized t = (t \<in> {ELF_T_BYTE, ELF_T_GNUHASH, ELF_T_NOTE, ELF_T_VDEF, ELF_T_VNEED})"

definition fsize_table :: "int \<Rightarrow> Elf_Type \<Rightarrow> nat" where
  "fsize_table ec t =
     (if byte_sized t then 1
      else case struct_def ec t of Some def \<Rightarrow> FSZ ec def
           | None \<Rightarrow> (case prim_type ec t of Some f \<Rightarrow> field_size ec f | None \<Rightarrow> 0))"

section \<open>Memory sizes and alignments: \<open>libelf_msize.m4\<close>, \<open>libelf_align.c\<close>\<close>

definition align_up :: "nat \<Rightarrow> nat \<Rightarrow> nat" where
  "align_up a n = ((n + (a - 1)) div a) * a"

text \<open>The end of the last member when each starts at the next multiple of its alignment.\<close>

primrec layout_end :: "int \<Rightarrow> nat \<Rightarrow> member_list \<Rightarrow> nat" where
  "layout_end ec off [] = off"
| "layout_end ec off (m # ms) =
     layout_end ec (align_up (field_align ec (snd m)) off + field_size ec (snd m)) ms"

primrec struct_align :: "int \<Rightarrow> member_list \<Rightarrow> nat" where
  "struct_align ec [] = 1"
| "struct_align ec (m # ms) = max (field_align ec (snd m)) (struct_align ec ms)"

definition sizeof_struct :: "int \<Rightarrow> member_list \<Rightarrow> nat" where
  "sizeof_struct ec def = align_up (struct_align ec def) (layout_end ec 0 def)"

definition msize_table :: "int \<Rightarrow> Elf_Type \<Rightarrow> nat" where
  "msize_table ec t =
     (if byte_sized t then 1
      else case struct_def ec t of Some def \<Rightarrow> sizeof_struct ec def
           | None \<Rightarrow> (case prim_type ec t of Some f \<Rightarrow> field_size ec f | None \<Rightarrow> 0))"

fun malign_table :: "int \<Rightarrow> Elf_Type \<Rightarrow> nat" where
  "malign_table ec ELF_T_BYTE = 1"
| "malign_table ec ELF_T_MOVEP = 0"
| "malign_table ec ELF_T_NOTE = 4"
| "malign_table ec ELF_T_VDEF =
     struct_align ec (if ec = ELFCLASS32 then Elf32_Verdef_DEF else Elf64_Verdef_DEF)"
| "malign_table ec ELF_T_VNEED =
     struct_align ec (if ec = ELFCLASS32 then Elf32_Verneed_DEF else Elf64_Verneed_DEF)"
| "malign_table ec ELF_T_GNUHASH = (if ec = ELFCLASS32 then 4 else 8)"
| "malign_table ec t =
     (case struct_def ec t of Some def \<Rightarrow> struct_align ec def
      | None \<Rightarrow> (case prim_type ec t of Some f \<Rightarrow> field_align ec f | None \<Rightarrow> 0))"

definition libelf_malign :: "Elf_Type \<Rightarrow> int \<Rightarrow> nat" where
  "libelf_malign t ec = (if \<not> elf_type_valid t then 0 else malign_table ec t)"

fun falign_table :: "int \<Rightarrow> Elf_Type \<Rightarrow> nat" where
  "falign_table ec ELF_T_ADDR = (if ec = ELFCLASS32 then 4 else 8)"
| "falign_table ec ELF_T_BYTE = 1"
| "falign_table ec ELF_T_CAP = (if ec = ELFCLASS32 then 4 else 8)"
| "falign_table ec ELF_T_DYN = (if ec = ELFCLASS32 then 4 else 8)"
| "falign_table ec ELF_T_EHDR = (if ec = ELFCLASS32 then 4 else 8)"
| "falign_table ec ELF_T_HALF = 2"
| "falign_table ec ELF_T_LWORD = 8"
| "falign_table ec ELF_T_MOVE = 8"
| "falign_table ec ELF_T_MOVEP = 0"
| "falign_table ec ELF_T_NOTE = 1"
| "falign_table ec ELF_T_OFF = (if ec = ELFCLASS32 then 4 else 8)"
| "falign_table ec ELF_T_PHDR = (if ec = ELFCLASS32 then 4 else 8)"
| "falign_table ec ELF_T_REL = (if ec = ELFCLASS32 then 4 else 8)"
| "falign_table ec ELF_T_RELA = (if ec = ELFCLASS32 then 4 else 8)"
| "falign_table ec ELF_T_SHDR = (if ec = ELFCLASS32 then 4 else 8)"
| "falign_table ec ELF_T_SWORD = 4"
| "falign_table ec ELF_T_SXWORD = (if ec = ELFCLASS32 then 0 else 8)"
| "falign_table ec ELF_T_SYM = (if ec = ELFCLASS32 then 4 else 8)"
| "falign_table ec ELF_T_SYMINFO = 2"
| "falign_table ec ELF_T_VDEF = 4"
| "falign_table ec ELF_T_VNEED = 4"
| "falign_table ec ELF_T_WORD = 4"
| "falign_table ec ELF_T_XWORD = (if ec = ELFCLASS32 then 0 else 8)"
| "falign_table ec ELF_T_GNUHASH = (if ec = ELFCLASS32 then 4 else 8)"
| "falign_table ec (ELF_T_INVALID i) = 0"

definition libelf_falign :: "Elf_Type \<Rightarrow> int \<Rightarrow> nat" where
  "libelf_falign t ec = (if \<not> elf_type_valid t then 0 else falign_table ec t)"

lemmas size_table_simps [layout_simps] =
  byte_sized_def fsize_table_def msize_table_def sizeof_struct_def align_up_def

lemma div_Suc_Suc_0: "(n :: nat) div Suc (Suc 0) = n div 2"
  by (simp add: numeral_2_eq_2)

text \<open>The sizes of the headers as numbers.\<close>

lemma ehdr_fsize [simp]:
  "fsize_table ELFCLASS32 ELF_T_EHDR = 52" "fsize_table ELFCLASS64 ELF_T_EHDR = 64"
  by (simp_all add: layout_simps)

lemma phdr_fsize [simp]:
  "fsize_table ELFCLASS32 ELF_T_PHDR = 32" "fsize_table ELFCLASS64 ELF_T_PHDR = 56"
  by (simp_all add: layout_simps)

lemma shdr_fsize [simp]:
  "fsize_table ELFCLASS32 ELF_T_SHDR = 40" "fsize_table ELFCLASS64 ELF_T_SHDR = 64"
  by (simp_all add: layout_simps)

lemma fsize_msize_rel:
  "fsize_table ec t \<le> msize_table ec t"
  "fsize_table ec t = 0 \<longleftrightarrow> msize_table ec t = 0"
  "t = ELF_T_MOVE \<longleftrightarrow> fsize_table ec t \<noteq> msize_table ec t"
  by (cases t; simp add: layout_simps div_Suc_Suc_0)+

text \<open>
  For every type and class the size of the file representation never exceeds that of the
  memory representation, the two are 0 together (the type is unsupported), and they differ
  only for \<open>ELF_T_MOVE\<close>, whose structure has trailing padding. The in-place converters
  of \<open>libelf_convert.m4\<close> and the size checks of \<open>_libelf_xlate\<close> rest on this.
\<close>

theorem fsize_le_msize:
  "fsize_table ec t \<le> msize_table ec t
   \<and> (fsize_table ec t = 0 \<longleftrightarrow> msize_table ec t = 0)
   \<and> (t = ELF_T_MOVE \<longleftrightarrow> fsize_table ec t \<noteq> msize_table ec t)"
  by (intro conjI fsize_msize_rel)

text \<open>
  The memory size of a fixed-size type is a multiple of its memory alignment, and that
  alignment is a power of two at most 8: elements of an array of any such type stay aligned.
\<close>

theorem msize_aligned:
  assumes "0 < msize_table ec t" "\<not> byte_sized t"
  shows "malign_table ec t dvd msize_table ec t \<and> malign_table ec t \<in> {1, 2, 4, 8}"
  using assms by (cases t) (auto simp: layout_simps div_Suc_Suc_0 split: if_splits)

theorem msize_aligned_witness:
  "0 < msize_table ELFCLASS32 ELF_T_MOVE \<and> \<not> byte_sized ELF_T_MOVE
   \<and> malign_table ELFCLASS32 ELF_T_MOVE dvd msize_table ELFCLASS32 ELF_T_MOVE"
proof -
  have a: "0 < msize_table ELFCLASS32 ELF_T_MOVE" by (simp add: layout_simps)
  have b: "\<not> byte_sized ELF_T_MOVE" by (simp add: layout_simps)
  show ?thesis using a b msize_aligned[OF a b] by blast
qed

end
