(* ===== verification/Libelf_Memory.thy ===== *)
theory Libelf_Memory
  imports Libelf_Prelude
begin

text \<open>
  The memory the library works on: a store of byte buffers (the mapped file, \<open>malloc\<close>ed
  blocks, buffers of the application), pointers into it, and the copying loops of the
  converters. A read or write outside a buffer is \<open>None\<close>.

  A pointer is a buffer and an offset. Two pointers into different buffers never overlap.
\<close>

type_synonym heap = "nat \<Rightarrow> bytes option"
type_synonym ptr = "nat \<times> nat"

definition ptr_add :: "ptr \<Rightarrow> nat \<Rightarrow> ptr" where
  "ptr_add p n = (fst p, snd p + n)"

definition mem_read :: "heap \<Rightarrow> ptr \<Rightarrow> nat \<Rightarrow> bytes option" where
  "mem_read h p n = (case h (fst p) of None \<Rightarrow> None | Some bs \<Rightarrow> slice_at bs (snd p) n)"

definition mem_write :: "heap \<Rightarrow> ptr \<Rightarrow> bytes \<Rightarrow> heap option" where
  "mem_write h p new =
     (case h (fst p) of None \<Rightarrow> None
      | Some bs \<Rightarrow> map_option (\<lambda>r. h(fst p \<mapsto> r)) (patch_at bs (snd p) new))"

text \<open>\<open>memcpy(dst, src, n)\<close>\<close>

definition mem_copy :: "heap \<Rightarrow> ptr \<Rightarrow> ptr \<Rightarrow> nat \<Rightarrow> heap option" where
  "mem_copy h dst src n = do { bs \<leftarrow> mem_read h src n; mem_write h dst bs }"

text \<open>\<open>apart p m q n\<close>: the \<open>m\<close> bytes at \<open>p\<close> and the \<open>n\<close> bytes at \<open>q\<close> do not overlap.\<close>

definition apart :: "ptr \<Rightarrow> nat \<Rightarrow> ptr \<Rightarrow> nat \<Rightarrow> bool" where
  "apart p m q n \<longleftrightarrow> fst p \<noteq> fst q \<or> snd p + m \<le> snd q \<or> snd q + n \<le> snd p"

lemma ptr_add_simps [simp]:
  "fst (ptr_add p n) = fst p" "snd (ptr_add p n) = snd p + n"
  "ptr_add (ptr_add p m) n = ptr_add p (m + n)" "ptr_add p 0 = p"
  by (simp_all add: ptr_add_def)

section \<open>Reading and writing\<close>

lemma mem_read_length: "mem_read h p n = Some bs \<Longrightarrow> length bs = n"
  by (auto simp: mem_read_def slice_at_length split: option.splits)

lemma mem_read_Some_iff:
  "(\<exists>bs. mem_read h p n = Some bs) \<longleftrightarrow> (\<exists>buf. h (fst p) = Some buf \<and> snd p + n \<le> length buf)"
  by (auto simp: mem_read_def slice_at_def split: option.splits)

lemma mem_write_Some_iff:
  "(\<exists>h'. mem_write h p new = Some h') \<longleftrightarrow> (\<exists>bs. mem_read h p (length new) = Some bs)"
  by (auto simp: mem_read_def mem_write_def slice_at_def patch_at_def split: option.splits)

lemma mem_write_total:
  "mem_read h p n \<noteq> None \<Longrightarrow> length new = n \<Longrightarrow> \<exists>h'. mem_write h p new = Some h'"
  using mem_write_Some_iff[of h p new] by auto

lemma mem_read_write_same:
  "mem_write h p new = Some h' \<Longrightarrow> mem_read h' p (length new) = Some new"
  by (auto simp: mem_read_def mem_write_def dest: slice_patch_same split: option.splits)

lemma mem_read_write_apart:
  assumes "mem_write h p new = Some h'" "apart p (length new) q n"
  shows "mem_read h' q n = mem_read h q n"
proof -
  from assms(1) obtain bs r where bs: "h (fst p) = Some bs"
    and r: "patch_at bs (snd p) new = Some r" and h': "h' = h(fst p \<mapsto> r)"
    by (auto simp: mem_write_def split: option.splits)
  show ?thesis
  proof (cases "fst p = fst q")
    case False
    then show ?thesis by (simp add: mem_read_def h')
  next
    case True
    then have "snd p + length new \<le> snd q \<or> snd q + n \<le> snd p"
      using assms(2) by (simp add: apart_def)
    then have "slice_at r (snd q) n = slice_at bs (snd q) n"
      using slice_patch_before[OF r] slice_patch_after[OF r] by blast
    then show ?thesis using True bs by (simp add: mem_read_def h')
  qed
qed

lemma mem_readable_write:
  assumes "mem_write h p new = Some h'"
  shows "(mem_read h' q n = None) = (mem_read h q n = None)"
  using assms
  by (auto simp: mem_write_def mem_read_def slice_at_def dest!: patch_at_length
      split: option.splits if_splits)

lemma slice_at_append:
  "slice_at bs off (m + n) =
     (case slice_at bs off m of None \<Rightarrow> None
      | Some x \<Rightarrow> (case slice_at bs (off + m) n of None \<Rightarrow> None | Some y \<Rightarrow> Some (x @ y)))"
  by (auto simp: slice_at_def take_add add.commute add.left_commute)

lemma mem_read_append:
  "mem_read h p (m + n) =
     (case mem_read h p m of None \<Rightarrow> None
      | Some x \<Rightarrow> (case mem_read h (ptr_add p m) n of None \<Rightarrow> None | Some y \<Rightarrow> Some (x @ y)))"
  by (auto simp: mem_read_def slice_at_append split: option.splits)

lemma mem_read_sub:
  assumes "mem_read h p k = Some bs" "off + n \<le> k"
  shows "mem_read h (ptr_add p off) n = Some (take n (drop off bs))"
  using assms by (auto simp: mem_read_def slice_at_def drop_take min_def add.commute
      split: option.splits if_splits)

lemma patch_at_append:
  assumes "off + (length x + length y) \<le> length bs"
  shows "patch_at bs off (x @ y) =
     Option.bind (patch_at bs off x) (\<lambda>r. patch_at r (off + length x) y)"
    and "patch_at bs off (x @ y) =
     Option.bind (patch_at bs (off + length x) y) (\<lambda>r. patch_at r off x)"
  using assms by (cases x; auto simp: patch_at_def min_def ac_simps)+

lemma mem_write_append:
  assumes "mem_read h p (length x + length y) \<noteq> None"
  shows "mem_write h p (x @ y) =
     Option.bind (mem_write h p x) (\<lambda>h'. mem_write h' (ptr_add p (length x)) y)"
    and "mem_write h p (x @ y) =
     Option.bind (mem_write h (ptr_add p (length x)) y) (\<lambda>h'. mem_write h' p x)"
proof -
  from assms obtain bs where bs: "h (fst p) = Some bs"
    and le: "snd p + (length x + length y) \<le> length bs"
    using mem_read_Some_iff[of h p "length x + length y"] by auto
  note w = patch_at_append[OF le]
  show "mem_write h p (x @ y) =
     Option.bind (mem_write h p x) (\<lambda>h'. mem_write h' (ptr_add p (length x)) y)"
    unfolding mem_write_def bs option.simps w(1)
    by (cases "patch_at bs (snd p) x") (auto simp: map_option_case split: option.split)
  show "mem_write h p (x @ y) =
     Option.bind (mem_write h (ptr_add p (length x)) y) (\<lambda>h'. mem_write h' p x)"
    unfolding mem_write_def bs option.simps w(2) ptr_add_simps
    by (cases "patch_at bs (snd p + length x) y") (auto simp: map_option_case split: option.split)
qed

section \<open>Element-wise copying\<close>

text \<open>\<open>chunks k n bs\<close>: the first \<open>n\<close> groups of \<open>k\<close> bytes.\<close>

primrec chunks :: "nat \<Rightarrow> nat \<Rightarrow> 'a list \<Rightarrow> 'a list list" where
  "chunks k 0 bs = []"
| "chunks k (Suc n) bs = take k bs # chunks k n (drop k bs)"

lemma length_chunks [simp]: "length (chunks k n bs) = n"
  by (induction n arbitrary: bs) auto

lemma chunks_snoc: "chunks k (Suc n) bs = chunks k n bs @ [take k (drop (n * k) bs)]"
proof (induction n arbitrary: bs)
  case 0
  then show ?case by simp
next
  case (Suc n)
  have "chunks k (Suc (Suc n)) bs = take k bs # chunks k (Suc n) (drop k bs)" by simp
  also have "\<dots> = take k bs # chunks k n (drop k bs) @ [take k (drop (n * k) (drop k bs))]"
    by (simp only: Suc.IH)
  finally show ?case by (simp add: add.commute)
qed

lemma chunks_prefix: "n * k \<le> m \<Longrightarrow> chunks k n (take m bs) = chunks k n bs"
  by (induction n arbitrary: bs m) (auto simp: drop_take)

lemma concat_chunks: "length bs = n * k \<Longrightarrow> concat (chunks k n bs) = bs"
  by (induction n arbitrary: bs) auto

lemma chunk_lengths: "length bs = n * k \<Longrightarrow> x \<in> set (chunks k n bs) \<Longrightarrow> length x = k"
proof (induction n arbitrary: bs)
  case 0
  then show ?case by simp
next
  case (Suc n)
  then show ?case using Suc.IH[of "drop k bs"] by auto
qed

lemma length_concat_map_const:
  "(\<And>x. x \<in> set xs \<Longrightarrow> length (f x) = k) \<Longrightarrow> length (concat (map f xs)) = length xs * k"
  by (induction xs) auto

lemma length_image:
  assumes "\<And>x. length x = m \<Longrightarrow> length (f x) = k" "length bs = n * m"
  shows "length (concat (map f (chunks m n bs))) = n * k"
  using assms(2)
proof (induction n arbitrary: bs)
  case 0
  then show ?case by simp
next
  case (Suc n)
  have "length (f (take m bs)) = k" using Suc.prems by (intro assms(1)) simp
  moreover have "length (concat (map f (chunks m n (drop m bs)))) = n * k"
    using Suc.prems by (intro Suc.IH) simp
  ultimately show ?case by simp
qed

lemma chunks_concat:
  "(\<And>x. x \<in> set xs \<Longrightarrow> length x = k) \<Longrightarrow> chunks k (length xs) (concat xs) = xs"
  by (induction xs) auto

text \<open>
  The two loop shapes of the converters. \<open>fwd_loop f m k n h dst src\<close> reads an element of \<open>m\<close>
  bytes at \<open>src\<close>, writes the \<open>k\<close> bytes of its image at \<open>dst\<close> and moves both pointers up, \<open>n\<close>
  times; \<open>bwd_loop\<close> starts at the last element and moves down.
\<close>

primrec fwd_loop ::
  "(bytes \<Rightarrow> bytes) \<Rightarrow> nat \<Rightarrow> nat \<Rightarrow> nat \<Rightarrow> heap \<Rightarrow> ptr \<Rightarrow> ptr \<Rightarrow> heap option" where
  "fwd_loop f m k 0 h dst src = Some h"
| "fwd_loop f m k (Suc n) h dst src = do {
     t \<leftarrow> mem_read h src m;
     h \<leftarrow> mem_write h dst (f t);
     fwd_loop f m k n h (ptr_add dst k) (ptr_add src m) }"

primrec bwd_loop ::
  "(bytes \<Rightarrow> bytes) \<Rightarrow> nat \<Rightarrow> nat \<Rightarrow> nat \<Rightarrow> heap \<Rightarrow> ptr \<Rightarrow> ptr \<Rightarrow> heap option" where
  "bwd_loop f m k 0 h dst src = Some h"
| "bwd_loop f m k (Suc n) h dst src = do {
     t \<leftarrow> mem_read h (ptr_add src (n * m)) m;
     h \<leftarrow> mem_write h (ptr_add dst (n * k)) (f t);
     bwd_loop f m k n h dst src }"

definition fwd_safe :: "ptr \<Rightarrow> ptr \<Rightarrow> nat \<Rightarrow> bool" where
  "fwd_safe dst src len \<longleftrightarrow> fst dst \<noteq> fst src \<or> snd dst \<le> snd src \<or> snd src + len \<le> snd dst"

definition bwd_safe :: "ptr \<Rightarrow> nat \<Rightarrow> ptr \<Rightarrow> bool" where
  "bwd_safe dst len src \<longleftrightarrow> fst dst \<noteq> fst src \<or> snd src \<le> snd dst \<or> snd dst + len \<le> snd src"

text \<open>
  A forward loop that shrinks its elements, and a backward loop that widens them, compute the
  element-wise image of the source even when the two windows overlap, as in a conversion in
  place, where they start at the same address.
\<close>

lemma fwd_loop_spec:
  assumes f: "\<And>x. length x = m \<Longrightarrow> length (f x) = k" and km: "k \<le> m"
    and "mem_read h src (n * m) = Some bs" "mem_read h dst (n * k) \<noteq> None"
    and "fwd_safe dst src (n * m)"
  shows "\<exists>h'. fwd_loop f m k n h dst src = Some h'
    \<and> mem_write h dst (concat (map f (chunks m n bs))) = Some h'"
  using assms(3-)
proof (induction n arbitrary: h dst src bs)
  case 0
  then show ?case
    by (auto simp: mem_write_def mem_read_def slice_at_def patch_at_def split: option.splits
        if_splits)
next
  case (Suc n)
  let ?x = "take m bs" and ?y = "drop m bs"
  from Suc.prems(1) have x: "mem_read h src m = Some ?x"
    using mem_read_sub[of h src "Suc n * m" bs 0 m] by simp
  from Suc.prems(1) have y: "mem_read h (ptr_add src m) (n * m) = Some ?y"
    using mem_read_sub[of h src "Suc n * m" bs m "n * m"] mem_read_length[OF Suc.prems(1)]
    by simp
  have lx: "length (f ?x) = k" using f mem_read_length[OF x] by simp
  have d: "mem_read h dst (k + n * k) \<noteq> None" using Suc.prems(2) by simp
  then have dk: "mem_read h dst k \<noteq> None" "mem_read h (ptr_add dst k) (n * k) \<noteq> None"
    by (auto simp: mem_read_append split: option.splits)
  then obtain h1 where h1: "mem_write h dst (f ?x) = Some h1"
    using mem_write_total lx by blast
  have ap: "apart dst (length (f ?x)) (ptr_add src m) (n * m)"
    using Suc.prems(3) km unfolding apart_def fwd_safe_def lx by auto
  have y1: "mem_read h1 (ptr_add src m) (n * m) = Some ?y"
    using mem_read_write_apart[OF h1 ap] y by simp
  have d1: "mem_read h1 (ptr_add dst k) (n * k) \<noteq> None"
    using mem_readable_write[OF h1] dk(2) by simp
  have s1: "fwd_safe (ptr_add dst k) (ptr_add src m) (n * m)"
    using Suc.prems(3) km by (auto simp: fwd_safe_def)
  from Suc.IH[OF y1 d1 s1] obtain h' where
    h': "fwd_loop f m k n h1 (ptr_add dst k) (ptr_add src m) = Some h'"
    "mem_write h1 (ptr_add dst k) (concat (map f (chunks m n ?y))) = Some h'" by blast
  have lc: "length (concat (map f (chunks m n ?y))) = n * k"
    by (rule length_image[OF f mem_read_length[OF y]])
  have rd: "mem_read h dst (length (f ?x) + length (concat (map f (chunks m n ?y)))) \<noteq> None"
    unfolding lx lc using d .
  have "mem_write h dst (f ?x @ concat (map f (chunks m n ?y))) = Some h'"
    unfolding mem_write_append(1)[OF rd] h1 lx bind.simps h'(2) ..
  then show ?case using h1 h'(1) x by simp
qed

lemma bwd_loop_spec:
  assumes f: "\<And>x. length x = m \<Longrightarrow> length (f x) = k" and km: "m \<le> k"
    and "mem_read h src (n * m) = Some bs" "mem_read h dst (n * k) \<noteq> None"
    and "bwd_safe dst (n * k) src"
  shows "\<exists>h'. bwd_loop f m k n h dst src = Some h'
    \<and> mem_write h dst (concat (map f (chunks m n bs))) = Some h'"
  using assms(3-)
proof (induction n arbitrary: h bs)
  case 0
  then show ?case
    by (auto simp: mem_write_def mem_read_def slice_at_def patch_at_def split: option.splits
        if_splits)
next
  case (Suc n)
  let ?x = "take m (drop (n * m) bs)" and ?y = "take (n * m) bs"
  let ?z = "concat (map f (chunks m n ?y))"
  from Suc.prems(1) have x: "mem_read h (ptr_add src (n * m)) m = Some ?x"
    using mem_read_sub[of h src "Suc n * m" bs "n * m" m] by simp
  from Suc.prems(1) have y: "mem_read h src (n * m) = Some ?y"
    using mem_read_sub[of h src "Suc n * m" bs 0 "n * m"] by simp
  have lx: "length (f ?x) = k" using f mem_read_length[OF x] by simp
  have d: "mem_read h dst (n * k + k) \<noteq> None" using Suc.prems(2) by (simp add: add.commute)
  then have dk: "mem_read h dst (n * k) \<noteq> None" "mem_read h (ptr_add dst (n * k)) k \<noteq> None"
    by (auto simp: mem_read_append split: option.splits)
  then obtain h1 where h1: "mem_write h (ptr_add dst (n * k)) (f ?x) = Some h1"
    using mem_write_total lx by blast
  have nm: "n * m \<le> n * k" using km by simp
  have ap: "apart (ptr_add dst (n * k)) (length (f ?x)) src (n * m)"
    using Suc.prems(3) nm unfolding apart_def bwd_safe_def lx ptr_add_simps mult_Suc
    by linarith
  have y1: "mem_read h1 src (n * m) = Some ?y"
    using mem_read_write_apart[OF h1 ap] y by simp
  have d1: "mem_read h1 dst (n * k) \<noteq> None"
    using mem_readable_write[OF h1] dk(1) by simp
  have s1: "bwd_safe dst (n * k) src"
    using Suc.prems(3) by (auto simp: bwd_safe_def)
  from Suc.IH[OF y1 d1 s1] obtain h' where
    h': "bwd_loop f m k n h1 dst src = Some h'" "mem_write h1 dst ?z = Some h'" by blast
  have lz: "length ?z = n * k"
    by (rule length_image[OF f mem_read_length[OF y]])
  have rd: "mem_read h dst (length ?z + length (f ?x)) \<noteq> None"
    unfolding lx lz using d .
  have "mem_write h dst (?z @ f ?x) = Some h'"
    unfolding mem_write_append(2)[OF rd] lz h1 bind.simps h'(2) ..
  moreover have "concat (map f (chunks m (Suc n) bs)) = ?z @ f ?x"
    unfolding chunks_snoc by (simp add: chunks_prefix)
  ultimately show ?case using h1 h'(1) x by simp
qed

section \<open>Windows\<close>

text \<open>
  \<open>window h p n\<close>: \<open>n\<close> bytes at \<open>p\<close> may be accessed. No access changes which windows exist, so
  a routine is free of wild accesses when its reads and writes stay inside the windows it is given.
\<close>

definition window :: "heap \<Rightarrow> ptr \<Rightarrow> nat \<Rightarrow> bool" where
  "window h p n \<longleftrightarrow> mem_read h p n \<noteq> None"

definition same_shape :: "heap \<Rightarrow> heap \<Rightarrow> bool" where
  "same_shape h h' \<longleftrightarrow> (\<forall>p n. window h' p n = window h p n)"

lemma same_shape_refl [simp, intro]: "same_shape h h"
  by (simp add: same_shape_def)

lemma same_shape_trans [trans]: "same_shape h h1 \<Longrightarrow> same_shape h1 h2 \<Longrightarrow> same_shape h h2"
  by (simp add: same_shape_def)

lemma same_shape_window: "same_shape h h' \<Longrightarrow> window h' p n = window h p n"
  unfolding same_shape_def by blast

lemma same_shape_write: "mem_write h p bs = Some h' \<Longrightarrow> same_shape h h'"
  unfolding same_shape_def window_def by (simp add: mem_readable_write)

lemma window_sub: "window h p k \<Longrightarrow> off + n \<le> k \<Longrightarrow> window h (ptr_add p off) n"
  by (auto simp: window_def mem_read_sub)

lemma window_le: "window h p k \<Longrightarrow> n \<le> k \<Longrightarrow> window h p n"
  using window_sub[of h p k 0 n] by simp

text \<open>
  \<open>same_outside d N h h'\<close>: every byte that is not one of the \<open>N\<close> bytes at \<open>d\<close> has kept its
  value. \<open>area d N p n\<close>: the \<open>n\<close> bytes at \<open>p\<close> are among those.
\<close>

definition same_outside :: "ptr \<Rightarrow> nat \<Rightarrow> heap \<Rightarrow> heap \<Rightarrow> bool" where
  "same_outside d N h h' \<longleftrightarrow> (\<forall>q n. apart d N q n \<longrightarrow> mem_read h' q n = mem_read h q n)"

definition area :: "ptr \<Rightarrow> nat \<Rightarrow> ptr \<Rightarrow> nat \<Rightarrow> bool" where
  "area d N p n \<longleftrightarrow> fst p = fst d \<and> snd d \<le> snd p \<and> snd p + n \<le> snd d + N"

lemma same_outside_refl [simp, intro]: "same_outside d N h h"
  by (simp add: same_outside_def)

lemma same_outside_trans [trans]:
  "same_outside d N h h1 \<Longrightarrow> same_outside d N h1 h2 \<Longrightarrow> same_outside d N h h2"
  by (simp add: same_outside_def)

lemma same_outside_read: "same_outside d N h h' \<Longrightarrow> apart d N q n \<Longrightarrow> mem_read h' q n = mem_read h q n"
  unfolding same_outside_def by blast

lemma area_refl [simp, intro]: "area d N d N"
  by (simp add: area_def)

lemma area_apart: "area d N p n \<Longrightarrow> apart d N q k \<Longrightarrow> apart p n q k"
  by (auto simp: area_def apart_def)

lemma same_outside_area: "area d N p n \<Longrightarrow> same_outside p n h h' \<Longrightarrow> same_outside d N h h'"
  using area_apart by (auto simp: same_outside_def)

lemma same_outside_le: "n \<le> N \<Longrightarrow> same_outside d n h h' \<Longrightarrow> same_outside d N h h'"
  by (rule same_outside_area[of _ _ d n]) (simp_all add: area_def)

lemma area_sub: "area d N p k \<Longrightarrow> off + n \<le> k \<Longrightarrow> area d N (ptr_add p off) n"
  by (simp add: area_def)

lemma area_le: "area d N p k \<Longrightarrow> n \<le> k \<Longrightarrow> area d N p n"
  by (simp add: area_def)

lemma area_window:
  assumes "window h d N" "area d N p n"
  shows "window h p n"
proof -
  have "window h (ptr_add d (snd p - snd d)) n"
    using assms(2) by (intro window_sub[OF assms(1)]) (auto simp: area_def)
  moreover have "ptr_add d (snd p - snd d) = p" using assms(2) by (simp add: area_def ptr_add_def prod_eq_iff)
  ultimately show ?thesis by simp
qed

lemma same_outside_write:
  "mem_write h p bs = Some h' \<Longrightarrow> length bs = n \<Longrightarrow> same_outside p n h h'"
  unfolding same_outside_def using mem_read_write_apart[of h p bs h'] by auto

lemma window_readE:
  assumes "window h p n"
  obtains bs where "mem_read h p n = Some bs" "length bs = n"
  using assms mem_read_length by (auto simp: window_def)

lemma window_writeE:
  assumes "window h p n" "length bs = n"
  obtains h' where "mem_write h p bs = Some h'" "same_shape h h'" "same_outside p n h h'"
proof -
  from assms obtain h' where h': "mem_write h p bs = Some h'"
    using mem_write_total[of h p n bs] by (auto simp: window_def)
  moreover have "same_shape h h'"
    using h' by (rule same_shape_write)
  moreover have "same_outside p n h h'"
    using h' assms(2) by (rule same_outside_write)
  ultimately show thesis by (rule that)
qed

lemma window_copyE:
  assumes "window h dst n" "window h src n"
  obtains h' where "mem_copy h dst src n = Some h'" "same_shape h h'" "same_outside dst n h h'"
proof -
  from assms(2) obtain bs where bs: "mem_read h src n = Some bs" "length bs = n"
    by (rule window_readE)
  obtain h' where "mem_write h dst bs = Some h'" "same_shape h h'" "same_outside dst n h h'"
    using assms(1) bs(2) by (rule window_writeE)
  then show thesis using bs(1) that by (simp add: mem_copy_def)
qed

lemma fwd_loop_window:
  assumes f: "\<And>x. length x = m \<Longrightarrow> length (f x) = k"
    and "window h dst (n * k)" "window h src (n * m)"
  obtains h' where "fwd_loop f m k n h dst src = Some h'" "same_shape h h'" "same_outside dst (n * k) h h'"
proof -
  have "\<exists>h'. fwd_loop f m k n h dst src = Some h' \<and> same_shape h h' \<and> same_outside dst (n * k) h h'"
    using assms(2,3)
  proof (induction n arbitrary: h dst src)
    case 0
    then show ?case by simp
  next
    case (Suc n)
    have "window h src m" using Suc.prems(2) by (rule window_le) simp
    then obtain x where x: "mem_read h src m = Some x" "length x = m" by (rule window_readE)
    have "window h dst k" using Suc.prems(1) by (rule window_le) simp
    then obtain h1 where h1: "mem_write h dst (f x) = Some h1" "same_shape h h1"
      "same_outside dst k h h1"
      using f[OF x(2)] by (rule window_writeE)
    have "window h1 (ptr_add dst k) (n * k)" "window h1 (ptr_add src m) (n * m)"
      unfolding same_shape_window[OF h1(2)]
      using Suc.prems by (auto intro: window_sub)
    from Suc.IH[OF this] obtain h2 where
      "fwd_loop f m k n h1 (ptr_add dst k) (ptr_add src m) = Some h2" "same_shape h1 h2"
      "same_outside (ptr_add dst k) (n * k) h1 h2"
      by blast
    moreover have "same_outside dst (Suc n * k) h h1"
      using h1(3) by (rule same_outside_le[rotated]) simp
    moreover have "same_outside dst (Suc n * k) h1 h2"
      using calculation(3) by (rule same_outside_area[rotated]) (simp add: area_def)
    ultimately have "same_shape h h2" "same_outside dst (Suc n * k) h h2"
      "fwd_loop f m k n h1 (ptr_add dst k) (ptr_add src m) = Some h2"
      using h1(2) by (blast intro: same_shape_trans same_outside_trans)+
    then show ?case using x(1) h1(1) by simp
  qed
  then show thesis using that by blast
qed

lemma bwd_loop_window:
  assumes f: "\<And>x. length x = m \<Longrightarrow> length (f x) = k"
    and "window h dst (n * k)" "window h src (n * m)"
  obtains h' where "bwd_loop f m k n h dst src = Some h'" "same_shape h h'" "same_outside dst (n * k) h h'"
proof -
  have "\<exists>h'. bwd_loop f m k n h dst src = Some h' \<and> same_shape h h' \<and> same_outside dst (n * k) h h'"
    using assms(2,3)
  proof (induction n arbitrary: h)
    case 0
    then show ?case by simp
  next
    case (Suc n)
    have "window h (ptr_add src (n * m)) m" using Suc.prems(2) by (rule window_sub) simp
    then obtain x where x: "mem_read h (ptr_add src (n * m)) m = Some x" "length x = m"
      by (rule window_readE)
    have "window h (ptr_add dst (n * k)) k" using Suc.prems(1) by (rule window_sub) simp
    then obtain h1 where h1: "mem_write h (ptr_add dst (n * k)) (f x) = Some h1" "same_shape h h1"
      "same_outside (ptr_add dst (n * k)) k h h1"
      using f[OF x(2)] by (rule window_writeE)
    have "window h1 dst (n * k)" "window h1 src (n * m)"
      unfolding same_shape_window[OF h1(2)]
      using Suc.prems by (auto intro: window_le)
    from Suc.IH[OF this] obtain h2 where
      "bwd_loop f m k n h1 dst src = Some h2" "same_shape h1 h2" "same_outside dst (n * k) h1 h2"
      by blast
    moreover have "same_outside dst (Suc n * k) h h1"
      using h1(3) by (rule same_outside_area[rotated]) (simp add: area_def)
    moreover have "same_outside dst (Suc n * k) h1 h2"
      using calculation(3) by (rule same_outside_le[rotated]) simp
    ultimately have "same_shape h h2" "same_outside dst (Suc n * k) h h2"
      "bwd_loop f m k n h1 dst src = Some h2"
      using h1(2) by (blast intro: same_shape_trans same_outside_trans)+
    then show ?case using x(1) h1(1) by simp
  qed
  then show thesis using that by blast
qed

end
