(* ===== verification/Elf_Convert.thy ===== *)
theory Elf_Convert
  imports Elf_Types Libelf_Memory
begin

text \<open>
  The converters between the memory and the file representation, generated by
  \<open>libelf_convert.m4\<close> from the member lists of \<open>elf_types.m4\<close>: the byte swapping macros, the
  reading and writing of members, the loops over primitive and composite types, the
  hand-written converters of the variable-size types, and the translator table.

  \<open>host\<close> is the byte order of the machine. Values are read and written in this order and
  swapped afterwards when the file has the other one, as the macros do. The padding a C
  compiler leaves in a structure is written as zero bytes.
\<close>

section \<open>Byte swapping\<close>

definition SWAP_HALF :: "u16 \<Rightarrow> u16" where
  "SWAP_HALF X =
     (let x = X;
          t = (ucast x :: u32) AND 0xFF;
          t = push_bit 8 t; x = drop_bit 8 x; t = t OR (ucast x AND 0xFF)
      in ucast t)"

text \<open>One line \<open>_t <<= 8; _x >>= 8; _t |= _x & 0xFF\<close> of the wider macros.\<close>

definition swap_step :: "'a::len word \<times> 'a word \<Rightarrow> 'a word \<times> 'a word" where
  "swap_step tx = (push_bit 8 (fst tx) OR (drop_bit 8 (snd tx) AND 0xFF), drop_bit 8 (snd tx))"

definition SWAP_WORD :: "u32 \<Rightarrow> u32" where
  "SWAP_WORD X = fst ((swap_step ^^ 3) (X AND 0xFF, X))"

definition SWAP_WORD64 :: "u64 \<Rightarrow> u64" where
  "SWAP_WORD64 X = fst ((swap_step ^^ 7) (X AND 0xFF, X))"

text \<open>\<open>SWAP_FIELD\<close>: the macro for the type of the member; bytes and identifiers are kept.\<close>

fun swap_field :: "fval \<Rightarrow> fval" where
  "swap_field (VByte b) = VByte b"
| "swap_field (VHalf h) = VHalf (SWAP_HALF h)"
| "swap_field (VWord w) = VWord (SWAP_WORD w)"
| "swap_field (VXword x) = VXword (SWAP_WORD64 x)"
| "swap_field (VIdent i) = VIdent i"

lemma word_bytes_snoc: "word_bytes (Suc n) w = word_bytes n w @ [ucast (drop_bit (8 * n) w)]"
  by (simp add: word_bytes_def)

lemma and_255: "w AND 0xFF = take_bit 8 (w :: 'a::len word)"
  by (simp add: take_bit_eq_mask mask_eq_exp_minus_1)

lemma ucast_u8_and: "ucast (ucast (w :: 'a::len word) :: u8) = w AND (0xFF :: 'a word)"
  unfolding and_255
  by (auto intro!: bit_word_eqI simp: bit_ucast_iff bit_take_bit_iff dest: bit_imp_le_length)

lemma swap_steps:
  "(swap_step ^^ n) (X AND 0xFF, X) = (bytes_word (rev (word_bytes (Suc n) X)), drop_bit (8 * n) X)"
proof (induction n)
  case 0
  show ?case by (simp add: word_bytes_Suc ucast_u8_and)
next
  case (Suc n)
  have d: "drop_bit 8 (drop_bit (8 * n) X) = drop_bit (8 * Suc n) X"
    by (simp add: drop_bit_drop_bit)
  have "bytes_word (rev (word_bytes (Suc (Suc n)) X)) =
      push_bit 8 (bytes_word (rev (word_bytes (Suc n) X))) OR (drop_bit (8 * Suc n) X AND 0xFF)"
    unfolding word_bytes_snoc[of "Suc n"] rev_append rev.simps append.simps bytes_word.simps
    by (simp only: ucast_u8_and)
  then show ?case using Suc.IH d by (simp add: swap_step_def)
qed

lemma SWAP_WORD_rev: "SWAP_WORD w = bytes_word (rev (word_bytes 4 w))"
  unfolding SWAP_WORD_def swap_steps by (simp add: eval_nat_numeral)

lemma SWAP_WORD64_rev: "SWAP_WORD64 w = bytes_word (rev (word_bytes 8 w))"
  unfolding SWAP_WORD64_def swap_steps by (simp add: eval_nat_numeral)

lemma SWAP_HALF_rev: "SWAP_HALF w = bytes_word (rev (word_bytes 2 w))"
proof (rule bit_word_eqI)
  fix k assume k: "k < LENGTH(16)"
  have r: "rev (word_bytes 2 w) ! i = word_bytes 2 w ! (1 - i)" if "i < 2" for i
    using that by (simp add: rev_nth)
  show "bit (SWAP_HALF w) k = bit (bytes_word (rev (word_bytes 2 w)) :: u16) k"
  proof (cases "k < 8")
    case True
    then show ?thesis
      by (auto simp: SWAP_HALF_def Let_def and_255 bit_ucast_iff bit_or_iff bit_take_bit_iff
          bit_push_bit_iff bit_drop_bit_eq bit_bytes_word r bit_word_bytes)
  next
    case False
    then have "k div 8 = 1" "k mod 8 = k - 8" using k by (simp_all add: le_div_geq le_mod_geq)
    then show ?thesis using False k
      by (auto simp: SWAP_HALF_def Let_def and_255 bit_ucast_iff bit_or_iff bit_take_bit_iff
          bit_push_bit_iff bit_drop_bit_eq bit_bytes_word r bit_word_bytes
          dest: bit_imp_le_length)
  qed
qed

lemmas swap_rev = SWAP_HALF_rev SWAP_WORD_rev SWAP_WORD64_rev

lemma rev_bytes_twice:
  assumes "LENGTH('a::len) = 8 * n"
  shows "bytes_word (rev (word_bytes n (bytes_word (rev (word_bytes n w)) :: 'a word))) = (w :: 'a word)"
proof -
  have "word_bytes n (bytes_word (rev (word_bytes n w)) :: 'a word) = rev (word_bytes n w)"
    using word_bytes_bytes[of "rev (word_bytes n w)", where 'a = 'a] assms by simp
  then show ?thesis using assms by (simp add: bytes_word_bytes)
qed

lemma swap_involutive [codec_simps]:
  "SWAP_HALF (SWAP_HALF h) = h" "SWAP_WORD (SWAP_WORD w) = w" "SWAP_WORD64 (SWAP_WORD64 x) = x"
  unfolding swap_rev by (rule rev_bytes_twice; simp)+

lemma swap_field_involutive [codec_simps]: "swap_field (swap_field v) = v"
  by (cases v) (simp_all add: codec_simps)

lemma swap_fields_involutive [codec_simps]: "map swap_field (map swap_field vs) = vs"
  by (simp add: comp_def codec_simps)

lemma get_word_swapped:
  "length bs = 2 \<Longrightarrow> SWAP_HALF (get_word LSB bs) = get_word MSB bs"
  "length bs = 4 \<Longrightarrow> SWAP_WORD (get_word LSB bs) = get_word MSB bs"
  "length bs = 8 \<Longrightarrow> SWAP_WORD64 (get_word LSB bs) = get_word MSB bs"
  using word_bytes_bytes[of bs, where 'a = 16] word_bytes_bytes[of bs, where 'a = 32]
    word_bytes_bytes[of bs, where 'a = 64]
  by (auto simp: swap_rev get_word_def)

section \<open>Reading and writing members\<close>

text \<open>
  \<open>READ_\<close> and \<open>WRITE_\<close> macros of the types; \<open>ADDR\<close> and \<open>OFF\<close> depend on the class. A member
  is read and written with the same bytes in a structure in memory.
\<close>

definition read_field :: "endian \<Rightarrow> int \<Rightarrow> ftype \<Rightarrow> bytes \<Rightarrow> fval" where
  "read_field host ec f bs =
     (if f = IDENT then VIdent bs
      else if field_size ec f = 1 then VByte (get_word host bs)
      else if field_size ec f = 2 then VHalf (get_word host bs)
      else if field_size ec f = 4 then VWord (get_word host bs)
      else VXword (get_word host bs))"

fun write_field :: "endian \<Rightarrow> fval \<Rightarrow> bytes" where
  "write_field host (VByte b) = put_word host 1 b"
| "write_field host (VHalf h) = put_word host 2 h"
| "write_field host (VWord w) = put_word host 4 w"
| "write_field host (VXword x) = put_word host 8 x"
| "write_field host (VIdent i) = i"

text \<open>A value of the C type of the member.\<close>

definition field_ok :: "int \<Rightarrow> ftype \<Rightarrow> fval \<Rightarrow> bool" where
  "field_ok ec f v =
     (case v of VIdent i \<Rightarrow> f = IDENT \<and> length i = EI_NIDENT
      | VByte b \<Rightarrow> f \<noteq> IDENT \<and> field_size ec f = 1
      | VHalf h \<Rightarrow> f \<noteq> IDENT \<and> field_size ec f = 2
      | VWord w \<Rightarrow> f \<noteq> IDENT \<and> field_size ec f = 4
      | VXword x \<Rightarrow> f \<noteq> IDENT \<and> field_size ec f = 8)"

text \<open>\<open>READ_MEMBERS\<close>: the members one after the other, the pointer moving on.\<close>

primrec READ_MEMBERS :: "endian \<Rightarrow> int \<Rightarrow> member_list \<Rightarrow> bytes \<Rightarrow> fval list" where
  "READ_MEMBERS host ec [] bs = []"
| "READ_MEMBERS host ec (m # ms) bs =
     read_field host ec (snd m) (take (field_size ec (snd m)) bs)
     # READ_MEMBERS host ec ms (drop (field_size ec (snd m)) bs)"

definition WRITE_MEMBERS :: "endian \<Rightarrow> fval list \<Rightarrow> bytes" where
  "WRITE_MEMBERS host vs = concat (map (write_field host) vs)"

definition SWAP_MEMBERS :: "bool \<Rightarrow> fval list \<Rightarrow> fval list" where
  "SWAP_MEMBERS byteswap vs = (if byteswap then map swap_field vs else vs)"

definition members_ok :: "int \<Rightarrow> member_list \<Rightarrow> fval list \<Rightarrow> bool" where
  "members_ok ec ms vs = list_all2 (\<lambda>m v. field_ok ec (snd m) v) ms vs"

text \<open>A structure in memory, from offset \<open>off\<close> on: each member at its aligned offset.\<close>

primrec load_members :: "endian \<Rightarrow> int \<Rightarrow> nat \<Rightarrow> member_list \<Rightarrow> bytes \<Rightarrow> fval list" where
  "load_members host ec off [] bs = []"
| "load_members host ec off (m # ms) bs =
     (let pad = align_up (field_align ec (snd m)) off - off; sz = field_size ec (snd m)
      in read_field host ec (snd m) (take sz (drop pad bs))
         # load_members host ec (off + pad + sz) ms (drop (pad + sz) bs))"

primrec store_members :: "endian \<Rightarrow> int \<Rightarrow> nat \<Rightarrow> nat \<Rightarrow> member_list \<Rightarrow> fval list \<Rightarrow> bytes" where
  "store_members host ec msz off [] vs = replicate (msz - off) 0"
| "store_members host ec msz off (m # ms) vs =
     (let pad = align_up (field_align ec (snd m)) off - off; sz = field_size ec (snd m)
      in replicate pad 0 @ write_field host (hd vs)
         @ store_members host ec msz (off + pad + sz) ms (tl vs))"

definition struct_load :: "endian \<Rightarrow> int \<Rightarrow> member_list \<Rightarrow> bytes \<Rightarrow> fval list" where
  "struct_load host ec ms bs = load_members host ec 0 ms bs"

definition struct_store :: "endian \<Rightarrow> int \<Rightarrow> member_list \<Rightarrow> fval list \<Rightarrow> bytes" where
  "struct_store host ec ms vs = store_members host ec (sizeof_struct ec ms) 0 ms vs"

text \<open>The bodies of the loops of \<open>_libelf_cvt_X_tof\<close> and \<open>_libelf_cvt_X_tom\<close> (composite types).\<close>

definition struct_tof :: "endian \<Rightarrow> int \<Rightarrow> member_list \<Rightarrow> bool \<Rightarrow> bytes \<Rightarrow> bytes" where
  "struct_tof host ec ms byteswap s =
     WRITE_MEMBERS host (SWAP_MEMBERS byteswap (struct_load host ec ms s))"

definition struct_tom :: "endian \<Rightarrow> int \<Rightarrow> member_list \<Rightarrow> bool \<Rightarrow> bytes \<Rightarrow> bytes" where
  "struct_tom host ec ms byteswap s =
     struct_store host ec ms (SWAP_MEMBERS byteswap (READ_MEMBERS host ec ms s))"

subsection \<open>Laws of the member codec\<close>

text \<open>
  The interface of a codec for values of several types: the width of a type, its values, a
  reader and a writer that are inverse to each other on them.
\<close>

locale field_codec =
  fixes width :: "'f \<Rightarrow> nat"
    and ok :: "'f \<Rightarrow> 'v \<Rightarrow> bool"
    and rd :: "'f \<Rightarrow> bytes \<Rightarrow> 'v"
    and wr :: "'v \<Rightarrow> bytes"
  assumes wr_width: "ok f v \<Longrightarrow> length (wr v) = width f"
    and rd_wr: "ok f v \<Longrightarrow> rd f (wr v) = v"
    and rd_ok: "length bs = width f \<Longrightarrow> ok f (rd f bs)"
    and wr_rd: "length bs = width f \<Longrightarrow> wr (rd f bs) = bs"
begin

primrec rd_all :: "'f list \<Rightarrow> bytes \<Rightarrow> 'v list" where
  "rd_all [] bs = []"
| "rd_all (f # fs) bs = rd f (take (width f) bs) # rd_all fs (drop (width f) bs)"

definition wr_all :: "'v list \<Rightarrow> bytes" where
  "wr_all vs = concat (map wr vs)"

lemma length_wr_all: "list_all2 ok fs vs \<Longrightarrow> length (wr_all vs) = sum_list (map width fs)"
  by (induction fs vs rule: list_all2_induct) (auto simp: wr_width wr_all_def)

lemma rd_wr_all: "list_all2 ok fs vs \<Longrightarrow> rd_all fs (wr_all vs) = vs"
  by (induction fs vs rule: list_all2_induct) (auto simp: wr_width rd_wr wr_all_def)

lemma rd_all_ok: "length bs = sum_list (map width fs) \<Longrightarrow> list_all2 ok fs (rd_all fs bs)"
  by (induction fs arbitrary: bs) (auto simp: rd_ok)

lemma wr_rd_all: "length bs = sum_list (map width fs) \<Longrightarrow> wr_all (rd_all fs bs) = bs"
  by (induction fs arbitrary: bs) (auto simp: wr_rd wr_all_def)

end

lemma field_size_cases:
  "f \<noteq> IDENT \<Longrightarrow> field_size ec f = 1 \<or> field_size ec f = 2 \<or> field_size ec f = 4 \<or> field_size ec f = 8"
  by (cases f) auto

lemma field_size_ident [simp]: "field_size ec IDENT = 16"
  by simp

interpretation fld: field_codec "field_size ec" "field_ok ec" "read_field host ec" "write_field host"
  for ec host
proof
  fix f v assume "field_ok ec f v"
  then show "length (write_field host v) = field_size ec f" "read_field host ec f (write_field host v) = v"
    by (auto simp: field_ok_def read_field_def codec_simps split: fval.splits)
next
  fix bs :: bytes and f assume l: "length bs = field_size ec f"
  then show "field_ok ec f (read_field host ec f bs)"
    using field_size_cases[of f ec] by (auto simp: field_ok_def read_field_def)
  show "write_field host (read_field host ec f bs) = bs"
    using l field_size_cases[of f ec] by (auto simp: read_field_def codec_simps)
qed

lemma READ_MEMBERS_rd: "READ_MEMBERS host ec ms bs = fld.rd_all ec host (map snd ms) bs"
  by (induction ms arbitrary: bs) auto

lemma WRITE_MEMBERS_wr: "WRITE_MEMBERS host vs = fld.wr_all host vs"
  by (simp add: WRITE_MEMBERS_def fld.wr_all_def)

lemma FSZ_sum: "FSZ ec ms = sum_list (map (field_size ec) (map snd ms))"
  by (induction ms) auto

lemma members_ok_map: "members_ok ec ms vs = list_all2 (field_ok ec) (map snd ms) vs"
  by (simp add: members_ok_def list_all2_map1)

lemma length_WRITE_MEMBERS [codec_simps]:
  "members_ok ec ms vs \<Longrightarrow> length (WRITE_MEMBERS host vs) = FSZ ec ms"
  by (simp add: WRITE_MEMBERS_wr FSZ_sum members_ok_map fld.length_wr_all)

lemma READ_WRITE_MEMBERS [codec_simps]:
  "members_ok ec ms vs \<Longrightarrow> READ_MEMBERS host ec ms (WRITE_MEMBERS host vs) = vs"
  by (simp add: WRITE_MEMBERS_wr READ_MEMBERS_rd members_ok_map fld.rd_wr_all)

lemma READ_MEMBERS_ok [codec_simps]:
  "length bs = FSZ ec ms \<Longrightarrow> members_ok ec ms (READ_MEMBERS host ec ms bs)"
  by (simp add: READ_MEMBERS_rd FSZ_sum members_ok_map fld.rd_all_ok)

lemma WRITE_READ_MEMBERS [codec_simps]:
  "length bs = FSZ ec ms \<Longrightarrow> WRITE_MEMBERS host (READ_MEMBERS host ec ms bs) = bs"
  by (simp add: READ_MEMBERS_rd WRITE_MEMBERS_wr FSZ_sum fld.wr_rd_all)

subsection \<open>Structures in memory\<close>

lemma field_align_pos: "0 < field_align ec f"
  by (cases f) auto

lemma align_up_ge: "0 < a \<Longrightarrow> n \<le> align_up a n"
  unfolding align_up_def by (rule nat_roundup_props(1))

lemma swap_field_ok [codec_simps]: "field_ok ec f (swap_field v) = field_ok ec f v"
  by (cases v) (auto simp: field_ok_def)

lemma SWAP_MEMBERS_ok [codec_simps]:
  "members_ok ec ms (SWAP_MEMBERS sw vs) = members_ok ec ms vs"
  by (simp add: SWAP_MEMBERS_def members_ok_def list_all2_map2 codec_simps)

lemma SWAP_MEMBERS_involutive [codec_simps]: "SWAP_MEMBERS sw (SWAP_MEMBERS sw vs) = vs"
  unfolding SWAP_MEMBERS_def by (cases sw) (simp_all only: codec_simps if_True if_False)

lemma layout_end_ge: "off \<le> layout_end ec off ms"
proof (induction ms arbitrary: off)
  case Nil
  then show ?case by simp
next
  case (Cons m ms)
  have "off \<le> align_up (field_align ec (snd m)) off + field_size ec (snd m)"
    using align_up_ge[OF field_align_pos] le_trans le_add1 by blast
  then show ?case using Cons le_trans by fastforce
qed

lemma length_store_members:
  "members_ok ec ms vs \<Longrightarrow> layout_end ec off ms \<le> msz \<Longrightarrow>
   length (store_members host ec msz off ms vs) = msz - off"
proof (induction ms arbitrary: off vs)
  case Nil
  then show ?case by simp
next
  case (Cons m ms)
  let ?a = "align_up (field_align ec (snd m)) off"
  obtain v vs' where vs: "vs = v # vs'" and ok: "field_ok ec (snd m) v" "members_ok ec ms vs'"
    using Cons.prems(1) by (auto simp: members_ok_def list_all2_Cons1)
  have ge: "off \<le> ?a" by (rule align_up_ge[OF field_align_pos])
  have "layout_end ec (?a + field_size ec (snd m)) ms \<le> msz" using Cons.prems(2) by simp
  moreover from this have "?a + field_size ec (snd m) \<le> msz"
    using layout_end_ge le_trans by blast
  ultimately show ?case
    using Cons.IH[OF ok(2), of "?a + field_size ec (snd m)"] ge fld.wr_width[OF ok(1), of host]
    by (simp add: vs Let_def)
qed

lemma load_store_members:
  "members_ok ec ms vs \<Longrightarrow>
   load_members host ec off ms (store_members host ec msz off ms vs @ rest) = vs"
proof (induction ms arbitrary: off vs)
  case Nil
  then show ?case by (simp add: members_ok_def)
next
  case (Cons m ms)
  obtain v vs' where vs: "vs = v # vs'" and ok: "field_ok ec (snd m) v" "members_ok ec ms vs'"
    using Cons.prems(1) by (auto simp: members_ok_def list_all2_Cons1)
  show ?case
    using Cons.IH[OF ok(2)] fld.wr_width[OF ok(1), of host] fld.rd_wr[OF ok(1), of host]
    by (simp add: vs Let_def)
qed

lemma load_members_ok:
  "layout_end ec off ms \<le> off + length bs \<Longrightarrow> members_ok ec ms (load_members host ec off ms bs)"
proof (induction ms arbitrary: off bs)
  case Nil
  then show ?case by (simp add: members_ok_def)
next
  case (Cons m ms)
  let ?a = "align_up (field_align ec (snd m)) off" and ?sz = "field_size ec (snd m)"
  have ge: "off \<le> ?a" by (rule align_up_ge[OF field_align_pos])
  have le: "layout_end ec (?a + ?sz) ms \<le> off + length bs" using Cons.prems by simp
  then have "?a + ?sz \<le> off + length bs" using layout_end_ge le_trans by blast
  then have "length (take ?sz (drop (?a - off) bs)) = ?sz" using ge by simp
  from fld.rd_ok[OF this] have 1: "field_ok ec (snd m) (read_field host ec (snd m)
      (take ?sz (drop (?a - off) bs)))" .
  have "members_ok ec ms (load_members host ec (?a + ?sz) ms (drop (?a - off + ?sz) bs))"
    using le ge \<open>?a + ?sz \<le> off + length bs\<close> by (intro Cons.IH) simp
  then show ?case using 1 ge by (simp add: members_ok_def Let_def)
qed

text \<open>
  A member list is packed when its structure has no padding; \<open>Elf32_Move\<close> and \<open>Elf64_Move\<close> are the
  only lists that are not.
\<close>

lemma struct_align_pos: "0 < struct_align ec ms"
  by (induction ms) (auto simp: field_align_pos less_max_iff_disj)

lemma layout_end_sizeof: "layout_end ec 0 ms \<le> sizeof_struct ec ms"
  unfolding sizeof_struct_def by (rule align_up_ge[OF struct_align_pos])

lemma struct_load_store [codec_simps]:
  "members_ok ec ms vs \<Longrightarrow> struct_load host ec ms (struct_store host ec ms vs) = vs"
  using load_store_members[of ec ms vs host 0 "sizeof_struct ec ms" "[]"]
  by (simp add: struct_load_def struct_store_def)

lemma struct_load_ok [codec_simps]:
  "length bs = sizeof_struct ec ms \<Longrightarrow> members_ok ec ms (struct_load host ec ms bs)"
  unfolding struct_load_def using layout_end_sizeof[of ec ms] by (intro load_members_ok) simp

lemma length_struct_store [codec_simps]:
  "members_ok ec ms vs \<Longrightarrow> length (struct_store host ec ms vs) = sizeof_struct ec ms"
  by (simp add: struct_store_def length_store_members layout_end_sizeof)

lemma length_struct_tof [codec_simps]:
  "length s = sizeof_struct ec ms \<Longrightarrow> length (struct_tof host ec ms sw s) = FSZ ec ms"
  by (simp add: struct_tof_def codec_simps)

lemma length_struct_tom [codec_simps]:
  "length s = FSZ ec ms \<Longrightarrow> length (struct_tom host ec ms sw s) = sizeof_struct ec ms"
  by (simp add: struct_tom_def codec_simps)

lemma struct_tof_tom [codec_simps]:
  "length s = FSZ ec ms \<Longrightarrow> struct_tof host ec ms sw (struct_tom host ec ms sw s) = s"
  by (simp add: struct_tof_def struct_tom_def codec_simps)

lemma FSZ_le_layout_end: "off + FSZ ec ms \<le> layout_end ec off ms"
proof (induction ms arbitrary: off)
  case Nil
  then show ?case by simp
next
  case (Cons m ms)
  have "off \<le> align_up (field_align ec (snd m)) off" by (rule align_up_ge[OF field_align_pos])
  with Cons[of "align_up (field_align ec (snd m)) off + field_size ec (snd m)"]
  show ?case by simp
qed

lemma FSZ_le_sizeof: "FSZ ec ms \<le> sizeof_struct ec ms"
  using FSZ_le_layout_end[of 0 ec ms] layout_end_sizeof[of ec ms] by simp

section \<open>The converters\<close>

type_synonym converter =
  "endian \<Rightarrow> heap \<Rightarrow> ptr \<Rightarrow> u64 \<Rightarrow> ptr \<Rightarrow> u64 \<Rightarrow> bool \<Rightarrow> (heap \<times> bool) option"

subsection \<open>Primitive types: \<open>MAKEPRIMFUNCS\<close>\<close>

definition prim_swap :: "endian \<Rightarrow> int \<Rightarrow> ftype \<Rightarrow> bytes \<Rightarrow> bytes" where
  "prim_swap host ec f s = write_field host (swap_field (read_field host ec f s))"

definition cvt_prim_tof :: "int \<Rightarrow> ftype \<Rightarrow> converter" where
  "cvt_prim_tof ec f host h dst dsz src cnt byteswap = do {
     h \<leftarrow> (if \<not> byteswap then mem_copy h dst src (unat (cnt * of_nat (field_size ec f)))
           else fwd_loop (prim_swap host ec f) (field_size ec f) (field_size ec f) (unat cnt)
             h dst src);
     Some (h, True) }"

definition cvt_prim_tom :: "int \<Rightarrow> ftype \<Rightarrow> converter" where
  "cvt_prim_tom ec f host h dst dsz src cnt byteswap =
     (if dsz < cnt * of_nat (field_size ec f) then Some (h, False)
      else do {
        h \<leftarrow> (if \<not> byteswap then mem_copy h dst src (unat (cnt * of_nat (field_size ec f)))
              else fwd_loop (prim_swap host ec f) (field_size ec f) (field_size ec f) (unat cnt)
                h dst src);
        Some (h, True) })"

subsection \<open>Composite types: \<open>MAKECOMPFUNCS\<close>\<close>

definition cvt_comp_tof :: "int \<Rightarrow> member_list \<Rightarrow> converter" where
  "cvt_comp_tof ec ms host h dst dsz src cnt byteswap = do {
     h \<leftarrow> fwd_loop (struct_tof host ec ms byteswap) (sizeof_struct ec ms) (FSZ ec ms) (unat cnt)
           h dst src;
     Some (h, True) }"

definition cvt_comp_tom :: "int \<Rightarrow> member_list \<Rightarrow> converter" where
  "cvt_comp_tom ec ms host h dst dsz src cnt byteswap =
     (if dsz < cnt * of_nat (sizeof_struct ec ms) then Some (h, False)
      else do {
        h \<leftarrow> bwd_loop (struct_tom host ec ms byteswap) (FSZ ec ms) (sizeof_struct ec ms) (unat cnt)
              h dst src;
        Some (h, True) })"

subsection \<open>\<open>ELF_T_BYTE\<close>\<close>

definition cvt_BYTE_tox :: converter where
  "cvt_BYTE_tox host h dst dsz src cnt byteswap =
     (if dsz < cnt then Some (h, False)
      else do {
        h \<leftarrow> (if dst \<noteq> src then mem_copy h dst src (unat cnt) else Some h);
        Some (h, True) })"

subsection \<open>\<open>ELF_T_GNUHASH\<close>\<close>

definition READ_WORD :: "endian \<Rightarrow> heap \<Rightarrow> ptr \<Rightarrow> u32 option" where
  "READ_WORD host h p = map_option (get_word host) (mem_read h p 4)"

definition WRITE_WORD :: "endian \<Rightarrow> heap \<Rightarrow> ptr \<Rightarrow> u32 \<Rightarrow> heap option" where
  "WRITE_WORD host h p w = mem_write h p (put_word host 4 w)"

definition swap_word_if :: "bool \<Rightarrow> u32 \<Rightarrow> u32" where
  "swap_word_if byteswap w = (if byteswap then SWAP_WORD w else w)"

text \<open>The body of the loops that copy 32-bit and 64-bit words, swapping them if asked to.\<close>

definition cvt_word :: "endian \<Rightarrow> bool \<Rightarrow> bytes \<Rightarrow> bytes" where
  "cvt_word host byteswap s =
     put_word host 4 (swap_word_if byteswap (get_word host s))"

definition cvt_word64 :: "endian \<Rightarrow> bool \<Rightarrow> bytes \<Rightarrow> bytes" where
  "cvt_word64 host byteswap s =
     put_word host 8 (let t64 = get_word host s in if byteswap then SWAP_WORD64 t64 else t64)"

definition cvt_GNUHASH32_tom :: converter where
  "cvt_GNUHASH32_tom host h dst dsz src srcsz byteswap =
     cvt_prim_tom ELFCLASS64 WORD host h dst dsz src (srcsz div 4) byteswap"

definition cvt_GNUHASH32_tof :: converter where
  "cvt_GNUHASH32_tof host h dst dsz src srcsz byteswap =
     cvt_prim_tof ELFCLASS64 WORD host h dst dsz src (srcsz div 4) byteswap"

definition cvt_GNUHASH64_tom :: converter where
  "cvt_GNUHASH64_tom host h dst dsz src srcsz byteswap =
     (if dsz < 16 \<or> srcsz < 16 then Some (h, False)
      else do {
        nbuckets \<leftarrow> READ_WORD host h src;
        symndx \<leftarrow> READ_WORD host h (ptr_add src 4);
        maskwords \<leftarrow> READ_WORD host h (ptr_add src 8);
        shift2 \<leftarrow> READ_WORD host h (ptr_add src 12);
        let src = ptr_add src 16;
        let srcsz = srcsz - 16;
        let nbuckets = swap_word_if byteswap nbuckets;
        let symndx = swap_word_if byteswap symndx;
        let maskwords = swap_word_if byteswap maskwords;
        let shift2 = swap_word_if byteswap shift2;
        let sz = ucast nbuckets * 4 + ucast maskwords * 8;
        if srcsz < sz \<or> dsz < sz + 16 then Some (h, False)
        else do {
          h \<leftarrow> WRITE_WORD host h dst nbuckets;
          h \<leftarrow> WRITE_WORD host h (ptr_add dst 4) symndx;
          h \<leftarrow> WRITE_WORD host h (ptr_add dst 8) maskwords;
          h \<leftarrow> WRITE_WORD host h (ptr_add dst 12) shift2;
          let dsz = dsz - 16;
          let dst = ptr_add dst 16;
          h \<leftarrow> fwd_loop (cvt_word64 host byteswap) 8 8 (unat maskwords) h dst src;
          let src = ptr_add src (unat maskwords * 8);
          let dst = ptr_add dst (unat maskwords * 8);
          h \<leftarrow> fwd_loop (cvt_word host byteswap) 4 4 (unat nbuckets) h dst src;
          let src = ptr_add src (unat nbuckets * 4);
          let dst = ptr_add dst (unat nbuckets * 4);
          let dsz = dsz - sz;
          let srcsz = srcsz - sz;
          if dsz < srcsz then Some (h, False)
          else do {
            let nchains = (ucast (srcsz div 4) :: u32);
            h \<leftarrow> fwd_loop (cvt_word host byteswap) 4 4 (unat nchains) h dst src;
            Some (h, True) } } })"

definition cvt_GNUHASH64_tof :: converter where
  "cvt_GNUHASH64_tof host h dst dsz src srcsz byteswap =
     (if dsz < 16 \<or> srcsz < 16 then Some (h, False)
      else do {
        nbuckets \<leftarrow> READ_WORD host h src;
        symndx \<leftarrow> READ_WORD host h (ptr_add src 4);
        maskwords \<leftarrow> READ_WORD host h (ptr_add src 8);
        shift2 \<leftarrow> READ_WORD host h (ptr_add src 12);
        let src = ptr_add src 16;
        let srcsz = srcsz - 16;
        let dsz = dsz - 16;
        let sz = ucast nbuckets * 4 + ucast maskwords * 8;
        if srcsz < sz \<or> dsz < sz then Some (h, False)
        else do {
          h \<leftarrow> WRITE_WORD host h dst (swap_word_if byteswap nbuckets);
          h \<leftarrow> WRITE_WORD host h (ptr_add dst 4) (swap_word_if byteswap symndx);
          h \<leftarrow> WRITE_WORD host h (ptr_add dst 8) (swap_word_if byteswap maskwords);
          h \<leftarrow> WRITE_WORD host h (ptr_add dst 12) (swap_word_if byteswap shift2);
          let dst = ptr_add dst 16;
          h \<leftarrow> fwd_loop (cvt_word64 host byteswap) 8 8 (unat maskwords) h dst src;
          let src = ptr_add src (unat maskwords * 8);
          let dst = ptr_add dst (unat maskwords * 8);
          h \<leftarrow> fwd_loop (cvt_word host byteswap) 4 4 (unat nbuckets) h dst src;
          let src = ptr_add src (unat nbuckets * 4);
          let dst = ptr_add dst (unat nbuckets * 4);
          let srcsz = srcsz - sz;
          let dsz = dsz - sz;
          if dsz < srcsz then Some (h, False)
          else do {
            let nchains = (ucast (srcsz div 4) :: u32);
            h \<leftarrow> fwd_loop (cvt_word host byteswap) 4 4 (unat nchains) h dst src;
            Some (h, True) } } })"

subsection \<open>\<open>ELF_T_NOTE\<close>\<close>

text \<open>\<open>ROUNDUP2(V, 4U)\<close> on an \<open>uint32_t\<close>, and on a \<open>size_t\<close>, where the mask is zero-extended.\<close>

definition ROUNDUP2_u32 :: "u32 \<Rightarrow> u32" where
  "ROUNDUP2_u32 v = (v + 4 - 1) AND NOT (4 - 1)"

definition ROUNDUP2_size :: "u64 \<Rightarrow> u64" where
  "ROUNDUP2_size v = (v + 4 - 1) AND ucast (NOT (4 - 1 :: u32))"

text \<open>The loops; the guards keep the unsigned subtractions from wrapping around.\<close>

function note_tom_loop ::
  "endian \<Rightarrow> heap \<Rightarrow> ptr \<Rightarrow> nat \<Rightarrow> ptr \<Rightarrow> nat \<Rightarrow> (heap \<times> bool) option" where
  "note_tom_loop host h dst dsz src count =
     (if 12 < count then do {
        namesz \<leftarrow> READ_WORD host h src;
        descsz \<leftarrow> READ_WORD host h (ptr_add src 4);
        type \<leftarrow> READ_WORD host h (ptr_add src 8);
        let src = ptr_add src 12;
        let namesz = SWAP_WORD namesz;
        let descsz = SWAP_WORD descsz;
        let type = SWAP_WORD type;
        h \<leftarrow> WRITE_WORD host h dst namesz;
        h \<leftarrow> WRITE_WORD host h (ptr_add dst 4) descsz;
        h \<leftarrow> WRITE_WORD host h (ptr_add dst 8) type;
        let dsz = dsz - 12;
        let dst = ptr_add dst 12;
        let count' = count - 12;
        let sz = unat (ROUNDUP2_u32 namesz + ROUNDUP2_u32 descsz);
        if count' < sz \<or> dsz < sz then Some (h, False)
        else do {
          h \<leftarrow> mem_copy h dst src sz;
          note_tom_loop host h (ptr_add dst sz) (dsz - sz) (ptr_add src sz) (count' - sz) } }
      else Some (h, True))"
  by pat_completeness auto
termination
  by (relation "measure (\<lambda>(host, h, dst, dsz, src, count). count)") auto

definition cvt_NOTE_tom :: converter where
  "cvt_NOTE_tom host h dst dsz src count byteswap =
     (if dsz < count then Some (h, False)
      else if count < 12 then Some (h, False)
      else if \<not> byteswap then do { h \<leftarrow> mem_copy h dst src (unat count); Some (h, True) }
      else note_tom_loop host h dst (unat dsz) src (unat count))"

function note_tof_loop ::
  "endian \<Rightarrow> heap \<Rightarrow> ptr \<Rightarrow> ptr \<Rightarrow> nat \<Rightarrow> (heap \<times> bool) option" where
  "note_tof_loop host h dst src count =
     (if 12 < count then do {
        namesz \<leftarrow> READ_WORD host h src;
        descsz \<leftarrow> READ_WORD host h (ptr_add src 4);
        type \<leftarrow> READ_WORD host h (ptr_add src 8);
        let sz = ROUNDUP2_size (ROUNDUP2_size (ucast namesz) + ucast descsz);
        h \<leftarrow> WRITE_WORD host h dst (SWAP_WORD namesz);
        h \<leftarrow> WRITE_WORD host h (ptr_add dst 4) (SWAP_WORD descsz);
        h \<leftarrow> WRITE_WORD host h (ptr_add dst 8) (SWAP_WORD type);
        let dst = ptr_add dst 12;
        let src = ptr_add src 12;
        let count' = count - 12;
        if count' < unat sz then Some (h, False)
        else do {
          h \<leftarrow> mem_copy h dst src (unat sz);
          note_tof_loop host h (ptr_add dst (unat sz)) (ptr_add src (unat sz))
            (count' - unat sz) } }
      else Some (h, True))"
  by pat_completeness auto
termination
  by (relation "measure (\<lambda>(host, h, dst, src, count). count)") auto

definition cvt_NOTE_tof :: converter where
  "cvt_NOTE_tof host h dst dsz src count byteswap =
     (if dsz < count then Some (h, False)
      else if \<not> byteswap then do { h \<leftarrow> mem_copy h dst src (unat count); Some (h, True) }
      else note_tof_loop host h dst src (unat count))"

declare note_tom_loop.simps [simp del] note_tof_loop.simps [simp del]

subsection \<open>\<open>ELF_T_VDEF\<close> and \<open>ELF_T_VNEED\<close>: \<open>MAKE_VERSION_CONVERTER\<close>\<close>

text \<open>A member by its name, as an \<open>Elf_Word\<close>.\<close>

definition word_member :: "member_list \<Rightarrow> fval list \<Rightarrow> string \<Rightarrow> u32" where
  "word_member ms vs name =
     (case map_of (zip (map fst ms) vs) name of
        Some (VHalf h) \<Rightarrow> ucast h | Some (VWord w) \<Rightarrow> w | _ \<Rightarrow> 0)"

text \<open>
  The structures of one kind of version section: the entry, the auxiliary entry and the prefix
  of their member names.
\<close>

record version_kind =
  ver_def :: member_list
  aux_def :: member_list
  ver_pfx :: string

definition VDEF_kind :: "int \<Rightarrow> version_kind" where
  "VDEF_kind ec = (if ec = ELFCLASS32
     then \<lparr>ver_def = Elf32_Verdef_DEF, aux_def = Elf32_Verdaux_DEF, ver_pfx = ''vd''\<rparr>
     else \<lparr>ver_def = Elf64_Verdef_DEF, aux_def = Elf64_Verdaux_DEF, ver_pfx = ''vd''\<rparr>)"

definition VNEED_kind :: "int \<Rightarrow> version_kind" where
  "VNEED_kind ec = (if ec = ELFCLASS32
     then \<lparr>ver_def = Elf32_Verneed_DEF, aux_def = Elf32_Vernaux_DEF, ver_pfx = ''vn''\<rparr>
     else \<lparr>ver_def = Elf64_Verneed_DEF, aux_def = Elf64_Vernaux_DEF, ver_pfx = ''vn''\<rparr>)"

text \<open>
  \<open>dstend\<close> and \<open>srcend\<close> are the offsets of the end pointers in the buffers of \<open>dst\<close> and \<open>src\<close>.
  The loop over the auxiliary entries returns \<open>anext\<close> and \<open>cnt\<close> as it leaves them.
\<close>

primrec ver_aux_tof ::
  "endian \<Rightarrow> int \<Rightarrow> version_kind \<Rightarrow> bool \<Rightarrow> nat \<Rightarrow> nat \<Rightarrow> nat \<Rightarrow> heap \<Rightarrow> u32 \<Rightarrow> ptr \<Rightarrow> ptr
   \<Rightarrow> (heap \<times> u32 \<times> nat) option" where
  "ver_aux_tof host ec k sw dstend srcend 0 h anext dstaux srcaux = Some (h, anext, 0)"
| "ver_aux_tof host ec k sw dstend srcend (Suc cnt) h anext dstaux srcaux =
     (if anext \<noteq> 0 \<and> snd dstaux + FSZ ec (aux_def k) \<le> dstend
         \<and> snd srcaux + sizeof_struct ec (aux_def k) \<le> srcend
      then do {
        s \<leftarrow> mem_read h srcaux (sizeof_struct ec (aux_def k));
        let a = struct_load host ec (aux_def k) s;
        let anext = word_member (aux_def k) a (ver_pfx k @ ''a_next'');
        h \<leftarrow> mem_write h dstaux (WRITE_MEMBERS host (SWAP_MEMBERS sw a));
        ver_aux_tof host ec k sw dstend srcend cnt h anext
          (ptr_add dstaux (unat anext)) (ptr_add srcaux (unat anext)) }
      else Some (h, anext, Suc cnt))"

lemma ver_advance:
  "(v' :: u32) \<noteq> 0 \<Longrightarrow> d + f \<le> e \<Longrightarrow> 0 < f \<Longrightarrow> e - (d + unat v') < e - d"
  by (cases "unat v'") (auto simp: unat_eq_0)

function ver_tof_loop ::
  "endian \<Rightarrow> int \<Rightarrow> version_kind \<Rightarrow> bool \<Rightarrow> nat \<Rightarrow> nat \<Rightarrow> heap \<Rightarrow> u32 \<Rightarrow> ptr \<Rightarrow> ptr
   \<Rightarrow> (heap \<times> bool) option" where
  "ver_tof_loop host ec k sw dstend srcend h vnext dtmp src =
     (if vnext \<noteq> 0 \<and> snd dtmp + FSZ ec (ver_def k) \<le> dstend
         \<and> snd src + sizeof_struct ec (ver_def k) \<le> srcend
         \<and> 0 < FSZ ec (ver_def k)
      then do {
        s \<leftarrow> mem_read h src (sizeof_struct ec (ver_def k));
        let t = struct_load host ec (ver_def k) s;
        let aux = word_member (ver_def k) t (ver_pfx k @ ''_aux'');
        let cnt = word_member (ver_def k) t (ver_pfx k @ ''_cnt'');
        let vnext = word_member (ver_def k) t (ver_pfx k @ ''_next'');
        h \<leftarrow> mem_write h dtmp (WRITE_MEMBERS host (SWAP_MEMBERS sw t));
        if unat aux < FSZ ec (ver_def k) then Some (h, False)
        else do {
          (h, anext, cnt) \<leftarrow> ver_aux_tof host ec k sw dstend srcend (unat cnt) h (- 1)
            (ptr_add dtmp (unat aux)) (ptr_add src (unat aux));
          if anext \<noteq> 0 \<or> cnt \<noteq> 0 then Some (h, False)
          else ver_tof_loop host ec k sw dstend srcend h vnext
                 (ptr_add dtmp (unat vnext)) (ptr_add src (unat vnext)) } }
      else Some (h, vnext = 0))"
  by pat_completeness auto
termination
proof (relation "measure (\<lambda>(host, ec, k, sw, dstend, srcend, h, vnext, dtmp, src).
    if vnext = 0 then 0 else Suc (dstend - snd dtmp))", goal_cases)
  case 1
  show ?case by simp
next
  case (2 host ec k sw dstend srcend h vnext dtmp src)
  then show ?case
    by (auto simp: ptr_add_def intro!: ver_advance)
qed

primrec ver_aux_tom ::
  "endian \<Rightarrow> int \<Rightarrow> version_kind \<Rightarrow> bool \<Rightarrow> nat \<Rightarrow> nat \<Rightarrow> nat \<Rightarrow> heap \<Rightarrow> u32 \<Rightarrow> ptr \<Rightarrow> ptr
   \<Rightarrow> (heap \<times> u32 \<times> nat) option" where
  "ver_aux_tom host ec k sw dstend srcend 0 h anext dstaux srcaux = Some (h, anext, 0)"
| "ver_aux_tom host ec k sw dstend srcend (Suc cnt) h anext dstaux srcaux =
     (if anext \<noteq> 0 \<and> snd dstaux + sizeof_struct ec (aux_def k) \<le> dstend
         \<and> snd srcaux + FSZ ec (aux_def k) \<le> srcend
      then do {
        s \<leftarrow> mem_read h srcaux (FSZ ec (aux_def k));
        let a = SWAP_MEMBERS sw (READ_MEMBERS host ec (aux_def k) s);
        let anext = word_member (aux_def k) a (ver_pfx k @ ''a_next'');
        h \<leftarrow> mem_write h dstaux (struct_store host ec (aux_def k) a);
        ver_aux_tom host ec k sw dstend srcend cnt h anext
          (ptr_add dstaux (unat anext)) (ptr_add srcaux (unat anext)) }
      else Some (h, anext, Suc cnt))"

function ver_tom_loop ::
  "endian \<Rightarrow> int \<Rightarrow> version_kind \<Rightarrow> bool \<Rightarrow> nat \<Rightarrow> nat \<Rightarrow> heap \<Rightarrow> u32 \<Rightarrow> ptr \<Rightarrow> ptr
   \<Rightarrow> (heap \<times> bool) option" where
  "ver_tom_loop host ec k sw dstend srcend h vnext dst stmp =
     (if vnext \<noteq> 0 \<and> snd stmp + FSZ ec (ver_def k) \<le> srcend
         \<and> snd dst + sizeof_struct ec (ver_def k) \<le> dstend
         \<and> 0 < FSZ ec (ver_def k)
      then do {
        s \<leftarrow> mem_read h stmp (FSZ ec (ver_def k));
        let t = SWAP_MEMBERS sw (READ_MEMBERS host ec (ver_def k) s);
        h \<leftarrow> mem_write h dst (struct_store host ec (ver_def k) t);
        let aux = word_member (ver_def k) t (ver_pfx k @ ''_aux'');
        let cnt = word_member (ver_def k) t (ver_pfx k @ ''_cnt'');
        let vnext = word_member (ver_def k) t (ver_pfx k @ ''_next'');
        if unat aux < sizeof_struct ec (ver_def k) then Some (h, False)
        else do {
          (h, anext, cnt) \<leftarrow> ver_aux_tom host ec k sw dstend srcend (unat cnt) h (- 1)
            (ptr_add dst (unat aux)) (ptr_add stmp (unat aux));
          if anext \<noteq> 0 \<or> cnt \<noteq> 0 then Some (h, False)
          else ver_tom_loop host ec k sw dstend srcend h vnext
                 (ptr_add dst (unat vnext)) (ptr_add stmp (unat vnext)) } }
      else Some (h, vnext = 0))"
  by pat_completeness auto
termination
proof (relation "measure (\<lambda>(host, ec, k, sw, dstend, srcend, h, vnext, dst, stmp).
    if vnext = 0 then 0 else Suc (srcend - snd stmp))", goal_cases)
  case 1
  show ?case by simp
next
  case (2 host ec k sw dstend srcend h vnext dst stmp)
  then show ?case
    by (auto simp: ptr_add_def intro!: ver_advance)
qed

declare ver_tof_loop.simps [simp del] ver_tom_loop.simps [simp del]

definition cvt_version_tof :: "(int \<Rightarrow> version_kind) \<Rightarrow> int \<Rightarrow> converter" where
  "cvt_version_tof kind ec host h dst dsz src count byteswap =
     ver_tof_loop host ec (kind ec) byteswap (snd dst + unat dsz) (snd src + unat count)
       h (- 1) dst src"

definition cvt_version_tom :: "(int \<Rightarrow> version_kind) \<Rightarrow> int \<Rightarrow> converter" where
  "cvt_version_tom kind ec host h dst dsz src count byteswap =
     ver_tom_loop host ec (kind ec) byteswap (snd dst + unat dsz) (snd src + unat count)
       h (- 1) dst src"

section \<open>The translator table: \<open>cvt[]\<close> and \<open>_libelf_get_translator\<close>\<close>

datatype direction = ELF_TOFILE | ELF_TOMEMORY

text \<open>\<open>None\<close> is a \<open>NULL\<close> entry: \<open>ELF_T_MOVEP\<close>, and the 64-bit integers of the 32-bit class.\<close>

fun cvt_table :: "Elf_Type \<Rightarrow> direction \<Rightarrow> int \<Rightarrow> converter option" where
  "cvt_table ELF_T_BYTE dir ec = Some cvt_BYTE_tox"
| "cvt_table ELF_T_NOTE dir ec = Some (if dir = ELF_TOFILE then cvt_NOTE_tof else cvt_NOTE_tom)"
| "cvt_table ELF_T_GNUHASH dir ec =
     Some (if ec = ELFCLASS32
           then (if dir = ELF_TOFILE then cvt_GNUHASH32_tof else cvt_GNUHASH32_tom)
           else (if dir = ELF_TOFILE then cvt_GNUHASH64_tof else cvt_GNUHASH64_tom))"
| "cvt_table ELF_T_VDEF dir ec =
     Some (if dir = ELF_TOFILE then cvt_version_tof VDEF_kind ec else cvt_version_tom VDEF_kind ec)"
| "cvt_table ELF_T_VNEED dir ec =
     Some (if dir = ELF_TOFILE then cvt_version_tof VNEED_kind ec else cvt_version_tom VNEED_kind ec)"
| "cvt_table t dir ec =
     (case struct_def ec t of
        Some ms \<Rightarrow> Some (if dir = ELF_TOFILE then cvt_comp_tof ec ms else cvt_comp_tom ec ms)
      | None \<Rightarrow>
          (case prim_type ec t of
             Some f \<Rightarrow> Some (if dir = ELF_TOFILE then cvt_prim_tof ec f else cvt_prim_tom ec f)
           | None \<Rightarrow> None))"

definition libelf_get_translator ::
  "Elf_Type \<Rightarrow> direction \<Rightarrow> int \<Rightarrow> u16 \<Rightarrow> converter option option" where
  "libelf_get_translator t dir elfclass elfmachine = do {
     c_assert (elfclass = ELFCLASS32 \<or> elfclass = ELFCLASS64);
     c_assert (elf_type_valid t);
     Some (cvt_table t dir elfclass) }"

section \<open>Laws of the converters\<close>

subsection \<open>Arrays of elements of fixed size\<close>

text \<open>
  The interface of a pair of element converters: sizes, and \<open>tof\<close> is a left inverse of \<open>tom\<close>.
  The lemmas are about the loops the converters run.
\<close>

locale elem_codec =
  fixes fsz :: nat and msz :: nat
    and tom :: "bytes \<Rightarrow> bytes" and tof :: "bytes \<Rightarrow> bytes"
  assumes sizes: "fsz \<le> msz"
    and length_tom: "length s = fsz \<Longrightarrow> length (tom s) = msz"
    and length_tof: "length s = msz \<Longrightarrow> length (tof s) = fsz"
    and tof_tom: "length s = fsz \<Longrightarrow> tof (tom s) = s"
begin

lemma image_back:
  "length bs = n * fsz \<Longrightarrow>
   concat (map tof (chunks msz n (concat (map tom (chunks fsz n bs))))) = bs"
proof (induction n arbitrary: bs)
  case 0
  then show ?case by simp
next
  case (Suc n)
  have l: "length (take fsz bs) = fsz" "length (drop fsz bs) = n * fsz" using Suc.prems by auto
  show ?case using Suc.IH[OF l(2)] length_tom[OF l(1)] tof_tom[OF l(1)] by simp
qed

lemma tom_array:
  assumes "mem_read h src (n * fsz) = Some bs" "window h dst (n * msz)"
    "bwd_safe dst (n * msz) src"
  obtains h' where "bwd_loop tom fsz msz n h dst src = Some h'" "same_shape h h'"
    "mem_read h' dst (n * msz) = Some (concat (map tom (chunks fsz n bs)))"
    "\<And>q l. apart dst (n * msz) q l \<Longrightarrow> mem_read h' q l = mem_read h q l"
proof -
  have l: "length (concat (map tom (chunks fsz n bs))) = n * msz"
    by (rule length_image[OF length_tom mem_read_length[OF assms(1)]])
  from bwd_loop_spec[where f = tom, OF length_tom sizes assms(1) _ assms(3)] assms(2) obtain h'
    where h': "bwd_loop tom fsz msz n h dst src = Some h'"
      and w: "mem_write h dst (concat (map tom (chunks fsz n bs))) = Some h'"
    by (auto simp: window_def)
  have "same_shape h h'"
    using w by (rule same_shape_write)
  then show thesis
    using that h' mem_read_write_same[OF w] mem_read_write_apart[OF w] unfolding l by blast
qed

lemma tof_array:
  assumes "mem_read h src (n * msz) = Some bs" "window h dst (n * fsz)"
    "fwd_safe dst src (n * msz)"
  obtains h' where "fwd_loop tof msz fsz n h dst src = Some h'" "same_shape h h'"
    "mem_read h' dst (n * fsz) = Some (concat (map tof (chunks msz n bs)))"
    "\<And>q l. apart dst (n * fsz) q l \<Longrightarrow> mem_read h' q l = mem_read h q l"
proof -
  have l: "length (concat (map tof (chunks msz n bs))) = n * fsz"
    by (rule length_image[OF length_tof mem_read_length[OF assms(1)]])
  from fwd_loop_spec[where f = tof, OF length_tof sizes assms(1) _ assms(3)] assms(2) obtain h'
    where h': "fwd_loop tof msz fsz n h dst src = Some h'"
      and w: "mem_write h dst (concat (map tof (chunks msz n bs))) = Some h'"
    by (auto simp: window_def)
  have "same_shape h h'"
    using w by (rule same_shape_write)
  then show thesis
    using that h' mem_read_write_same[OF w] mem_read_write_apart[OF w] unfolding l by blast
qed

lemma tom_tof_array:
  assumes "mem_read h src (n * fsz) = Some bs" "window h mid (n * msz)"
    "bwd_safe mid (n * msz) src" "window h dst (n * fsz)" "fwd_safe dst mid (n * msz)"
  obtains h1 h2 where "bwd_loop tom fsz msz n h mid src = Some h1"
    "fwd_loop tof msz fsz n h1 dst mid = Some h2" "mem_read h2 dst (n * fsz) = Some bs"
proof -
  obtain h1 where h1: "bwd_loop tom fsz msz n h mid src = Some h1" "same_shape h h1"
    and r1: "mem_read h1 mid (n * msz) = Some (concat (map tom (chunks fsz n bs)))"
    using tom_array[OF assms(1-3)] .
  have w: "window h1 dst (n * fsz)" using h1(2) assms(4) by (simp add: same_shape_window)
  obtain h2 where "fwd_loop tof msz fsz n h1 dst mid = Some h2"
    "mem_read h2 dst (n * fsz) =
       Some (concat (map tof (chunks msz n (concat (map tom (chunks fsz n bs))))))"
    using tof_array[OF r1 w assms(5)] .
  then show thesis
    using that h1(1) image_back[OF mem_read_length[OF assms(1)]] by metis
qed

end

interpretation comp: elem_codec "FSZ ec ms" "sizeof_struct ec ms"
    "struct_tom host ec ms sw" "struct_tof host ec ms sw"
  for host ec ms sw
  by unfold_locales (simp_all only: codec_simps FSZ_le_sizeof)

lemma prim_swap_twice:
  "length s = field_size ec f \<Longrightarrow> prim_swap host ec f (prim_swap host ec f s) = s"
  using fld.rd_wr[of ec f "swap_field (read_field host ec f s)" host]
    fld.rd_ok[of s ec f host] fld.wr_rd[of s ec f host]
  by (simp add: prim_swap_def codec_simps)

lemma length_prim_swap [codec_simps]:
  "length s = field_size ec f \<Longrightarrow> length (prim_swap host ec f s) = field_size ec f"
  using fld.wr_width[of ec f "swap_field (read_field host ec f s)" host] fld.rd_ok[of s ec f host]
  by (simp add: prim_swap_def codec_simps)

interpretation prim: elem_codec "field_size ec f" "field_size ec f"
    "prim_swap host ec f" "prim_swap host ec f"
  for host ec f
  by unfold_locales (simp_all add: length_prim_swap prim_swap_twice)

subsection \<open>Memory safety on arbitrary input\<close>

text \<open>
  \<open>kept d N h0 h\<close>: since \<open>h0\<close> no window has appeared or gone, and of the bytes only the \<open>N\<close> ones
  at \<open>d\<close>, which exist, may have changed. \<open>safe_res d N h0 r\<close>: the computation returned, in such
  a memory. The rules follow the statements of the converters.
\<close>

definition kept :: "ptr \<Rightarrow> nat \<Rightarrow> heap \<Rightarrow> heap \<Rightarrow> bool" where
  "kept d N h0 h \<longleftrightarrow> window h0 d N \<and> same_shape h0 h \<and> same_outside d N h0 h"

definition safe_res :: "ptr \<Rightarrow> nat \<Rightarrow> heap \<Rightarrow> (heap \<times> bool) option \<Rightarrow> bool" where
  "safe_res d N h0 r \<longleftrightarrow> (\<exists>h' b. r = Some (h', b) \<and> kept d N h0 h')"

lemma kept_refl: "window h d N \<Longrightarrow> kept d N h h"
  by (simp add: kept_def)

lemma kept_window: "kept d N h0 h \<Longrightarrow> window h p n = window h0 p n"
  by (simp add: kept_def same_shape_window)

lemma kept_area: "kept d N h0 h \<Longrightarrow> area d N p n \<Longrightarrow> window h p n"
  using area_window[of h0 d N p n] kept_window[of d N h0 h p n] by (simp add: kept_def)

lemma kept_step:
  "kept d N h0 h \<Longrightarrow> area d N p n \<Longrightarrow> same_shape h h' \<Longrightarrow> same_outside p n h h' \<Longrightarrow> kept d N h0 h'"
  using same_outside_area same_outside_trans same_shape_trans unfolding kept_def by blast

lemma safe_done: "kept d N h0 h \<Longrightarrow> safe_res d N h0 (Some (h, b))"
  by (auto simp: safe_res_def)

lemma safe_if:
  "(b \<Longrightarrow> safe_res d N h0 x) \<Longrightarrow> (\<not> b \<Longrightarrow> safe_res d N h0 y) \<Longrightarrow> safe_res d N h0 (if b then x else y)"
  by simp

lemma safe_read:
  assumes "kept d N h0 h" "window h0 p n" "\<And>bs. length bs = n \<Longrightarrow> safe_res d N h0 (f bs)"
  shows "safe_res d N h0 (Option.bind (mem_read h p n) f)"
proof -
  have "window h p n" using assms(1,2) by (simp add: kept_window)
  then show ?thesis by (rule window_readE) (simp add: assms(3))
qed

lemma safe_write:
  assumes "kept d N h0 h" "area d N p n" "length bs = n"
    "\<And>h'. kept d N h0 h' \<Longrightarrow> safe_res d N h0 (f h')"
  shows "safe_res d N h0 (Option.bind (mem_write h p bs) f)"
proof -
  have "window h p n" using assms(1,2) by (rule kept_area)
  then show ?thesis
    by (rule window_writeE[OF _ assms(3)]) (simp add: assms(4)[OF kept_step[OF assms(1,2)]])
qed

lemma safe_copy:
  assumes "kept d N h0 h" "area d N dst n" "window h0 src n"
    "\<And>h'. kept d N h0 h' \<Longrightarrow> safe_res d N h0 (f h')"
  shows "safe_res d N h0 (Option.bind (mem_copy h dst src n) f)"
proof -
  have "window h dst n" "window h src n" using assms(3) kept_area[OF assms(1,2)] kept_window[OF assms(1)] by simp_all
  then show ?thesis
    by (rule window_copyE) (simp add: assms(4)[OF kept_step[OF assms(1,2)]])
qed

lemma safe_READ_WORD:
  assumes "kept d N h0 h" "window h0 p 4" "\<And>w. safe_res d N h0 (f w)"
  shows "safe_res d N h0 (Option.bind (READ_WORD host h p) f)"
proof -
  have "window h p 4" using assms(1,2) by (simp add: kept_window)
  then show ?thesis by (rule window_readE) (simp add: READ_WORD_def assms(3))
qed

lemma safe_WRITE_WORD:
  assumes "kept d N h0 h" "area d N p 4" "\<And>h'. kept d N h0 h' \<Longrightarrow> safe_res d N h0 (f h')"
  shows "safe_res d N h0 (Option.bind (WRITE_WORD host h p w) f)"
  unfolding WRITE_WORD_def by (rule safe_write[OF assms(1,2) _ assms(3)]) simp_all

lemma safe_fwd_loop:
  assumes "kept d N h0 h" "area d N dst (n * k)" "window h0 src (n * m)"
    "\<And>x. length x = m \<Longrightarrow> length (g x) = k"
    "\<And>h'. kept d N h0 h' \<Longrightarrow> safe_res d N h0 (f h')"
  shows "safe_res d N h0 (Option.bind (fwd_loop g m k n h dst src) f)"
proof -
  have w: "window h dst (n * k)" "window h src (n * m)"
    using assms(3) kept_area[OF assms(1,2)] kept_window[OF assms(1)] by simp_all
  obtain h' where "fwd_loop g m k n h dst src = Some h'" "same_shape h h'" "same_outside dst (n * k) h h'"
    using fwd_loop_window[where f = g, OF assms(4) w] by blast
  then show ?thesis using assms(5)[OF kept_step[OF assms(1,2)]] by simp
qed

lemma safe_bwd_loop:
  assumes "kept d N h0 h" "area d N dst (n * k)" "window h0 src (n * m)"
    "\<And>x. length x = m \<Longrightarrow> length (g x) = k"
    "\<And>h'. kept d N h0 h' \<Longrightarrow> safe_res d N h0 (f h')"
  shows "safe_res d N h0 (Option.bind (bwd_loop g m k n h dst src) f)"
proof -
  have w: "window h dst (n * k)" "window h src (n * m)"
    using assms(3) kept_area[OF assms(1,2)] kept_window[OF assms(1)] by simp_all
  obtain h' where "bwd_loop g m k n h dst src = Some h'" "same_shape h h'" "same_outside dst (n * k) h h'"
    using bwd_loop_window[where f = g, OF assms(4) w] by blast
  then show ?thesis using assms(5)[OF kept_step[OF assms(1,2)]] by simp
qed

lemma note_tom_safe:
  "kept d N h0 h \<Longrightarrow> area d N dst dsz \<Longrightarrow> window h0 src count \<Longrightarrow> count \<le> dsz \<Longrightarrow>
   safe_res d N h0 (note_tom_loop host h dst dsz src count)"
proof (induction count arbitrary: h dst dsz src rule: less_induct)
  case (less count)
  note w = less.prems
  show ?case
    unfolding note_tom_loop.simps[of host h dst dsz src count] Let_def ptr_add_simps
    apply (intro safe_if safe_READ_WORD safe_WRITE_WORD safe_copy safe_done less.IH)
    using w
    by (auto intro: window_sub window_le area_sub area_le)
qed

lemma note_tof_safe:
  "kept d N h0 h \<Longrightarrow> area d N dst count \<Longrightarrow> window h0 src count \<Longrightarrow>
   safe_res d N h0 (note_tof_loop host h dst src count)"
proof (induction count arbitrary: h dst src rule: less_induct)
  case (less count)
  note w = less.prems
  show ?case
    unfolding note_tof_loop.simps[of host h dst src count] Let_def ptr_add_simps
    apply (intro safe_if safe_READ_WORD safe_WRITE_WORD safe_copy safe_done less.IH)
    using w
    by (auto intro: window_sub window_le area_sub area_le)
qed

lemma unat_gnuhash_size:
  "unat (ucast (a :: u32) * 4 + ucast (b :: u32) * 8 :: u64) = unat a * 4 + unat b * 8"
proof -
  have "unat a < 2 ^ 32" "unat b < 2 ^ 32"
    using unat_lt2p[of a] unat_lt2p[of b] by simp_all
  then show ?thesis by (simp add: unat_word_ariths)
qed

lemma length_cvt_word [codec_simps]:
  "length (cvt_word host sw s) = 4" "length (cvt_word64 host sw s) = 8"
  by (simp_all add: cvt_word_def cvt_word64_def)

lemma nchains_le: "unat (ucast ((n :: u64) div 4) :: u32) * 4 \<le> unat n"
proof -
  have "unat (ucast (n div 4) :: u32) \<le> unat (n div 4)"
    by (simp add: unat_ucast_mod)
  moreover have "unat (n div 4) * 4 \<le> unat n" by (simp add: unat_div)
  ultimately show ?thesis by linarith
qed

lemma gnuhash_fits:
  assumes "16 \<le> n" "\<not> n - 16 < ucast (nb :: u32) * 4 + ucast (mw :: u32) * 8"
  shows "16 + (unat mw * 8 + unat nb * 4) \<le> unat (n :: u64)"
  using assms unat_gnuhash_size[of nb mw]
  by (simp add: word_le_nat_alt not_less unat_minus_le)

lemma gnuhash_windows:
  assumes "area d N dst (unat dsz)" "window h src (unat srcsz)"
    and sz: "16 + (unat mw * 8 + unat nb * 4) \<le> unat srcsz"
      "16 + (unat mw * 8 + unat nb * 4) \<le> unat dsz"
    and ch: "\<not> dsz - 16 - (ucast (nb :: u32) * 4 + ucast (mw :: u32) * 8)
      < srcsz - 16 - (ucast nb * 4 + ucast mw * 8 :: u64)"
    and n: "n = unat (ucast ((srcsz - 16 - (ucast nb * 4 + ucast mw * 8)) div 4) :: u32) * 4"
  shows "area d N (ptr_add dst (16 + (unat mw * 8 + unat nb * 4))) n"
    "window h (ptr_add src (16 + (unat mw * 8 + unat nb * 4))) n"
proof -
  let ?sz = "ucast nb * 4 + ucast mw * 8 :: u64"
  have u: "unat ?sz = unat mw * 8 + unat nb * 4" by (simp add: unat_gnuhash_size)
  have m: "unat (m - 16 - ?sz) = unat m - 16 - unat ?sz"
    if "16 + (unat mw * 8 + unat nb * 4) \<le> unat m" for m
  proof -
    have 16: "16 \<le> m" using that by (simp add: word_le_nat_alt)
    then have "?sz \<le> m - 16" using that u by (simp add: word_le_nat_alt unat_minus_le)
    then show ?thesis using 16 by (simp add: unat_minus_le)
  qed
  have n1: "n \<le> unat srcsz - 16 - unat ?sz"
    using nchains_le[of "srcsz - 16 - ?sz"] unfolding m[OF sz(1)] n .
  have "unat (srcsz - 16 - ?sz) \<le> unat (dsz - 16 - ?sz)"
    using ch by (simp add: word_le_nat_alt not_less)
  then have n2: "n \<le> unat dsz - 16 - unat ?sz" using n1 unfolding m[OF sz(1)] m[OF sz(2)] by linarith
  show "area d N (ptr_add dst (16 + (unat mw * 8 + unat nb * 4))) n"
    using n2 sz unfolding u by (intro area_sub[OF assms(1)]) linarith
  show "window h (ptr_add src (16 + (unat mw * 8 + unat nb * 4))) n"
    using n1 sz unfolding u by (intro window_sub[OF assms(2)]) linarith
qed

lemma GNUHASH64_tom_safe:
  assumes k: "kept d N h h" and w: "area d N dst (unat dsz)" "window h src (unat srcsz)"
  shows "safe_res d N h (cvt_GNUHASH64_tom host h dst dsz src srcsz sw)"
proof (cases "dsz < 16 \<or> srcsz < 16")
  case True
  then show ?thesis by (simp add: cvt_GNUHASH64_tom_def safe_done k)
next
  case False
  then have le: "16 \<le> dsz" "16 \<le> srcsz" by (simp_all add: not_less)
  then have l16: "16 \<le> unat dsz" "16 \<le> unat srcsz" by (simp_all add: word_le_nat_alt)
  have plus: "dsz < sz + 16 \<longleftrightarrow> dsz - 16 < sz" if "unat sz + 16 < 2 ^ 64" for sz :: u64
    using le that l16 by (simp add: word_less_nat_alt unat_minus_le unat_word_ariths less_diff_conv2)
  have small: "unat (ucast (a :: u32) * 4 + ucast (b :: u32) * 8 :: u64) + 16 < 2 ^ 64" for a b
    using unat_lt2p[of a] unat_lt2p[of b] by (simp add: unat_gnuhash_size)
  note fits = gnuhash_fits[OF le(1)] gnuhash_fits[OF le(2)]
  note w0 = k area_le[OF w(1)] window_le[OF w(2)] area_sub[OF w(1)] window_sub[OF w(2)]
  show ?thesis
    unfolding cvt_GNUHASH64_tom_def Let_def ptr_add_simps plus[OF small]
      add.assoc[where 'a = nat]
    apply (intro safe_if safe_READ_WORD safe_WRITE_WORD safe_fwd_loop safe_done length_cvt_word)
    using l16
    by (auto intro: w0 gnuhash_windows[OF w] dest!: fits)
qed

lemma GNUHASH64_tof_safe:
  assumes k: "kept d N h h" and w: "area d N dst (unat dsz)" "window h src (unat srcsz)"
  shows "safe_res d N h (cvt_GNUHASH64_tof host h dst dsz src srcsz sw)"
proof (cases "dsz < 16 \<or> srcsz < 16")
  case True
  then show ?thesis by (simp add: cvt_GNUHASH64_tof_def safe_done k)
next
  case False
  then have le: "16 \<le> dsz" "16 \<le> srcsz" by (simp_all add: not_less)
  then have l16: "16 \<le> unat dsz" "16 \<le> unat srcsz" by (simp_all add: word_le_nat_alt)
  note fits = gnuhash_fits[OF le(1)] gnuhash_fits[OF le(2)]
  note w0 = k area_le[OF w(1)] window_le[OF w(2)] area_sub[OF w(1)] window_sub[OF w(2)]
  show ?thesis
    unfolding cvt_GNUHASH64_tof_def Let_def ptr_add_simps add.assoc[where 'a = nat]
    apply (intro safe_if safe_READ_WORD safe_WRITE_WORD safe_fwd_loop safe_done length_cvt_word)
    using l16
    by (auto intro: w0 gnuhash_windows[OF w] dest!: fits)
qed

text \<open>The version loops stay between \<open>src\<close> and \<open>srcend\<close>, and between \<open>dst\<close> and \<open>dstend\<close>.\<close>

definition up_to :: "heap \<Rightarrow> ptr \<Rightarrow> nat \<Rightarrow> bool" where
  "up_to h p e \<longleftrightarrow> (\<forall>n. snd p + n \<le> e \<longrightarrow> window h p n)"

lemma up_to_window: "up_to h p e \<Longrightarrow> snd p + n \<le> e \<Longrightarrow> window h p n"
  by (simp add: up_to_def)

lemma up_to_add:
  assumes "up_to h p e"
  shows "up_to h (ptr_add p k) e"
  unfolding up_to_def
proof (intro allI impI)
  fix n assume "snd (ptr_add p k) + n \<le> e"
  then have "window h p (k + n)" by (intro up_to_window[OF assms]) simp
  then show "window h (ptr_add p k) n" by (rule window_sub) simp
qed

lemma up_to_shape: "same_shape h h' \<Longrightarrow> up_to h' p e = up_to h p e"
  by (simp add: up_to_def same_shape_window)

lemma up_to_I: "window h p n \<Longrightarrow> up_to h p (snd p + n)"
  by (auto simp: up_to_def intro: window_le)

text \<open>\<open>dst_to d N p e\<close>: the bytes from \<open>p\<close> up to the offset \<open>e\<close> are among the \<open>N\<close> ones at \<open>d\<close>.\<close>

definition dst_to :: "ptr \<Rightarrow> nat \<Rightarrow> ptr \<Rightarrow> nat \<Rightarrow> bool" where
  "dst_to d N p e \<longleftrightarrow> fst p = fst d \<and> snd d \<le> snd p \<and> e \<le> snd d + N"

lemma dst_to_area: "dst_to d N p e \<Longrightarrow> snd p + n \<le> e \<Longrightarrow> area d N p n"
  by (simp add: dst_to_def area_def)

lemma dst_to_add: "dst_to d N p e \<Longrightarrow> dst_to d N (ptr_add p k) e"
  by (simp add: dst_to_def)

lemma dst_to_I: "area d N p n \<Longrightarrow> dst_to d N p (snd p + n)"
  by (simp add: dst_to_def area_def)

lemma ver_aux_tof_safe:
  "kept d N h0 h \<Longrightarrow> dst_to d N dst dstend \<Longrightarrow> up_to h0 src srcend \<Longrightarrow>
   \<exists>h' an c. ver_aux_tof host ec k sw dstend srcend cnt h anext dst src = Some (h', an, c)
     \<and> kept d N h0 h'"
proof (induction cnt arbitrary: h anext dst src)
  case 0
  then show ?case by simp
next
  case (Suc cnt)
  show ?case
  proof (cases "anext \<noteq> 0 \<and> snd dst + FSZ ec (aux_def k) \<le> dstend
      \<and> snd src + sizeof_struct ec (aux_def k) \<le> srcend")
    case True
    have ar: "area d N dst (FSZ ec (aux_def k))" using True dst_to_area[OF Suc.prems(2)] by simp
    have "window h src (sizeof_struct ec (aux_def k))" "window h dst (FSZ ec (aux_def k))"
      using True kept_area[OF Suc.prems(1) ar] up_to_window[OF Suc.prems(3)] Suc.prems(1)
      by (simp_all add: kept_window)
    moreover obtain s where s: "mem_read h src (sizeof_struct ec (aux_def k)) = Some s"
      "length s = sizeof_struct ec (aux_def k)"
      using calculation(1) by (rule window_readE)
    let ?a = "struct_load host ec (aux_def k) s"
    have "length (WRITE_MEMBERS host (SWAP_MEMBERS sw ?a)) = FSZ ec (aux_def k)"
      using s(2) by (simp add: codec_simps)
    then obtain h1 where h1: "mem_write h dst (WRITE_MEMBERS host (SWAP_MEMBERS sw ?a)) = Some h1"
      "same_shape h h1" "same_outside dst (FSZ ec (aux_def k)) h h1"
      using calculation(2) by (elim window_writeE)
    show ?thesis
      using True s(1) h1(1) Suc.IH[OF kept_step[OF Suc.prems(1) ar h1(2,3)]
        dst_to_add[OF Suc.prems(2)] up_to_add[OF Suc.prems(3)]]
      by (simp add: Let_def)
  next
    case False
    then show ?thesis using Suc.prems by auto
  qed
qed

lemma ver_aux_tom_safe:
  "kept d N h0 h \<Longrightarrow> dst_to d N dst dstend \<Longrightarrow> up_to h0 src srcend \<Longrightarrow>
   \<exists>h' an c. ver_aux_tom host ec k sw dstend srcend cnt h anext dst src = Some (h', an, c)
     \<and> kept d N h0 h'"
proof (induction cnt arbitrary: h anext dst src)
  case 0
  then show ?case by simp
next
  case (Suc cnt)
  show ?case
  proof (cases "anext \<noteq> 0 \<and> snd dst + sizeof_struct ec (aux_def k) \<le> dstend
      \<and> snd src + FSZ ec (aux_def k) \<le> srcend")
    case True
    have ar: "area d N dst (sizeof_struct ec (aux_def k))" using True dst_to_area[OF Suc.prems(2)] by simp
    have "window h src (FSZ ec (aux_def k))" "window h dst (sizeof_struct ec (aux_def k))"
      using True kept_area[OF Suc.prems(1) ar] up_to_window[OF Suc.prems(3)] Suc.prems(1)
      by (simp_all add: kept_window)
    moreover obtain s where s: "mem_read h src (FSZ ec (aux_def k)) = Some s"
      "length s = FSZ ec (aux_def k)"
      using calculation(1) by (rule window_readE)
    let ?a = "struct_store host ec (aux_def k) (SWAP_MEMBERS sw (READ_MEMBERS host ec (aux_def k) s))"
    have "length ?a = sizeof_struct ec (aux_def k)" using s(2) by (simp add: codec_simps)
    then obtain h1 where h1: "mem_write h dst ?a = Some h1" "same_shape h h1"
      "same_outside dst (sizeof_struct ec (aux_def k)) h h1"
      using calculation(2) by (elim window_writeE)
    show ?thesis
      using True s(1) h1(1) Suc.IH[OF kept_step[OF Suc.prems(1) ar h1(2,3)]
        dst_to_add[OF Suc.prems(2)] up_to_add[OF Suc.prems(3)]]
      by (simp add: Let_def)
  next
    case False
    then show ?thesis using Suc.prems by auto
  qed
qed

lemma safe_bind_aux:
  assumes "\<exists>h' an c. m = Some (h', an, c) \<and> kept d N h0 h'"
    "\<And>h' an c. kept d N h0 h' \<Longrightarrow> safe_res d N h0 (f (h', an, c))"
  shows "safe_res d N h0 (Option.bind m f)"
  using assms by auto

lemma ver_tof_safe:
  "kept d N h0 h \<Longrightarrow> dst_to d N dtmp dstend \<Longrightarrow> up_to h0 src srcend \<Longrightarrow>
   safe_res d N h0 (ver_tof_loop host ec k sw dstend srcend h vnext dtmp src)"
proof (induction "if vnext = 0 then 0 else Suc (dstend - snd dtmp)"
    arbitrary: h vnext dtmp src rule: less_induct)
  case less
  note up = dst_to_area[OF less.prems(2)] up_to_window[OF less.prems(3)]
    dst_to_add[OF less.prems(2)] up_to_add[OF less.prems(3)]
  show ?case
    unfolding ver_tof_loop.simps[of host ec k sw dstend srcend h vnext dtmp src] Let_def
    apply (intro safe_if safe_read safe_write[where n = "FSZ ec (ver_def k)"] safe_bind_aux
        ver_aux_tof_safe safe_done)
    using less.prems(1)
    by (auto intro!: less.hyps safe_done ver_advance up simp: codec_simps)
qed

lemma ver_tom_safe:
  "kept d N h0 h \<Longrightarrow> dst_to d N dst dstend \<Longrightarrow> up_to h0 stmp srcend \<Longrightarrow>
   safe_res d N h0 (ver_tom_loop host ec k sw dstend srcend h vnext dst stmp)"
proof (induction "if vnext = 0 then 0 else Suc (srcend - snd stmp)"
    arbitrary: h vnext dst stmp rule: less_induct)
  case less
  note up = dst_to_area[OF less.prems(2)] up_to_window[OF less.prems(3)]
    dst_to_add[OF less.prems(2)] up_to_add[OF less.prems(3)]
  show ?case
    unfolding ver_tom_loop.simps[of host ec k sw dstend srcend h vnext dst stmp] Let_def
    apply (intro safe_if safe_read safe_write[where n = "sizeof_struct ec (ver_def k)"]
        safe_bind_aux ver_aux_tom_safe safe_done)
    using less.prems(1)
    by (auto intro!: less.hyps safe_done ver_advance up simp: codec_simps)
qed

lemma div4_window: "unat ((n :: u64) div 4 * 4) \<le> unat n" "unat (n div 4) * 4 \<le> unat n"
proof -
  show 1: "unat (n div 4) * 4 \<le> unat n" by (simp add: unat_div)
  then have "unat (n div 4) * 4 < 2 ^ 64" using unat_lt2p[of n] by simp
  then show "unat (n div 4 * 4) \<le> unat n" using 1 by (simp add: unat_word_ariths)
qed

lemma prim_tof_safe:
  assumes "kept d N h h" "area d N dst (unat cnt * field_size ec f)"
    "window h src (unat cnt * field_size ec f)" "unat cnt * field_size ec f < 2 ^ 64"
  shows "safe_res d N h (cvt_prim_tof ec f host h dst dsz src cnt sw)"
proof -
  have u: "unat (cnt * of_nat (field_size ec f)) = unat cnt * field_size ec f"
    using assms(4) field_size_cases[of f ec] by (cases "f = IDENT") (auto simp: unat_word_ariths)
  show ?thesis
  proof (cases sw)
    case True
    then show ?thesis unfolding cvt_prim_tof_def
      using assms by (auto intro!: safe_fwd_loop safe_done simp: codec_simps)
  next
    case False
    then show ?thesis unfolding cvt_prim_tof_def u
      using assms by (auto intro!: safe_copy safe_done)
  qed
qed

lemma prim_tom_safe:
  assumes "kept d N h h" "area d N dst (unat cnt * field_size ec f)"
    "window h src (unat cnt * field_size ec f)" "unat cnt * field_size ec f < 2 ^ 64"
  shows "safe_res d N h (cvt_prim_tom ec f host h dst dsz src cnt sw)"
  using prim_tof_safe[OF assms] assms(1)
  by (simp add: cvt_prim_tom_def cvt_prim_tof_def safe_done)

lemma comp_tof_safe:
  assumes "kept d N h h" "area d N dst (unat cnt * FSZ ec ms)" "window h src (unat cnt * sizeof_struct ec ms)"
  shows "safe_res d N h (cvt_comp_tof ec ms host h dst dsz src cnt sw)"
  unfolding cvt_comp_tof_def
  using assms by (auto intro!: safe_fwd_loop safe_done simp: codec_simps)

lemma comp_tom_safe:
  assumes "kept d N h h" "area d N dst (unat cnt * sizeof_struct ec ms)" "window h src (unat cnt * FSZ ec ms)"
  shows "safe_res d N h (cvt_comp_tom ec ms host h dst dsz src cnt sw)"
  unfolding cvt_comp_tom_def
  using assms by (auto intro!: safe_if safe_bwd_loop safe_done simp: codec_simps)

text \<open>The hand-written converters, whose sizes are byte counts.\<close>

lemma byte_sized_safe:
  assumes "byte_sized t" "cvt_table t dir ec = Some c"
    "window h dst (unat dsz)" "window h src (unat n)" "n \<le> dsz"
  shows "safe_res dst (unat dsz) h (c host h dst dsz src n sw)"
proof -
  let ?ar = "area dst (unat dsz)"
  have k: "kept dst (unat dsz) h h" using assms(3) by (rule kept_refl)
  have ad: "?ar dst (unat dsz)" by simp
  have le: "unat n \<le> unat dsz" using assms(5) by (simp add: word_le_nat_alt)
  have wd: "?ar dst (unat n)" using ad le by (rule area_le)
  have w4: "?ar dst (unat (n div 4) * field_size ELFCLASS64 WORD)"
    "window h src (unat (n div 4) * field_size ELFCLASS64 WORD)"
    "unat (n div 4) * field_size ELFCLASS64 WORD < 2 ^ 64"
    using wd assms(4) div4_window(2)[of n] unat_lt2p[of n] by (auto intro: window_le area_le)
  have up: "dst_to dst (unat dsz) dst (snd dst + unat dsz)" "up_to h src (snd src + unat n)"
    using assms(4) ad by (simp_all add: up_to_I dst_to_I)
  consider "t = ELF_T_BYTE" | "t = ELF_T_GNUHASH" | "t = ELF_T_NOTE" | "t = ELF_T_VDEF"
    | "t = ELF_T_VNEED" using assms(1) by (auto simp: byte_sized_def)
  then show ?thesis
  proof cases
    case 1
    then show ?thesis using assms(2,4) wd k
      by (auto simp: cvt_BYTE_tox_def intro!: safe_if safe_copy safe_done)
  next
    case 2
    then show ?thesis using assms(2,4) ad w4 k
      by (auto simp: cvt_GNUHASH32_tof_def cvt_GNUHASH32_tom_def simp del: field_size.simps
          intro!: prim_tof_safe prim_tom_safe GNUHASH64_tof_safe GNUHASH64_tom_safe
          split: if_splits)
  next
    case 3
    then show ?thesis using assms(2,4) ad wd le k
      by (auto simp: cvt_NOTE_tof_def cvt_NOTE_tom_def split: if_splits
          intro!: safe_copy safe_done note_tom_safe note_tof_safe)
  next
    case 4
    then show ?thesis using assms(2) up k
      by (auto simp: cvt_version_tof_def cvt_version_tom_def split: if_splits
          intro!: ver_tof_safe ver_tom_safe)
  next
    case 5
    then show ?thesis using assms(2) up k
      by (auto simp: cvt_version_tof_def cvt_version_tom_def split: if_splits
          intro!: ver_tof_safe ver_tom_safe)
  qed
qed

lemma field_swap_read:
  assumes "length bs = field_size ec f"
  shows "swap_field (read_field LSB ec f bs) = read_field MSB ec f bs"
proof (cases "f = IDENT")
  case True
  then show ?thesis by (simp add: read_field_def)
next
  case False
  have "get_word LSB bs = (get_word MSB bs :: u8)" if "length bs = 1"
    using that by (cases bs) (auto simp: get_word_def)
  then show ?thesis
    using field_size_cases[OF False, of ec] assms
    by (elim disjE) (simp_all add: read_field_def False get_word_swapped)
qed

lemma read_members_swapped:
  "length bs = FSZ ec ms \<Longrightarrow>
   SWAP_MEMBERS (enc \<noteq> host) (READ_MEMBERS host ec ms bs) = READ_MEMBERS enc ec ms bs"
proof (induction ms arbitrary: bs)
  case Nil
  then show ?case by (simp add: SWAP_MEMBERS_def)
next
  case (Cons m ms)
  let ?b = "take (field_size ec (snd m)) bs"
  have l: "length ?b = field_size ec (snd m)" using Cons.prems by simp
  have f: "(if enc \<noteq> host then swap_field (read_field host ec (snd m) ?b)
      else read_field host ec (snd m) ?b) = read_field enc ec (snd m) ?b"
    using field_swap_read[OF l] swap_field_involutive
    by (cases enc; cases host) (simp_all, metis)
  show ?case
    using Cons.IH[of "drop (field_size ec (snd m)) bs"] Cons.prems f
    by (auto simp: SWAP_MEMBERS_def split: if_splits)
qed

section \<open>What the note converter computes\<close>

lemma SWAP_WORD_other: "enc \<noteq> host \<Longrightarrow> SWAP_WORD (get_word host (put_word enc 4 w)) = w"
proof -
  assume ne: "enc \<noteq> host"
  let ?bs = "put_word enc 4 w"
  have s: "SWAP_WORD (get_word LSB ?bs) = get_word MSB ?bs" by (rule get_word_swapped(2)) simp
  have g: "get_word enc ?bs = w" by (rule get_put_word) simp
  show ?thesis
  proof (cases host)
    case LSB
    then show ?thesis using ne s g by (cases enc) simp_all
  next
    case MSB
    then have "get_word LSB ?bs = w" using ne g by (cases enc) simp_all
    then have "SWAP_WORD w = get_word MSB ?bs" using s by simp
    then show ?thesis using MSB swap_involutive(2)[of w] by simp
  qed
qed

lemma ROUNDUP2_u32_nat:
  assumes "align_up 4 (unat v) < 2 ^ 32"
  shows "unat (ROUNDUP2_u32 v) = align_up 4 (unat v)"
proof -
  have 3: "(4 - 1 :: u32) = mask 2" "v + 4 - 1 = v + 3" by (simp_all add: mask_eq_exp_minus_1)
  have "ROUNDUP2_u32 v = (v + 3) AND NOT (mask 2)" unfolding ROUNDUP2_u32_def 3 ..
  also have "\<dots> = push_bit 2 (drop_bit 2 (v + 3))"
  proof -
    have "Suc (Suc (k - 2)) = k" if "2 \<le> k" for k :: nat using that by simp
    then show ?thesis by (intro bit_word_eqI) (auto simp: bit_simps not_less)
  qed
  finally have r: "ROUNDUP2_u32 v = push_bit 2 (drop_bit 2 (v + 3))" .
  have "unat v \<le> align_up 4 (unat v)" by (rule align_up_ge) simp
  have "unat v + 3 < 2 ^ 32"
  proof (rule ccontr)
    assume "\<not> unat v + 3 < 2 ^ 32"
    then have "(2 :: nat) ^ 32 div 4 \<le> (unat v + 3) div 4" by (intro div_le_mono) simp
    then show False using assms by (simp add: align_up_def)
  qed
  then have u: "unat (v + 3) = unat v + 3" by (simp add: unat_word_ariths)
  then have "unat (drop_bit 2 (v + 3)) = (unat v + 3) div 4" by (simp add: drop_bit_eq_div unat_div)
  then show ?thesis using assms unfolding r push_bit_eq_mult by (simp add: unat_word_ariths align_up_def)
qed
text \<open>Notes, and their bytes in the byte order \<open>bo\<close>: the three words of the header, then the name and the descriptor, padded.\<close>

record elf_note =
  n_namesz :: u32
  n_descsz :: u32
  n_type :: u32
  n_body :: bytes

definition note_bytes :: "endian \<Rightarrow> elf_note \<Rightarrow> bytes" where
  "note_bytes bo n = put_word bo 4 (n_namesz n) @ put_word bo 4 (n_descsz n) @ put_word bo 4 (n_type n) @ n_body n"

definition notes_bytes :: "endian \<Rightarrow> elf_note list \<Rightarrow> bytes" where
  "notes_bytes bo ns = concat (map (note_bytes bo) ns)"

definition note_ok :: "elf_note \<Rightarrow> bool" where
  "note_ok n \<longleftrightarrow> length (n_body n) = align_up 4 (unat (n_namesz n)) + align_up 4 (unat (n_descsz n))
     \<and> length (n_body n) < 2 ^ 32"

lemma note_bytes_length [simp]: "length (note_bytes bo n) = 12 + length (n_body n)"
  by (simp add: note_bytes_def)

lemma note_size: "note_ok n \<Longrightarrow> unat (ROUNDUP2_u32 (n_namesz n) + ROUNDUP2_u32 (n_descsz n)) = length (n_body n)"
  by (simp add: note_ok_def ROUNDUP2_u32_nat unat_word_ariths)

text \<open>One round of the loop writes one note.\<close>

lemma note_tom_round:
  assumes n: "note_ok n" "enc \<noteq> host"
    and src: "mem_read h src (12 + length (n_body n)) = Some (note_bytes enc n)"
    and dst: "window h dst (12 + length (n_body n))" "dst = src \<or> apart dst (12 + length (n_body n)) src (12 + length (n_body n))"
    and cnt: "12 < count" "12 + length (n_body n) \<le> count" "12 + length (n_body n) \<le> dsz"
  obtains h' where "mem_write h dst (note_bytes host n) = Some h'"
    "note_tom_loop host h dst dsz src count = note_tom_loop host h' (ptr_add dst (12 + length (n_body n)))
       (dsz - (12 + length (n_body n))) (ptr_add src (12 + length (n_body n))) (count - (12 + length (n_body n)))"
proof -
  let ?L = "12 + length (n_body n)"
  let ?a = "put_word host 4 (n_namesz n)" and ?b = "put_word host 4 (n_descsz n)" and ?c = "put_word host 4 (n_type n)"
  have r: "READ_WORD host h src = Some (get_word host (put_word enc 4 (n_namesz n)))"
    "READ_WORD host h (ptr_add src 4) = Some (get_word host (put_word enc 4 (n_descsz n)))"
    "READ_WORD host h (ptr_add src 8) = Some (get_word host (put_word enc 4 (n_type n)))"
    using mem_read_sub[OF src, of 0 4] mem_read_sub[OF src, of 4 4] mem_read_sub[OF src, of 8 4]
    by (simp_all add: READ_WORD_def note_bytes_def)
  have body: "mem_read h (ptr_add src 12) (length (n_body n)) = Some (n_body n)"
    using mem_read_sub[OF src, of 12 "length (n_body n)"] by (simp add: note_bytes_def)
  have rd: "mem_read h dst (length (note_bytes host n)) \<noteq> None" using dst(1) by (simp add: window_def)
  then obtain h' where h': "mem_write h dst (note_bytes host n) = Some h'" using mem_write_total by blast
  have nb: "note_bytes host n = (?a @ ?b @ ?c) @ n_body n" by (simp add: note_bytes_def)
  have w1: "mem_read h dst (length (?a @ ?b @ ?c) + length (n_body n)) \<noteq> None" using rd unfolding nb by simp
  from h' obtain h3 where h3: "mem_write h dst (?a @ ?b @ ?c) = Some h3" "mem_write h3 (ptr_add dst 12) (n_body n) = Some h'"
    unfolding nb mem_write_append(1)[OF w1] by (auto simp: bind_Some_iff)
  have w2: "mem_read h dst (length ?a + length (?b @ ?c)) \<noteq> None"
    using window_le[of h dst ?L 12] dst(1) by (simp add: window_def)
  from h3(1) obtain h1 where h1: "mem_write h dst ?a = Some h1" "mem_write h1 (ptr_add dst 4) (?b @ ?c) = Some h3"
    unfolding mem_write_append(1)[OF w2] by (auto simp: bind_Some_iff)
  have "window h1 (ptr_add dst 4) 8"
    using window_sub[OF dst(1), of 4 8] same_shape_window[OF same_shape_write[OF h1(1)]] by simp
  then have w3: "mem_read h1 (ptr_add dst 4) (length ?b + length ?c) \<noteq> None" by (simp add: window_def)
  from h1(2) obtain h2 where h2: "mem_write h1 (ptr_add dst 4) ?b = Some h2" "mem_write h2 (ptr_add dst 8) ?c = Some h3"
    unfolding mem_write_append(1)[OF w3] by (auto simp: bind_Some_iff)
  have "mem_read h3 (ptr_add src 12) (length (n_body n)) = mem_read h (ptr_add src 12) (length (n_body n))"
    by (rule mem_read_write_apart[OF h3(1)]) (use dst(2) in \<open>auto simp: apart_def\<close>)
  then have cp: "mem_copy h3 (ptr_add dst 12) (ptr_add src 12) (length (n_body n)) = Some h'"
    using body h3(2) by (simp add: mem_copy_def)
  have "\<not> (count - 12 < length (n_body n) \<or> dsz - 12 < length (n_body n))" using cnt by linarith
  then have "note_tom_loop host h dst dsz src count = note_tom_loop host h' (ptr_add (ptr_add dst 12) (length (n_body n)))
       (dsz - 12 - length (n_body n)) (ptr_add (ptr_add src 12) (length (n_body n))) (count - 12 - length (n_body n))"
    using cnt(1) r h1(1) h2 cp by (subst note_tom_loop.simps)
      (simp add: SWAP_WORD_other[OF n(2)] WRITE_WORD_def note_size[OF n(1)] Let_def)
  then show thesis using h' by (intro that) simp_all
qed
text \<open>The notes that the loop for a swapped file converts: all but a last one that is only a header.\<close>

definition notes_done :: "elf_note list \<Rightarrow> elf_note list" where
  "notes_done ns = (if ns \<noteq> [] \<and> n_body (last ns) = [] then butlast ns else ns)"

lemma notes_done_simps [simp]:
  "notes_done [] = []" "n_body n \<noteq> [] \<or> ns \<noteq> [] \<Longrightarrow> notes_done (n # ns) = n # notes_done ns"
  "n_body n = [] \<Longrightarrow> notes_done [n] = []"
  by (auto simp: notes_done_def)

lemma notes_bytes_simps [simp]: "notes_bytes bo [] = []" "notes_bytes bo (n # ns) = note_bytes bo n @ notes_bytes bo ns"
  by (simp_all add: notes_bytes_def)

lemma notes_bytes_length: "length (notes_bytes bo ns) = length (notes_bytes LSB ns)"
  by (induction ns) simp_all

lemma note_tom_notes:
  assumes "\<forall>n\<in>set ns. note_ok n" "enc \<noteq> host" "mem_read h src (length (notes_bytes LSB ns)) = Some (notes_bytes enc ns)"
    "window h dst (length (notes_bytes LSB ns))" "length (notes_bytes LSB ns) \<le> dsz"
    "dst = src \<or> apart dst (length (notes_bytes LSB ns)) src (length (notes_bytes LSB ns))"
  shows "\<exists>h'. note_tom_loop host h dst dsz src (length (notes_bytes LSB ns)) = Some (h', True)
    \<and> mem_read h' dst (length (notes_bytes LSB (notes_done ns))) = Some (notes_bytes host (notes_done ns))
    \<and> same_shape h h' \<and> same_outside dst (length (notes_bytes LSB (notes_done ns))) h h'"
  using assms
proof (induction ns arbitrary: h dst dsz src)
  case Nil
  then show ?case by (subst note_tom_loop.simps) (auto simp: window_def mem_read_def slice_at_def split: option.splits if_splits)
next
  case (Cons n ns)
  let ?K = "12 + length (n_body n)" and ?R = "length (notes_bytes LSB ns)" and ?D = "length (notes_bytes LSB (notes_done ns))"
  show ?case
  proof (cases "n_body n \<noteq> [] \<or> ns \<noteq> []")
    case False
    then have "window h dst 0" using window_le[OF Cons.prems(4)] by simp
    then show ?thesis using False
      by (subst note_tom_loop.simps) (auto simp: window_def mem_read_def slice_at_def split: option.splits if_splits)
  next
    case True
    note K = Cons.prems[simplified]
    have len: "12 < ?K + ?R" using True by (cases ns) auto
    have src: "mem_read h src ?K = Some (note_bytes enc n)" "mem_read h (ptr_add src ?K) ?R = Some (notes_bytes enc ns)"
      using mem_read_sub[OF K(3), of 0 ?K] mem_read_sub[OF K(3), of ?K ?R] notes_bytes_length[of enc ns] by (simp_all add: add.assoc)
    have wK: "window h dst ?K" by (rule window_le[OF K(4)]) simp
    have ap: "dst = src \<or> apart dst ?K src ?K" using K(6) by (auto simp: apart_def)
    have nok: "note_ok n" using K(1) by simp
    have kd: "?K \<le> ?K + ?R" "?K \<le> dsz" using K(5) by linarith+
    obtain h1 where h1: "mem_write h dst (note_bytes host n) = Some h1"
      "note_tom_loop host h dst dsz src (?K + ?R) = note_tom_loop host h1 (ptr_add dst ?K) (dsz - ?K) (ptr_add src ?K) (?K + ?R - ?K)"
      by (rule note_tom_round[OF nok K(2) src(1) wK ap len kd])
    have sh: "same_shape h h1" by (rule same_shape_write[OF h1(1)])
    have s1: "mem_read h1 (ptr_add src ?K) ?R = Some (notes_bytes enc ns)"
      unfolding src(2)[symmetric] by (rule mem_read_write_apart[OF h1(1)]) (use K(6) in \<open>auto simp: apart_def\<close>)
    have w1: "window h1 (ptr_add dst ?K) ?R"
      using window_sub[OF K(4), of ?K ?R] same_shape_window[OF sh] by (simp add: add.assoc)
    have ap1: "ptr_add dst ?K = ptr_add src ?K \<or> apart (ptr_add dst ?K) ?R (ptr_add src ?K) ?R"
      using K(6) by (auto simp: apart_def)
    have d1: "?R \<le> dsz - ?K" using K(5) by linarith
    have ok1: "\<forall>n\<in>set ns. note_ok n" using K(1) by simp
    from Cons.IH[OF ok1 K(2) s1 w1 d1 ap1] obtain h' where h':
      "note_tom_loop host h1 (ptr_add dst ?K) (dsz - ?K) (ptr_add src ?K) ?R = Some (h', True)"
      "mem_read h' (ptr_add dst ?K) ?D = Some (notes_bytes host (notes_done ns))" "same_shape h1 h'"
      "same_outside (ptr_add dst ?K) ?D h1 h'" by blast
    have "mem_read h' dst ?K = mem_read h1 dst ?K" by (rule same_outside_read[OF h'(4)]) (simp add: apart_def)
    also have "\<dots> = Some (note_bytes host n)" using mem_read_write_same[OF h1(1)] by simp
    finally have "mem_read h' dst (?K + ?D) = Some (note_bytes host n @ notes_bytes host (notes_done ns))"
      using h'(2) by (simp add: mem_read_append)
    moreover have "same_outside dst (?K + ?D) h h'"
    proof (rule same_outside_trans)
      show "same_outside dst (?K + ?D) h h1"
        by (rule same_outside_le[OF _ same_outside_write[OF h1(1) refl]]) simp
      show "same_outside dst (?K + ?D) h1 h'" by (rule same_outside_area[OF _ h'(4)]) (simp add: area_def)
    qed
    moreover have "note_tom_loop host h dst dsz src (?K + ?R) = Some (h', True)" using h1(2) h'(1) by simp
    ultimately show ?thesis using True same_shape_trans[OF sh h'(3)] by (intro exI[of _ h']) simp
  qed
qed
lemma notes_to_memory_run:
  assumes "ns \<noteq> []" "\<forall>n\<in>set ns. note_ok n" "unat count = length (notes_bytes enc ns)" "count \<le> dsz"
    and "mem_read h src (unat count) = Some (notes_bytes enc ns)" "window h dst (unat dsz)"
    and "dst = src \<or> apart dst (unat count) src (unat count)"
    and ds: "ds = (if enc = host then ns else notes_done ns)"
  shows "\<exists>h'. cvt_NOTE_tom host h dst dsz src count (enc \<noteq> host) = Some (h', True)
    \<and> mem_read h' dst (length (notes_bytes host ds)) = Some (notes_bytes host ds)
    \<and> same_outside dst (length (notes_bytes host ds)) h h'"
proof -
  have le: "unat count \<le> unat dsz" using assms(4) by (simp add: word_le_nat_alt)
  have w: "window h dst (unat count)" using assms(6) le by (rule window_le)
  have "12 \<le> unat count" using assms(1,3) by (cases ns) simp_all
  then have nf: "\<not> dsz < count" "\<not> count < 12" using assms(4) by (simp_all add: word_less_nat_alt not_less word_le_nat_alt)
  show ?thesis
  proof (cases "enc = host")
    case True
    have "length (notes_bytes enc ns) = unat count" using assms(3) by simp
    from window_writeE[OF w this] obtain h' where h': "mem_write h dst (notes_bytes enc ns) = Some h'"
      "same_outside dst (unat count) h h'" by blast
    then have "mem_copy h dst src (unat count) = Some h'" using assms(5) by (simp add: mem_copy_def)
    then show ?thesis using nf True h' mem_read_write_same[OF h'(1)] assms(3) ds by (simp add: cvt_NOTE_tom_def)
  next
    case False
    have l: "unat count = length (notes_bytes LSB ns)" using assms(3) notes_bytes_length[of enc ns] by simp
    have ds': "ds = notes_done ns" using False ds by simp
    from note_tom_notes[OF assms(2) False, of h src dst "unat dsz", folded l, OF assms(5) w le assms(7)] show ?thesis
      using nf False unfolding ds' notes_bytes_length[of host] by (auto simp: cvt_NOTE_tom_def)
  qed
qed

section \<open>Properties\<close>

text \<open>
  The swapping macros \<open>SWAP_HALF\<close>, \<open>_SWAP_WORD\<close> and \<open>_SWAP_WORD64\<close> reverse the bytes an
  integer has in memory, whatever the byte order of the host, and undo themselves.
\<close>

theorem swap_macros_reverse_bytes:
  "put_word host 2 (SWAP_HALF h) = rev (put_word host 2 h)
   \<and> put_word host 4 (SWAP_WORD w) = rev (put_word host 4 w)
   \<and> put_word host 8 (SWAP_WORD64 x) = rev (put_word host 8 x)
   \<and> SWAP_HALF (SWAP_HALF h) = h \<and> SWAP_WORD (SWAP_WORD w) = w
   \<and> SWAP_WORD64 (SWAP_WORD64 x) = x"
proof -
  have "word_bytes 2 (bytes_word (rev (word_bytes 2 h)) :: u16) = rev (word_bytes 2 h)"
    "word_bytes 4 (bytes_word (rev (word_bytes 4 w)) :: u32) = rev (word_bytes 4 w)"
    "word_bytes 8 (bytes_word (rev (word_bytes 8 x)) :: u64) = rev (word_bytes 8 x)"
    using word_bytes_bytes[of "rev (word_bytes 2 h)", where 'a = 16]
      word_bytes_bytes[of "rev (word_bytes 4 w)", where 'a = 32]
      word_bytes_bytes[of "rev (word_bytes 8 x)", where 'a = 64] by simp_all
  then show ?thesis
    by (simp add: swap_involutive) (simp add: put_word_def swap_rev split: endian.split)
qed

text \<open>
  C33. Decoding does not depend on the host: the structure a program finds in memory after a
  conversion from the file encoding \<open>enc\<close> has the member values that \<open>enc\<close> gives the
  bytes of the file, on a little-endian and on a big-endian machine alike.
\<close>

theorem decode_host_independent:
  assumes "length bs = FSZ ec ms"
  shows "struct_load host ec ms (struct_tom host ec ms (enc \<noteq> host) bs) = READ_MEMBERS enc ec ms bs"
proof -
  have "members_ok ec ms (READ_MEMBERS enc ec ms bs)" using assms by (rule READ_MEMBERS_ok)
  then show ?thesis
    unfolding struct_tom_def read_members_swapped[OF assms] by (rule struct_load_store)
qed

theorem decode_host_independent_witness:
  "struct_load LSB ELFCLASS32 Elf32_Syminfo_DEF
     (struct_tom LSB ELFCLASS32 Elf32_Syminfo_DEF (MSB \<noteq> LSB) [0x12, 0x34, 0, 1])
   = READ_MEMBERS MSB ELFCLASS32 Elf32_Syminfo_DEF [0x12, 0x34, 0, 1]"
  by (rule decode_host_independent) (simp add: layout_simps)

text \<open>
  C25. Conversion of an array of structures to memory, for every composite type and class, in place
  or into another buffer: the loop that works backwards leaves at the destination exactly
  the element-wise decoding of the file bytes the source held, and changes nothing else.
\<close>

theorem cvt_tom_array:
  assumes "struct_def ec t = Some ms" "mem_read h src (unat cnt * FSZ ec ms) = Some bs"
    "window h dst (unat cnt * sizeof_struct ec ms)"
    "bwd_safe dst (unat cnt * sizeof_struct ec ms) src"
    "\<not> dsz < cnt * of_nat (sizeof_struct ec ms)"
  shows "\<exists>c h'. cvt_table t ELF_TOMEMORY ec = Some c \<and> c host h dst dsz src cnt sw = Some (h', True)
    \<and> mem_read h' dst (unat cnt * sizeof_struct ec ms)
        = Some (concat (map (struct_tom host ec ms sw) (chunks (FSZ ec ms) (unat cnt) bs)))
    \<and> (\<forall>q l. apart dst (unat cnt * sizeof_struct ec ms) q l \<longrightarrow> mem_read h' q l = mem_read h q l)"
proof -
  have t: "cvt_table t ELF_TOMEMORY ec = Some (cvt_comp_tom ec ms)"
    using assms(1) by (cases t) simp_all
  obtain h' where "bwd_loop (struct_tom host ec ms sw) (FSZ ec ms) (sizeof_struct ec ms)
      (unat cnt) h dst src = Some h'"
    "mem_read h' dst (unat cnt * sizeof_struct ec ms)
        = Some (concat (map (struct_tom host ec ms sw) (chunks (FSZ ec ms) (unat cnt) bs)))"
    "\<And>q l. apart dst (unat cnt * sizeof_struct ec ms) q l \<Longrightarrow> mem_read h' q l = mem_read h q l"
    using comp.tom_array[OF assms(2-4)] by blast
  then show ?thesis using t assms(5) by (auto simp: cvt_comp_tom_def)
qed

text \<open>A file image of two 20-byte \<open>Elf32_Move\<close> entries in a buffer of 48 bytes.\<close>

definition move_heap :: heap where
  "move_heap = [0 \<mapsto> map of_nat [0..<48]]"

theorem cvt_tom_array_witness:
  "\<exists>c h' bs. cvt_table ELF_T_MOVE ELF_TOMEMORY ELFCLASS32 = Some c
     \<and> c LSB move_heap (0, 0) 48 (0, 0) 2 True = Some (h', True) \<and> mem_read h' (0, 0) 48 = Some bs"
proof -
  have sz: "FSZ ELFCLASS32 Elf32_Move_DEF = 20" "sizeof_struct ELFCLASS32 Elf32_Move_DEF = 24"
    by (simp_all add: layout_simps)
  have r: "mem_read move_heap (0, 0) (unat (2 :: u64) * 20) = Some (map of_nat [0..<40])"
    by (simp add: mem_read_def move_heap_def slice_at_def take_map)
  have w: "window move_heap (0, 0) (unat (2 :: u64) * 24)"
    by (simp add: window_def mem_read_def move_heap_def slice_at_def)
  show ?thesis
    using cvt_tom_array[of ELFCLASS32 ELF_T_MOVE Elf32_Move_DEF move_heap "(0, 0)" 2
        "map of_nat [0..<40]" "(0, 0)" 48 LSB True, unfolded sz] r w
    by (auto simp: bwd_safe_def)
qed

text \<open>
  C16. Round trip: converting the file representation of an array of structures to memory and the
  result back to a file restores the bytes, with or without byte swapping, and also when
  both conversions are done in place in one buffer.
\<close>

theorem cvt_file_round_trip:
  assumes "struct_def ec t = Some ms" "mem_read h src (unat cnt * FSZ ec ms) = Some bs"
    "window h mid (unat cnt * sizeof_struct ec ms)" "window h dst (unat cnt * FSZ ec ms)"
    "bwd_safe mid (unat cnt * sizeof_struct ec ms) src"
    "fwd_safe dst mid (unat cnt * sizeof_struct ec ms)"
    "\<not> dsz < cnt * of_nat (sizeof_struct ec ms)"
  shows "\<exists>ctom ctof h1 h2. cvt_table t ELF_TOMEMORY ec = Some ctom
    \<and> cvt_table t ELF_TOFILE ec = Some ctof
    \<and> ctom host h mid dsz src cnt sw = Some (h1, True)
    \<and> ctof host h1 dst fsz mid cnt sw = Some (h2, True)
    \<and> mem_read h2 dst (unat cnt * FSZ ec ms) = Some bs"
proof -
  have t: "cvt_table t ELF_TOMEMORY ec = Some (cvt_comp_tom ec ms)"
    "cvt_table t ELF_TOFILE ec = Some (cvt_comp_tof ec ms)"
    using assms(1) by (cases t; simp)+
  obtain h1 h2 where
    "bwd_loop (struct_tom host ec ms sw) (FSZ ec ms) (sizeof_struct ec ms) (unat cnt) h mid src = Some h1"
    "fwd_loop (struct_tof host ec ms sw) (sizeof_struct ec ms) (FSZ ec ms) (unat cnt) h1 dst mid = Some h2"
    "mem_read h2 dst (unat cnt * FSZ ec ms) = Some bs"
    using comp.tom_tof_array[OF assms(2,3,5,4,6)] by blast
  then show ?thesis using t assms(7) by (simp add: cvt_comp_tom_def cvt_comp_tof_def)
qed

theorem cvt_file_round_trip_witness:
  "\<exists>ctom ctof h1 h2. cvt_table ELF_T_MOVE ELF_TOMEMORY ELFCLASS32 = Some ctom
    \<and> cvt_table ELF_T_MOVE ELF_TOFILE ELFCLASS32 = Some ctof
    \<and> ctom LSB move_heap (0, 0) 48 (0, 0) 2 True = Some (h1, True)
    \<and> ctof LSB h1 (0, 0) 40 (0, 0) 2 True = Some (h2, True)
    \<and> mem_read h2 (0, 0) 40 = Some (map of_nat [0..<40])"
proof -
  have sz: "FSZ ELFCLASS32 Elf32_Move_DEF = 20" "sizeof_struct ELFCLASS32 Elf32_Move_DEF = 24"
    by (simp_all add: layout_simps)
  have r: "mem_read move_heap (0, 0) (unat (2 :: u64) * 20) = Some (map of_nat [0..<40])"
    by (simp add: mem_read_def move_heap_def slice_at_def take_map)
  have w: "window move_heap (0, 0) (unat (2 :: u64) * 24)" "window move_heap (0, 0) (unat (2 :: u64) * 20)"
    by (simp_all add: window_def mem_read_def move_heap_def slice_at_def)
  show ?thesis
    using cvt_file_round_trip[of ELFCLASS32 ELF_T_MOVE Elf32_Move_DEF move_heap "(0, 0)" 2
        "map of_nat [0..<40]" "(0, 0)" "(0, 0)" 48 LSB True 40, unfolded sz] r w
    by (simp add: bwd_safe_def fwd_safe_def)
qed

text \<open>
  C26. Memory safety of the hand-written converters (bytes, GNU hash tables, notes, version
  definitions and needs): on arbitrary, even malicious, input bytes of length \<open>n\<close> and a
  destination of \<open>dsz \<ge> n\<close> bytes they return, having read and written only inside the two
  windows: no byte outside the destination has changed. This includes the termination of the loops that follow offsets found in the file.
\<close>

theorem cvt_variable_size_safe:
  assumes "byte_sized t" "cvt_table t dir ec = Some c"
    "window h dst (unat dsz)" "window h src (unat n)" "n \<le> dsz"
  shows "\<exists>h' b. c host h dst dsz src n sw = Some (h', b) \<and> same_shape h h'
    \<and> same_outside dst (unat dsz) h h'"
  using byte_sized_safe[OF assms] unfolding safe_res_def kept_def by blast

theorem cvt_variable_size_safe_witness:
  "\<exists>h' b. cvt_version_tom VDEF_kind ELFCLASS32 LSB [0 \<mapsto> replicate 40 0xff] (0, 0) 40 (0, 0) 40 True
     = Some (h', b) \<and> same_shape [0 \<mapsto> replicate 40 0xff] h'
       \<and> same_outside (0, 0) (unat (40 :: u64)) [0 \<mapsto> replicate 40 0xff] h'"
proof -
  have w: "window [0 \<mapsto> replicate 40 0xff] (0, 0) (unat (40 :: u64))"
    by (simp add: window_def mem_read_def slice_at_def)
  show ?thesis
    by (rule cvt_variable_size_safe[OF _ _ w w, of ELF_T_VDEF ELF_TOMEMORY])
      (simp_all add: byte_sized_def)
qed

text \<open>
  C27. The note converter decodes notes. Let the source hold any sequence of notes in the byte order \<open>enc\<close> of the file, each a
  header of three words with a name and a descriptor padded to four bytes, and let the destination be that buffer itself or
  one apart from it. \<open>_libelf_cvt_NOTE_tom\<close> succeeds and leaves there the same notes with their headers in the byte order of the host,
  names and descriptors unchanged, and changes nothing else. There is one exception, which the theorem shows: with byte swapping, a
  last note that consists of its header only is not converted (the loop runs while more than a header is left), although the
  call reports success; the place of its header in the destination keeps its contents.
\<close>

theorem notes_to_memory:
  assumes "ns \<noteq> []" "\<forall>n\<in>set ns. note_ok n" "unat count = length (notes_bytes enc ns)" "count \<le> dsz"
    and "mem_read h src (unat count) = Some (notes_bytes enc ns)" "window h dst (unat dsz)"
    and "dst = src \<or> apart dst (unat count) src (unat count)"
    and "ds = (if enc \<noteq> host \<and> n_body (last ns) = [] then butlast ns else ns)"
  shows "\<exists>h'. cvt_NOTE_tom host h dst dsz src count (enc \<noteq> host) = Some (h', True)
    \<and> mem_read h' dst (length (notes_bytes host ds)) = Some (notes_bytes host ds)
    \<and> same_outside dst (length (notes_bytes host ds)) h h'"
proof -
  have "ds = (if enc = host then ns else notes_done ns)" using assms(1,8) by (simp add: notes_done_def)
  then show ?thesis by (rule notes_to_memory_run[OF assms(1-7)])
qed

text \<open>Two notes of a big-endian file on a little-endian host, converted in place; the second is only a header.\<close>

definition two_notes :: "elf_note list" where
  "two_notes = [\<lparr>n_namesz = 4, n_descsz = 2, n_type = 1, n_body = [0x47, 0x4e, 0x55, 0, 7, 7, 0, 0]\<rparr>,
     \<lparr>n_namesz = 0, n_descsz = 0, n_type = 5, n_body = []\<rparr>]"

theorem notes_to_memory_witness:
  "\<exists>h'. cvt_NOTE_tom LSB [0 \<mapsto> notes_bytes MSB two_notes] (0, 0) 32 (0, 0) 32 True = Some (h', True)
     \<and> mem_read h' (0, 0) 20 = Some [4, 0, 0, 0, 2, 0, 0, 0, 1, 0, 0, 0, 0x47, 0x4e, 0x55, 0, 7, 7, 0, 0]
     \<and> mem_read h' (0, 20) 12 = Some [0, 0, 0, 0, 0, 0, 0, 0, 0, 0, 0, 5]"
proof -
  let ?h = "[0 \<mapsto> notes_bytes MSB two_notes]" and ?ds = "butlast two_notes"
  have b: "length (notes_bytes MSB two_notes) = 32" "length (notes_bytes LSB ?ds) = 20"
    "notes_bytes LSB ?ds = [4, 0, 0, 0, 2, 0, 0, 0, 1, 0, 0, 0, 0x47, 0x4e, 0x55, 0, 7, 7, 0, 0]"
    "drop 20 (notes_bytes MSB two_notes) = [0, 0, 0, 0, 0, 0, 0, 0, 0, 0, 0, 5]"
    by code_simp+
  have ok: "two_notes \<noteq> []" "\<forall>n\<in>set two_notes. note_ok n" "MSB \<noteq> LSB \<and> n_body (last two_notes) = []"
    by (simp_all add: two_notes_def note_ok_def align_up_def)
  have m: "mem_read ?h (0, 0) (unat (32 :: u64)) = Some (notes_bytes MSB two_notes)" "window ?h (0, 0) (unat (32 :: u64))"
    "unat (32 :: u64) = length (notes_bytes MSB two_notes)"
    using b(1) by (simp_all add: mem_read_def slice_at_def window_def)
  obtain h' where h': "cvt_NOTE_tom LSB ?h (0, 0) 32 (0, 0) 32 (MSB \<noteq> LSB) = Some (h', True)"
    "mem_read h' (0, 0) (length (notes_bytes LSB ?ds)) = Some (notes_bytes LSB ?ds)"
    "same_outside (0, 0) (length (notes_bytes LSB ?ds)) ?h h'"
    using notes_to_memory[OF ok(1,2) m(3) order_refl m(1,2) disjI1[OF refl], of ?ds LSB] ok(3) by auto
  have "mem_read h' (0, 20) 12 = mem_read ?h (0, 20) 12"
    using h'(3) unfolding b(2) by (rule same_outside_read) (simp add: apart_def)
  also have "\<dots> = Some [0, 0, 0, 0, 0, 0, 0, 0, 0, 0, 0, 5]" using b(1,4) by (simp add: mem_read_def slice_at_def)
  finally show ?thesis using h'(1) h'(2)[unfolded b(2), unfolded b(3)] by auto
qed

end
