(* ===== verification/Scn_Tree.thy ===== *)
theory Scn_Tree
  imports Libelf_Prelude
begin

text \<open>
  The red-black tree of \<open>sys/tree.h\<close>, as generated for the sections of an ELF descriptor by
  \<open>RB_GENERATE(scntree, _Elf_Scn, s_tree, elfscn_cmp)\<close>. A node stands for a section and is
  identified by its index \<open>s_ndx\<close>, the key \<open>elfscn_cmp\<close> compares.

  The C code climbs with parent pointers; here a node being worked on comes with its path: one
  frame for each ancestor, the nearest first, with the side the path leaves it on and its
  other subtree. A dereference of a \<open>NULL\<close> pointer is \<open>None\<close>.
\<close>

datatype rb_color = RB_BLACK | RB_RED

datatype scntree = RB_NULL | RB_NODE scntree rb_color nat scntree

text \<open>\<open>LEFT_OF c k r\<close>: the left child of the node \<open>k\<close> of colour \<open>c\<close> whose right subtree is \<open>r\<close>.\<close>

datatype frame = LEFT_OF rb_color nat scntree | RIGHT_OF scntree rb_color nat

definition elfscn_cmp :: "nat \<Rightarrow> nat \<Rightarrow> int" where
  "elfscn_cmp n1 n2 = (if n1 < n2 then -1 else if n1 > n2 then 1 else 0)"

fun rb_is_red :: "scntree \<Rightarrow> bool" where
  "rb_is_red RB_NULL = False"
| "rb_is_red (RB_NODE l c k r) = (c = RB_RED)"

fun rb_paint :: "rb_color \<Rightarrow> scntree \<Rightarrow> scntree" where
  "rb_paint c RB_NULL = RB_NULL"
| "rb_paint c (RB_NODE l c' k r) = RB_NODE l c k r"

text \<open>Following the parent pointers to the root.\<close>

fun rb_plug :: "scntree \<Rightarrow> frame list \<Rightarrow> scntree" where
  "rb_plug t [] = t"
| "rb_plug t (LEFT_OF c k r # p) = rb_plug (RB_NODE t c k r) p"
| "rb_plug t (RIGHT_OF l c k # p) = rb_plug (RB_NODE l c k t) p"

section \<open>Insertion\<close>

text \<open>
  \<open>RB_INSERT_COLOR\<close>: \<open>elm\<close> is the node at the end of the path. The second case of each side is the
  rotation at the parent, after which \<open>elm\<close> and \<open>parent\<close> have changed places; after the rotation at
  the grandparent the loop stops, its parent being black.
\<close>

fun RB_INSERT_COLOR :: "scntree \<Rightarrow> frame list \<Rightarrow> scntree option" where
  "RB_INSERT_COLOR elm (LEFT_OF RB_RED pk pr # LEFT_OF gc gk tmp # p) =
     (if rb_is_red tmp
      then RB_INSERT_COLOR
             (RB_NODE (RB_NODE elm RB_BLACK pk pr) RB_RED gk (rb_paint RB_BLACK tmp)) p
      else Some (rb_paint RB_BLACK
             (rb_plug (RB_NODE elm RB_BLACK pk (RB_NODE pr RB_RED gk tmp)) p)))"
| "RB_INSERT_COLOR elm (RIGHT_OF pl RB_RED pk # LEFT_OF gc gk tmp # p) =
     (if rb_is_red tmp
      then RB_INSERT_COLOR
             (RB_NODE (RB_NODE pl RB_BLACK pk elm) RB_RED gk (rb_paint RB_BLACK tmp)) p
      else (case elm of
              RB_NULL \<Rightarrow> None
            | RB_NODE el ec ek er \<Rightarrow> Some (rb_paint RB_BLACK
                (rb_plug (RB_NODE (RB_NODE pl RB_RED pk el) RB_BLACK ek
                           (RB_NODE er RB_RED gk tmp)) p))))"
| "RB_INSERT_COLOR elm (RIGHT_OF pl RB_RED pk # RIGHT_OF tmp gc gk # p) =
     (if rb_is_red tmp
      then RB_INSERT_COLOR
             (RB_NODE (rb_paint RB_BLACK tmp) RB_RED gk (RB_NODE pl RB_BLACK pk elm)) p
      else Some (rb_paint RB_BLACK
             (rb_plug (RB_NODE (RB_NODE tmp RB_RED gk pl) RB_BLACK pk elm) p)))"
| "RB_INSERT_COLOR elm (LEFT_OF RB_RED pk pr # RIGHT_OF tmp gc gk # p) =
     (if rb_is_red tmp
      then RB_INSERT_COLOR
             (RB_NODE (rb_paint RB_BLACK tmp) RB_RED gk (RB_NODE elm RB_BLACK pk pr)) p
      else (case elm of
              RB_NULL \<Rightarrow> None
            | RB_NODE el ec ek er \<Rightarrow> Some (rb_paint RB_BLACK
                (rb_plug (RB_NODE (RB_NODE tmp RB_RED gk el) RB_BLACK ek
                           (RB_NODE er RB_RED pk pr)) p))))"
| "RB_INSERT_COLOR elm [LEFT_OF RB_RED pk pr] = None"
| "RB_INSERT_COLOR elm [RIGHT_OF pl RB_RED pk] = None"
| "RB_INSERT_COLOR elm p = Some (rb_paint RB_BLACK (rb_plug elm p))"

text \<open>
  The walk of \<open>RB_INSERT\<close> down to a free place, or to the node that has the key already, which
  is returned and leaves the tree as it is.
\<close>

fun rb_insert_walk :: "scntree \<Rightarrow> nat \<Rightarrow> frame list \<Rightarrow> (scntree \<times> bool) option" where
  "rb_insert_walk RB_NULL n p =
     map_option (\<lambda>t. (t, True)) (RB_INSERT_COLOR (RB_NODE RB_NULL RB_RED n RB_NULL) p)"
| "rb_insert_walk (RB_NODE l c k r) n p =
     (if elfscn_cmp n k < 0 then rb_insert_walk l n (LEFT_OF c k r # p)
      else if elfscn_cmp n k > 0 then rb_insert_walk r n (RIGHT_OF l c k # p)
      else Some (rb_plug (RB_NODE l c k r) p, False))"

definition RB_INSERT :: "scntree \<Rightarrow> nat \<Rightarrow> (scntree \<times> bool) option" where
  "RB_INSERT t n = rb_insert_walk t n []"

section \<open>Removal\<close>

text \<open>
  One round of \<open>RB_REMOVE_COLOR\<close> after the case of a red sibling: \<open>elm\<close> is the left (right) child of
  the node \<open>k\<close> of colour \<open>c\<close>, \<open>tmp\<close> its sibling, \<open>p\<close> the path of the parent. \<open>Inl\<close> goes on with
  the parent as \<open>elm\<close>; \<open>Inr\<close> is the whole tree after the rotation that ends the loop.
\<close>

definition rb_remove_left ::
  "scntree \<Rightarrow> rb_color \<Rightarrow> nat \<Rightarrow> scntree \<Rightarrow> frame list \<Rightarrow> (scntree \<times> frame list + scntree) option" where
  "rb_remove_left elm c k tmp p =
     (case tmp of
        RB_NULL \<Rightarrow> None
      | RB_NODE tlf tc tk trt \<Rightarrow>
          if \<not> rb_is_red tlf \<and> \<not> rb_is_red trt
          then Some (Inl (RB_NODE elm c k (RB_NODE tlf RB_RED tk trt), p))
          else do {
            (tlf, tk, trt) \<leftarrow>
              (if \<not> rb_is_red trt
               then (case tlf of
                       RB_NULL \<Rightarrow> None
                     | RB_NODE ll lc lk lr \<Rightarrow> Some (ll, lk, RB_NODE lr RB_RED tk trt))
               else Some (tlf, tk, trt));
            Some (Inr (rb_paint RB_BLACK (rb_plug
              (RB_NODE (RB_NODE elm RB_BLACK k tlf) c tk (rb_paint RB_BLACK trt)) p))) })"

definition rb_remove_right ::
  "scntree \<Rightarrow> rb_color \<Rightarrow> nat \<Rightarrow> scntree \<Rightarrow> frame list \<Rightarrow> (scntree \<times> frame list + scntree) option" where
  "rb_remove_right elm c k tmp p =
     (case tmp of
        RB_NULL \<Rightarrow> None
      | RB_NODE tlf tc tk trt \<Rightarrow>
          if \<not> rb_is_red tlf \<and> \<not> rb_is_red trt
          then Some (Inl (RB_NODE (RB_NODE tlf RB_RED tk trt) c k elm, p))
          else do {
            (tlf, tk, trt) \<leftarrow>
              (if \<not> rb_is_red tlf
               then (case trt of
                       RB_NULL \<Rightarrow> None
                     | RB_NODE rl rc rk rr \<Rightarrow> Some (RB_NODE tlf RB_RED tk rl, rk, rr))
               else Some (tlf, tk, trt));
            Some (Inr (rb_paint RB_BLACK (rb_plug
              (RB_NODE (rb_paint RB_BLACK tlf) c tk (RB_NODE trt RB_BLACK k elm)) p))) })"

text \<open>The body of the loop; a red sibling is first rotated above the parent.\<close>

definition rb_remove_round ::
  "scntree \<Rightarrow> frame \<Rightarrow> frame list \<Rightarrow> (scntree \<times> frame list + scntree) option" where
  "rb_remove_round elm f p =
     (case f of
        LEFT_OF c k tmp \<Rightarrow>
          (case tmp of
             RB_NODE tlf RB_RED tk trt \<Rightarrow> rb_remove_left elm RB_RED k tlf (LEFT_OF RB_BLACK tk trt # p)
           | _ \<Rightarrow> rb_remove_left elm c k tmp p)
      | RIGHT_OF tmp c k \<Rightarrow>
          (case tmp of
             RB_NODE tlf RB_RED tk trt \<Rightarrow> rb_remove_right elm RB_RED k trt (RIGHT_OF tlf RB_BLACK tk # p)
           | _ \<Rightarrow> rb_remove_right elm c k tmp p))"

lemma rb_remove_round_smaller:
  "rb_remove_round elm f p = Some (Inl (elm', p')) \<Longrightarrow>
   length p' = length p \<or> (length p' = Suc (length p) \<and> rb_is_red elm')"
  by (auto simp: rb_remove_round_def rb_remove_left_def rb_remove_right_def bind_Some_iff
      split: frame.splits scntree.splits rb_color.splits if_splits)

function RB_REMOVE_COLOR :: "scntree \<Rightarrow> frame list \<Rightarrow> scntree option" where
  "RB_REMOVE_COLOR elm [] = Some (rb_paint RB_BLACK elm)"
| "RB_REMOVE_COLOR elm (f # p) =
     (if rb_is_red elm then Some (rb_plug (rb_paint RB_BLACK elm) (f # p))
      else (case rb_remove_round elm f p of
              None \<Rightarrow> None
            | Some (Inl (elm', p')) \<Rightarrow> RB_REMOVE_COLOR elm' p'
            | Some (Inr t) \<Rightarrow> Some t))"
  by pat_completeness auto
termination
  by (relation "measure (\<lambda>(elm, p). 2 * length p + (if rb_is_red elm then 0 else 1))")
    (auto dest!: rb_remove_round_smaller)

text \<open>
  Finding the element and its place: \<open>rb_locate\<close> stands for the pointer the caller has.
  \<open>rb_leftmost\<close> is the way down to the successor.
\<close>

fun rb_locate :: "scntree \<Rightarrow> nat \<Rightarrow> frame list
    \<Rightarrow> (scntree \<times> rb_color \<times> scntree \<times> frame list) option" where
  "rb_locate RB_NULL n p = None"
| "rb_locate (RB_NODE l c k r) n p =
     (if n < k then rb_locate l n (LEFT_OF c k r # p)
      else if k < n then rb_locate r n (RIGHT_OF l c k # p)
      else Some (l, c, r, p))"

fun rb_leftmost :: "scntree \<Rightarrow> frame list \<Rightarrow> (nat \<times> rb_color \<times> scntree \<times> frame list) option" where
  "rb_leftmost RB_NULL p = None"
| "rb_leftmost (RB_NODE RB_NULL c k r) p = Some (k, c, r, p)"
| "rb_leftmost (RB_NODE l c k r) p = rb_leftmost l (LEFT_OF c k r # p)"

definition RB_REMOVE :: "scntree \<Rightarrow> nat \<Rightarrow> scntree option" where
  "RB_REMOVE t n = do {
     (l, c, r, p) \<leftarrow> rb_locate t n [];
     (child, color, parent) \<leftarrow>
       (if l = RB_NULL then Some (r, c, p)
        else if r = RB_NULL then Some (l, c, p)
        else do {
          (ek, ec, er, q) \<leftarrow> rb_leftmost r [];
          Some (er, ec, q @ RIGHT_OF l c ek # p) });
     if color = RB_BLACK then RB_REMOVE_COLOR child parent
     else Some (rb_plug child parent) }"

section \<open>Searching\<close>

primrec RB_FIND :: "scntree \<Rightarrow> nat \<Rightarrow> bool" where
  "RB_FIND RB_NULL n = False"
| "RB_FIND (RB_NODE l c k r) n =
     (if elfscn_cmp n k < 0 then RB_FIND l n
      else if elfscn_cmp n k > 0 then RB_FIND r n else True)"

primrec rb_nfind :: "scntree \<Rightarrow> nat \<Rightarrow> nat option \<Rightarrow> nat option" where
  "rb_nfind RB_NULL n res = res"
| "rb_nfind (RB_NODE l c k r) n res =
     (if elfscn_cmp n k < 0 then rb_nfind l n (Some k)
      else if elfscn_cmp n k > 0 then rb_nfind r n res else Some k)"

definition RB_NFIND :: "scntree \<Rightarrow> nat \<Rightarrow> nat option" where
  "RB_NFIND t n = rb_nfind t n None"

text \<open>\<open>RB_MINMAX(head, val)\<close>: \<open>val < 0\<close> is the minimum.\<close>

primrec rb_minmax :: "scntree \<Rightarrow> int \<Rightarrow> nat option \<Rightarrow> nat option" where
  "rb_minmax RB_NULL val parent = parent"
| "rb_minmax (RB_NODE l c k r) val parent =
     (if val < 0 then rb_minmax l val (Some k) else rb_minmax r val (Some k))"

definition RB_MIN :: "scntree \<Rightarrow> nat option" where
  "RB_MIN t = rb_minmax t (- 1) None"

definition RB_MAX :: "scntree \<Rightarrow> nat option" where
  "RB_MAX t = rb_minmax t 1 None"

text \<open>
  \<open>RB_NEXT\<close> and \<open>RB_PREV\<close> start at a node of the tree and go either down into a
  subtree, or up until the path leaves an ancestor on the other side.
\<close>

fun rb_climb_right :: "frame list \<Rightarrow> nat option" where
  "rb_climb_right [] = None"
| "rb_climb_right (LEFT_OF c k r # p) = Some k"
| "rb_climb_right (RIGHT_OF l c k # p) = rb_climb_right p"

fun rb_climb_left :: "frame list \<Rightarrow> nat option" where
  "rb_climb_left [] = None"
| "rb_climb_left (RIGHT_OF l c k # p) = Some k"
| "rb_climb_left (LEFT_OF c k r # p) = rb_climb_left p"

text \<open>The outer option is the access to a node that is not in the tree.\<close>

definition RB_NEXT :: "scntree \<Rightarrow> nat \<Rightarrow> nat option option" where
  "RB_NEXT t n = do {
     (l, c, r, p) \<leftarrow> rb_locate t n [];
     Some (if r \<noteq> RB_NULL then rb_minmax r (- 1) None else rb_climb_right p) }"

definition RB_PREV :: "scntree \<Rightarrow> nat \<Rightarrow> nat option option" where
  "RB_PREV t n = do {
     (l, c, r, p) \<leftarrow> rb_locate t n [];
     Some (if l \<noteq> RB_NULL then rb_minmax l 1 None else rb_climb_left p) }"

section \<open>Invariants\<close>

primrec inorder :: "scntree \<Rightarrow> nat list" where
  "inorder RB_NULL = []"
| "inorder (RB_NODE l c k r) = inorder l @ k # inorder r"

definition rb_keys :: "scntree \<Rightarrow> nat set" where
  "rb_keys t = set (inorder t)"

primrec before :: "frame list \<Rightarrow> nat list" where
  "before [] = []"
| "before (f # p) = (case f of LEFT_OF c k r \<Rightarrow> before p | RIGHT_OF l c k \<Rightarrow> before p @ inorder l @ [k])"

primrec after :: "frame list \<Rightarrow> nat list" where
  "after [] = []"
| "after (f # p) = (case f of LEFT_OF c k r \<Rightarrow> k # inorder r @ after p | RIGHT_OF l c k \<Rightarrow> after p)"

lemma inorder_plug: "inorder (rb_plug t p) = before p @ inorder t @ after p"
  by (induction t p rule: rb_plug.induct) auto

lemma inorder_nil [simp]: "inorder t = [] \<longleftrightarrow> t = RB_NULL"
  by (cases t) auto

lemma inorder_paint [simp]: "inorder (rb_paint c t) = inorder t"
  by (cases t) auto

text \<open>No red node has a red child; all paths down have the same number of black nodes.\<close>

primrec no_red_red :: "scntree \<Rightarrow> bool" where
  "no_red_red RB_NULL = True"
| "no_red_red (RB_NODE l c k r) =
     ((c = RB_RED \<longrightarrow> \<not> rb_is_red l \<and> \<not> rb_is_red r) \<and> no_red_red l \<and> no_red_red r)"

primrec black_height :: "scntree \<Rightarrow> nat" where
  "black_height RB_NULL = 0"
| "black_height (RB_NODE l c k r) = black_height l + (if c = RB_BLACK then 1 else 0)"

primrec balanced :: "scntree \<Rightarrow> bool" where
  "balanced RB_NULL = True"
| "balanced (RB_NODE l c k r) = (black_height l = black_height r \<and> balanced l \<and> balanced r)"

definition rb_inv :: "scntree \<Rightarrow> bool" where
  "rb_inv t \<longleftrightarrow> sorted_wrt (<) (inorder t) \<and> no_red_red t \<and> balanced t \<and> \<not> rb_is_red t"

text \<open>The same for a path, with a place for a tree of black height \<open>h\<close> at its end.\<close>

fun top_red :: "frame list \<Rightarrow> bool" where
  "top_red [] = False"
| "top_red (LEFT_OF c k r # p) = (c = RB_RED)"
| "top_red (RIGHT_OF l c k # p) = (c = RB_RED)"

fun path_ok :: "frame list \<Rightarrow> nat \<Rightarrow> bool" where
  "path_ok [] h = True"
| "path_ok (LEFT_OF c k r # p) h =
     (no_red_red r \<and> balanced r \<and> h = black_height r
      \<and> (c = RB_RED \<longrightarrow> \<not> rb_is_red r \<and> \<not> top_red p \<and> p \<noteq> [])
      \<and> path_ok p (h + (if c = RB_BLACK then 1 else 0)))"
| "path_ok (RIGHT_OF l c k # p) h =
     (no_red_red l \<and> balanced l \<and> black_height l = h
      \<and> (c = RB_RED \<longrightarrow> \<not> rb_is_red l \<and> \<not> top_red p \<and> p \<noteq> [])
      \<and> path_ok p (h + (if c = RB_BLACK then 1 else 0)))"

lemma paint_props [simp]:
  "no_red_red t \<Longrightarrow> no_red_red (rb_paint RB_BLACK t)" "balanced (rb_paint c t) = balanced t"
  "\<not> rb_is_red (rb_paint RB_BLACK t)"
  by (cases t; auto)+

lemma paint_black_height:
  "rb_is_red t \<Longrightarrow> black_height (rb_paint RB_BLACK t) = Suc (black_height t)"
  by (cases t) auto

lemma plug_ok:
  "path_ok p (black_height t) \<Longrightarrow> no_red_red t \<Longrightarrow> balanced t \<Longrightarrow>
   \<not> (rb_is_red t \<and> top_red p) \<Longrightarrow> no_red_red (rb_plug t p) \<and> balanced (rb_plug t p)"
proof (induction t p rule: rb_plug.induct)
  case (1 t)
  then show ?case by simp
next
  case (2 t c k r p)
  show ?case
    using "2.IH" "2.prems" by (cases c) auto
next
  case (3 t l c k p)
  show ?case
    using "3.IH" "3.prems" by (cases c) auto
qed

lemma plug_black_ok:
  assumes "path_ok p (black_height t)" "no_red_red t" "balanced t"
    "\<not> (rb_is_red t \<and> top_red p)" "sorted_wrt (<) (before p @ inorder t @ after p)"
  shows "rb_inv (rb_paint RB_BLACK (rb_plug t p))"
  using plug_ok[OF assms(1-4)] assms(5) by (simp add: rb_inv_def inorder_plug)

lemma insert_color_black:
  "\<not> top_red p \<Longrightarrow> RB_INSERT_COLOR elm p = Some (rb_paint RB_BLACK (rb_plug elm p))"
  by (induction elm p rule: RB_INSERT_COLOR.induct) auto

lemma insert_black_path:
  assumes "path_ok p (black_height elm)" "no_red_red elm" "balanced elm" "\<not> top_red p"
    "sorted_wrt (<) (before p @ inorder elm @ after p)"
  shows "\<exists>t. RB_INSERT_COLOR elm p = Some t \<and> rb_inv t \<and> inorder t = before p @ inorder elm @ after p"
  using assms by (simp add: insert_color_black inorder_plug plug_black_ok)

lemma RB_INSERT_COLOR_ok:
  "path_ok p (black_height elm) \<Longrightarrow> no_red_red elm \<Longrightarrow> balanced elm \<Longrightarrow> rb_is_red elm \<Longrightarrow>
   sorted_wrt (<) (before p @ inorder elm @ after p) \<Longrightarrow>
   \<exists>t. RB_INSERT_COLOR elm p = Some t \<and> rb_inv t \<and> inorder t = before p @ inorder elm @ after p"
proof (induction elm p rule: RB_INSERT_COLOR.induct)
  case (1 elm pk pr gc gk tmp p)
  have gc: "gc = RB_BLACK" using "1.prems"(1) by (cases gc) simp_all
  show ?case
  proof (cases "rb_is_red tmp")
    case True
    then show ?thesis
      using "1.IH"[OF True] "1.prems" gc by (auto simp: paint_black_height)
  next
    case False
    then have "rb_inv (rb_paint RB_BLACK
        (rb_plug (RB_NODE elm RB_BLACK pk (RB_NODE pr RB_RED gk tmp)) p))"
      using "1.prems" gc by (intro plug_black_ok) auto
    then show ?thesis using False by (simp add: inorder_plug)
  qed
next
  case (2 elm pl pk gc gk tmp p)
  have gc: "gc = RB_BLACK" using "2.prems"(1) by (cases gc) simp_all
  obtain el ek er where elm: "elm = RB_NODE el RB_RED ek er"
    using "2.prems" by (cases elm) auto
  show ?case
  proof (cases "rb_is_red tmp")
    case True
    then show ?thesis
      using "2.IH"[OF True] "2.prems" gc by (auto simp: paint_black_height)
  next
    case False
    then have "rb_inv (rb_paint RB_BLACK (rb_plug (RB_NODE (RB_NODE pl RB_RED pk el) RB_BLACK ek
                           (RB_NODE er RB_RED gk tmp)) p))"
      using "2.prems" gc elm by (intro plug_black_ok) auto
    then show ?thesis using False elm by (simp add: inorder_plug)
  qed
next
  case (3 elm pl pk tmp gc gk p)
  have gc: "gc = RB_BLACK" using "3.prems"(1) by (cases gc) simp_all
  show ?case
  proof (cases "rb_is_red tmp")
    case True
    then show ?thesis
      using "3.IH"[OF True] "3.prems" gc by (auto simp: paint_black_height)
  next
    case False
    then have "rb_inv (rb_paint RB_BLACK
        (rb_plug (RB_NODE (RB_NODE tmp RB_RED gk pl) RB_BLACK pk elm) p))"
      using "3.prems" gc by (intro plug_black_ok) auto
    then show ?thesis using False by (simp add: inorder_plug)
  qed
next
  case (4 elm pk pr tmp gc gk p)
  have gc: "gc = RB_BLACK" using "4.prems"(1) by (cases gc) simp_all
  obtain el ek er where elm: "elm = RB_NODE el RB_RED ek er"
    using "4.prems" by (cases elm) auto
  show ?case
  proof (cases "rb_is_red tmp")
    case True
    then show ?thesis
      using "4.IH"[OF True] "4.prems" gc by (auto simp: paint_black_height)
  next
    case False
    then have "rb_inv (rb_paint RB_BLACK (rb_plug (RB_NODE (RB_NODE tmp RB_RED gk el) RB_BLACK ek
                           (RB_NODE er RB_RED pk pr)) p))"
      using "4.prems" gc elm by (intro plug_black_ok) auto
    then show ?thesis using False elm by (simp add: inorder_plug)
  qed
next
  case (5 elm pk pr)
  then show ?case by simp
next
  case (6 elm pl pk)
  then show ?case by simp
qed ((rule insert_black_path; (assumption | simp))+)

text \<open>The walk keeps \<open>path_ok\<close> and the order.\<close>

lemma insert_walk_ok:
  "path_ok p (black_height t) \<Longrightarrow> no_red_red t \<Longrightarrow> balanced t \<Longrightarrow> \<not> (rb_is_red t \<and> (top_red p \<or> p = [])) \<Longrightarrow>
   sorted_wrt (<) (before p @ inorder t @ after p) \<Longrightarrow>
   (\<forall>x\<in>set (before p). x < n) \<Longrightarrow> (\<forall>x\<in>set (after p). n < x) \<Longrightarrow>
   (n \<in> set (inorder t) \<longrightarrow> rb_insert_walk t n p = Some (rb_plug t p, False))
   \<and> (n \<notin> set (inorder t) \<longrightarrow> (\<exists>t'. rb_insert_walk t n p = Some (t', True) \<and> rb_inv t'
        \<and> set (inorder t') = insert n (set (before p @ inorder t @ after p))))"
proof (induction t arbitrary: p)
  case RB_NULL
  have "\<exists>t. RB_INSERT_COLOR (RB_NODE RB_NULL RB_RED n RB_NULL) p = Some t \<and> rb_inv t
      \<and> inorder t = before p @ inorder (RB_NODE RB_NULL RB_RED n RB_NULL) @ after p"
    using RB_NULL
    by (intro RB_INSERT_COLOR_ok) (auto simp: sorted_wrt_append)
  then show ?case by auto
next
  case (RB_NODE l c k r)
  have s: "sorted_wrt (<) (inorder l)" "sorted_wrt (<) (inorder r)"
    "\<forall>x\<in>set (inorder l). x < k" "\<forall>x\<in>set (inorder r). k < x"
    using RB_NODE.prems(5) by (auto simp: sorted_wrt_append)
  consider (lt) "n < k" | (gt) "k < n" | (eq) "n = k" by linarith
  then show ?case
  proof cases
    case lt
    have "n \<notin> set (inorder r)" using s(4) lt by auto
    moreover have "\<forall>x\<in>set (after (LEFT_OF c k r # p)). n < x"
      using RB_NODE.prems(7) s(4) lt by auto
    ultimately show ?thesis
      using RB_NODE.IH(1)[of "LEFT_OF c k r # p"] RB_NODE.prems lt
      by (cases c) (auto simp: elfscn_cmp_def)
  next
    case gt
    have "n \<notin> set (inorder l)" using s(3) gt by auto
    moreover have "\<forall>x\<in>set (before (RIGHT_OF l c k # p)). x < n"
      using RB_NODE.prems(6) s(3) gt by auto
    ultimately show ?thesis
      using RB_NODE.IH(2)[of "RIGHT_OF l c k # p"] RB_NODE.prems gt
      by (cases c) (auto simp: elfscn_cmp_def)
  next
    case eq
    then show ?thesis by (simp add: elfscn_cmp_def)
  qed
qed

lemma RB_INSERT_new:
  "rb_inv t \<Longrightarrow> n \<notin> rb_keys t \<Longrightarrow>
   \<exists>t'. RB_INSERT t n = Some (t', True) \<and> rb_inv t' \<and> rb_keys t' = insert n (rb_keys t)"
  using insert_walk_ok[of "[]" t n] by (auto simp: RB_INSERT_def rb_inv_def rb_keys_def)

lemma RB_INSERT_old: "rb_inv t \<Longrightarrow> n \<in> rb_keys t \<Longrightarrow> RB_INSERT t n = Some (t, False)"
  using insert_walk_ok[of "[]" t n] by (auto simp: RB_INSERT_def rb_inv_def rb_keys_def)

text \<open>What a round of the removal loop leaves: \<open>e\<close> lacks one black node on every path.\<close>

definition short_ok :: "scntree \<Rightarrow> frame list \<Rightarrow> nat list \<Rightarrow> bool" where
  "short_ok e p ks \<longleftrightarrow> path_ok p (Suc (black_height e)) \<and> no_red_red (rb_paint RB_BLACK e) \<and> balanced e
     \<and> before p @ inorder e @ after p = ks"

definition round_ok :: "nat list \<Rightarrow> (scntree \<times> frame list + scntree) option \<Rightarrow> bool" where
  "round_ok ks r \<longleftrightarrow>
     (case r of None \<Rightarrow> False
      | Some (Inl (e, p)) \<Rightarrow> short_ok e p ks
      | Some (Inr t) \<Rightarrow> rb_inv t \<and> inorder t = ks)"

lemma paint_black_id: "\<not> rb_is_red t \<Longrightarrow> rb_paint RB_BLACK t = t"
  by (cases t) (auto, metis rb_color.exhaust)

lemma plug_root:
  "path_ok p h \<Longrightarrow> p \<noteq> [] \<Longrightarrow> \<not> rb_is_red (rb_plug t p)"
proof (induction t p arbitrary: h rule: rb_plug.induct)
  case (2 t c k r p)
  then show ?case by (cases p) auto
next
  case (3 t l c k p)
  then show ?case by (cases p) auto
qed simp

lemma remove_left_ok:
  assumes p: "path_ok (LEFT_OF c k tmp # p) (Suc (black_height elm))" "\<not> rb_is_red tmp"
    and e: "no_red_red elm" "balanced elm" "\<not> rb_is_red elm"
    and ks: "before p @ (inorder elm @ k # inorder tmp) @ after p = ks" "sorted_wrt (<) ks"
  shows "round_ok ks (rb_remove_left elm c k tmp p)"
proof -
  from p obtain tlf tk trt where tmp: "tmp = RB_NODE tlf RB_BLACK tk trt"
    by (cases tmp; cases "rb_is_red tmp") (auto intro: rb_color.exhaust)
  have c: "c = RB_RED \<or> c = RB_BLACK" by (cases c) auto
  show ?thesis
  proof (cases "\<not> rb_is_red tlf \<and> \<not> rb_is_red trt")
    case True
    then show ?thesis using p e ks c unfolding tmp
      by (auto simp: rb_remove_left_def round_ok_def short_ok_def)
  next
    case False
    show ?thesis
    proof (cases "rb_is_red trt")
      case True
      have "rb_inv (rb_paint RB_BLACK
          (rb_plug (RB_NODE (RB_NODE elm RB_BLACK k tlf) c tk (rb_paint RB_BLACK trt)) p))"
        using p e ks c True unfolding tmp
        by (intro plug_black_ok) (auto simp: paint_black_height)
      then show ?thesis using True ks unfolding tmp
        by (auto simp: rb_remove_left_def round_ok_def inorder_plug)
    next
      case right: False
      with False obtain ll lk lr where l: "tlf = RB_NODE ll RB_RED lk lr"
        by (cases tlf) auto
      have "rb_inv (rb_paint RB_BLACK (rb_plug (RB_NODE (RB_NODE elm RB_BLACK k ll) c lk
          (rb_paint RB_BLACK (RB_NODE lr RB_RED tk trt))) p))"
        using p e ks c right unfolding tmp l by (intro plug_black_ok) auto
      then show ?thesis using right ks unfolding tmp l
        by (auto simp: rb_remove_left_def round_ok_def inorder_plug)
    qed
  qed
qed

lemma remove_right_ok:
  assumes p: "path_ok (RIGHT_OF tmp c k # p) (Suc (black_height elm))" "\<not> rb_is_red tmp"
    and e: "no_red_red elm" "balanced elm" "\<not> rb_is_red elm"
    and ks: "before p @ (inorder tmp @ k # inorder elm) @ after p = ks" "sorted_wrt (<) ks"
  shows "round_ok ks (rb_remove_right elm c k tmp p)"
proof -
  from p obtain tlf tk trt where tmp: "tmp = RB_NODE tlf RB_BLACK tk trt"
    by (cases tmp; cases "rb_is_red tmp") (auto intro: rb_color.exhaust)
  have c: "c = RB_RED \<or> c = RB_BLACK" by (cases c) auto
  show ?thesis
  proof (cases "\<not> rb_is_red tlf \<and> \<not> rb_is_red trt")
    case True
    then show ?thesis using p e ks c unfolding tmp
      by (auto simp: rb_remove_right_def round_ok_def short_ok_def)
  next
    case False
    show ?thesis
    proof (cases "rb_is_red tlf")
      case True
      have "rb_inv (rb_paint RB_BLACK
          (rb_plug (RB_NODE (rb_paint RB_BLACK tlf) c tk (RB_NODE trt RB_BLACK k elm)) p))"
        using p e ks c True unfolding tmp
        by (intro plug_black_ok) (auto simp: paint_black_height)
      then show ?thesis using True ks unfolding tmp
        by (auto simp: rb_remove_right_def round_ok_def inorder_plug)
    next
      case left: False
      with False obtain rl rk rr where r: "trt = RB_NODE rl RB_RED rk rr"
        by (cases trt) auto
      have "rb_inv (rb_paint RB_BLACK (rb_plug (RB_NODE (rb_paint RB_BLACK (RB_NODE tlf RB_RED tk rl))
          c rk (RB_NODE rr RB_BLACK k elm)) p))"
        using p e ks c left unfolding tmp r by (intro plug_black_ok) auto
      then show ?thesis using left ks unfolding tmp r
        by (auto simp: rb_remove_right_def round_ok_def inorder_plug)
    qed
  qed
qed

lemma remove_round_ok:
  assumes "short_ok elm (f # p) ks" "sorted_wrt (<) ks" "\<not> rb_is_red elm"
  shows "round_ok ks (rb_remove_round elm f p)"
proof -
  have e: "no_red_red elm" "balanced elm"
    using assms by (auto simp: short_ok_def paint_black_id)
  show ?thesis
  proof (cases f)
    case (LEFT_OF c k tmp)
    show ?thesis
    proof (cases "rb_is_red tmp")
      case True
      then obtain tlf tk trt where tmp: "tmp = RB_NODE tlf RB_RED tk trt"
        by (cases tmp) auto
      have "round_ok ks (rb_remove_left elm RB_RED k tlf (LEFT_OF RB_BLACK tk trt # p))"
        using assms e LEFT_OF tmp
        by (intro remove_left_ok) (cases c; auto simp: short_ok_def)+
      then show ?thesis by (simp add: rb_remove_round_def LEFT_OF tmp)
    next
      case False
      have "round_ok ks (rb_remove_left elm c k tmp p)"
        using assms e LEFT_OF False by (intro remove_left_ok) (auto simp: short_ok_def)
      then show ?thesis using False
        by (auto simp: rb_remove_round_def LEFT_OF split: scntree.split rb_color.split)
    qed
  next
    case (RIGHT_OF tmp c k)
    show ?thesis
    proof (cases "rb_is_red tmp")
      case True
      then obtain tlf tk trt where tmp: "tmp = RB_NODE tlf RB_RED tk trt"
        by (cases tmp) auto
      have "round_ok ks (rb_remove_right elm RB_RED k trt (RIGHT_OF tlf RB_BLACK tk # p))"
        using assms e RIGHT_OF tmp
        by (intro remove_right_ok) (cases c; auto simp: short_ok_def)+
      then show ?thesis by (simp add: rb_remove_round_def RIGHT_OF tmp)
    next
      case False
      have "round_ok ks (rb_remove_right elm c k tmp p)"
        using assms e RIGHT_OF False by (intro remove_right_ok) (auto simp: short_ok_def)
      then show ?thesis using False
        by (auto simp: rb_remove_round_def RIGHT_OF split: scntree.split rb_color.split)
    qed
  qed
qed

lemma RB_REMOVE_COLOR_ok:
  "short_ok elm p ks \<Longrightarrow> sorted_wrt (<) ks \<Longrightarrow>
   \<exists>t. RB_REMOVE_COLOR elm p = Some t \<and> rb_inv t \<and> inorder t = ks"
proof (induction elm p rule: RB_REMOVE_COLOR.induct)
  case (1 elm)
  then show ?case by (auto simp: short_ok_def rb_inv_def)
next
  case (2 elm f p)
  show ?case
  proof (cases "rb_is_red elm")
    case True
    have "path_ok (f # p) (black_height (rb_paint RB_BLACK elm))"
      using "2.prems"(1) True by (simp add: short_ok_def paint_black_height)
    then have "no_red_red (rb_plug (rb_paint RB_BLACK elm) (f # p))
        \<and> balanced (rb_plug (rb_paint RB_BLACK elm) (f # p))"
      using "2.prems"(1) by (intro plug_ok) (auto simp: short_ok_def)
    moreover have "\<not> rb_is_red (rb_plug (rb_paint RB_BLACK elm) (f # p))"
      using "2.prems"(1) by (intro plug_root) (auto simp: short_ok_def)
    ultimately show ?thesis
      using True "2.prems" by (simp add: short_ok_def inorder_plug rb_inv_def)
  next
    case False
    have "round_ok ks (rb_remove_round elm f p)"
      using remove_round_ok "2.prems" False by blast
    then show ?thesis
      using "2.IH"[OF False] "2.prems"(2) False
      by (fastforce simp: round_ok_def rb_inv_def split: option.splits sum.splits prod.splits)
  qed
qed

text \<open>A place in the tree: the node \<open>RB_NODE l c k r\<close> and its path.\<close>

definition place_ok :: "scntree \<Rightarrow> frame list \<Rightarrow> bool" where
  "place_ok t p \<longleftrightarrow> path_ok p (black_height t) \<and> no_red_red t \<and> balanced t
     \<and> (rb_is_red t \<longrightarrow> \<not> top_red p \<and> p \<noteq> [])"

lemma locate_ok:
  "place_ok t p \<Longrightarrow> sorted_wrt (<) (inorder t) \<Longrightarrow> n \<in> set (inorder t) \<Longrightarrow>
   \<exists>l c r q. rb_locate t n p = Some (l, c, r, q) \<and> place_ok (RB_NODE l c n r) q
     \<and> before q @ inorder (RB_NODE l c n r) @ after q = before p @ inorder t @ after p"
proof (induction t arbitrary: p)
  case RB_NULL
  then show ?case by simp
next
  case (RB_NODE l c k r)
  have s: "sorted_wrt (<) (inorder l)" "sorted_wrt (<) (inorder r)"
    "\<forall>x\<in>set (inorder l). x < k" "\<forall>x\<in>set (inorder r). k < x"
    using RB_NODE.prems(2) by (auto simp: sorted_wrt_append)
  consider (lt) "n < k" | (gt) "k < n" | (eq) "n = k" by linarith
  then show ?case
  proof cases
    case lt
    then have "n \<in> set (inorder l)" using RB_NODE.prems(3) s(4) by auto
    moreover have "place_ok l (LEFT_OF c k r # p)"
      using RB_NODE.prems(1) by (cases c) (auto simp: place_ok_def)
    ultimately show ?thesis using RB_NODE.IH(1)[of "LEFT_OF c k r # p"] s(1) lt by simp
  next
    case gt
    then have "n \<in> set (inorder r)" using RB_NODE.prems(3) s(3) by auto
    moreover have "place_ok r (RIGHT_OF l c k # p)"
      using RB_NODE.prems(1) by (cases c) (auto simp: place_ok_def)
    ultimately show ?thesis using RB_NODE.IH(2)[of "RIGHT_OF l c k # p"] s(2) gt by simp
  next
    case eq
    then show ?thesis using RB_NODE.prems(1) by simp
  qed
qed

lemma leftmost_append:
  "rb_leftmost t (q @ p) = map_option (\<lambda>(k, c, r, q'). (k, c, r, q' @ p)) (rb_leftmost t q)"
  by (induction t q rule: rb_leftmost.induct) simp_all

lemma before_append: "before (q @ p) = before p @ before q"
  by (induction q) (auto split: frame.split)

lemma after_append: "after (q @ p) = after q @ after p"
  by (induction q) (auto split: frame.split)

lemma leftmost_ok:
  "t \<noteq> RB_NULL \<Longrightarrow> place_ok t p \<Longrightarrow>
   \<exists>k c r q. rb_leftmost t [] = Some (k, c, r, q) \<and> place_ok (RB_NODE RB_NULL c k r) (q @ p)
     \<and> before q = [] \<and> k # inorder r @ after q = inorder t"
proof (induction t arbitrary: p)
  case RB_NULL
  then show ?case by simp
next
  case (RB_NODE l c k r)
  show ?case
  proof (cases l)
    case RB_NULL
    then show ?thesis using RB_NODE.prems(2) by simp
  next
    case (RB_NODE ll lc lk lr)
    then have ln: "l \<noteq> RB_NULL" by simp
    have "place_ok l (LEFT_OF c k r # p)"
      using RB_NODE.prems(2) by (cases c) (auto simp: place_ok_def)
    from RB_NODE.IH(1)[OF ln this] obtain k' c' r' q where
      ih: "rb_leftmost l [] = Some (k', c', r', q)"
        "place_ok (RB_NODE RB_NULL c' k' r') (q @ LEFT_OF c k r # p)"
        "before q = []" "k' # inorder r' @ after q = inorder l" by blast
    have "rb_leftmost (RB_NODE l c k r) [] = rb_leftmost l ([] @ [LEFT_OF c k r])"
      using RB_NODE by simp
    also have "\<dots> = Some (k', c', r', q @ [LEFT_OF c k r])"
      unfolding leftmost_append by (simp add: ih(1))
    finally show ?thesis using ih(2-)
      by (simp add: before_append after_append)
  qed
qed

text \<open>Taking out a node with at most one child.\<close>

lemma splice_ok:
  assumes "place_ok (RB_NODE l c k r) p" "l = RB_NULL \<and> child = r \<or> r = RB_NULL \<and> child = l"
    "sorted_wrt (<) (before p @ inorder child @ after p)"
  shows "\<exists>t. (if c = RB_BLACK then RB_REMOVE_COLOR child p else Some (rb_plug child p)) = Some t
    \<and> rb_inv t \<and> inorder t = before p @ inorder child @ after p"
proof (cases "c = RB_BLACK")
  case True
  have "short_ok child p (before p @ inorder child @ after p)"
    using assms(1,2) True by (auto simp: short_ok_def place_ok_def)
  then show ?thesis using RB_REMOVE_COLOR_ok assms(3) True by auto
next
  case False
  then have c: "c = RB_RED" by (cases c) auto
  have ok: "path_ok p (black_height child)" "no_red_red child" "balanced child" "p \<noteq> []"
    "\<not> (rb_is_red child \<and> top_red p)"
    using assms(1,2) c by (auto simp: place_ok_def)
  then show ?thesis
    using plug_ok[OF ok(1-3) ok(5)] plug_root[OF ok(1,4)] assms(3) c
    by (simp add: rb_inv_def inorder_plug)
qed

lemma rekey_path:
  "path_ok (q @ RIGHT_OF l c k # p) h = path_ok (q @ RIGHT_OF l c n # p) h"
  "top_red (q @ RIGHT_OF l c k # p) = top_red (q @ RIGHT_OF l c n # p)"
proof -
  show t: "top_red (q @ RIGHT_OF l c k # p) = top_red (q @ RIGHT_OF l c n # p)" for q
    by (cases q rule: top_red.cases) auto
  show "path_ok (q @ RIGHT_OF l c k # p) h = path_ok (q @ RIGHT_OF l c n # p) h"
  proof (induction q arbitrary: h)
    case Nil
    then show ?case by simp
  next
    case (Cons f q)
    then show ?case by (cases f) (auto simp: t)
  qed
qed

lemma RB_REMOVE_ok:
  assumes "rb_inv t" "n \<in> rb_keys t"
  shows "\<exists>t'. RB_REMOVE t n = Some t' \<and> rb_inv t' \<and> rb_keys t' = rb_keys t - {n}"
proof -
  have "place_ok t []" using assms(1) by (auto simp: place_ok_def rb_inv_def)
  moreover have "sorted_wrt (<) (inorder t)" "n \<in> set (inorder t)"
    using assms by (auto simp: rb_inv_def rb_keys_def)
  ultimately obtain l c r p where
    loc: "rb_locate t n [] = Some (l, c, r, p)" and pl: "place_ok (RB_NODE l c n r) p"
    and ks: "before p @ inorder (RB_NODE l c n r) @ after p = inorder t"
    using locate_ok[of t "[]" n] by auto
  define rest where "rest = before p @ inorder l @ inorder r @ after p"
  have "sorted_wrt (<) (before p @ inorder l @ n # inorder r @ after p)"
    using ks assms(1) by (simp add: rb_inv_def)
  then have s: "sorted_wrt (<) rest" and keys: "set rest = rb_keys t - {n}"
    unfolding rest_def rb_keys_def ks[symmetric] by (auto simp: sorted_wrt_append)
  consider (l) "l = RB_NULL" | (r) "l \<noteq> RB_NULL" "r = RB_NULL" | (both) "l \<noteq> RB_NULL" "r \<noteq> RB_NULL"
    by blast
  then have "\<exists>t'. RB_REMOVE t n = Some t' \<and> rb_inv t' \<and> inorder t' = rest"
  proof cases
    case l
    then show ?thesis using splice_ok[OF pl, of r] s loc by (simp add: RB_REMOVE_def rest_def)
  next
    case r
    then show ?thesis using splice_ok[OF pl, of l] s loc by (simp add: RB_REMOVE_def rest_def)
  next
    case both
    have "place_ok r (RIGHT_OF l c n # p)"
      using pl by (cases c) (auto simp: place_ok_def)
    from leftmost_ok[OF both(2) this] obtain ek ec er q where
      lm: "rb_leftmost r [] = Some (ek, ec, er, q)"
      and pe: "place_ok (RB_NODE RB_NULL ec ek er) (q @ RIGHT_OF l c n # p)"
      and bf: "before q = []" "ek # inorder er @ after q = inorder r" by blast
    note key = rekey_path[where k = ek and n = n]
    have "place_ok (RB_NODE RB_NULL ec ek er) (q @ RIGHT_OF l c ek # p)"
      using pe by (simp add: place_ok_def key)
    moreover have "before (q @ RIGHT_OF l c ek # p) @ inorder er @ after (q @ RIGHT_OF l c ek # p) = rest"
      using bf by (simp add: before_append after_append rest_def flip: bf(2))
    ultimately show ?thesis
      using splice_ok[of RB_NULL ec ek er "q @ RIGHT_OF l c ek # p" er] s loc lm both
      by (simp add: RB_REMOVE_def)
  qed
  then show ?thesis using keys by (auto simp: rb_keys_def)
qed

section \<open>Searching in a sorted tree\<close>

lemma RB_FIND_iff: "sorted_wrt (<) (inorder t) \<Longrightarrow> RB_FIND t n \<longleftrightarrow> n \<in> rb_keys t"
  by (induction t) (auto simp: rb_keys_def elfscn_cmp_def sorted_wrt_append)

lemma rb_minmax_low: "rb_minmax t (- 1) d = (if t = RB_NULL then d else Some (hd (inorder t)))"
  by (induction t arbitrary: d) (auto simp: hd_append)

lemma rb_minmax_high: "rb_minmax t 1 d = (if t = RB_NULL then d else Some (last (inorder t)))"
  by (induction t arbitrary: d) auto

lemma RB_MIN_eq: "t \<noteq> RB_NULL \<Longrightarrow> RB_MIN t = Some (hd (inorder t))"
  by (simp add: RB_MIN_def rb_minmax_low)

lemma RB_MAX_eq: "t \<noteq> RB_NULL \<Longrightarrow> RB_MAX t = Some (last (inorder t))"
  by (simp add: RB_MAX_def rb_minmax_high)

lemma climb_right: "rb_climb_right p = (if after p = [] then None else Some (hd (after p)))"
  by (induction p rule: rb_climb_right.induct) auto

lemma climb_left: "rb_climb_left p = (if before p = [] then None else Some (last (before p)))"
  by (induction p rule: rb_climb_left.induct) auto

lemma nfind_spec:
  "sorted_wrt (<) (inorder t) \<Longrightarrow>
   rb_nfind t n d = (case filter (\<lambda>k. n \<le> k) (inorder t) of [] \<Rightarrow> d | k # ks \<Rightarrow> Some k)"
proof (induction t arbitrary: d)
  case RB_NULL
  then show ?case by simp
next
  case (RB_NODE l c k r)
  have s: "sorted_wrt (<) (inorder l)" "sorted_wrt (<) (inorder r)"
    "\<forall>x\<in>set (inorder l). x < k" "\<forall>x\<in>set (inorder r). k < x"
    using RB_NODE.prems by (auto simp: sorted_wrt_append)
  have el: "filter (\<lambda>x. n \<le> x) (inorder l) = []" if "k \<le> n"
    using s(3) that by (auto simp: filter_empty_conv)
  show ?case
    using RB_NODE.IH s el
    by (auto simp: elfscn_cmp_def split: list.split)
qed

text \<open>The neighbours of a key in a sorted list.\<close>

lemma case_list_hd: "(case xs of [] \<Rightarrow> None | k # ks \<Rightarrow> Some k) = (if xs = [] then None else Some (hd xs))"
  by (cases xs) auto

lemma locate_next:
  assumes "rb_inv t" "n \<in> rb_keys t"
  shows "RB_NEXT t n = Some (case filter (\<lambda>k. n < k) (inorder t) of [] \<Rightarrow> None | k # ks \<Rightarrow> Some k)"
proof -
  have "place_ok t []" using assms(1) by (auto simp: place_ok_def rb_inv_def)
  moreover have st: "sorted_wrt (<) (inorder t)" "n \<in> set (inorder t)"
    using assms by (auto simp: rb_inv_def rb_keys_def)
  ultimately obtain l c r p where loc: "rb_locate t n [] = Some (l, c, r, p)"
    and ks: "inorder t = before p @ inorder l @ n # inorder r @ after p"
    using locate_ok[of t "[]" n] by auto
  from st(1) have gt: "filter (\<lambda>k. n < k) (inorder t) = inorder r @ after p"
    unfolding ks by (auto simp: sorted_wrt_append filter_empty_conv filter_id_conv)
  show ?thesis
    unfolding gt RB_NEXT_def loc case_list_hd
    by (simp add: rb_minmax_low climb_right)
qed

lemma filter_next:
  assumes "sorted_wrt (<) (xs :: nat list)"
  shows "(case filter (\<lambda>k. n < k) xs of [] \<Rightarrow> None | k # ks \<Rightarrow> Some k) = Some m
    \<longleftrightarrow> m \<in> set xs \<and> n < m \<and> (\<forall>k\<in>set xs. n < k \<longrightarrow> m \<le> k)"
  using assms
proof (induction xs)
  case Nil
  then show ?case by simp
next
  case (Cons x xs)
  then show ?case by (cases "n < x") (auto split: list.splits)
qed

lemma filter_next_None:
  "(case filter (\<lambda>k. n < k) xs of [] \<Rightarrow> None | k # ks \<Rightarrow> Some k) = None
   \<longleftrightarrow> (\<forall>k\<in>set xs. \<not> n < (k :: nat))"
  using filter_empty_conv[of "\<lambda>k. n < k" xs] by (auto split: list.split)

lemma RB_NEXT_Some:
  "rb_inv t \<Longrightarrow> n \<in> rb_keys t \<Longrightarrow>
   RB_NEXT t n = Some (Some m) \<longleftrightarrow> m \<in> rb_keys t \<and> n < m \<and> (\<forall>k\<in>rb_keys t. n < k \<longrightarrow> m \<le> k)"
  using filter_next[of "inorder t" n m]
  by (simp add: locate_next rb_inv_def rb_keys_def)

lemma RB_NEXT_None:
  "rb_inv t \<Longrightarrow> n \<in> rb_keys t \<Longrightarrow> RB_NEXT t n = Some None \<longleftrightarrow> (\<forall>k\<in>rb_keys t. k \<le> n)"
  using filter_next_None[of n "inorder t"]
  by (auto simp: locate_next rb_keys_def not_less)

lemma rb_keys_empty: "rb_keys t = {} \<longleftrightarrow> t = RB_NULL"
  by (simp add: rb_keys_def)

lemma RB_MAX_Some:
  assumes "rb_inv t"
  shows "RB_MAX t = Some m \<longleftrightarrow> m \<in> rb_keys t \<and> (\<forall>k\<in>rb_keys t. k \<le> m)"
proof (cases "t = RB_NULL")
  case True
  then show ?thesis by (simp add: RB_MAX_def rb_keys_def)
next
  case False
  then obtain xs x where x: "inorder t = xs @ [x]" by (metis inorder_nil rev_exhaust)
  have "\<forall>k\<in>set xs. k < x" using assms x by (auto simp: rb_inv_def sorted_wrt_append)
  then show ?thesis using False by (auto simp: RB_MAX_eq x rb_keys_def)
qed

lemma RB_MIN_Some:
  assumes "rb_inv t"
  shows "RB_MIN t = Some m \<longleftrightarrow> m \<in> rb_keys t \<and> (\<forall>k\<in>rb_keys t. m \<le> k)"
proof (cases "t = RB_NULL")
  case True
  then show ?thesis by (simp add: RB_MIN_def rb_keys_def)
next
  case False
  then obtain xs x where x: "inorder t = x # xs" by (metis inorder_nil list.exhaust)
  have "\<forall>k\<in>set xs. x < k" using assms x by (auto simp: rb_inv_def)
  then show ?thesis using False by (auto simp: RB_MIN_eq x rb_keys_def)
qed

section \<open>The interface used by the section table\<close>

text \<open>
  What \<open>elf_scn.c\<close> needs from the tree: a finite set of indexes with insertion, removal, neighbours,
  least and greatest element. The lemmas are about the tables it builds, whose
  indexes are the numbers below the number of sections.
\<close>

locale section_index =
  fixes inv :: "'t \<Rightarrow> bool"
    and keys :: "'t \<Rightarrow> nat set"
    and empty :: 't
    and ins :: "'t \<Rightarrow> nat \<Rightarrow> ('t \<times> bool) option"
    and del :: "'t \<Rightarrow> nat \<Rightarrow> 't option"
    and succ :: "'t \<Rightarrow> nat \<Rightarrow> nat option option"
    and least :: "'t \<Rightarrow> nat option"
    and greatest :: "'t \<Rightarrow> nat option"
  assumes inv_empty: "inv empty"
    and keys_empty: "keys empty = {}"
    and ins_new: "inv t \<Longrightarrow> n \<notin> keys t \<Longrightarrow>
      \<exists>t'. ins t n = Some (t', True) \<and> inv t' \<and> keys t' = insert n (keys t)"
    and ins_old: "inv t \<Longrightarrow> n \<in> keys t \<Longrightarrow> ins t n = Some (t, False)"
    and del_key: "inv t \<Longrightarrow> n \<in> keys t \<Longrightarrow>
      \<exists>t'. del t n = Some t' \<and> inv t' \<and> keys t' = keys t - {n}"
    and succ_Some: "inv t \<Longrightarrow> n \<in> keys t \<Longrightarrow>
      succ t n = Some (Some m) \<longleftrightarrow> m \<in> keys t \<and> n < m \<and> (\<forall>k\<in>keys t. n < k \<longrightarrow> m \<le> k)"
    and succ_None: "inv t \<Longrightarrow> n \<in> keys t \<Longrightarrow> succ t n = Some None \<longleftrightarrow> (\<forall>k\<in>keys t. k \<le> n)"
    and least_Some: "inv t \<Longrightarrow> least t = Some m \<longleftrightarrow> m \<in> keys t \<and> (\<forall>k\<in>keys t. m \<le> k)"
    and greatest_Some: "inv t \<Longrightarrow> greatest t = Some m \<longleftrightarrow> m \<in> keys t \<and> (\<forall>k\<in>keys t. k \<le> m)"
begin

definition dense :: "'t \<Rightarrow> nat \<Rightarrow> bool" where
  "dense t n \<longleftrightarrow> inv t \<and> keys t = {..<n}"

lemma dense_empty: "dense empty 0"
  by (simp add: dense_def inv_empty keys_empty)

lemma dense_insert:
  assumes "dense t n"
  obtains t' where "ins t n = Some (t', True)" "dense t' (Suc n)"
proof -
  have "inv t" "n \<notin> keys t" using assms by (auto simp: dense_def)
  from ins_new[OF this] obtain t' where
    "ins t n = Some (t', True)" "inv t'" "keys t' = insert n (keys t)" by blast
  moreover have "insert n (keys t) = {..<Suc n}" using assms by (simp add: dense_def lessThan_Suc)
  ultimately show thesis using that by (simp add: dense_def)
qed

lemma dense_succ:
  assumes "dense t n" "k < n"
  shows "succ t k = Some (if Suc k < n then Some (Suc k) else None)"
proof -
  have t: "inv t" "k \<in> keys t" using assms by (auto simp: dense_def)
  show ?thesis
  proof (cases "Suc k < n")
    case True
    then show ?thesis using succ_Some[OF t, of "Suc k"] assms(1) by (auto simp: dense_def)
  next
    case False
    then show ?thesis using succ_None[OF t] assms(1) by (auto simp: dense_def)
  qed
qed

lemma dense_bounds:
  assumes "dense t (Suc n)"
  shows "least t = Some 0" "greatest t = Some n"
  using assms by (auto simp: dense_def least_Some greatest_Some)

lemma singleton_bounds: "inv t \<Longrightarrow> keys t = {k} \<Longrightarrow> least t = Some k \<and> greatest t = Some k"
  by (simp add: least_Some greatest_Some)

text \<open>Following \<open>succ\<close> a number of times.\<close>

primrec follow :: "nat \<Rightarrow> 't \<Rightarrow> nat \<Rightarrow> nat list option" where
  "follow 0 t k = Some []"
| "follow (Suc i) t k =
     (case succ t k of None \<Rightarrow> None | Some None \<Rightarrow> Some []
      | Some (Some m) \<Rightarrow> map_option (Cons m) (follow i t m))"

lemma follow_dense:
  "dense t n \<Longrightarrow> k < n \<Longrightarrow> follow i t k = Some (take i [Suc k..<n])"
proof (induction i arbitrary: k)
  case 0
  then show ?case by simp
next
  case (Suc i)
  show ?case
  proof (cases "Suc k < n")
    case True
    then show ?thesis using Suc by (simp add: dense_succ upt_conv_Cons)
  next
    case False
    then show ?thesis using Suc.prems by (simp add: dense_succ)
  qed
qed

end

interpretation scn: section_index rb_inv rb_keys RB_NULL RB_INSERT RB_REMOVE RB_NEXT RB_MIN RB_MAX
proof
  show "rb_inv RB_NULL" "rb_keys RB_NULL = {}" by (simp_all add: rb_inv_def rb_keys_def)
qed ((rule RB_INSERT_new RB_INSERT_old RB_REMOVE_ok RB_NEXT_Some RB_NEXT_None RB_MIN_Some
      RB_MAX_Some; assumption)+)

section \<open>Height\<close>

primrec rb_height :: "scntree \<Rightarrow> nat" where
  "rb_height RB_NULL = 0"
| "rb_height (RB_NODE l c k r) = Suc (max (rb_height l) (rb_height r))"

lemma height_black:
  "no_red_red t \<Longrightarrow> balanced t \<Longrightarrow> rb_height t \<le> 2 * black_height t + (if rb_is_red t then 1 else 0)"
proof (induction t)
  case RB_NULL
  then show ?case by simp
next
  case (RB_NODE l c k r)
  then show ?case by (cases c; cases "rb_is_red l"; cases "rb_is_red r") auto
qed

lemma size_black: "balanced t \<Longrightarrow> 2 ^ black_height t \<le> Suc (length (inorder t))"
proof (induction t)
  case RB_NULL
  then show ?case by simp
next
  case (RB_NODE l c k r)
  have "2 ^ black_height l \<le> Suc (length (inorder l))" "2 ^ black_height l \<le> Suc (length (inorder r))"
    using RB_NODE by auto
  then show ?case by (cases c) auto
qed

section \<open>Properties\<close>

text \<open>
  C17. Insertion into the section tree: given a tree that satisfies the invariant (ordered, no red
  node with a red child, the same number of black nodes on every path, black root),
  \<open>RB_INSERT\<close> never dereferences a \<open>NULL\<close> pointer; a new index is added and the invariant
  re-established by the recolourings and rotations, an index already present changes nothing.
\<close>

theorem rb_insert_correct:
  assumes "rb_inv t"
  shows "\<exists>t' fresh. RB_INSERT t n = Some (t', fresh) \<and> rb_inv t' \<and> rb_keys t' = insert n (rb_keys t)
    \<and> (fresh \<longleftrightarrow> n \<notin> rb_keys t) \<and> (\<not> fresh \<longrightarrow> t' = t)"
proof (cases "n \<in> rb_keys t")
  case True
  then show ?thesis using assms scn.ins_old[OF assms True] by auto
next
  case False
  then show ?thesis using scn.ins_new[OF assms False] by auto
qed

theorem rb_insert_correct_witness:
  "\<exists>t' fresh. RB_INSERT (RB_NODE RB_NULL RB_BLACK 4 RB_NULL) 2 = Some (t', fresh) \<and> rb_inv t'
     \<and> rb_keys t' = {2, 4}"
proof -
  have "rb_inv (RB_NODE RB_NULL RB_BLACK 4 RB_NULL)" by (simp add: rb_inv_def)
  then show ?thesis
    using rb_insert_correct[of "RB_NODE RB_NULL RB_BLACK 4 RB_NULL" 2]
    by (auto simp: rb_keys_def insert_commute)
qed

text \<open>
  C18. Removal from the section tree: for an index in the tree \<open>RB_REMOVE\<close>, with the loop of
  \<open>RB_REMOVE_COLOR\<close>, terminates without dereferencing a \<open>NULL\<close> pointer, takes out exactly that
  index and keeps the red-black invariant.
\<close>

theorem rb_remove_correct:
  assumes "rb_inv t" "n \<in> rb_keys t"
  shows "\<exists>t'. RB_REMOVE t n = Some t' \<and> rb_inv t' \<and> rb_keys t' = rb_keys t - {n}"
  using assms by (rule scn.del_key)

theorem rb_remove_correct_witness:
  "\<exists>t'. RB_REMOVE (RB_NODE (RB_NODE RB_NULL RB_BLACK 1 RB_NULL) RB_BLACK 2
             (RB_NODE RB_NULL RB_BLACK 3 RB_NULL)) 2 = Some t' \<and> rb_inv t' \<and> rb_keys t' = {1, 3}"
proof -
  let ?t = "RB_NODE (RB_NODE RB_NULL RB_BLACK 1 RB_NULL) RB_BLACK 2 (RB_NODE RB_NULL RB_BLACK 3 RB_NULL)"
  have "rb_inv ?t" "2 \<in> rb_keys ?t" by (simp_all add: rb_inv_def rb_keys_def)
  moreover have "rb_keys ?t - {2} = {1, 3}" by (auto simp: rb_keys_def)
  ultimately show ?thesis using rb_remove_correct[of ?t 2] by simp
qed

text \<open>
  Enumeration: from a section in the tree \<open>RB_NEXT\<close> leads to the section with the
  next larger index, and returns \<open>NULL\<close> exactly at the section with the largest one.
\<close>

theorem rb_next_correct:
  assumes "rb_inv t" "n \<in> rb_keys t"
  shows "\<exists>r. RB_NEXT t n = Some r
    \<and> (r = None \<longleftrightarrow> (\<forall>k\<in>rb_keys t. k \<le> n))
    \<and> (\<forall>m. r = Some m \<longrightarrow> m \<in> rb_keys t \<and> n < m \<and> (\<forall>k\<in>rb_keys t. n < k \<longrightarrow> m \<le> k))"
  using scn.succ_Some[OF assms] scn.succ_None[OF assms] locate_next[OF assms] by auto

theorem rb_next_correct_witness:
  "\<exists>r. RB_NEXT (RB_NODE (RB_NODE RB_NULL RB_RED 1 RB_NULL) RB_BLACK 7 RB_NULL) 1 = Some r
     \<and> (r = None \<longleftrightarrow> (\<forall>k\<in>{1, 7 :: nat}. k \<le> 1))"
proof -
  let ?t = "RB_NODE (RB_NODE RB_NULL RB_RED 1 RB_NULL) RB_BLACK 7 RB_NULL"
  have "rb_inv ?t" "1 \<in> rb_keys ?t" "rb_keys ?t = {1, 7}"
    by (auto simp: rb_inv_def rb_keys_def)
  then show ?thesis using rb_next_correct[of ?t 1] by auto
qed

text \<open>
  A history of the tree: insertions and removals in any order, a removal being preceded by
  the search for its section as the library does it. \<open>set_run\<close> is the same history on a set of indices.
\<close>

datatype tree_op = Insert_op nat | Remove_op nat

fun tree_step :: "tree_op \<Rightarrow> scntree \<Rightarrow> scntree option" where
  "tree_step (Insert_op n) t = map_option fst (RB_INSERT t n)"
| "tree_step (Remove_op n) t = (if RB_FIND t n then RB_REMOVE t n else Some t)"

primrec tree_run :: "tree_op list \<Rightarrow> scntree \<Rightarrow> scntree option" where
  "tree_run [] t = Some t"
| "tree_run (x # xs) t = do { t \<leftarrow> tree_step x t; tree_run xs t }"

fun set_step :: "tree_op \<Rightarrow> nat set \<Rightarrow> nat set" where
  "set_step (Insert_op n) S = insert n S"
| "set_step (Remove_op n) S = S - {n}"

definition set_run :: "tree_op list \<Rightarrow> nat set \<Rightarrow> nat set" where
  "set_run xs S = fold set_step xs S"

lemma rb_inv_FIND: "rb_inv t \<Longrightarrow> RB_FIND t n \<longleftrightarrow> n \<in> rb_keys t"
  by (simp add: RB_FIND_iff rb_inv_def)

lemma tree_step_ok:
  assumes "rb_inv t"
  obtains t' where "tree_step x t = Some t'" "rb_inv t'" "rb_keys t' = set_step x (rb_keys t)"
proof (cases x)
  case (Insert_op n)
  then show thesis
    using that RB_INSERT_new[OF assms, of n] RB_INSERT_old[OF assms, of n] assms
    by (cases "n \<in> rb_keys t") (auto simp: insert_absorb)
next
  case (Remove_op n)
  then show thesis
    using that RB_REMOVE_ok[OF assms, of n] assms
    by (cases "n \<in> rb_keys t") (auto simp: rb_inv_FIND)
qed

lemma tree_run_ok:
  "rb_inv t \<Longrightarrow> \<exists>t'. tree_run xs t = Some t' \<and> rb_inv t' \<and> rb_keys t' = set_run xs (rb_keys t)"
proof (induction xs arbitrary: t)
  case Nil
  then show ?case by (simp add: set_run_def)
next
  case (Cons x xs)
  from Cons.prems obtain t1 where t1: "tree_step x t = Some t1" "rb_inv t1"
    "rb_keys t1 = set_step x (rb_keys t)" by (rule tree_step_ok)
  show ?case using Cons.IH[OF t1(2)] t1(1,3) by (simp add: set_run_def)
qed

lemma inorder_keys: "rb_inv t \<Longrightarrow> inorder t = sorted_list_of_set (rb_keys t)"
  by (simp add: rb_inv_def rb_keys_def strict_sorted_iff sorted_list_of_set.idem_if_sorted_distinct)

lemma rb_height_bound:
  assumes "rb_inv t"
  shows "2 ^ rb_height t \<le> (Suc (card (rb_keys t)))\<^sup>2"
proof -
  have "distinct (inorder t)" using assms by (auto simp: rb_inv_def strict_sorted_iff)
  then have c: "card (rb_keys t) = length (inorder t)" by (simp add: rb_keys_def distinct_card)
  have "rb_height t \<le> 2 * black_height t"
    using height_black[of t] assms by (simp add: rb_inv_def)
  then have "(2 :: nat) ^ rb_height t \<le> 2 ^ (2 * black_height t)" by (rule power_increasing) simp
  also have "\<dots> = (2 ^ black_height t)\<^sup>2" by (simp add: power_mult mult.commute[of 2])
  also have "\<dots> \<le> (Suc (card (rb_keys t)))\<^sup>2"
    using size_black[of t] assms unfolding c by (intro power_mono) (simp_all add: rb_inv_def)
  finally show ?thesis .
qed

text \<open>
  C35. Any history of the section tree: whatever indices are inserted and removed, in whatever order, starting
  with the empty tree, \<open>RB_INSERT\<close> and \<open>RB_REMOVE\<close> never dereference a \<open>NULL\<close> pointer; the
  tree then holds, in ascending order, exactly the indices the same history leaves in a set,
  \<open>RB_FIND\<close> answers accordingly, and the height \<open>h\<close> of a tree of \<open>n\<close> sections satisfies
  \<open>2 ^ h \<le> (n + 1)\<^sup>2\<close>: no descent takes more than \<open>2 * log2 (n + 1)\<close> steps.
\<close>

theorem tree_history_correct:
  "\<exists>t. tree_run xs RB_NULL = Some t
     \<and> inorder t = sorted_list_of_set (set_run xs {})
     \<and> (\<forall>n. RB_FIND t n \<longleftrightarrow> n \<in> set_run xs {})
     \<and> 2 ^ rb_height t \<le> (Suc (card (set_run xs {})))\<^sup>2"
proof -
  have "rb_inv RB_NULL" "rb_keys RB_NULL = {}" by (simp_all add: rb_inv_def rb_keys_def)
  then obtain t where "tree_run xs RB_NULL = Some t" "rb_inv t" "rb_keys t = set_run xs {}"
    using tree_run_ok[of RB_NULL xs] by auto
  then show ?thesis using inorder_keys[of t] rb_inv_FIND[of t] rb_height_bound[of t] by auto
qed

end
