(* ===== verification/Elf_State.thy ===== *)
theory Elf_State
  imports Elf_Convert Scn_Tree
begin

text \<open>
  The state of the library: the globals of \<open>struct _libelf_globals\<close>, the descriptors of
  \<open>_libelf.h\<close> as records, the memory, and the descriptors that exist. Then the services every
  other part uses: errors, versions, kinds, flags, sizes, allocation, and translation of
  data buffers.

  An \<open>Elf *\<close> is the number of a descriptor in \<open>elfs\<close>, an \<open>Elf_Scn *\<close> a descriptor and the index of
  the section in its tree; \<open>NULL\<close> is \<open>None\<close>. The tree of a descriptor holds the section
  indexes, \<open>e_scns\<close> what the nodes carry. The two members of the union \<open>e_u\<close> are separate fields.
\<close>

section \<open>Descriptors\<close>

text \<open>Pointers to headers: a union of the pointers of the two classes, so tagged with the class.\<close>

datatype ehdr = Eh32 Elf32_Ehdr | Eh64 Elf64_Ehdr
datatype phdrs = Ph32 "Elf32_Phdr list" | Ph64 "Elf64_Phdr list"
datatype shdr = Sh32 Elf32_Shdr | Sh64 Elf64_Shdr

record Elf_Data =
  d_align :: u64
  d_buf :: "ptr option"
  d_off :: u64
  d_size :: u64
  d_type :: Elf_Type
  d_version :: u32

record Libelf_Data =
  d_data :: Elf_Data
  d_flags :: u32

record Elf_Scn =
  s_shdr :: shdr
  s_data :: "Libelf_Data list"
  s_rawdata :: "Libelf_Data list"
  s_flags :: u32
  s_ndx :: nat
  s_offset :: u64
  s_rawoff :: u64
  s_size :: u64

record Elf_Arhdr =
  ar_date :: u64
  ar_name :: bytes
  ar_gid :: u64
  ar_mode :: u64
  ar_rawname :: bytes
  ar_size :: u64
  ar_uid :: u64
  ar_flags :: u32

record Elf_Arsym =
  as_off :: u64
  as_hash :: u64
  as_name :: "ptr option"

datatype e_hdr_union = HDR_NULL | HDR_ARHDR Elf_Arhdr | HDR_RAWHDR ptr

record Elf =
  e_activations :: int
  e_byteorder :: u32
  e_class :: int
  e_cmd :: Elf_Cmd
  e_fd :: int
  e_flags :: u32
  e_kind :: Elf_Kind
  e_parent :: "nat option"
  e_rawfile :: "ptr option"
  e_rawsize :: u64
  e_version :: u32
  e_hdr :: e_hdr_union
  e_next :: u64
  e_nchildren :: int
  e_rawstrtab :: "ptr option"
  e_rawstrtabsz :: u64
  e_rawsymtab :: "ptr option"
  e_rawsymtabsz :: u64
  e_symtab :: "Elf_Arsym list option"
  e_symtabsz :: u64
  e_ehdr :: "ehdr option"
  e_phdr :: "phdrs option"
  e_scn :: scntree
  e_scns :: "nat \<Rightarrow> Elf_Scn option"
  e_nphdr :: u64
  e_nscn :: u64
  e_strndx :: u64

text \<open>
  \<open>malloc_ok i\<close> says whether the \<open>i\<close>-th allocation succeeds. \<open>libelf_error\<close> is the \<open>int\<close> of the
  code, as its bits.
\<close>

record libelf_state =
  libelf_byteorder :: u32
  libelf_error :: u32
  libelf_fillchar :: int
  libelf_version :: u32
  heap :: heap
  next_buf :: nat
  elfs :: "nat \<Rightarrow> Elf option"
  next_elf :: nat
  malloc_ok :: "nat \<Rightarrow> bool"
  mallocs :: nat

abbreviation "LIBELF_F_API_MASK \<equiv> (0xFFFF :: u32)"
abbreviation "LIBELF_F_AR_HEADER \<equiv> (0x010000 :: u32)"
abbreviation "LIBELF_F_AR_VARIANT_SVR4 \<equiv> (0x020000 :: u32)"
abbreviation "LIBELF_F_DATA_MALLOCED \<equiv> (0x040000 :: u32)"
abbreviation "LIBELF_F_RAWFILE_MALLOC \<equiv> (0x080000 :: u32)"
abbreviation "LIBELF_F_RAWFILE_MMAP \<equiv> (0x100000 :: u32)"
abbreviation "LIBELF_F_SHDRS_LOADED \<equiv> (0x200000 :: u32)"
abbreviation "LIBELF_F_SPECIAL_FILE \<equiv> (0x400000 :: u32)"

abbreviation "ELF_F_LAYOUT \<equiv> (0x001 :: u32)"
abbreviation "ELF_F_DIRTY \<equiv> (0x002 :: u32)"
abbreviation "ELF_F_ARCHIVE \<equiv> (0x100 :: u32)"
abbreviation "ELF_F_ARCHIVE_SYSV \<equiv> (0x200 :: u32)"

text \<open>\<open>ENOMEM\<close>, what \<open>errno\<close> is after a failed allocation.\<close>

abbreviation "ENOMEM \<equiv> (12 :: u32)"

definition host_order :: "libelf_state \<Rightarrow> endian" where
  "host_order st = (if libelf_byteorder st = ELFDATA2LSB then LSB else MSB)"

text \<open>\<open>LIBELF_SET_ERROR(E, O)\<close>\<close>

definition set_error :: "Elf_Error \<Rightarrow> u32 \<Rightarrow> libelf_state \<Rightarrow> libelf_state" where
  "set_error e os st =
     st\<lparr>libelf_error := (elf_error_code e AND 0xFF) OR push_bit 8 os\<rparr>"

definition get_elf :: "libelf_state \<Rightarrow> nat \<Rightarrow> Elf option" where
  "get_elf st e = elfs st e"

definition put_elf :: "nat \<Rightarrow> Elf \<Rightarrow> libelf_state \<Rightarrow> libelf_state" where
  "put_elf e r st = st\<lparr>elfs := (elfs st)(e \<mapsto> r)\<rparr>"

lemma elf_store_simps [simp]:
  "get_elf (put_elf e r st) e = Some r"
  "e \<noteq> e' \<Longrightarrow> get_elf (put_elf e r st) e' = get_elf st e'"
  "get_elf (set_error er os st) e = get_elf st e"
  "heap (put_elf e r st) = heap st" "heap (set_error er os st) = heap st"
  "libelf_byteorder (put_elf e r st) = libelf_byteorder st"
  "libelf_byteorder (set_error er os st) = libelf_byteorder st"
  "libelf_version (put_elf e r st) = libelf_version st"
  "libelf_version (set_error er os st) = libelf_version st"
  "libelf_error (put_elf e r st) = libelf_error st"
  "host_order (put_elf e r st) = host_order st" "host_order (set_error er os st) = host_order st"
  "put_elf e r (put_elf e r' st) = put_elf e r st"
  by (simp_all add: get_elf_def put_elf_def set_error_def host_order_def)

section \<open>Errors: \<open>elf_errno.c\<close>, \<open>elf_errmsg.c\<close>\<close>

definition elf_errno :: "libelf_state \<Rightarrow> u32 \<times> libelf_state" where
  "elf_errno st = (libelf_error st AND 0xFF, st\<lparr>libelf_error := 0\<rparr>)"

definition libelf_errors :: "string list" where
  "libelf_errors =
     [''No Error'', ''Malformed ar(1) archive'', ''Invalid argument'', ''ELF class mismatch'',
      ''Invalid data buffer descriptor'', ''Missing or malformed ELF header'', ''I/O error'',
      ''Layout constraint violation'', ''Incorrect ELF descriptor mode'',
      ''Value out of range of target'', ''Resource exhaustion'', ''Invalid section descriptor'',
      ''API calls out of sequence'', ''Unimplemented feature'', ''Unknown ELF API version'',
      ''Unknown error'']"

text \<open>
  \<open>strerror\<close> is that of the C library. The message buffer has \<open>LIBELF_MSG_SIZE\<close> = 256 bytes with the
  terminator. \<open>>>\<close> on the \<open>int\<close> is arithmetic.
\<close>

definition elf_errmsg :: "(int \<Rightarrow> string) \<Rightarrow> libelf_state \<Rightarrow> u32 \<Rightarrow> string option" where
  "elf_errmsg strerror st err =
     (if err = 0 \<and> libelf_error st = 0 then None
      else
        let err = (if err = 0 \<or> err = - 1 then libelf_error st else err);
            oserr = signed_drop_bit 8 err;
            code = unat (err AND 0xFF)
        in Some (
          if 15 \<le> code then libelf_errors ! 15
          else if oserr \<noteq> 0
            then take 255 (libelf_errors ! code @ '': '' @ strerror (sint oserr))
          else libelf_errors ! code))"

section \<open>Version, fill character, kind and class\<close>

definition elf_version :: "libelf_state \<Rightarrow> u32 \<Rightarrow> u32 \<times> libelf_state" where
  "elf_version st v =
     (let old = (if libelf_version st = EV_NONE then EV_CURRENT else libelf_version st)
      in if v = EV_NONE then (old, st)
         else if v > EV_CURRENT then (EV_NONE, set_error ELF_E_VERSION 0 st)
         else (old, st\<lparr>libelf_version := v\<rparr>))"

definition elf_fill :: "libelf_state \<Rightarrow> int \<Rightarrow> libelf_state" where
  "elf_fill st fill = st\<lparr>libelf_fillchar := fill\<rparr>"

definition elf_kind :: "Elf option \<Rightarrow> Elf_Kind" where
  "elf_kind e =
     (case e of None \<Rightarrow> ELF_K_NONE
      | Some e \<Rightarrow> if e_kind e = ELF_K_AR \<or> e_kind e = ELF_K_ELF then e_kind e else ELF_K_NONE)"

definition gelf_getclass :: "Elf option \<Rightarrow> int" where
  "gelf_getclass e = (case e of None \<Rightarrow> ELFCLASSNONE | Some e \<Rightarrow> e_class e)"

section \<open>The hash function: \<open>elf_hash.c\<close>\<close>

text \<open>\<open>unsigned long\<close> has 64 bits. The argument is the name without its terminator.\<close>

definition elf_hash_step :: "u64 \<Rightarrow> u8 \<Rightarrow> u64" where
  "elf_hash_step h c =
     (let h = push_bit 4 h + ucast c;
          t = h AND 0xF0000000;
          h = (if t \<noteq> 0 then h XOR drop_bit 24 t else h)
      in h AND NOT t)"

definition elf_hash :: "bytes \<Rightarrow> u64" where
  "elf_hash name = foldl elf_hash_step 0 name"

section \<open>Flags: \<open>elf_flag.c\<close>\<close>

definition flag_update :: "Elf_Cmd \<Rightarrow> u32 \<Rightarrow> u32 \<Rightarrow> u32" where
  "flag_update c old flags = (if c = ELF_C_SET then old OR flags else old AND NOT flags)"

definition elf_flagarhdr ::
  "libelf_state \<Rightarrow> Elf_Arhdr option \<Rightarrow> Elf_Cmd \<Rightarrow> u32 \<Rightarrow> u32 \<times> Elf_Arhdr option \<times> libelf_state" where
  "elf_flagarhdr st a c flags =
     (case a of None \<Rightarrow> (0, None, st)
      | Some a \<Rightarrow>
          if (c \<noteq> ELF_C_SET \<and> c \<noteq> ELF_C_CLR) \<or> flags AND NOT ELF_F_DIRTY \<noteq> 0
          then (0, Some a, set_error ELF_E_ARGUMENT 0 st)
          else let r = flag_update c (ar_flags a) flags
               in (r AND LIBELF_F_API_MASK, Some (a\<lparr>ar_flags := r\<rparr>), st))"

definition elf_flagdata ::
  "libelf_state \<Rightarrow> Libelf_Data option \<Rightarrow> Elf_Cmd \<Rightarrow> u32 \<Rightarrow> u32 \<times> Libelf_Data option \<times> libelf_state" where
  "elf_flagdata st d c flags =
     (case d of None \<Rightarrow> (0, None, st)
      | Some d \<Rightarrow>
          if (c \<noteq> ELF_C_SET \<and> c \<noteq> ELF_C_CLR) \<or> flags AND NOT ELF_F_DIRTY \<noteq> 0
          then (0, Some d, set_error ELF_E_ARGUMENT 0 st)
          else let r = flag_update c (d_flags d) flags
               in (r AND LIBELF_F_API_MASK, Some (d\<lparr>d_flags := r\<rparr>), st))"

definition elf_flagelf ::
  "libelf_state \<Rightarrow> nat option \<Rightarrow> Elf_Cmd \<Rightarrow> u32 \<Rightarrow> (u32 \<times> libelf_state) option" where
  "elf_flagelf st e c flags =
     (case e of None \<Rightarrow> Some (0, st)
      | Some i \<Rightarrow> do {
          e \<leftarrow> get_elf st i;
          Some (
            if (c \<noteq> ELF_C_SET \<and> c \<noteq> ELF_C_CLR) \<or> e_kind e \<noteq> ELF_K_ELF
               \<or> flags AND NOT (ELF_F_ARCHIVE OR ELF_F_ARCHIVE_SYSV OR ELF_F_DIRTY OR ELF_F_LAYOUT) \<noteq> 0
            then (0, set_error ELF_E_ARGUMENT 0 st)
            else if flags AND ELF_F_ARCHIVE_SYSV \<noteq> 0 \<and> flags AND ELF_F_ARCHIVE = 0
            then (0, set_error ELF_E_ARGUMENT 0 st)
            else if flags AND ELF_F_ARCHIVE \<noteq> 0 \<and> e_cmd e \<noteq> ELF_C_WRITE
            then (0, set_error ELF_E_MODE 0 st)
            else let r = flag_update c (e_flags e) flags
                 in (r AND LIBELF_F_API_MASK, put_elf i (e\<lparr>e_flags := r\<rparr>) st)) })"

definition elf_flagehdr ::
  "libelf_state \<Rightarrow> nat option \<Rightarrow> Elf_Cmd \<Rightarrow> u32 \<Rightarrow> (u32 \<times> libelf_state) option" where
  "elf_flagehdr st e c flags =
     (case e of None \<Rightarrow> Some (0, st)
      | Some i \<Rightarrow> do {
          e \<leftarrow> get_elf st i;
          (if (c \<noteq> ELF_C_SET \<and> c \<noteq> ELF_C_CLR) \<or> e_kind e \<noteq> ELF_K_ELF
              \<or> flags AND NOT ELF_F_DIRTY \<noteq> 0
              \<or> (e_class e \<noteq> ELFCLASS32 \<and> e_class e \<noteq> ELFCLASS64)
           then Some (0, set_error ELF_E_ARGUMENT 0 st)
           else if e_ehdr e = None then Some (0, set_error ELF_E_SEQUENCE 0 st)
           else elf_flagelf st (Some i) c flags) })"

definition elf_flagphdr ::
  "libelf_state \<Rightarrow> nat option \<Rightarrow> Elf_Cmd \<Rightarrow> u32 \<Rightarrow> (u32 \<times> libelf_state) option" where
  "elf_flagphdr st e c flags =
     (case e of None \<Rightarrow> Some (0, st)
      | Some i \<Rightarrow> do {
          e \<leftarrow> get_elf st i;
          (if (c \<noteq> ELF_C_SET \<and> c \<noteq> ELF_C_CLR) \<or> e_kind e \<noteq> ELF_K_ELF
              \<or> flags AND NOT ELF_F_DIRTY \<noteq> 0
              \<or> (e_class e \<noteq> ELFCLASS32 \<and> e_class e \<noteq> ELFCLASS64)
           then Some (0, set_error ELF_E_ARGUMENT 0 st)
           else if e_phdr e = None then Some (0, set_error ELF_E_SEQUENCE 0 st)
           else elf_flagelf st (Some i) c flags) })"

definition elf_flagscn ::
  "libelf_state \<Rightarrow> Elf_Scn option \<Rightarrow> Elf_Cmd \<Rightarrow> u32 \<Rightarrow> u32 \<times> Elf_Scn option \<times> libelf_state" where
  "elf_flagscn st s c flags =
     (case s of None \<Rightarrow> (0, None, st)
      | Some s \<Rightarrow>
          if (c \<noteq> ELF_C_SET \<and> c \<noteq> ELF_C_CLR) \<or> flags AND NOT ELF_F_DIRTY \<noteq> 0
          then (0, Some s, set_error ELF_E_ARGUMENT 0 st)
          else let r = flag_update c (s_flags s) flags
               in (r AND LIBELF_F_API_MASK, Some (s\<lparr>s_flags := r\<rparr>), st))"

definition elf_flagshdr ::
  "libelf_state \<Rightarrow> Elf_Scn option \<Rightarrow> Elf_Cmd \<Rightarrow> u32 \<Rightarrow> u32 \<times> Elf_Scn option \<times> libelf_state" where
  "elf_flagshdr st s c flags = elf_flagscn st s c flags"

section \<open>Allocation: \<open>libelf_allocate.c\<close>\<close>

text \<open>
  A small object (a descriptor, a header) is allocated by \<open>c_alloc\<close>, which only says whether it
  succeeds; the object is a value. \<open>c_malloc\<close> makes a new buffer. Its contents, which C leaves
  unspecified, are zero bytes.
\<close>

definition c_alloc :: "libelf_state \<Rightarrow> bool \<times> libelf_state" where
  "c_alloc st = (malloc_ok st (mallocs st), st\<lparr>mallocs := Suc (mallocs st)\<rparr>)"

definition c_malloc :: "libelf_state \<Rightarrow> nat \<Rightarrow> ptr option \<times> libelf_state" where
  "c_malloc st n =
     (let (ok, st) = c_alloc st
      in if ok
         then (Some (next_buf st, 0),
               st\<lparr>heap := (heap st)(next_buf st \<mapsto> replicate n 0), next_buf := Suc (next_buf st)\<rparr>)
         else (None, st))"

definition c_free :: "libelf_state \<Rightarrow> ptr option \<Rightarrow> libelf_state" where
  "c_free st p = (case p of None \<Rightarrow> st | Some p \<Rightarrow> st\<lparr>heap := (heap st)(fst p := None)\<rparr>)"

text \<open>The result of \<open>calloc\<close> with the fields \<open>_libelf_allocate_elf\<close> sets.\<close>

definition initial_elf :: "u32 \<Rightarrow> Elf" where
  "initial_elf version =
     \<lparr>e_activations = 1, e_byteorder = ELFDATANONE, e_class = ELFCLASSNONE, e_cmd = ELF_C_NULL,
      e_fd = - 1, e_flags = 0, e_kind = ELF_K_NONE, e_parent = None, e_rawfile = None,
      e_rawsize = 0, e_version = version, e_hdr = HDR_NULL, e_next = 0, e_nchildren = 0,
      e_rawstrtab = None, e_rawstrtabsz = 0, e_rawsymtab = None, e_rawsymtabsz = 0,
      e_symtab = None, e_symtabsz = 0, e_ehdr = None, e_phdr = None, e_scn = RB_NULL,
      e_scns = Map.empty, e_nphdr = 0, e_nscn = 0, e_strndx = 0\<rparr>"

definition libelf_allocate_elf :: "libelf_state \<Rightarrow> nat option \<times> libelf_state" where
  "libelf_allocate_elf st =
     (let (ok, st) = c_alloc st
      in if ok
         then (Some (next_elf st),
               put_elf (next_elf st) (initial_elf (libelf_version st))
                 (st\<lparr>next_elf := Suc (next_elf st)\<rparr>))
         else (None, set_error ELF_E_RESOURCE ENOMEM st))"

definition libelf_init_elf :: "libelf_state \<Rightarrow> nat \<Rightarrow> Elf_Kind \<Rightarrow> libelf_state option" where
  "libelf_init_elf st i kind = do {
     e \<leftarrow> get_elf st i;
     c_assert (e_kind e = ELF_K_NONE);
     let e = e\<lparr>e_kind := kind\<rparr>;
     Some (put_elf i (if kind = ELF_K_ELF then e\<lparr>e_scn := RB_NULL, e_scns := Map.empty\<rparr> else e) st) }"

text \<open>
  The headers, the translated archive header and the archive symbol table live in the record,
  so that releasing it frees them.
\<close>

definition libelf_release_elf :: "libelf_state \<Rightarrow> nat \<Rightarrow> libelf_state option" where
  "libelf_release_elf st i = do {
     e \<leftarrow> get_elf st i;
     c_assert (e_kind e = ELF_K_ELF \<longrightarrow> e_scn e = RB_NULL);
     Some (st\<lparr>elfs := (elfs st)(i := None)\<rparr>) }"

definition zero_data :: Elf_Data where
  "zero_data = \<lparr>d_align = 0, d_buf = None, d_off = 0, d_size = 0, d_type = ELF_T_ADDR, d_version = 0\<rparr>"

definition libelf_allocate_data :: "libelf_state \<Rightarrow> Libelf_Data option \<times> libelf_state" where
  "libelf_allocate_data st =
     (let (ok, st) = c_alloc st
      in if ok then (Some \<lparr>d_data = zero_data, d_flags = 0\<rparr>, st)
         else (None, set_error ELF_E_RESOURCE 0 st))"

definition libelf_release_data :: "libelf_state \<Rightarrow> Libelf_Data \<Rightarrow> libelf_state" where
  "libelf_release_data st d =
     (if d_flags d AND LIBELF_F_DATA_MALLOCED \<noteq> 0 then c_free st (d_buf (d_data d)) else st)"

definition zero_shdr :: "int \<Rightarrow> shdr" where
  "zero_shdr ec =
     (if ec = ELFCLASS32
      then Sh32 \<lparr>sh_name32 = 0, sh_type32 = 0, sh_flags32 = 0, sh_addr32 = 0, sh_offset32 = 0,
             sh_size32 = 0, sh_link32 = 0, sh_info32 = 0, sh_addralign32 = 0, sh_entsize32 = 0\<rparr>
      else Sh64 \<lparr>sh_name = 0, sh_type = 0, sh_flags = 0, sh_addr = 0, sh_offset = 0, sh_size = 0,
             sh_link = 0, sh_info = 0, sh_addralign = 0, sh_entsize = 0\<rparr>)"

definition new_scn :: "int \<Rightarrow> nat \<Rightarrow> Elf_Scn" where
  "new_scn ec ndx =
     \<lparr>s_shdr = zero_shdr ec, s_data = [], s_rawdata = [], s_flags = 0, s_ndx = ndx,
      s_offset = 0, s_rawoff = 0, s_size = 0\<rparr>"

text \<open>
  The section returned is identified by its index. Were the index in the tree already, the C code
  would return a section that is not in the tree; the model has no such object and the
  result is \<open>None\<close>.
\<close>

definition libelf_allocate_scn ::
  "libelf_state \<Rightarrow> nat \<Rightarrow> nat \<Rightarrow> (nat option \<times> libelf_state) option" where
  "libelf_allocate_scn st i ndx = do {
     let (ok, st) = c_alloc st;
     if \<not> ok then Some (None, set_error ELF_E_RESOURCE ENOMEM st)
     else do {
       e \<leftarrow> get_elf st i;
       (t, fresh) \<leftarrow> RB_INSERT (e_scn e) ndx;
       c_assert fresh;
       Some (Some ndx,
         put_elf i (e\<lparr>e_scn := t, e_scns := (e_scns e)(ndx \<mapsto> new_scn (e_class e) ndx)\<rparr>) st) } }"

definition libelf_release_scn :: "libelf_state \<Rightarrow> nat \<Rightarrow> nat \<Rightarrow> libelf_state option" where
  "libelf_release_scn st i ndx = do {
     e \<leftarrow> get_elf st i;
     s \<leftarrow> e_scns e ndx;
     let st = foldl libelf_release_data st (s_data s);
     c_assert (\<forall>d\<in>set (s_rawdata s). d_flags d AND LIBELF_F_DATA_MALLOCED = 0);
     let st = foldl libelf_release_data st (s_rawdata s);
     t \<leftarrow> RB_REMOVE (e_scn e) ndx;
     Some (put_elf i (e\<lparr>e_scn := t, e_scns := (e_scns e)(ndx := None)\<rparr>) st) }"

section \<open>Machine and control: \<open>libelf_elfmachine.c\<close>, \<open>elf_cntl.c\<close>\<close>

definition libelf_elfmachine :: "Elf option \<Rightarrow> u16 option" where
  "libelf_elfmachine e =
     (case e of None \<Rightarrow> Some EM_NONE
      | Some e \<Rightarrow> do {
          c_assert (e_kind e = ELF_K_ELF);
          c_assert (e_class e \<noteq> ELFCLASSNONE);
          Some (case e_ehdr e of None \<Rightarrow> EM_NONE
                | Some (Eh32 h) \<Rightarrow> e_machine32 h | Some (Eh64 h) \<Rightarrow> e_machine h) })"

definition elf_cntl :: "libelf_state \<Rightarrow> nat option \<Rightarrow> Elf_Cmd \<Rightarrow> (int \<times> libelf_state) option" where
  "elf_cntl st e c =
     (case e of None \<Rightarrow> Some (- 1, set_error ELF_E_ARGUMENT 0 st)
      | Some i \<Rightarrow>
          if c \<noteq> ELF_C_FDDONE \<and> c \<noteq> ELF_C_FDREAD
          then Some (- 1, set_error ELF_E_ARGUMENT 0 st)
          else do {
            e \<leftarrow> get_elf st i;
            Some (
              if e_parent e \<noteq> None then (- 1, set_error ELF_E_ARCHIVE 0 st)
              else if c = ELF_C_FDREAD
              then (if e_cmd e = ELF_C_WRITE then (- 1, set_error ELF_E_MODE 0 st) else (0, st))
              else (0, put_elf i (e\<lparr>e_fd := - 1\<rparr>) st)) })"

section \<open>Sizes: \<open>_libelf_fsize\<close>, \<open>_libelf_msize\<close>, \<open>gelf_fsize.c\<close>\<close>

definition libelf_fsize ::
  "libelf_state \<Rightarrow> Elf_Type \<Rightarrow> int \<Rightarrow> u32 \<Rightarrow> u64 \<Rightarrow> u64 \<times> libelf_state" where
  "libelf_fsize st t ec v c =
     (if v \<noteq> EV_CURRENT then (0, set_error ELF_E_VERSION 0 st)
      else if \<not> elf_type_valid t then (0, set_error ELF_E_ARGUMENT 0 st)
      else let sz = of_nat (fsize_table (if ec = ELFCLASS64 then ELFCLASS64 else ELFCLASS32) t)
           in (sz * c, if sz = 0 then set_error ELF_E_UNIMPL 0 st else st))"

definition elf32_fsize :: "libelf_state \<Rightarrow> Elf_Type \<Rightarrow> u64 \<Rightarrow> u32 \<Rightarrow> u64 \<times> libelf_state" where
  "elf32_fsize st t c v = libelf_fsize st t ELFCLASS32 v c"

definition elf64_fsize :: "libelf_state \<Rightarrow> Elf_Type \<Rightarrow> u64 \<Rightarrow> u32 \<Rightarrow> u64 \<times> libelf_state" where
  "elf64_fsize st t c v = libelf_fsize st t ELFCLASS64 v c"

definition gelf_fsize ::
  "libelf_state \<Rightarrow> Elf option \<Rightarrow> Elf_Type \<Rightarrow> u64 \<Rightarrow> u32 \<Rightarrow> u64 \<times> libelf_state" where
  "gelf_fsize st e t c v =
     (case e of None \<Rightarrow> (0, set_error ELF_E_ARGUMENT 0 st)
      | Some e \<Rightarrow>
          if e_class e = ELFCLASS32 \<or> e_class e = ELFCLASS64 then libelf_fsize st t (e_class e) v c
          else (0, set_error ELF_E_ARGUMENT 0 st))"

definition libelf_msize ::
  "libelf_state \<Rightarrow> Elf_Type \<Rightarrow> int \<Rightarrow> u32 \<Rightarrow> (u64 \<times> libelf_state) option" where
  "libelf_msize st t ec version = do {
     c_assert (ec = ELFCLASS32 \<or> ec = ELFCLASS64);
     c_assert (elf_type_valid t);
     Some (if version \<noteq> EV_CURRENT then (0, set_error ELF_E_VERSION 0 st)
       else let sz = of_nat (msize_table ec t)
            in if sz = 0 then (0, set_error ELF_E_UNIMPL 0 st) else (sz, st)) }"

section \<open>Section types: \<open>libelf_data.c\<close>\<close>

definition libelf_xlate_shtype :: "u32 \<Rightarrow> Elf_Type" where
  "libelf_xlate_shtype sht =
     (if sht = SHT_DYNAMIC then ELF_T_DYN
      else if sht = SHT_DYNSYM then ELF_T_SYM
      else if sht = SHT_FINI_ARRAY then ELF_T_ADDR
      else if sht = SHT_GNU_HASH then ELF_T_GNUHASH
      else if sht = SHT_GNU_LIBLIST then ELF_T_WORD
      else if sht = SHT_GROUP then ELF_T_WORD
      else if sht = SHT_HASH then ELF_T_WORD
      else if sht = SHT_INIT_ARRAY then ELF_T_ADDR
      else if sht = SHT_NOBITS then ELF_T_BYTE
      else if sht = SHT_NOTE then ELF_T_NOTE
      else if sht = SHT_PREINIT_ARRAY then ELF_T_ADDR
      else if sht = SHT_PROGBITS then ELF_T_BYTE
      else if sht = SHT_REL then ELF_T_REL
      else if sht = SHT_RELA then ELF_T_RELA
      else if sht = SHT_STRTAB then ELF_T_BYTE
      else if sht = SHT_SYMTAB then ELF_T_SYM
      else if sht = SHT_SYMTAB_SHNDX then ELF_T_WORD
      else if sht = SHT_SUNW_dof then ELF_T_BYTE
      else if sht = SHT_SUNW_move then ELF_T_MOVE
      else if sht = SHT_SUNW_syminfo then ELF_T_SYMINFO
      else if sht = SHT_SUNW_verdef then ELF_T_VDEF
      else if sht = SHT_SUNW_verneed then ELF_T_VNEED
      else if sht = SHT_SUNW_versym then ELF_T_HALF
      else if sht \<ge> SHT_LOOS then ELF_T_BYTE
      else ELF_T_INVALID (- 1))"

section \<open>Translation of data buffers: \<open>libelf_xlate.c\<close>, \<open>gelf_xlate.c\<close>\<close>

text \<open>
  \<open>dst\<close> and \<open>src\<close> are the descriptors the pointers lead to, \<open>same\<close> says that the pointers are equal.
  The result is whether \<open>dst\<close> is returned (rather than \<open>NULL\<close>), \<open>dst\<close> as it is left, and the
  state. Buffers start at addresses that are multiples of 16, so the alignment of an address
  is that of its offset; windows in different buffers do not overlap.
\<close>

definition buffers_overlap :: "ptr \<Rightarrow> nat \<Rightarrow> ptr \<Rightarrow> nat \<Rightarrow> bool" where
  "buffers_overlap sb ssz db dsz \<longleftrightarrow>
     fst sb = fst db \<and> snd db \<noteq> snd sb \<and> snd db + dsz > snd sb \<and> snd sb + ssz > snd db"

text \<open>The part of \<open>_libelf_xlate\<close> that starts once the sizes are known.\<close>

definition xlate_sized ::
  "libelf_state \<Rightarrow> Elf_Data \<Rightarrow> Elf_Data \<Rightarrow> ptr \<Rightarrow> ptr \<Rightarrow> u64 \<Rightarrow> u64 \<Rightarrow> u32 \<Rightarrow> int \<Rightarrow> u16 \<Rightarrow> direction
   \<Rightarrow> (bool \<times> Elf_Data option \<times> libelf_state) option" where
  "xlate_sized st dst src db sb fsz msz encoding elfclass elfmachine dir =
     (if d_size src mod (if dir = ELF_TOMEMORY then fsz else msz) \<noteq> 0
      then Some (False, Some dst, set_error ELF_E_DATA 0 st)
      else
        let cnt = d_size src div (if dir = ELF_TOMEMORY then fsz else msz);
            dsz = cnt * (if dir = ELF_TOMEMORY then msz else fsz)
        in if d_size dst < dsz then Some (False, Some dst, set_error ELF_E_DATA 0 st)
           else if buffers_overlap sb (unat (d_size src)) db (unat (d_size dst))
           then Some (False, Some dst, set_error ELF_E_DATA 0 st)
           else if (if dir = ELF_TOMEMORY then snd db else snd sb)
                     mod libelf_malign (d_type src) elfclass \<noteq> 0
           then Some (False, Some dst, set_error ELF_E_DATA 0 st)
           else
             let dst = dst\<lparr>d_type := d_type src, d_size := dsz\<rparr>;
                 byteswap = (encoding \<noteq> libelf_byteorder st)
             in if d_size src = 0 \<or> (db = sb \<and> \<not> byteswap \<and> fsz = msz)
                then Some (True, Some dst, st)
                else do {
                  x \<leftarrow> libelf_get_translator (d_type src) dir elfclass elfmachine;
                  xlator \<leftarrow> x;
                  (h, ok) \<leftarrow> xlator (host_order st) (heap st) db dsz sb cnt byteswap;
                  let st = st\<lparr>heap := h\<rparr>;
                  Some (if ok then (True, Some dst, st)
                        else (False, Some dst, set_error ELF_E_DATA 0 st)) })"

definition libelf_xlate ::
  "libelf_state \<Rightarrow> Elf_Data option \<Rightarrow> Elf_Data option \<Rightarrow> bool \<Rightarrow> u32 \<Rightarrow> int \<Rightarrow> u16 \<Rightarrow> direction
   \<Rightarrow> (bool \<times> Elf_Data option \<times> libelf_state) option" where
  "libelf_xlate st dst src same encoding elfclass elfmachine dir =
     (let encoding = (if encoding = ELFDATANONE then libelf_byteorder st else encoding) in
      case (dst, src) of
        (Some dst, Some src) \<Rightarrow>
          if (encoding \<noteq> ELFDATA2LSB \<and> encoding \<noteq> ELFDATA2MSB) \<or> same
          then Some (False, Some dst, set_error ELF_E_ARGUMENT 0 st)
          else do {
            c_assert (elfclass = ELFCLASS32 \<or> elfclass = ELFCLASS64);
            if d_version dst \<noteq> d_version src then Some (False, Some dst, set_error ELF_E_UNIMPL 0 st)
            else case (d_buf src, d_buf dst) of
              (Some sb, Some db) \<Rightarrow>
                if \<not> elf_type_valid (d_type src) then Some (False, Some dst, set_error ELF_E_DATA 0 st)
                else do {
                  let (fsz, st) = (if elfclass = ELFCLASS32 then elf32_fsize else elf64_fsize)
                                    st (d_type src) 1 (d_version src);
                  if fsz = 0 then Some (False, Some dst, st)
                  else do {
                    (msz, st) \<leftarrow> libelf_msize st (d_type src) elfclass (d_version src);
                    if msz = 0 then Some (False, Some dst, st)
                    else xlate_sized st dst src db sb fsz msz encoding elfclass elfmachine dir } }
            | _ \<Rightarrow> Some (False, Some dst, set_error ELF_E_DATA 0 st) }
      | _ \<Rightarrow> Some (False, dst, set_error ELF_E_ARGUMENT 0 st))"

definition elf32_xlatetof where
  "elf32_xlatetof st dst src same encoding =
     libelf_xlate st dst src same encoding ELFCLASS32 EM_NONE ELF_TOFILE"

definition elf64_xlatetof where
  "elf64_xlatetof st dst src same encoding =
     libelf_xlate st dst src same encoding ELFCLASS64 EM_NONE ELF_TOFILE"

definition elf32_xlatetom where
  "elf32_xlatetom st dst src same encoding =
     libelf_xlate st dst src same encoding ELFCLASS32 EM_NONE ELF_TOMEMORY"

definition elf64_xlatetom where
  "elf64_xlatetom st dst src same encoding =
     libelf_xlate st dst src same encoding ELFCLASS64 EM_NONE ELF_TOMEMORY"

definition gelf_xlatetom where
  "gelf_xlatetom st e dst src same encoding =
     (case e of
        None \<Rightarrow> Some (False, dst, set_error ELF_E_ARGUMENT 0 st)
      | Some e \<Rightarrow> do {
          m \<leftarrow> libelf_elfmachine (Some e);
          libelf_xlate st dst src same encoding (e_class e) m ELF_TOMEMORY })"

definition gelf_xlatetof where
  "gelf_xlatetof st e dst src same encoding =
     (case e of
        None \<Rightarrow> Some (False, dst, set_error ELF_E_ARGUMENT 0 st)
      | Some e \<Rightarrow> do {
          m \<leftarrow> libelf_elfmachine (Some e);
          libelf_xlate st dst src same encoding (e_class e) m ELF_TOFILE })"

section \<open>Lemmas\<close>

lemma libelf_fsize_current [simp]:
  "elf_type_valid t \<Longrightarrow> fst (libelf_fsize st t ec EV_CURRENT c) =
     of_nat (fsize_table (if ec = ELFCLASS64 then ELFCLASS64 else ELFCLASS32) t) * c"
  by (simp add: libelf_fsize_def Let_def)

lemma set_error_fields [simp]:
  "elfs (set_error e os st) = elfs st" "malloc_ok (set_error e os st) = malloc_ok st"
  "libelf_fillchar (set_error e os st) = libelf_fillchar st"
  "next_buf (set_error e os st) = next_buf st" "next_elf (set_error e os st) = next_elf st"
  by (simp_all add: set_error_def)

lemma fsize_pos_iff:
  "0 < fsize_table ec t \<longleftrightarrow>
     byte_sized t \<or> (\<exists>ms. struct_def ec t = Some ms) \<or> (\<exists>f. prim_type ec t = Some f)"
  by (cases t) (auto simp: layout_simps)

lemma table_struct: "struct_def ec t = Some ms \<Longrightarrow>
  fsize_table ec t = FSZ ec ms \<and> msize_table ec t = sizeof_struct ec ms \<and> \<not> byte_sized t"
  by (cases t) (simp_all add: fsize_table_def msize_table_def byte_sized_def)

lemma table_prim: "prim_type ec t = Some f \<Longrightarrow>
  fsize_table ec t = field_size ec f \<and> msize_table ec t = field_size ec f \<and> \<not> byte_sized t
  \<and> struct_def ec t = None \<and> f \<noteq> IDENT"
  by (cases t) (auto simp: fsize_table_def msize_table_def byte_sized_def split: if_splits)

lemma msize_le_64: "msize_table ec t \<le> 64"
  by (cases t) (simp_all add: layout_simps div_Suc_Suc_0)

lemma msize_le_twice: "msize_table ec t \<le> 2 * fsize_table ec t"
  by (cases t) (simp_all add: layout_simps div_Suc_Suc_0)

lemma fsize_le_64: "fsize_table ec t \<le> 64"
  by (cases t) (simp_all add: layout_simps)

text \<open>Whatever the translator is, it stays in the windows \<open>_libelf_xlate\<close> has checked.\<close>

lemma translator_safe:
  assumes "cvt_table t dir ec = Some c"
    "window h db (unat cnt * (if dir = ELF_TOMEMORY then msize_table ec t else fsize_table ec t))"
    "window h sb (unat cnt * (if dir = ELF_TOMEMORY then fsize_table ec t else msize_table ec t))"
    "unat dsz = unat cnt * (if dir = ELF_TOMEMORY then msize_table ec t else fsize_table ec t)"
  shows "safe_res db (unat dsz) h (c host h db dsz sb cnt sw)"
proof -
  have k: "kept db (unat dsz) h h" using assms(2) unfolding assms(4)[symmetric] by (rule kept_refl)
  consider (b) "byte_sized t" | (s) ms where "struct_def ec t = Some ms" "\<not> byte_sized t"
    | (p) f where "prim_type ec t = Some f" "\<not> byte_sized t"
    using assms(1) by (cases t) (auto split: option.splits if_splits simp: byte_sized_def)
  then show ?thesis
  proof cases
    case b
    then have one: "fsize_table ec t = 1" "msize_table ec t = 1"
      by (auto simp: fsize_table_def msize_table_def)
    have le: "cnt \<le> dsz" using assms(4) one by (simp add: word_le_nat_alt)
    show ?thesis
      using byte_sized_safe[OF b assms(1) _ _ le] assms(2-4) one by (cases dir) simp_all
  next
    case s
    have c: "c = (if dir = ELF_TOFILE then cvt_comp_tof ec ms else cvt_comp_tom ec ms)"
      using assms(1) s by (cases t) (auto simp: byte_sized_def)
    show ?thesis
      using assms(3,4) k table_struct[OF s(1)] unfolding c
      by (cases dir) (auto intro!: comp_tof_safe comp_tom_safe)
  next
    case p
    note tp = table_prim[OF p(1)]
    have c: "c = (if dir = ELF_TOFILE then cvt_prim_tof ec f else cvt_prim_tom ec f)"
      using assms(1) p tp by (cases t) (auto simp: byte_sized_def)
    have lt: "unat cnt * field_size ec f < 2 ^ 64"
      using assms(4) tp unat_lt2p[of dsz] by (cases dir) simp_all
    show ?thesis
      using assms(3,4) k tp lt unfolding c
      by (cases dir) (auto intro!: prim_tof_safe prim_tom_safe)
  qed
qed

lemma cvt_table_total:
  "0 < fsize_table ec t \<Longrightarrow> \<exists>c. cvt_table t dir ec = Some c"
  by (cases t) (auto simp: layout_simps split: option.splits if_splits)

lemma heap_fsize [simp]: "heap (snd (libelf_fsize st t ec v c)) = heap st"
  by (simp add: libelf_fsize_def Let_def)

lemma heap_msize: "libelf_msize st t ec v = Some (sz, st') \<Longrightarrow> heap st' = heap st"
  by (auto simp: libelf_msize_def Let_def bind_Some_iff split: if_splits)

lemma unat_of_nat_64: "n \<le> 64 \<Longrightarrow> unat (of_nat n :: u64) = n"
  by (simp add: unat_of_nat)

lemma of_nat_64_zero: "n \<le> 64 \<Longrightarrow> (of_nat n :: u64) = 0 \<longleftrightarrow> n = 0"
  by (simp add: word_unat_eq_iff unat_of_nat_64)

lemma small_product:
  assumes "0 < n" "n \<le> 64" "m \<le> 64" "m \<le> 2 * n" "unat (x :: u64) < 2 ^ 63"
  shows "unat (x div of_nat n) = unat x div n"
    "unat (x div of_nat n * of_nat m) = unat x div n * m"
proof -
  show 1: "unat (x div of_nat n) = unat x div n"
    using assms by (simp add: unat_div unat_of_nat_64)
  have "unat x div n * m \<le> unat x div n * (2 * n)" using assms(4) by (rule mult_le_mono2)
  also have "\<dots> \<le> 2 * unat x" by (simp add: mult.left_commute)
  finally have "unat x div n * m < 2 ^ 64" using assms(5) by simp
  then show "unat (x div of_nat n * of_nat m) = unat x div n * m"
    using 1 assms(3) by (simp add: unat_word_ariths unat_of_nat_64)
qed

text \<open>
  What a call of \<open>_libelf_xlate\<close> may leave behind: of the library state the memory and the error
  number, of the memory the bytes of the destination buffer, of the destination descriptor
  the type and the size.
\<close>

definition xlate_post ::
  "libelf_state \<Rightarrow> Elf_Data \<Rightarrow> (bool \<times> Elf_Data option \<times> libelf_state) option \<Rightarrow> bool" where
  "xlate_post st dst r \<longleftrightarrow> (\<exists>ok h er ty sz.
     r = Some (ok, Some (dst\<lparr>d_type := ty, d_size := sz\<rparr>), st\<lparr>heap := h, libelf_error := er\<rparr>)
     \<and> same_shape (heap st) h
     \<and> (\<forall>q n. (\<forall>b. d_buf dst = Some b \<longrightarrow> apart b (unat (d_size dst)) q n)
              \<longrightarrow> mem_read h q n = mem_read (heap st) q n))"

lemma xlate_post_I:
  assumes "dst' = dst\<lparr>d_type := ty, d_size := sz\<rparr>" "st' = st\<lparr>heap := h, libelf_error := er\<rparr>"
    "same_shape (heap st) h" "\<And>b. d_buf dst = Some b \<Longrightarrow> same_outside b (unat (d_size dst)) (heap st) h"
    "d_buf dst = None \<Longrightarrow> h = heap st"
  shows "xlate_post st dst (Some (ok, Some dst', st'))"
proof -
  have "mem_read h q n = mem_read (heap st) q n"
    if "\<forall>b. d_buf dst = Some b \<longrightarrow> apart b (unat (d_size dst)) q n" for q n
  proof (cases "d_buf dst")
    case None
    then show ?thesis by (simp add: assms(5))
  next
    case (Some b)
    then show ?thesis using that same_outside_read[OF assms(4)[OF Some]] by simp
  qed
  then show ?thesis unfolding xlate_post_def
    using assms(1-3) by (intro exI[of _ ok] exI[of _ h] exI[of _ er] exI[of _ ty] exI[of _ sz]) simp
qed

lemma xlate_post_same: "xlate_post st dst (Some (ok, Some dst, st))"
  by (rule xlate_post_I[where ty = "d_type dst" and sz = "d_size dst" and h = "heap st"
        and er = "libelf_error st"]) simp_all

lemma xlate_post_error: "xlate_post st dst (Some (ok, Some dst, set_error e os st))"
  by (rule xlate_post_I[where ty = "d_type dst" and sz = "d_size dst" and h = "heap st"
        and er = "libelf_error (set_error e os st)"]) (simp_all add: set_error_def)

lemma xlate_sized_safe:
  assumes "ec = ELFCLASS32 \<or> ec = ELFCLASS64" "elf_type_valid (d_type src)"
    "0 < fsize_table ec (d_type src)"
    "window (heap st) sb (unat (d_size src))" "window (heap st) db (unat (d_size dst))"
    "unat (d_size src) < 2 ^ 63"
    "d_buf dst = Some db"
  shows "xlate_post st dst (xlate_sized st dst src db sb (of_nat (fsize_table ec (d_type src)))
      (of_nat (msize_table ec (d_type src))) enc ec m dir)"
proof -
  let ?f = "fsize_table ec (d_type src)" and ?m = "msize_table ec (d_type src)"
  have fm: "?f \<le> ?m" "?m \<le> 2 * ?f" "?m \<le> 64" "?f \<le> 64"
    using fsize_msize_rel msize_le_twice msize_le_64 fsize_le_64 by auto
  obtain c where c: "cvt_table (d_type src) dir ec = Some c" using cvt_table_total[OF assms(3)] by blast
  define n k :: nat where "n = (if dir = ELF_TOMEMORY then ?f else ?m)"
    and "k = (if dir = ELF_TOMEMORY then ?m else ?f)"
  have nk: "0 < n" "n \<le> 64" "k \<le> 64" "k \<le> 2 * n" using assms(3) fm by (auto simp: n_def k_def)
  have nk': "(if dir = ELF_TOMEMORY then of_nat ?f else of_nat ?m) = (of_nat n :: u64)"
    "(if dir = ELF_TOMEMORY then of_nat ?m else of_nat ?f) = (of_nat k :: u64)"
    by (simp_all add: n_def k_def)
  let ?cnt = "d_size src div of_nat n"
  note sm = small_product[OF nk assms(6)]
  have run: "\<exists>h ok. (c (host_order st) (heap st) db (?cnt * of_nat k) sb ?cnt sw) = Some (h, ok)
      \<and> same_shape (heap st) h \<and> same_outside db (unat (d_size dst)) (heap st) h"
    if "\<not> d_size dst < ?cnt * of_nat k" for sw
  proof -
    have le: "unat (?cnt * of_nat k) \<le> unat (d_size dst)"
      using that by (simp add: word_le_nat_alt not_less)
    have "safe_res db (unat (?cnt * of_nat k)) (heap st)
      (c (host_order st) (heap st) db (?cnt * of_nat k) sb ?cnt sw)"
    proof (rule translator_safe[OF c])
    show "window (heap st) db (unat ?cnt * (if dir = ELF_TOMEMORY then ?m else ?f))"
      using sm le by (intro window_le[OF assms(5)]) (simp add: k_def)
    show "window (heap st) sb (unat ?cnt * (if dir = ELF_TOMEMORY then ?f else ?m))"
      using sm(1) by (intro window_le[OF assms(4)]) (simp add: n_def)
    show "unat (?cnt * of_nat k) = unat ?cnt * (if dir = ELF_TOMEMORY then ?m else ?f)"
      using sm by (simp add: k_def)
    qed
    then show ?thesis using same_outside_le[OF le] unfolding safe_res_def kept_def by blast
  qed
  have tr: "libelf_get_translator (d_type src) dir ec m = Some (Some c)"
    using assms(1,2) c by (auto simp: libelf_get_translator_def)
  show ?thesis
  proof (cases "d_size dst < ?cnt * of_nat k")
    case True
    then show ?thesis unfolding xlate_sized_def nk' Let_def by (simp add: xlate_post_error)
  next
    case False
    let ?dst = "dst\<lparr>d_type := d_type src, d_size := ?cnt * of_nat k\<rparr>"
    obtain h good where r: "c (host_order st) (heap st) db (?cnt * of_nat k) sb ?cnt
        (enc \<noteq> libelf_byteorder st) = Some (h, good)"
      "same_shape (heap st) h" "same_outside db (unat (d_size dst)) (heap st) h"
      using run[OF False] by blast
    have "xlate_post st dst (Some (True, Some ?dst, st))"
      by (rule xlate_post_I[where h = "heap st" and er = "libelf_error st"]) simp_all
    moreover have "xlate_post st dst (Some (True, Some ?dst, st\<lparr>heap := h\<rparr>))"
      by (rule xlate_post_I[where h = h and er = "libelf_error st"])
        (use r assms(7) in simp_all)
    moreover have "xlate_post st dst (Some (False, Some ?dst, set_error ELF_E_DATA 0 (st\<lparr>heap := h\<rparr>)))"
      by (rule xlate_post_I[where h = h]) (use r assms(7) in \<open>simp_all add: set_error_def\<close>)
    ultimately show ?thesis
      unfolding xlate_sized_def nk' tr Let_def using False r(1) by (simp add: xlate_post_error)
  qed
qed

lemma fsize_1:
  "elf_type_valid t \<Longrightarrow> elf32_fsize st t 1 v =
     (if v \<noteq> EV_CURRENT then (0, set_error ELF_E_VERSION 0 st)
      else (of_nat (fsize_table ELFCLASS32 t),
            if fsize_table ELFCLASS32 t = 0 then set_error ELF_E_UNIMPL 0 st else st))"
  "elf_type_valid t \<Longrightarrow> elf64_fsize st t 1 v =
     (if v \<noteq> EV_CURRENT then (0, set_error ELF_E_VERSION 0 st)
      else (of_nat (fsize_table ELFCLASS64 t),
            if fsize_table ELFCLASS64 t = 0 then set_error ELF_E_UNIMPL 0 st else st))"
  unfolding elf32_fsize_def elf64_fsize_def libelf_fsize_def Let_def
  by (simp_all add: of_nat_64_zero[OF fsize_le_64])

lemma libelf_xlate_post:
  assumes "ec = ELFCLASS32 \<or> ec = ELFCLASS64"
    "\<And>b. d_buf src = Some b \<Longrightarrow> window (heap st) b (unat (d_size src))"
    "\<And>b. d_buf dst = Some b \<Longrightarrow> window (heap st) b (unat (d_size dst))"
    "unat (d_size src) < 2 ^ 63"
  shows "xlate_post st dst (libelf_xlate st (Some dst) (Some src) same enc ec m dir)"
proof -
  let ?enc = "if enc = ELFDATANONE then libelf_byteorder st else enc"
  consider (arg) "(?enc \<noteq> ELFDATA2LSB \<and> ?enc \<noteq> ELFDATA2MSB) \<or> same"
    | (ver) "(?enc = ELFDATA2LSB \<or> ?enc = ELFDATA2MSB) \<and> \<not> same" "d_version dst \<noteq> d_version src"
    | (nobuf) "(?enc = ELFDATA2LSB \<or> ?enc = ELFDATA2MSB) \<and> \<not> same" "d_version dst = d_version src"
      "d_buf src = None \<or> d_buf dst = None \<or> \<not> elf_type_valid (d_type src)"
    | (rest) sb db where "(?enc = ELFDATA2LSB \<or> ?enc = ELFDATA2MSB) \<and> \<not> same"
      "d_version dst = d_version src" "d_buf src = Some sb" "d_buf dst = Some db"
      "elf_type_valid (d_type src)"
    by (cases "d_buf src"; cases "d_buf dst"; blast)
  then show ?thesis
  proof cases
    case arg
    then show ?thesis unfolding libelf_xlate_def Let_def
      by (auto simp: xlate_post_same xlate_post_error)
  next
    case ver
    then show ?thesis using assms(1) unfolding libelf_xlate_def Let_def
      by (auto simp: xlate_post_same xlate_post_error)
  next
    case nobuf
    then show ?thesis using assms(1) unfolding libelf_xlate_def Let_def
      by (auto simp: xlate_post_same xlate_post_error split: option.split)
  next
    case rest
    let ?f = "fsize_table ec (d_type src)" and ?m = "msize_table ec (d_type src)"
    show ?thesis
    proof (cases "d_version src = EV_CURRENT \<and> 0 < ?f")
      case False
      then show ?thesis using assms(1) rest
        by (auto simp: libelf_xlate_def Let_def fsize_1 xlate_post_same xlate_post_error)
    next
      case True
      have m: "libelf_msize st (d_type src) ec (d_version src) = Some (of_nat ?m, st)" "0 < ?m"
        using assms(1) rest(5) True
        by (auto simp: libelf_msize_def Let_def of_nat_64_zero[OF msize_le_64]
            simp flip: fsize_msize_rel(2) neq0_conv)
      have z: "(of_nat ?f :: u64) \<noteq> 0" "(of_nat ?m :: u64) \<noteq> 0"
        using of_nat_64_zero[OF fsize_le_64] of_nat_64_zero[OF msize_le_64] True m(2) by auto
      have "libelf_xlate st (Some dst) (Some src) same enc ec m' dir
          = xlate_sized st dst src db sb (of_nat ?f) (of_nat ?m) ?enc ec m' dir" for m'
        using assms(1) rest True m z by (auto simp: libelf_xlate_def Let_def fsize_1)
      then show ?thesis
        using xlate_sized_safe[OF assms(1) rest(5) _ assms(2)[OF rest(3)] assms(3)[OF rest(4)] assms(4) rest(4)]
          True by simp
    qed
  qed
qed

section \<open>Properties\<close>

text \<open>
  C15. \<open>_libelf_xlate\<close> is memory safe: for any contents of the buffers, types, encodings and
  sizes below \<open>2 ^ 63\<close>, if the two data descriptors describe buffers that exist, the call returns.
  No byte outside the destination buffer has changed, no block of memory has appeared or gone;
  of the rest of the library state (every ELF descriptor included) only the error number may
  differ, and of the destination descriptor only its type and size. In particular the overlap and size checks it makes are
  enough for every translator, in both directions. The bound on the source's size is that of the C objects a
  program can have (\<open>PTRDIFF_MAX\<close>); past it the product of the count and the element size would wrap.
\<close>

theorem xlate_memory_safe:
  assumes "ec = ELFCLASS32 \<or> ec = ELFCLASS64"
    "\<And>b. d_buf src = Some b \<Longrightarrow> window (heap st) b (unat (d_size src))"
    "\<And>b. d_buf dst = Some b \<Longrightarrow> window (heap st) b (unat (d_size dst))"
    "unat (d_size src) < 2 ^ 63"
  shows "\<exists>ok h er ty sz. libelf_xlate st (Some dst) (Some src) same enc ec m dir
      = Some (ok, Some (dst\<lparr>d_type := ty, d_size := sz\<rparr>), st\<lparr>heap := h, libelf_error := er\<rparr>)
    \<and> same_shape (heap st) h
    \<and> (\<forall>q n. (\<forall>b. d_buf dst = Some b \<longrightarrow> apart b (unat (d_size dst)) q n)
             \<longrightarrow> mem_read h q n = mem_read (heap st) q n)"
  using libelf_xlate_post[OF assms] unfolding xlate_post_def .

text \<open>A library state with one buffer, used to instantiate properties.\<close>

definition sample_state :: "bytes \<Rightarrow> libelf_state" where
  "sample_state bs =
     \<lparr>libelf_byteorder = ELFDATA2LSB, libelf_error = 0, libelf_fillchar = 0,
      libelf_version = EV_CURRENT, heap = [0 \<mapsto> bs], next_buf = 1, elfs = Map.empty, next_elf = 0,
      malloc_ok = (\<lambda>i. True), mallocs = 0\<rparr>"

definition sample_data :: "Elf_Type \<Rightarrow> nat \<Rightarrow> u64 \<Rightarrow> Elf_Data" where
  "sample_data t off sz =
     \<lparr>d_align = 1, d_buf = Some (0, off), d_off = 0, d_size = sz, d_type = t, d_version = EV_CURRENT\<rparr>"

theorem xlate_memory_safe_witness:
  "\<exists>ok h er ty sz. libelf_xlate (sample_state (replicate 40 7)) (Some (sample_data ELF_T_BYTE 20 20))
      (Some (sample_data ELF_T_NOTE 0 20)) False ELFDATA2MSB ELFCLASS64 EM_NONE ELF_TOMEMORY
      = Some (ok, Some ((sample_data ELF_T_BYTE 20 20)\<lparr>d_type := ty, d_size := sz\<rparr>),
          (sample_state (replicate 40 7))\<lparr>heap := h, libelf_error := er\<rparr>)
    \<and> mem_read h (0, 0) 20 = Some (replicate 20 7)"
proof -
  have w: "window (heap (sample_state (replicate 40 7))) b (unat (d_size (sample_data t off 20)))"
    if "d_buf (sample_data t off 20) = Some b" "off \<le> 20" for t off b
    using that by (auto simp: sample_state_def sample_data_def window_def mem_read_def slice_at_def)
  have sz: "d_size (sample_data t off 20) = 20" for t off by (simp add: sample_data_def)
  obtain ok h er ty sz where r: "libelf_xlate (sample_state (replicate 40 7)) (Some (sample_data ELF_T_BYTE 20 20))
      (Some (sample_data ELF_T_NOTE 0 20)) False ELFDATA2MSB ELFCLASS64 EM_NONE ELF_TOMEMORY
      = Some (ok, Some ((sample_data ELF_T_BYTE 20 20)\<lparr>d_type := ty, d_size := sz\<rparr>),
          (sample_state (replicate 40 7))\<lparr>heap := h, libelf_error := er\<rparr>)"
    "\<And>q n. (\<And>b. d_buf (sample_data ELF_T_BYTE 20 20) = Some b \<Longrightarrow> apart b 20 q n)
       \<Longrightarrow> mem_read h q n = mem_read (heap (sample_state (replicate 40 7))) q n"
    using xlate_memory_safe[of ELFCLASS64 "sample_data ELF_T_NOTE 0 20" "sample_state (replicate 40 7)"
        "sample_data ELF_T_BYTE 20 20" False ELFDATA2MSB EM_NONE ELF_TOMEMORY] w sz
    by (auto 0 0)
  have "mem_read h (0, 0) 20 = mem_read (heap (sample_state (replicate 40 7))) (0, 0) 20"
    by (rule r(2)) (simp add: sample_data_def apart_def)
  also have "\<dots> = Some (replicate 20 7)" by (simp add: sample_state_def mem_read_def slice_at_def)
  finally show ?thesis using r(1) by blast
qed

text \<open>
  Error numbers: after an error is set, with any operating system error beside it, \<open>elf_errno\<close>
  returns its code, and reading it clears it.
\<close>

theorem errno_returns_error:
  "fst (elf_errno (set_error e os st)) = elf_error_code e \<and> fst (elf_errno (snd (elf_errno st))) = 0"
proof -
  have "push_bit 8 os AND (0xFF :: u32) = 0"
    unfolding and_255 by (auto intro!: bit_word_eqI simp: bit_take_bit_iff bit_push_bit_iff)
  moreover have "(elf_error_code e AND 0xFF) AND 0xFF = elf_error_code e"
    by (cases e) simp_all
  ultimately show ?thesis
    by (simp add: elf_errno_def set_error_def bit.conj_disj_distrib2)
qed

lemma elf_flags_api:
  fixes flags :: u32
  assumes "flags AND NOT (ELF_F_ARCHIVE OR ELF_F_ARCHIVE_SYSV OR ELF_F_DIRTY OR ELF_F_LAYOUT) = 0"
  shows "flag_update c old flags AND NOT LIBELF_F_API_MASK = old AND NOT LIBELF_F_API_MASK"
proof -
  let ?m = "ELF_F_ARCHIVE OR ELF_F_ARCHIVE_SYSV OR ELF_F_DIRTY OR ELF_F_LAYOUT :: u32"
  have "flags = (flags AND ?m) OR (flags AND NOT ?m)"
    by (simp only: bit.conj_disj_distrib[symmetric] bit.disj_cancel_right bit.conj_one_right)
  then have f: "flags = flags AND 0x303" using assms by simp
  have "flags AND NOT LIBELF_F_API_MASK = 0"
    by (subst f) (simp add: and.assoc)
  then have "\<not> (bit flags k \<and> bit (NOT LIBELF_F_API_MASK) k)" for k
    by (metis bit_and_iff bit_0_eq bot_apply bot_bool_def)
  then have "(old OR flags) AND n = old AND n" "(old AND NOT flags) AND n = old AND n"
    if "n = NOT LIBELF_F_API_MASK" for n
    unfolding that by (auto intro!: bit_word_eqI simp: bit_and_iff bit_or_iff bit_not_iff
        simp del: bit_not_iff_eq)
  then show ?thesis by (simp add: flag_update_def)
qed

text \<open>
  \<open>elf_flagelf\<close> cannot touch the library's own flags: whatever the command and the flags, the
  upper bits of \<open>e_flags\<close>, which record how the file and its sections were read in, keep
  their values, and on success the result is the API part of the new flags.
\<close>

theorem flagelf_keeps_internal_flags:
  assumes "get_elf st i = Some e"
  shows "\<exists>r st' e'. elf_flagelf st (Some i) c flags = Some (r, st') \<and> get_elf st' i = Some e'
    \<and> e_flags e' AND NOT LIBELF_F_API_MASK = e_flags e AND NOT LIBELF_F_API_MASK
    \<and> (r = 0 \<or> r = e_flags e' AND LIBELF_F_API_MASK)"
  using assms elf_flags_api[of flags c "e_flags e"]
  by (auto simp: elf_flagelf_def Let_def)

theorem flagelf_keeps_internal_flags_witness:
  "\<exists>r st' e'. elf_flagelf (put_elf 0 (initial_elf EV_CURRENT) (sample_state [])) (Some 0) ELF_C_SET
       ELF_F_DIRTY = Some (r, st') \<and> get_elf st' 0 = Some e'"
  using flagelf_keeps_internal_flags[of "put_elf 0 (initial_elf EV_CURRENT) (sample_state [])" 0
      "initial_elf EV_CURRENT" ELF_C_SET ELF_F_DIRTY] by auto

text \<open>
  No section type is ever given the data type \<open>ELF_T_CAP\<close>: capability sections
  (\<open>SHT_SUNW_cap\<close>) fall under the default case and are read as bytes. Since \<open>gelf_getcap\<close> and
  \<open>gelf_update_cap\<close> insist on \<open>ELF_T_CAP\<close>, they can never succeed on a section read from a file.
\<close>

theorem no_section_is_cap:
  "libelf_xlate_shtype sht \<noteq> ELF_T_CAP \<and> libelf_xlate_shtype SHT_SUNW_cap = ELF_T_BYTE
   \<and> (elf_type_valid (libelf_xlate_shtype sht) \<longrightarrow>
        0 < fsize_table ELFCLASS32 (libelf_xlate_shtype sht)
        \<and> 0 < fsize_table ELFCLASS64 (libelf_xlate_shtype sht))"
  unfolding libelf_xlate_shtype_def by (simp add: layout_simps)

theorem no_section_is_cap_witness:
  "elf_type_valid (libelf_xlate_shtype SHT_NOTE) \<and> libelf_xlate_shtype SHT_NOTE \<noteq> ELF_T_CAP"
  using no_section_is_cap[of SHT_NOTE] by (simp add: libelf_xlate_shtype_def)

text \<open>
  \<open>elf_hash\<close> keeps its state in an \<open>unsigned long\<close>, so on a 64-bit host the hash of a name can
  exceed 32 bits, while the manual promises the same 32-bit value on every machine.
\<close>

theorem elf_hash_exceeds_32_bits:
  "elf_hash [0xff, 0x0f, 0x0f, 0x0f, 0x0f, 0x0f, 0x12] = 0x100000002"
  by (simp add: elf_hash_def elf_hash_step_def Let_def)

end
