(* ===== verification/Elf_Header.thy ===== *)
theory Elf_Header
  imports Elf_State
begin

text \<open>
  The ELF header, the extended numbering and the program header table of a descriptor:
  \<open>libelf_ehdr.c\<close>, \<open>libelf_extended.c\<close>, \<open>libelf_phdr.c\<close>, \<open>elf_phnum.c\<close>, \<open>elf_shnum.c\<close> and
  \<open>elf_shstrndx.c\<close>.

  A call that returns a pointer to a header returns \<open>True\<close> here (\<open>NULL\<close> is \<open>False\<close>): the header
  itself is the one in the descriptor.
\<close>

section \<open>Access to the two classes\<close>

fun ehdr_phnum :: "ehdr \<Rightarrow> u16" where
  "ehdr_phnum (Eh32 h) = e_phnum32 h" | "ehdr_phnum (Eh64 h) = e_phnum h"

fun ehdr_shnum :: "ehdr \<Rightarrow> u16" where
  "ehdr_shnum (Eh32 h) = e_shnum32 h" | "ehdr_shnum (Eh64 h) = e_shnum h"

fun ehdr_shoff :: "ehdr \<Rightarrow> u64" where
  "ehdr_shoff (Eh32 h) = ucast (e_shoff32 h)" | "ehdr_shoff (Eh64 h) = e_shoff h"

fun ehdr_phoff :: "ehdr \<Rightarrow> u64" where
  "ehdr_phoff (Eh32 h) = ucast (e_phoff32 h)" | "ehdr_phoff (Eh64 h) = e_phoff h"

fun ehdr_shstrndx :: "ehdr \<Rightarrow> u16" where
  "ehdr_shstrndx (Eh32 h) = e_shstrndx32 h" | "ehdr_shstrndx (Eh64 h) = e_shstrndx h"

fun ehdr_shentsize :: "ehdr \<Rightarrow> u16" where
  "ehdr_shentsize (Eh32 h) = e_shentsize32 h" | "ehdr_shentsize (Eh64 h) = e_shentsize h"

fun shdr_type :: "shdr \<Rightarrow> u32" where
  "shdr_type (Sh32 s) = sh_type32 s" | "shdr_type (Sh64 s) = sh_type s"

fun shdr_size :: "shdr \<Rightarrow> u64" where
  "shdr_size (Sh32 s) = ucast (sh_size32 s)" | "shdr_size (Sh64 s) = sh_size s"

fun shdr_offset :: "shdr \<Rightarrow> u64" where
  "shdr_offset (Sh32 s) = ucast (sh_offset32 s)" | "shdr_offset (Sh64 s) = sh_offset s"

fun shdr_info :: "shdr \<Rightarrow> u32" where
  "shdr_info (Sh32 s) = sh_info32 s" | "shdr_info (Sh64 s) = sh_info s"

fun shdr_link :: "shdr \<Rightarrow> u32" where
  "shdr_link (Sh32 s) = sh_link32 s" | "shdr_link (Sh64 s) = sh_link s"

definition Ehdr_DEF :: "int \<Rightarrow> member_list" where
  "Ehdr_DEF ec = (if ec = ELFCLASS32 then Elf32_Ehdr_DEF else Elf64_Ehdr_DEF)"

definition Phdr_DEF :: "int \<Rightarrow> member_list" where
  "Phdr_DEF ec = (if ec = ELFCLASS32 then Elf32_Phdr_DEF else Elf64_Phdr_DEF)"

definition Shdr_DEF :: "int \<Rightarrow> member_list" where
  "Shdr_DEF ec = (if ec = ELFCLASS32 then Elf32_Shdr_DEF else Elf64_Shdr_DEF)"

definition ehdr_of :: "int \<Rightarrow> fval list \<Rightarrow> ehdr option" where
  "ehdr_of ec fs = (if ec = ELFCLASS32 then map_option Eh32 (Elf32_Ehdr_of fs)
     else map_option Eh64 (Elf64_Ehdr_of fs))"

definition shdr_of :: "int \<Rightarrow> fval list \<Rightarrow> shdr option" where
  "shdr_of ec fs = (if ec = ELFCLASS32 then map_option Sh32 (Elf32_Shdr_of fs)
     else map_option Sh64 (Elf64_Shdr_of fs))"

text \<open>
  The structure the translator of a composite type leaves in a fresh object when it converts one
  element of the raw file at offset \<open>off\<close>; reading outside the file is \<open>None\<close>.
\<close>

definition file_struct :: "libelf_state \<Rightarrow> Elf \<Rightarrow> int \<Rightarrow> member_list \<Rightarrow> nat \<Rightarrow> fval list option" where
  "file_struct st e ec ms off = do {
     p \<leftarrow> e_rawfile e;
     bs \<leftarrow> mem_read (heap st) (ptr_add p off) (FSZ ec ms);
     Some (SWAP_MEMBERS (e_byteorder e \<noteq> libelf_byteorder st)
             (READ_MEMBERS (host_order st) ec ms bs)) }"

definition get_scn :: "libelf_state \<Rightarrow> nat \<Rightarrow> nat \<Rightarrow> Elf_Scn option" where
  "get_scn st i n = do { e \<leftarrow> get_elf st i; e_scns e n }"

definition put_scn :: "nat \<Rightarrow> nat \<Rightarrow> Elf_Scn \<Rightarrow> libelf_state \<Rightarrow> libelf_state option" where
  "put_scn i n s st = do {
     e \<leftarrow> get_elf st i;
     Some (put_elf i (e\<lparr>e_scns := (e_scns e)(n \<mapsto> s)\<rparr>) st) }"

section \<open>The ELF header: \<open>libelf_ehdr.c\<close>\<close>

definition libelf_load_extended ::
  "libelf_state \<Rightarrow> nat \<Rightarrow> int \<Rightarrow> u64 \<Rightarrow> u16 \<Rightarrow> u16 \<Rightarrow> (bool \<times> libelf_state) option" where
  "libelf_load_extended st i ec shoff phnum strndx = do {
     e \<leftarrow> get_elf st i;
     c_assert (e_scn e = RB_NULL);
     let (fsz, st) = libelf_fsize st ELF_T_SHDR ec (e_version e) 1;
     c_assert (fsz > 0);
     if shoff + fsz < shoff then Some (False, set_error ELF_E_HEADER 0 st)
     else if e_rawsize e < shoff + fsz then Some (False, set_error ELF_E_HEADER 0 st)
     else do {
       (r, st) \<leftarrow> libelf_allocate_scn st i 0;
       case r of
         None \<Rightarrow> Some (False, st)
       | Some n \<Rightarrow> do {
           e \<leftarrow> get_elf st i;
           m \<leftarrow> libelf_elfmachine (Some e);
           fs \<leftarrow> file_struct st e ec (Shdr_DEF ec) (unat shoff);
           sh \<leftarrow> shdr_of ec fs;
           s \<leftarrow> e_scns e n;
           let e = e\<lparr>e_scns := (e_scns e)(n \<mapsto> s\<lparr>s_shdr := sh\<rparr>)\<rparr>;
           if shdr_type sh \<noteq> SHT_NULL
           then Some (False, set_error ELF_E_SECTION 0 (put_elf i e st))
           else
             let e = e\<lparr>e_nscn := shdr_size sh,
                       e_nphdr := (if ucast phnum \<noteq> PN_XNUM then ucast phnum else ucast (shdr_info sh)),
                       e_strndx := (if ucast strndx \<noteq> SHN_XINDEX then ucast strndx
                                    else ucast (shdr_link sh))\<rparr>
             in Some (True, put_elf i e st) } } }"

text \<open>\<open>EHDR_INIT\<close> on a zeroed header.\<close>

definition ehdr_init :: "int \<Rightarrow> u32 \<Rightarrow> ehdr" where
  "ehdr_init ec version =
     (let ident = ELFMAG @ [of_int ec, ucast ELFDATANONE, ucast (version AND 0xFF)] @ replicate 9 0
      in if ec = ELFCLASS32
         then Eh32 \<lparr>e_ident32 = ident, e_type32 = 0, e_machine32 = EM_NONE, eh_version32 = version,
                e_entry32 = 0, e_phoff32 = 0, e_shoff32 = 0, eh_flags32 = 0, e_ehsize32 = 0,
                e_phentsize32 = 0, e_phnum32 = 0, e_shentsize32 = 0, e_shnum32 = 0,
                e_shstrndx32 = 0\<rparr>
         else Eh64 \<lparr>e_ident = ident, e_type = 0, e_machine = EM_NONE, eh_version = version,
                e_entry = 0, e_phoff = 0, e_shoff = 0, eh_flags = 0, e_ehsize = 0,
                e_phentsize = 0, e_phnum = 0, e_shentsize = 0, e_shnum = 0, e_shstrndx = 0\<rparr>)"

text \<open>The part of \<open>_libelf_ehdr\<close> from the translation of the header in the file on.\<close>

definition ehdr_from_file :: "libelf_state \<Rightarrow> nat \<Rightarrow> int \<Rightarrow> (bool \<times> libelf_state) option" where
  "ehdr_from_file st i ec = do {
     e \<leftarrow> get_elf st i;
     m \<leftarrow> libelf_elfmachine (Some e);
     fs \<leftarrow> file_struct st e ec (Ehdr_DEF ec) 0;
     eh \<leftarrow> ehdr_of ec fs;
     let e = e\<lparr>e_ehdr := Some eh\<rparr>;
     let st = put_elf i e st;
     let phnum = ehdr_phnum eh;
     let shnum = ehdr_shnum eh;
     let shoff = ehdr_shoff eh;
     let strndx = ehdr_shstrndx eh;
     if ucast shnum \<ge> SHN_LORESERVE
        \<or> (shoff = 0 \<and> (shnum \<noteq> 0 \<or> ucast phnum = PN_XNUM \<or> ucast strndx = SHN_XINDEX))
     then Some (False, set_error ELF_E_HEADER 0 st)
     else if (shnum = 0 \<and> shoff \<noteq> 0) \<or> ucast phnum = PN_XNUM \<or> ucast strndx = SHN_XINDEX
     then libelf_load_extended st i ec shoff phnum strndx
     else Some (True, put_elf i
            (e\<lparr>e_nphdr := ucast phnum, e_nscn := ucast shnum, e_strndx := ucast strndx\<rparr>) st) }"

definition libelf_ehdr :: "libelf_state \<Rightarrow> nat option \<Rightarrow> int \<Rightarrow> bool \<Rightarrow> (bool \<times> libelf_state) option" where
  "libelf_ehdr st e ec allocate = do {
     c_assert (ec = ELFCLASS32 \<or> ec = ELFCLASS64);
     case e of
       None \<Rightarrow> Some (False, set_error ELF_E_ARGUMENT 0 st)
     | Some i \<Rightarrow> do {
         e \<leftarrow> get_elf st i;
         if e_kind e \<noteq> ELF_K_ELF then Some (False, set_error ELF_E_ARGUMENT 0 st)
         else if e_class e \<noteq> ELFCLASSNONE \<and> e_class e \<noteq> ec
         then Some (False, set_error ELF_E_CLASS 0 st)
         else if e_version e \<noteq> EV_CURRENT then Some (False, set_error ELF_E_VERSION 0 st)
         else do {
           let e = (if e_class e = ELFCLASSNONE then e\<lparr>e_class := ec\<rparr> else e);
           let st = put_elf i e st;
           if e_ehdr e \<noteq> None then Some (True, st)
           else do {
             let (fsz, st) = libelf_fsize st ELF_T_EHDR ec (e_version e) 1;
             c_assert (fsz > 0);
             if e_cmd e \<noteq> ELF_C_WRITE \<and> sint (e_rawsize e) < sint fsz
             then Some (False, set_error ELF_E_HEADER 0 st)
             else do {
               (msz, st) \<leftarrow> libelf_msize st ELF_T_EHDR ec EV_CURRENT;
               if msz = 0 then Some (False, st)
               else do {
                 let (ok, st) = c_alloc st;
                 if \<not> ok then Some (False, set_error ELF_E_RESOURCE 0 st)
                 else do {
                   let e = e\<lparr>e_ehdr := Some (ehdr_init ec (libelf_version st)),
                             e_flags := (if allocate then e_flags e OR ELF_F_DIRTY else e_flags e)\<rparr>;
                   let st = put_elf i e st;
                   if e_cmd e = ELF_C_WRITE then Some (True, st)
                   else ehdr_from_file st i ec } } } } } } }"

section \<open>Extended numbering: \<open>libelf_extended.c\<close>\<close>

definition libelf_getscn0 :: "libelf_state \<Rightarrow> nat \<Rightarrow> (nat option \<times> libelf_state) option" where
  "libelf_getscn0 st i = do {
     e \<leftarrow> get_elf st i;
     (case RB_MIN (e_scn e) of
        Some n \<Rightarrow> Some (Some n, st)
      | None \<Rightarrow> libelf_allocate_scn st i 0) }"

text \<open>\<open>_libelf_getscn0\<close>, an update of the section header, and the dirty flag.\<close>

definition scn0_update ::
  "libelf_state \<Rightarrow> nat \<Rightarrow> (shdr \<Rightarrow> shdr) \<Rightarrow> (bool \<times> libelf_state) option" where
  "scn0_update st i f = do {
     (r, st) \<leftarrow> libelf_getscn0 st i;
     case r of
       None \<Rightarrow> Some (False, st)
     | Some n \<Rightarrow> do {
         s \<leftarrow> get_scn st i n;
         c_assert (s_ndx s = 0);
         let (r, s', st) = elf_flagshdr st (Some (s\<lparr>s_shdr := f (s_shdr s)\<rparr>)) ELF_C_SET ELF_F_DIRTY;
         s \<leftarrow> s';
         st \<leftarrow> put_scn i n s st;
         Some (True, st) } }"

fun set_sh_size :: "u64 \<Rightarrow> shdr \<Rightarrow> shdr" where
  "set_sh_size v (Sh32 s) = Sh32 (s\<lparr>sh_size32 := ucast v\<rparr>)"
| "set_sh_size v (Sh64 s) = Sh64 (s\<lparr>sh_size := v\<rparr>)"

fun set_sh_link :: "u64 \<Rightarrow> shdr \<Rightarrow> shdr" where
  "set_sh_link v (Sh32 s) = Sh32 (s\<lparr>sh_link32 := ucast v\<rparr>)"
| "set_sh_link v (Sh64 s) = Sh64 (s\<lparr>sh_link := ucast v\<rparr>)"

fun set_sh_info :: "u64 \<Rightarrow> shdr \<Rightarrow> shdr" where
  "set_sh_info v (Sh32 s) = Sh32 (s\<lparr>sh_info32 := ucast v\<rparr>)"
| "set_sh_info v (Sh64 s) = Sh64 (s\<lparr>sh_info := ucast v\<rparr>)"

fun set_e_shnum :: "u16 \<Rightarrow> ehdr \<Rightarrow> ehdr" where
  "set_e_shnum v (Eh32 h) = Eh32 (h\<lparr>e_shnum32 := v\<rparr>)"
| "set_e_shnum v (Eh64 h) = Eh64 (h\<lparr>e_shnum := v\<rparr>)"

fun set_e_shstrndx :: "u16 \<Rightarrow> ehdr \<Rightarrow> ehdr" where
  "set_e_shstrndx v (Eh32 h) = Eh32 (h\<lparr>e_shstrndx32 := v\<rparr>)"
| "set_e_shstrndx v (Eh64 h) = Eh64 (h\<lparr>e_shstrndx := v\<rparr>)"

fun set_e_phnum :: "u16 \<Rightarrow> ehdr \<Rightarrow> ehdr" where
  "set_e_phnum v (Eh32 h) = Eh32 (h\<lparr>e_phnum32 := v\<rparr>)"
| "set_e_phnum v (Eh64 h) = Eh64 (h\<lparr>e_phnum := v\<rparr>)"

definition ehdr_update :: "libelf_state \<Rightarrow> nat \<Rightarrow> (ehdr \<Rightarrow> ehdr) \<Rightarrow> (bool \<times> libelf_state) option" where
  "ehdr_update st i f = do {
     e \<leftarrow> get_elf st i;
     eh \<leftarrow> e_ehdr e;
     Some (True, put_elf i (e\<lparr>e_ehdr := Some (f eh)\<rparr>) st) }"

text \<open>\<open>eh\<close>, the header the callers pass, is that of the descriptor.\<close>

definition libelf_setshnum :: "libelf_state \<Rightarrow> nat \<Rightarrow> u64 \<Rightarrow> (bool \<times> libelf_state) option" where
  "libelf_setshnum st i shnum =
     (if shnum \<ge> SHN_LORESERVE
      then do {
        (ok, st) \<leftarrow> scn0_update st i (set_sh_size shnum);
        if \<not> ok then Some (False, st) else ehdr_update st i (set_e_shnum 0) }
      else ehdr_update st i (set_e_shnum (ucast shnum)))"

definition libelf_setshstrndx :: "libelf_state \<Rightarrow> nat \<Rightarrow> u64 \<Rightarrow> (bool \<times> libelf_state) option" where
  "libelf_setshstrndx st i shstrndx =
     (if shstrndx \<ge> SHN_LORESERVE
      then do {
        (ok, st) \<leftarrow> scn0_update st i (set_sh_link shstrndx);
        if \<not> ok then Some (False, st) else ehdr_update st i (set_e_shstrndx (ucast SHN_XINDEX)) }
      else ehdr_update st i (set_e_shstrndx (ucast shstrndx)))"

definition libelf_setphnum :: "libelf_state \<Rightarrow> nat \<Rightarrow> u64 \<Rightarrow> (bool \<times> libelf_state) option" where
  "libelf_setphnum st i phnum =
     (if phnum \<ge> PN_XNUM
      then do {
        (ok, st) \<leftarrow> scn0_update st i (set_sh_info phnum);
        if \<not> ok then Some (False, st) else ehdr_update st i (set_e_phnum (ucast PN_XNUM)) }
      else ehdr_update st i (set_e_phnum (ucast phnum)))"

section \<open>Counts: \<open>elf_phnum.c\<close>, \<open>elf_shnum.c\<close>, \<open>elf_shstrndx.c\<close>\<close>

text \<open>The value of the output argument, if it was set, is the second component.\<close>

definition elf_class_known :: "Elf \<Rightarrow> bool" where
  "elf_class_known e \<longleftrightarrow> e_kind e = ELF_K_ELF \<and> (e_class e = ELFCLASS32 \<or> e_class e = ELFCLASS64)"

definition libelf_getcount ::
  "(Elf \<Rightarrow> u64) \<Rightarrow> libelf_state \<Rightarrow> nat option \<Rightarrow> (int \<times> u64 option \<times> libelf_state) option" where
  "libelf_getcount field st e =
     (case e of
        None \<Rightarrow> Some (- 1, None, set_error ELF_E_ARGUMENT 0 st)
      | Some i \<Rightarrow> do {
          r \<leftarrow> get_elf st i;
          if \<not> elf_class_known r then Some (- 1, None, set_error ELF_E_ARGUMENT 0 st)
          else do {
            (ok, st) \<leftarrow> libelf_ehdr st e (e_class r) False;
            if \<not> ok then Some (- 1, None, st)
            else do { r \<leftarrow> get_elf st i; Some (0, Some (field r), st) } } })"

definition libelf_getphdrnum where "libelf_getphdrnum st e = libelf_getcount e_nphdr st e"
definition libelf_getshdrnum where "libelf_getshdrnum st e = libelf_getcount e_nscn st e"
definition libelf_getshdrstrndx where "libelf_getshdrstrndx st e = libelf_getcount e_strndx st e"

definition elf_getphdrnum where "elf_getphdrnum st e = libelf_getphdrnum st e"
definition elf_getshdrnum where "elf_getshdrnum st e = libelf_getshdrnum st e"
definition elf_getshdrstrndx where "elf_getshdrstrndx st e = libelf_getshdrstrndx st e"

text \<open>The deprecated names, which return 1 or 0.\<close>

definition elf_getphnum where
  "elf_getphnum st e = do { (r, v, st) \<leftarrow> libelf_getphdrnum st e; Some (r \<ge> 0, v, st) }"

definition elf_getshnum where
  "elf_getshnum st e = do { (r, v, st) \<leftarrow> libelf_getshdrnum st e; Some (r \<ge> 0, v, st) }"

definition elf_getshstrndx where
  "elf_getshstrndx st e = do { (r, v, st) \<leftarrow> libelf_getshdrstrndx st e; Some (r \<ge> 0, v, st) }"

definition elf_setshstrndx :: "libelf_state \<Rightarrow> nat option \<Rightarrow> u64 \<Rightarrow> (bool \<times> libelf_state) option" where
  "elf_setshstrndx st e strndx =
     (case e of
        None \<Rightarrow> Some (False, set_error ELF_E_ARGUMENT 0 st)
      | Some i \<Rightarrow> do {
          r \<leftarrow> get_elf st i;
          if \<not> elf_class_known r then Some (False, set_error ELF_E_ARGUMENT 0 st)
          else do {
            (ok, st) \<leftarrow> libelf_ehdr st e (e_class r) False;
            if \<not> ok then Some (False, set_error ELF_E_ARGUMENT 0 st)
            else libelf_setshstrndx st i strndx } })"

section \<open>Program headers: \<open>libelf_phdr.c\<close>\<close>

definition phdrs_of :: "int \<Rightarrow> fval list list \<Rightarrow> phdrs option" where
  "phdrs_of ec fss =
     (if ec = ELFCLASS32 then map_option Ph32 (those (map Elf32_Phdr_of fss))
      else map_option Ph64 (those (map Elf64_Phdr_of fss)))"

definition file_structs ::
  "libelf_state \<Rightarrow> Elf \<Rightarrow> int \<Rightarrow> member_list \<Rightarrow> nat \<Rightarrow> nat \<Rightarrow> fval list list option" where
  "file_structs st e ec ms off n =
     those (map (\<lambda>k. file_struct st e ec ms (off + k * FSZ ec ms)) [0..<n])"

definition zero_phdrs :: "int \<Rightarrow> nat \<Rightarrow> phdrs" where
  "zero_phdrs ec n =
     (if ec = ELFCLASS32
      then Ph32 (replicate n \<lparr>p_type32 = 0, p_offset32 = 0, p_vaddr32 = 0, p_paddr32 = 0,
              p_filesz32 = 0, p_memsz32 = 0, p_flags32 = 0, p_align32 = 0\<rparr>)
      else Ph64 (replicate n \<lparr>p_type = 0, p_flags = 0, p_offset = 0, p_vaddr = 0, p_paddr = 0,
              p_filesz = 0, p_memsz = 0, p_align = 0\<rparr>))"

text \<open>
  The table pointer is looked at before anything is known of the descriptor. In an archive its place in
  the union \<open>e_u\<close> holds \<open>e_nchildren\<close>, so that a number would be returned as a pointer: \<open>None\<close>.
  Nor is the class compared: a table of the other class is returned as it is.
\<close>

definition libelf_getphdr :: "libelf_state \<Rightarrow> nat option \<Rightarrow> int \<Rightarrow> (bool \<times> libelf_state) option" where
  "libelf_getphdr st e ec = do {
     c_assert (ec = ELFCLASS32 \<or> ec = ELFCLASS64);
     case e of
       None \<Rightarrow> Some (False, set_error ELF_E_ARGUMENT 0 st)
     | Some i \<Rightarrow> do {
         r \<leftarrow> get_elf st i;
         c_assert (\<not> (e_kind r = ELF_K_AR \<and> e_nchildren r \<noteq> 0));
         if e_phdr r \<noteq> None then Some (True, st)
         else do {
           (ok, st) \<leftarrow> libelf_ehdr st e ec False;
           if \<not> ok then Some (False, st)
           else do {
             r \<leftarrow> get_elf st i;
             eh \<leftarrow> e_ehdr r;
             let phnum = e_nphdr r;
             let phoff = ehdr_phoff eh;
             let (fsz, st) = gelf_fsize st (Some r) ELF_T_PHDR phnum (e_version r);
             c_assert (fsz > 0);
             if phoff + fsz < phoff then Some (False, set_error ELF_E_HEADER 0 st)
             else if e_rawsize r < phoff + fsz then Some (False, set_error ELF_E_HEADER 0 st)
             else do {
               (msz, st) \<leftarrow> libelf_msize st ELF_T_PHDR ec EV_CURRENT;
               if msz = 0 then Some (False, st)
               else do {
                 let (ok, st) = c_alloc st;
                 if \<not> ok then Some (False, set_error ELF_E_RESOURCE 0 st)
                 else do {
                   m \<leftarrow> libelf_elfmachine (Some r);
                   fss \<leftarrow> file_structs st r ec (Phdr_DEF ec) (unat phoff) (unat phnum);
                   ph \<leftarrow> phdrs_of ec fss;
                   Some (True, put_elf i (r\<lparr>e_phdr := Some ph\<rparr>) st) } } } } } } }"

definition libelf_newphdr ::
  "libelf_state \<Rightarrow> nat option \<Rightarrow> int \<Rightarrow> u64 \<Rightarrow> (bool \<times> libelf_state) option" where
  "libelf_newphdr st e ec count =
     (case e of
        None \<Rightarrow> Some (False, set_error ELF_E_ARGUMENT 0 st)
      | Some i \<Rightarrow> do {
          (ok, st) \<leftarrow> libelf_ehdr st e ec False;
          if \<not> ok then Some (False, set_error ELF_E_SEQUENCE 0 st)
          else do {
            r \<leftarrow> get_elf st i;
            c_assert (e_class r = ec);
            c_assert (e_version r = EV_CURRENT);
            (msz, st) \<leftarrow> libelf_msize st ELF_T_PHDR ec (e_version r);
            if msz = 0 then Some (False, st)
            else do {
              let (ok, st) = (if count > 0 then c_alloc st else (True, st));
              if \<not> ok then Some (False, set_error ELF_E_RESOURCE 0 st)
              else do {
                let new = (if count > 0 then Some (zero_phdrs ec (unat count)) else None);
                (f, st) \<leftarrow> elf_flagphdr (put_elf i (r\<lparr>e_phdr := new, e_nphdr := count\<rparr>) st) e
                  ELF_C_SET ELF_F_DIRTY;
                Some (new \<noteq> None, st) } } } })"

section \<open>Decoding is total\<close>

lemma field_ok_simps:
  "field_ok ec BYTE v \<longleftrightarrow> (\<exists>b. v = VByte b)"
  "field_ok ec HALF v \<longleftrightarrow> (\<exists>h. v = VHalf h)"
  "field_ok ec WORD v \<longleftrightarrow> (\<exists>w. v = VWord w)"
  "field_ok ec SWORD v \<longleftrightarrow> (\<exists>w. v = VWord w)"
  "field_ok ec LWORD v \<longleftrightarrow> (\<exists>x. v = VXword x)"
  "field_ok ec XWORD v \<longleftrightarrow> (\<exists>x. v = VXword x)"
  "field_ok ec SXWORD v \<longleftrightarrow> (\<exists>x. v = VXword x)"
  "field_ok ELFCLASS32 ADDR v \<longleftrightarrow> (\<exists>w. v = VWord w)"
  "field_ok ELFCLASS32 OFF v \<longleftrightarrow> (\<exists>w. v = VWord w)"
  "field_ok ELFCLASS64 ADDR v \<longleftrightarrow> (\<exists>x. v = VXword x)"
  "field_ok ELFCLASS64 OFF v \<longleftrightarrow> (\<exists>x. v = VXword x)"
  "field_ok ec IDENT v \<longleftrightarrow> (\<exists>i. v = VIdent i \<and> length i = EI_NIDENT)"
  by (cases v; simp add: field_ok_def)+

lemma ehdr_of_total:
  assumes "members_ok ec (Ehdr_DEF ec) fs" "ec = ELFCLASS32 \<or> ec = ELFCLASS64"
  shows "\<exists>eh. ehdr_of ec fs = Some eh \<and> (ec = ELFCLASS32 \<longleftrightarrow> (\<exists>h. eh = Eh32 h))"
  using assms
  by (elim disjE)
    (auto simp: members_ok_def Ehdr_DEF_def Elf32_Ehdr_DEF_def Elf64_Ehdr_DEF_def list_all2_Cons1
      field_ok_simps ehdr_of_def Elf32_Ehdr_of_def Elf64_Ehdr_of_def)

lemma shdr_of_total:
  assumes "members_ok ec (Shdr_DEF ec) fs" "ec = ELFCLASS32 \<or> ec = ELFCLASS64"
  shows "\<exists>sh. shdr_of ec fs = Some sh"
  using assms
  by (elim disjE)
    (auto simp: members_ok_def Shdr_DEF_def Elf32_Shdr_DEF_def Elf64_Shdr_DEF_def list_all2_Cons1
      field_ok_simps shdr_of_def Elf32_Shdr_of_def Elf64_Shdr_of_def)

lemma phdr_of_total:
  "members_ok ELFCLASS32 Elf32_Phdr_DEF fs \<Longrightarrow> \<exists>p. Elf32_Phdr_of fs = Some p"
  "members_ok ELFCLASS64 Elf64_Phdr_DEF fs \<Longrightarrow> \<exists>p. Elf64_Phdr_of fs = Some p"
  by (auto simp: members_ok_def Elf32_Phdr_DEF_def Elf64_Phdr_DEF_def list_all2_Cons1
      field_ok_simps Elf32_Phdr_of_def Elf64_Phdr_of_def)

section \<open>The invariant of an ELF descriptor\<close>

text \<open>The raw file is there, all of it.\<close>

definition raw_ok :: "libelf_state \<Rightarrow> Elf \<Rightarrow> bool" where
  "raw_ok st e \<longleftrightarrow> 0 \<le> sint (e_rawsize e)
     \<and> (\<exists>p. e_rawfile e = Some p \<and> window (heap st) p (unat (e_rawsize e)))"

text \<open>
  The sections are those in the tree, in a red-black tree; there are none before the header was
  read; the header has the class of the descriptor; a descriptor that reads has a file.
\<close>

definition scn_inv :: "Elf \<Rightarrow> bool" where
  "scn_inv e \<longleftrightarrow> rb_inv (e_scn e) \<and> rb_keys (e_scn e) = dom (e_scns e)
     \<and> (\<forall>n s. e_scns e n = Some s \<longrightarrow> s_ndx s = n)"

definition hdr_inv :: "Elf \<Rightarrow> bool" where
  "hdr_inv e \<longleftrightarrow> (e_ehdr e = None \<longrightarrow> e_scn e = RB_NULL)
     \<and> (\<forall>eh. e_ehdr e = Some eh \<longrightarrow>
          (e_class e = ELFCLASS32 \<and> (\<exists>h. eh = Eh32 h)) \<or> (e_class e = ELFCLASS64 \<and> (\<exists>h. eh = Eh64 h)))"

definition elf_inv :: "libelf_state \<Rightarrow> Elf \<Rightarrow> bool" where
  "elf_inv st e \<longleftrightarrow> scn_inv e \<and> hdr_inv e \<and> (e_cmd e \<noteq> ELF_C_WRITE \<longrightarrow> raw_ok st e)"

lemma scn_inv_cong: "scn_inv e \<Longrightarrow> e_scn e' = e_scn e \<Longrightarrow> e_scns e' = e_scns e \<Longrightarrow> scn_inv e'"
  by (simp add: scn_inv_def)

lemma scn_inv_add:
  "scn_inv e \<Longrightarrow> rb_inv (e_scn e') \<Longrightarrow> rb_keys (e_scn e') = insert n (rb_keys (e_scn e)) \<Longrightarrow>
   e_scns e' = (e_scns e)(n \<mapsto> s) \<Longrightarrow> s_ndx s = n \<Longrightarrow> scn_inv e'"
  by (simp add: scn_inv_def)

lemma scn_inv_set:
  "scn_inv e \<Longrightarrow> e_scn e' = e_scn e \<Longrightarrow> e_scns e' = (e_scns e)(n \<mapsto> s) \<Longrightarrow> e_scns e n = Some s0 \<Longrightarrow>
   s_ndx s = n \<Longrightarrow> scn_inv e'"
  by (auto simp: scn_inv_def insert_absorb domI)

lemma hdr_inv_cong:
  "hdr_inv e \<Longrightarrow> e_ehdr e' = e_ehdr e \<Longrightarrow> e_class e' = e_class e \<Longrightarrow>
   e_ehdr e \<noteq> None \<or> e_scn e' = e_scn e \<Longrightarrow> hdr_inv e'"
  by (auto simp: hdr_inv_def)

lemma raw_ok_cong:
  "raw_ok st e \<Longrightarrow> heap st' = heap st \<Longrightarrow> e_rawfile e' = e_rawfile e \<Longrightarrow>
   e_rawsize e' = e_rawsize e \<Longrightarrow> raw_ok st' e'"
  by (simp add: raw_ok_def)

lemma elf_invD: "elf_inv st e \<Longrightarrow> scn_inv e" "elf_inv st e \<Longrightarrow> hdr_inv e"
  "elf_inv st e \<Longrightarrow> e_cmd e \<noteq> ELF_C_WRITE \<Longrightarrow> raw_ok st e"
  by (simp_all add: elf_inv_def)

text \<open>What an operation on descriptor \<open>i\<close> leaves alone.\<close>

definition frame_ok :: "nat \<Rightarrow> libelf_state \<Rightarrow> libelf_state \<Rightarrow> bool" where
  "frame_ok i st st' \<longleftrightarrow> heap st' = heap st \<and> libelf_byteorder st' = libelf_byteorder st
     \<and> libelf_version st' = libelf_version st \<and> (\<forall>j. j \<noteq> i \<longrightarrow> get_elf st' j = get_elf st j)"

lemma frame_refl [simp]: "frame_ok i st st"
  by (simp add: frame_ok_def)

lemma frame_trans: "frame_ok i st st1 \<Longrightarrow> frame_ok i st1 st2 \<Longrightarrow> frame_ok i st st2"
  by (simp add: frame_ok_def)

lemma frame_put [simp]: "frame_ok i st (put_elf i e st') = frame_ok i st st'"
  by (auto simp: frame_ok_def get_elf_def put_elf_def)

lemma frame_error [simp]: "frame_ok i st (set_error er os st') = frame_ok i st st'"
  by (auto simp: frame_ok_def get_elf_def set_error_def)

lemma frame_fields:
  assumes "frame_ok i st st'"
  shows "heap st' = heap st" "libelf_byteorder st' = libelf_byteorder st" "host_order st' = host_order st"
  using assms by (simp_all add: frame_ok_def host_order_def)

lemma c_alloc_simps [simp]:
  "get_elf (snd (c_alloc st)) i = get_elf st i" "heap (snd (c_alloc st)) = heap st"
  "frame_ok i st0 (snd (c_alloc st)) = frame_ok i st0 st"
  "libelf_byteorder (snd (c_alloc st)) = libelf_byteorder st"
  by (simp_all add: c_alloc_def get_elf_def frame_ok_def)

lemma raw_ok_frame: "heap st' = heap st \<Longrightarrow> raw_ok st' e = raw_ok st e"
  by (simp add: raw_ok_def)

lemma elf_inv_frame: "frame_ok i st st' \<Longrightarrow> elf_inv st' e = elf_inv st e"
  by (simp add: elf_inv_def raw_ok_def frame_ok_def)

lemma elf_inv_simps [simp]:
  "elf_inv (set_error er os st) e = elf_inv st e" "elf_inv (put_elf i x st) e = elf_inv st e"
  "elf_inv (snd (c_alloc st)) e = elf_inv st e"
  by (simp_all add: elf_inv_def raw_ok_def)

lemma file_struct_total:
  assumes "raw_ok st e" "off + FSZ ec ms \<le> unat (e_rawsize e)"
  shows "\<exists>fs. file_struct st e ec ms off = Some fs \<and> members_ok ec ms fs"
proof -
  from assms(1) obtain p where p: "e_rawfile e = Some p" "window (heap st) p (unat (e_rawsize e))"
    by (auto simp: raw_ok_def)
  have "window (heap st) (ptr_add p off) (FSZ ec ms)" by (rule window_sub[OF p(2) assms(2)])
  then obtain bs where "mem_read (heap st) (ptr_add p off) (FSZ ec ms) = Some bs" "length bs = FSZ ec ms"
    by (rule window_readE)
  then show ?thesis using p(1) by (simp add: file_struct_def SWAP_MEMBERS_ok READ_MEMBERS_ok)
qed

lemma file_struct_cong:
  "frame_ok i st st' \<Longrightarrow> e_rawfile e' = e_rawfile e \<Longrightarrow> e_byteorder e' = e_byteorder e \<Longrightarrow>
   file_struct st' e' ec ms off = file_struct st e ec ms off"
  by (simp add: file_struct_def frame_ok_def host_order_def)

lemma allocate_scn_ok:
  assumes "get_elf st i = Some e" "rb_inv (e_scn e)" "n \<notin> rb_keys (e_scn e)"
  obtains (fail) st' where "libelf_allocate_scn st i n = Some (None, st')" "get_elf st' i = Some e"
      "frame_ok i st st'"
  | (ok) t st' where "libelf_allocate_scn st i n = Some (Some n, st')"
      "get_elf st' i = Some (e\<lparr>e_scn := t, e_scns := (e_scns e)(n \<mapsto> new_scn (e_class e) n)\<rparr>)"
      "rb_inv t" "rb_keys t = insert n (rb_keys (e_scn e))" "frame_ok i st st'"
proof (cases "fst (c_alloc st)")
  case False
  then show thesis using fail assms(1) by (auto simp: libelf_allocate_scn_def Let_def case_prod_unfold)
next
  case True
  obtain t where t: "RB_INSERT (e_scn e) n = Some (t, True)" "rb_inv t"
    "rb_keys t = insert n (rb_keys (e_scn e))"
    using RB_INSERT_new[OF assms(2,3)] by blast
  show thesis
    by (rule ok[OF _ _ t(2,3)])
      (use True assms(1) t(1) in \<open>auto simp: libelf_allocate_scn_def Let_def case_prod_unfold\<close>)
qed

text \<open>
  \<open>call_ok i st e r Q\<close>: the call returned, kept the invariant of descriptor \<open>i\<close>, what it knows of its
  file and every other descriptor, and established \<open>Q\<close>.
\<close>

definition same_file :: "Elf \<Rightarrow> Elf \<Rightarrow> bool" where
  "same_file e e' \<longleftrightarrow> e_kind e' = e_kind e \<and> e_cmd e' = e_cmd e \<and> e_version e' = e_version e
     \<and> e_rawfile e' = e_rawfile e \<and> e_rawsize e' = e_rawsize e \<and> e_byteorder e' = e_byteorder e"

definition call_ok ::
  "nat \<Rightarrow> libelf_state \<Rightarrow> Elf \<Rightarrow> (bool \<times> libelf_state) option \<Rightarrow> (bool \<Rightarrow> Elf \<Rightarrow> bool) \<Rightarrow> bool" where
  "call_ok i st e r Q \<longleftrightarrow> (\<exists>b st' e'. r = Some (b, st') \<and> get_elf st' i = Some e' \<and> elf_inv st' e'
     \<and> frame_ok i st st' \<and> same_file e e' \<and> Q b e')"

lemma call_okI:
  "r = Some (b, st') \<Longrightarrow> get_elf st' i = Some e' \<Longrightarrow> elf_inv st' e' \<Longrightarrow> frame_ok i st st' \<Longrightarrow>
   same_file e e' \<Longrightarrow> Q b e' \<Longrightarrow> call_ok i st e r Q"
  by (auto simp: call_ok_def)

lemma call_okE:
  assumes "call_ok i st e r Q"
  obtains b st' e' where "r = Some (b, st')" "get_elf st' i = Some e'" "elf_inv st' e'"
    "frame_ok i st st'" "same_file e e'" "Q b e'"
  using assms by (auto simp: call_ok_def)

lemma call_ok_mono:
  "call_ok i st e r Q \<Longrightarrow> (\<And>b e'. Q b e' \<Longrightarrow> Q' b e') \<Longrightarrow> call_ok i st e r Q'"
  unfolding call_ok_def by blast

lemma same_file_refl [simp]: "same_file e e"
  by (simp add: same_file_def)

lemma same_file_trans: "same_file e e1 \<Longrightarrow> same_file e1 e2 \<Longrightarrow> same_file e e2"
  by (simp add: same_file_def)

lemma call_ok_trans:
  assumes "call_ok i st1 e1 r Q" "frame_ok i st st1" "same_file e e1"
    "\<And>b e'. same_file e1 e' \<Longrightarrow> Q b e' \<Longrightarrow> Q' b e'"
  shows "call_ok i st e r Q'"
proof -
  from assms(1) obtain b st' e' where r: "r = Some (b, st')" "get_elf st' i = Some e'"
    "elf_inv st' e'" "frame_ok i st1 st'" "same_file e1 e'" "Q b e'" by (rule call_okE)
  show ?thesis
    using r(1-3) frame_trans[OF assms(2) r(4)] same_file_trans[OF assms(3) r(5)]
      assms(4)[OF r(5,6)]
    by (rule call_okI)
qed

lemma shdr_fsize_current:
  assumes "ec = ELFCLASS32 \<or> ec = ELFCLASS64"
  shows "libelf_fsize st ELF_T_SHDR ec EV_CURRENT 1 = (of_nat (FSZ ec (Shdr_DEF ec)), st)"
    "FSZ ec (Shdr_DEF ec) = (if ec = ELFCLASS32 then 40 else 64)"
    "libelf_fsize st ELF_T_EHDR ec EV_CURRENT 1 = (of_nat (FSZ ec (Ehdr_DEF ec)), st)"
    "FSZ ec (Ehdr_DEF ec) = (if ec = ELFCLASS32 then 52 else 64)"
  using assms by (auto simp: libelf_fsize_def Let_def Shdr_DEF_def Ehdr_DEF_def layout_simps)

lemma no_overflow_sum:
  fixes a b :: u64
  assumes "\<not> a + b < a"
  shows "unat (a + b) = unat a + unat b"
proof (cases "unat a + unat b < 2 ^ 64")
  case True
  then show ?thesis by (simp add: unat_word_ariths)
next
  case False
  then have "unat (a + b) = unat a + unat b - 2 ^ 64"
    using unat_lt2p[of a] unat_lt2p[of b] by (simp add: unat_word_ariths le_mod_geq)
  then have "unat (a + b) < unat a" using False unat_lt2p[of b] by simp
  then show ?thesis using assms by (simp add: word_less_nat_alt)
qed

lemma put_elf_same: "get_elf st i = Some e \<Longrightarrow> put_elf i e st = st"
  by (cases st) (auto simp: put_elf_def get_elf_def)

lemma sint_unat_nonneg: "0 \<le> sint (x :: u64) \<Longrightarrow> sint x = int (unat x)"
  using sint_lt[of x] by (simp add: uint_sint take_bit_int_eq_self)

text \<open>
  The counts of a descriptor, and what the header and section 0 say they are: with extended numbering
  (an empty \<open>e_shnum\<close> with a section table, or an escape value in one of the other two) they come from
  section 0.
\<close>

definition counts :: "Elf \<Rightarrow> u64 \<times> u64 \<times> u64" where
  "counts e = (e_nscn e, e_nphdr e, e_strndx e)"

definition uses_extended :: "ehdr \<Rightarrow> bool" where
  "uses_extended eh \<longleftrightarrow> (ehdr_shnum eh = 0 \<and> ehdr_shoff eh \<noteq> 0)
     \<or> (ucast (ehdr_phnum eh) :: u64) = PN_XNUM \<or> (ucast (ehdr_shstrndx eh) :: u64) = SHN_XINDEX"

definition extended_counts :: "u16 \<Rightarrow> u16 \<Rightarrow> shdr \<Rightarrow> u64 \<times> u64 \<times> u64" where
  "extended_counts phnum strndx sh =
     (shdr_size sh, (if ucast phnum \<noteq> PN_XNUM then ucast phnum else ucast (shdr_info sh)),
      (if ucast strndx \<noteq> SHN_XINDEX then ucast strndx else ucast (shdr_link sh)))"

definition decoded_counts :: "ehdr \<Rightarrow> shdr \<Rightarrow> u64 \<times> u64 \<times> u64" where
  "decoded_counts eh sh =
     (if uses_extended eh then extended_counts (ehdr_phnum eh) (ehdr_shstrndx eh) sh
      else (ucast (ehdr_shnum eh), ucast (ehdr_phnum eh), ucast (ehdr_shstrndx eh)))"

lemma load_extended_ok:
  assumes e: "get_elf st i = Some e" "elf_inv st e" "e_scn e = RB_NULL" "raw_ok st e" "e_ehdr e \<noteq> None"
    and k: "e_kind e = ELF_K_ELF" "e_version e = EV_CURRENT" "e_class e = ec"
    and ec: "ec = ELFCLASS32 \<or> ec = ELFCLASS64"
  shows "call_ok i st e (libelf_load_extended st i ec shoff phnum strndx)
    (\<lambda>b e'. e_ehdr e' = e_ehdr e \<and> e_class e' = e_class e \<and> e_flags e' = e_flags e
       \<and> rb_keys (e_scn e') \<subseteq> {0}
       \<and> (b \<longrightarrow> (\<exists>s. e_scns e' 0 = Some s \<and> counts e' = extended_counts phnum strndx (s_shdr s))))"
proof -
  let ?f = "FSZ ec (Shdr_DEF ec)"
  have fz: "libelf_fsize st ELF_T_SHDR ec (e_version e) 1 = (of_nat ?f, st)"
    "?f = (if ec = ELFCLASS32 then 40 else 64)"
    using shdr_fsize_current[OF ec] k(2) by simp_all
  then have fpos: "(of_nat ?f :: u64) > 0" "unat (of_nat ?f :: u64) = ?f" using ec by auto
  have keys: "rb_keys (e_scn e) = {}" using e(3) by (simp add: rb_keys_def)
  show ?thesis
  proof (cases "shoff + of_nat ?f < shoff \<or> e_rawsize e < shoff + of_nat ?f")
    case True
    then have "libelf_load_extended st i ec shoff phnum strndx = Some (False, set_error ELF_E_HEADER 0 st)"
      by (auto simp: libelf_load_extended_def e(1,3) fz(1) fpos(1))
    then show ?thesis
      by (rule call_okI) (use e keys in auto)
  next
    case False
    then have fit: "unat shoff + ?f \<le> unat (e_rawsize e)"
      using no_overflow_sum[of shoff "of_nat ?f"] fpos(2) by (simp add: word_le_nat_alt not_less)
    have "rb_inv (e_scn e)" "0 \<notin> rb_keys (e_scn e)"
      using e(2) keys by (auto simp: elf_inv_def scn_inv_def)
    with e(1) show ?thesis
    proof (cases rule: allocate_scn_ok)
      case (fail st')
      then have "libelf_load_extended st i ec shoff phnum strndx = Some (False, st')"
        using False by (auto simp: libelf_load_extended_def e(1,3) fz(1) fpos(1))
      then show ?thesis
        by (rule call_okI) (use e keys fail elf_inv_frame[OF fail(3)] in auto)
    next
      case (ok t st')
      let ?e1 = "e\<lparr>e_scn := t, e_scns := (e_scns e)(0 \<mapsto> new_scn (e_class e) 0)\<rparr>"
      have raw: "raw_ok st' ?e1" using e(4) frame_fields(1)[OF ok(5)] by (simp add: raw_ok_def)
      have "unat shoff + ?f \<le> unat (e_rawsize ?e1)" using fit by simp
      from file_struct_total[OF raw this] obtain fs where fs:
        "file_struct st' ?e1 ec (Shdr_DEF ec) (unat shoff) = Some fs" "members_ok ec (Shdr_DEF ec) fs"
        by blast
      obtain sh where sh: "shdr_of ec fs = Some sh" using shdr_of_total[OF fs(2) ec] by blast
      obtain m where m: "libelf_elfmachine (Some ?e1) = Some m"
        using k ec by (auto simp: libelf_elfmachine_def)
      let ?e2 = "e\<lparr>e_scn := t, e_scns := (e_scns e)(0 \<mapsto> new_scn (e_class e) 0\<lparr>s_shdr := sh\<rparr>)\<rparr>"
      let ?e3 = "?e2\<lparr>e_nscn := shdr_size sh,
          e_nphdr := (if ucast phnum \<noteq> PN_XNUM then ucast phnum else ucast (shdr_info sh)),
          e_strndx := (if ucast strndx \<noteq> SHN_XINDEX then ucast strndx else ucast (shdr_link sh))\<rparr>"
      have res: "libelf_load_extended st i ec shoff phnum strndx =
          (if shdr_type sh \<noteq> SHT_NULL then Some (False, set_error ELF_E_SECTION 0 (put_elf i ?e2 st'))
           else Some (True, put_elf i ?e3 st'))"
      proof -
        have c: "\<not> shoff + of_nat ?f < shoff" "\<not> e_rawsize e < shoff + of_nat ?f"
          using False by simp_all
        show ?thesis
          unfolding libelf_load_extended_def e(1,3) fz(1) Let_def bind.simps prod.case c_assert_def
            if_P[OF fpos(1)] if_P[OF refl] if_not_P[OF c(1)] if_not_P[OF c(2)] ok(1,2) option.case
            m fs(1) sh
          by simp
      qed
      have "scn_inv ?e2"
        by (rule scn_inv_add[OF elf_invD(1)[OF e(2)], where n = 0 and s = "new_scn (e_class e) 0\<lparr>s_shdr := sh\<rparr>"])
          (simp_all add: ok(3,4) new_scn_def)
      moreover have "hdr_inv ?e2" by (rule hdr_inv_cong[OF elf_invD(2)[OF e(2)]]) (simp_all add: e(5))
      moreover have "raw_ok st' ?e2" by (rule raw_ok_cong[OF raw]) simp_all
      ultimately have inv: "elf_inv st' ?e2"
        "elf_inv st' (?e2\<lparr>e_nscn := a, e_nphdr := b, e_strndx := c\<rparr>)" for a b c
        by (auto simp: elf_inv_def intro: scn_inv_cong hdr_inv_cong raw_ok_cong)
      show ?thesis
      proof (cases "shdr_type sh = SHT_NULL")
        case True
        then have "libelf_load_extended st i ec shoff phnum strndx = Some (True, put_elf i ?e3 st')"
          using res by simp
        then show ?thesis
          by (rule call_okI[where e' = ?e3]) (simp_all add: inv(2) ok(4,5) keys same_file_def counts_def extended_counts_def)
      next
        case False
        then have "libelf_load_extended st i ec shoff phnum strndx
            = Some (False, set_error ELF_E_SECTION 0 (put_elf i ?e2 st'))"
          using res by simp
        then show ?thesis
          by (rule call_okI[where e' = ?e2]) (simp_all add: inv(1) ok(4,5) keys same_file_def)
      qed
    qed
  qed
qed

section \<open>Reading the header and the section table\<close>

text \<open>The counts are those of the header; section 0 is there when they come from it.\<close>

definition header_read :: "Elf \<Rightarrow> ehdr \<Rightarrow> bool" where
  "header_read e eh \<longleftrightarrow> (if uses_extended eh
     then \<exists>s. e_scns e 0 = Some s \<and> counts e = decoded_counts eh (s_shdr s)
     else e_scn e = RB_NULL \<and> (\<forall>sh. counts e = decoded_counts eh sh))"

text \<open>What \<open>_libelf_ehdr\<close> promises, whatever the bytes of the file are.\<close>

lemma ehdr_from_file_ok:
  assumes e: "get_elf st i = Some e" "elf_inv st e" "raw_ok st e" "e_ehdr e \<noteq> None" "e_scn e = RB_NULL"
    and k: "e_kind e = ELF_K_ELF" "e_version e = EV_CURRENT" "e_class e = ec"
    and ec: "ec = ELFCLASS32 \<or> ec = ELFCLASS64"
    and sz: "FSZ ec (Ehdr_DEF ec) \<le> unat (e_rawsize e)"
  shows "call_ok i st e (ehdr_from_file st i ec)
    (\<lambda>b e'. e_class e' = ec \<and> e_flags e' = e_flags e \<and> rb_keys (e_scn e') \<subseteq> {0}
       \<and> (\<exists>fs eh. file_struct st e ec (Ehdr_DEF ec) 0 = Some fs \<and> ehdr_of ec fs = Some eh
            \<and> e_ehdr e' = Some eh \<and> (b \<longrightarrow> header_read e' eh)))"
proof -
  obtain m where m: "libelf_elfmachine (Some e) = Some m" using k ec by (auto simp: libelf_elfmachine_def)
  have "0 + FSZ ec (Ehdr_DEF ec) \<le> unat (e_rawsize e)" using sz by simp
  from file_struct_total[OF e(3) this] obtain fs where fs:
    "file_struct st e ec (Ehdr_DEF ec) 0 = Some fs" "members_ok ec (Ehdr_DEF ec) fs" by blast
  obtain eh where eh: "ehdr_of ec fs = Some eh" "ec = ELFCLASS32 \<longleftrightarrow> (\<exists>h. eh = Eh32 h)"
    using ehdr_of_total[OF fs(2) ec] by blast
  have cls: "ec = ELFCLASS32 \<and> (\<exists>h. eh = Eh32 h) \<or> ec = ELFCLASS64 \<and> (\<exists>h. eh = Eh64 h)"
    using ec eh(2) by (cases eh) auto
  let ?e1 = "e\<lparr>e_ehdr := Some eh\<rparr>"
  let ?st1 = "put_elf i ?e1 st"
  let ?bad = "ucast (ehdr_shnum eh) \<ge> SHN_LORESERVE \<or> (ehdr_shoff eh = 0 \<and> (ehdr_shnum eh \<noteq> 0
      \<or> (ucast (ehdr_phnum eh) :: u64) = PN_XNUM \<or> (ucast (ehdr_shstrndx eh) :: u64) = SHN_XINDEX))"
  let ?ext = "(ehdr_shnum eh = 0 \<and> ehdr_shoff eh \<noteq> 0) \<or> (ucast (ehdr_phnum eh) :: u64) = PN_XNUM
      \<or> (ucast (ehdr_shstrndx eh) :: u64) = SHN_XINDEX"
  let ?e2 = "?e1\<lparr>e_nphdr := ucast (ehdr_phnum eh), e_nscn := ucast (ehdr_shnum eh),
      e_strndx := ucast (ehdr_shstrndx eh)\<rparr>"
  have "scn_inv ?e1" by (rule scn_inv_cong[OF elf_invD(1)[OF e(2)]]) simp_all
  moreover have "hdr_inv ?e1" using cls k(3) by (simp add: hdr_inv_def)
  moreover have raw1: "raw_ok ?st1 ?e1" by (rule raw_ok_cong[OF e(3)]) simp_all
  ultimately have inv: "elf_inv ?st1 ?e1" "elf_inv ?st1 ?e2"
    by (auto simp: elf_inv_def intro: scn_inv_cong hdr_inv_cong raw_ok_cong)
  have res: "ehdr_from_file st i ec =
      (if ?bad then Some (False, set_error ELF_E_HEADER 0 ?st1)
       else if ?ext then libelf_load_extended ?st1 i ec (ehdr_shoff eh) (ehdr_phnum eh) (ehdr_shstrndx eh)
       else Some (True, put_elf i ?e2 st))"
    unfolding ehdr_from_file_def e(1) bind.simps m fs(1) eh(1) Let_def by simp
  have fr: "frame_ok i st ?st1" "same_file e ?e1" by (simp_all add: same_file_def)
  show ?thesis
  proof (cases ?bad)
    case True
    note res[unfolded if_P[OF True]]
    then show ?thesis
      by (rule call_okI[where e' = ?e1]) (use inv(1) fr e(5) k(3) fs(1) eh(1) in \<open>simp_all add: rb_keys_def\<close>)
  next
    case bad: False
    show ?thesis
    proof (cases ?ext)
      case True
      note r = res[unfolded if_not_P[OF bad] if_P[OF True]]
      have "call_ok i ?st1 ?e1
        (libelf_load_extended ?st1 i ec (ehdr_shoff eh) (ehdr_phnum eh) (ehdr_shstrndx eh))
        (\<lambda>b e'. e_ehdr e' = e_ehdr ?e1 \<and> e_class e' = e_class ?e1 \<and> e_flags e' = e_flags ?e1
          \<and> rb_keys (e_scn e') \<subseteq> {0} \<and> (b \<longrightarrow> (\<exists>s. e_scns e' 0 = Some s
            \<and> counts e' = extended_counts (ehdr_phnum eh) (ehdr_shstrndx eh) (s_shdr s))))"
        by (rule load_extended_ok[OF _ inv(1) _ raw1]) (use e(5) k ec in simp_all)
      then show ?thesis unfolding r
        by (rule call_ok_trans[OF _ fr])
          (use True k(3) fs(1) eh(1) in \<open>simp add: header_read_def decoded_counts_def uses_extended_def\<close>)
    next
      case False
      note res[unfolded if_not_P[OF bad] if_not_P[OF False]]
      then show ?thesis
        by (rule call_okI[where e' = ?e2])
          (use False[folded uses_extended_def] inv(2) fr e(5) k(3) fs(1) eh(1) in \<open>simp_all add: rb_keys_def
            same_file_def header_read_def decoded_counts_def counts_def\<close>)
    qed
  qed
qed

lemma ehdr_cached:
  assumes "get_elf st i = Some e" "e_ehdr e \<noteq> None" "e_kind e = ELF_K_ELF" "e_version e = EV_CURRENT"
    and "e_class e = ELFCLASS32 \<or> e_class e = ELFCLASS64"
  shows "libelf_ehdr st (Some i) (e_class e) allocate = Some (True, put_elf i e st)"
  using assms by (auto simp: libelf_ehdr_def c_assert_def)

lemma libelf_ehdr_fresh:
  assumes e: "get_elf st i = Some e" and ec: "ec = ELFCLASS32 \<or> ec = ELFCLASS64"
    and k: "e_kind e = ELF_K_ELF" "e_version e = EV_CURRENT" "e_class e = ELFCLASSNONE \<or> e_class e = ec"
    and none: "e_ehdr e = None"
    and st1: "st1 = put_elf i (e\<lparr>e_class := ec\<rparr>) st" and st2: "st2 = snd (c_alloc st1)"
    and e2: "e2 = e\<lparr>e_class := ec, e_ehdr := Some (ehdr_init ec (libelf_version st2)),
       e_flags := (if allocate then e_flags e OR ELF_F_DIRTY else e_flags e)\<rparr>"
  shows "libelf_ehdr st (Some i) ec allocate =
       (if e_cmd e \<noteq> ELF_C_WRITE \<and> sint (e_rawsize e) < int (FSZ ec (Ehdr_DEF ec))
        then Some (False, set_error ELF_E_HEADER 0 st1)
        else if \<not> fst (c_alloc st1) then Some (False, set_error ELF_E_RESOURCE 0 st2)
        else if e_cmd e = ELF_C_WRITE then Some (True, put_elf i e2 st2)
        else ehdr_from_file (put_elf i e2 st2) i ec)"
proof -
  let ?f = "FSZ ec (Ehdr_DEF ec)"
  have e1: "(if e_class e = ELFCLASSNONE then e\<lparr>e_class := ec\<rparr> else e) = e\<lparr>e_class := ec\<rparr>" using k(3) by auto
  have guards: "\<not> e_kind e \<noteq> ELF_K_ELF" "\<not> (e_class e \<noteq> ELFCLASSNONE \<and> e_class e \<noteq> ec)"
    "\<not> e_version e \<noteq> EV_CURRENT" using k by auto
  note start = libelf_ehdr_def c_assert_def if_P[OF ec] if_P[OF refl] bind.simps option.case e prod.case
    if_not_P[OF guards(1)] if_not_P[OF guards(2)] if_not_P[OF guards(3)] Let_def e1
  have fz: "libelf_fsize st1 ELF_T_EHDR ec EV_CURRENT 1 = (of_nat ?f, st1)"
    "?f = (if ec = ELFCLASS32 then 52 else 64)"
    using shdr_fsize_current(3,4)[OF ec] by simp_all
  then have fpos: "(of_nat ?f :: u64) > 0" "sint (of_nat ?f :: u64) = int ?f" "(of_nat ?f :: u64) \<noteq> 0"
    using ec by auto
  have mz: "libelf_msize st1 ELF_T_EHDR ec EV_CURRENT = Some (of_nat ?f, st1)"
    using ec by (auto simp: libelf_msize_def c_assert_def Let_def Ehdr_DEF_def layout_simps)
  show ?thesis
    unfolding start using none k(2) fz(1) mz fpos
    by (simp add: case_prod_unfold Let_def st1 st2 e2)
qed

lemma libelf_ehdr_ok:
  assumes e: "get_elf st i = Some e" "elf_inv st e" and ec: "ec = ELFCLASS32 \<or> ec = ELFCLASS64"
  shows "call_ok i st e (libelf_ehdr st (Some i) ec allocate)
    (\<lambda>b e'. (b \<longrightarrow> e_ehdr e' \<noteq> None \<and> e_class e' = ec \<and> e_kind e = ELF_K_ELF \<and> e_version e = EV_CURRENT)
       \<and> (e_ehdr e \<noteq> None \<longrightarrow> e_ehdr e' = e_ehdr e \<and> e_scn e' = e_scn e \<and> e_nscn e' = e_nscn e)
       \<and> (allocate \<or> e_flags e' = e_flags e)
       \<and> (e_ehdr e = None \<longrightarrow> rb_keys (e_scn e') \<subseteq> {0}
            \<and> (b \<longrightarrow> e_cmd e \<noteq> ELF_C_WRITE \<longrightarrow>
                 (\<exists>fs eh. file_struct st e ec (Ehdr_DEF ec) 0 = Some fs \<and> ehdr_of ec fs = Some eh
                    \<and> e_ehdr e' = Some eh \<and> header_read e' eh))))"
    (is "call_ok i st e ?r ?Q")
proof (cases "e_kind e = ELF_K_ELF \<and> (e_class e = ELFCLASSNONE \<or> e_class e = ec) \<and> e_version e = EV_CURRENT")
  case False
  have null: "e_ehdr e = None \<longrightarrow> rb_keys (e_scn e) \<subseteq> {0}"
    using elf_invD(2)[OF e(2)] by (auto simp: hdr_inv_def rb_keys_def)
  let ?er = "if e_kind e \<noteq> ELF_K_ELF then ELF_E_ARGUMENT
    else if e_class e \<noteq> ELFCLASSNONE \<and> e_class e \<noteq> ec then ELF_E_CLASS else ELF_E_VERSION"
  have "?r = Some (False, set_error ?er 0 st)"
    using False ec by (simp add: libelf_ehdr_def e(1) c_assert_def) blast
  then show ?thesis by (rule call_okI[where e' = e]) (use e null in simp_all)
next
  case True
  then have k: "e_kind e = ELF_K_ELF" "e_version e = EV_CURRENT" "e_class e = ELFCLASSNONE \<or> e_class e = ec"
    by simp_all
  let ?e1 = "e\<lparr>e_class := ec\<rparr>"
  have e1: "(if e_class e = ELFCLASSNONE then ?e1 else e) = ?e1" using k(3) by (auto)
  let ?st1 = "put_elf i ?e1 st"
  have h1: "hdr_inv ?e1" using elf_invD(2)[OF e(2)] k(3) by (auto simp: hdr_inv_def)
  have inv1: "elf_inv st ?e1"
    using e(2) h1 by (auto simp: elf_inv_def intro: scn_inv_cong raw_ok_cong)
  have guards: "\<not> e_kind e \<noteq> ELF_K_ELF" "\<not> (e_class e \<noteq> ELFCLASSNONE \<and> e_class e \<noteq> ec)"
    "\<not> e_version e \<noteq> EV_CURRENT" using k by auto
  note start = libelf_ehdr_def c_assert_def if_P[OF ec] if_P[OF refl] bind.simps option.case e(1) prod.case
    if_not_P[OF guards(1)] if_not_P[OF guards(2)] if_not_P[OF guards(3)] Let_def e1
  show ?thesis
  proof (cases "e_ehdr e = None")
    case False
    then have "?r = Some (True, ?st1)" unfolding start by simp
    then show ?thesis
      by (rule call_okI[where e' = ?e1]) (use inv1 False k in \<open>auto simp: same_file_def\<close>)
  next
    case none: True
    let ?f = "FSZ ec (Ehdr_DEF ec)"
    let ?st2 = "snd (c_alloc ?st1)"
    let ?e2 = "?e1\<lparr>e_ehdr := Some (ehdr_init ec (libelf_version ?st2)),
       e_flags := (if allocate then e_flags e OR ELF_F_DIRTY else e_flags e)\<rparr>"
    have empty: "e_scn e = RB_NULL" using elf_invD(2)[OF e(2)] none by (simp add: hdr_inv_def)
    have "hdr_inv ?e2" using ec by (auto simp: hdr_inv_def ehdr_init_def)
    then have inv2: "elf_inv ?st2 ?e2"
      using e(2) by (auto simp: elf_inv_def intro: scn_inv_cong raw_ok_cong)
    have res: "?r = (if e_cmd e \<noteq> ELF_C_WRITE \<and> sint (e_rawsize e) < int ?f
        then Some (False, set_error ELF_E_HEADER 0 ?st1)
        else if \<not> fst (c_alloc ?st1) then Some (False, set_error ELF_E_RESOURCE 0 ?st2)
        else if e_cmd e = ELF_C_WRITE then Some (True, put_elf i ?e2 ?st2)
        else ehdr_from_file (put_elf i ?e2 ?st2) i ec)"
      by (rule libelf_ehdr_fresh[OF e(1) ec k none refl refl]) simp
    have fr: "frame_ok i st ?st2" "same_file e ?e1" "same_file e ?e2" "rb_keys (e_scn e) = {}"
      by (simp_all add: same_file_def empty rb_keys_def)
    show ?thesis
    proof (cases "(e_cmd e \<noteq> ELF_C_WRITE \<and> sint (e_rawsize e) < int ?f) \<or> \<not> fst (c_alloc ?st1)")
      case True
      then obtain er st' where "?r = Some (False, set_error er 0 st')" "st' = ?st1 \<or> st' = ?st2"
        using res by metis
      then show ?thesis
        by (intro call_okI[where e' = ?e1 and b = False and st' = "set_error er 0 st'"]) (use inv1 fr none in auto)
    next
      case False
      show ?thesis
      proof (cases "e_cmd e = ELF_C_WRITE")
        case True
        with False have "?r = Some (True, put_elf i ?e2 ?st2)" using res by simp
        then show ?thesis
          by (rule call_okI[where e' = ?e2]) (use inv2 fr none k True in simp_all)
      next
        case reads: False
        with False have r: "?r = ehdr_from_file (put_elf i ?e2 ?st2) i ec" using res by simp
        have raw: "raw_ok st e" using elf_invD(3)[OF e(2) reads] .
        then have nn: "0 \<le> sint (e_rawsize e)" by (simp add: raw_ok_def)
        have "int ?f \<le> sint (e_rawsize e)" using False reads by simp
        then have sz: "?f \<le> unat (e_rawsize e)" unfolding sint_unat_nonneg[OF nn] of_nat_le_iff .
        have raw2: "raw_ok (put_elf i ?e2 ?st2) ?e2" by (rule raw_ok_cong[OF raw]) simp_all
        have "call_ok i (put_elf i ?e2 ?st2) ?e2 (ehdr_from_file (put_elf i ?e2 ?st2) i ec)
          (\<lambda>b e'. e_class e' = ec \<and> e_flags e' = e_flags ?e2 \<and> rb_keys (e_scn e') \<subseteq> {0}
             \<and> (\<exists>fs eh. file_struct (put_elf i ?e2 ?st2) ?e2 ec (Ehdr_DEF ec) 0 = Some fs
                  \<and> ehdr_of ec fs = Some eh \<and> e_ehdr e' = Some eh \<and> (b \<longrightarrow> header_read e' eh)))"
          by (rule ehdr_from_file_ok[OF _ _ raw2]) (use inv2 empty k ec sz in simp_all)
        then show ?thesis unfolding r
          by (rule call_ok_trans[OF _ _ fr(3)])
            (use fr none k file_struct_cong[of i st "put_elf i ?e2 ?st2" ?e2 e] in auto)
      qed
    qed
  qed
qed

section \<open>Extended numbering\<close>

lemma scn0_update_ok:
  assumes "get_elf st i = Some e" "elf_inv st e" "e_scns e 0 = Some s"
  shows "scn0_update st i f = Some (True, put_elf i (e\<lparr>e_scns := (e_scns e)(0 \<mapsto>
      s\<lparr>s_shdr := f (s_shdr s), s_flags := s_flags s OR ELF_F_DIRTY\<rparr>)\<rparr>) st)"
proof -
  have "rb_inv (e_scn e)" "0 \<in> rb_keys (e_scn e)" "s_ndx s = 0"
    using assms by (auto simp: elf_inv_def scn_inv_def)
  then show ?thesis
    using assms(1,3) scn.least_Some[of "e_scn e" 0]
    by (simp add: scn0_update_def libelf_getscn0_def get_scn_def put_scn_def c_assert_def
        elf_flagshdr_def elf_flagscn_def flag_update_def Let_def)
qed

lemma scn0_update_inv:
  assumes "elf_inv st e" "e_scns e 0 = Some s"
  shows "elf_inv (put_elf i x st) (e\<lparr>e_scns := (e_scns e)(0 \<mapsto> s\<lparr>s_shdr := sh, s_flags := f\<rparr>)\<rparr>)"
proof -
  have "s_ndx s = 0" using assms by (simp add: elf_inv_def scn_inv_def)
  then have "scn_inv (e\<lparr>e_scns := (e_scns e)(0 \<mapsto> s\<lparr>s_shdr := sh, s_flags := f\<rparr>)\<rparr>)"
    using scn_inv_set[OF elf_invD(1)[OF assms(1)], where n = 0] assms(2) by simp
  then show ?thesis using assms(1) by (simp add: elf_inv_def hdr_inv_def raw_ok_def)
qed

text \<open>What each setter leaves in the header and in section 0; \<open>q\<close> says that the counts agree.\<close>

definition sets_header ::
  "nat \<Rightarrow> Elf \<Rightarrow> ehdr \<Rightarrow> Elf_Scn \<Rightarrow> (bool \<times> libelf_state) option \<Rightarrow> (ehdr \<Rightarrow> shdr \<Rightarrow> bool) \<Rightarrow> bool" where
  "sets_header i e eh s r q \<longleftrightarrow> (\<exists>st' e' eh' s'. r = Some (True, st') \<and> get_elf st' i = Some e' \<and> elf_inv st' e'
     \<and> e_ehdr e' = Some eh' \<and> e_scns e' 0 = Some s' \<and> e_class e' = e_class e \<and> q eh' (s_shdr s'))"

lemma set_header_inv:
  "elf_inv st e \<Longrightarrow> e_ehdr e = Some (Eh32 h) \<Longrightarrow> elf_inv (put_elf i x st) (e\<lparr>e_ehdr := Some (Eh32 h')\<rparr>)"
  "elf_inv st e \<Longrightarrow> e_ehdr e = Some (Eh64 g) \<Longrightarrow> elf_inv (put_elf i x st) (e\<lparr>e_ehdr := Some (Eh64 g')\<rparr>)"
  by (auto simp: elf_inv_def scn_inv_def hdr_inv_def raw_ok_def)

lemma ehdr_update_ok:
  assumes "get_elf st i = Some e" "elf_inv st e" "e_ehdr e = Some eh" "e_scns e 0 = Some s"
    and "\<And>h. \<exists>h'. f (Eh32 h) = Eh32 h'" "\<And>h. \<exists>h'. f (Eh64 h) = Eh64 h'"
  shows "\<exists>st' e'. ehdr_update st i f = Some (True, st') \<and> get_elf st' i = Some e' \<and> elf_inv st' e'
    \<and> e_ehdr e' = Some (f eh) \<and> e_scns e' 0 = Some s \<and> e_class e' = e_class e"
proof -
  let ?e' = "e\<lparr>e_ehdr := Some (f eh)\<rparr>"
  have "elf_inv (put_elf i ?e' st) ?e'"
  proof (cases eh)
    case (Eh32 h)
    then obtain h' where "f eh = Eh32 h'" using assms(5) by blast
    then show ?thesis using set_header_inv(1)[OF assms(2)] assms(3) Eh32 by simp
  next
    case (Eh64 h)
    then obtain h' where "f eh = Eh64 h'" using assms(6) by blast
    then show ?thesis using set_header_inv(2)[OF assms(2)] assms(3) Eh64 by simp
  qed
  moreover have "ehdr_update st i f = Some (True, put_elf i ?e' st)"
    using assms(1,3) by (simp add: ehdr_update_def)
  ultimately show ?thesis using assms(4) by (intro exI[of _ "put_elf i ?e' st"] exI[of _ ?e']) simp
qed

lemma setter_ok:
  assumes e: "get_elf st i = Some e" "elf_inv st e" "e_ehdr e = Some eh" "e_scns e 0 = Some s"
    and r: "r = (if big then do { (ok, st) \<leftarrow> scn0_update st i g; if \<not> ok then Some (False, st) else ehdr_update st i f1 }
                 else ehdr_update st i f2)"
    and f: "\<And>h. \<exists>h'. f1 (Eh32 h) = Eh32 h'" "\<And>h. \<exists>h'. f1 (Eh64 h) = Eh64 h'"
      "\<And>h. \<exists>h'. f2 (Eh32 h) = Eh32 h'" "\<And>h. \<exists>h'. f2 (Eh64 h) = Eh64 h'"
  shows "sets_header i e eh s r (\<lambda>eh' sh'. eh' = (if big then f1 eh else f2 eh)
     \<and> sh' = (if big then g (s_shdr s) else s_shdr s))"
proof (cases big)
  case False
  then show ?thesis using ehdr_update_ok[OF e, of f2] f(3,4) r by (auto simp: sets_header_def)
next
  case True
  let ?s = "s\<lparr>s_shdr := g (s_shdr s), s_flags := s_flags s OR ELF_F_DIRTY\<rparr>"
  let ?e1 = "e\<lparr>e_scns := (e_scns e)(0 \<mapsto> ?s)\<rparr>"
  have "elf_inv (put_elf i ?e1 st) ?e1" by (rule scn0_update_inv[OF e(2,4)])
  then have "\<exists>st' e'. ehdr_update (put_elf i ?e1 st) i f1 = Some (True, st') \<and> get_elf st' i = Some e'
    \<and> elf_inv st' e' \<and> e_ehdr e' = Some (f1 eh) \<and> e_scns e' 0 = Some ?s \<and> e_class e' = e_class ?e1"
    by (intro ehdr_update_ok) (use e(3) f(1,2) in simp_all)
  moreover have "r = ehdr_update (put_elf i ?e1 st) i f1"
    using True r scn0_update_ok[OF e(1,2,4)] by simp
  ultimately show ?thesis using True by (fastforce simp: sets_header_def)
qed

lemma setnum_ok:
  assumes e: "get_elf st i = Some e" "elf_inv st e" "e_ehdr e = Some eh" "e_scns e 0 = Some s"
  shows "sets_header i e eh s (libelf_setshnum st i n) (\<lambda>eh' sh'.
      eh' = (if n \<ge> SHN_LORESERVE then set_e_shnum 0 eh else set_e_shnum (ucast n) eh)
      \<and> sh' = (if n \<ge> SHN_LORESERVE then set_sh_size n (s_shdr s) else s_shdr s))"
    "sets_header i e eh s (libelf_setphnum st i n) (\<lambda>eh' sh'.
      eh' = (if n \<ge> PN_XNUM then set_e_phnum (ucast PN_XNUM) eh else set_e_phnum (ucast n) eh)
      \<and> sh' = (if n \<ge> PN_XNUM then set_sh_info n (s_shdr s) else s_shdr s))"
    "sets_header i e eh s (libelf_setshstrndx st i n) (\<lambda>eh' sh'.
      eh' = (if n \<ge> SHN_LORESERVE then set_e_shstrndx (ucast SHN_XINDEX) eh else set_e_shstrndx (ucast n) eh)
      \<and> sh' = (if n \<ge> SHN_LORESERVE then set_sh_link n (s_shdr s) else s_shdr s))"
  unfolding libelf_setshnum_def libelf_setphnum_def libelf_setshstrndx_def
  by (rule setter_ok[OF e refl]; simp)+

text \<open>The fields after an update, for both classes.\<close>

lemma set_header_fields [simp]:
  "ehdr_shnum (set_e_shnum v eh) = v" "ehdr_phnum (set_e_shnum v eh) = ehdr_phnum eh"
  "ehdr_shstrndx (set_e_shnum v eh) = ehdr_shstrndx eh" "ehdr_shoff (set_e_shnum v eh) = ehdr_shoff eh"
  "ehdr_shnum (set_e_phnum v eh) = ehdr_shnum eh" "ehdr_phnum (set_e_phnum v eh) = v"
  "ehdr_shstrndx (set_e_phnum v eh) = ehdr_shstrndx eh" "ehdr_shoff (set_e_phnum v eh) = ehdr_shoff eh"
  "ehdr_shnum (set_e_shstrndx v eh) = ehdr_shnum eh" "ehdr_phnum (set_e_shstrndx v eh) = ehdr_phnum eh"
  "ehdr_shstrndx (set_e_shstrndx v eh) = v" "ehdr_shoff (set_e_shstrndx v eh) = ehdr_shoff eh"
  by (cases eh; simp)+

lemma ucast_down_up: "v < 0x100000000 \<Longrightarrow> ucast (ucast v :: u32) = (v :: u64)"
  by (rule word_unat_eq_iff[THEN iffD2]) (simp add: unat_ucast_mod word_less_nat_alt)

lemma ucast_half: "v < 0x10000 \<Longrightarrow> ucast (ucast v :: u16) = (v :: u64)"
  by (rule word_unat_eq_iff[THEN iffD2]) (simp add: unat_ucast_mod word_less_nat_alt)

lemma set_section_fields [simp]:
  "v < 0x100000000 \<Longrightarrow> shdr_size (set_sh_size v sh) = v" "shdr_info (set_sh_size v sh) = shdr_info sh"
  "shdr_link (set_sh_size v sh) = shdr_link sh" "shdr_size (set_sh_info v sh) = shdr_size sh"
  "shdr_info (set_sh_info v sh) = ucast v" "shdr_link (set_sh_info v sh) = shdr_link sh"
  "shdr_size (set_sh_link v sh) = shdr_size sh" "shdr_info (set_sh_link v sh) = shdr_info sh"
  "shdr_link (set_sh_link v sh) = ucast v"
  by (cases sh; simp add: ucast_down_up)+

lemma decoded_counts_set:
  assumes small: "n < 0x100000000" "p < 0x100000000" "x < 0x100000000" "ehdr_shoff eh \<noteq> 0"
  shows "decoded_counts
      (let eh = (if p \<ge> PN_XNUM then set_e_phnum (ucast PN_XNUM) eh else set_e_phnum (ucast p) eh);
           eh = (if n \<ge> SHN_LORESERVE then set_e_shnum 0 eh else set_e_shnum (ucast n) eh)
       in if x \<ge> SHN_LORESERVE then set_e_shstrndx (ucast SHN_XINDEX) eh else set_e_shstrndx (ucast x) eh)
      (let sh = (if p \<ge> PN_XNUM then set_sh_info p sh else sh);
           sh = (if n \<ge> SHN_LORESERVE then set_sh_size n sh else sh)
       in if x \<ge> SHN_LORESERVE then set_sh_link x sh else sh) = (n, p, x)
    \<longleftrightarrow> n \<ge> SHN_LORESERVE \<or> (n \<noteq> 0 \<and> p < PN_XNUM \<and> x < SHN_LORESERVE) \<or> shdr_size sh = n"
proof -
  have half: "ucast (ucast v :: u16) = v" if "v < SHN_LORESERVE" for v :: u64
    using that by (intro ucast_half) (simp add: word_less_nat_alt)
  have halfp: "ucast (ucast v :: u16) = v" if "v < PN_XNUM" for v :: u64
    using that by (intro ucast_half) (simp add: word_less_nat_alt)
  have half0: "(ucast v :: u16) = 0 \<longleftrightarrow> v = 0" if "v < SHN_LORESERVE" for v :: u64
    using half[OF that] by (metis unsigned_0)
  have xn: "(ucast (ucast v :: u16) :: u64) \<noteq> PN_XNUM" if "v < SHN_LORESERVE" for v :: u64
    using that unfolding half[OF that] by auto
  show ?thesis
    using small half half0 halfp xn
    by (cases "p < PN_XNUM"; cases "n < SHN_LORESERVE"; cases "x < SHN_LORESERVE")
      (auto simp: decoded_counts_def uses_extended_def extended_counts_def ucast_down_up Let_def
        linorder_not_less[symmetric])
qed

section \<open>Properties\<close>

text \<open>A descriptor that reads a 64-bit file of \<open>n\<close> bytes, used to instantiate properties.\<close>

definition reading_elf :: "nat \<Rightarrow> Elf" where
  "reading_elf n = (initial_elf EV_CURRENT)\<lparr>e_kind := ELF_K_ELF, e_class := ELFCLASS64, e_cmd := ELF_C_READ,
     e_byteorder := ELFDATA2LSB, e_rawfile := Some (0, 0), e_rawsize := of_nat n\<rparr>"

definition reading_state :: "bytes \<Rightarrow> libelf_state" where
  "reading_state bs = put_elf 0 (reading_elf (length bs)) (sample_state bs)"

lemma reading_elf_inv:
  assumes "length bs < 2 ^ 63"
  shows "get_elf (reading_state bs) 0 = Some (reading_elf (length bs))"
    "elf_inv (reading_state bs) (reading_elf (length bs))"
proof -
  have "unat (of_nat (length bs) :: u64) = length bs" using assms by (simp add: unat_of_nat)
  moreover have "0 \<le> sint (of_nat (length bs) :: u64)"
    using assms by (simp add: signed_of_nat signed_take_bit_int_eq_self)
  ultimately show "elf_inv (reading_state bs) (reading_elf (length bs))"
    by (auto simp: elf_inv_def scn_inv_def hdr_inv_def raw_ok_def reading_elf_def initial_elf_def
        reading_state_def sample_state_def rb_inv_def rb_keys_def window_def mem_read_def slice_at_def)
  show "get_elf (reading_state bs) 0 = Some (reading_elf (length bs))" by (simp add: reading_state_def)
qed

text \<open>
  C12. Reading the ELF header is safe on arbitrary input: whatever bytes the file of a descriptor holds, and
  whatever the allocator does, \<open>_libelf_ehdr\<close> returns, without a failed assertion or an access outside the
  file; it keeps the invariant of the descriptor and leaves the memory and every other
  descriptor alone. When it succeeds on a file not read before, the header is the one at the start of the
  file, and the numbers of sections, of program headers and of the string section are those the header
  and section 0 encode.
\<close>

theorem ehdr_read_safe:
  assumes "get_elf st i = Some e" "elf_inv st e" "ec = ELFCLASS32 \<or> ec = ELFCLASS64"
  shows "\<exists>b st' e'. libelf_ehdr st (Some i) ec allocate = Some (b, st') \<and> get_elf st' i = Some e'
    \<and> elf_inv st' e' \<and> heap st' = heap st \<and> (\<forall>j. j \<noteq> i \<longrightarrow> get_elf st' j = get_elf st j)
    \<and> (b \<longrightarrow> e_ehdr e = None \<longrightarrow> e_cmd e \<noteq> ELF_C_WRITE \<longrightarrow>
         (\<exists>fs eh. file_struct st e ec (Ehdr_DEF ec) 0 = Some fs \<and> ehdr_of ec fs = Some eh
            \<and> e_ehdr e' = Some eh \<and> header_read e' eh))"
proof -
  have "call_ok i st e (libelf_ehdr st (Some i) ec allocate) (\<lambda>b e'.
      b \<longrightarrow> e_ehdr e = None \<longrightarrow> e_cmd e \<noteq> ELF_C_WRITE \<longrightarrow>
       (\<exists>fs eh. file_struct st e ec (Ehdr_DEF ec) 0 = Some fs \<and> ehdr_of ec fs = Some eh
          \<and> e_ehdr e' = Some eh \<and> header_read e' eh))"
    by (rule call_ok_mono[OF libelf_ehdr_ok[OF assms]]) (elim conjE, blast)
  then obtain b st' e' where r:
    "libelf_ehdr st (Some i) ec allocate = Some (b, st')" "get_elf st' i = Some e'" "elf_inv st' e'"
    "frame_ok i st st'" "b \<longrightarrow> e_ehdr e = None \<longrightarrow> e_cmd e \<noteq> ELF_C_WRITE \<longrightarrow>
       (\<exists>fs eh. file_struct st e ec (Ehdr_DEF ec) 0 = Some fs \<and> ehdr_of ec fs = Some eh
          \<and> e_ehdr e' = Some eh \<and> header_read e' eh)"
    by (rule call_okE)
  have "heap st' = heap st" "\<forall>j. j \<noteq> i \<longrightarrow> get_elf st' j = get_elf st j"
    using r(4) by (simp_all add: frame_ok_def)
  with r(1-3,5) show ?thesis by (intro exI conjI)
qed

theorem ehdr_read_safe_witness:
  "\<exists>b st'. libelf_ehdr (reading_state (replicate 100 7)) (Some 0) ELFCLASS64 False = Some (b, st')"
proof -
  have "length (replicate 100 (7 :: u8)) < 2 ^ 63" by simp
  from ehdr_read_safe[OF reading_elf_inv[OF this], of ELFCLASS64 False] show ?thesis by blast
qed

text \<open>
  C24. Extended numbering round trip: a section count, a program header count and a string section
  index written by \<open>_libelf_setphnum\<close>, \<open>_libelf_setshnum\<close> and \<open>_libelf_setshstrndx\<close> into a header with a
  section table are decoded to the same three numbers exactly when the section count is itself
  an extended one, or no number is extended, or section 0 happens to hold the section count:
  an extended program header count beside an ordinary section count loses the latter, since
  \<open>_libelf_load_extended\<close> always takes it from \<open>sh_size\<close>.
\<close>

theorem extended_numbers_round_trip:
  assumes e: "get_elf st i = Some e" "elf_inv st e" "e_ehdr e = Some eh" "e_scns e 0 = Some s"
    and small: "n < 0x100000000" "p < 0x100000000" "x < 0x100000000" "ehdr_shoff eh \<noteq> 0"
  shows "\<exists>st1 st2 st3 e' eh' s'. libelf_setphnum st i p = Some (True, st1)
    \<and> libelf_setshnum st1 i n = Some (True, st2) \<and> libelf_setshstrndx st2 i x = Some (True, st3)
    \<and> get_elf st3 i = Some e' \<and> elf_inv st3 e' \<and> e_ehdr e' = Some eh' \<and> e_scns e' 0 = Some s'
    \<and> (decoded_counts eh' (s_shdr s') = (n, p, x) \<longleftrightarrow>
        n \<ge> SHN_LORESERVE \<or> (n \<noteq> 0 \<and> p < PN_XNUM \<and> x < SHN_LORESERVE) \<or> shdr_size (s_shdr s) = n)"
proof -
  from setnum_ok(2)[OF e, of p] obtain st1 e1 eh1 s1 where a:
    "libelf_setphnum st i p = Some (True, st1)" "get_elf st1 i = Some e1" "elf_inv st1 e1"
    "e_ehdr e1 = Some eh1" "e_scns e1 0 = Some s1"
    "eh1 = (if p \<ge> PN_XNUM then set_e_phnum (ucast PN_XNUM) eh else set_e_phnum (ucast p) eh)"
    "s_shdr s1 = (if p \<ge> PN_XNUM then set_sh_info p (s_shdr s) else s_shdr s)"
    by (auto simp: sets_header_def)
  from setnum_ok(1)[OF a(2-5), of n] obtain st2 e2 eh2 s2 where b:
    "libelf_setshnum st1 i n = Some (True, st2)" "get_elf st2 i = Some e2" "elf_inv st2 e2"
    "e_ehdr e2 = Some eh2" "e_scns e2 0 = Some s2"
    "eh2 = (if n \<ge> SHN_LORESERVE then set_e_shnum 0 eh1 else set_e_shnum (ucast n) eh1)"
    "s_shdr s2 = (if n \<ge> SHN_LORESERVE then set_sh_size n (s_shdr s1) else s_shdr s1)"
    by (auto simp: sets_header_def)
  from setnum_ok(3)[OF b(2-5), of x] obtain st3 e3 eh3 s3 where c:
    "libelf_setshstrndx st2 i x = Some (True, st3)" "get_elf st3 i = Some e3" "elf_inv st3 e3"
    "e_ehdr e3 = Some eh3" "e_scns e3 0 = Some s3"
    "eh3 = (if x \<ge> SHN_LORESERVE then set_e_shstrndx (ucast SHN_XINDEX) eh2 else set_e_shstrndx (ucast x) eh2)"
    "s_shdr s3 = (if x \<ge> SHN_LORESERVE then set_sh_link x (s_shdr s2) else s_shdr s2)"
    by (auto simp: sets_header_def)
  have "decoded_counts eh3 (s_shdr s3) = (n, p, x) \<longleftrightarrow>
        n \<ge> SHN_LORESERVE \<or> (n \<noteq> 0 \<and> p < PN_XNUM \<and> x < SHN_LORESERVE) \<or> shdr_size (s_shdr s) = n"
    unfolding a(6,7) b(6,7) c(6,7) by (rule decoded_counts_set[OF small, unfolded Let_def])
  with a b c show ?thesis by blast
qed

text \<open>A descriptor with a header and section 0.\<close>

definition numbered_elf :: Elf where
  "numbered_elf = (reading_elf 0)\<lparr>
     e_ehdr := Some (Eh64 (\<lparr>e_ident = [], e_type = 0, e_machine = 0, eh_version = 1, e_entry = 0, e_phoff = 0,
       e_shoff = 64, eh_flags = 0, e_ehsize = 64, e_phentsize = 56, e_phnum = 0, e_shentsize = 64,
       e_shnum = 1, e_shstrndx = 0\<rparr>)),
     e_cmd := ELF_C_WRITE, e_scn := RB_NODE RB_NULL RB_BLACK 0 RB_NULL, e_scns := [0 \<mapsto> new_scn ELFCLASS64 0],
     e_nscn := 1\<rparr>"

lemma numbered_elf_inv: "elf_inv st numbered_elf"
  by (simp add: elf_inv_def scn_inv_def hdr_inv_def numbered_elf_def reading_elf_def initial_elf_def
      rb_inv_def rb_keys_def new_scn_def)

theorem extended_numbers_round_trip_witness:
  "\<exists>st1 st2. libelf_setphnum (put_elf 0 numbered_elf (sample_state [])) 0 70000 = Some (True, st1)
     \<and> libelf_setshnum st1 0 80000 = Some (True, st2)"
proof -
  let ?st = "put_elf 0 numbered_elf (sample_state [])"
  have "get_elf ?st 0 = Some numbered_elf" by simp
  moreover have "e_scns numbered_elf 0 = Some (new_scn ELFCLASS64 0)" by (simp add: numbered_elf_def)
  moreover obtain h where "e_ehdr numbered_elf = Some h" "ehdr_shoff h \<noteq> 0"
    by (simp add: numbered_elf_def)
  ultimately show ?thesis
    using extended_numbers_round_trip[of ?st 0 numbered_elf h "new_scn ELFCLASS64 0" 80000 70000 1]
      numbered_elf_inv by auto
qed

text \<open>
  C38. A header that is rejected once is accepted the next time: when \<open>_libelf_ehdr\<close> rejects a header with
  a reserved section count, it has already stored the header; the next call for the same class
  succeeds without looking at the file, with the counts the descriptor had before.
\<close>

theorem rejected_header_accepted:
  assumes e: "get_elf st i = Some e" "elf_inv st e" "e_kind e = ELF_K_ELF" "e_version e = EV_CURRENT"
    "e_class e = ec" "ec = ELFCLASS32 \<or> ec = ELFCLASS64" "e_ehdr e = None" "e_cmd e \<noteq> ELF_C_WRITE"
    and m: "fst (c_alloc st)" and sz: "FSZ ec (Ehdr_DEF ec) \<le> unat (e_rawsize e)"
    and fs: "file_struct st e ec (Ehdr_DEF ec) 0 = Some fs" "ehdr_of ec fs = Some eh"
    and bad: "ucast (ehdr_shnum eh) \<ge> SHN_LORESERVE"
  shows "\<exists>st1 e1. libelf_ehdr st (Some i) ec False = Some (False, st1)
    \<and> libelf_error st1 = elf_error_code ELF_E_HEADER
    \<and> libelf_ehdr st1 (Some i) ec False = Some (True, st1)
    \<and> get_elf st1 i = Some e1 \<and> e_ehdr e1 = Some eh \<and> counts e1 = counts e"
proof -
  have raw: "raw_ok st e" using elf_invD(3)[OF e(2,8)] .
  let ?st2 = "snd (c_alloc st)"
  let ?e2 = "e\<lparr>e_ehdr := Some (ehdr_init ec (libelf_version ?st2))\<rparr>"
  let ?e3 = "e\<lparr>e_ehdr := Some eh\<rparr>"
  have fz: "libelf_fsize st ELF_T_EHDR ec EV_CURRENT 1 = (of_nat (FSZ ec (Ehdr_DEF ec)), st)"
    "FSZ ec (Ehdr_DEF ec) = (if ec = ELFCLASS32 then 52 else 64)"
    using shdr_fsize_current(3,4)[OF e(6)] by simp_all
  obtain mm where mm: "libelf_elfmachine (Some ?e2) = Some mm"
    using e by (auto simp: libelf_elfmachine_def)
  have "file_struct (put_elf i ?e2 ?st2) ?e2 ec (Ehdr_DEF ec) 0 = Some fs"
    using fs(1) file_struct_cong[of i st "put_elf i ?e2 ?st2" ?e2 e] by simp
  then have f1: "ehdr_from_file (put_elf i ?e2 ?st2) i ec
      = Some (False, set_error ELF_E_HEADER 0 (put_elf i ?e3 ?st2))"
    using mm fs(2) bad by (simp add: ehdr_from_file_def)
  have f2: "libelf_ehdr st (Some i) ec False = ehdr_from_file (put_elf i ?e2 ?st2) i ec"
  proof -
    have same: "e\<lparr>e_class := ec\<rparr> = e" "put_elf i e st = st" using e(1,5) by (simp_all add: put_elf_same)
    have "0 \<le> sint (e_rawsize e)" using raw by (simp add: raw_ok_def)
    then have "\<not> sint (e_rawsize e) < int (FSZ ec (Ehdr_DEF ec))"
      using sz unfolding sint_unat_nonneg[OF \<open>0 \<le> sint (e_rawsize e)\<close>] of_nat_less_iff by simp
    then show ?thesis
      using libelf_ehdr_fresh[OF e(1,6,3,4) disjI2[OF e(5)] e(7) refl refl refl, of False] m e(8)
      unfolding same by simp
  qed
  have f3: "libelf_ehdr (set_error ELF_E_HEADER 0 (put_elf i ?e3 ?st2)) (Some i) ec False
      = Some (True, set_error ELF_E_HEADER 0 (put_elf i ?e3 ?st2))"
  proof -
    let ?st3 = "set_error ELF_E_HEADER 0 (put_elf i ?e3 ?st2)"
    have g: "get_elf ?st3 i = Some ?e3" by simp
    have "libelf_ehdr ?st3 (Some i) (e_class ?e3) False = Some (True, put_elf i ?e3 ?st3)"
      by (rule ehdr_cached[OF g]) (use e(3-6) in simp_all)
    then show ?thesis unfolding put_elf_same[OF g] using e(5) by simp
  qed
  have "libelf_error (set_error ELF_E_HEADER 0 (put_elf i ?e3 ?st2)) = elf_error_code ELF_E_HEADER"
    by (simp add: set_error_def)
  moreover have "counts ?e3 = counts e" "e_ehdr ?e3 = Some eh" by (simp_all add: counts_def)
  moreover have "get_elf (set_error ELF_E_HEADER 0 (put_elf i ?e3 ?st2)) i = Some ?e3" by simp
  ultimately show ?thesis
    using f2[unfolded f1] f3 by (intro exI conjI)
qed

text \<open>A file that is the 64-bit header \<open>h\<close>, and what is read back from it.\<close>

definition header_file :: "Elf64_Ehdr \<Rightarrow> bytes" where
  "header_file h = WRITE_MEMBERS LSB (Elf64_Ehdr_fields h)"

definition reserved_header :: Elf64_Ehdr where
  "reserved_header = \<lparr>e_ident = replicate 16 0, e_type = 0, e_machine = 0, eh_version = 1, e_entry = 0,
     e_phoff = 0, e_shoff = 64, eh_flags = 0, e_ehsize = 64, e_phentsize = 56, e_phnum = 0,
     e_shentsize = 64, e_shnum = 0xFF00, e_shstrndx = 0\<rparr>"

lemma header_file_struct:
  assumes "members_ok ELFCLASS64 Elf64_Ehdr_DEF (Elf64_Ehdr_fields h)"
  shows "length (header_file h) = 64"
    "file_struct (reading_state (header_file h)) (reading_elf 64) ELFCLASS64 (Ehdr_DEF ELFCLASS64) 0
      = Some (Elf64_Ehdr_fields h)"
proof -
  show len: "length (header_file h) = 64"
    using length_WRITE_MEMBERS[OF assms] by (simp add: header_file_def Elf64_Ehdr_DEF_def layout_simps)
  have "FSZ ELFCLASS64 (Ehdr_DEF ELFCLASS64) = 64" "Ehdr_DEF ELFCLASS64 = Elf64_Ehdr_DEF"
    by (simp_all add: Ehdr_DEF_def Elf64_Ehdr_DEF_def layout_simps)
  then show "file_struct (reading_state (header_file h)) (reading_elf 64) ELFCLASS64 (Ehdr_DEF ELFCLASS64) 0
      = Some (Elf64_Ehdr_fields h)"
    using len READ_WRITE_MEMBERS[OF assms]
    by (simp add: file_struct_def reading_elf_def reading_state_def initial_elf_def sample_state_def
        mem_read_def slice_at_def ptr_add_def put_elf_def host_order_def header_file_def SWAP_MEMBERS_def)
qed

theorem rejected_header_accepted_witness:
  "\<exists>st1. libelf_ehdr (reading_state (header_file reserved_header)) (Some 0) ELFCLASS64 False = Some (False, st1)
     \<and> libelf_ehdr st1 (Some 0) ELFCLASS64 False = Some (True, st1)"
proof -
  let ?st = "reading_state (header_file reserved_header)"
  have ok: "members_ok ELFCLASS64 Elf64_Ehdr_DEF (Elf64_Ehdr_fields reserved_header)"
    by (simp add: reserved_header_def Elf64_Ehdr_fields_def Elf64_Ehdr_DEF_def members_ok_def field_ok_simps)
  note f = header_file_struct[OF ok]
  have inv: "get_elf ?st 0 = Some (reading_elf 64)" "elf_inv ?st (reading_elf 64)"
    using reading_elf_inv[of "header_file reserved_header"] f(1) by simp_all
  have "ehdr_of ELFCLASS64 (Elf64_Ehdr_fields reserved_header) = Some (Eh64 reserved_header)"
    by (simp add: ehdr_of_def Elf64_Ehdr_of_fields)
  moreover have "fst (c_alloc ?st)" by (simp add: c_alloc_def reading_state_def sample_state_def put_elf_def)
  moreover have "FSZ ELFCLASS64 (Ehdr_DEF ELFCLASS64) \<le> unat (e_rawsize (reading_elf 64))"
    by (simp add: reading_elf_def Ehdr_DEF_def Elf64_Ehdr_DEF_def layout_simps)
  moreover have "ucast (ehdr_shnum (Eh64 reserved_header)) \<ge> SHN_LORESERVE"
    by (simp add: reserved_header_def)
  moreover have "e_kind (reading_elf 64) = ELF_K_ELF" "e_version (reading_elf 64) = EV_CURRENT"
    "e_class (reading_elf 64) = ELFCLASS64" "e_ehdr (reading_elf 64) = None"
    "e_cmd (reading_elf 64) \<noteq> ELF_C_WRITE"
    by (simp_all add: reading_elf_def initial_elf_def)
  ultimately show ?thesis
    using rejected_header_accepted[OF inv, of ELFCLASS64] f(2) by blast
qed

end
