(* ===== verification/Elf_Scn.thy ===== *)
theory Elf_Scn
  imports Elf_Header
begin

text \<open>
  The sections of a descriptor: \<open>libelf_shdr.c\<close> and \<open>elf_scn.c\<close>. The section table is read from the
  file once, then sections are found, added and enumerated in the tree of the descriptor.
\<close>

section \<open>Section headers: \<open>libelf_shdr.c\<close>, \<open>elf_scn.c\<close>\<close>

definition libelf_getshdr ::
  "libelf_state \<Rightarrow> (nat \<times> nat) option \<Rightarrow> int \<Rightarrow> (shdr option \<times> libelf_state) option" where
  "libelf_getshdr st s ec =
     (case s of
        None \<Rightarrow> Some (None, set_error ELF_E_ARGUMENT 0 st)
      | Some (i, n) \<Rightarrow> do {
          e \<leftarrow> get_elf st i;
          s \<leftarrow> e_scns e n;
          Some (
            if e_kind e \<noteq> ELF_K_ELF then (None, set_error ELF_E_ARGUMENT 0 st)
            else if (if ec = ELFCLASSNONE then e_class e else ec) \<noteq> e_class e
            then (None, set_error ELF_E_CLASS 0 st)
            else (Some (s_shdr s), st)) })"

text \<open>The loop over the headers from section \<open>k\<close> on, \<open>n\<close> of them.\<close>

primrec load_scns ::
  "nat \<Rightarrow> libelf_state \<Rightarrow> nat \<Rightarrow> int \<Rightarrow> nat \<Rightarrow> nat \<Rightarrow> (bool \<times> libelf_state) option" where
  "load_scns 0 st i ec off k = Some (True, st)"
| "load_scns (Suc n) st i ec off k = do {
     (r, st) \<leftarrow> libelf_allocate_scn st i k;
     case r of
       None \<Rightarrow> Some (False, st)
     | Some k' \<Rightarrow> do {
         e \<leftarrow> get_elf st i;
         fs \<leftarrow> file_struct st e ec (Shdr_DEF ec) off;
         sh \<leftarrow> shdr_of ec fs;
         s \<leftarrow> get_scn st i k';
         st \<leftarrow> put_scn i k' (s\<lparr>s_shdr := sh, s_offset := shdr_offset sh,
                 s_rawoff := shdr_offset sh, s_size := shdr_size sh\<rparr>) st;
         load_scns n st i ec (off + FSZ ec (Shdr_DEF ec)) (Suc k) } }"

definition libelf_load_section_headers :: "libelf_state \<Rightarrow> nat \<Rightarrow> (bool \<times> libelf_state) option" where
  "libelf_load_section_headers st i = do {
     e \<leftarrow> get_elf st i;
     eh \<leftarrow> e_ehdr e;
     c_assert (e_flags e AND LIBELF_F_SHDRS_LOADED = 0);
     let ec = e_class e;
     let (fsz, st) = libelf_fsize st ELF_T_SHDR ec (e_version e) 1;
     c_assert (fsz > 0);
     let shnum = e_nscn e;
     let shoff = ehdr_shoff eh;
     if shoff > e_rawsize e \<or> fsz \<noteq> ucast (ehdr_shentsize eh) \<or> shnum > (- 1) div fsz
        \<or> fsz * shnum > e_rawsize e - shoff
     then Some (False, set_error ELF_E_HEADER 0 st)
     else do {
       m \<leftarrow> libelf_elfmachine (Some e);
       c_assert (ec = ELFCLASS32 \<or> ec = ELFCLASS64);
       c_assert (e_scn e \<noteq> RB_NULL \<longrightarrow> RB_MIN (e_scn e) = RB_MAX (e_scn e));
       let i0 = (if e_scn e \<noteq> RB_NULL then 1 else 0);
       (ok, st) \<leftarrow> load_scns (unat shnum - i0) st i ec (unat shoff + i0 * unat fsz) i0;
       if \<not> ok then Some (False, st)
       else do {
         e \<leftarrow> get_elf st i;
         Some (True, put_elf i (e\<lparr>e_flags := e_flags e OR LIBELF_F_SHDRS_LOADED\<rparr>) st) } } }"

text \<open>The header and the section table, as \<open>elf_getscn\<close> and \<open>elf_newscn\<close> bring them in.\<close>

definition load_sections :: "libelf_state \<Rightarrow> nat \<Rightarrow> int \<Rightarrow> (bool \<times> libelf_state) option" where
  "load_sections st i ec = do {
     (ok, st) \<leftarrow> libelf_ehdr st (Some i) ec False;
     if \<not> ok then Some (False, st)
     else do {
       e \<leftarrow> get_elf st i;
       if e_cmd e \<noteq> ELF_C_WRITE \<and> e_flags e AND LIBELF_F_SHDRS_LOADED = 0
       then libelf_load_section_headers st i
       else Some (True, st) } }"

text \<open>The search loop of \<open>elf_getscn\<close>, which does not use \<open>RB_FIND\<close>.\<close>

primrec getscn_walk :: "scntree \<Rightarrow> u64 \<Rightarrow> nat option" where
  "getscn_walk RB_NULL index = None"
| "getscn_walk (RB_NODE l c k r) index =
     (if k = unat index then Some k
      else if k < unat index then getscn_walk r index else getscn_walk l index)"

definition elf_getscn ::
  "libelf_state \<Rightarrow> nat option \<Rightarrow> u64 \<Rightarrow> ((nat \<times> nat) option \<times> libelf_state) option" where
  "elf_getscn st e index =
     (case e of
        None \<Rightarrow> Some (None, set_error ELF_E_ARGUMENT 0 st)
      | Some i \<Rightarrow> do {
          r \<leftarrow> get_elf st i;
          if \<not> elf_class_known r then Some (None, set_error ELF_E_ARGUMENT 0 st)
          else do {
            (ok, st) \<leftarrow> load_sections st i (e_class r);
            if \<not> ok then Some (None, st)
            else do {
              r \<leftarrow> get_elf st i;
              Some (case getscn_walk (e_scn r) index of
                      Some k \<Rightarrow> (Some (i, k), st)
                    | None \<Rightarrow> (None, set_error ELF_E_ARGUMENT 0 st)) } } })"

definition elf_ndxscn :: "libelf_state \<Rightarrow> (nat \<times> nat) option \<Rightarrow> (u64 \<times> libelf_state) option" where
  "elf_ndxscn st s =
     (case s of
        None \<Rightarrow> Some (SHN_UNDEF, set_error ELF_E_ARGUMENT 0 st)
      | Some (i, n) \<Rightarrow> do { s \<leftarrow> get_scn st i n; Some (of_nat (s_ndx s), st) })"

definition elf_newscn :: "libelf_state \<Rightarrow> nat option \<Rightarrow> ((nat \<times> nat) option \<times> libelf_state) option" where
  "elf_newscn st e =
     (case e of
        None \<Rightarrow> Some (None, set_error ELF_E_ARGUMENT 0 st)
      | Some i \<Rightarrow> do {
          r \<leftarrow> get_elf st i;
          if e_kind r \<noteq> ELF_K_ELF then Some (None, set_error ELF_E_ARGUMENT 0 st)
          else if e_class r \<noteq> ELFCLASS32 \<and> e_class r \<noteq> ELFCLASS64
          then Some (None, set_error ELF_E_CLASS 0 st)
          else do {
            (ok, st) \<leftarrow> load_sections st i (e_class r);
            if \<not> ok then Some (None, st)
            else do {
              r \<leftarrow> get_elf st i;
              (ok, st) \<leftarrow>
                (if e_scn r = RB_NULL
                 then do {
                   c_assert (e_nscn r = 0);
                   (s0, st) \<leftarrow> libelf_allocate_scn st i 0;
                   if s0 = None then Some (False, st)
                   else do {
                     r \<leftarrow> get_elf st i;
                     Some (True, put_elf i (r\<lparr>e_nscn := e_nscn r + 1\<rparr>) st) } }
                 else Some (True, st));
              if \<not> ok then Some (None, st)
              else do {
                r \<leftarrow> get_elf st i;
                c_assert (e_nscn r > 0);
                (s, st) \<leftarrow> libelf_allocate_scn st i (unat (e_nscn r));
                case s of
                  None \<Rightarrow> Some (None, st)
                | Some n \<Rightarrow> do {
                    r \<leftarrow> get_elf st i;
                    let st = put_elf i (r\<lparr>e_nscn := e_nscn r + 1\<rparr>) st;
                    s \<leftarrow> get_scn st i n;
                    let (f, s', st) = elf_flagscn st (Some s) ELF_C_SET ELF_F_DIRTY;
                    s \<leftarrow> s';
                    st \<leftarrow> put_scn i n s st;
                    Some (Some (i, n), st) } } } } })"

definition elf_nextscn ::
  "libelf_state \<Rightarrow> nat option \<Rightarrow> (nat \<times> nat) option \<Rightarrow> ((nat \<times> nat) option \<times> libelf_state) option" where
  "elf_nextscn st e s =
     (case e of
        None \<Rightarrow> Some (None, set_error ELF_E_ARGUMENT 0 st)
      | Some i \<Rightarrow> do {
          r \<leftarrow> get_elf st i;
          if e_kind r \<noteq> ELF_K_ELF \<or> (case s of None \<Rightarrow> False | Some (j, n) \<Rightarrow> j \<noteq> i)
          then Some (None, set_error ELF_E_ARGUMENT 0 st)
          else case s of
            None \<Rightarrow> elf_getscn st e 1
          | Some (j, n) \<Rightarrow> do {
              m \<leftarrow> RB_NEXT (e_scn r) n;
              Some (map_option (Pair i) m, st) } })"

section \<open>Loading the section table\<close>

text \<open>Section \<open>s\<close> holds what the file has at offset \<open>off\<close>.\<close>

definition scn_at :: "libelf_state \<Rightarrow> Elf \<Rightarrow> int \<Rightarrow> nat \<Rightarrow> Elf_Scn \<Rightarrow> bool" where
  "scn_at st e ec off s \<longleftrightarrow>
     (\<exists>fs. file_struct st e ec (Shdr_DEF ec) off = Some fs \<and> shdr_of ec fs = Some (s_shdr s))
     \<and> s_rawoff s = shdr_offset (s_shdr s) \<and> s_size s = shdr_size (s_shdr s)"

lemma scn_at_cong: "frame_ok i st st' \<Longrightarrow> same_file e e' \<Longrightarrow> scn_at st' e' ec off s = scn_at st e ec off s"
  using file_struct_cong[of i st st' e' e] by (simp add: scn_at_def same_file_def)

definition same_header :: "Elf \<Rightarrow> Elf \<Rightarrow> bool" where
  "same_header e e' \<longleftrightarrow> e_ehdr e' = e_ehdr e \<and> e_class e' = e_class e \<and> e_flags e' = e_flags e
     \<and> e_nscn e' = e_nscn e \<and> e_nphdr e' = e_nphdr e \<and> e_strndx e' = e_strndx e"

lemma same_header_refl [simp]: "same_header e e"
  by (simp add: same_header_def)

lemma same_header_trans: "same_header e e1 \<Longrightarrow> same_header e1 e2 \<Longrightarrow> same_header e e2"
  by (simp add: same_header_def)

definition loaded_from ::
  "libelf_state \<Rightarrow> Elf \<Rightarrow> int \<Rightarrow> nat \<Rightarrow> nat \<Rightarrow> nat \<Rightarrow> Elf \<Rightarrow> bool" where
  "loaded_from st e ec off k n e' \<longleftrightarrow> rb_keys (e_scn e') = rb_keys (e_scn e) \<union> {k..<k + n}
     \<and> (\<forall>j<n. \<exists>s. e_scns e' (k + j) = Some s \<and> scn_at st e ec (off + j * FSZ ec (Shdr_DEF ec)) s)"

lemma loaded_from_0: "loaded_from st e ec off k 0 e"
  by (simp add: loaded_from_def)

lemma loaded_from_Suc:
  assumes "loaded_from st1 e1 ec (off + FSZ ec (Shdr_DEF ec)) (Suc k) n e'"
    and fr: "frame_ok i st st1" "same_file e e1"
    and "rb_keys (e_scn e1) = insert k (rb_keys (e_scn e))" "e_scns e' k = Some s" "scn_at st e ec off s"
  shows "loaded_from st e ec off k (Suc n) e'"
proof -
  have "\<exists>s. e_scns e' (k + j) = Some s \<and> scn_at st e ec (off + j * FSZ ec (Shdr_DEF ec)) s" if "j < Suc n" for j
    using assms that by (cases j) (auto simp: loaded_from_def scn_at_cong[OF fr] add.assoc)
  moreover have "insert k (rb_keys (e_scn e)) \<union> {Suc k..<Suc k + n} = rb_keys (e_scn e) \<union> {k..<k + Suc n}"
    by auto
  ultimately show ?thesis using assms(1,4) by (simp add: loaded_from_def)
qed

lemma load_scns_ok:
  assumes "get_elf st i = Some e" "elf_inv st e" "raw_ok st e" "e_ehdr e \<noteq> None" "e_class e = ec"
    and ec: "ec = ELFCLASS32 \<or> ec = ELFCLASS64"
    and "n = 0 \<or> off + n * FSZ ec (Shdr_DEF ec) \<le> unat (e_rawsize e)" "\<forall>m\<ge>k. m \<notin> rb_keys (e_scn e)"
  shows "call_ok i st e (load_scns n st i ec off k)
    (\<lambda>b e'. same_header e e' \<and> (\<forall>m<k. e_scns e' m = e_scns e m) \<and> (b \<longrightarrow> loaded_from st e ec off k n e'))"
  using assms(1-5,7,8)
proof (induction n arbitrary: st e off k)
  case 0
  show ?case
    by (rule call_okI[where e' = e]) (use 0 loaded_from_0 in auto)
next
  case (Suc n)
  let ?F = "FSZ ec (Shdr_DEF ec)"
  have "rb_inv (e_scn e)" "k \<notin> rb_keys (e_scn e)" using Suc.prems by (auto simp: elf_inv_def scn_inv_def)
  with Suc.prems(1) show ?case
  proof (cases rule: allocate_scn_ok)
    case (fail st')
    then have "load_scns (Suc n) st i ec off k = Some (False, st')" by simp
    then show ?thesis
      by (rule call_okI[where e' = e]) (use Suc.prems fail elf_inv_frame[OF fail(3)] in auto)
  next
    case (ok t st')
    let ?e1 = "e\<lparr>e_scn := t, e_scns := (e_scns e)(k \<mapsto> new_scn (e_class e) k)\<rparr>"
    have raw1: "raw_ok st' ?e1" by (rule raw_ok_cong[OF Suc.prems(3) frame_fields(1)[OF ok(5)]]) simp_all
    have "off + ?F \<le> unat (e_rawsize ?e1)" using Suc.prems(6) by simp
    from file_struct_total[OF raw1 this] obtain fs where fs:
      "file_struct st' ?e1 ec (Shdr_DEF ec) off = Some fs" "members_ok ec (Shdr_DEF ec) fs" by blast
    obtain sh where sh: "shdr_of ec fs = Some sh" using shdr_of_total[OF fs(2) ec] by blast
    let ?s = "new_scn (e_class e) k\<lparr>s_shdr := sh, s_offset := shdr_offset sh,
        s_rawoff := shdr_offset sh, s_size := shdr_size sh\<rparr>"
    let ?e2 = "e\<lparr>e_scn := t, e_scns := (e_scns e)(k \<mapsto> ?s)\<rparr>"
    let ?st2 = "put_elf i ?e2 st'"
    have res: "load_scns (Suc n) st i ec off k = load_scns n ?st2 i ec (off + ?F) (Suc k)"
      unfolding load_scns.simps ok(1,2) bind.simps prod.case option.case fs(1) sh get_scn_def put_scn_def
      by simp
    have fr: "frame_ok i st ?st2" "same_file e ?e2" "same_header e ?e2"
      using ok(5) by (simp_all add: same_file_def same_header_def)
    have "scn_inv ?e2"
      by (rule scn_inv_add[OF elf_invD(1)[OF Suc.prems(2)], where n = k and s = ?s])
        (simp_all add: ok(3,4) new_scn_def)
    moreover have "hdr_inv ?e2"
      by (rule hdr_inv_cong[OF elf_invD(2)[OF Suc.prems(2)]]) (simp_all add: Suc.prems(4))
    moreover have raw2: "raw_ok ?st2 ?e2"
      by (rule raw_ok_cong[OF Suc.prems(3)]) (simp_all add: frame_fields(1)[OF ok(5)])
    ultimately have inv2: "elf_inv ?st2 ?e2" by (auto simp: elf_inv_def)
    have "file_struct st e ec (Shdr_DEF ec) off = Some fs"
      using fs(1) file_struct_cong[OF ok(5), of ?e1 e] by simp
    then have at: "scn_at st e ec off ?s" using sh by (simp add: scn_at_def)
    have IH: "call_ok i ?st2 ?e2 (load_scns n ?st2 i ec (off + ?F) (Suc k))
      (\<lambda>b e'. same_header ?e2 e' \<and> (\<forall>m<Suc k. e_scns e' m = e_scns ?e2 m)
         \<and> (b \<longrightarrow> loaded_from ?st2 ?e2 ec (off + ?F) (Suc k) n e'))"
      by (rule Suc.IH[OF _ inv2 raw2]) (use Suc.prems ok(4) in \<open>auto simp: algebra_simps\<close>)
    show ?thesis unfolding res
    proof (rule call_ok_trans[OF IH fr(1,2)])
      fix b e'
      assume q: "same_header ?e2 e' \<and> (\<forall>m<Suc k. e_scns e' m = e_scns ?e2 m)
         \<and> (b \<longrightarrow> loaded_from ?st2 ?e2 ec (off + ?F) (Suc k) n e')"
      have "e_scns e' k = Some ?s" using q by simp
      moreover have "rb_keys (e_scn ?e2) = insert k (rb_keys (e_scn e))" using ok(4) by simp
      ultimately have "b \<longrightarrow> loaded_from st e ec off k (Suc n) e'"
        using q at fr(1,2) by (blast intro: loaded_from_Suc)
      moreover have "\<forall>m<k. e_scns e' m = e_scns e m" using q by simp
      ultimately show "same_header e e' \<and> (\<forall>m<k. e_scns e' m = e_scns e m)
          \<and> (b \<longrightarrow> loaded_from st e ec off k (Suc n) e')"
        using q same_header_trans[OF fr(3)] by blast
    qed
  qed
qed

lemma no_overflow_mult:
  fixes a b :: u64
  assumes "0 < a" "b \<le> (- 1) div a"
  shows "unat (a * b) = unat a * unat b"
proof -
  have "unat b \<le> (2 ^ 64 - 1) div unat a"
    using assms(2) by (simp add: word_le_nat_alt unat_div unsigned_minus_1_eq_mask mask_eq_exp_minus_1)
  then have "unat a * unat b \<le> 2 ^ 64 - 1"
    using mult_le_mono2 times_div_less_eq_dividend order_trans by blast
  then show ?thesis by (simp add: unat_word_ariths)
qed

lemma same_header_inv:
  "elf_inv st e \<Longrightarrow> elf_inv (put_elf i (e\<lparr>e_flags := f\<rparr>) st') (e\<lparr>e_flags := f\<rparr>) = elf_inv st' e"
  by (auto simp: elf_inv_def scn_inv_def hdr_inv_def raw_ok_def)

definition table_loaded :: "libelf_state \<Rightarrow> Elf \<Rightarrow> Elf \<Rightarrow> bool" where
  "table_loaded st e e' \<longleftrightarrow> rb_keys (e_scn e') = rb_keys (e_scn e) \<union> {..<unat (e_nscn e)}
     \<and> (\<forall>eh k. e_ehdr e = Some eh \<longrightarrow> k < unat (e_nscn e) \<longrightarrow> k \<notin> rb_keys (e_scn e) \<longrightarrow>
          (\<exists>s. e_scns e' k = Some s \<and>
             scn_at st e (e_class e) (unat (ehdr_shoff eh) + k * FSZ (e_class e) (Shdr_DEF (e_class e))) s))"

lemma load_section_headers_ok:
  assumes e: "get_elf st i = Some e" "elf_inv st e" "raw_ok st e" "e_ehdr e = Some eh"
    and k: "e_kind e = ELF_K_ELF" "e_version e = EV_CURRENT" "e_flags e AND LIBELF_F_SHDRS_LOADED = 0"
    and small: "rb_keys (e_scn e) \<subseteq> {0}"
  shows "call_ok i st e (libelf_load_section_headers st i)
    (\<lambda>b e'. e_ehdr e' = e_ehdr e \<and> e_class e' = e_class e \<and> e_nscn e' = e_nscn e
       \<and> (b \<longrightarrow> e_flags e' = e_flags e OR LIBELF_F_SHDRS_LOADED \<and> table_loaded st e e'))"
    (is "call_ok i st e ?r ?Q")
proof -
  define ec where "ec = e_class e"
  have ec: "ec = ELFCLASS32 \<or> ec = ELFCLASS64"
    using elf_invD(2)[OF e(2)] e(4) by (auto simp: hdr_inv_def ec_def)
  let ?F = "FSZ ec (Shdr_DEF ec)"
  let ?w = "of_nat ?F :: u64"
  let ?shoff = "ehdr_shoff eh"
  have fz: "libelf_fsize st ELF_T_SHDR ec (e_version e) 1 = (?w, st)" "?F = (if ec = ELFCLASS32 then 40 else 64)"
    using shdr_fsize_current(1,2)[OF ec] k(2) by simp_all
  then have fpos: "?w > 0" "unat ?w = ?F" using ec by auto
  let ?bad = "?shoff > e_rawsize e \<or> ?w \<noteq> ucast (ehdr_shentsize eh) \<or> e_nscn e > (- 1) div ?w
        \<or> ?w * e_nscn e > e_rawsize e - ?shoff"
  obtain m where m: "libelf_elfmachine (Some e) = Some m"
    using k ec by (auto simp: libelf_elfmachine_def ec_def)
  let ?i0 = "if e_scn e \<noteq> RB_NULL then 1 else 0 :: nat"
  have keys: "rb_keys (e_scn e) = (if e_scn e \<noteq> RB_NULL then {0} else {})"
    using small rb_keys_empty[of "e_scn e"] by auto
  have one: "e_scn e \<noteq> RB_NULL \<longrightarrow> RB_MIN (e_scn e) = RB_MAX (e_scn e)"
    using e(2) keys scn.singleton_bounds[of "e_scn e" 0] by (auto simp: elf_inv_def scn_inv_def)
  let ?load = "load_scns (unat (e_nscn e) - ?i0) st i ec (unat ?shoff + ?i0 * ?F) ?i0"
  have res: "?r = (if ?bad then Some (False, set_error ELF_E_HEADER 0 st) else do {
       (ok, st) \<leftarrow> ?load;
       if \<not> ok then Some (False, st)
       else do {
         e \<leftarrow> get_elf st i;
         Some (True, put_elf i (e\<lparr>e_flags := e_flags e OR LIBELF_F_SHDRS_LOADED\<rparr>) st) } })"
    unfolding libelf_load_section_headers_def e(1,4) bind.simps c_assert_def if_P[OF k(3)] Let_def
      ec_def[symmetric] fz(1) prod.case if_P[OF fpos(1)] m if_P[OF ec] if_P[OF one] fpos(2) ..
  show ?thesis
  proof (cases ?bad)
    case True
    note res[unfolded if_P[OF True]]
    then show ?thesis by (rule call_okI[where e' = e]) (use e in simp_all)
  next
    case False
    then have le: "?shoff \<le> e_rawsize e" "e_nscn e \<le> (- 1) div ?w" "?w * e_nscn e \<le> e_rawsize e - ?shoff"
      by (simp_all add: not_less)
    have "?F * unat (e_nscn e) = unat (?w * e_nscn e)"
      using no_overflow_mult[OF fpos(1) le(2)] fpos(2) by simp
    also have "\<dots> \<le> unat (e_rawsize e - ?shoff)" using le(3) by (simp add: word_le_nat_alt)
    finally have fit: "unat ?shoff + unat (e_nscn e) * ?F \<le> unat (e_rawsize e)"
      using le(1) by (simp add: unat_sub word_le_nat_alt mult.commute)
    let ?n = "unat (e_nscn e) - ?i0"
    have room: "?n = 0 \<or> (unat ?shoff + ?i0 * ?F) + ?n * ?F \<le> unat (e_rawsize e)"
      using fit by (cases "unat (e_nscn e)") (auto simp: algebra_simps)
    have "call_ok i st e ?load (\<lambda>b e'. same_header e e' \<and> (\<forall>m<?i0. e_scns e' m = e_scns e m)
        \<and> (b \<longrightarrow> loaded_from st e ec (unat ?shoff + ?i0 * ?F) ?i0 ?n e'))"
      by (rule load_scns_ok[OF e(1-3)]) (use e(4) ec room keys in \<open>auto simp: ec_def\<close>)
    then obtain b st' e' where l: "?load = Some (b, st')" "get_elf st' i = Some e'" "elf_inv st' e'"
      "frame_ok i st st'" "same_file e e'" "same_header e e'"
      "b \<longrightarrow> loaded_from st e ec (unat ?shoff + ?i0 * ?F) ?i0 ?n e'"
      by (auto elim: call_okE)
    note r = res[unfolded if_not_P[OF False] l(1) bind.simps prod.case]
    show ?thesis
    proof (cases b)
      case False
      then have "?r = Some (False, st')" using r by simp
      then show ?thesis by (rule call_okI[where e' = e']) (use l in \<open>auto simp: same_header_def\<close>)
    next
      case True
      let ?e2 = "e'\<lparr>e_flags := e_flags e' OR LIBELF_F_SHDRS_LOADED\<rparr>"
      have r2: "?r = Some (True, put_elf i ?e2 st')" using r True l(2) by simp
      have lf: "loaded_from st e ec (unat ?shoff + ?i0 * ?F) ?i0 ?n e'" using True l(7) by simp
      have "table_loaded st e e'"
      proof -
        have "rb_keys (e_scn e) \<union> {?i0..<?i0 + ?n} = rb_keys (e_scn e) \<union> {..<unat (e_nscn e)}"
          using keys by auto
        moreover have "\<exists>s. e_scns e' k = Some s \<and> scn_at st e ec (unat ?shoff + k * ?F) s"
          if "k < unat (e_nscn e)" "k \<notin> rb_keys (e_scn e)" for k
        proof -
          have "?i0 \<le> k" "k - ?i0 < ?n" using that keys by (auto split: if_splits)
          moreover from this have "k = ?i0 + (k - ?i0)" by simp
          ultimately show ?thesis using lf unfolding loaded_from_def
            by (metis add.assoc add_mult_distrib)
        qed
        ultimately show ?thesis using lf e(4) unfolding table_loaded_def loaded_from_def ec_def by simp
      qed
      then have "table_loaded st e ?e2" by (simp add: table_loaded_def)
      with l(2-6) same_header_inv[OF l(3)] show ?thesis
        by (intro call_okI[OF r2, where e' = ?e2]) (auto simp: same_header_def same_file_def)
    qed
  qed
qed

section \<open>Finding, adding and enumerating sections\<close>

lemma getscn_walk_eq:
  assumes "sorted_wrt (<) (inorder t)"
  shows "getscn_walk t index = (if unat index \<in> rb_keys t then Some (unat index) else None)"
  using assms
  by (induction t) (auto simp: rb_keys_def sorted_wrt_append)

text \<open>A descriptor whose section table was read, or that never reads one.\<close>

definition scns_loaded :: "Elf \<Rightarrow> bool" where
  "scns_loaded e \<longleftrightarrow> e_kind e = ELF_K_ELF \<and> e_version e = EV_CURRENT \<and> e_ehdr e \<noteq> None
     \<and> (e_cmd e = ELF_C_WRITE \<or> e_flags e AND LIBELF_F_SHDRS_LOADED \<noteq> 0)"

text \<open>Before that, there is at most section 0, which extended numbering brings in.\<close>

definition scns_pending :: "Elf \<Rightarrow> bool" where
  "scns_pending e \<longleftrightarrow> e_cmd e \<noteq> ELF_C_WRITE \<and> e_flags e AND LIBELF_F_SHDRS_LOADED = 0
     \<and> rb_keys (e_scn e) \<subseteq> {0}"

lemma scns_loaded_class:
  "scns_loaded e \<Longrightarrow> elf_inv st e \<Longrightarrow> e_class e = ELFCLASS32 \<or> e_class e = ELFCLASS64"
  by (auto simp: scns_loaded_def elf_inv_def hdr_inv_def)

lemma scns_loaded_known: "scns_loaded e \<Longrightarrow> elf_inv st e \<Longrightarrow> elf_class_known e"
  using scns_loaded_class by (auto simp: elf_class_known_def scns_loaded_def)

lemma load_sections_done:
  assumes "get_elf st i = Some e" "elf_inv st e" "scns_loaded e"
  shows "load_sections st i (e_class e) = Some (True, st)"
proof -
  have "libelf_ehdr st (Some i) (e_class e) False = Some (True, st)"
    using ehdr_cached[OF assms(1)] assms scns_loaded_class[OF assms(3,2)]
    by (simp add: scns_loaded_def put_elf_same)
  then show ?thesis using assms(1,3) by (auto simp: load_sections_def scns_loaded_def)
qed

lemma load_sections_ok:
  assumes e: "get_elf st i = Some e" "elf_inv st e" and ec: "ec = ELFCLASS32 \<or> ec = ELFCLASS64"
    and p: "scns_pending e"
  shows "call_ok i st e (load_sections st i ec)
    (\<lambda>b e'. b \<longrightarrow> scns_loaded e' \<and> rb_keys (e_scn e') \<subseteq> insert 0 {..<unat (e_nscn e')}
       \<and> {..<unat (e_nscn e')} \<subseteq> rb_keys (e_scn e'))"
proof -
  have "call_ok i st e (libelf_ehdr st (Some i) ec False) (\<lambda>b e1.
      (b \<longrightarrow> e_ehdr e1 \<noteq> None \<and> e_class e1 = ec \<and> e_kind e = ELF_K_ELF \<and> e_version e = EV_CURRENT)
      \<and> (e_ehdr e \<noteq> None \<longrightarrow> e_scn e1 = e_scn e) \<and> e_flags e1 = e_flags e
      \<and> (e_ehdr e = None \<longrightarrow> rb_keys (e_scn e1) \<subseteq> {0}))"
    by (rule call_ok_mono[OF libelf_ehdr_ok[OF e ec]]) (elim conjE, intro conjI; blast)
  then obtain b st1 e1 where h:
    "libelf_ehdr st (Some i) ec False = Some (b, st1)" "get_elf st1 i = Some e1" "elf_inv st1 e1"
    "frame_ok i st st1" "same_file e e1"
    "b \<longrightarrow> e_ehdr e1 \<noteq> None \<and> e_class e1 = ec \<and> e_kind e = ELF_K_ELF \<and> e_version e = EV_CURRENT"
    "e_ehdr e \<noteq> None \<longrightarrow> e_scn e1 = e_scn e" "e_flags e1 = e_flags e"
    "e_ehdr e = None \<longrightarrow> rb_keys (e_scn e1) \<subseteq> {0}"
    unfolding call_ok_def by (elim exE conjE) (rule that)
  show ?thesis
  proof (cases b)
    case False
    then have "load_sections st i ec = Some (False, st1)" by (simp add: load_sections_def h(1))
    then show ?thesis by (rule call_okI[where e' = e1]) (use h in simp_all)
  next
    case True
    then obtain eh where eh: "e_ehdr e1 = Some eh" using h(6) by auto
    have k: "e_kind e1 = ELF_K_ELF" "e_version e1 = EV_CURRENT" "e_cmd e1 \<noteq> ELF_C_WRITE"
      "e_flags e1 AND LIBELF_F_SHDRS_LOADED = 0"
      using h(5,6,8) True p by (simp_all add: same_file_def scns_pending_def)
    have small: "rb_keys (e_scn e1) \<subseteq> {0}"
      using h(7,9) p by (cases "e_ehdr e") (simp_all add: scns_pending_def)
    have r: "load_sections st i ec = libelf_load_section_headers st1 i"
      using True k by (simp add: load_sections_def h(1,2))
    show ?thesis unfolding r
    proof (rule call_ok_trans[OF load_section_headers_ok[OF h(2,3) elf_invD(3)[OF h(3) k(3)] eh k(1,2,4) small] h(4,5)])
      fix c e'
      assume "same_file e1 e'" and q: "e_ehdr e' = e_ehdr e1 \<and> e_class e' = e_class e1 \<and> e_nscn e' = e_nscn e1
         \<and> (c \<longrightarrow> e_flags e' = e_flags e1 OR LIBELF_F_SHDRS_LOADED \<and> table_loaded st1 e1 e')"
      show "c \<longrightarrow> scns_loaded e' \<and> rb_keys (e_scn e') \<subseteq> insert 0 {..<unat (e_nscn e')}
          \<and> {..<unat (e_nscn e')} \<subseteq> rb_keys (e_scn e')"
      proof
        assume c
        have "(e_flags e1 OR LIBELF_F_SHDRS_LOADED) AND LIBELF_F_SHDRS_LOADED \<noteq> 0"
          by (simp add: bit.conj_disj_distrib2)
        then have "scns_loaded e'"
          using \<open>c\<close> q k eh \<open>same_file e1 e'\<close> by (simp add: scns_loaded_def same_file_def)
        then show "scns_loaded e' \<and> rb_keys (e_scn e') \<subseteq> insert 0 {..<unat (e_nscn e')}
          \<and> {..<unat (e_nscn e')} \<subseteq> rb_keys (e_scn e')"
          using \<open>c\<close> q small by (auto simp: table_loaded_def)
      qed
    qed
  qed
qed

lemma elf_getscn_loaded:
  assumes "get_elf st i = Some e" "elf_inv st e" "scns_loaded e"
  shows "elf_getscn st (Some i) index =
    Some (if unat index \<in> rb_keys (e_scn e) then (Some (i, unat index), st)
          else (None, set_error ELF_E_ARGUMENT 0 st))"
proof -
  have "sorted_wrt (<) (inorder (e_scn e))" using assms(2) by (simp add: elf_inv_def scn_inv_def rb_inv_def)
  then show ?thesis
    using assms(1) load_sections_done[OF assms] scns_loaded_known[OF assms(3,2)]
    by (simp add: elf_getscn_def getscn_walk_eq)
qed

lemma elf_getscn_ok:
  assumes e: "get_elf st i = Some e" "elf_inv st e" and p: "scns_pending e \<or> scns_loaded e"
  shows "\<exists>r st' e'. elf_getscn st (Some i) index = Some (r, st') \<and> get_elf st' i = Some e' \<and> elf_inv st' e'
    \<and> frame_ok i st st' \<and> (\<forall>p. r = Some p \<longrightarrow> p = (i, unat index) \<and> e_scns e' (unat index) \<noteq> None)"
proof (cases "scns_loaded e")
  case True
  have "rb_keys (e_scn e) = dom (e_scns e)" using e(2) by (simp add: elf_inv_def scn_inv_def)
  then show ?thesis using elf_getscn_loaded[OF e True, of index] e by (cases "unat index \<in> dom (e_scns e)") auto
next
  case False
  with p have pend: "scns_pending e" by simp
  show ?thesis
  proof (cases "elf_class_known e")
    case False
    then show ?thesis using e by (simp add: elf_getscn_def)
  next
    case known: True
    then have "e_class e = ELFCLASS32 \<or> e_class e = ELFCLASS64" by (simp add: elf_class_known_def)
    from load_sections_ok[OF e this pend] obtain b st1 e1 where l:
      "load_sections st i (e_class e) = Some (b, st1)" "get_elf st1 i = Some e1" "elf_inv st1 e1"
      "frame_ok i st st1" "b \<longrightarrow> scns_loaded e1" by (auto elim: call_okE)
    have keys: "rb_keys (e_scn e1) = dom (e_scns e1)" and "sorted_wrt (<) (inorder (e_scn e1))"
      using l(3) by (simp_all add: elf_inv_def scn_inv_def rb_inv_def)
    then have "elf_getscn st (Some i) index = Some (if \<not> b then (None, st1)
        else if unat index \<in> dom (e_scns e1) then (Some (i, unat index), st1)
        else (None, set_error ELF_E_ARGUMENT 0 st1))"
      using known e(1) l(1,2) by (simp add: elf_getscn_def getscn_walk_eq)
    then show ?thesis using l by auto
  qed
qed

text \<open>The tree holds exactly the sections below the count.\<close>

definition scns_dense :: "Elf \<Rightarrow> bool" where
  "scns_dense e \<longleftrightarrow> scn.dense (e_scn e) (unat (e_nscn e))"

lemma scns_dense_keys: "scns_dense e \<Longrightarrow> rb_keys (e_scn e) = {..<unat (e_nscn e)}"
  by (simp add: scns_dense_def scn.dense_def)

lemma unat_Suc: "unat (w :: u64) < 2 ^ 64 - 1 \<Longrightarrow> unat (w + 1) = Suc (unat w)"
  by (simp add: unat_word_ariths)

text \<open>One more section at the end of the table.\<close>

lemma append_scn:
  assumes e: "get_elf st i = Some e" "elf_inv st e" "scns_loaded e" "scns_dense e"
    and n: "unat (e_nscn e) < 2 ^ 64 - 1"
  obtains (fail) st' where "libelf_allocate_scn st i (unat (e_nscn e)) = Some (None, st')"
      "get_elf st' i = Some e" "frame_ok i st st'"
  | (ok) st' e1 where "libelf_allocate_scn st i (unat (e_nscn e)) = Some (Some (unat (e_nscn e)), st')"
      "get_elf st' i = Some e1" "frame_ok i st st'" "e_nscn e1 = e_nscn e" "e_class e1 = e_class e"
      "e_scns e1 = (e_scns e)(unat (e_nscn e) \<mapsto> new_scn (e_class e) (unat (e_nscn e)))"
      "elf_inv (put_elf i (e1\<lparr>e_nscn := e_nscn e + 1\<rparr>) st') (e1\<lparr>e_nscn := e_nscn e + 1\<rparr>)"
      "scns_loaded (e1\<lparr>e_nscn := e_nscn e + 1\<rparr>)" "scns_dense (e1\<lparr>e_nscn := e_nscn e + 1\<rparr>)"
proof -
  let ?n = "unat (e_nscn e)"
  have "?n \<notin> rb_keys (e_scn e)" by (simp add: scns_dense_keys[OF e(4)])
  with e(1) elf_invD(1)[OF e(2), unfolded scn_inv_def, THEN conjunct1] show thesis
  proof (cases rule: allocate_scn_ok)
    case (fail st')
    then show thesis by (rule that(1))
  next
    case (ok t st')
    let ?e1 = "e\<lparr>e_scn := t, e_scns := (e_scns e)(?n \<mapsto> new_scn (e_class e) ?n)\<rparr>"
    let ?e2 = "?e1\<lparr>e_nscn := e_nscn e + 1\<rparr>"
    have "scn_inv ?e2"
      by (rule scn_inv_add[OF elf_invD(1)[OF e(2)], where n = ?n and s = "new_scn (e_class e) ?n"])
        (simp_all add: ok(3,4) new_scn_def)
    moreover have "hdr_inv ?e2"
      by (rule hdr_inv_cong[OF elf_invD(2)[OF e(2)]]) (use e(3) in \<open>simp_all add: scns_loaded_def\<close>)
    moreover have "e_cmd e \<noteq> ELF_C_WRITE \<longrightarrow> raw_ok st' ?e2"
      using elf_invD(3)[OF e(2)] frame_fields(1)[OF ok(5)] by (simp add: raw_ok_def)
    ultimately have inv: "elf_inv (put_elf i ?e2 st') ?e2" unfolding elf_inv_simps by (simp add: elf_inv_def)
    have "rb_keys t = {..<Suc ?n}"
      using ok(4) scns_dense_keys[OF e(4)] by (simp add: lessThan_Suc)
    then have "scns_dense ?e2" using ok(3) unat_Suc[OF n] by (simp add: scns_dense_def scn.dense_def)
    moreover have "scns_loaded ?e2" using e(3) by (simp add: scns_loaded_def)
    ultimately show thesis using inv by (intro that(2)[OF ok(1,2,5)]) simp_all
  qed
qed

lemma mark_new_scn:
  assumes "get_elf st i = Some e" "e_scns e n = Some s"
  shows "do { s \<leftarrow> get_scn st i n;
              let (f, s', st) = elf_flagscn st (Some s) ELF_C_SET ELF_F_DIRTY;
              s \<leftarrow> s';
              st \<leftarrow> put_scn i n s st;
              Some (Some (i, n), st) }
    = Some (Some (i, n), put_elf i (e\<lparr>e_scns := (e_scns e)(n \<mapsto> s\<lparr>s_flags := s_flags s OR ELF_F_DIRTY\<rparr>)\<rparr>) st)"
  using assms by (simp add: get_scn_def put_scn_def elf_flagscn_def flag_update_def Let_def)

lemma scns_set_inv:
  assumes "elf_inv st e" "e_scns e n = Some s0" "s_ndx s = s_ndx s0"
  shows "elf_inv st (e\<lparr>e_scns := (e_scns e)(n \<mapsto> s)\<rparr>)"
proof -
  have "s_ndx s = n" using elf_invD(1)[OF assms(1)] assms(2,3) by (simp add: scn_inv_def)
  then have "scn_inv (e\<lparr>e_scns := (e_scns e)(n \<mapsto> s)\<rparr>)"
    using scn_inv_set[OF elf_invD(1)[OF assms(1)], where n = n and s = s] assms(2) by simp
  then show ?thesis using assms(1) by (simp add: elf_inv_def hdr_inv_def raw_ok_def)
qed

text \<open>What \<open>elf_newscn\<close> has established when it returned \<open>r\<close>.\<close>

definition newscn_post ::
  "libelf_state \<Rightarrow> nat \<Rightarrow> Elf \<Rightarrow> (nat \<times> nat) option \<Rightarrow> libelf_state \<Rightarrow> Elf \<Rightarrow> bool" where
  "newscn_post st i e r st' e' \<longleftrightarrow> elf_inv st' e' \<and> scns_loaded e' \<and> scns_dense e' \<and> frame_ok i st st'
     \<and> (\<forall>k<unat (e_nscn e). e_scns e' k = e_scns e k)
     \<and> (case r of None \<Rightarrow> True
        | Some p \<Rightarrow> p = (i, max 1 (unat (e_nscn e))) \<and> unat (e_nscn e') = Suc (snd p)
          \<and> (\<exists>s. e_scns e' (snd p) = Some s \<and> s_flags s AND ELF_F_DIRTY \<noteq> 0))"

lemma newscn_append:
  assumes e: "get_elf st i = Some e" "elf_inv st e" "scns_loaded e" "scns_dense e"
    and n: "0 < e_nscn e" "unat (e_nscn e) < 2 ^ 64 - 1"
  shows "\<exists>r st' e'. (do {
       r \<leftarrow> get_elf st i;
       c_assert (e_nscn r > 0);
       (s, st) \<leftarrow> libelf_allocate_scn st i (unat (e_nscn r));
       case s of
         None \<Rightarrow> Some (None, st)
       | Some n \<Rightarrow> do {
           r \<leftarrow> get_elf st i;
           let st = put_elf i (r\<lparr>e_nscn := e_nscn r + 1\<rparr>) st;
           s \<leftarrow> get_scn st i n;
           let (f, s', st) = elf_flagscn st (Some s) ELF_C_SET ELF_F_DIRTY;
           s \<leftarrow> s';
           st \<leftarrow> put_scn i n s st;
           Some (Some (i, n), st) } }) = Some (r, st') \<and> get_elf st' i = Some e' \<and> newscn_post st i e r st' e'"
    (is "\<exists>r st' e'. ?prog = Some (r, st') \<and> _")
proof -
  have pos: "0 < unat (e_nscn e)" using n(1) by (simp add: word_less_nat_alt)
  show ?thesis
  using e n(2) proof (cases rule: append_scn)
    case (fail st')
    then have "?prog = Some (None, st')" using e(1) n(1) by (simp add: c_assert_def)
    moreover have "newscn_post st i e None st' e"
      using e fail elf_inv_frame[OF fail(3)] by (simp add: newscn_post_def)
    ultimately show ?thesis using fail(2) by blast
  next
    case (ok st' e1)
    let ?n = "unat (e_nscn e)"
    let ?e2 = "e1\<lparr>e_nscn := e_nscn e + 1\<rparr>"
    let ?s = "new_scn (e_class e) ?n"
    have s: "e_scns ?e2 ?n = Some ?s" using ok(6) by simp
    let ?e3 = "?e2\<lparr>e_scns := (e_scns ?e2)(?n \<mapsto> ?s\<lparr>s_flags := s_flags ?s OR ELF_F_DIRTY\<rparr>)\<rparr>"
    have "?prog = Some (Some (i, ?n), put_elf i ?e3 (put_elf i ?e2 st'))"
      unfolding e(1) bind.simps c_assert_def if_P[OF n(1)] ok(1,2) prod.case option.case ok(4) Let_def
      by (subst mark_new_scn[unfolded Let_def, OF _ s]) simp_all
    moreover have "newscn_post st i e (Some (i, ?n)) (put_elf i ?e3 (put_elf i ?e2 st')) ?e3"
    proof -
      let ?p = "(i, ?n)"
      have inv: "elf_inv (put_elf i ?e3 (put_elf i ?e2 st')) ?e3"
        unfolding elf_inv_simps(2)[of i ?e3] by (rule scns_set_inv[OF ok(7) s]) simp
      have "(s_flags ?s OR ELF_F_DIRTY) AND ELF_F_DIRTY \<noteq> 0"
        by (simp add: bit.conj_disj_distrib2)
      then have dirty: "\<exists>s. e_scns ?e3 (snd ?p) = Some s \<and> s_flags s AND ELF_F_DIRTY \<noteq> 0" by simp
      have m: "?p = (i, max 1 ?n)" using pos by simp
      have ld: "scns_loaded ?e3" "scns_dense ?e3"
        using ok(8,9) by (simp_all add: scns_loaded_def scns_dense_def)
      have cnt: "unat (e_nscn ?e3) = Suc (snd ?p)" using unat_Suc[OF n(2)] by simp
      have old: "\<forall>k<?n. e_scns ?e3 k = e_scns e k" using ok(6) by simp
      have fr: "frame_ok i st (put_elf i ?e3 (put_elf i ?e2 st'))" using ok(3) by simp
      show ?thesis unfolding newscn_post_def option.case
        by (intro conjI inv ld fr old m cnt dirty)
    qed
    ultimately show ?thesis by (intro exI conjI) (assumption, rule elf_store_simps(1), assumption)
  qed
qed

lemma elf_newscn_ok:
  assumes e: "get_elf st i = Some e" "elf_inv st e" "scns_loaded e" "scns_dense e"
    and n: "unat (e_nscn e) < 2 ^ 64 - 1"
  shows "\<exists>r st' e'. elf_newscn st (Some i) = Some (r, st') \<and> get_elf st' i = Some e'
    \<and> newscn_post st i e r st' e'"
proof -
  have guards: "\<not> e_kind e \<noteq> ELF_K_ELF" "\<not> (e_class e \<noteq> ELFCLASS32 \<and> e_class e \<noteq> ELFCLASS64)"
    using e(3) scns_loaded_class[OF e(3,2)] by (auto simp: scns_loaded_def)
  note start = elf_newscn_def option.case e(1) bind.simps if_not_P[OF guards(1)] if_not_P[OF guards(2)]
    load_sections_done[OF e(1-3)] prod.case if_not_P[OF notI[OF notE[OF _ TrueI]], of True]
  show ?thesis
  proof (cases "e_scn e = RB_NULL")
    case False
    then have "rb_keys (e_scn e) \<noteq> {}" by (simp add: rb_keys_empty)
    then have "unat (e_nscn e) \<noteq> 0"
      using scns_dense_keys[OF e(4)] by (intro notI) simp
    then have pos: "0 < e_nscn e" by (simp add: word_less_nat_alt)
    show ?thesis
      unfolding start using False newscn_append[OF e pos n] e(1) by simp
  next
    case True
    then have "{..<unat (e_nscn e)} = {}" using scns_dense_keys[OF e(4)] by (simp add: rb_keys_def)
    then have z: "unat (e_nscn e) = 0" by (simp add: lessThan_empty_iff)
    then have z0: "e_nscn e = 0" by (simp add: unat_eq_zero)
    show ?thesis
    using e n proof (cases rule: append_scn)
      case (fail st')
      then have "elf_newscn st (Some i) = Some (None, st')"
        unfolding start using True z0 e(1) by (simp add: c_assert_def)
      moreover have "newscn_post st i e None st' e"
        using e fail elf_inv_frame[OF fail(3)] by (simp add: newscn_post_def)
      ultimately show ?thesis using fail(2) by blast
    next
      case (ok st1 e1)
      let ?e2 = "e1\<lparr>e_nscn := e_nscn e + 1\<rparr>"
      let ?st2 = "put_elf i ?e2 st1"
      have one: "e_nscn ?e2 = 1" using z0 by simp
      have g: "get_elf ?st2 i = Some ?e2" by simp
      have pos: "0 < e_nscn ?e2" "unat (e_nscn ?e2) < 2 ^ 64 - 1" unfolding one by simp_all
      obtain r st' e' where r: "get_elf st' i = Some e'" "newscn_post ?st2 i ?e2 r st' e'"
        "elf_newscn st (Some i) = Some (r, st')"
        using newscn_append[OF g ok(7,8,9) pos] ok(1,2,4) True z0
        unfolding start by (auto simp: c_assert_def)
      have "frame_ok i st ?st2" using ok(3) by simp
      moreover have "unat (e_nscn ?e2) = 1" unfolding one by simp
      ultimately have "newscn_post st i e r st' e'"
        using r(2) z frame_trans[of i st ?st2 st'] by (simp add: newscn_post_def split: option.splits)
      then show ?thesis using r(1,3) by blast
    qed
  qed
qed

section \<open>Properties\<close>

text \<open>
  C13. The section table is read safely from any file: the loop that loads the section headers returns, stays
  inside the file and keeps the invariant of the descriptor, whatever the header claims about
  the place and the size of the table; when it succeeds the sections are exactly those below the section
  count and section 0, and each one it loaded is decoded from its own place in the table.
\<close>

theorem section_table_read:
  assumes "get_elf st i = Some e" "elf_inv st e" "raw_ok st e" "e_ehdr e = Some eh"
    and "e_kind e = ELF_K_ELF" "e_version e = EV_CURRENT" "e_flags e AND LIBELF_F_SHDRS_LOADED = 0"
    and "rb_keys (e_scn e) \<subseteq> {0}"
  shows "\<exists>b st' e'. libelf_load_section_headers st i = Some (b, st') \<and> get_elf st' i = Some e'
    \<and> elf_inv st' e' \<and> (b \<longrightarrow> table_loaded st e e' \<and> e_flags e' = e_flags e OR LIBELF_F_SHDRS_LOADED)"
proof -
  obtain b st' e' where "libelf_load_section_headers st i = Some (b, st')" "get_elf st' i = Some e'"
    "elf_inv st' e'" "b \<longrightarrow> table_loaded st e e' \<and> e_flags e' = e_flags e OR LIBELF_F_SHDRS_LOADED"
    using load_section_headers_ok[OF assms] unfolding call_ok_def by (elim exE conjE) (rule that, assumption+, blast)
  then show ?thesis by (intro exI conjI)
qed

text \<open>A descriptor whose header says there are \<open>n\<close> sections at offset 64 of a file of 4096 bytes.\<close>

definition table_elf :: "u16 \<Rightarrow> Elf" where
  "table_elf n = (reading_elf 4096)\<lparr>e_ehdr := Some (Eh64 (reserved_header\<lparr>e_shnum := n\<rparr>)), e_nscn := ucast n\<rparr>"

definition table_state :: "u16 \<Rightarrow> libelf_state" where
  "table_state n = put_elf 0 (table_elf n) (sample_state (replicate 4096 0))"

lemma table_elf_ok:
  "get_elf (table_state n) 0 = Some (table_elf n)" "raw_ok (table_state n) (table_elf n)"
  "elf_inv (table_state n) (table_elf n)"
  by (simp_all add: table_state_def table_elf_def reading_elf_def initial_elf_def elf_inv_def raw_ok_def
      scn_inv_def hdr_inv_def rb_inv_def rb_keys_def sample_state_def window_def mem_read_def slice_at_def)

theorem section_table_read_witness:
  "\<exists>b st'. libelf_load_section_headers (table_state 5) 0 = Some (b, st')"
proof -
  have "e_ehdr (table_elf 5) = Some (Eh64 (reserved_header\<lparr>e_shnum := 5\<rparr>))" "e_kind (table_elf 5) = ELF_K_ELF"
    "e_version (table_elf 5) = EV_CURRENT" "e_flags (table_elf 5) AND LIBELF_F_SHDRS_LOADED = 0"
    "rb_keys (e_scn (table_elf 5)) \<subseteq> {0}"
    by (simp_all add: table_elf_def reading_elf_def initial_elf_def rb_keys_def)
  from section_table_read[OF table_elf_ok(1,3,2) this] show ?thesis by blast
qed

text \<open>
  C14. \<open>elf_getscn\<close> on a descriptor that has not read its sections yet, or has: for any file and any index
  it returns, keeps the invariant, and the section it returns is the one asked for.
\<close>

theorem getscn_any_file:
  assumes "get_elf st i = Some e" "elf_inv st e" "scns_pending e \<or> scns_loaded e"
  shows "\<exists>r st' e'. elf_getscn st (Some i) index = Some (r, st') \<and> get_elf st' i = Some e' \<and> elf_inv st' e'
    \<and> heap st' = heap st \<and> (\<forall>p. r = Some p \<longrightarrow> p = (i, unat index) \<and> e_scns e' (unat index) \<noteq> None)"
proof -
  from elf_getscn_ok[OF assms, of index] obtain r st' e' where r:
    "elf_getscn st (Some i) index = Some (r, st')" "get_elf st' i = Some e'" "elf_inv st' e'"
    "frame_ok i st st'" "\<forall>p. r = Some p \<longrightarrow> p = (i, unat index) \<and> e_scns e' (unat index) \<noteq> None" by blast
  with frame_fields(1)[OF r(4)] show ?thesis by (intro exI conjI)
qed

theorem getscn_any_file_witness:
  "\<exists>r st'. elf_getscn (table_state 5) (Some 0) 3 = Some (r, st')"
proof -
  have "scns_pending (table_elf 5)"
    by (simp add: scns_pending_def table_elf_def reading_elf_def initial_elf_def rb_keys_def)
  then show ?thesis using getscn_any_file[OF table_elf_ok(1,3), of 5 3] by blast
qed


lemma numbered_elf_loaded: "scns_loaded numbered_elf" "scns_dense numbered_elf"
proof -
  show "scns_loaded numbered_elf"
    by (simp add: scns_loaded_def numbered_elf_def reading_elf_def initial_elf_def)
  have "rb_inv (e_scn numbered_elf)" using numbered_elf_inv by (simp add: elf_inv_def scn_inv_def)
  then show "scns_dense numbered_elf"
    by (auto simp: scns_dense_def scn.dense_def numbered_elf_def rb_keys_def)
qed


text \<open>
  C34. \<open>elf_nextscn\<close> enumerates: on a table of n sections, section k is followed by section k + 1 up to the
  last one, after which it returns \<open>NULL\<close>; starting from \<open>NULL\<close> it begins at section 1.
\<close>

theorem nextscn_enumerates:
  assumes "get_elf st i = Some e" "elf_inv st e" "scns_loaded e" "scns_dense e"
  shows "elf_nextscn st (Some i) None = Some (if 1 < unat (e_nscn e) then (Some (i, 1), st)
      else (None, set_error ELF_E_ARGUMENT 0 st))
    \<and> (\<forall>k<unat (e_nscn e). elf_nextscn st (Some i) (Some (i, k)) =
        Some (if Suc k < unat (e_nscn e) then Some (i, Suc k) else None, st))"
proof (intro conjI allI impI)
  have kind: "e_kind e = ELF_K_ELF" using assms(3) by (simp add: scns_loaded_def)
  show "elf_nextscn st (Some i) None = Some (if 1 < unat (e_nscn e) then (Some (i, 1), st)
      else (None, set_error ELF_E_ARGUMENT 0 st))"
    using assms(1) kind elf_getscn_loaded[OF assms(1-3), of 1] scns_dense_keys[OF assms(4)]
    by (simp add: elf_nextscn_def)
  fix k assume "k < unat (e_nscn e)"
  then show "elf_nextscn st (Some i) (Some (i, k)) =
      Some (if Suc k < unat (e_nscn e) then Some (i, Suc k) else None, st)"
    using assms(1) kind scn.dense_succ[OF assms(4)[unfolded scns_dense_def]]
    by (simp add: elf_nextscn_def)
qed

theorem nextscn_enumerates_witness:
  "elf_nextscn (put_elf 0 numbered_elf (sample_state [])) (Some 0) (Some (0, 0))
    = Some (None, put_elf 0 numbered_elf (sample_state []))"
proof -
  have n: "unat (e_nscn numbered_elf) = 1" by (simp add: numbered_elf_def)
  show ?thesis
    using nextscn_enumerates[OF elf_store_simps(1) numbered_elf_inv numbered_elf_loaded,
        of 0 "sample_state []"] unfolding n by simp
qed

end
