(* ===== verification/Scn_Data.thy ===== *)
theory Scn_Data
  imports Elf_Scn
begin

text \<open>
  The data of sections: \<open>elf_data.c\<close>. A data descriptor is in one of the two lists of its section; an
  \<open>Elf_Data *\<close> is the descriptor, the section, which of the lists (\<open>True\<close> is \<open>s_rawdata\<close>) and the place in
  it. Descriptors are only ever added at the tail, so that a pointer stays valid.
\<close>

type_synonym data_ref = "nat \<times> nat \<times> bool \<times> nat"

definition scn_list :: "bool \<Rightarrow> Elf_Scn \<Rightarrow> Libelf_Data list" where
  "scn_list raw s = (if raw then s_rawdata s else s_data s)"

definition get_data :: "libelf_state \<Rightarrow> data_ref \<Rightarrow> Libelf_Data option" where
  "get_data st d = (case d of (i, n, raw, k) \<Rightarrow> do {
     s \<leftarrow> get_scn st i n;
     if k < length (scn_list raw s) then Some (scn_list raw s ! k) else None })"

text \<open>\<open>STAILQ_NEXT\<close>: the next descriptor of the list \<open>d\<close> is in.\<close>

definition next_data :: "libelf_state \<Rightarrow> data_ref \<Rightarrow> data_ref option option" where
  "next_data st d = (case d of (i, n, raw, k) \<Rightarrow> do {
     s \<leftarrow> get_scn st i n;
     Some (if Suc k < length (scn_list raw s) then Some (i, n, raw, Suc k) else None) })"

text \<open>\<open>STAILQ_INSERT_TAIL\<close>\<close>

definition append_data ::
  "libelf_state \<Rightarrow> nat \<Rightarrow> nat \<Rightarrow> bool \<Rightarrow> Libelf_Data \<Rightarrow> (data_ref \<times> libelf_state) option" where
  "append_data st i n raw d = do {
     s \<leftarrow> get_scn st i n;
     st \<leftarrow> put_scn i n
       (if raw then s\<lparr>s_rawdata := s_rawdata s @ [d]\<rparr> else s\<lparr>s_data := s_data s @ [d]\<rparr>) st;
     Some ((i, n, raw, length (scn_list raw s)), st) }"

fun shdr_align :: "shdr \<Rightarrow> u64" where
  "shdr_align (Sh32 s) = ucast (sh_addralign32 s)" | "shdr_align (Sh64 s) = sh_addralign s"

section \<open>\<open>elf_getdata\<close>\<close>

text \<open>
  The last part of \<open>elf_getdata\<close>: the buffer of \<open>msz * count\<close> bytes and the translation of the
  contents of the section into it.
\<close>

definition getdata_translate ::
  "libelf_state \<Rightarrow> nat \<Rightarrow> nat \<Rightarrow> Elf \<Rightarrow> Elf_Type \<Rightarrow> u64 \<Rightarrow> u64 \<Rightarrow> Libelf_Data
   \<Rightarrow> (data_ref option \<times> libelf_state) option" where
  "getdata_translate st i n e elftype offset count d =
     (let (buf, st) = c_malloc st (unat (d_size (d_data d)))
      in case buf of
           None \<Rightarrow> Some (None, set_error ELF_E_RESOURCE 0 (libelf_release_data st d))
         | Some b \<Rightarrow> do {
             let d = d\<lparr>d_data := (d_data d)\<lparr>d_buf := buf\<rparr>, d_flags := d_flags d OR LIBELF_F_DATA_MALLOCED\<rparr>;
             m \<leftarrow> libelf_elfmachine (Some e);
             x \<leftarrow> libelf_get_translator elftype ELF_TOMEMORY (e_class e) m;
             xlate \<leftarrow> x;
             raw \<leftarrow> e_rawfile e;
             (h, ok) \<leftarrow> xlate (host_order st) (heap st) b (d_size (d_data d))
               (ptr_add raw (unat offset)) count (e_byteorder e \<noteq> libelf_byteorder st);
             let st = st\<lparr>heap := h\<rparr>;
             if \<not> ok then Some (None, set_error ELF_E_DATA 0 (libelf_release_data st d))
             else do {
               (r, st) \<leftarrow> append_data st i n False d;
               Some (Some r, st) } })"

text \<open>From the sizes of the type on.\<close>

definition getdata_sized ::
  "libelf_state \<Rightarrow> nat \<Rightarrow> nat \<Rightarrow> Elf \<Rightarrow> Elf_Scn \<Rightarrow> Elf_Type \<Rightarrow> (data_ref option \<times> libelf_state) option" where
  "getdata_sized st i n e s elftype = do {
     let size = shdr_size (s_shdr s);
     let (fsz, st) = (if e_class e = ELFCLASS32 then elf32_fsize else elf64_fsize) st elftype 1 (e_version e);
     if fsz = 0 then Some (None, set_error ELF_E_UNIMPL 0 st)
     else if size mod fsz \<noteq> 0 then Some (None, set_error ELF_E_SECTION 0 st)
     else do {
       let count = size div fsz;
       (msz, st) \<leftarrow> libelf_msize st elftype (e_class e) (e_version e);
       if msz = 0 then Some (None, st)
       else if count > 0 \<and> msz > (- 1) div count then Some (None, set_error ELF_E_RANGE 0 st)
       else do {
         let (d, st) = libelf_allocate_data st;
         case d of
           None \<Rightarrow> Some (None, st)
         | Some d \<Rightarrow> do {
             let d = d\<lparr>d_data := \<lparr>d_align = shdr_align (s_shdr s), d_buf = None, d_off = 0,
               d_size = msz * count, d_type = elftype, d_version = e_version e\<rparr>\<rparr>;
             if shdr_type (s_shdr s) = SHT_NOBITS \<or> size = 0
             then do { (r, st) \<leftarrow> append_data st i n False d; Some (Some r, st) }
             else getdata_translate st i n e elftype (shdr_offset (s_shdr s)) count d } } } }"

text \<open>The part that runs when the section has no data descriptor yet.\<close>

definition getdata_new ::
  "libelf_state \<Rightarrow> nat \<Rightarrow> nat \<Rightarrow> (data_ref option \<times> libelf_state) option" where
  "getdata_new st i n = do {
     e \<leftarrow> get_elf st i;
     s \<leftarrow> e_scns e n;
     if e_rawfile e = None then Some (None, set_error ELF_E_ARGUMENT 0 st)
     else do {
       c_assert (e_class e = ELFCLASS32 \<or> e_class e = ELFCLASS64);
       let sht = shdr_type (s_shdr s);
       let offset = shdr_offset (s_shdr s);
       let size = shdr_size (s_shdr s);
       let elftype = libelf_xlate_shtype sht;
       if sht = SHT_NULL then Some (None, set_error ELF_E_SECTION 0 st)
       else if \<not> elf_type_valid elftype
         \<or> (sht \<noteq> SHT_NOBITS \<and> (offset > e_rawsize e \<or> size > e_rawsize e - offset))
       then Some (None, set_error ELF_E_SECTION 0 st)
       else getdata_sized st i n e s elftype } }"

definition elf_getdata ::
  "libelf_state \<Rightarrow> (nat \<times> nat) option \<Rightarrow> data_ref option \<Rightarrow> (data_ref option \<times> libelf_state) option" where
  "elf_getdata st s ed =
     (case s of
        None \<Rightarrow> Some (None, set_error ELF_E_ARGUMENT 0 st)
      | Some (i, n) \<Rightarrow>
          if (case ed of None \<Rightarrow> False | Some (i', n', _) \<Rightarrow> (i', n') \<noteq> (i, n))
          then Some (None, set_error ELF_E_ARGUMENT 0 st)
          else do {
            e \<leftarrow> get_elf st i;
            c_assert (e_kind e = ELF_K_ELF);
            s \<leftarrow> e_scns e n;
            case ed of
              Some d \<Rightarrow> do { r \<leftarrow> next_data st d; Some (r, st) }
            | None \<Rightarrow>
                if s_data s \<noteq> [] then Some (Some (i, n, False, 0), st) else getdata_new st i n })"

section \<open>\<open>elf_newdata\<close>, \<open>elf_rawdata\<close>\<close>

definition elf_newdata ::
  "libelf_state \<Rightarrow> (nat \<times> nat) option \<Rightarrow> (data_ref option \<times> libelf_state) option" where
  "elf_newdata st s =
     (case s of
        None \<Rightarrow> Some (None, set_error ELF_E_ARGUMENT 0 st)
      | Some (i, n) \<Rightarrow> do {
          e \<leftarrow> get_elf st i;
          c_assert (e_kind e = ELF_K_ELF);
          s \<leftarrow> e_scns e n;
          (ok, st) \<leftarrow>
            (if e_rawfile e \<noteq> None \<and> s_size s > 0 \<and> s_data s = []
             then do { (r, st) \<leftarrow> elf_getdata st (Some (i, n)) None; Some (r \<noteq> None, st) }
             else Some (True, st));
          if \<not> ok then Some (None, st)
          else do {
            let (d, st) = libelf_allocate_data st;
            case d of
              None \<Rightarrow> Some (None, st)
            | Some d \<Rightarrow> do {
                let d = d\<lparr>d_data := \<lparr>d_align = 1, d_buf = None, d_off = - 1, d_size = 0,
                  d_type = ELF_T_BYTE, d_version = libelf_version st\<rparr>\<rparr>;
                (r, st) \<leftarrow> append_data st i n False d;
                s \<leftarrow> get_scn st i n;
                let (f, s', st) = elf_flagscn st (Some s) ELF_C_SET ELF_F_DIRTY;
                s \<leftarrow> s';
                st \<leftarrow> put_scn i n s st;
                Some (Some r, st) } } })"

text \<open>
  There is no check that \<open>ed\<close> belongs to the section. With \<open>d_data\<close> the first member of the descriptor, the
  address \<open>&STAILQ_NEXT(d, d_next)->d_data\<close> at the end of the list is \<open>NULL\<close>.
\<close>

definition elf_rawdata ::
  "libelf_state \<Rightarrow> (nat \<times> nat) option \<Rightarrow> data_ref option \<Rightarrow> (data_ref option \<times> libelf_state) option" where
  "elf_rawdata st s ed =
     (case s of
        None \<Rightarrow> Some (None, set_error ELF_E_ARGUMENT 0 st)
      | Some (i, n) \<Rightarrow> do {
          e \<leftarrow> get_elf st i;
          s \<leftarrow> e_scns e n;
          case e_rawfile e of
            None \<Rightarrow> Some (None, set_error ELF_E_ARGUMENT 0 st)
          | Some raw \<Rightarrow> do {
              c_assert (e_kind e = ELF_K_ELF);
              case ed of
                Some d \<Rightarrow> do { r \<leftarrow> next_data st d; Some (r, st) }
              | None \<Rightarrow>
                  if s_rawdata s \<noteq> [] then Some (Some (i, n, True, 0), st)
                  else do {
                    c_assert (e_class e = ELFCLASS32 \<or> e_class e = ELFCLASS64);
                    let sht = shdr_type (s_shdr s);
                    let offset = shdr_offset (s_shdr s);
                    let size = shdr_size (s_shdr s);
                    if sht = SHT_NULL then Some (None, set_error ELF_E_SECTION 0 st)
                    else if sht \<noteq> SHT_NOBITS \<and> (offset > e_rawsize e \<or> size > e_rawsize e - offset)
                    then Some (None, set_error ELF_E_SECTION 0 st)
                    else do {
                      let (d, st) = libelf_allocate_data st;
                      case d of
                        None \<Rightarrow> Some (None, st)
                      | Some d \<Rightarrow> do {
                          (r, st) \<leftarrow> append_data st i n True (d\<lparr>d_data :=
                            \<lparr>d_align = shdr_align (s_shdr s),
                             d_buf = (if sht = SHT_NOBITS \<or> size = 0 then None
                                      else Some (ptr_add raw (unat offset))),
                             d_off = 0, d_size = size, d_type = ELF_T_BYTE,
                             d_version = e_version e\<rparr>\<rparr>);
                          Some (Some r, st) } } } } })"

section \<open>Memory\<close>

text \<open>Blocks not allocated yet do not exist; memory only grows.\<close>

definition heap_fresh :: "libelf_state \<Rightarrow> bool" where
  "heap_fresh st \<longleftrightarrow> (\<forall>j\<ge>next_buf st. heap st j = None)"

definition heap_grows :: "heap \<Rightarrow> heap \<Rightarrow> bool" where
  "heap_grows h h' \<longleftrightarrow> (\<forall>p n. window h p n \<longrightarrow> window h' p n)"

lemma heap_growsD: "heap_grows h h' \<Longrightarrow> window h p n \<Longrightarrow> window h' p n"
  unfolding heap_grows_def by blast

lemma heap_grows_refl [simp]: "heap_grows h h"
  by (simp add: heap_grows_def)

lemma heap_grows_trans: "heap_grows h h1 \<Longrightarrow> heap_grows h1 h2 \<Longrightarrow> heap_grows h h2"
  by (simp add: heap_grows_def)

lemma heap_grows_shape: "same_shape h h' \<Longrightarrow> heap_grows h h'"
  by (simp add: heap_grows_def same_shape_def)

lemma window_block: "window h (j, 0) 0 \<longleftrightarrow> h j \<noteq> None"
  by (auto simp: window_def mem_read_def slice_at_def split: option.splits)

lemma window_exists: "window h p n \<Longrightarrow> h (fst p) \<noteq> None"
  by (auto simp: window_def mem_read_def split: option.splits)

lemma shape_block: "same_shape h h' \<Longrightarrow> h' j = None \<longleftrightarrow> h j = None"
  using window_block[of h j] window_block[of h' j] by (auto simp: same_shape_def)

lemma window_upd: "fst p \<noteq> j \<Longrightarrow> window (h(j := x)) p n = window h p n"
  by (simp add: window_def mem_read_def)

lemma raw_ok_grows: "raw_ok st e \<Longrightarrow> heap_grows (heap st) (heap st') \<Longrightarrow> raw_ok st' e"
  by (auto simp: raw_ok_def heap_grows_def)

lemma elf_inv_grows: "elf_inv st e \<Longrightarrow> heap_grows (heap st) (heap st') \<Longrightarrow> elf_inv st' e"
  using raw_ok_grows by (auto simp: elf_inv_def)

lemma c_malloc_ok:
  assumes "heap_fresh st"
  obtains (fail) "c_malloc st n = (None, snd (c_alloc st))"
  | (ok) b st' where "c_malloc st n = (Some b, st')" "window (heap st') b n" "fst b = next_buf st"
      "heap_fresh st'" "heap_grows (heap st) (heap st')" "\<And>i. get_elf st' i = get_elf st i"
      "libelf_byteorder st' = libelf_byteorder st" "next_buf st' = Suc (next_buf st)"
proof (cases "fst (c_alloc st)")
  case False
  then show thesis using fail by (simp add: c_malloc_def case_prod_unfold Let_def)
next
  case True
  let ?st1 = "snd (c_alloc st)"
  have s: "next_buf ?st1 = next_buf st" by (simp add: c_alloc_def)
  let ?st' = "?st1\<lparr>heap := (heap ?st1)(next_buf st \<mapsto> replicate n 0), next_buf := Suc (next_buf st)\<rparr>"
  have none: "heap st (next_buf st) = None" using assms by (simp add: heap_fresh_def)
  have "c_malloc st n = (Some (next_buf st, 0), ?st')"
    using True s by (simp add: c_malloc_def case_prod_unfold Let_def)
  moreover have "window (heap ?st') (next_buf st, 0) n" by (simp add: window_def mem_read_def slice_at_def)
  moreover have "heap_fresh ?st'" using assms by (simp add: heap_fresh_def)
  moreover have "window (heap ?st') p k" if "window (heap st) p k" for p k
  proof -
    have "fst p \<noteq> next_buf st" using window_exists[OF that] none by auto
    then show ?thesis using that by (simp add: window_upd)
  qed
  moreover have "get_elf ?st' i = get_elf st i" for i by (simp add: get_elf_def c_alloc_def)
  ultimately show thesis by (intro ok[of "(next_buf st, 0)" ?st']) (auto simp: heap_grows_def)
qed

text \<open>The buffer of a data descriptor is there, all of it.\<close>

definition data_ok :: "heap \<Rightarrow> Libelf_Data \<Rightarrow> bool" where
  "data_ok h d \<longleftrightarrow> (\<forall>b. d_buf (d_data d) = Some b \<longrightarrow> window h b (unat (d_size (d_data d))))"

lemma data_ok_grows: "data_ok h d \<Longrightarrow> heap_grows h h' \<Longrightarrow> data_ok h' d"
  by (simp add: data_ok_def heap_grows_def)

text \<open>What a call that makes or finds a data descriptor has established.\<close>

definition data_post ::
  "libelf_state \<Rightarrow> nat \<Rightarrow> Elf \<Rightarrow> nat \<Rightarrow> data_ref option \<Rightarrow> libelf_state \<Rightarrow> Elf \<Rightarrow> bool" where
  "data_post st i e n r st' e' \<longleftrightarrow> get_elf st' i = Some e' \<and> elf_inv st' e' \<and> heap_fresh st'
     \<and> heap_grows (heap st) (heap st') \<and> (\<forall>j. j \<noteq> i \<longrightarrow> get_elf st' j = get_elf st j) \<and> same_file e e'
     \<and> same_header e e' \<and> e_scn e' = e_scn e \<and> (\<forall>k. k \<noteq> n \<longrightarrow> e_scns e' k = e_scns e k)
     \<and> libelf_byteorder st' = libelf_byteorder st"

lemma data_post_error [simp]:
  "data_post st i e n r (set_error er os st') e' = data_post st i e n r st' e'"
  by (simp add: data_post_def heap_fresh_def)

lemma data_post_refl: "get_elf st i = Some e \<Longrightarrow> elf_inv st e \<Longrightarrow> heap_fresh st \<Longrightarrow> data_post st i e n r st e"
  by (simp add: data_post_def)

lemma append_data_ok:
  assumes "data_post st i e n None st1 e1" "e_scns e1 n = Some s"
  shows "\<exists>st' e'. append_data st1 i n raw d = Some ((i, n, raw, length (scn_list raw s)), st')
    \<and> data_post st i e n r st' e' \<and> get_data st' (i, n, raw, length (scn_list raw s)) = Some d
    \<and> heap st' = heap st1"
proof -
  let ?s = "if raw then s\<lparr>s_rawdata := s_rawdata s @ [d]\<rparr> else s\<lparr>s_data := s_data s @ [d]\<rparr>"
  let ?e' = "e1\<lparr>e_scns := (e_scns e1)(n \<mapsto> ?s)\<rparr>"
  let ?st' = "put_elf i ?e' st1"
  have g: "get_elf st1 i = Some e1" using assms(1) by (simp add: data_post_def)
  have "append_data st1 i n raw d = Some ((i, n, raw, length (scn_list raw s)), ?st')"
    using assms(2) g by (simp add: append_data_def get_scn_def put_scn_def)
  moreover have "elf_inv st1 ?e'"
    by (rule scns_set_inv[OF _ assms(2)]) (use assms in \<open>simp_all add: data_post_def\<close>)
  then have "data_post st i e n r ?st' ?e'"
    using assms(1) by (auto simp: data_post_def same_file_def same_header_def heap_fresh_def put_elf_def
        get_elf_def elf_inv_def raw_ok_def)
  moreover have "get_data ?st' (i, n, raw, length (scn_list raw s)) = Some d"
    by (simp add: get_data_def get_scn_def scn_list_def)
  ultimately show ?thesis by (intro exI[of _ ?st'] exI[of _ ?e']) simp
qed

section \<open>\<open>elf_getdata\<close> is safe\<close>

lemma translator_to_memory:
  assumes t: "elf_type_valid t" "0 < fsize_table ec t" and ec: "ec = ELFCLASS32 \<or> ec = ELFCLASS64"
    and w: "window h db (unat dsz)" "window h sb (unat cnt * fsize_table ec t)"
    and dsz: "unat dsz = unat cnt * msize_table ec t"
  obtains c where "libelf_get_translator t ELF_TOMEMORY ec m = Some (Some c)"
    "safe_res db (unat dsz) h (c host h db dsz sb cnt sw)"
proof -
  obtain c where c: "cvt_table t ELF_TOMEMORY ec = Some c" using cvt_table_total[OF t(2)] by blast
  have "safe_res db (unat dsz) h (c host h db dsz sb cnt sw)"
    by (rule translator_safe[OF c]) (use w dsz in simp_all)
  moreover have "libelf_get_translator t ELF_TOMEMORY ec m = Some (Some c)"
    using ec t c by (auto simp: libelf_get_translator_def)
  ultimately show thesis using that by blast
qed

text \<open>A file that is all there, if there is one.\<close>

definition file_there :: "libelf_state \<Rightarrow> Elf \<Rightarrow> bool" where
  "file_there st e \<longleftrightarrow> e_rawfile e = None \<or> raw_ok st e"

lemma release_data_ok:
  assumes "data_post st i e n None st1 e1" "heap_grows (heap st0) (heap st1)" "heap_fresh st0"
    and "\<And>b. d_buf (d_data d) = Some b \<Longrightarrow> heap st0 (fst b) = None" "heap_grows (heap st) (heap st0)"
    and "elf_inv st0 e1" "\<forall>j\<ge>next_buf st1. heap st1 j = None"
  shows "data_post st i e n None (libelf_release_data st1 d) e1"
proof (cases "d_flags d AND LIBELF_F_DATA_MALLOCED \<noteq> 0 \<and> d_buf (d_data d) \<noteq> None")
  case False
  then have "libelf_release_data st1 d = st1"
    by (cases "d_buf (d_data d)") (auto simp: libelf_release_data_def c_free_def)
  then show ?thesis using assms(1) by simp
next
  case True
  then obtain b where b: "d_buf (d_data d) = Some b" by auto
  let ?st' = "st1\<lparr>heap := (heap st1)(fst b := None)\<rparr>"
  have r: "libelf_release_data st1 d = ?st'" using True b by (simp add: libelf_release_data_def c_free_def)
  have g: "heap_grows (heap st0) (heap ?st')"
  proof -
    have "window (heap ?st') p k" if "window (heap st0) p k" for p k
    proof -
      have "fst p \<noteq> fst b" using window_exists[OF that] assms(4)[OF b] by auto
      then show ?thesis using heap_growsD[OF assms(2) that] by (simp add: window_upd)
    qed
    then show ?thesis by (simp add: heap_grows_def)
  qed
  then have "heap_grows (heap st) (heap ?st')" using assms(5) heap_grows_trans by blast
  moreover have "elf_inv ?st' e1" by (rule elf_inv_grows[OF assms(6) g])
  moreover have "heap_fresh ?st'" using assms(7) by (simp add: heap_fresh_def)
  ultimately show ?thesis unfolding r using assms(1) by (simp add: data_post_def get_elf_def)
qed

lemma getdata_translate_ok:
  assumes e: "get_elf st i = Some e" "elf_inv st e" "e_kind e = ELF_K_ELF" "raw_ok st e" "heap_fresh st"
    and s: "e_scns e n = Some s" and ec: "e_class e = ELFCLASS32 \<or> e_class e = ELFCLASS64"
    and t: "elf_type_valid t" "0 < fsize_table (e_class e) t"
    and fit: "unat offset + unat cnt * fsize_table (e_class e) t \<le> unat (e_rawsize e)"
    and sz: "unat (d_size (d_data d)) = unat cnt * msize_table (e_class e) t" and nobuf: "d_buf (d_data d) = None"
  shows "\<exists>r st' e'. getdata_translate st i n e t offset cnt d = Some (r, st') \<and> data_post st i e n r st' e'
    \<and> (\<forall>x. r = Some x \<longrightarrow> (\<exists>D. get_data st' x = Some D \<and> data_ok (heap st') D))"
  using e(5)
proof (cases rule: c_malloc_ok[where n = "unat (d_size (d_data d))"])
  case fail
  then have "getdata_translate st i n e t offset cnt d
      = Some (None, set_error ELF_E_RESOURCE 0 (libelf_release_data (snd (c_alloc st)) d))"
    by (simp add: getdata_translate_def)
  moreover have "libelf_release_data (snd (c_alloc st)) d = snd (c_alloc st)"
    using nobuf by (simp add: libelf_release_data_def c_free_def)
  moreover have "data_post st i e n None (snd (c_alloc st)) e"
    using e by (simp add: data_post_def heap_fresh_def c_alloc_def get_elf_def elf_inv_def raw_ok_def)
  ultimately show ?thesis by auto
next
  case (ok b st1)
  obtain raw where raw: "e_rawfile e = Some raw" "window (heap st) raw (unat (e_rawsize e))"
    using e(4) by (auto simp: raw_ok_def)
  obtain m where m: "libelf_elfmachine (Some e) = Some m" using e(3) ec by (auto simp: libelf_elfmachine_def)
  let ?d = "d\<lparr>d_data := (d_data d)\<lparr>d_buf := Some b\<rparr>, d_flags := d_flags d OR LIBELF_F_DATA_MALLOCED\<rparr>"
  let ?sb = "ptr_add raw (unat offset)"
  let ?sw = "e_byteorder e \<noteq> libelf_byteorder st1"
  have "window (heap st1) raw (unat (e_rawsize e))" using heap_growsD[OF ok(5) raw(2)] .
  then have w: "window (heap st1) ?sb (unat cnt * fsize_table (e_class e) t)"
    by (rule window_sub) (use fit in simp)
  have "window (heap st1) b (unat (d_size (d_data ?d)))" using ok(2) by simp
  then obtain c where c: "libelf_get_translator t ELF_TOMEMORY (e_class e) m = Some (Some c)"
    "safe_res b (unat (d_size (d_data ?d))) (heap st1) (c (host_order st1) (heap st1) b (d_size (d_data ?d)) ?sb cnt ?sw)"
    by (rule translator_to_memory[OF t ec _ w]) (use sz in simp_all)
  then obtain h good where h: "c (host_order st1) (heap st1) b (d_size (d_data ?d)) ?sb cnt ?sw = Some (h, good)"
    "same_shape (heap st1) h" unfolding safe_res_def kept_def by blast
  let ?st2 = "st1\<lparr>heap := h\<rparr>"
  have res: "getdata_translate st i n e t offset cnt d = (if \<not> good
      then Some (None, set_error ELF_E_DATA 0 (libelf_release_data ?st2 ?d))
      else do { (r, st) \<leftarrow> append_data ?st2 i n False ?d; Some (Some r, st) })"
    using h(1) by (simp add: getdata_translate_def ok(1) m c(1) raw(1) Let_def)
  have g: "heap_grows (heap st) h" using heap_grows_trans[OF ok(5) heap_grows_shape[OF h(2)]] .
  have fr: "heap_fresh ?st2" using ok(4) shape_block[OF h(2)] by (simp add: heap_fresh_def)
  have post: "data_post st i e n None ?st2 e"
    using e g fr ok(6,7) elf_inv_grows[OF e(2), of ?st2]
    by (simp add: data_post_def get_elf_def)
  show ?thesis
  proof (cases good)
    case False
    have "heap st (fst b) = None" using e(5) ok(3) by (simp add: heap_fresh_def)
    then have "data_post st i e n None (libelf_release_data ?st2 ?d) e"
      by (intro release_data_ok[OF post _ e(5) _ heap_grows_refl e(2)]) (use g fr in \<open>auto simp: heap_fresh_def\<close>)
    then show ?thesis using False res by auto
  next
    case True
    from append_data_ok[OF post s, of False ?d] obtain st' e' where a:
      "append_data ?st2 i n False ?d = Some ((i, n, False, length (scn_list False s)), st')"
      "data_post st i e n None st' e'" "get_data st' (i, n, False, length (scn_list False s)) = Some ?d"
      "heap st' = heap ?st2" by (auto simp: data_post_def)
    have "data_ok (heap st') ?d"
      using ok(2) h(2) unfolding a(4) by (simp add: data_ok_def same_shape_window)
    then show ?thesis using True res a by (auto simp: data_post_def)
  qed
qed

lemma allocate_data_eq:
  "libelf_allocate_data st = (if fst (c_alloc st) then (Some \<lparr>d_data = zero_data, d_flags = 0\<rparr>, snd (c_alloc st))
     else (None, set_error ELF_E_RESOURCE 0 (snd (c_alloc st))))"
  by (simp add: libelf_allocate_data_def case_prod_unfold Let_def)

lemma elf_fsize_1:
  "elf_type_valid t \<Longrightarrow> (if ec = ELFCLASS32 then elf32_fsize else elf64_fsize) st t 1 EV_CURRENT =
     (of_nat (fsize_table (if ec = ELFCLASS32 then ELFCLASS32 else ELFCLASS64) t),
      if fsize_table (if ec = ELFCLASS32 then ELFCLASS32 else ELFCLASS64) t = 0
      then set_error ELF_E_UNIMPL 0 st else st)"
  by (simp add: fsize_1)

lemma c_alloc_state [simp]:
  "heap (snd (c_alloc st)) = heap st" "next_buf (snd (c_alloc st)) = next_buf st"
  "get_elf (snd (c_alloc st)) i = get_elf st i"
  by (simp_all add: c_alloc_def get_elf_def)

lemma data_post_alloc [simp]:
  "data_post st i e n r (snd (c_alloc st1)) e' = data_post st i e n r st1 e'"
  by (simp add: data_post_def heap_fresh_def elf_inv_def raw_ok_def)

lemma data_post_from_alloc [simp]:
  "data_post (snd (c_alloc st)) i e n r st1 e' = data_post st i e n r st1 e'"
  by (simp add: data_post_def)

lemma heap_fresh_alloc [simp]: "heap_fresh (snd (c_alloc st)) = heap_fresh st"
  by (simp add: heap_fresh_def)

text \<open>
  \<open>ref_ok st r\<close>: a data descriptor that was returned is in its list, and its buffer exists.
\<close>

definition ref_ok :: "libelf_state \<Rightarrow> data_ref option \<Rightarrow> bool" where
  "ref_ok st r \<longleftrightarrow> (\<forall>x. r = Some x \<longrightarrow> (\<exists>D. get_data st x = Some D \<and> data_ok (heap st) D))"

lemma ref_ok_simps [simp]: "ref_ok st None" "ref_ok st (Some x) = (\<exists>D. get_data st x = Some D \<and> data_ok (heap st) D)"
  by (simp_all add: ref_ok_def)

lemma getdata_sized_eq:
  assumes ec: "e_class e = ELFCLASS32 \<or> e_class e = ELFCLASS64" and t: "elf_type_valid t"
    and f: "f = fsize_table (e_class e) t" and m: "m = msize_table (e_class e) t"
    and cnt: "cnt = shdr_size (s_shdr s) div of_nat f"
    and d: "d = \<lparr>d_data = \<lparr>d_align = shdr_align (s_shdr s), d_buf = None, d_off = 0,
      d_size = of_nat m * cnt, d_type = t, d_version = e_version e\<rparr>, d_flags = 0\<rparr>"
  shows "getdata_sized st i n e s t =
     (if e_version e \<noteq> EV_CURRENT \<or> f = 0 then Some (None, set_error ELF_E_UNIMPL 0 st)
      else if shdr_size (s_shdr s) mod of_nat f \<noteq> 0 then Some (None, set_error ELF_E_SECTION 0 st)
      else if cnt > 0 \<and> of_nat m > (- 1) div cnt then Some (None, set_error ELF_E_RANGE 0 st)
      else if \<not> fst (c_alloc st) then Some (None, set_error ELF_E_RESOURCE 0 (snd (c_alloc st)))
      else if shdr_type (s_shdr s) = SHT_NOBITS \<or> shdr_size (s_shdr s) = 0
      then do { (r, st) \<leftarrow> append_data (snd (c_alloc st)) i n False d; Some (Some r, st) }
      else getdata_translate (snd (c_alloc st)) i n e t (shdr_offset (s_shdr s)) cnt d)"
proof (cases "e_version e = EV_CURRENT \<and> f \<noteq> 0")
  case False
  then show ?thesis using ec t f by (auto simp: getdata_sized_def fsize_1 Let_def set_error_def)
next
  case True
  have z: "(of_nat f :: u64) \<noteq> 0" "(of_nat m :: u64) \<noteq> 0"
    using of_nat_64_zero[OF fsize_le_64] of_nat_64_zero[OF msize_le_64] True
    by (auto simp: f m simp flip: fsize_msize_rel(2))
  have fs: "(if e_class e = ELFCLASS32 then elf32_fsize else elf64_fsize) st t 1 (e_version e) = (of_nat f, st)"
    using ec True f by (auto simp: fsize_1[OF t])
  have ms: "libelf_msize st t (e_class e) (e_version e) = Some (of_nat m, st)"
    using ec t z(2) True m by (auto simp: libelf_msize_def Let_def c_assert_def)
  have "\<not> (e_version e \<noteq> EV_CURRENT \<or> f = 0)" using True by simp
  note n = if_not_P[OF this]
  show ?thesis
    unfolding getdata_sized_def Let_def fs prod.case n if_not_P[OF z(1)] ms bind.simps if_not_P[OF z(2)]
      allocate_data_eq cnt[symmetric]
    by (simp add: d)
qed

lemma getdata_sized_ok:
  assumes e: "get_elf st i = Some e" "elf_inv st e" "e_kind e = ELF_K_ELF" "raw_ok st e" "heap_fresh st"
    and s: "e_scns e n = Some s" and ec: "e_class e = ELFCLASS32 \<or> e_class e = ELFCLASS64"
    and t: "elf_type_valid t"
    and fit: "shdr_type (s_shdr s) \<noteq> SHT_NOBITS \<Longrightarrow> shdr_offset (s_shdr s) \<le> e_rawsize e"
      "shdr_type (s_shdr s) \<noteq> SHT_NOBITS \<Longrightarrow> shdr_size (s_shdr s) \<le> e_rawsize e - shdr_offset (s_shdr s)"
  shows "\<exists>r st' e'. getdata_sized st i n e s t = Some (r, st') \<and> data_post st i e n r st' e' \<and> ref_ok st' r"
proof -
  define f m cnt where "f = fsize_table (e_class e) t" and "m = msize_table (e_class e) t"
    and "cnt = shdr_size (s_shdr s) div of_nat f"
  let ?size = "shdr_size (s_shdr s)" and ?off = "shdr_offset (s_shdr s)"
  let ?d = "\<lparr>d_data = \<lparr>d_align = shdr_align (s_shdr s), d_buf = None, d_off = 0,
      d_size = of_nat m * cnt, d_type = t, d_version = e_version e\<rparr>, d_flags = 0\<rparr>"
  note eq = getdata_sized_eq[OF ec t f_def m_def cnt_def refl, of st i n]
  have err: ?thesis if "getdata_sized st i n e s t = Some (None, set_error er 0 st1)"
    "st1 = st \<or> st1 = snd (c_alloc st)" for er st1
  proof -
    have "data_post st i e n None st1 e" using that(2) data_post_refl[OF e(1,2,5)] by auto
    then show ?thesis using that(1)
      by (intro exI[of _ None] exI[of _ "set_error er 0 st1"] exI[of _ e]) simp
  qed
  show ?thesis
  proof (cases "(e_version e \<noteq> EV_CURRENT \<or> f = 0) \<or> ?size mod of_nat f \<noteq> 0
      \<or> (cnt > 0 \<and> of_nat m > (- 1) div cnt) \<or> \<not> fst (c_alloc st)")
    case True
    then consider (v) "e_version e \<noteq> EV_CURRENT \<or> f = 0"
      | (m) "\<not> (e_version e \<noteq> EV_CURRENT \<or> f = 0)" "?size mod of_nat f \<noteq> 0"
      | (o) "\<not> (e_version e \<noteq> EV_CURRENT \<or> f = 0)" "\<not> ?size mod of_nat f \<noteq> 0"
          "cnt > 0 \<and> of_nat m > (- 1) div cnt"
      | (a) "\<not> (e_version e \<noteq> EV_CURRENT \<or> f = 0)" "\<not> ?size mod of_nat f \<noteq> 0"
          "\<not> (cnt > 0 \<and> of_nat m > (- 1) div cnt)" "\<not> fst (c_alloc st)"
      by argo
    then show ?thesis
    proof cases
      case v
      show ?thesis by (rule err[OF eq[unfolded if_P[OF v]] disjI1[OF refl]])
    next
      case m
      show ?thesis by (rule err[OF eq[unfolded if_not_P[OF m(1)] if_P[OF m(2)]] disjI1[OF refl]])
    next
      case o
      show ?thesis
        by (rule err[OF eq[unfolded if_not_P[OF o(1)] if_not_P[OF o(2)] if_P[OF o(3)]] disjI1[OF refl]])
    next
      case a
      show ?thesis
        by (rule err[OF eq[unfolded if_not_P[OF a(1)] if_not_P[OF a(2)] if_not_P[OF a(3)] if_P[OF a(4)]]
              disjI2[OF refl]])
    qed
  next
    case False
    let ?st1 = "snd (c_alloc st)"
    have eq1: "getdata_sized st i n e s t = (if shdr_type (s_shdr s) = SHT_NOBITS \<or> ?size = 0
      then do { (r, st) \<leftarrow> append_data ?st1 i n False ?d; Some (Some r, st) }
      else getdata_translate ?st1 i n e t ?off cnt ?d)"
      using False unfolding eq by (simp only: if_False de_Morgan_disj not_not simp_thms if_not_P)
    have inv1: "elf_inv ?st1 e" "raw_ok ?st1 e" "get_elf ?st1 i = Some e"
      using e by (simp_all add: elf_inv_def raw_ok_def)
    show ?thesis
    proof (cases "shdr_type (s_shdr s) = SHT_NOBITS \<or> ?size = 0")
      case True
      have "data_post st i e n None ?st1 e" using data_post_refl[OF e(1,2,5)] by simp
      from append_data_ok[OF this s, of False ?d] obtain st' e' where
        "append_data ?st1 i n False ?d = Some ((i, n, False, length (scn_list False s)), st')"
        "data_post st i e n None st' e'" "get_data st' (i, n, False, length (scn_list False s)) = Some ?d"
        by (auto simp: data_post_def)
      then show ?thesis unfolding eq1 using True by (auto simp: data_ok_def data_post_def)
    next
      case bits: False
      have fle: "f \<le> 64" "m \<le> 64" using fsize_le_64 msize_le_64 by (simp_all add: f_def m_def)
      have uf: "unat (of_nat f :: u64) = f" "unat (of_nat m :: u64) = m"
        using fle unat_of_nat_64 by simp_all
      have "unat ?size mod f = 0" using False uf(1) by (metis unat_mod unat_eq_zero)
      then have cf: "unat cnt * f = unat ?size"
        using uf(1) by (simp add: cnt_def unat_div) (metis mod_0_imp_dvd dvd_div_mult_self)
      have "?size \<noteq> 0" using bits by simp
      then have "0 < cnt" using cf unat_eq_zero[of ?size] by (metis mult_is_0 unat_eq_zero word_gt_0)
      then have "of_nat m \<le> (- 1) div cnt" using False by (simp add: not_less)
      from no_overflow_mult[OF \<open>0 < cnt\<close> this] have sz: "unat (of_nat m * cnt) = unat cnt * m"
        unfolding uf(2) mult.commute[of "of_nat m" cnt] .
      have "unat ?off + unat cnt * f \<le> unat (e_rawsize e)"
        using fit bits cf by (simp add: word_le_nat_alt unat_sub)
      then have "\<exists>r st' e'. getdata_translate ?st1 i n e t ?off cnt ?d = Some (r, st')
        \<and> data_post ?st1 i e n r st' e' \<and> (\<forall>x. r = Some x \<longrightarrow> (\<exists>D. get_data st' x = Some D \<and> data_ok (heap st') D))"
        using False sz e(3,5) inv1 s ec t
        by (intro getdata_translate_ok) (simp_all add: f_def m_def)
      then show ?thesis unfolding eq1 using bits by (simp add: ref_ok_def)
    qed
  qed
qed

lemma getdata_new_ok:
  assumes e: "get_elf st i = Some e" "elf_inv st e" "e_kind e = ELF_K_ELF" "file_there st e" "heap_fresh st"
    and s: "e_scns e n = Some s" and ec: "e_class e = ELFCLASS32 \<or> e_class e = ELFCLASS64"
  shows "\<exists>r st' e'. getdata_new st i n = Some (r, st') \<and> data_post st i e n r st' e' \<and> ref_ok st' r"
proof -
  let ?t = "libelf_xlate_shtype (shdr_type (s_shdr s))"
  let ?off = "shdr_offset (s_shdr s)" and ?size = "shdr_size (s_shdr s)"
  let ?bad = "\<not> elf_type_valid ?t \<or> (shdr_type (s_shdr s) \<noteq> SHT_NOBITS
      \<and> (?off > e_rawsize e \<or> ?size > e_rawsize e - ?off))"
  have err: ?thesis if "getdata_new st i n = Some (None, set_error er 0 st)" for er
    using that data_post_refl[OF e(1,2,5)] by (intro exI[of _ None] exI[of _ "set_error er 0 st"] exI[of _ e]) simp
  have new: "getdata_new st i n =
     (if e_rawfile e = None then Some (None, set_error ELF_E_ARGUMENT 0 st)
      else if shdr_type (s_shdr s) = SHT_NULL then Some (None, set_error ELF_E_SECTION 0 st)
      else if ?bad then Some (None, set_error ELF_E_SECTION 0 st)
      else getdata_sized st i n e s ?t)"
    unfolding getdata_new_def e(1) s bind.simps c_assert_def if_P[OF ec] Let_def ..
  show ?thesis
  proof (cases "e_rawfile e = None \<or> shdr_type (s_shdr s) = SHT_NULL \<or> ?bad")
    case True
    then have "getdata_new st i n = Some (None, set_error (if e_rawfile e = None then ELF_E_ARGUMENT else ELF_E_SECTION) 0 st)"
      unfolding new by auto
    then show ?thesis by (rule err)
  next
    case False
    then have n: "\<not> e_rawfile e = None" "\<not> shdr_type (s_shdr s) = SHT_NULL" "\<not> ?bad" by argo+
    have ok: "getdata_new st i n = getdata_sized st i n e s ?t"
      unfolding new if_not_P[OF n(1)] if_not_P[OF n(2)] if_not_P[OF n(3)] ..
    show ?thesis unfolding ok
      by (rule getdata_sized_ok[OF e(1-3) _ e(5) s ec]) (use False e(4) in \<open>auto simp: file_there_def not_less\<close>)
  qed
qed

text \<open>The data descriptors a section has are backed by memory.\<close>

definition scn_data_ok :: "heap \<Rightarrow> Elf_Scn \<Rightarrow> bool" where
  "scn_data_ok h s \<longleftrightarrow> (\<forall>d\<in>set (s_data s) \<union> set (s_rawdata s). data_ok h d)"

lemma getdata_first_ok:
  assumes e: "get_elf st i = Some e" "elf_inv st e" "e_kind e = ELF_K_ELF" "file_there st e" "heap_fresh st"
    and s: "e_scns e n = Some s" "scn_data_ok (heap st) s" and ec: "e_class e = ELFCLASS32 \<or> e_class e = ELFCLASS64"
  shows "\<exists>r st' e'. elf_getdata st (Some (i, n)) None = Some (r, st') \<and> data_post st i e n r st' e' \<and> ref_ok st' r"
proof (cases "s_data s")
  case Nil
  then have "elf_getdata st (Some (i, n)) None = getdata_new st i n"
    using e s by (simp add: elf_getdata_def c_assert_def)
  then show ?thesis using getdata_new_ok[OF e s(1) ec] by simp
next
  case (Cons d ds)
  then have "elf_getdata st (Some (i, n)) None = Some (Some (i, n, False, 0), st)"
    using e s by (simp add: elf_getdata_def c_assert_def)
  moreover have "get_data st (i, n, False, 0) = Some d" "data_ok (heap st) d"
    using Cons e(1) s by (simp_all add: get_data_def get_scn_def scn_list_def scn_data_ok_def)
  ultimately show ?thesis
    using data_post_refl[OF e(1,2,5)] by (auto simp: data_post_def)
qed

lemma rawdata_first_ok:
  assumes e: "get_elf st i = Some e" "elf_inv st e" "e_kind e = ELF_K_ELF" "raw_ok st e" "heap_fresh st"
    and raw: "e_rawfile e = Some p" and s: "e_scns e n = Some s" "s_rawdata s = []"
    and ec: "e_class e = ELFCLASS32 \<or> e_class e = ELFCLASS64"
  shows "\<exists>r st' e'. elf_rawdata st (Some (i, n)) None = Some (r, st') \<and> data_post st i e n r st' e' \<and> heap st' = heap st
    \<and> (\<forall>x. r = Some x \<longrightarrow> (\<exists>D. get_data st' x = Some D \<and> data_ok (heap st') D
          \<and> d_size (d_data D) = shdr_size (s_shdr s) \<and> d_type (d_data D) = ELF_T_BYTE
          \<and> (d_buf (d_data D) \<noteq> None \<longrightarrow> d_buf (d_data D) = Some (ptr_add p (unat (shdr_offset (s_shdr s))))
               \<and> unat (shdr_offset (s_shdr s)) + unat (shdr_size (s_shdr s)) \<le> unat (e_rawsize e))))"
proof -
  let ?sht = "shdr_type (s_shdr s)" and ?off = "shdr_offset (s_shdr s)" and ?size = "shdr_size (s_shdr s)"
  let ?bad = "?sht \<noteq> SHT_NOBITS \<and> (?off > e_rawsize e \<or> ?size > e_rawsize e - ?off)"
  let ?st1 = "snd (c_alloc st)"
  let ?D = "\<lparr>d_data = \<lparr>d_align = shdr_align (s_shdr s),
     d_buf = (if ?sht = SHT_NOBITS \<or> ?size = 0 then None else Some (ptr_add p (unat ?off))),
     d_off = 0, d_size = ?size, d_type = ELF_T_BYTE, d_version = e_version e\<rparr>, d_flags = 0\<rparr>"
  have k: "\<not> s_rawdata s \<noteq> []" using s(2) by simp
  have eq: "elf_rawdata st (Some (i, n)) None =
     (if ?sht = SHT_NULL then Some (None, set_error ELF_E_SECTION 0 st)
      else if ?bad then Some (None, set_error ELF_E_SECTION 0 st)
      else if \<not> fst (c_alloc st) then Some (None, set_error ELF_E_RESOURCE 0 ?st1)
      else do { (r, st) \<leftarrow> append_data ?st1 i n True ?D; Some (Some r, st) })"
    unfolding elf_rawdata_def option.case prod.case e(1) bind.simps s(1) raw c_assert_def if_P[OF e(3)]
      if_not_P[OF k] if_P[OF ec] Let_def allocate_data_eq
    by simp
  have err: ?thesis if "elf_rawdata st (Some (i, n)) None = Some (None, set_error er 0 st1)"
    "st1 = st \<or> st1 = ?st1" for er st1
  proof -
    have "data_post st i e n None st1 e" "heap st1 = heap st" using that(2) data_post_refl[OF e(1,2,5)] by auto
    then show ?thesis using that(1)
      by (intro exI[of _ None] exI[of _ "set_error er 0 st1"] exI[of _ e]) simp
  qed
  consider (n) "?sht = SHT_NULL" | (b) "\<not> ?sht = SHT_NULL" "?bad"
    | (a) "\<not> ?sht = SHT_NULL" "\<not> ?bad" "\<not> fst (c_alloc st)" | (r) "\<not> ?sht = SHT_NULL" "\<not> ?bad" "fst (c_alloc st)"
    by argo
  then show ?thesis
  proof cases
    case n
    show ?thesis by (rule err[OF eq[unfolded if_P[OF n]] disjI1[OF refl]])
  next
    case b
    show ?thesis by (rule err[OF eq[unfolded if_not_P[OF b(1)] if_P[OF b(2)]] disjI1[OF refl]])
  next
    case a
    show ?thesis
      by (rule err[OF eq[unfolded if_not_P[OF a(1)] if_not_P[OF a(2)] if_P[OF a(3)]] disjI2[OF refl]])
  next
    case r
    have "data_post st i e n None ?st1 e" using data_post_refl[OF e(1,2,5)] by simp
    from append_data_ok[OF this s(1), of True ?D] obtain st' e' where a:
      "append_data ?st1 i n True ?D = Some ((i, n, True, length (scn_list True s)), st')"
      "data_post st i e n None st' e'" "get_data st' (i, n, True, length (scn_list True s)) = Some ?D"
      "heap st' = heap st" by (auto simp: data_post_def)
    have fit: "unat ?off + unat ?size \<le> unat (e_rawsize e)" if "?sht \<noteq> SHT_NOBITS"
    proof -
      have le: "?off \<le> e_rawsize e" "?size \<le> e_rawsize e - ?off" using r(2) that by (simp_all add: not_less)
      show ?thesis using le(2) by (simp add: word_le_nat_alt unat_sub[OF le(1)]) (use le(1) in \<open>simp add: word_le_nat_alt\<close>)
    qed
    have "window (heap st) p (unat (e_rawsize e))" using e(4) raw by (simp add: raw_ok_def)
    then have "window (heap st) (ptr_add p (unat ?off)) (unat ?size)" if "?sht \<noteq> SHT_NOBITS"
      using fit[OF that] by (cases p) (auto intro: window_sub)
    then have "data_ok (heap st') ?D" unfolding a(4) by (auto simp: data_ok_def)
    moreover have "elf_rawdata st (Some (i, n)) None = Some (Some (i, n, True, length (scn_list True s)), st')"
      using eq[unfolded if_not_P[OF r(1)] if_not_P[OF r(2)]] r(3) a(1) by simp
    ultimately show ?thesis
      using a fit by (intro exI[of _ "Some (i, n, True, length (scn_list True s))"] exI[of _ st'] exI[of _ e'])
        (auto simp: data_post_def)
  qed
qed

section \<open>Properties\<close>

text \<open>
  C11. \<open>elf_getdata\<close> is safe on any file: whatever the section header says about type, place and size, and
  whatever the contents are, the call returns, has read only the file and written only a new buffer; a
  data descriptor it returns is in the list of the section and its buffer has the size it states; the
  invariant, the other sections and the other descriptors are kept.
\<close>

theorem getdata_any_file:
  assumes "get_elf st i = Some e" "elf_inv st e" "e_kind e = ELF_K_ELF" "file_there st e" "heap_fresh st"
    and "e_scns e n = Some s" "scn_data_ok (heap st) s" "e_class e = ELFCLASS32 \<or> e_class e = ELFCLASS64"
  shows "\<exists>r st' e'. elf_getdata st (Some (i, n)) None = Some (r, st') \<and> data_post st i e n r st' e' \<and> ref_ok st' r"
  by (rule getdata_first_ok[OF assms])

text \<open>A descriptor of a file of 4096 bytes with a section of type \<open>t\<close>.\<close>

definition data_scn :: "u32 \<Rightarrow> u64 \<Rightarrow> u64 \<Rightarrow> Elf_Scn" where
  "data_scn t off sz = (new_scn ELFCLASS64 1)\<lparr>s_shdr := Sh64 \<lparr>sh_name = 0, sh_type = t, sh_flags = 0, sh_addr = 0,
     sh_offset = off, sh_size = sz, sh_link = 0, sh_info = 0, sh_addralign = 8, sh_entsize = 0\<rparr>\<rparr>"

definition data_elf :: "Elf_Scn \<Rightarrow> Elf" where
  "data_elf s = (table_elf 2)\<lparr>e_scn := RB_NODE RB_NULL RB_BLACK 1 RB_NULL, e_scns := [1 \<mapsto> s]\<rparr>"

definition data_state :: "Elf_Scn \<Rightarrow> libelf_state" where
  "data_state s = put_elf 0 (data_elf s) (sample_state (replicate 4096 0))"

lemma data_elf_ok:
  assumes "s_ndx s = 1"
  shows "get_elf (data_state s) 0 = Some (data_elf s)" "elf_inv (data_state s) (data_elf s)"
    "e_kind (data_elf s) = ELF_K_ELF" "raw_ok (data_state s) (data_elf s)" "heap_fresh (data_state s)"
    "e_scns (data_elf s) 1 = Some s" "e_class (data_elf s) = ELFCLASS64" "e_rawfile (data_elf s) = Some (0, 0)"
  using assms
  by (simp_all add: data_state_def data_elf_def table_elf_def reading_elf_def initial_elf_def elf_inv_def raw_ok_def
      scn_inv_def hdr_inv_def rb_inv_def rb_keys_def sample_state_def window_def mem_read_def slice_at_def
      heap_fresh_def put_elf_def get_elf_def)

theorem getdata_any_file_witness:
  "\<exists>r st'. elf_getdata (data_state (data_scn SHT_SYMTAB 64 480)) (Some (0, 1)) None = Some (r, st')"
proof -
  let ?s = "data_scn SHT_SYMTAB 64 480"
  have n: "s_ndx ?s = 1" "scn_data_ok (heap (data_state ?s)) ?s"
    by (simp_all add: data_scn_def new_scn_def scn_data_ok_def)
  note ok = data_elf_ok[OF n(1)]
  have "file_there (data_state ?s) (data_elf ?s)" using ok(4) by (simp add: file_there_def)
  from getdata_any_file[OF ok(1-3) this ok(5,6) n(2) disjI2[OF ok(7)]] show ?thesis by blast
qed

text \<open>
  C30. Raw data is the section in the file: the first \<open>elf_rawdata\<close> of a section returns a descriptor of the
  size the section header gives whose buffer, if it has one, is the place of the section in the file and
  lies inside it, or it returns \<open>NULL\<close>; no memory is changed.
\<close>

theorem rawdata_in_file:
  assumes "get_elf st i = Some e" "elf_inv st e" "e_kind e = ELF_K_ELF" "raw_ok st e" "heap_fresh st"
    and "e_rawfile e = Some p" "e_scns e n = Some s" "s_rawdata s = []"
    and "e_class e = ELFCLASS32 \<or> e_class e = ELFCLASS64"
  shows "\<exists>r st' e'. elf_rawdata st (Some (i, n)) None = Some (r, st') \<and> data_post st i e n r st' e' \<and> heap st' = heap st
    \<and> (\<forall>x. r = Some x \<longrightarrow> (\<exists>D. get_data st' x = Some D \<and> data_ok (heap st') D
          \<and> d_size (d_data D) = shdr_size (s_shdr s) \<and> d_type (d_data D) = ELF_T_BYTE
          \<and> (d_buf (d_data D) \<noteq> None \<longrightarrow> d_buf (d_data D) = Some (ptr_add p (unat (shdr_offset (s_shdr s))))
               \<and> unat (shdr_offset (s_shdr s)) + unat (shdr_size (s_shdr s)) \<le> unat (e_rawsize e))))"
  by (rule rawdata_first_ok[OF assms])

theorem rawdata_in_file_witness:
  "\<exists>r st'. elf_rawdata (data_state (data_scn SHT_SYMTAB 64 480)) (Some (0, 1)) None = Some (r, st')"
proof -
  let ?s = "data_scn SHT_SYMTAB 64 480"
  have n: "s_ndx ?s = 1" "s_rawdata ?s = []" by (simp_all add: data_scn_def new_scn_def)
  note ok = data_elf_ok[OF n(1)]
  from rawdata_in_file[OF ok(1-5) ok(8,6) n(2) disjI2[OF ok(7)]] show ?thesis by blast
qed

end
