(* ===== verification/Gelf_Reloc.thy ===== *)
theory Gelf_Reloc
  imports Scn_Data
begin

text \<open>
  What the \<open>gelf_*\<close> functions share on values: the copying macros of \<open>_libelf.h\<close> with their range checks, the
  relocation information of \<open>sys/elf32.h\<close> and \<open>sys/elf64.h\<close>, and \<open>gelf_mips64el.c\<close>, which rearranges it for
  little-endian 64-bit MIPS.
\<close>

section \<open>Copying with range checks: \<open>LIBELF_COPY_U32\<close>, \<open>LIBELF_COPY_S32\<close>\<close>

text \<open>
  The macros return from the function on a value out of range: a copying step yields the structure as far
  as it has been written and whether to go on.
\<close>

definition COPY_U32 :: "u64 \<Rightarrow> (u32 \<Rightarrow> 'a \<Rightarrow> 'a) \<Rightarrow> 'a \<times> bool \<Rightarrow> 'a \<times> bool" where
  "COPY_U32 v upd r =
     (if \<not> snd r then r else if v > 0xFFFFFFFF then (fst r, False) else (upd (ucast (v AND 0xFFFFFFFF)) (fst r), True))"

definition COPY_S32 :: "u64 \<Rightarrow> (u32 \<Rightarrow> 'a \<Rightarrow> 'a) \<Rightarrow> 'a \<times> bool \<Rightarrow> 'a \<times> bool" where
  "COPY_S32 v upd r =
     (if \<not> snd r then r
      else if sint v > 2 ^ 31 - 1 \<or> sint v < - (2 ^ 31) then (fst r, False) else (upd (ucast v) (fst r), True))"

text \<open>An assignment that cannot fail.\<close>

definition COPY :: "('a \<Rightarrow> 'a) \<Rightarrow> 'a \<times> bool \<Rightarrow> 'a \<times> bool" where
  "COPY upd r = (if snd r then (upd (fst r), True) else r)"

section \<open>Relocation information: \<open>sys/elf32.h\<close>, \<open>sys/elf64.h\<close>, \<open>gelf_mips64el.c\<close>\<close>

definition ELF32_R_SYM :: "u32 \<Rightarrow> u32" where "ELF32_R_SYM info = drop_bit 8 info"
definition ELF32_R_TYPE :: "u32 \<Rightarrow> u8" where "ELF32_R_TYPE info = ucast info"
definition ELF32_R_INFO :: "u32 \<Rightarrow> u32 \<Rightarrow> u32" where
  "ELF32_R_INFO s t = push_bit 8 s + ucast (ucast t :: u8)"
definition ELF64_R_SYM :: "u64 \<Rightarrow> u64" where "ELF64_R_SYM info = drop_bit 32 info"
definition ELF64_R_TYPE :: "u64 \<Rightarrow> u64" where "ELF64_R_TYPE info = info AND 0xffffffff"
definition ELF64_R_INFO :: "u64 \<Rightarrow> u64 \<Rightarrow> u64" where
  "ELF64_R_INFO s t = push_bit 32 s + (t AND 0xffffffff)"

definition mips64el_r_info_tof :: "u64 \<Rightarrow> u64" where
  "mips64el_r_info_tof info =
     (let ssym = ucast (drop_bit 24 info) :: u8; type3 = ucast (drop_bit 16 info) :: u8;
          type2 = ucast (drop_bit 8 info) :: u8; type = ucast info :: u8
      in drop_bit 32 info OR push_bit 32 (ucast ssym) OR push_bit 40 (ucast type3)
           OR push_bit 48 (ucast type2) OR push_bit 56 (ucast type))"

definition mips64el_r_info_tom :: "u64 \<Rightarrow> u64" where
  "mips64el_r_info_tom info =
     (let ssym = ucast (drop_bit 32 info) :: u8; type3 = ucast (drop_bit 40 info) :: u8;
          type2 = ucast (drop_bit 48 info) :: u8; type = ucast (drop_bit 56 info) :: u8
      in push_bit 32 (info AND 0xffffffff) OR push_bit 24 (ucast ssym) OR push_bit 16 (ucast type3)
           OR push_bit 8 (ucast type2) OR ucast type)"

definition libelf_is_mips64el :: "Elf \<Rightarrow> bool option" where
  "libelf_is_mips64el e =
     (if e_kind e = ELF_K_ELF \<and> e_class e = ELFCLASS64
      then (case e_ehdr e of Some (Eh64 eh) \<Rightarrow> Some (e_machine eh = EM_MIPS \<and> ucast (e_ident eh ! EI_DATA) = ELFDATA2LSB)
            | _ \<Rightarrow> None)
      else Some False)"

text \<open>The range check and the assignment of \<open>r_info\<close>.\<close>

definition copy_r_info :: "u64 \<Rightarrow> (u32 \<Rightarrow> 'a \<Rightarrow> 'a) \<Rightarrow> 'a \<times> bool \<Rightarrow> 'a \<times> bool" where
  "copy_r_info info upd r =
     (if \<not> snd r then r
      else if ELF64_R_SYM info > ucast (ELF32_R_SYM (- 1)) \<or> ELF64_R_TYPE info > ucast (ELF32_R_TYPE (- 1))
      then (fst r, False)
      else (upd (ELF32_R_INFO (ucast (ELF64_R_SYM info)) (ucast (ELF64_R_TYPE info))) (fst r), True))"

definition widen_r_info :: "u32 \<Rightarrow> u64" where
  "widen_r_info info = ELF64_R_INFO (ucast (ELF32_R_SYM info)) (ucast (ELF32_R_TYPE info))"

section \<open>Indexes\<close>

text \<open>A non-negative \<open>int\<close> converted to \<open>size_t\<close>.\<close>

lemma scast_index: "0 \<le> sint (ndx :: u32) \<Longrightarrow> unat (scast ndx :: u64) = unat ndx"
proof -
  assume nn: "0 \<le> sint ndx"
  then have s: "sint ndx = int (unat ndx)" using sint_lt[of ndx] by (simp add: uint_sint take_bit_int_eq_self)
  have "(scast ndx :: u64) = of_nat (unat ndx)" unfolding scast_eq s by simp
  moreover have "unat ndx < 2 ^ 64" using unat_lt2p[of ndx] by simp
  ultimately show ?thesis by (simp add: unat_of_nat)
qed

section \<open>Laws of the copies\<close>

lemma COPY_U32_ok:
  "COPY_U32 v upd r = (a, True) \<longleftrightarrow> (\<exists>r'. r = (r', True) \<and> v \<le> 0xFFFFFFFF \<and> a = upd (ucast v) r')"
proof -
  have m: "(0xFFFFFFFF :: u64) = mask 32" by (simp add: mask_eq_exp_minus_1)
  have "ucast (v AND 0xFFFFFFFF) = (ucast v :: u32)"
    unfolding m by (rule bit_word_eqI) (simp add: bit_simps)
  then show ?thesis by (cases r) (auto simp: COPY_U32_def not_less)
qed

lemma COPY_S32_ok:
  "COPY_S32 v upd r = (a, True) \<longleftrightarrow>
     (\<exists>r'. r = (r', True) \<and> - (2 ^ 31) \<le> sint v \<and> sint v < 2 ^ 31 \<and> a = upd (ucast v) r')"
  by (cases r) (auto simp: COPY_S32_def)

lemma COPY_ok: "COPY upd r = (a, True) \<longleftrightarrow> (\<exists>r'. r = (r', True) \<and> a = upd r')"
  by (cases r) (auto simp: COPY_def)

lemma copy_r_info_ok:
  "copy_r_info v upd r = (a, True) \<longleftrightarrow> (\<exists>r'. r = (r', True) \<and> ELF64_R_SYM v \<le> ucast (ELF32_R_SYM (- 1))
     \<and> ELF64_R_TYPE v \<le> ucast (ELF32_R_TYPE (- 1))
     \<and> a = upd (ELF32_R_INFO (ucast (ELF64_R_SYM v)) (ucast (ELF64_R_TYPE v))) r')"
  by (cases r) (auto simp: copy_r_info_def not_less)

lemmas copy_ok = COPY_U32_ok COPY_S32_ok COPY_ok copy_r_info_ok

lemma widen_u32: "(v :: u64) \<le> 0xFFFFFFFF \<Longrightarrow> ucast (ucast v :: u32) = v"
  by (rule ucast_down_up) (simp add: word_le_nat_alt word_less_nat_alt)

lemma widen_s32:
  assumes "- (2 ^ 31) \<le> sint (v :: u64)" "sint v < 2 ^ 31"
  shows "scast (ucast v :: u32) = v"
proof -
  have "sint (ucast v :: u32) = signed_take_bit 31 (sint v)"
    by (simp add: sint_uint unsigned_ucast_eq signed_take_bit_take_bit)
  then have "sint (ucast v :: u32) = sint v"
    using assms by (simp add: signed_take_bit_int_eq_self)
  then show ?thesis by (simp add: scast_eq)
qed

lemma widen_narrow_r_info:
  assumes "ELF64_R_SYM info \<le> ucast (ELF32_R_SYM (- 1))" "ELF64_R_TYPE info \<le> ucast (ELF32_R_TYPE (- 1))"
  shows "widen_r_info (ELF32_R_INFO (ucast (ELF64_R_SYM info)) (ucast (ELF64_R_TYPE info))) = info"
proof -
  let ?s = "ELF64_R_SYM info" and ?t = "ELF64_R_TYPE info"
  have c: "ELF32_R_SYM (- 1) = 0xFFFFFF" "ELF32_R_TYPE (- 1) = 0xFF"
    unfolding ELF32_R_SYM_def ELF32_R_TYPE_def by code_simp+
  have s: "unat ?s \<le> 0xFFFFFF" and t: "unat ?t \<le> 0xFF"
    using assms by (simp_all add: c word_le_nat_alt)
  have us: "unat (ucast ?s :: u32) = unat ?s" "unat (ucast ?t :: u32) = unat ?t" "unat (ucast ?t :: u8) = unat ?t"
    "unat (ucast (ucast ?t :: u32) :: u8) = unat ?t"
    using s t by (simp_all add: unat_ucast_mod)
  let ?i = "ELF32_R_INFO (ucast ?s) (ucast ?t)"
  have i: "unat ?i = unat ?s * 256 + unat ?t"
    using s t us by (simp add: ELF32_R_INFO_def push_bit_eq_mult unat_word_ariths)
  have "unat (ELF32_R_SYM ?i) = unat ?s" "unat (ELF32_R_TYPE ?i) = unat ?t"
    using t by (simp_all add: ELF32_R_SYM_def ELF32_R_TYPE_def drop_bit_eq_div unat_div i unat_ucast_mod)
  then have "(ucast (ELF32_R_SYM ?i) :: u64) = ?s" "(ucast (ELF32_R_TYPE ?i) :: u64) = ?t"
    using s t by (simp_all add: word_unat_eq_iff unat_ucast_mod)
  moreover have m: "(0xffffffff :: u64) = mask 32" by (simp add: mask_eq_exp_minus_1)
  moreover have "push_bit 32 ?s + ?t = info"
    unfolding ELF64_R_SYM_def ELF64_R_TYPE_def m take_bit_eq_mask[symmetric] by (rule bits_ident)
  moreover have "?t AND mask 32 = ?t" unfolding ELF64_R_TYPE_def m by (simp add: and.assoc)
  ultimately show ?thesis by (simp only: widen_r_info_def ELF64_R_INFO_def)
qed

section \<open>The MIPS rearrangement\<close>

lemma mask_32: "(0xffffffff :: u64) = mask 32" by (simp add: mask_eq_exp_minus_1)

lemma tof_bit: "n < 64 \<Longrightarrow> bit (mips64el_r_info_tof x) n = bit x (if n < 32 then 32 + n else if n < 40 then n - 8 else
   if n < 48 then n - 24 else if n < 56 then n - 40 else n - 56)"
  by (simp add: mips64el_r_info_tof_def Let_def bit_simps; auto simp: bit_simps dest: bit_imp_le_length)

lemma tom_bit: "n < 64 \<Longrightarrow> bit (mips64el_r_info_tom x) n = bit x (if 32 \<le> n then n - 32 else if n < 8 then 56 + n else
   if n < 16 then 40 + n else if n < 24 then 24 + n else 8 + n)"
  apply (cases "32 \<le> n"; cases "24 \<le> n"; cases "16 \<le> n"; cases "8 \<le> n")
  by (auto simp: mips64el_r_info_tom_def Let_def bit_simps mask_32 add.commute dest: bit_imp_le_length)

lemma r_info_tom_tof: "mips64el_r_info_tom (mips64el_r_info_tof x) = x"
  by (rule bit_word_eqI) (auto simp: tof_bit tom_bit)

lemma r_info_tof_tom: "mips64el_r_info_tof (mips64el_r_info_tom x) = x"
  by (rule bit_word_eqI) (auto simp: tof_bit tom_bit)

text \<open>
  The two rearrangements of \<open>r_info\<close> for little-endian MIPS are inverse to each other: what
  \<open>gelf_update_rel\<close> stores \<open>gelf_getrel\<close> gives back, for every value, and reading and storing again leaves the
  bytes as they were.
\<close>

theorem mips_r_info_inverse:
  "mips64el_r_info_tom (mips64el_r_info_tof x) = x \<and> mips64el_r_info_tof (mips64el_r_info_tom x) = x"
  by (simp add: r_info_tom_tof r_info_tof_tom)

end
