(* ===== verification/Gelf_Data.thy ===== *)
theory Gelf_Data
  imports Gelf_Reloc
begin

text \<open>
  Typed access to the elements of a data buffer: \<open>gelf_sym.c\<close>, \<open>gelf_rel.c\<close>, \<open>gelf_rela.c\<close>, \<open>gelf_dyn.c\<close>,
  \<open>gelf_move.c\<close>, \<open>gelf_cap.c\<close>, \<open>gelf_syminfo.c\<close>, \<open>gelf_symshndx.c\<close> and \<open>gelf_mips64el.c\<close>. A \<open>GElf_X\<close> is an
  \<open>Elf64_X\<close>. The functions of the files are the same but for the element type, so the model has the
  description of an element type (\<open>gelf_type\<close>) and the two functions over it; the descriptions hold what the
  files do differently: the widening of the 32-bit structure, its update field by field, and the treatment of
  \<open>r_info\<close> on little-endian 64-bit MIPS.

  The index is a C \<open>int\<close>, as its bits. A structure of the application (\<open>dst\<close>, \<open>gs\<close>) is a value; whether the
  pointer to it is \<open>NULL\<close> is an argument.
\<close>

section \<open>Element types\<close>

text \<open>
  \<open>g_widen\<close> is the assignment of a 32-bit structure to a \<open>GElf\<close> structure, \<open>g_narrow g a\<close> the field-wise
  assignment of \<open>g\<close> to the 32-bit structure \<open>a\<close>, \<open>g_tom\<close> and \<open>g_tof\<close> the correction for MIPS, if there is one.
\<close>

record ('a, 'b) gelf_type =
  g_type :: Elf_Type
  g_of32 :: "fval list \<Rightarrow> 'a option"
  g_fields32 :: "'a \<Rightarrow> fval list"
  g_of64 :: "fval list \<Rightarrow> 'b option"
  g_fields64 :: "'b \<Rightarrow> fval list"
  g_widen :: "'a \<Rightarrow> 'b"
  g_narrow :: "'b \<Rightarrow> 'a \<Rightarrow> 'a \<times> bool"
  g_tom :: "('b \<Rightarrow> 'b) option"
  g_tof :: "('b \<Rightarrow> 'b) option"

definition g_def :: "('a, 'b) gelf_type \<Rightarrow> int \<Rightarrow> member_list" where
  "g_def g ec = (case struct_def ec (g_type g) of Some ms \<Rightarrow> ms | None \<Rightarrow> [])"

definition mips_fix :: "('b \<Rightarrow> 'b) option \<Rightarrow> Elf \<Rightarrow> 'b \<Rightarrow> 'b option" where
  "mips_fix f e v =
     (case f of None \<Rightarrow> Some v
      | Some f \<Rightarrow> do { m \<leftarrow> libelf_is_mips64el e; Some (if m then f v else v) })"

section \<open>Access to an element\<close>

text \<open>
  The part the functions share: the checks of the arguments, of the type of the section and of the index, and
  the place of the element. Forming or using an element of a \<open>NULL\<close> buffer is a wild access.
\<close>

definition gelf_locate ::
  "libelf_state \<Rightarrow> Elf_Type \<Rightarrow> data_ref option \<Rightarrow> u32 \<Rightarrow> bool \<Rightarrow> ((Elf \<times> ptr) option \<times> libelf_state) option" where
  "gelf_locate st t ed ndx nonnull =
     (case ed of
        None \<Rightarrow> Some (None, set_error ELF_E_ARGUMENT 0 st)
      | Some (i, n, raw, k) \<Rightarrow>
          if sint ndx < 0 \<or> \<not> nonnull then Some (None, set_error ELF_E_ARGUMENT 0 st)
          else do {
            d \<leftarrow> get_data st (i, n, raw, k);
            e \<leftarrow> get_elf st i;
            scn \<leftarrow> get_scn st i n;
            c_assert (e_class e = ELFCLASS32 \<or> e_class e = ELFCLASS64);
            if libelf_xlate_shtype (shdr_type (s_shdr scn)) \<noteq> t
            then Some (None, set_error ELF_E_ARGUMENT 0 st)
            else do {
              (msz, st) \<leftarrow> libelf_msize st t (e_class e) (e_version e);
              if msz = 0 then Some (None, st)
              else if msz * scast ndx \<ge> d_size (d_data d) then Some (None, set_error ELF_E_ARGUMENT 0 st)
              else do {
                buf \<leftarrow> d_buf (d_data d);
                Some (Some (e, ptr_add buf (unat ndx * msize_table (e_class e) t)), st) } } })"

text \<open>\<open>gelf_getX\<close>: the value stored through \<open>dst\<close>, or \<open>NULL\<close>.\<close>

definition gelf_get ::
  "('a, 'b) gelf_type \<Rightarrow> libelf_state \<Rightarrow> data_ref option \<Rightarrow> u32 \<Rightarrow> bool \<Rightarrow> ('b option \<times> libelf_state) option" where
  "gelf_get g st ed ndx dst = do {
     (r, st) \<leftarrow> gelf_locate st (g_type g) ed ndx dst;
     case r of
       None \<Rightarrow> Some (None, st)
     | Some (e, p) \<Rightarrow> do {
         bs \<leftarrow> mem_read (heap st) p (sizeof_struct (e_class e) (g_def g (e_class e)));
         let fs = struct_load (host_order st) (e_class e) (g_def g (e_class e)) bs;
         if e_class e = ELFCLASS32 then do { a \<leftarrow> g_of32 g fs; Some (Some (g_widen g a), st) }
         else do { b \<leftarrow> g_of64 g fs; v \<leftarrow> mips_fix (g_tom g) e b; Some (Some v, st) } } }"

text \<open>\<open>gelf_update_X\<close>\<close>

definition gelf_update ::
  "('a, 'b) gelf_type \<Rightarrow> libelf_state \<Rightarrow> data_ref option \<Rightarrow> u32 \<Rightarrow> 'b option \<Rightarrow> (bool \<times> libelf_state) option" where
  "gelf_update g st ed ndx v = do {
     (r, st) \<leftarrow> gelf_locate st (g_type g) ed ndx (v \<noteq> None);
     case r of
       None \<Rightarrow> Some (False, st)
     | Some (e, p) \<Rightarrow> do {
         v \<leftarrow> v;
         let ms = g_def g (e_class e);
         bs \<leftarrow> mem_read (heap st) p (sizeof_struct (e_class e) ms);
         if e_class e = ELFCLASS32 then do {
           a \<leftarrow> g_of32 g (struct_load (host_order st) ELFCLASS32 ms bs);
           let (a, ok) = g_narrow g v a;
           h \<leftarrow> mem_write (heap st) p (struct_store (host_order st) ELFCLASS32 ms (g_fields32 g a));
           let st = st\<lparr>heap := h\<rparr>;
           Some (ok, if ok then st else set_error ELF_E_RANGE 0 st) }
         else do {
           b \<leftarrow> mips_fix (g_tof g) e v;
           h \<leftarrow> mem_write (heap st) p (struct_store (host_order st) (e_class e) ms (g_fields64 g b));
           Some (True, st\<lparr>heap := h\<rparr>) } } }"

section \<open>The element types of the files\<close>

definition sym_type :: "(Elf32_Sym, Elf64_Sym) gelf_type" where
  "sym_type = \<lparr>g_type = ELF_T_SYM, g_of32 = Elf32_Sym_of, g_fields32 = Elf32_Sym_fields,
     g_of64 = Elf64_Sym_of, g_fields64 = Elf64_Sym_fields,
     g_widen = (\<lambda>s. \<lparr>st_name = st_name32 s, st_info = st_info32 s, st_other = st_other32 s,
       st_shndx = st_shndx32 s, st_value = ucast (st_value32 s), st_size = ucast (st_size32 s)\<rparr>),
     g_narrow = (\<lambda>g s. COPY_U32 (st_size g) (\<lambda>v s. s\<lparr>st_size32 := v\<rparr>)
       (COPY_U32 (st_value g) (\<lambda>v s. s\<lparr>st_value32 := v\<rparr>)
       (s\<lparr>st_name32 := st_name g, st_info32 := st_info g, st_other32 := st_other g, st_shndx32 := st_shndx g\<rparr>, True))),
     g_tom = None, g_tof = None\<rparr>"

definition gelf_getsym where "gelf_getsym = gelf_get sym_type"
definition gelf_update_sym where "gelf_update_sym = gelf_update sym_type"

definition rel_type :: "(Elf32_Rel, Elf64_Rel) gelf_type" where
  "rel_type = \<lparr>g_type = ELF_T_REL, g_of32 = Elf32_Rel_of, g_fields32 = Elf32_Rel_fields,
     g_of64 = Elf64_Rel_of, g_fields64 = Elf64_Rel_fields,
     g_widen = (\<lambda>r. \<lparr>r_offset = ucast (r_offset32 r), r_info = widen_r_info (r_info32 r)\<rparr>),
     g_narrow = (\<lambda>g r. copy_r_info (r_info g) (\<lambda>v r. r\<lparr>r_info32 := v\<rparr>)
       (COPY_U32 (r_offset g) (\<lambda>v r. r\<lparr>r_offset32 := v\<rparr>) (r, True))),
     g_tom = Some (\<lambda>r. r\<lparr>r_info := mips64el_r_info_tom (r_info r)\<rparr>),
     g_tof = Some (\<lambda>r. r\<lparr>r_info := mips64el_r_info_tof (r_info r)\<rparr>)\<rparr>"

definition gelf_getrel where "gelf_getrel = gelf_get rel_type"
definition gelf_update_rel where "gelf_update_rel = gelf_update rel_type"

definition rela_type :: "(Elf32_Rela, Elf64_Rela) gelf_type" where
  "rela_type = \<lparr>g_type = ELF_T_RELA, g_of32 = Elf32_Rela_of, g_fields32 = Elf32_Rela_fields,
     g_of64 = Elf64_Rela_of, g_fields64 = Elf64_Rela_fields,
     g_widen = (\<lambda>r. \<lparr>ra_offset = ucast (ra_offset32 r), ra_info = widen_r_info (ra_info32 r),
       ra_addend = scast (ra_addend32 r)\<rparr>),
     g_narrow = (\<lambda>g r. COPY_S32 (ra_addend g) (\<lambda>v r. r\<lparr>ra_addend32 := v\<rparr>)
       (copy_r_info (ra_info g) (\<lambda>v r. r\<lparr>ra_info32 := v\<rparr>)
       (COPY_U32 (ra_offset g) (\<lambda>v r. r\<lparr>ra_offset32 := v\<rparr>) (r, True)))),
     g_tom = Some (\<lambda>r. r\<lparr>ra_info := mips64el_r_info_tom (ra_info r)\<rparr>),
     g_tof = Some (\<lambda>r. r\<lparr>ra_info := mips64el_r_info_tof (ra_info r)\<rparr>)\<rparr>"

definition gelf_getrela where "gelf_getrela = gelf_get rela_type"
definition gelf_update_rela where "gelf_update_rela = gelf_update rela_type"

definition dyn_type :: "(Elf32_Dyn, Elf64_Dyn) gelf_type" where
  "dyn_type = \<lparr>g_type = ELF_T_DYN, g_of32 = Elf32_Dyn_of, g_fields32 = Elf32_Dyn_fields,
     g_of64 = Elf64_Dyn_of, g_fields64 = Elf64_Dyn_fields,
     g_widen = (\<lambda>d. \<lparr>d_tag = scast (d_tag32 d), d_val = ucast (d_val32 d)\<rparr>),
     g_narrow = (\<lambda>g d. COPY_U32 (d_val g) (\<lambda>v d. d\<lparr>d_val32 := v\<rparr>)
       (COPY_S32 (d_tag g) (\<lambda>v d. d\<lparr>d_tag32 := v\<rparr>) (d, True))),
     g_tom = None, g_tof = None\<rparr>"

definition gelf_getdyn where "gelf_getdyn = gelf_get dyn_type"
definition gelf_update_dyn where "gelf_update_dyn = gelf_update dyn_type"

definition move_type :: "(Elf32_Move, Elf64_Move) gelf_type" where
  "move_type = \<lparr>g_type = ELF_T_MOVE, g_of32 = Elf32_Move_of, g_fields32 = Elf32_Move_fields,
     g_of64 = Elf64_Move_of, g_fields64 = Elf64_Move_fields,
     g_widen = (\<lambda>m. \<lparr>m_value = m_value32 m, m_info = ucast (m_info32 m), m_poffset = ucast (m_poffset32 m),
       m_repeat = m_repeat32 m, m_stride = m_stride32 m\<rparr>),
     g_narrow = (\<lambda>g m. COPY (\<lambda>m. m\<lparr>m_repeat32 := m_repeat g, m_stride32 := m_stride g\<rparr>)
       (COPY_U32 (m_poffset g) (\<lambda>v m. m\<lparr>m_poffset32 := v\<rparr>)
       (COPY_U32 (m_info g) (\<lambda>v m. m\<lparr>m_info32 := v\<rparr>) (m\<lparr>m_value32 := m_value g\<rparr>, True)))),
     g_tom = None, g_tof = None\<rparr>"

definition gelf_getmove where "gelf_getmove = gelf_get move_type"
definition gelf_update_move where "gelf_update_move = gelf_update move_type"

definition cap_type :: "(Elf32_Cap, Elf64_Cap) gelf_type" where
  "cap_type = \<lparr>g_type = ELF_T_CAP, g_of32 = Elf32_Cap_of, g_fields32 = Elf32_Cap_fields,
     g_of64 = Elf64_Cap_of, g_fields64 = Elf64_Cap_fields,
     g_widen = (\<lambda>c. \<lparr>c_tag = ucast (c_tag32 c), c_val = ucast (c_val32 c)\<rparr>),
     g_narrow = (\<lambda>g c. COPY_U32 (c_val g) (\<lambda>v c. c\<lparr>c_val32 := v\<rparr>)
       (COPY_U32 (c_tag g) (\<lambda>v c. c\<lparr>c_tag32 := v\<rparr>) (c, True))),
     g_tom = None, g_tof = None\<rparr>"

definition gelf_getcap where "gelf_getcap = gelf_get cap_type"
definition gelf_update_cap where "gelf_update_cap = gelf_update cap_type"

definition syminfo_type :: "(Elf32_Syminfo, Elf64_Syminfo) gelf_type" where
  "syminfo_type = \<lparr>g_type = ELF_T_SYMINFO, g_of32 = Elf32_Syminfo_of, g_fields32 = Elf32_Syminfo_fields,
     g_of64 = Elf64_Syminfo_of, g_fields64 = Elf64_Syminfo_fields,
     g_widen = (\<lambda>s. \<lparr>si_boundto = si_boundto32 s, si_flags = si_flags32 s\<rparr>),
     g_narrow = (\<lambda>g s. (s\<lparr>si_boundto32 := si_boundto g, si_flags32 := si_flags g\<rparr>, True)),
     g_tom = None, g_tof = None\<rparr>"

definition gelf_getsyminfo where "gelf_getsyminfo = gelf_get syminfo_type"
definition gelf_update_syminfo where "gelf_update_syminfo = gelf_update syminfo_type"

section \<open>Extended section indexes: \<open>gelf_symshndx.c\<close>\<close>

text \<open>
  The checks on the second data descriptor. \<open>type_of\<close> is the descriptor whose \<open>d_type\<close> is tested. The
  descriptors belong to the same \<open>Elf\<close> object when the references do.
\<close>

definition symshndx_locate ::
  "libelf_state \<Rightarrow> data_ref \<Rightarrow> data_ref option \<Rightarrow> data_ref option \<Rightarrow> u32 \<Rightarrow> bool \<Rightarrow> (ptr option \<times> libelf_state) option" where
  "symshndx_locate st d ed type_of ndx nonnull =
     (case ed of
        None \<Rightarrow> Some (None, set_error ELF_E_ARGUMENT 0 st)
      | Some (i, n, raw, k) \<Rightarrow>
          if i \<noteq> fst d \<or> \<not> nonnull then Some (None, set_error ELF_E_ARGUMENT 0 st)
          else do {
            lid \<leftarrow> get_data st (i, n, raw, k);
            e \<leftarrow> get_elf st i;
            scn \<leftarrow> get_scn st i n;
            c_assert (e_class e = ELFCLASS32 \<or> e_class e = ELFCLASS64);
            r \<leftarrow> type_of;
            td \<leftarrow> get_data st r;
            if libelf_xlate_shtype (shdr_type (s_shdr scn)) \<noteq> ELF_T_WORD \<or> d_type (d_data td) \<noteq> ELF_T_WORD
            then Some (None, set_error ELF_E_ARGUMENT 0 st)
            else do {
              (msz, st) \<leftarrow> libelf_msize st ELF_T_WORD (e_class e) (e_version e);
              if msz = 0 then Some (None, st)
              else do {
                c_assert (sint ndx \<ge> 0);
                if msz * scast ndx \<ge> d_size (d_data lid) then Some (None, set_error ELF_E_ARGUMENT 0 st)
                else do {
                  buf \<leftarrow> d_buf (d_data lid);
                  Some (Some (ptr_add buf (unat ndx * 4)), st) } } } })"

text \<open>
  The symbol stored through \<open>dst\<close>, and the word stored through \<open>shindex\<close>: the call returns \<open>dst\<close> when there is
  such a word, and \<open>NULL\<close>, perhaps with the symbol already stored, when there is none.
\<close>

definition gelf_getsymshndx ::
  "libelf_state \<Rightarrow> data_ref option \<Rightarrow> data_ref option \<Rightarrow> u32 \<Rightarrow> bool \<Rightarrow> bool
   \<Rightarrow> ((Elf64_Sym option \<times> u32 option) \<times> libelf_state) option" where
  "gelf_getsymshndx st d ed ndx dst shindex = do {
     (s, st) \<leftarrow> gelf_getsym st d ndx dst;
     if s = None then Some ((None, None), st)
     else do {
       ld \<leftarrow> d;
       (r, st) \<leftarrow> symshndx_locate st ld ed ed ndx shindex;
       case r of
         None \<Rightarrow> Some ((s, None), st)
       | Some p \<Rightarrow> do {
           bs \<leftarrow> mem_read (heap st) p 4;
           Some ((s, Some (get_word (host_order st) bs)), st) } } }"

definition gelf_update_symshndx ::
  "libelf_state \<Rightarrow> data_ref option \<Rightarrow> data_ref option \<Rightarrow> u32 \<Rightarrow> Elf64_Sym option \<Rightarrow> u32
   \<Rightarrow> (bool \<times> libelf_state) option" where
  "gelf_update_symshndx st d ed ndx gs xindex = do {
     (ok, st) \<leftarrow> gelf_update_sym st d ndx gs;
     if \<not> ok then Some (False, st)
     else do {
       ld \<leftarrow> d;
       (r, st) \<leftarrow> symshndx_locate st ld ed d ndx True;
       case r of
         None \<Rightarrow> Some (False, st)
       | Some p \<Rightarrow> do {
           h \<leftarrow> mem_write (heap st) p (put_word (host_order st) 4 xindex);
           Some (True, st\<lparr>heap := h\<rparr>) } } }"
section \<open>The place of an element\<close>

lemma unat_index_offset:
  assumes "0 \<le> sint (ndx :: u32)" "m \<le> 64"
  shows "unat (of_nat m * scast ndx :: u64) = unat ndx * m"
proof -
  have "m * unat ndx < 2 ^ 64"
    using mult_le_mono[OF assms(2), of "unat ndx" "2 ^ 32"] unat_lt2p[of ndx] by simp
  then show ?thesis using scast_index[OF assms(1)] assms(2) by (simp add: unat_word_ariths unat_of_nat mult.commute)
qed

text \<open>
  \<open>elem_at st t x ndx e p\<close>: the element \<open>ndx\<close> of the data \<open>x\<close>, in a section for elements of type \<open>t\<close> of the
  descriptor \<open>e\<close>, is at \<open>p\<close>.
\<close>

definition elem_at :: "libelf_state \<Rightarrow> Elf_Type \<Rightarrow> data_ref \<Rightarrow> u32 \<Rightarrow> Elf \<Rightarrow> ptr \<Rightarrow> bool" where
  "elem_at st t x ndx e p \<longleftrightarrow> (\<exists>d scn b. get_data st x = Some d \<and> get_elf st (fst x) = Some e
     \<and> get_scn st (fst x) (fst (snd x)) = Some scn \<and> (e_class e = ELFCLASS32 \<or> e_class e = ELFCLASS64)
     \<and> libelf_xlate_shtype (shdr_type (s_shdr scn)) = t \<and> e_version e = EV_CURRENT
     \<and> 0 < msize_table (e_class e) t \<and> 0 \<le> sint ndx
     \<and> unat ndx * msize_table (e_class e) t < unat (d_size (d_data d))
     \<and> d_buf (d_data d) = Some b \<and> p = ptr_add b (unat ndx * msize_table (e_class e) t))"

lemma msize_current:
  "ec = ELFCLASS32 \<or> ec = ELFCLASS64 \<Longrightarrow> elf_type_valid t \<Longrightarrow> libelf_msize st t ec v =
     Some (if v \<noteq> EV_CURRENT then (0, set_error ELF_E_VERSION 0 st)
       else if msize_table ec t = 0 then (0, set_error ELF_E_UNIMPL 0 st) else (of_nat (msize_table ec t), st))"
  using msize_le_64[of ec t] by (auto simp: libelf_msize_def Let_def of_nat_64_zero)

lemma locate_elem:
  assumes "elem_at st t x ndx e p" "elf_type_valid t"
  shows "gelf_locate st t (Some x) ndx True = Some (Some (e, p), st)"
proof -
  obtain i n raw k where x: "x = (i, n, raw, k)" by (cases x)
  have nz: "(of_nat (msize_table (e_class e) t) :: u64) \<noteq> 0"
    using assms(1) msize_le_64[of "e_class e" t] by (auto simp: elem_at_def of_nat_64_zero)
  show ?thesis
    using assms nz unfolding elem_at_def x
    by (elim exE conjE)
      (simp add: gelf_locate_def msize_current word_le_nat_alt unat_index_offset[OF _ msize_le_64] not_le)
qed

lemma locate_elemD:
  assumes "gelf_locate st t ed ndx nn = Some (Some (e, p), st')" "elf_type_valid t"
  obtains x where "ed = Some x" "nn" "st' = st" "elem_at st t x ndx e p"
proof -
  obtain i n raw k where x: "ed = Some (i, n, raw, k)" and nn: "nn" "0 \<le> sint ndx"
    using assms(1) by (auto simp: gelf_locate_def split: option.splits prod.splits if_splits)
  from assms(1) obtain d e0 scn where d: "get_data st (i, n, raw, k) = Some d" "get_elf st i = Some e0"
    "get_scn st i n = Some scn" "e_class e0 = ELFCLASS32 \<or> e_class e0 = ELFCLASS64"
    "libelf_xlate_shtype (shdr_type (s_shdr scn)) = t"
    unfolding gelf_locate_def x by (auto simp: bind_Some_iff nn split: if_splits)
  have "e_version e0 = EV_CURRENT \<and> 0 < msize_table (e_class e0) t
     \<and> unat ndx * msize_table (e_class e0) t < unat (d_size (d_data d)) \<and> e = e0 \<and> st' = st
     \<and> (\<exists>b. d_buf (d_data d) = Some b \<and> p = ptr_add b (unat ndx * msize_table (e_class e0) t))"
    using assms nn unfolding gelf_locate_def x
    by (auto simp: d msize_current bind_Some_iff word_le_nat_alt unat_index_offset[OF _ msize_le_64]
        not_le split: if_splits)
  then show thesis using d nn x by (intro that[of "(i, n, raw, k)"]) (auto simp: elem_at_def)
qed

lemma locate_NoneD:
  assumes "gelf_locate st t ed ndx nn = Some (None, st')" "elf_type_valid t"
  shows "heap st' = heap st \<and> elfs st' = elfs st \<and> libelf_byteorder st' = libelf_byteorder st"
proof (cases ed)
  case None
  then show ?thesis using assms(1) by (auto simp: gelf_locate_def)
next
  case (Some x)
  obtain i n raw k where x: "x = (i, n, raw, k)" by (cases x)
  show ?thesis
  proof (cases "sint ndx < 0 \<or> \<not> nn")
    case True
    then show ?thesis using assms(1) by (auto simp: gelf_locate_def Some x)
  next
    case False
    then show ?thesis
      using assms(1) unfolding gelf_locate_def Some x
      by (simp add: bind_Some_iff)
        (elim exE conjE, force simp: msize_current assms(2) bind_Some_iff split: if_split_asm)
  qed
qed

lemma elem_at_cong:
  "elfs st' = elfs st \<Longrightarrow> elem_at st' t x ndx e p = elem_at st t x ndx e p"
  by (simp add: elem_at_def get_data_def get_scn_def get_elf_def cong: option.case_cong)
lemma elem_apart:
  assumes "elem_at st t x ndx e p" "elem_at st t x ndx' e q" "ndx' \<noteq> ndx" "n = msize_table (e_class e) t"
  shows "apart p n q (msize_table (e_class e) t)"
proof -
  let ?m = "msize_table (e_class e) t"
  obtain b where p: "p = ptr_add b (unat ndx * ?m)" and q: "q = ptr_add b (unat ndx' * ?m)"
    using assms(1,2) by (auto simp: elem_at_def)
  have "Suc i * ?m \<le> j * ?m" if "i < j" for i j using that by (intro mult_le_mono1) simp
  moreover have "unat ndx < unat ndx' \<or> unat ndx' < unat ndx"
    using assms(3) by (metis nat_neq_iff word_unat_eq_iff)
  ultimately have "unat ndx * ?m + ?m \<le> unat ndx' * ?m \<or> unat ndx' * ?m + ?m \<le> unat ndx * ?m"
    by (metis add.commute mult_Suc)
  then show ?thesis unfolding p q assms(4) by (auto simp: apart_def)
qed

lemma locate_cong:
  assumes "elfs st' = elfs st" "elf_type_valid t"
  shows "map_option fst (gelf_locate st' t ed ndx nn) = map_option fst (gelf_locate st t ed ndx nn)"
proof -
  have g: "get_data st' = get_data st" "get_elf st' = get_elf st" "get_scn st' = get_scn st"
    using assms(1) by (auto simp: fun_eq_iff get_data_def get_scn_def get_elf_def)
  show ?thesis
  proof (cases ed)
    case None
    then show ?thesis by (simp add: gelf_locate_def)
  next
    case (Some x)
    obtain i n raw k where x: "x = (i, n, raw, k)" by (cases x)
    show ?thesis
    proof (cases "get_data st (i, n, raw, k)")
      case None
      then show ?thesis by (simp add: gelf_locate_def Some x g)
    next
      case (Some d)
      then obtain scn e where "get_scn st i n = Some scn" "get_elf st i = Some e"
        by (auto simp: get_data_def get_scn_def bind_Some_iff)
      then show ?thesis
        using Some \<open>ed = Some x\<close> assms(2)
        by (cases "e_class e = ELFCLASS32 \<or> e_class e = ELFCLASS64")
          (auto simp: gelf_locate_def x g msize_current c_assert_def map_option_bind comp_def)
    qed
  qed
qed

lemma struct_size_pos: "struct_def ec t = Some ms \<Longrightarrow> 0 < sizeof_struct ec ms"
  by (cases t) (auto simp: layout_simps div_Suc_Suc_0)

section \<open>The contract of an element type\<close>

text \<open>
  What the accesses rely on: the structures of both classes are decoded from any bytes and restored from what
  was written, and a 32-bit structure that was updated without a range error widens to the value given.
\<close>

locale gelf_codec =
  fixes g :: "('a, 'b) gelf_type"
  assumes is_struct: "struct_def ec (g_type g) \<noteq> None"
    and of32: "members_ok ELFCLASS32 (g_def g ELFCLASS32) fs \<Longrightarrow> g_of32 g fs \<noteq> None"
    and of64: "members_ok ELFCLASS64 (g_def g ELFCLASS64) fs \<Longrightarrow> g_of64 g fs \<noteq> None"
    and fields32: "members_ok ELFCLASS32 (g_def g ELFCLASS32) (g_fields32 g a)"
    and fields64: "members_ok ELFCLASS64 (g_def g ELFCLASS64) (g_fields64 g b)"
    and of_fields32: "g_of32 g (g_fields32 g a) = Some a"
    and of_fields64: "g_of64 g (g_fields64 g b) = Some b"
    and widen_narrow: "g_narrow g b a = (a', True) \<Longrightarrow> g_widen g a' = b"
    and fix_inverse: "mips_fix (g_tof g) e b = Some b' \<Longrightarrow> mips_fix (g_tom g) e b' = Some b"
    and fix_total: "libelf_is_mips64el e \<noteq> None \<Longrightarrow> mips_fix (g_tom g) e b \<noteq> None \<and> mips_fix (g_tof g) e b \<noteq> None"
begin

lemma g_def_some: "struct_def ec (g_type g) = Some (g_def g ec)"
  using is_struct[of ec] by (auto simp: g_def_def split: option.split)

lemma type_valid: "elf_type_valid (g_type g)"
  using is_struct[of 0] by (cases "g_type g") auto

lemma size: "msize_table ec (g_type g) = sizeof_struct ec (g_def g ec)"
  using table_struct[OF g_def_some] by blast

text \<open>The value of an element, from its bytes.\<close>

definition val :: "endian \<Rightarrow> Elf \<Rightarrow> bytes \<Rightarrow> 'b option" where
  "val host e bs =
     (let fs = struct_load host (e_class e) (g_def g (e_class e)) bs
      in if e_class e = ELFCLASS32 then map_option (g_widen g) (g_of32 g fs)
         else Option.bind (g_of64 g fs) (mips_fix (g_tom g) e))"

lemma val_total:
  assumes "length bs = msize_table (e_class e) (g_type g)" "e_class e = ELFCLASS32 \<or> e_class e = ELFCLASS64"
    "libelf_is_mips64el e \<noteq> None"
  shows "val host e bs \<noteq> None"
  using assms(2)
proof
  assume c: "e_class e = ELFCLASS32"
  have "g_of32 g (struct_load host ELFCLASS32 (g_def g ELFCLASS32) bs) \<noteq> None"
    using assms(1) by (intro of32 struct_load_ok) (simp add: c size)
  then show ?thesis using c by (simp add: val_def Let_def)
next
  assume c: "e_class e = ELFCLASS64"
  have "g_of64 g (struct_load host ELFCLASS64 (g_def g ELFCLASS64) bs) \<noteq> None"
    using assms(1) by (intro of64 struct_load_ok) (simp add: c size)
  then show ?thesis using c fix_total[OF assms(3)] by (auto simp: val_def Let_def)
qed

lemma get_elem:
  assumes at: "elem_at st (g_type g) x ndx e p"
  shows "gelf_get g st (Some x) ndx True = do {
     bs \<leftarrow> mem_read (heap st) p (msize_table (e_class e) (g_type g));
     v \<leftarrow> val (host_order st) e bs;
     Some (Some v, st) }"
proof (cases "mem_read (heap st) p (sizeof_struct (e_class e) (g_def g (e_class e)))")
  case None
  then show ?thesis by (simp add: gelf_get_def locate_elem[OF at type_valid] size)
next
  case (Some bs)
  then show ?thesis
    by (cases "e_class e = ELFCLASS32")
      (simp_all add: gelf_get_def locate_elem[OF at type_valid] size val_def Let_def bind_map_option map_option_case
        split: option.split)
qed

lemma get_SomeD:
  assumes "gelf_get g st (Some x) ndx True = Some (Some v, st')"
  obtains e p bs where "elem_at st (g_type g) x ndx e p" "st' = st"
    "mem_read (heap st) p (msize_table (e_class e) (g_type g)) = Some bs" "val (host_order st) e bs = Some v"
proof -
  obtain r st1 where l: "gelf_locate st (g_type g) (Some x) ndx True = Some (r, st1)"
    using assms by (cases "gelf_locate st (g_type g) (Some x) ndx True") (auto simp: gelf_get_def)
  have "r \<noteq> None" using assms by (cases r) (simp_all add: gelf_get_def l)
  then obtain e p where "r = Some (e, p)" by auto
  from l[unfolded this] obtain x' where "Some x = Some x'" "elem_at st (g_type g) x' ndx e p"
    using type_valid by (rule locate_elemD)
  then have at: "elem_at st (g_type g) x ndx e p" by simp
  then obtain bs where "mem_read (heap st) p (msize_table (e_class e) (g_type g)) = Some bs" "val (host_order st) e bs = Some v"
      "st' = st"
    using assms by (auto simp: get_elem bind_Some_iff)
  then show thesis using at that by blast
qed

text \<open>The bytes an update leaves.\<close>

lemma update_elem:
  assumes at: "elem_at st (g_type g) x ndx e p" and up: "gelf_update g st (Some x) ndx (Some v) = Some (ok, st')"
  obtains bs where "length bs = msize_table (e_class e) (g_type g)" "mem_write (heap st) p bs = Some (heap st')"
    "elfs st' = elfs st" "libelf_byteorder st' = libelf_byteorder st" "ok \<Longrightarrow> val (host_order st) e bs = Some v"
proof -
  have ec: "e_class e = ELFCLASS32 \<or> e_class e = ELFCLASS64" using at unfolding elem_at_def by blast
  note u = up[unfolded gelf_update_def Let_def]
  show thesis
  proof (cases "e_class e = ELFCLASS32")
    case True
    then obtain a h where a: "ok = snd (g_narrow g v a)"
      "mem_write (heap st) p (struct_store (host_order st) ELFCLASS32 (g_def g ELFCLASS32)
         (g_fields32 g (fst (g_narrow g v a)))) = Some h"
      "st' = (if ok then st\<lparr>heap := h\<rparr> else set_error ELF_E_RANGE 0 (st\<lparr>heap := h\<rparr>))"
      using u by (auto simp: locate_elem[OF at type_valid] bind_Some_iff case_prod_unfold simp del: split_paired_Ex)
    let ?a = "fst (g_narrow g v a)"
    let ?bs = "struct_store (host_order st) ELFCLASS32 (g_def g ELFCLASS32) (g_fields32 g ?a)"
    have "g_narrow g v a = (?a, True)" if ok using a(1) that by (simp add: prod_eq_iff)
    then have "val (host_order st) e ?bs = Some v" if ok
      using True that widen_narrow[of v a ?a] by (simp add: val_def Let_def struct_load_store[OF fields32] of_fields32)
    then show thesis
      using True a by (intro that[of ?bs]) (auto simp: size length_struct_store[OF fields32])
  next
    case False
    then have c: "e_class e = ELFCLASS64" using ec by simp
    then obtain b h where b: "mips_fix (g_tof g) e v = Some b" "ok" "st' = st\<lparr>heap := h\<rparr>"
      "mem_write (heap st) p (struct_store (host_order st) ELFCLASS64 (g_def g ELFCLASS64) (g_fields64 g b)) = Some h"
      using u by (auto simp: locate_elem[OF at type_valid] bind_Some_iff)
    let ?bs = "struct_store (host_order st) ELFCLASS64 (g_def g ELFCLASS64) (g_fields64 g b)"
    have "val (host_order st) e ?bs = Some v"
      using c fix_inverse[OF b(1)] by (simp add: val_def Let_def struct_load_store[OF fields64] of_fields64)
    then show thesis
      using c b by (intro that[of ?bs]) (auto simp: size length_struct_store[OF fields64])
  qed
qed

lemma update_Some:
  assumes "gelf_update g st ed ndx v = Some (ok, st')"
  obtains (none) "\<not> ok" "heap st' = heap st" "elfs st' = elfs st" "libelf_byteorder st' = libelf_byteorder st"
  | (elem) x e p v' where "ed = Some x" "v = Some v'" "elem_at st (g_type g) x ndx e p"
proof -
  obtain r st1 where l: "gelf_locate st (g_type g) ed ndx (v \<noteq> None) = Some (r, st1)"
    using assms by (cases "gelf_locate st (g_type g) ed ndx (v \<noteq> None)") (auto simp: gelf_update_def)
  show thesis
  proof (cases r)
    case None
    have "st' = st1" "\<not> ok"
      using assms unfolding gelf_update_def l None bind.simps prod.case option.case by simp_all
    moreover have "heap st1 = heap st \<and> elfs st1 = elfs st \<and> libelf_byteorder st1 = libelf_byteorder st"
      using l unfolding None by (rule locate_NoneD[OF _ type_valid])
    ultimately show thesis by (intro none) simp_all
  next
    case (Some ep)
    obtain e p where ep: "ep = (e, p)" by (cases ep)
    obtain x where x: "ed = Some x" "v \<noteq> None" "elem_at st (g_type g) x ndx e p"
      using l[unfolded Some ep] type_valid by (rule locate_elemD)
    from x(2) obtain v' where "v = Some v'" by auto
    show thesis by (rule elem) fact+
  qed
qed

lemma get_not_elem:
  assumes "elfs st' = elfs st" "\<And>e p. \<not> elem_at st (g_type g) x ndx e p"
  shows "map_option fst (gelf_get g st' (Some x) ndx True) = map_option fst (gelf_get g st (Some x) ndx True)"
proof (cases "gelf_locate st (g_type g) (Some x) ndx True")
  case None
  then have "gelf_locate st' (g_type g) (Some x) ndx True = None"
    using locate_cong[OF assms(1) type_valid, of "Some x" ndx True] by simp
  then show ?thesis using None by (simp add: gelf_get_def)
next
  case (Some l)
  obtain r st1 where l: "l = (r, st1)" by (cases l)
  have r: "r = None"
  proof (rule ccontr)
    assume "r \<noteq> None"
    then obtain e p where "r = Some (e, p)" by auto
    then have "gelf_locate st (g_type g) (Some x) ndx True = Some (Some (e, p), st1)" using Some l by simp
    then obtain x' where "Some x = Some x'" "elem_at st (g_type g) x' ndx e p"
      using type_valid by (rule locate_elemD)
    then show False using assms(2) by simp
  qed
  from Some l r locate_cong[OF assms(1) type_valid, of "Some x" ndx True]
  obtain st2 where "gelf_locate st' (g_type g) (Some x) ndx True = Some (None, st2)" by auto
  then show ?thesis using Some l r by (simp add: gelf_get_def)
qed

lemma get_after_update:
  assumes up: "gelf_update g st ed ndx (Some v) = Some (True, st')"
  shows "gelf_get g st' ed ndx True = Some (Some v, st')"
  using up
proof (cases rule: update_Some)
  case none
  then show ?thesis by simp
next
  case (elem x e p v')
  from update_elem[OF elem(3) up[unfolded elem(1)]] obtain bs where
    w: "length bs = msize_table (e_class e) (g_type g)" "mem_write (heap st) p bs = Some (heap st')"
      "elfs st' = elfs st" "libelf_byteorder st' = libelf_byteorder st" "val (host_order st) e bs = Some v"
    by blast
  have "elem_at st' (g_type g) x ndx e p" using elem(3) elem_at_cong[OF w(3)] by simp
  then show ?thesis
    using mem_read_write_same[OF w(2)] w(1,4,5) elem(1) by (simp add: get_elem host_order_def)
qed

lemma get_cong:
  assumes "heap st' = heap st" "elfs st' = elfs st" "libelf_byteorder st' = libelf_byteorder st"
  shows "map_option fst (gelf_get g st' (Some x) ndx True) = map_option fst (gelf_get g st (Some x) ndx True)"
proof (cases "\<exists>e p. elem_at st (g_type g) x ndx e p")
  case True
  then obtain e p where at: "elem_at st (g_type g) x ndx e p" by blast
  then have at': "elem_at st' (g_type g) x ndx e p" using elem_at_cong[OF assms(2)] by simp
  have "host_order st' = host_order st" using assms(3) by (simp add: host_order_def)
  then show ?thesis
    unfolding get_elem[OF at] get_elem[OF at'] assms(1) by (simp add: map_option_bind comp_def)
next
  case False
  then show ?thesis using assms(2) by (intro get_not_elem) auto
qed

lemma get_other:
  assumes up: "gelf_update g st (Some x) ndx (Some v) = Some (ok, st')" and ne: "ndx' \<noteq> ndx"
  shows "map_option fst (gelf_get g st' (Some x) ndx' True) = map_option fst (gelf_get g st (Some x) ndx' True)"
  using up
proof (cases rule: update_Some)
  case none
  then show ?thesis by (intro get_cong)
next
  case (elem x' e p v')
  then have at: "elem_at st (g_type g) x ndx e p" by simp
  from update_elem[OF at up] obtain bs where
    w: "length bs = msize_table (e_class e) (g_type g)" "mem_write (heap st) p bs = Some (heap st')"
      "elfs st' = elfs st" "libelf_byteorder st' = libelf_byteorder st"
    by blast
  show ?thesis
  proof (cases "\<exists>e' q. elem_at st (g_type g) x ndx' e' q")
    case True
    then obtain e' q where at2: "elem_at st (g_type g) x ndx' e' q" by blast
    have "e' = e" using at at2 by (auto simp: elem_at_def)
    have "apart p (length bs) q (msize_table (e_class e) (g_type g))"
      using at at2 ne w(1) unfolding \<open>e' = e\<close> by (rule elem_apart)
    then have "mem_read (heap st') q (msize_table (e_class e') (g_type g)) = mem_read (heap st) q (msize_table (e_class e') (g_type g))"
      unfolding \<open>e' = e\<close> by (rule mem_read_write_apart[OF w(2)])
    moreover have "elem_at st' (g_type g) x ndx' e' q" using at2 elem_at_cong[OF w(3)] by simp
    moreover have "host_order st' = host_order st" using w(4) by (simp add: host_order_def)
    ultimately show ?thesis using at2 by (simp add: get_elem map_option_bind comp_def)
  next
    case False
    then show ?thesis using w(3) by (intro get_not_elem) auto
  qed
qed

lemma get_ok:
  assumes d: "get_data st x = Some d" "data_ok (heap st) d" "d_buf (d_data d) = None \<longrightarrow> d_size (d_data d) = 0"
    and e: "get_elf st (fst x) = Some e" "e_class e = ELFCLASS32 \<or> e_class e = ELFCLASS64"
      "libelf_is_mips64el e \<noteq> None"
    and s: "get_scn st (fst x) (fst (snd x)) = Some scn"
    and dvd: "msize_table (e_class e) (g_type g) dvd unat (d_size (d_data d))"
  shows "\<exists>r st'. gelf_get g st (Some x) ndx dst = Some (r, st') \<and> heap st' = heap st \<and> elfs st' = elfs st
    \<and> (r \<noteq> None \<longleftrightarrow> dst \<and> libelf_xlate_shtype (shdr_type (s_shdr scn)) = g_type g \<and> e_version e = EV_CURRENT
         \<and> 0 \<le> sint ndx \<and> unat ndx < unat (d_size (d_data d)) div msize_table (e_class e) (g_type g))"
    (is "\<exists>r st'. _ \<and> _ \<and> _ \<and> (_ \<longleftrightarrow> ?cond)")
proof -
  let ?t = "g_type g" and ?m = "msize_table (e_class e) (g_type g)"
  obtain i n raw k where x: "x = (i, n, raw, k)" by (cases x)
  obtain c where c: "unat (d_size (d_data d)) = ?m * c" using dvd by auto
  have m: "0 < ?m" unfolding size
    using size[of "e_class e"] struct_size_pos[OF g_def_some] by simp
  have nz: "(of_nat ?m :: u64) \<noteq> 0" using m msize_le_64[of "e_class e" ?t] by (simp add: of_nat_64_zero)
  have lt: "unat ndx * ?m < unat (d_size (d_data d)) \<longleftrightarrow> unat ndx < unat (d_size (d_data d)) div ?m"
    using m unfolding c by (simp add: mult.commute)
  show ?thesis
  proof (cases ?cond)
    case True
    then have "d_size (d_data d) \<noteq> 0" by auto
    then obtain b where b: "d_buf (d_data d) = Some b" using d(3) by auto
    let ?p = "ptr_add b (unat ndx * ?m)"
    have at: "elem_at st ?t x ndx e ?p"
      using True lt d(1) e(1,2) s m b unfolding elem_at_def by blast
    have "unat ndx * ?m + ?m \<le> unat (d_size (d_data d))"
      using True m mult_le_mono1[of "Suc (unat ndx)" c ?m] unfolding c by (simp add: mult.commute)
    then have "window (heap st) ?p ?m"
      using d(2) b by (intro window_sub[of _ _ "unat (d_size (d_data d))"]) (auto simp: data_ok_def)
    then obtain bs where bs: "mem_read (heap st) ?p ?m = Some bs" "length bs = ?m" by (rule window_readE)
    then have "val (host_order st) e bs \<noteq> None" using e(2,3) by (intro val_total) simp_all
    then show ?thesis using True bs(1) get_elem[OF at] by auto
  next
    case False
    then have "gelf_locate st ?t (Some x) ndx dst = Some (None, set_error
        (if sint ndx < 0 \<or> \<not> dst \<or> libelf_xlate_shtype (shdr_type (s_shdr scn)) \<noteq> ?t then ELF_E_ARGUMENT
         else if e_version e \<noteq> EV_CURRENT then ELF_E_VERSION else ELF_E_ARGUMENT) 0 st)"
      using d(1) e s m nz lt type_valid unfolding x
      by (auto simp: gelf_locate_def msize_current word_le_nat_alt unat_index_offset[OF _ msize_le_64])
    then show ?thesis using False by (simp add: gelf_get_def)
  qed
qed

end

section \<open>The element types keep the contract\<close>

text \<open>The simplification set for the laws of an element type.\<close>

lemmas codec_laws = g_def_def mips_fix_def codec_simps members_ok_def list_all2_Cons1 field_ok_simps copy_ok
  widen_u32 widen_s32 widen_narrow_r_info r_info_tom_tof layout_simps

lemma mips_fix_inverse:
  "(\<And>v. f (h v) = v) \<Longrightarrow> mips_fix (Some h) e b = Some b' \<Longrightarrow> mips_fix (Some f) e b' = Some b"
  by (cases "libelf_is_mips64el e") (auto simp: mips_fix_def)

interpretation sym: gelf_codec sym_type
  by unfold_locales (auto simp: sym_type_def codec_laws Elf32_Sym_of_def Elf64_Sym_of_def Elf32_Sym_fields_def Elf64_Sym_fields_def)

lemma rel_laws:
  "members_ok ELFCLASS32 Elf32_Rel_DEF fs \<Longrightarrow> Elf32_Rel_of fs \<noteq> None"
  "members_ok ELFCLASS64 Elf64_Rel_DEF fs \<Longrightarrow> Elf64_Rel_of fs \<noteq> None"
  "members_ok ELFCLASS32 Elf32_Rel_DEF (Elf32_Rel_fields a)"
  "members_ok ELFCLASS64 Elf64_Rel_DEF (Elf64_Rel_fields b)"
  by (auto simp: members_ok_def list_all2_Cons1 field_ok_simps member_list_defs Elf32_Rel_of_def Elf64_Rel_of_def
      Elf32_Rel_fields_def Elf64_Rel_fields_def)

interpretation rel: gelf_codec rel_type
proof unfold_locales
  fix a b a' assume "g_narrow rel_type b a = (a', True)"
  then show "g_widen rel_type a' = b"
    by (auto simp: rel_type_def copy_ok widen_u32 widen_narrow_r_info)
next
  fix e b b' assume "mips_fix (g_tof rel_type) e b = Some b'"
  then show "mips_fix (g_tom rel_type) e b' = Some b"
    unfolding rel_type_def gelf_type.simps by (rule mips_fix_inverse[rotated]) (simp add: r_info_tom_tof)
qed (auto simp: rel_type_def g_def_def rel_laws Elf32_Rel_of_fields Elf64_Rel_of_fields mips_fix_def)

lemma rela_laws:
  "members_ok ELFCLASS32 Elf32_Rela_DEF fs \<Longrightarrow> Elf32_Rela_of fs \<noteq> None"
  "members_ok ELFCLASS64 Elf64_Rela_DEF fs \<Longrightarrow> Elf64_Rela_of fs \<noteq> None"
  "members_ok ELFCLASS32 Elf32_Rela_DEF (Elf32_Rela_fields a)"
  "members_ok ELFCLASS64 Elf64_Rela_DEF (Elf64_Rela_fields b)"
  by (auto simp: members_ok_def list_all2_Cons1 field_ok_simps member_list_defs Elf32_Rela_of_def Elf64_Rela_of_def
      Elf32_Rela_fields_def Elf64_Rela_fields_def)

interpretation rela: gelf_codec rela_type
proof unfold_locales
  fix a b a' assume "g_narrow rela_type b a = (a', True)"
  then show "g_widen rela_type a' = b"
    by (auto simp: rela_type_def copy_ok widen_u32 widen_s32 widen_narrow_r_info)
next
  fix e b b' assume "mips_fix (g_tof rela_type) e b = Some b'"
  then show "mips_fix (g_tom rela_type) e b' = Some b"
    unfolding rela_type_def gelf_type.simps by (rule mips_fix_inverse[rotated]) (simp add: r_info_tom_tof)
qed (auto simp: rela_type_def g_def_def rela_laws Elf32_Rela_of_fields Elf64_Rela_of_fields mips_fix_def)

interpretation dyn: gelf_codec dyn_type
  by unfold_locales (auto simp: dyn_type_def codec_laws Elf32_Dyn_of_def Elf64_Dyn_of_def Elf32_Dyn_fields_def Elf64_Dyn_fields_def)

interpretation move: gelf_codec move_type
  by unfold_locales (auto simp: move_type_def codec_laws Elf32_Move_of_def Elf64_Move_of_def Elf32_Move_fields_def
      Elf64_Move_fields_def)

interpretation cap: gelf_codec cap_type
  by unfold_locales (auto simp: cap_type_def codec_laws Elf32_Cap_of_def Elf64_Cap_of_def Elf32_Cap_fields_def Elf64_Cap_fields_def)

interpretation syminfo: gelf_codec syminfo_type
  by unfold_locales (auto simp: syminfo_type_def codec_laws Elf32_Syminfo_of_def Elf64_Syminfo_of_def Elf32_Syminfo_fields_def
      Elf64_Syminfo_fields_def)
section \<open>Properties\<close>

text \<open>A descriptor of class \<open>ec\<close> with a section of type \<open>t\<close> whose data is a buffer of \<open>n\<close> bytes.\<close>

definition elem_data :: "Elf_Type \<Rightarrow> nat \<Rightarrow> Libelf_Data" where
  "elem_data t n = \<lparr>d_data = sample_data t 0 (of_nat n), d_flags = 0\<rparr>"

definition elem_state :: "int \<Rightarrow> u32 \<Rightarrow> Libelf_Data \<Rightarrow> nat \<Rightarrow> libelf_state" where
  "elem_state ec sht d n =
     put_elf 0 ((data_elf ((data_scn sht 64 (of_nat n))\<lparr>s_data := [d]\<rparr>))\<lparr>e_class := ec\<rparr>) (sample_state (replicate n 0))"

definition sample_sym :: Elf64_Sym where
  "sample_sym = \<lparr>st_name = 7, st_info = 18, st_other = 2, st_shndx = 3, st_value = 0x400000, st_size = 64\<rparr>"

text \<open>
  C22. An update of a symbol that succeeds is what \<open>gelf_getsym\<close> reads afterwards, whatever the class and the
  byte order of the host, and no other symbol of the data changes.
\<close>

theorem update_sym_then_get:
  assumes "gelf_update_sym st (Some x) ndx (Some gs) = Some (True, st')"
  shows "map_option fst (gelf_getsym st' (Some x) m True) =
    (if m = ndx then Some (Some gs) else map_option fst (gelf_getsym st (Some x) m True))"
  using assms sym.get_after_update sym.get_other unfolding gelf_update_sym_def gelf_getsym_def by auto

lemma update_sym_sample:
  "map_option fst (gelf_update_sym (elem_state ELFCLASS32 SHT_SYMTAB (elem_data ELF_T_SYM 32) 32)
     (Some (0, 1, False, 0)) 1 (Some sample_sym)) = Some True"
  by code_simp

theorem update_sym_then_get_witness:
  "\<exists>st'. map_option fst (gelf_getsym st' (Some (0, 1, False, 0)) 1 True) = Some (Some sample_sym)"
proof -
  obtain st' where "gelf_update_sym (elem_state ELFCLASS32 SHT_SYMTAB (elem_data ELF_T_SYM 32) 32)
     (Some (0, 1, False, 0)) 1 (Some sample_sym) = Some (True, st')"
    using update_sym_sample by auto
  from update_sym_then_get[OF this, of 1] show ?thesis by auto
qed

text \<open>
  C31. The same for relocations with addends, where the 32-bit structure packs symbol and type into other
  bits of \<open>r_info\<close>, the addend is signed, and little-endian 64-bit MIPS stores \<open>r_info\<close> rearranged: a
  successful \<open>gelf_update_rela\<close> is read back exactly, and the other entries are untouched.
\<close>

theorem update_rela_then_get:
  assumes "gelf_update_rela st (Some x) ndx (Some dr) = Some (True, st')"
  shows "map_option fst (gelf_getrela st' (Some x) m True) =
    (if m = ndx then Some (Some dr) else map_option fst (gelf_getrela st (Some x) m True))"
  using assms rela.get_after_update rela.get_other unfolding gelf_update_rela_def gelf_getrela_def by auto

definition sample_rela :: Elf64_Rela where
  "sample_rela = \<lparr>ra_offset = 0x1000, ra_info = 0x0000001200000034, ra_addend = - 8\<rparr>"

lemma update_rela_sample:
  "map_option fst (gelf_update_rela (elem_state ELFCLASS32 SHT_RELA (elem_data ELF_T_RELA 24) 24)
     (Some (0, 1, False, 0)) 1 (Some sample_rela)) = Some True"
  by code_simp

theorem update_rela_then_get_witness:
  "\<exists>st'. map_option fst (gelf_getrela st' (Some (0, 1, False, 0)) 1 True) = Some (Some sample_rela)"
proof -
  obtain st' where "gelf_update_rela (elem_state ELFCLASS32 SHT_RELA (elem_data ELF_T_RELA 24) 24)
     (Some (0, 1, False, 0)) 1 (Some sample_rela) = Some (True, st')"
    using update_rela_sample by auto
  from update_rela_then_get[OF this, of 1] show ?thesis by auto
qed

text \<open>
  C21. \<open>gelf_getsym\<close> on a buffer of whole symbols always returns, reads only the buffer, changes nothing, and
  returns a symbol exactly when \<open>dst\<close> is there, the section is a symbol table, the version is current and
  the index is one of the symbols of the buffer.
\<close>

theorem getsym_bounds:
  assumes "get_data st x = Some d" "data_ok (heap st) d" "d_buf (d_data d) = None \<longrightarrow> d_size (d_data d) = 0"
    and "get_elf st (fst x) = Some e" "e_class e = ELFCLASS32 \<or> e_class e = ELFCLASS64" "libelf_is_mips64el e \<noteq> None"
    and "get_scn st (fst x) (fst (snd x)) = Some scn"
    and "msize_table (e_class e) ELF_T_SYM dvd unat (d_size (d_data d))"
  shows "\<exists>r st'. gelf_getsym st (Some x) ndx dst = Some (r, st') \<and> heap st' = heap st \<and> elfs st' = elfs st
    \<and> (r \<noteq> None \<longleftrightarrow> dst \<and> libelf_xlate_shtype (shdr_type (s_shdr scn)) = ELF_T_SYM \<and> e_version e = EV_CURRENT
         \<and> 0 \<le> sint ndx \<and> unat ndx < unat (d_size (d_data d)) div msize_table (e_class e) ELF_T_SYM)"
proof -
  have t: "g_type sym_type = ELF_T_SYM" by (simp add: sym_type_def)
  show ?thesis unfolding gelf_getsym_def by (rule sym.get_ok[unfolded t, OF assms])
qed

theorem getsym_bounds_witness:
  "\<exists>r st'. gelf_getsym (elem_state ELFCLASS64 SHT_SYMTAB (elem_data ELF_T_SYM 48) 48) (Some (0, 1, False, 0)) 1 True
     = Some (r, st') \<and> r \<noteq> None"
proof -
  let ?d = "elem_data ELF_T_SYM 48"
  let ?st = "elem_state ELFCLASS64 SHT_SYMTAB ?d 48"
  let ?s = "(data_scn SHT_SYMTAB 64 48)\<lparr>s_data := [?d]\<rparr>"
  let ?e = "(data_elf ?s)\<lparr>e_class := ELFCLASS64\<rparr>"
  have st: "?st = put_elf 0 ?e (sample_state (replicate 48 0))" by (simp add: elem_state_def)
  have e: "get_elf ?st 0 = Some ?e" "e_scns ?e 1 = Some ?s" "e_version ?e = EV_CURRENT"
    by (simp_all add: st data_elf_def table_elf_def reading_elf_def initial_elf_def)
  have d: "get_data ?st (0, 1, False, 0) = Some ?d" "get_scn ?st 0 1 = Some ?s"
    using e(1,2) by (simp_all add: get_data_def get_scn_def scn_list_def)
  have h: "heap ?st = [0 \<mapsto> replicate 48 0]" unfolding st by (simp add: sample_state_def)
  have ok: "data_ok (heap ?st) ?d" "unat (d_size (d_data ?d)) = 48" "d_buf (d_data ?d) \<noteq> None"
    unfolding h by (simp_all add: data_ok_def elem_data_def sample_data_def window_def mem_read_def slice_at_def)
  have m: "libelf_is_mips64el ?e \<noteq> None"
    by (simp add: libelf_is_mips64el_def data_elf_def table_elf_def reading_elf_def)
  have ty: "libelf_xlate_shtype (shdr_type (s_shdr ?s)) = ELF_T_SYM" by (simp add: data_scn_def libelf_xlate_shtype_def)
  have sz: "msize_table ELFCLASS64 ELF_T_SYM = 24" by (simp add: layout_simps)
  from getsym_bounds[of ?st "(0, 1, False, 0)" ?d ?e ?s 1 True] show ?thesis
    using e d ok m ty sz by auto
qed
lemma sym_type_fields [simp]:
  "g_type sym_type = ELF_T_SYM" "g_of32 sym_type = Elf32_Sym_of" "g_of64 sym_type = Elf64_Sym_of"
  "g_fields32 sym_type = Elf32_Sym_fields" "g_def sym_type ELFCLASS32 = Elf32_Sym_DEF" "g_def sym_type ELFCLASS64 = Elf64_Sym_DEF"
  "g_tom sym_type = None"
  by (simp_all add: sym_type_def g_def_def)

text \<open>
  A failing update of a 32-bit symbol is not without effect: with a value that does not fit,
  \<open>gelf_update_sym\<close> reports \<open>ELF_E_RANGE\<close> after it has already stored the name, the type and binding, the
  visibility and the section index; value and size stay.
\<close>

theorem update_sym_range_partial:
  assumes "get_elf st (fst x) = Some e" "e_class e = ELFCLASS32" "st_value gs > 0xFFFFFFFF"
    and get: "gelf_getsym st (Some x) ndx True = Some (Some old, st1)"
  shows "\<exists>st'. gelf_update_sym st (Some x) ndx (Some gs) = Some (False, st') \<and> fst (elf_errno st') = elf_error_code ELF_E_RANGE
    \<and> gelf_getsym st' (Some x) ndx True = Some (Some (old\<lparr>st_name := st_name gs, st_info := st_info gs,
         st_other := st_other gs, st_shndx := st_shndx gs\<rparr>), st')"
proof -
  from get[unfolded gelf_getsym_def] obtain e0 p bs where at0: "elem_at st ELF_T_SYM x ndx e0 p"
    and r0: "mem_read (heap st) p (msize_table (e_class e0) ELF_T_SYM) = Some bs" "sym.val (host_order st) e0 bs = Some old"
    unfolding sym_type_fields(1)[symmetric] by (rule sym.get_SomeD) blast
  have "e0 = e" using at0 assms(1) by (auto simp: elem_at_def)
  note at = at0[unfolded this] and r = r0[unfolded this assms(2)]
  let ?D = Elf32_Sym_DEF and ?host = "host_order st"
  obtain a where a: "Elf32_Sym_of (struct_load ?host ELFCLASS32 ?D bs) = Some a" "g_widen sym_type a = old"
    using r(2) assms(2) by (auto simp: sym.val_def Let_def)
  let ?a = "a\<lparr>st_name32 := st_name gs, st_info32 := st_info gs, st_other32 := st_other gs, st_shndx32 := st_shndx gs\<rparr>"
  have n: "g_narrow sym_type gs a = (?a, False)"
    using assms(3) by (simp add: sym_type_def COPY_U32_def)
  let ?new = "struct_store ?host ELFCLASS32 ?D (Elf32_Sym_fields ?a)"
  have sz: "msize_table ELFCLASS32 ELF_T_SYM = sizeof_struct ELFCLASS32 ?D"
    using sym.size[of ELFCLASS32] by simp
  note f = sym.fields32[simplified] and of = sym.of_fields32[simplified]
  have len: "length ?new = sizeof_struct ELFCLASS32 ?D" by (rule length_struct_store[OF f])
  obtain h where h: "mem_write (heap st) p ?new = Some h"
    using mem_write_total[of "heap st" p _ ?new] r(1) len sz by auto
  let ?st' = "set_error ELF_E_RANGE 0 (st\<lparr>heap := h\<rparr>)"
  have "gelf_update_sym st (Some x) ndx (Some gs) = Some (False, ?st')"
    using locate_elem[OF at] r(1) a(1) n h assms(2) by (simp add: gelf_update_sym_def gelf_update_def Let_def sz)
  moreover have "elem_at ?st' (g_type sym_type) x ndx e p" using at elem_at_cong[of ?st' st] by simp
  then have "gelf_getsym ?st' (Some x) ndx True = Some (Some (g_widen sym_type ?a), ?st')"
    using mem_read_write_same[OF h] len assms(2) f of
    by (simp add: gelf_getsym_def sym.get_elem sz sym.val_def Let_def struct_load_store host_order_def)
  moreover have "g_widen sym_type ?a = old\<lparr>st_name := st_name gs, st_info := st_info gs,
         st_other := st_other gs, st_shndx := st_shndx gs\<rparr>"
    unfolding a(2)[symmetric] by (simp add: sym_type_def)
  moreover have "fst (elf_errno ?st') = elf_error_code ELF_E_RANGE"
    by (simp add: elf_errno_def set_error_def)
  ultimately show ?thesis by auto
qed

lemma getsym_sample:
  "map_option fst (gelf_getsym (elem_state ELFCLASS32 SHT_SYMTAB (elem_data ELF_T_SYM 32) 32) (Some (0, 1, False, 0)) 1 True)
     = Some (Some \<lparr>st_name = 0, st_info = 0, st_other = 0, st_shndx = 0, st_value = 0, st_size = 0\<rparr>)"
  by code_simp

theorem update_sym_range_partial_witness:
  "\<exists>st' s. gelf_getsym st' (Some (0, 1, False, 0)) 1 True = Some (Some s, st') \<and> st_name s = 7 \<and> st_value s = 0"
proof -
  let ?st = "elem_state ELFCLASS32 SHT_SYMTAB (elem_data ELF_T_SYM 32) 32"
  have e: "\<exists>e. get_elf ?st (fst ((0, 1, False, 0) :: data_ref)) = Some e \<and> e_class e = ELFCLASS32" by (simp add: elem_state_def)
  obtain st1 where g: "gelf_getsym ?st (Some (0, 1, False, 0)) 1 True
     = Some (Some \<lparr>st_name = 0, st_info = 0, st_other = 0, st_shndx = 0, st_value = 0, st_size = 0\<rparr>, st1)"
    using getsym_sample by auto
  have v: "st_value (sample_sym\<lparr>st_value := 0x100000000\<rparr>) > 0xFFFFFFFF" by simp
  from e obtain e where "get_elf ?st (fst ((0, 1, False, 0) :: data_ref)) = Some e" "e_class e = ELFCLASS32" by blast
  from update_sym_range_partial[OF this v g] obtain st' where st':
    "gelf_getsym st' (Some (0, 1, False, 0)) 1 True =
       Some (Some \<lparr>st_name = 7, st_info = 18, st_other = 2, st_shndx = 3, st_value = 0, st_size = 0\<rparr>, st')"
    (is "_ = Some (Some ?s, st')")
    by (auto simp: sample_sym_def)
  have "st_name ?s = 7" "st_value ?s = 0" by simp_all
  with st' show ?thesis by blast
qed

text \<open>
  C37. \<open>gelf_update_symshndx\<close> can never succeed on translated data: it tests the type of the symbol data where it
  means that of the index data, and the symbol data has type \<open>ELF_T_SYM\<close>. The symbol itself is updated before
  the failure.
\<close>

theorem update_symshndx_never_succeeds:
  assumes "get_data st d = Some D" "d_type (d_data D) = ELF_T_SYM"
  shows "gelf_update_symshndx st (Some d) ed ndx gs xindex \<noteq> Some (True, st')"
proof
  assume r: "gelf_update_symshndx st (Some d) ed ndx gs xindex = Some (True, st')"
  then obtain st1 where u: "gelf_update_sym st (Some d) ndx gs = Some (True, st1)"
    by (cases "gelf_update_sym st (Some d) ndx gs") (auto simp: gelf_update_symshndx_def split: if_splits)
  then obtain v where "gs = Some v"
    by (cases gs) (auto simp: gelf_update_sym_def gelf_update_def gelf_locate_def split: prod.splits)
  have "elfs st1 = elfs st"
    using u unfolding gelf_update_sym_def
  proof (cases rule: sym.update_Some)
    case (elem x e p v')
    then show ?thesis using u sym.update_elem[OF elem(3)] unfolding gelf_update_sym_def by blast
  qed
  then have "get_data st1 d = Some D" using assms(1) by (simp add: get_data_def get_scn_def get_elf_def)
  then have "symshndx_locate st1 d ed (Some d) ndx True \<noteq> Some (Some p, st2)" for p st2
    using assms(2) by (auto simp: symshndx_locate_def bind_Some_iff split: option.splits prod.splits)
  then show False
    using r u by (auto simp: gelf_update_symshndx_def bind_Some_iff split: option.splits)
qed

theorem update_symshndx_never_succeeds_witness:
  "\<forall>st'. gelf_update_symshndx (elem_state ELFCLASS64 SHT_SYMTAB (elem_data ELF_T_SYM 48) 48)
     (Some (0, 1, False, 0)) (Some (0, 1, False, 0)) 0 (Some sample_sym) 7 \<noteq> Some (True, st')"
proof -
  let ?st = "elem_state ELFCLASS64 SHT_SYMTAB (elem_data ELF_T_SYM 48) 48"
  have "get_data ?st (0, 1, False, 0) = Some (elem_data ELF_T_SYM 48)"
    by (simp add: elem_state_def get_data_def get_scn_def scn_list_def data_elf_def)
  moreover have "d_type (d_data (elem_data ELF_T_SYM 48)) = ELF_T_SYM" by (simp add: elem_data_def sample_data_def)
  ultimately show ?thesis using update_symshndx_never_succeeds by blast
qed

end
