(* ===== verification/Gelf_File.thy ===== *)
theory Gelf_File
  imports Gelf_Data
begin

text \<open>
  From the file to the application: what \<open>gelf_getX\<close> returns for a section whose data \<open>elf_getdata\<close> has just
  read are the entries of the section in the file. The lemmas follow the buffer through \<open>elf_data.c\<close>, the
  converter and the typed access.
\<close>

section \<open>The buffer \<open>elf_getdata\<close> fills\<close>

lemma getdata_translate_contents:
  assumes e: "get_elf st i = Some e" "heap_fresh st" "e_kind e = ELF_K_ELF" "e_scns e n = Some s"
    and ec: "e_class e = ELFCLASS32 \<or> e_class e = ELFCLASS64"
    and t: "struct_def (e_class e) t = Some ms"
    and raw: "e_rawfile e = Some p" "mem_read (heap st) (ptr_add p (unat off)) (unat cnt * FSZ (e_class e) ms) = Some bs"
    and sz: "unat (d_size (d_data d)) = unat cnt * sizeof_struct (e_class e) ms"
    and ok: "getdata_translate st i n e t off cnt d = Some (Some x, st')"
  shows "\<exists>b D st1. x = (i, n, False, length (s_data s)) \<and> d_data D = (d_data d)\<lparr>d_buf := Some b\<rparr>
    \<and> st' = put_elf i (e\<lparr>e_scns := (e_scns e)(n \<mapsto> s\<lparr>s_data := s_data s @ [D]\<rparr>)\<rparr>) st1
    \<and> libelf_byteorder st1 = libelf_byteorder st
    \<and> mem_read (heap st1) b (unat (d_size (d_data d)))
        = Some (concat (map (struct_tom (host_order st) (e_class e) ms (e_byteorder e \<noteq> libelf_byteorder st))
            (chunks (FSZ (e_class e) ms) (unat cnt) bs)))"
  using e(2)
proof (cases rule: c_malloc_ok[where n = "unat (d_size (d_data d))"])
  case fail
  then show ?thesis using ok by (simp add: getdata_translate_def)
next
  case okk: (ok b st1)
  let ?ec = "e_class e" and ?sb = "ptr_add p (unat off)"
  let ?d = "d\<lparr>d_data := (d_data d)\<lparr>d_buf := Some b\<rparr>, d_flags := d_flags d OR LIBELF_F_DATA_MALLOCED\<rparr>"
  have h1: "heap st1 = (heap st)(fst b \<mapsto> replicate (unat (d_size (d_data d))) 0)" "snd b = 0"
    using okk(1) by (auto simp: c_malloc_def case_prod_unfold Let_def split: if_splits)
  have ne: "fst b \<noteq> fst ?sb"
  proof
    assume "fst b = fst ?sb"
    then have "heap st (fst ?sb) = None" using e(2) okk(3) by (simp add: heap_fresh_def)
    then show False using raw(2) by (simp add: mem_read_def)
  qed
  have src: "mem_read (heap st1) ?sb (unat cnt * FSZ ?ec ms) = Some bs"
    using raw(2) ne by (simp add: h1 mem_read_def)
  have dst: "window (heap st1) b (unat cnt * sizeof_struct ?ec ms)" using okk(2) sz by simp
  have bw: "bwd_safe b (unat cnt * sizeof_struct ?ec ms) ?sb" using ne by (simp add: bwd_safe_def)
  have "d_size (d_data d) = of_nat (unat (d_size (d_data d)))" by simp
  then have big: "\<not> d_size (d_data d) < cnt * of_nat (sizeof_struct ?ec ms)" unfolding sz by simp
  have order: "host_order st1 = host_order st" using okk(7) by (simp add: host_order_def)
  let ?c = "cvt_comp_tom ?ec ms"
  have c: "cvt_table t ELF_TOMEMORY ?ec = Some ?c" "elf_type_valid t" using t by (cases t; simp)+
  obtain h' where h': "bwd_loop (struct_tom (host_order st1) ?ec ms (e_byteorder e \<noteq> libelf_byteorder st1))
      (FSZ ?ec ms) (sizeof_struct ?ec ms) (unat cnt) (heap st1) b ?sb = Some h'"
    "mem_read h' b (unat cnt * sizeof_struct ?ec ms) = Some (concat (map
      (struct_tom (host_order st1) ?ec ms (e_byteorder e \<noteq> libelf_byteorder st1)) (chunks (FSZ ?ec ms) (unat cnt) bs)))"
    using comp.tom_array[OF src dst bw] by blast
  have run: "?c (host_order st1) (heap st1) b (d_size (d_data d)) ?sb cnt (e_byteorder e \<noteq> libelf_byteorder st1) = Some (h', True)"
    using big h'(1) by (simp add: cvt_comp_tom_def)
  obtain m where m: "libelf_elfmachine (Some e) = Some m" using e(3) ec by (auto simp: libelf_elfmachine_def)
  have tr: "libelf_get_translator t ELF_TOMEMORY ?ec m = Some (Some ?c)"
    using ec c by (auto simp: libelf_get_translator_def)
  let ?st2 = "st1\<lparr>heap := h'\<rparr>"
  have "getdata_translate st i n e t off cnt d = do { (r, st) \<leftarrow> append_data ?st2 i n False ?d; Some (Some r, st) }"
    using run by (simp add: getdata_translate_def okk(1) m tr raw(1) Let_def)
  moreover have g: "get_elf ?st2 i = Some e" using e(1) okk(6)[of i] by (simp add: get_elf_def)
  then have "append_data ?st2 i n False ?d = Some ((i, n, False, length (s_data s)),
      put_elf i (e\<lparr>e_scns := (e_scns e)(n \<mapsto> s\<lparr>s_data := s_data s @ [?d]\<rparr>)\<rparr>) ?st2)"
    using e(4) by (simp add: append_data_def get_scn_def put_scn_def scn_list_def)
  ultimately have "x = (i, n, False, length (s_data s))"
    "st' = put_elf i (e\<lparr>e_scns := (e_scns e)(n \<mapsto> s\<lparr>s_data := s_data s @ [?d]\<rparr>)\<rparr>) ?st2"
    using ok by simp_all
  moreover have "mem_read (heap ?st2) b (unat (d_size (d_data d)))
        = Some (concat (map (struct_tom (host_order st) ?ec ms (e_byteorder e \<noteq> libelf_byteorder st))
            (chunks (FSZ ?ec ms) (unat cnt) bs)))"
    using h'(2) sz order okk(7) by simp
  ultimately show ?thesis
    using okk(7) by (intro exI[of _ b] exI[of _ ?d] exI[of _ ?st2]) simp
qed

text \<open>Element \<open>k\<close> of the converted array is the conversion of element \<open>k\<close> of the file.\<close>

lemma chunks_nth: "k < n \<Longrightarrow> chunks m n bs ! k = take m (drop (k * m) bs)"
  by (induction n arbitrary: bs k) (auto simp: nth_Cons add.commute split: nat.split)

lemma concat_const_slice:
  "k < length xs \<Longrightarrow> (\<And>x. x \<in> set xs \<Longrightarrow> length x = m) \<Longrightarrow> take m (drop (k * m) (concat xs)) = xs ! k"
proof (induction xs arbitrary: k)
  case (Cons x xs)
  then show ?case by (cases k) (simp_all add: drop_append)
qed simp

lemma converted_element:
  assumes "mem_read h b (n * sizeof_struct ec ms) = Some (concat (map (struct_tom host ec ms sw) (chunks (FSZ ec ms) n bs)))"
    and "length bs = n * FSZ ec ms" "k < n"
  shows "mem_read h (ptr_add b (k * sizeof_struct ec ms)) (sizeof_struct ec ms)
    = Some (struct_tom host ec ms sw (take (FSZ ec ms) (drop (k * FSZ ec ms) bs)))"
proof -
  let ?m = "sizeof_struct ec ms" and ?xs = "map (struct_tom host ec ms sw) (chunks (FSZ ec ms) n bs)"
  have "k * ?m + ?m \<le> n * ?m" using mult_le_mono1[of "Suc k" n ?m] assms(3) by simp
  then have "mem_read h (ptr_add b (k * ?m)) ?m = Some (take ?m (drop (k * ?m) (concat ?xs)))"
    by (rule mem_read_sub[OF assms(1)])
  moreover have "length x = ?m" if "x \<in> set ?xs" for x
    using that chunk_lengths[OF assms(2)] by (auto simp: length_struct_tom)
  then have "take ?m (drop (k * ?m) (concat ?xs)) = ?xs ! k"
    by (intro concat_const_slice) (use assms(3) in simp_all)
  ultimately show ?thesis using assms(3) by (simp add: chunks_nth)
qed
section \<open>Entries of a section of the file\<close>

text \<open>The entry at offset \<open>off\<close> of the file in its class-independent form.\<close>

definition file_elem :: "('a, 'b) gelf_type \<Rightarrow> libelf_state \<Rightarrow> Elf \<Rightarrow> nat \<Rightarrow> 'b option" where
  "file_elem g st e off = do {
     fs \<leftarrow> file_struct st e (e_class e) (g_def g (e_class e)) off;
     if e_class e = ELFCLASS32 then map_option (g_widen g) (g_of32 g fs)
     else do { b \<leftarrow> g_of64 g fs; mips_fix (g_tom g) e b } }"

text \<open>The path through \<open>elf_getdata\<close> that reads a section of composite elements.\<close>

lemma getdata_path:
  assumes e: "get_elf st i = Some e" "e_scns e n = Some s" "s_data s = []"
    and t: "libelf_xlate_shtype (shdr_type (s_shdr s)) = t" "struct_def (e_class e) t = Some ms"
    and nz: "shdr_size (s_shdr s) \<noteq> 0"
    and gd: "elf_getdata st (Some (i, n)) None = Some (Some x, st')"
  obtains p cnt d where "e_kind e = ELF_K_ELF" "e_class e = ELFCLASS32 \<or> e_class e = ELFCLASS64"
    "e_version e = EV_CURRENT" "e_rawfile e = Some p"
    "cnt = shdr_size (s_shdr s) div of_nat (FSZ (e_class e) ms)" "unat cnt * FSZ (e_class e) ms = unat (shdr_size (s_shdr s))"
    "unat (shdr_offset (s_shdr s)) + unat (shdr_size (s_shdr s)) \<le> unat (e_rawsize e)"
    "unat (d_size (d_data d)) = unat cnt * sizeof_struct (e_class e) ms"
    "getdata_translate (snd (c_alloc st)) i n e t (shdr_offset (s_shdr s)) cnt d = Some (Some x, st')"
proof -
  let ?sz = "shdr_size (s_shdr s)" and ?off = "shdr_offset (s_shdr s)" and ?ec = "e_class e"
  have k: "e_kind e = ELF_K_ELF" and new: "getdata_new st i n = Some (Some x, st')"
    using gd e by (simp_all add: elf_getdata_def split: if_splits)
  have nb: "shdr_type (s_shdr s) \<noteq> SHT_NOBITS"
    using t by (auto simp: libelf_xlate_shtype_def)
  have v: "elf_type_valid t" using t(2) by (cases t) auto
  obtain p where p: "e_rawfile e = Some p" using new e by (cases "e_rawfile e") (simp_all add: getdata_new_def)
  have ec: "?ec = ELFCLASS32 \<or> ?ec = ELFCLASS64"
    using new e p by (simp add: getdata_new_def)
  have le: "?off \<le> e_rawsize e" "?sz \<le> e_rawsize e - ?off"
    using new e p ec nb by (auto simp: getdata_new_def Let_def not_less split: if_splits)
  have sized: "getdata_sized st i n e s t = Some (Some x, st')"
    using new e p ec nb t(1) by (auto simp: getdata_new_def Let_def split: if_splits)
  note ts = table_struct[OF t(2)]
  define cnt where "cnt = ?sz div of_nat (FSZ ?ec ms)"
  let ?d = "\<lparr>d_data = \<lparr>d_align = shdr_align (s_shdr s), d_buf = None, d_off = 0,
      d_size = of_nat (sizeof_struct ?ec ms) * cnt, d_type = t, d_version = e_version e\<rparr>, d_flags = 0\<rparr>"
  note eq = getdata_sized_eq[OF ec v refl refl _ refl, of cnt s st i n, unfolded ts[THEN conjunct1] ts[THEN conjunct2, THEN conjunct1]]
  note sz = sized[unfolded eq[OF cnt_def]]
  have g: "e_version e = EV_CURRENT" "FSZ ?ec ms \<noteq> 0" "?sz mod of_nat (FSZ ?ec ms) = 0"
    "cnt > 0 \<longrightarrow> of_nat (sizeof_struct ?ec ms) \<le> (- 1) div cnt"
    "getdata_translate (snd (c_alloc st)) i n e t ?off cnt ?d = Some (Some x, st')"
    using sz nb nz by (auto simp: not_less split: if_splits)
  have uf: "unat (of_nat (FSZ ?ec ms) :: u64) = FSZ ?ec ms"
    using fsize_le_64[of ?ec t] ts by (intro unat_of_nat_64) simp
  have us: "unat (of_nat (sizeof_struct ?ec ms) :: u64) = sizeof_struct ?ec ms"
    using msize_le_64[of ?ec t] ts by (intro unat_of_nat_64) simp
  have "unat ?sz mod FSZ ?ec ms = 0" using g(3) uf by (metis unat_mod unat_eq_zero)
  then have cf: "unat cnt * FSZ ?ec ms = unat ?sz"
    using uf by (simp add: cnt_def unat_div) (metis mod_0_imp_dvd dvd_div_mult_self)
  have "0 < cnt"
  proof -
    have "unat ?sz \<noteq> 0" using nz unat_eq_zero[of ?sz] by simp
    then have "unat cnt \<noteq> 0" using cf by (metis mult_is_0)
    then show ?thesis using unat_eq_zero[of cnt] word_gt_0[of cnt] by simp
  qed
  with g(4) have "of_nat (sizeof_struct ?ec ms) \<le> (- 1) div cnt" by simp
  from no_overflow_mult[OF \<open>0 < cnt\<close> this] have m: "unat (of_nat (sizeof_struct ?ec ms) * cnt) = unat cnt * sizeof_struct ?ec ms"
    unfolding us mult.commute[of "of_nat (sizeof_struct ?ec ms)" cnt] .
  have fit: "unat ?off + unat ?sz \<le> unat (e_rawsize e)"
    using le by (simp add: word_le_nat_alt unat_sub)
  show thesis
    by (rule that[of p cnt ?d]) (use k ec g p cf m fit in \<open>simp_all add: cnt_def\<close>)
qed

context gelf_codec
begin

lemma get_file:
  assumes e: "get_elf st i = Some e" "elf_inv st e" "raw_ok st e" "heap_fresh st"
    and s: "e_scns e n = Some s" "s_data s = []" "libelf_xlate_shtype (shdr_type (s_shdr s)) = g_type g"
    and gd: "elf_getdata st (Some (i, n)) None = Some (Some x, st')"
    and ndx: "0 \<le> sint ndx" "unat ndx < unat (shdr_size (s_shdr s)) div fsize_table (e_class e) (g_type g)"
  shows "\<exists>v. gelf_get g st' (Some x) ndx True = Some (Some v, st')
    \<and> file_elem g st e (unat (shdr_offset (s_shdr s)) + unat ndx * fsize_table (e_class e) (g_type g)) = Some v"
proof -
  let ?ec = "e_class e" and ?ms = "g_def g (e_class e)" and ?off = "shdr_offset (s_shdr s)"
  note ts = table_struct[OF g_def_some[of ?ec]]
  have nz: "shdr_size (s_shdr s) \<noteq> 0" using ndx(2) by auto
  obtain p cnt d where P: "e_kind e = ELF_K_ELF" "?ec = ELFCLASS32 \<or> ?ec = ELFCLASS64" "e_version e = EV_CURRENT"
    "e_rawfile e = Some p" "unat cnt * FSZ ?ec ?ms = unat (shdr_size (s_shdr s))"
    "unat ?off + unat (shdr_size (s_shdr s)) \<le> unat (e_rawsize e)"
    "unat (d_size (d_data d)) = unat cnt * sizeof_struct ?ec ?ms"
    "getdata_translate (snd (c_alloc st)) i n e (g_type g) ?off cnt d = Some (Some x, st')"
    by (rule getdata_path[OF e(1) s(1,2,3) g_def_some nz gd])
  have "window (heap st) p (unat (e_rawsize e))" using e(3) P(4) by (simp add: raw_ok_def)
  then have "window (heap st) (ptr_add p (unat ?off)) (unat cnt * FSZ ?ec ?ms)"
    by (rule window_sub) (use P(5,6) in simp)
  then obtain bs where bs: "mem_read (heap st) (ptr_add p (unat ?off)) (unat cnt * FSZ ?ec ?ms) = Some bs"
    "length bs = unat cnt * FSZ ?ec ?ms" by (rule window_readE)
  let ?sw = "e_byteorder e \<noteq> libelf_byteorder st" and ?host = "host_order st"
  have a: "get_elf (snd (c_alloc st)) i = Some e" "heap_fresh (snd (c_alloc st))"
    "mem_read (heap (snd (c_alloc st))) (ptr_add p (unat ?off)) (unat cnt * FSZ ?ec ?ms) = Some bs"
    "host_order (snd (c_alloc st)) = ?host" "libelf_byteorder (snd (c_alloc st)) = libelf_byteorder st"
    using e bs(1) by (simp_all add: host_order_def)
  from getdata_translate_contents[OF a(1,2) P(1) s(1) P(2) g_def_some P(4) a(3) P(7,8)] obtain b D st1 where
    x: "x = (i, n, False, 0)" and D: "d_data D = (d_data d)\<lparr>d_buf := Some b\<rparr>"
    and st': "st' = put_elf i (e\<lparr>e_scns := (e_scns e)(n \<mapsto> s\<lparr>s_data := s_data s @ [D]\<rparr>)\<rparr>) st1"
    and bo: "libelf_byteorder st1 = libelf_byteorder st"
    and rd: "mem_read (heap st1) b (unat cnt * sizeof_struct ?ec ?ms)
        = Some (concat (map (struct_tom ?host ?ec ?ms ?sw) (chunks (FSZ ?ec ?ms) (unat cnt) bs)))"
    using s(2) unfolding a(4,5) P(7) by auto
  let ?e' = "e\<lparr>e_scns := (e_scns e)(n \<mapsto> s\<lparr>s_data := s_data s @ [D]\<rparr>)\<rparr>"
  have fpos: "0 < FSZ ?ec ?ms" using ndx(2) ts by (cases "FSZ ?ec ?ms") auto
  have k: "unat ndx < unat cnt" using ndx(2) ts fpos unfolding P(5)[symmetric] by simp
  let ?q = "ptr_add b (unat ndx * sizeof_struct ?ec ?ms)"
  have m: "0 < sizeof_struct ?ec ?ms" by (rule struct_size_pos[OF g_def_some])
  have at: "elem_at st' (g_type g) x ndx ?e' ?q"
    unfolding elem_at_def x st'
    using s(2,3) D P(2,3,7) ndx(1) k m size[of ?ec]
    by (cases b) (auto simp: get_data_def get_scn_def scn_list_def)
  let ?w = "take (FSZ ?ec ?ms) (drop (unat ndx * FSZ ?ec ?ms) bs)"
  have rq: "mem_read (heap st') ?q (msize_table ?ec (g_type g)) = Some (struct_tom ?host ?ec ?ms ?sw ?w)"
    using converted_element[OF rd bs(2) k] by (simp add: st' size)
  have le: "unat ndx * FSZ ?ec ?ms + FSZ ?ec ?ms \<le> unat cnt * FSZ ?ec ?ms"
    using mult_le_mono1[of "Suc (unat ndx)" "unat cnt" "FSZ ?ec ?ms"] k by simp
  then have lw: "length ?w = FSZ ?ec ?ms" using bs(2) by simp
  have fs: "file_struct st e ?ec ?ms (unat ?off + unat ndx * FSZ ?ec ?ms) = Some (SWAP_MEMBERS ?sw (READ_MEMBERS ?host ?ec ?ms ?w))"
    using mem_read_sub[OF bs(1) le] P(4) by (simp add: file_struct_def)
  have ho: "host_order st' = ?host" using bo by (simp add: st' host_order_def)
  have fx: "mips_fix (g_tom g) ?e' = mips_fix (g_tom g) e" by (simp add: mips_fix_def libelf_is_mips64el_def fun_eq_iff cong: option.case_cong)
  have ok: "members_ok ?ec ?ms (SWAP_MEMBERS ?sw (READ_MEMBERS ?host ?ec ?ms ?w))"
    using lw by (simp add: SWAP_MEMBERS_ok READ_MEMBERS_ok)
  have val: "val (host_order st') ?e' (struct_tom ?host ?ec ?ms ?sw ?w)
     = file_elem g st e (unat ?off + unat ndx * FSZ ?ec ?ms)"
    unfolding val_def file_elem_def fs ho fx by (simp add: struct_tom_def struct_load_store[OF ok] Let_def)
  have "e_scn e \<noteq> RB_NULL" using e(2) s(1) by (auto simp: elf_inv_def scn_inv_def rb_keys_def)
  then have "libelf_is_mips64el ?e' \<noteq> None"
    using e(2) P(2) by (auto simp: libelf_is_mips64el_def elf_inv_def hdr_inv_def split: option.splits)
  then have "val (host_order st') ?e' (struct_tom ?host ?ec ?ms ?sw ?w) \<noteq> None"
    using P(2) lw by (intro val_total) (simp_all add: size length_struct_tom)
  then show ?thesis
    using at rq val ts by (auto simp: get_elem)
qed

end

section \<open>Properties\<close>

text \<open>
  C10. A symbol read through the library is the symbol in the file: after \<open>elf_getdata\<close> on a symbol table,
  \<open>gelf_getsym\<close> returns for every index of the table, and what it returns is entry \<open>ndx\<close> of the section in
  the file, decoded in the byte order of the file and widened from its class, for any file, host and header.
\<close>

theorem getsym_reads_file:
  assumes "get_elf st i = Some e" "elf_inv st e" "raw_ok st e" "heap_fresh st"
    and "e_scns e n = Some s" "s_data s = []" "libelf_xlate_shtype (shdr_type (s_shdr s)) = ELF_T_SYM"
    and "elf_getdata st (Some (i, n)) None = Some (Some x, st')"
    and "0 \<le> sint ndx" "unat ndx < unat (shdr_size (s_shdr s)) div fsize_table (e_class e) ELF_T_SYM"
  shows "\<exists>v. gelf_getsym st' (Some x) ndx True = Some (Some v, st')
    \<and> file_elem sym_type st e (unat (shdr_offset (s_shdr s)) + unat ndx * fsize_table (e_class e) ELF_T_SYM) = Some v"
  using sym.get_file[OF assms(1-6), of x st' ndx] assms(7-) by (simp add: gelf_getsym_def)

text \<open>A file of 112 bytes with two symbols behind its header.\<close>

definition two_syms_elf :: Elf where
  "two_syms_elf = (data_elf (data_scn SHT_SYMTAB 64 48))\<lparr>e_rawsize := 112\<rparr>"

definition two_syms_state :: libelf_state where
  "two_syms_state = put_elf 0 two_syms_elf (sample_state (replicate 64 0 @ map of_nat [0..<48]))"

lemma two_syms_getdata:
  "map_option fst (elf_getdata two_syms_state (Some (0, 1)) None) = Some (Some (0, 1, False, 0))"
  by code_simp

theorem getsym_reads_file_witness:
  "\<exists>st' v. gelf_getsym st' (Some (0, 1, False, 0)) 1 True = Some (Some v, st')
    \<and> file_elem sym_type two_syms_state two_syms_elf 88 = Some v"
proof -
  obtain st' where gd: "elf_getdata two_syms_state (Some (0, 1)) None = Some (Some (0, 1, False, 0), st')"
    using two_syms_getdata by auto
  let ?s = "data_scn SHT_SYMTAB 64 48"
  have e: "get_elf two_syms_state 0 = Some two_syms_elf" "elf_inv two_syms_state two_syms_elf"
    "raw_ok two_syms_state two_syms_elf" "heap_fresh two_syms_state" "e_scns two_syms_elf 1 = Some ?s"
    by (simp_all add: two_syms_state_def two_syms_elf_def data_elf_def table_elf_def reading_elf_def initial_elf_def
        elf_inv_def raw_ok_def scn_inv_def hdr_inv_def rb_inv_def rb_keys_def sample_state_def window_def mem_read_def
        slice_at_def heap_fresh_def put_elf_def get_elf_def data_scn_def new_scn_def)
  have s: "s_data ?s = []" "libelf_xlate_shtype (shdr_type (s_shdr ?s)) = ELF_T_SYM" "shdr_size (s_shdr ?s) = 48"
    "shdr_offset (s_shdr ?s) = 64"
    by (simp_all add: data_scn_def new_scn_def libelf_xlate_shtype_def)
  have c: "fsize_table (e_class two_syms_elf) ELF_T_SYM = 24"
    by (simp add: two_syms_elf_def data_elf_def table_elf_def reading_elf_def layout_simps)
  from getsym_reads_file[OF e s(1,2) gd, of 1] show ?thesis
    by (auto simp: s c)
qed

end
