(* ===== verification/Gelf_Headers.thy ===== *)
theory Gelf_Headers
  imports Gelf_Reloc
begin

text \<open>
  The headers through the class-independent interface: \<open>gelf_ehdr.c\<close>, \<open>gelf_phdr.c\<close>, \<open>gelf_shdr.c\<close>. A returned
  pointer to a header of the descriptor is the truth value of its parts (\<open>libelf_ehdr\<close>, \<open>libelf_getphdr\<close>); the
  header stored through the argument \<open>d\<close> is a value, and \<open>dst\<close> says whether that argument is a pointer.
\<close>

section \<open>The ELF header: \<open>gelf_ehdr.c\<close>\<close>

definition elf32_getehdr where "elf32_getehdr st e = libelf_ehdr st e ELFCLASS32 False"
definition elf64_getehdr where "elf64_getehdr st e = libelf_ehdr st e ELFCLASS64 False"
definition elf32_newehdr where "elf32_newehdr st e = libelf_ehdr st e ELFCLASS32 True"
definition elf64_newehdr where "elf64_newehdr st e = libelf_ehdr st e ELFCLASS64 True"

definition gelf_newehdr :: "libelf_state \<Rightarrow> nat option \<Rightarrow> int \<Rightarrow> (bool \<times> libelf_state) option" where
  "gelf_newehdr st e ec =
     (if e \<noteq> None \<and> (ec = ELFCLASS32 \<or> ec = ELFCLASS64) then libelf_ehdr st e ec True
      else Some (False, set_error ELF_E_ARGUMENT 0 st))"

definition widen_ehdr :: "Elf32_Ehdr \<Rightarrow> Elf64_Ehdr" where
  "widen_ehdr h = \<lparr>e_ident = e_ident32 h, e_type = e_type32 h, e_machine = e_machine32 h, eh_version = eh_version32 h,
     e_entry = ucast (e_entry32 h), e_phoff = ucast (e_phoff32 h), e_shoff = ucast (e_shoff32 h),
     eh_flags = eh_flags32 h, e_ehsize = e_ehsize32 h, e_phentsize = e_phentsize32 h, e_phnum = e_phnum32 h,
     e_shentsize = e_shentsize32 h, e_shnum = e_shnum32 h, e_shstrndx = e_shstrndx32 h\<rparr>"

definition narrow_ehdr :: "Elf64_Ehdr \<Rightarrow> Elf32_Ehdr \<Rightarrow> Elf32_Ehdr \<times> bool" where
  "narrow_ehdr s h =
     COPY (\<lambda>h. h\<lparr>eh_flags32 := eh_flags s, e_ehsize32 := e_ehsize s, e_phentsize32 := e_phentsize s,
       e_phnum32 := e_phnum s, e_shentsize32 := e_shentsize s, e_shnum32 := e_shnum s, e_shstrndx32 := e_shstrndx s\<rparr>)
     (COPY_U32 (e_shoff s) (\<lambda>v h. h\<lparr>e_shoff32 := v\<rparr>)
     (COPY_U32 (e_phoff s) (\<lambda>v h. h\<lparr>e_phoff32 := v\<rparr>)
     (COPY_U32 (e_entry s) (\<lambda>v h. h\<lparr>e_entry32 := v\<rparr>)
     (h\<lparr>e_ident32 := e_ident s, e_type32 := e_type s, e_machine32 := e_machine s, eh_version32 := eh_version s\<rparr>, True))))"

definition gelf_getehdr :: "libelf_state \<Rightarrow> nat option \<Rightarrow> bool \<Rightarrow> (Elf64_Ehdr option \<times> libelf_state) option" where
  "gelf_getehdr st e dst =
     (case e of
        None \<Rightarrow> Some (None, set_error ELF_E_ARGUMENT 0 st)
      | Some i \<Rightarrow> do {
          r \<leftarrow> get_elf st i;
          if \<not> dst \<or> (e_class r \<noteq> ELFCLASS32 \<and> e_class r \<noteq> ELFCLASS64)
          then Some (None, set_error ELF_E_ARGUMENT 0 st)
          else do {
            (ok, st) \<leftarrow> libelf_ehdr st e (e_class r) False;
            if \<not> ok then Some (None, st)
            else do {
              r \<leftarrow> get_elf st i;
              eh \<leftarrow> e_ehdr r;
              Some (Some (case eh of Eh32 h \<Rightarrow> widen_ehdr h | Eh64 h \<Rightarrow> h), st) } } })"

definition gelf_update_ehdr :: "libelf_state \<Rightarrow> nat option \<Rightarrow> Elf64_Ehdr option \<Rightarrow> (bool \<times> libelf_state) option" where
  "gelf_update_ehdr st e s =
     (case (e, s) of
        (Some i, Some s) \<Rightarrow> do {
          r \<leftarrow> get_elf st i;
          if \<not> elf_class_known r then Some (False, set_error ELF_E_ARGUMENT 0 st)
          else if e_cmd r = ELF_C_READ then Some (False, set_error ELF_E_MODE 0 st)
          else do {
            (ok, st) \<leftarrow> libelf_ehdr st e (e_class r) False;
            if \<not> ok then Some (False, st)
            else do {
              (f, st) \<leftarrow> elf_flagehdr st e ELF_C_SET ELF_F_DIRTY;
              r \<leftarrow> get_elf st i;
              eh \<leftarrow> e_ehdr r;
              case eh of
                Eh64 h \<Rightarrow> Some (True, put_elf i (r\<lparr>e_ehdr := Some (Eh64 s)\<rparr>) st)
              | Eh32 h \<Rightarrow>
                  (let (h, ok) = narrow_ehdr s h;
                       st = put_elf i (r\<lparr>e_ehdr := Some (Eh32 h)\<rparr>) st
                   in Some (ok, if ok then st else set_error ELF_E_RANGE 0 st)) } } }
      | _ \<Rightarrow> Some (False, set_error ELF_E_ARGUMENT 0 st))"

section \<open>Program headers: \<open>gelf_phdr.c\<close>\<close>

definition elf32_getphdr where "elf32_getphdr st e = libelf_getphdr st e ELFCLASS32"
definition elf64_getphdr where "elf64_getphdr st e = libelf_getphdr st e ELFCLASS64"
definition elf32_newphdr where "elf32_newphdr st e count = libelf_newphdr st e ELFCLASS32 count"
definition elf64_newphdr where "elf64_newphdr st e count = libelf_newphdr st e ELFCLASS64 count"

definition gelf_newphdr :: "libelf_state \<Rightarrow> nat option \<Rightarrow> u64 \<Rightarrow> (bool \<times> libelf_state) option" where
  "gelf_newphdr st e count =
     (case e of None \<Rightarrow> Some (False, set_error ELF_E_ARGUMENT 0 st)
      | Some i \<Rightarrow> do { r \<leftarrow> get_elf st i; libelf_newphdr st e (e_class r) count })"

definition widen_phdr :: "Elf32_Phdr \<Rightarrow> Elf64_Phdr" where
  "widen_phdr p = \<lparr>p_type = p_type32 p, p_flags = p_flags32 p, p_offset = ucast (p_offset32 p), p_vaddr = ucast (p_vaddr32 p),
     p_paddr = ucast (p_paddr32 p), p_filesz = ucast (p_filesz32 p), p_memsz = ucast (p_memsz32 p),
     p_align = ucast (p_align32 p)\<rparr>"

definition narrow_phdr :: "Elf64_Phdr \<Rightarrow> Elf32_Phdr \<Rightarrow> Elf32_Phdr \<times> bool" where
  "narrow_phdr s p =
     COPY_U32 (p_align s) (\<lambda>v p. p\<lparr>p_align32 := v\<rparr>)
     (COPY_U32 (p_memsz s) (\<lambda>v p. p\<lparr>p_memsz32 := v\<rparr>)
     (COPY_U32 (p_filesz s) (\<lambda>v p. p\<lparr>p_filesz32 := v\<rparr>)
     (COPY_U32 (p_paddr s) (\<lambda>v p. p\<lparr>p_paddr32 := v\<rparr>)
     (COPY_U32 (p_vaddr s) (\<lambda>v p. p\<lparr>p_vaddr32 := v\<rparr>)
     (COPY_U32 (p_offset s) (\<lambda>v p. p\<lparr>p_offset32 := v\<rparr>)
     (p\<lparr>p_type32 := p_type s, p_flags32 := p_flags s\<rparr>, True))))))"

text \<open>Entry \<open>k\<close> of a table; \<open>None\<close> outside of it.\<close>

definition phdr_read :: "phdrs \<Rightarrow> nat \<Rightarrow> Elf64_Phdr option" where
  "phdr_read t k =
     (case t of
        Ph32 ps \<Rightarrow> if k < length ps then Some (widen_phdr (ps ! k)) else None
      | Ph64 ps \<Rightarrow> if k < length ps then Some (ps ! k) else None)"

definition phdr_write :: "phdrs \<Rightarrow> nat \<Rightarrow> Elf64_Phdr \<Rightarrow> (phdrs \<times> bool) option" where
  "phdr_write t k s =
     (case t of
        Ph32 ps \<Rightarrow> if k < length ps then (let (p, ok) = narrow_phdr s (ps ! k) in Some (Ph32 (ps[k := p]), ok)) else None
      | Ph64 ps \<Rightarrow> if k < length ps then Some (Ph64 (ps[k := s]), True) else None)"

definition gelf_getphdr :: "libelf_state \<Rightarrow> nat option \<Rightarrow> u32 \<Rightarrow> bool \<Rightarrow> (Elf64_Phdr option \<times> libelf_state) option" where
  "gelf_getphdr st e index dst =
     (case e of
        None \<Rightarrow> Some (None, set_error ELF_E_ARGUMENT 0 st)
      | Some i \<Rightarrow> do {
          r \<leftarrow> get_elf st i;
          if \<not> dst \<or> \<not> elf_class_known r \<or> sint index < 0 then Some (None, set_error ELF_E_ARGUMENT 0 st)
          else do {
            (res, phnum, st) \<leftarrow> elf_getphdrnum st e;
            if res < 0 then Some (None, set_error ELF_E_ARGUMENT 0 st)
            else do {
              phnum \<leftarrow> phnum;
              if scast index \<ge> phnum then Some (None, set_error ELF_E_ARGUMENT 0 st)
              else do {
                (ok, st) \<leftarrow> libelf_ehdr st e (e_class r) False;
                if \<not> ok then Some (None, st)
                else do {
                  (ok, st) \<leftarrow> libelf_getphdr st e (e_class r);
                  if \<not> ok then Some (None, st)
                  else do {
                    r \<leftarrow> get_elf st i;
                    t \<leftarrow> e_phdr r;
                    p \<leftarrow> phdr_read t (unat index);
                    Some (Some p, st) } } } } } })"

definition gelf_update_phdr :: "libelf_state \<Rightarrow> nat option \<Rightarrow> u32 \<Rightarrow> Elf64_Phdr option \<Rightarrow> (bool \<times> libelf_state) option" where
  "gelf_update_phdr st e ndx s =
     (case (e, s) of
        (Some i, Some s) \<Rightarrow> do {
          r \<leftarrow> get_elf st i;
          if \<not> elf_class_known r then Some (False, set_error ELF_E_ARGUMENT 0 st)
          else do {
            (res, phnum, st) \<leftarrow> elf_getphdrnum st e;
            if res < 0 then Some (False, set_error ELF_E_ARGUMENT 0 st)
            else if e_cmd r = ELF_C_READ then Some (False, set_error ELF_E_MODE 0 st)
            else do {
              (ok, st) \<leftarrow> libelf_ehdr st e (e_class r) False;
              if \<not> ok then Some (False, st)
              else do {
                phnum \<leftarrow> phnum;
                if sint ndx < 0 \<or> scast ndx > phnum then Some (False, set_error ELF_E_ARGUMENT 0 st)
                else do {
                  (f, st) \<leftarrow> elf_flagphdr st e ELF_C_SET ELF_F_DIRTY;
                  r \<leftarrow> get_elf st i;
                  t \<leftarrow> e_phdr r;
                  (t, ok) \<leftarrow> phdr_write t (unat ndx) s;
                  let st = put_elf i (r\<lparr>e_phdr := Some t\<rparr>) st;
                  Some (ok, if ok then st else set_error ELF_E_RANGE 0 st) } } } } }
      | _ \<Rightarrow> Some (False, set_error ELF_E_ARGUMENT 0 st))"

section \<open>Section headers: \<open>gelf_shdr.c\<close>\<close>

definition elf32_getshdr where "elf32_getshdr st s = libelf_getshdr st s ELFCLASS32"
definition elf64_getshdr where "elf64_getshdr st s = libelf_getshdr st s ELFCLASS64"

definition widen_shdr :: "Elf32_Shdr \<Rightarrow> Elf64_Shdr" where
  "widen_shdr s = \<lparr>sh_name = sh_name32 s, sh_type = sh_type32 s, sh_flags = ucast (sh_flags32 s), sh_addr = ucast (sh_addr32 s),
     sh_offset = ucast (sh_offset32 s), sh_size = ucast (sh_size32 s), sh_link = sh_link32 s, sh_info = sh_info32 s,
     sh_addralign = ucast (sh_addralign32 s), sh_entsize = ucast (sh_entsize32 s)\<rparr>"

definition narrow_shdr :: "Elf64_Shdr \<Rightarrow> Elf32_Shdr \<Rightarrow> Elf32_Shdr \<times> bool" where
  "narrow_shdr s h =
     COPY_U32 (sh_entsize s) (\<lambda>v h. h\<lparr>sh_entsize32 := v\<rparr>)
     (COPY_U32 (sh_addralign s) (\<lambda>v h. h\<lparr>sh_addralign32 := v\<rparr>)
     (COPY (\<lambda>h. h\<lparr>sh_link32 := sh_link s, sh_info32 := sh_info s\<rparr>)
     (COPY_U32 (sh_size s) (\<lambda>v h. h\<lparr>sh_size32 := v\<rparr>)
     (COPY_U32 (sh_offset s) (\<lambda>v h. h\<lparr>sh_offset32 := v\<rparr>)
     (COPY_U32 (sh_addr s) (\<lambda>v h. h\<lparr>sh_addr32 := v\<rparr>)
     (COPY_U32 (sh_flags s) (\<lambda>v h. h\<lparr>sh_flags32 := v\<rparr>)
     (h\<lparr>sh_name32 := sh_name s, sh_type32 := sh_type s\<rparr>, True)))))))"

definition gelf_getshdr :: "libelf_state \<Rightarrow> (nat \<times> nat) option \<Rightarrow> bool \<Rightarrow> (Elf64_Shdr option \<times> libelf_state) option" where
  "gelf_getshdr st s dst =
     (if \<not> dst then Some (None, set_error ELF_E_ARGUMENT 0 st)
      else do {
        (sh, st) \<leftarrow> libelf_getshdr st s ELFCLASSNONE;
        case sh of
          None \<Rightarrow> Some (None, st)
        | Some sh \<Rightarrow> do {
            (i, n) \<leftarrow> s;
            e \<leftarrow> get_elf st i;
            c_assert (e_class e = ELFCLASS32 \<or> e_class e = ELFCLASS64);
            Some (Some (case sh of Sh32 h \<Rightarrow> widen_shdr h | Sh64 h \<Rightarrow> h), st) } })"

definition gelf_update_shdr ::
  "libelf_state \<Rightarrow> (nat \<times> nat) option \<Rightarrow> Elf64_Shdr option \<Rightarrow> (bool \<times> libelf_state) option" where
  "gelf_update_shdr st scn s =
     (case (scn, s) of
        (Some (i, n), Some s) \<Rightarrow> do {
          e \<leftarrow> get_elf st i;
          if \<not> elf_class_known e then Some (False, set_error ELF_E_ARGUMENT 0 st)
          else if e_cmd e = ELF_C_READ then Some (False, set_error ELF_E_MODE 0 st)
          else do {
            sc \<leftarrow> get_scn st i n;
            let (r, sc, st) = elf_flagscn st (Some sc) ELF_C_SET ELF_F_DIRTY;
            sc \<leftarrow> sc;
            case s_shdr sc of
              Sh64 h \<Rightarrow> do {
                st \<leftarrow> put_scn i n (sc\<lparr>s_shdr := Sh64 s\<rparr>) st;
                Some (True, st) }
            | Sh32 h \<Rightarrow> do {
                let (h, ok) = narrow_shdr s h;
                st \<leftarrow> put_scn i n (sc\<lparr>s_shdr := Sh32 h\<rparr>) st;
                Some (ok, if ok then st else set_error ELF_E_RANGE 0 st) } } }
      | _ \<Rightarrow> Some (False, set_error ELF_E_ARGUMENT 0 st))"

section \<open>Narrowing and widening\<close>

text \<open>
  The contract of a header type: what was narrowed without a range error widens to the value given.
\<close>

locale header_codec =
  fixes widen :: "'a \<Rightarrow> 'b" and narrow :: "'b \<Rightarrow> 'a \<Rightarrow> 'a \<times> bool"
  assumes widen_narrow: "narrow s a = (a', True) \<Longrightarrow> widen a' = s"
begin

lemma stored: "snd (narrow s a) \<Longrightarrow> widen (fst (narrow s a)) = s"
  using widen_narrow[of s a "fst (narrow s a)"] by (simp add: prod_eq_iff)

end

interpretation ehdr: header_codec widen_ehdr narrow_ehdr
  by unfold_locales (auto simp: widen_ehdr_def narrow_ehdr_def copy_ok widen_u32)

interpretation phdr: header_codec widen_phdr narrow_phdr
  by unfold_locales (auto simp: widen_phdr_def narrow_phdr_def copy_ok widen_u32)

interpretation shdr: header_codec widen_shdr narrow_shdr
  by unfold_locales (auto simp: widen_shdr_def narrow_shdr_def copy_ok widen_u32)
section \<open>Calls on a descriptor whose header is loaded\<close>

lemma flagelf_dirty:
  assumes "get_elf st i = Some e" "e_kind e = ELF_K_ELF"
  shows "\<exists>f. elf_flagelf st (Some i) ELF_C_SET ELF_F_DIRTY =
    Some (f, put_elf i (e\<lparr>e_flags := e_flags e OR ELF_F_DIRTY\<rparr>) st)"
  using assms by (simp add: elf_flagelf_def flag_update_def Let_def)

lemma flagehdr_dirty:
  assumes "get_elf st i = Some e" "elf_class_known e" "e_ehdr e \<noteq> None"
  shows "\<exists>f. elf_flagehdr st (Some i) ELF_C_SET ELF_F_DIRTY =
    Some (f, put_elf i (e\<lparr>e_flags := e_flags e OR ELF_F_DIRTY\<rparr>) st)"
  using assms flagelf_dirty[OF assms(1)] by (auto simp: elf_flagehdr_def elf_class_known_def)

lemma flagphdr_dirty:
  assumes "get_elf st i = Some e" "elf_class_known e" "e_phdr e \<noteq> None"
  shows "\<exists>f. elf_flagphdr st (Some i) ELF_C_SET ELF_F_DIRTY =
    Some (f, put_elf i (e\<lparr>e_flags := e_flags e OR ELF_F_DIRTY\<rparr>) st)"
  using assms flagelf_dirty[OF assms(1)] by (auto simp: elf_flagphdr_def elf_class_known_def)

lemma ehdr_loaded:
  assumes "get_elf st i = Some e" "elf_class_known e" "e_ehdr e \<noteq> None" "e_version e = EV_CURRENT"
  shows "libelf_ehdr st (Some i) (e_class e) allocate = Some (True, st)"
  using ehdr_cached[OF assms(1,3) _ assms(4)] assms(2) put_elf_same[OF assms(1)]
  by (simp add: elf_class_known_def)

lemma phdrnum_loaded:
  assumes "get_elf st i = Some e" "elf_class_known e" "e_ehdr e \<noteq> None" "e_version e = EV_CURRENT"
  shows "elf_getphdrnum st (Some i) = Some (0, Some (e_nphdr e), st)"
  using assms ehdr_loaded[OF assms]
  by (simp add: elf_getphdrnum_def libelf_getphdrnum_def libelf_getcount_def)

lemma phdr_loaded:
  assumes "get_elf st i = Some e" "elf_class_known e" "e_phdr e \<noteq> None"
  shows "libelf_getphdr st (Some i) (e_class e) = Some (True, st)"
  using assms by (auto simp: libelf_getphdr_def elf_class_known_def c_assert_def)

primrec phdrs_length :: "phdrs \<Rightarrow> nat" where
  "phdrs_length (Ph32 ps) = length ps" | "phdrs_length (Ph64 ps) = length ps"

text \<open>A descriptor with its header and its program header table in memory.\<close>

definition phdrs_there :: "libelf_state \<Rightarrow> nat \<Rightarrow> Elf \<Rightarrow> phdrs \<Rightarrow> bool" where
  "phdrs_there st i e t \<longleftrightarrow> get_elf st i = Some e \<and> elf_class_known e \<and> e_ehdr e \<noteq> None \<and> e_version e = EV_CURRENT
     \<and> e_phdr e = Some t \<and> phdrs_length t = unat (e_nphdr e)"

lemma getphdr_loaded:
  assumes "phdrs_there st i e t"
  shows "gelf_getphdr st (Some i) m True =
    (if sint m < 0 \<or> phdrs_length t \<le> unat m then Some (None, set_error ELF_E_ARGUMENT 0 st)
     else map_option (\<lambda>p. (Some p, st)) (phdr_read t (unat m)))"
proof -
  note t = assms[unfolded phdrs_there_def]
  have cmp: "scast m \<ge> e_nphdr e \<longleftrightarrow> phdrs_length t \<le> unat m" if "0 \<le> sint m"
    using t scast_index[OF that] by (simp add: word_le_nat_alt)
  show ?thesis
    using t phdrnum_loaded[of st i e] ehdr_loaded[of st i e False] phdr_loaded[of st i e] cmp
    by (auto simp: gelf_getphdr_def map_option_case split: option.splits)
qed

lemma update_phdr_loaded:
  assumes "phdrs_there st i e t" "e_cmd e \<noteq> ELF_C_READ"
  shows "gelf_update_phdr st (Some i) ndx (Some s) =
    (if sint ndx < 0 \<or> phdrs_length t < unat ndx then Some (False, set_error ELF_E_ARGUMENT 0 st)
     else map_option (\<lambda>(t, ok). let st = put_elf i (e\<lparr>e_flags := e_flags e OR ELF_F_DIRTY, e_phdr := Some t\<rparr>) st
       in (ok, if ok then st else set_error ELF_E_RANGE 0 st)) (phdr_write t (unat ndx) s))"
proof -
  note t = assms(1)[unfolded phdrs_there_def]
  have cmp: "scast ndx > e_nphdr e \<longleftrightarrow> phdrs_length t < unat ndx" if "0 \<le> sint ndx"
    using t scast_index[OF that] by (simp add: word_less_nat_alt)
  obtain f where f: "elf_flagphdr st (Some i) ELF_C_SET ELF_F_DIRTY =
    Some (f, put_elf i (e\<lparr>e_flags := e_flags e OR ELF_F_DIRTY\<rparr>) st)"
    using flagphdr_dirty[of st i e] t by auto
  show ?thesis
    using t phdrnum_loaded[of st i e] ehdr_loaded[of st i e False] cmp f assms(2)
    by (auto simp: gelf_update_phdr_def map_option_case Let_def split: option.splits)
qed

lemma phdr_write_some:
  "k < phdrs_length t \<Longrightarrow> \<exists>t' ok. phdr_write t k s = Some (t', ok)"
  "phdrs_length t \<le> k \<Longrightarrow> phdr_write t k s = None"
  by (cases t; auto simp: phdr_write_def case_prod_unfold Let_def)+

lemma phdr_write_read:
  "phdr_write t k s = Some (t', ok) \<Longrightarrow> phdrs_length t' = phdrs_length t"
  "phdr_write t k s = Some (t', True) \<Longrightarrow> phdr_read t' m = (if m = k then Some s else phdr_read t m)"
  using phdr.widen_narrow
  by (cases t; auto simp: phdr_write_def phdr_read_def case_prod_unfold Let_def nth_list_update prod_eq_iff split: if_splits)+
section \<open>Properties\<close>

text \<open>
  C23. A header stored with \<open>gelf_update_ehdr\<close> is what \<open>gelf_getehdr\<close> returns: the 32-bit header loses nothing
  when the call succeeds, and the descriptor is marked dirty.
\<close>

theorem update_ehdr_then_get:
  assumes e: "get_elf st i = Some e" "elf_inv st e"
    and up: "gelf_update_ehdr st (Some i) (Some s) = Some (True, st')"
  shows "gelf_getehdr st' (Some i) True = Some (Some s, st')
    \<and> (\<exists>e'. get_elf st' i = Some e' \<and> e_flags e' AND ELF_F_DIRTY = ELF_F_DIRTY)"
proof -
  have k: "elf_class_known e" "e_cmd e \<noteq> ELF_C_READ"
    using up e(1) by (auto simp: gelf_update_ehdr_def split: if_splits)
  then have ec: "e_class e = ELFCLASS32 \<or> e_class e = ELFCLASS64" by (simp add: elf_class_known_def)
  from libelf_ehdr_ok[OF e ec, of False] obtain b st1 e1 where
    r: "libelf_ehdr st (Some i) (e_class e) False = Some (b, st1)" "get_elf st1 i = Some e1" "elf_inv st1 e1"
      "same_file e e1" "b \<longrightarrow> e_ehdr e1 \<noteq> None \<and> e_class e1 = e_class e \<and> e_version e = EV_CURRENT"
    unfolding call_ok_def by (elim exE conjE) (rule that, assumption+, simp)
  have b using up e(1) k r(1) by (cases b) (simp_all add: gelf_update_ehdr_def)
  then have h: "e_ehdr e1 \<noteq> None" "elf_class_known e1" "e_version e1 = EV_CURRENT"
    using r k(1) by (auto simp: same_file_def elf_class_known_def)
  obtain eh where eh: "e_ehdr e1 = Some eh" using h(1) by blast
  obtain f where f: "elf_flagehdr st1 (Some i) ELF_C_SET ELF_F_DIRTY =
      Some (f, put_elf i (e1\<lparr>e_flags := e_flags e1 OR ELF_F_DIRTY\<rparr>) st1)"
    using flagehdr_dirty[OF r(2) h(2,1)] by blast
  let ?e2 = "\<lambda>eh. e1\<lparr>e_flags := e_flags e1 OR ELF_F_DIRTY, e_ehdr := Some eh\<rparr>"
  let ?new = "case eh of Eh64 h \<Rightarrow> Eh64 s | Eh32 h \<Rightarrow> Eh32 (fst (narrow_ehdr s h))"
  have st': "st' = put_elf i (?e2 ?new) st1" "\<And>h. eh = Eh32 h \<Longrightarrow> snd (narrow_ehdr s h)"
    using up e(1) k r(1,2) \<open>b\<close> f eh
    by (auto simp: gelf_update_ehdr_def Let_def case_prod_unfold split: ehdr.splits if_splits)
  have g: "get_elf st' i = Some (?e2 ?new)" by (simp add: st'(1))
  have w: "(case ?new of Eh32 h \<Rightarrow> widen_ehdr h | Eh64 h \<Rightarrow> h) = s"
    using st'(2) ehdr.stored by (cases eh) auto
  have "libelf_ehdr st' (Some i) (e_class (?e2 ?new)) False = Some (True, st')"
    by (rule ehdr_loaded[OF g]) (use h in \<open>auto simp: elf_class_known_def\<close>)
  then have "gelf_getehdr st' (Some i) True = Some (Some s, st')"
    using g w h(2) by (auto simp: gelf_getehdr_def elf_class_known_def)
  moreover have "(e_flags e1 OR ELF_F_DIRTY) AND ELF_F_DIRTY = ELF_F_DIRTY"
    by (rule bit_word_eqI) (auto simp: bit_simps)
  ultimately show ?thesis using g by auto
qed

theorem update_ehdr_then_get_witness:
  "\<exists>st st' s. gelf_update_ehdr st (Some 0) (Some s) = Some (True, st') \<and> gelf_getehdr st' (Some 0) True = Some (Some s, st')"
proof -
  let ?st = "put_elf 0 numbered_elf (reading_state [])"
  have e: "get_elf ?st 0 = Some numbered_elf" "elf_inv ?st numbered_elf" by (simp_all add: numbered_elf_inv)
  have "map_option fst (gelf_update_ehdr ?st (Some 0) (Some reserved_header)) = Some True" by code_simp
  then obtain st' where up: "gelf_update_ehdr ?st (Some 0) (Some reserved_header) = Some (True, st')" by auto
  from update_ehdr_then_get[OF e up] up show ?thesis by blast
qed

text \<open>
  C32. Inside the program header table an entry stored with \<open>gelf_update_phdr\<close> is read back by \<open>gelf_getphdr\<close> and
  the other entries keep their values, in both classes.
\<close>

theorem update_phdr_then_get:
  assumes "phdrs_there st i e t" "unat ndx < phdrs_length t"
    and "gelf_update_phdr st (Some i) ndx (Some s) = Some (True, st')"
  shows "map_option fst (gelf_getphdr st' (Some i) m True) =
    (if m = ndx then Some (Some s) else map_option fst (gelf_getphdr st (Some i) m True))"
proof -
  have c: "e_cmd e \<noteq> ELF_C_READ"
    using assms phdrnum_loaded[of st i e]
    by (auto simp: gelf_update_phdr_def phdrs_there_def)
  obtain t' ok where w: "phdr_write t (unat ndx) s = Some (t', ok)" using phdr_write_some(1)[OF assms(2)] by blast
  let ?e = "e\<lparr>e_flags := e_flags e OR ELF_F_DIRTY, e_phdr := Some t'\<rparr>"
  have st': "st' = put_elf i ?e st" "ok" "0 \<le> sint ndx"
    using assms(3) unfolding update_phdr_loaded[OF assms(1) c] w by (auto simp: Let_def split: if_splits)
  have there: "phdrs_there st' i ?e t'"
    using assms(1) phdr_write_read(1)[OF w] by (auto simp: st'(1) phdrs_there_def elf_class_known_def)
  note rd = phdr_write_read(2)[OF w[unfolded eqTrueI[OF st'(2)]]]
  have "unat m = unat ndx \<longleftrightarrow> m = ndx" by (simp add: word_unat_eq_iff)
  then show ?thesis
    using assms(2) st'(3) unfolding getphdr_loaded[OF there] getphdr_loaded[OF assms(1)] rd phdr_write_read(1)[OF w]
    by (auto simp: option.map_comp comp_def)
qed

definition phdr_elf :: Elf where
  "phdr_elf = numbered_elf\<lparr>e_nphdr := 2, e_phdr := Some (zero_phdrs ELFCLASS64 2)\<rparr>"

lemma phdr_elf_there: "phdrs_there (put_elf 0 phdr_elf (reading_state [])) 0 phdr_elf (zero_phdrs ELFCLASS64 2)"
  by (simp add: phdrs_there_def phdr_elf_def numbered_elf_def reading_elf_def initial_elf_def elf_class_known_def zero_phdrs_def)

definition sample_phdr :: Elf64_Phdr where
  "sample_phdr = \<lparr>p_type = 1, p_flags = 5, p_offset = 0, p_vaddr = 0x400000, p_paddr = 0x400000, p_filesz = 64,
     p_memsz = 64, p_align = 4096\<rparr>"

theorem update_phdr_then_get_witness:
  "\<exists>st'. map_option fst (gelf_getphdr st' (Some 0) 1 True) = Some (Some sample_phdr)"
proof -
  let ?st = "put_elf 0 phdr_elf (reading_state [])"
  have n: "unat (1 :: u32) < phdrs_length (zero_phdrs ELFCLASS64 2)" by (simp add: zero_phdrs_def)
  have "map_option fst (gelf_update_phdr ?st (Some 0) 1 (Some sample_phdr)) = Some True" by code_simp
  then obtain st' where "gelf_update_phdr ?st (Some 0) 1 (Some sample_phdr) = Some (True, st')" by auto
  from update_phdr_then_get[OF phdr_elf_there n this, of 1] show ?thesis by auto
qed

text \<open>
  C36. The bound of \<open>gelf_update_phdr\<close> is off by one: the index equal to the number of entries, which
  \<open>gelf_getphdr\<close> rejects, is accepted, and the call writes behind the table.
\<close>

theorem update_phdr_past_end:
  assumes "phdrs_there st i e t" "e_cmd e \<noteq> ELF_C_READ" "0 \<le> sint ndx" "unat ndx = phdrs_length t"
  shows "gelf_update_phdr st (Some i) ndx (Some s) = None
    \<and> gelf_getphdr st (Some i) ndx True = Some (None, set_error ELF_E_ARGUMENT 0 st)"
  using assms phdr_write_some(2)[of t "unat ndx" s]
  by (simp add: update_phdr_loaded[OF assms(1,2)] getphdr_loaded[OF assms(1)])

theorem update_phdr_past_end_witness:
  "gelf_update_phdr (put_elf 0 phdr_elf (reading_state [])) (Some 0) 2 (Some sample_phdr) = None"
proof -
  have "e_cmd phdr_elf \<noteq> ELF_C_READ" by (simp add: phdr_elf_def numbered_elf_def)
  moreover have "unat (2 :: u32) = phdrs_length (zero_phdrs ELFCLASS64 2)" by (simp add: zero_phdrs_def)
  ultimately show ?thesis
    using update_phdr_past_end[OF phdr_elf_there, of 2] by simp
qed

text \<open>
  A section header stored with \<open>gelf_update_shdr\<close> is what \<open>gelf_getshdr\<close> returns for that section, and the
  headers of the other sections of the descriptor stay as they are.
\<close>

theorem update_shdr_then_get:
  assumes "gelf_update_shdr st (Some (i, n)) (Some s) = Some (True, st')"
  shows "map_option fst (gelf_getshdr st' (Some (i, m)) True) =
    (if m = n then Some (Some s) else map_option fst (gelf_getshdr st (Some (i, m)) True))"
proof -
  obtain e where e: "get_elf st i = Some e" "elf_class_known e"
    using assms by (auto simp: gelf_update_shdr_def bind_Some_iff split: if_splits)
  obtain sc where sc: "e_scns e n = Some sc"
    using assms e by (auto simp: gelf_update_shdr_def get_scn_def bind_Some_iff split: if_splits)
  let ?new = "case s_shdr sc of Sh64 h \<Rightarrow> Sh64 s | Sh32 h \<Rightarrow> Sh32 (fst (narrow_shdr s h))"
  obtain f where st': "st' = put_elf i (e\<lparr>e_scns := (e_scns e)(n \<mapsto> sc\<lparr>s_flags := f, s_shdr := ?new\<rparr>)\<rparr>) st"
    and ok: "\<And>h. s_shdr sc = Sh32 h \<Longrightarrow> snd (narrow_shdr s h)"
    using assms e sc
    by (auto simp: gelf_update_shdr_def get_scn_def put_scn_def elf_flagscn_def Let_def case_prod_unfold
        split: shdr.splits if_splits)
  have "(case ?new of Sh32 h \<Rightarrow> widen_shdr h | Sh64 h \<Rightarrow> h) = s"
    using ok shdr.stored by (cases "s_shdr sc") auto
  then show ?thesis
    using e sc unfolding st'
    by (auto simp: gelf_getshdr_def libelf_getshdr_def elf_class_known_def map_option_bind comp_def
        split: option.splits)
qed

theorem update_shdr_then_get_witness:
  "\<exists>st'. map_option fst (gelf_getshdr st' (Some (0, 0)) True) =
     Some (Some (\<lparr>sh_name = 1, sh_type = SHT_STRTAB, sh_flags = 0, sh_addr = 0, sh_offset = 64, sh_size = 10,
       sh_link = 0, sh_info = 0, sh_addralign = 1, sh_entsize = 0\<rparr>))"
proof -
  let ?s = "\<lparr>sh_name = 1, sh_type = SHT_STRTAB, sh_flags = 0, sh_addr = 0, sh_offset = 64, sh_size = 10,
       sh_link = 0, sh_info = 0, sh_addralign = 1, sh_entsize = 0\<rparr>"
  have "map_option fst (gelf_update_shdr (put_elf 0 numbered_elf (reading_state [])) (Some (0, 0)) (Some ?s)) = Some True"
    by code_simp
  then obtain st' where "gelf_update_shdr (put_elf 0 numbered_elf (reading_state [])) (Some (0, 0)) (Some ?s) = Some (True, st')"
    by auto
  from update_shdr_then_get[OF this, of 0] show ?thesis by auto
qed

end
