(* ===== verification/Elf_Strings.thy ===== *)
theory Elf_Strings
  imports Gelf_Headers
begin

text \<open>
  String tables and checksums: \<open>elf_strptr.c\<close>, \<open>libelf_checksum.c\<close>, \<open>gelf_checksum.c\<close>. Both walk the data
  descriptors of a section with \<open>elf_getdata\<close> or \<open>elf_rawdata\<close>. After the first of these calls, which may read
  the section, the others only follow the list, so the loops recur over the rest of the list.
\<close>

section \<open>The descriptors a loop over a section visits\<close>

definition data_after :: "libelf_state \<Rightarrow> data_ref option \<Rightarrow> Elf_Data list option" where
  "data_after st d =
     (case d of None \<Rightarrow> Some []
      | Some (i, n, raw, k) \<Rightarrow> do { s \<leftarrow> get_scn st i n; Some (map d_data (drop k (scn_list raw s))) })"

section \<open>\<open>elf_strptr\<close>\<close>

text \<open>The loop for an object whose layout the application controls.\<close>

primrec strptr_layout :: "Elf_Data list \<Rightarrow> u64 \<Rightarrow> Elf_Error + ptr" where
  "strptr_layout [] offset = Inl ELF_E_ARGUMENT"
| "strptr_layout (d # ds) offset =
     (case d_buf d of
        None \<Rightarrow> strptr_layout ds offset
      | Some buf \<Rightarrow>
          if d_size d = 0 then strptr_layout ds offset
          else if d_type d \<noteq> ELF_T_BYTE then Inl ELF_E_DATA
          else if offset \<ge> d_off d \<and> offset < d_off d + d_size d
          then Inr (ptr_add buf (unat (offset - d_off d)))
          else strptr_layout ds offset)"

text \<open>The other loop; \<open>count\<close> is the number of bytes seen.\<close>

primrec strptr_count :: "Elf_Data list \<Rightarrow> u64 \<Rightarrow> u64 \<Rightarrow> Elf_Error + ptr" where
  "strptr_count [] count offset = Inl ELF_E_ARGUMENT"
| "strptr_count (d # ds) count offset =
     (if count > offset then Inl ELF_E_ARGUMENT
      else case d_buf d of
        None \<Rightarrow> strptr_count ds count offset
      | Some buf \<Rightarrow>
          if d_size d = 0 then strptr_count ds count offset
          else if d_type d \<noteq> ELF_T_BYTE then Inl ELF_E_DATA
          else if d_align d > 1 \<and> d_align d AND (d_align d - 1) \<noteq> 0 then Inl ELF_E_DATA
          else
            let count = (if d_align d > 1 then c_roundup count (d_align d) else count)
            in if offset < count then Inl ELF_E_ARGUMENT
               else if offset < count + d_size d then Inr (ptr_add buf (unat (offset - count)))
               else strptr_count ds (count + d_size d) offset)"

definition elf_strptr :: "libelf_state \<Rightarrow> nat option \<Rightarrow> u64 \<Rightarrow> u64 \<Rightarrow> (ptr option \<times> libelf_state) option" where
  "elf_strptr st e scndx offset =
     (case e of
        None \<Rightarrow> Some (None, set_error ELF_E_ARGUMENT 0 st)
      | Some i \<Rightarrow> do {
          r \<leftarrow> get_elf st i;
          if e_kind r \<noteq> ELF_K_ELF then Some (None, set_error ELF_E_ARGUMENT 0 st)
          else do {
            (s, st) \<leftarrow> elf_getscn st e scndx;
            if s = None then Some (None, st)
            else do {
              (shdr, st) \<leftarrow> gelf_getshdr st s True;
              case shdr of
                None \<Rightarrow> Some (None, st)
              | Some shdr \<Rightarrow>
                  if sh_type shdr \<noteq> SHT_STRTAB \<or> offset \<ge> sh_size shdr
                  then Some (None, set_error ELF_E_ARGUMENT 0 st)
                  else do {
                    r \<leftarrow> get_elf st i;
                    (d, st) \<leftarrow> elf_getdata st s None;
                    ds \<leftarrow> data_after st d;
                    Some (case (if e_flags r AND ELF_F_LAYOUT \<noteq> 0 then strptr_layout ds offset
                                else strptr_count ds 0 offset) of
                            Inl err \<Rightarrow> (None, set_error err 0 st)
                          | Inr p \<Rightarrow> (Some p, st)) } } } })"

section \<open>Checksums\<close>

definition libelf_sum :: "u64 \<Rightarrow> bytes \<Rightarrow> u64" where
  "libelf_sum c s = foldl (\<lambda>c b. c + ucast b) c s"

text \<open>The loop over the data descriptors of a section; an empty or absent buffer is not read.\<close>

primrec sum_data :: "heap \<Rightarrow> u64 \<Rightarrow> Elf_Data list \<Rightarrow> u64 option" where
  "sum_data h c [] = Some c"
| "sum_data h c (d # ds) =
     (case d_buf d of
        None \<Rightarrow> sum_data h c ds
      | Some buf \<Rightarrow>
          if d_size d = 0 then sum_data h c ds
          else do {
            bs \<leftarrow> mem_read h buf (unat (d_size d));
            sum_data h (libelf_sum c bs) ds })"

text \<open>The loop over the sections from \<open>shn\<close> on, \<open>n\<close> of them.\<close>

primrec checksum_scns ::
  "nat \<Rightarrow> libelf_state \<Rightarrow> nat \<Rightarrow> u64 \<Rightarrow> u64 \<Rightarrow> (u64 option \<times> libelf_state) option" where
  "checksum_scns 0 st i shn checksum = Some (Some checksum, st)"
| "checksum_scns (Suc n) st i shn checksum = do {
     (scn, st) \<leftarrow> elf_getscn st (Some i) shn;
     if scn = None then Some (None, st)
     else do {
       (shdr, st) \<leftarrow> gelf_getshdr st scn True;
       case shdr of
         None \<Rightarrow> Some (None, st)
       | Some shdr \<Rightarrow>
           if sh_flags shdr AND SHF_ALLOC = 0 \<or> sh_type shdr = SHT_DYNAMIC \<or> sh_type shdr = SHT_DYNSYM
           then checksum_scns n st i (shn + 1) checksum
           else do {
             (d, st) \<leftarrow> elf_rawdata st scn None;
             ds \<leftarrow> data_after st d;
             checksum \<leftarrow> sum_data (heap st) checksum ds;
             checksum_scns n st i (shn + 1) checksum } } }"

definition libelf_checksum :: "libelf_state \<Rightarrow> nat option \<Rightarrow> int \<Rightarrow> (u64 \<times> libelf_state) option" where
  "libelf_checksum st e elfclass =
     (case e of
        None \<Rightarrow> Some (0, set_error ELF_E_ARGUMENT 0 st)
      | Some i \<Rightarrow> do {
          r \<leftarrow> get_elf st i;
          if e_class r \<noteq> elfclass then Some (0, set_error ELF_E_CLASS 0 st)
          else do {
            (eh, st) \<leftarrow> gelf_getehdr st e True;
            if eh = None then Some (0, st)
            else do {
              r \<leftarrow> get_elf st i;
              (c, st) \<leftarrow> checksum_scns (unat (e_nscn r) - 1) st i 1 0;
              Some (case c of None \<Rightarrow> 0
                    | Some c \<Rightarrow> (drop_bit 16 c AND 0xFFFF) + (c AND 0xFFFF), st) } } })"

definition elf32_checksum where "elf32_checksum st e = libelf_checksum st e ELFCLASS32"
definition elf64_checksum where "elf64_checksum st e = libelf_checksum st e ELFCLASS64"

definition gelf_checksum :: "libelf_state \<Rightarrow> nat option \<Rightarrow> (u64 \<times> libelf_state) option" where
  "gelf_checksum st e =
     (case e of
        None \<Rightarrow> Some (0, set_error ELF_E_ARGUMENT 0 st)
      | Some i \<Rightarrow> do {
          r \<leftarrow> get_elf st i;
          if e_class r \<noteq> ELFCLASS32 \<and> e_class r \<noteq> ELFCLASS64 then Some (0, set_error ELF_E_ARGUMENT 0 st)
          else libelf_checksum st e (e_class r) })"

section \<open>The layout \<open>elf_strptr\<close> computes\<close>

text \<open>
  The reference: the descriptors that have contents, each at the next multiple of its alignment behind the
  previous one, as natural numbers.
\<close>

primrec placed :: "nat \<Rightarrow> Elf_Data list \<Rightarrow> (nat \<times> Elf_Data) list" where
  "placed c [] = []"
| "placed c (d # ds) =
     (if d_buf d = None \<or> d_size d = 0 then placed c ds
      else let c' = align_up (max 1 (unat (d_align d))) c in (c', d) # placed (c' + unat (d_size d)) ds)"

primrec placed_end :: "nat \<Rightarrow> Elf_Data list \<Rightarrow> nat" where
  "placed_end c [] = c"
| "placed_end c (d # ds) =
     (if d_buf d = None \<or> d_size d = 0 then placed_end c ds
      else placed_end (align_up (max 1 (unat (d_align d))) c + unat (d_size d)) ds)"

definition strings_ok :: "Elf_Data \<Rightarrow> bool" where
  "strings_ok d \<longleftrightarrow> d_buf d = None \<or> d_size d = 0
     \<or> (d_type d = ELF_T_BYTE \<and> (d_align d > 1 \<longrightarrow> d_align d AND (d_align d - 1) = 0) \<and> unat (d_align d) < 2 ^ 62)"

lemma align_up_1 [simp]: "align_up 1 n = n" "align_up (Suc 0) n = n"
  by (simp_all add: align_up_def)

lemma placed_end_ge: "c \<le> placed_end c ds"
proof (induction ds arbitrary: c)
  case (Cons d ds)
  let ?a = "align_up (max 1 (unat (d_align d))) c"
  have "c \<le> ?a" by (rule align_up_ge) simp
  then show ?case using Cons.IH[of c] Cons.IH[of "?a + unat (d_size d)"] by auto
qed simp

lemma placed_ge: "(c', d) \<in> set (placed c ds) \<Longrightarrow> c \<le> c'"
proof (induction ds arbitrary: c)
  case (Cons d0 ds)
  let ?a = "align_up (max 1 (unat (d_align d0))) c"
  have "c \<le> ?a" by (rule align_up_ge) simp
  then show ?case using Cons.IH[of c] Cons.IH[of "?a + unat (d_size d0)"] Cons.prems
    by (auto simp: Let_def split: if_splits)
qed simp

lemma c_roundup_align_up:
  assumes "d_align d > 1" "unat (d_align d) < 2 ^ 62" "c < 2 ^ 63"
  shows "unat (c_roundup (of_nat c) (d_align d)) = align_up (max 1 (unat (d_align d))) c"
proof -
  have c: "unat (of_nat c :: u64) = c" using assms(3) by (simp add: unat_of_nat)
  have "1 < unat (d_align d)" using assms(1) by (simp add: word_less_nat_alt)
  then show ?thesis using assms by (simp add: unat_c_roundup c align_up_def max_def)
qed

definition holds_byte :: "nat \<Rightarrow> nat \<times> Elf_Data \<Rightarrow> bool" where
  "holds_byte k cd \<longleftrightarrow> fst cd \<le> k \<and> k < fst cd + unat (d_size (snd cd))"

definition byte_place :: "nat \<Rightarrow> (nat \<times> Elf_Data) option \<Rightarrow> Elf_Error + ptr" where
  "byte_place k r =
     (case r of Some (c, d) \<Rightarrow> Inr (ptr_add (the (d_buf d)) (k - c)) | None \<Rightarrow> Inl ELF_E_ARGUMENT)"

text \<open>One round of the loop at a data descriptor with bytes, in natural numbers.\<close>

lemma strptr_count_step:
  assumes d: "strings_ok d" "d_buf d = Some buf" "d_size d \<noteq> 0" and c: "c \<le> unat offset"
    and s: "align_up (max 1 (unat (d_align d))) c + unat (d_size d) < 2 ^ 63"
  shows "strptr_count (d # ds) (of_nat c) offset =
    (if unat offset < align_up (max 1 (unat (d_align d))) c then Inl ELF_E_ARGUMENT
     else if unat offset < align_up (max 1 (unat (d_align d))) c + unat (d_size d)
     then Inr (ptr_add buf (unat offset - align_up (max 1 (unat (d_align d))) c))
     else strptr_count ds (of_nat (align_up (max 1 (unat (d_align d))) c + unat (d_size d))) offset)"
proof -
  let ?a = "align_up (max 1 (unat (d_align d))) c"
  let ?count = "if d_align d > 1 then c_roundup (of_nat c) (d_align d) else of_nat c"
  have ok: "d_type d = ELF_T_BYTE" "\<not> (d_align d > 1 \<and> d_align d AND (d_align d - 1) \<noteq> 0)" "unat (d_align d) < 2 ^ 62"
    using d by (auto simp: strings_ok_def)
  have "c \<le> ?a" by (rule align_up_ge) simp
  then have c63: "c < 2 ^ 63" using s by linarith
  then have uc: "unat (of_nat c :: u64) = c" by (simp add: unat_of_nat)
  have a: "unat ?count = ?a"
  proof (cases "d_align d > 1")
    case True
    then show ?thesis using c_roundup_align_up[OF True ok(3) c63] by simp
  next
    case False
    then have "max 1 (unat (d_align d)) = 1" by (simp add: not_less word_le_nat_alt)
    then show ?thesis using False uc by simp
  qed
  have sum: "unat (?count + d_size d) = ?a + unat (d_size d)" using s a by (simp add: unat_word_ariths)
  then have next_count: "?count + d_size d = of_nat (?a + unat (d_size d))" by (metis of_nat_unat ucast_id)
  have "\<not> of_nat c > offset" using c uc by (simp add: word_less_nat_alt)
  moreover have "\<not> d_type d \<noteq> ELF_T_BYTE" using ok(1) by simp
  ultimately have step: "strptr_count (d # ds) (of_nat c) offset =
      (if offset < ?count then Inl ELF_E_ARGUMENT
       else if offset < ?count + d_size d then Inr (ptr_add buf (unat (offset - ?count)))
       else strptr_count ds (?count + d_size d) offset)"
    using d(3) by (simp only: strptr_count.simps if_not_P[OF ok(2)] if_not_P d(2) option.case Let_def refl simp_thms if_False)
  have lt: "offset < ?count \<longleftrightarrow> unat offset < ?a" "offset < ?count + d_size d \<longleftrightarrow> unat offset < ?a + unat (d_size d)"
    by (simp_all only: word_less_nat_alt[of offset] a sum)
  have "unat (offset - ?count) = unat offset - ?a" if "\<not> unat offset < ?a"
    using that a by (subst unat_minus_le) (simp_all add: word_le_nat_alt)
  then show ?thesis unfolding step lt by (cases "unat offset < ?a") (simp_all only: next_count if_True if_False not_False_eq_True)
qed

lemma strptr_count_placed:
  assumes "\<forall>d\<in>set ds. strings_ok d" "placed_end c ds < 2 ^ 63"
  shows "strptr_count ds (of_nat c) offset = byte_place (unat offset) (find (holds_byte (unat offset)) (placed c ds))"
  using assms
proof (induction ds arbitrary: c)
  case Nil
  then show ?case by (simp add: byte_place_def)
next
  case (Cons d ds)
  have c: "unat (of_nat c :: u64) = c"
    using Cons.prems(2) placed_end_ge[of c "d # ds"] by (simp add: unat_of_nat)
  show ?case
  proof (cases "unat offset < c")
    case True
    then have "find (holds_byte (unat offset)) (placed c (d # ds)) = None"
      by (auto simp: find_None_iff holds_byte_def dest!: placed_ge[of _ _ c "d # ds"] simp del: placed.simps)
    then show ?thesis using True c by (simp add: word_less_nat_alt byte_place_def del: placed.simps)
  next
    case False
    show ?thesis
    proof (cases "d_buf d = None \<or> d_size d = 0")
      case True
      then have "strptr_count (d # ds) (of_nat c) offset = strptr_count ds (of_nat c) offset"
        using False c by (auto simp: word_less_nat_alt split: option.split)
      then show ?thesis using True Cons by simp
    next
      case full: False
      then obtain buf where buf: "d_buf d = Some buf" by auto
      let ?a = "align_up (max 1 (unat (d_align d))) c"
      have e: "placed_end (?a + unat (d_size d)) ds < 2 ^ 63" using Cons.prems(2) full by simp
      then have s: "?a + unat (d_size d) < 2 ^ 63" using placed_end_ge le_less_trans by blast
      have d: "strings_ok d" "d_size d \<noteq> 0" "c \<le> unat offset" using Cons.prems(1) full False by simp_all
      note step = strptr_count_step[OF d(1) buf d(2,3) s, of ds]
      consider (hole) "unat offset < ?a" | (here) "?a \<le> unat offset" "unat offset < ?a + unat (d_size d)"
        | (later) "?a + unat (d_size d) \<le> unat offset" by linarith
      then show ?thesis
      proof cases
        case hole
        then have "find (holds_byte (unat offset)) (placed c (d # ds)) = None"
          using full by (auto simp: find_None_iff holds_byte_def Let_def dest!: placed_ge)
        then show ?thesis unfolding step using hole by (simp add: byte_place_def)
      next
        case here
        then show ?thesis
          unfolding step using full buf by (simp add: Let_def holds_byte_def byte_place_def)
      next
        case later
        then have "strptr_count (d # ds) (of_nat c) offset = strptr_count ds (of_nat (?a + unat (d_size d))) offset"
          unfolding step by simp
        also have "\<dots> = byte_place (unat offset) (find (holds_byte (unat offset)) (placed (?a + unat (d_size d)) ds))"
          by (rule Cons.IH[OF _ e]) (use Cons.prems(1) in simp)
        also have "find (holds_byte (unat offset)) (placed (?a + unat (d_size d)) ds)
            = find (holds_byte (unat offset)) (placed c (d # ds))"
        proof -
          have "placed c (d # ds) = (?a, d) # placed (?a + unat (d_size d)) ds"
            using full buf by (simp add: Let_def)
          then show ?thesis using later by (simp add: holds_byte_def)
        qed
        finally show ?thesis .
      qed
    qed
  qed
qed

lemma offset_in_buffer:
  assumes "c \<le> offset" "offset < c + (sz :: u64)"
  shows "unat (offset - c) < unat sz"
proof -
  have "unat (c + sz) \<le> unat c + unat sz" by (simp add: unat_word_ariths)
  then show ?thesis using assms by (simp add: unat_sub word_less_nat_alt word_le_nat_alt)
qed

section \<open>The data a lookup visits\<close>

lemma getdata_translate_append:
  assumes "getdata_translate st i n e t off cnt d = Some (Some x, st')" "get_elf st i = Some e0"
  shows "\<exists>st2 d. get_elf st2 i = Some e0 \<and> append_data st2 i n False d = Some (x, st')"
proof -
  obtain b st1 where m: "c_malloc st (unat (d_size (d_data d))) = (b, st1)" by (cases "c_malloc st (unat (d_size (d_data d)))")
  then have g: "get_elf st1 i = Some e0"
    using assms(2) by (auto simp: c_malloc_def c_alloc_def case_prod_unfold Let_def get_elf_def split: if_splits)
  from assms(1) obtain h st2 d' where "append_data (st1\<lparr>heap := h\<rparr>) i n False d' = Some (x, st')"
    by (auto simp: getdata_translate_def m bind_Some_iff Let_def case_prod_unfold simp del: split_paired_Ex
        split: option.splits if_splits)
  then show ?thesis using g by (auto simp: get_elf_def intro!: exI[of _ "st1\<lparr>heap := h\<rparr>"])
qed

lemma getdata_new_append:
  assumes "getdata_new st i n = Some (Some x, st')" "get_elf st i = Some e" "e_scns e n = Some s"
  shows "\<exists>st2 d. get_elf st2 i = Some e \<and> append_data st2 i n False d = Some (x, st')"
proof -
  let ?t = "libelf_xlate_shtype (shdr_type (s_shdr s))"
  have g: "e_class e = ELFCLASS32 \<or> e_class e = ELFCLASS64" "elf_type_valid ?t"
    "getdata_sized st i n e s ?t = Some (Some x, st')"
    using assms by (auto simp: getdata_new_def Let_def split: if_splits)
  note r = g(3)[unfolded getdata_sized_eq[OF g(1,2) refl refl refl refl]]
  have a: "get_elf (snd (c_alloc st)) i = Some e" using assms(2) by simp
  show ?thesis
  proof (cases "shdr_type (s_shdr s) = SHT_NOBITS \<or> shdr_size (s_shdr s) = 0")
    case True
    then obtain d where "append_data (snd (c_alloc st)) i n False d = Some (x, st')"
      using r by (auto simp: bind_Some_iff split: if_splits)
    then show ?thesis using a by blast
  next
    case False
    then obtain cnt d where "getdata_translate (snd (c_alloc st)) i n e ?t (shdr_offset (s_shdr s)) cnt d = Some (Some x, st')"
      using r by (auto split: if_splits)
    then show ?thesis using getdata_translate_append a by blast
  qed
qed

lemma getdata_list:
  assumes e: "get_elf st i = Some e" "e_scns e n = Some s" "e_kind e = ELF_K_ELF"
    and r: "elf_getdata st (Some (i, n)) None = Some (Some x, st')"
  shows "x = (i, n, False, 0) \<and> (\<exists>s'. get_scn st' i n = Some s' \<and> (if s_data s = [] then length (s_data s') = 1 else st' = st))"
proof (cases "s_data s = []")
  case True
  then have "getdata_new st i n = Some (Some x, st')" using e r by (simp add: elf_getdata_def)
  from getdata_new_append[OF this e(1,2)] obtain st2 d where
    "get_elf st2 i = Some e" "append_data st2 i n False d = Some (x, st')" by blast
  then show ?thesis using e(2) True
    by (auto simp: append_data_def get_scn_def put_scn_def scn_list_def)
next
  case False
  then show ?thesis using e r by (auto simp: elf_getdata_def get_scn_def)
qed

text \<open>
  \<open>in_section st i n p\<close>: \<open>p\<close> points at one of the bytes of a data descriptor of section \<open>n\<close>, inside the
  buffer of that descriptor, which exists.
\<close>

definition in_section :: "libelf_state \<Rightarrow> nat \<Rightarrow> nat \<Rightarrow> ptr \<Rightarrow> bool" where
  "in_section st i n p \<longleftrightarrow> (\<exists>s D b k. get_scn st i n = Some s \<and> D \<in> set (s_data s)
     \<and> d_buf (d_data D) = Some b \<and> k < unat (d_size (d_data D)) \<and> p = ptr_add b k
     \<and> window (heap st) b (unat (d_size (d_data D))))"

definition in_descriptors :: "Elf_Data list \<Rightarrow> ptr \<Rightarrow> bool" where
  "in_descriptors ds p \<longleftrightarrow> (\<exists>d\<in>set ds. \<exists>b k. d_buf d = Some b \<and> k < unat (d_size d) \<and> p = ptr_add b k)"

lemma in_descriptors_Cons:
  "in_descriptors (d # ds) p \<longleftrightarrow>
     (\<exists>b k. d_buf d = Some b \<and> k < unat (d_size d) \<and> p = ptr_add b k) \<or> in_descriptors ds p"
  by (simp add: in_descriptors_def del: split_paired_Ex)

lemma in_section_descriptors:
  assumes "in_descriptors ds p"
    "\<And>d. d \<in> set ds \<Longrightarrow> \<exists>s D. get_scn st i n = Some s \<and> D \<in> set (s_data s) \<and> d = d_data D \<and> data_ok (heap st) D"
  shows "in_section st i n p"
proof -
  from assms(1) obtain d b k where d: "d \<in> set ds" "d_buf d = Some b" "k < unat (d_size d)" "p = ptr_add b k"
    by (auto simp: in_descriptors_def simp del: split_paired_Ex)
  from assms(2)[OF d(1)] obtain s D where s: "get_scn st i n = Some s" "D \<in> set (s_data s)" "d = d_data D" "data_ok (heap st) D"
    by blast
  then have "window (heap st) b (unat (d_size d))" using d(2) by (cases b) (simp add: data_ok_def)
  then show ?thesis unfolding in_section_def
    using s d by (intro exI[of _ s] exI[of _ D] exI[of _ b] exI[of _ k]) simp
qed

lemma in_section_window: "in_section st i n p \<Longrightarrow> window (heap st) p 1"
  unfolding in_section_def by (auto intro: window_sub simp del: split_paired_Ex)

lemma getdata_all_ok:
  assumes e: "get_elf st i = Some e" "elf_inv st e" "e_kind e = ELF_K_ELF" "file_there st e" "heap_fresh st"
    and s: "e_scns e n = Some s" "scn_data_ok (heap st) s" and ec: "e_class e = ELFCLASS32 \<or> e_class e = ELFCLASS64"
  shows "\<exists>r st' ds. elf_getdata st (Some (i, n)) None = Some (r, st') \<and> data_after st' r = Some ds
    \<and> (\<forall>d\<in>set ds. \<exists>s' D. get_scn st' i n = Some s' \<and> D \<in> set (s_data s') \<and> d = d_data D \<and> data_ok (heap st') D)"
proof -
  from getdata_first_ok[OF e s ec] obtain r st' e' where r: "elf_getdata st (Some (i, n)) None = Some (r, st')"
    "data_post st i e n r st' e'" "ref_ok st' r" by blast
  show ?thesis
  proof (cases r)
    case None
    then show ?thesis using r(1) by (auto simp: data_after_def)
  next
    case (Some x)
    from getdata_list[OF e(1) s(1) e(3) r(1)[unfolded Some]] obtain s' where x: "x = (i, n, False, 0)"
      and s': "get_scn st' i n = Some s'" "if s_data s = [] then length (s_data s') = 1 else st' = st" by blast
    have after: "data_after st' r = Some (map d_data (s_data s'))"
      using Some x s'(1) by (simp add: data_after_def scn_list_def)
    have "data_ok (heap st') D" if D: "D \<in> set (s_data s')" for D
    proof (cases "s_data s = []")
      case True
      then obtain D0 where "s_data s' = [D0]" using s'(2) by (auto simp: length_Suc_conv)
      then show ?thesis using r(3) D Some x s'(1) by (auto simp: ref_ok_def get_data_def scn_list_def)
    next
      case False
      then have "s' = s" "st' = st" using s' e(1) s(1) by (simp_all add: get_scn_def)
      then show ?thesis using s(2) D by (simp add: scn_data_ok_def)
    qed
    then have "\<forall>d\<in>set (map d_data (s_data s')). \<exists>s'' D. get_scn st' i n = Some s'' \<and> D \<in> set (s_data s'')
        \<and> d = d_data D \<and> data_ok (heap st') D"
      using s'(1) by auto
    with r(1) after show ?thesis by blast
  qed
qed

lemma strptr_layout_place: "strptr_layout ds offset = Inr p \<Longrightarrow> in_descriptors ds p"
proof (induction ds)
  case (Cons d ds)
  show ?case
  proof (cases "\<exists>b. d_buf d = Some b \<and> p = ptr_add b (unat (offset - d_off d)) \<and> d_off d \<le> offset \<and> offset < d_off d + d_size d")
    case True
    then show ?thesis unfolding in_descriptors_Cons using offset_in_buffer by blast
  next
    case False
    then have "strptr_layout ds offset = Inr p"
      using Cons.prems by (auto split: option.splits if_splits)
    then show ?thesis using Cons.IH by (simp add: in_descriptors_Cons)
  qed
qed simp

lemma strptr_count_place: "strptr_count ds c offset = Inr p \<Longrightarrow> in_descriptors ds p"
proof (induction ds arbitrary: c)
  case (Cons d ds)
  let ?c = "if d_align d > 1 then c_roundup c (d_align d) else c"
  show ?case
  proof (cases "\<exists>b. d_buf d = Some b \<and> p = ptr_add b (unat (offset - ?c)) \<and> ?c \<le> offset \<and> offset < ?c + d_size d")
    case True
    then show ?thesis unfolding in_descriptors_Cons using offset_in_buffer by blast
  next
    case False
    then have "strptr_count ds c offset = Inr p \<or> strptr_count ds (?c + d_size d) offset = Inr p"
      using Cons.prems by (auto simp: Let_def not_less split: option.splits if_splits)
    then show ?thesis using Cons.IH by (auto simp: in_descriptors_Cons)
  qed
qed simp

lemma getshdr_value:
  assumes "get_elf st i = Some e" "elf_class_known e" "e_scns e n = Some s"
  shows "gelf_getshdr st (Some (i, n)) True = Some (Some (case s_shdr s of Sh32 h \<Rightarrow> widen_shdr h | Sh64 h \<Rightarrow> h), st)"
  using assms by (auto simp: gelf_getshdr_def libelf_getshdr_def elf_class_known_def)

text \<open>What \<open>elf_strptr\<close> returns, and the state it leaves: at most the error was set after the call of \<open>elf_getdata\<close>.\<close>

definition only_error :: "libelf_state \<Rightarrow> libelf_state \<Rightarrow> bool" where
  "only_error st st' \<longleftrightarrow> st' = st \<or> (\<exists>er. st' = set_error er 0 st)"

lemma only_errorI [simp]: "only_error st st" "only_error st (set_error er 0 st)"
  by (auto simp: only_error_def)

lemma elf_strptr_ok:
  assumes e: "get_elf st i = Some e" "elf_inv st e" "scns_loaded e" "file_there st e" "heap_fresh st"
    and d: "\<And>n s. e_scns e n = Some s \<Longrightarrow> scn_data_ok (heap st) s"
  shows "\<exists>r st'. elf_strptr st (Some i) scndx offset = Some (r, st')
    \<and> (\<forall>p. r = Some p \<longrightarrow> in_section st' i (unat scndx) p)
    \<and> (only_error st st' \<or> (\<exists>x st1. elf_getdata st (Some (i, unat scndx)) None = Some (x, st1)
          \<and> e_scns e (unat scndx) \<noteq> None \<and> only_error st1 st'))"
proof -
  have known: "elf_class_known e" "e_kind e = ELF_K_ELF" "e_class e = ELFCLASS32 \<or> e_class e = ELFCLASS64"
    using scns_loaded_known[OF e(3,2)] by (simp_all add: elf_class_known_def)
  note scn = elf_getscn_loaded[OF e(1-3), of scndx]
  show ?thesis
  proof (cases "e_scns e (unat scndx)")
    case None
    then have "unat scndx \<notin> rb_keys (e_scn e)" using e(2) by (auto simp: elf_inv_def scn_inv_def)
    then show ?thesis using scn e(1) known(2) by (simp add: elf_strptr_def)
  next
    case (Some s)
    then have "unat scndx \<in> rb_keys (e_scn e)" using e(2) by (auto simp: elf_inv_def scn_inv_def)
    then have getscn: "elf_getscn st (Some i) scndx = Some (Some (i, unat scndx), st)" using scn by simp
    let ?sh = "case s_shdr s of Sh32 h \<Rightarrow> widen_shdr h | Sh64 h \<Rightarrow> h"
    note sh = getshdr_value[OF e(1) known(1) Some]
    obtain r st1 ds where g: "elf_getdata st (Some (i, unat scndx)) None = Some (r, st1)" "data_after st1 r = Some ds"
      "\<forall>d\<in>set ds. \<exists>s' D. get_scn st1 i (unat scndx) = Some s' \<and> D \<in> set (s_data s') \<and> d = d_data D \<and> data_ok (heap st1) D"
      using getdata_all_ok[OF e(1,2) known(2) e(4,5) Some d[OF Some] known(3)] by blast
    let ?res = "if e_flags e AND ELF_F_LAYOUT \<noteq> 0 then strptr_layout ds offset else strptr_count ds 0 offset"
    have "elf_strptr st (Some i) scndx offset =
       (if sh_type ?sh \<noteq> SHT_STRTAB \<or> offset \<ge> sh_size ?sh then Some (None, set_error ELF_E_ARGUMENT 0 st)
        else Some (case ?res of Inl err \<Rightarrow> (None, set_error err 0 st1) | Inr p \<Rightarrow> (Some p, st1)))"
      unfolding elf_strptr_def option.case e(1) bind.simps getscn prod.case sh g(1,2) using known(2) by simp
    moreover have "in_section st1 i (unat scndx) p" if "?res = Inr p" for p
    proof (rule in_section_descriptors)
      show "in_descriptors ds p"
        using that strptr_layout_place strptr_count_place by (cases "e_flags e AND ELF_F_LAYOUT \<noteq> 0") auto
    qed (use g(3) in blast)
    moreover have "only_error st st1 \<or> (\<exists>x st2. elf_getdata st (Some (i, unat scndx)) None = Some (x, st2)
        \<and> e_scns e (unat scndx) \<noteq> None \<and> only_error st2 st')" if "only_error st1 st'" for st'
      using that g(1) Some by blast
    ultimately show ?thesis using g(1) Some by (cases ?res) (auto split: if_splits)
  qed
qed

section \<open>Properties\<close>

text \<open>
  C28. \<open>elf_strptr\<close> on an object the library lays out finds the byte of the section: its loop, with its
  rounding in 64-bit arithmetic, returns the place of the offset in the data descriptor that holds it when the
  descriptors with contents are laid out one after the other at their alignments, and the error for an offset
  in a hole or behind the end. It holds for any number of descriptors, empty ones included, as long as the
  contents end below \<open>2 ^ 63\<close>.
\<close>

theorem strptr_finds_byte:
  assumes "\<forall>d\<in>set ds. strings_ok d" "placed_end 0 ds < 2 ^ 63"
  shows "strptr_count ds 0 offset = byte_place (unat offset) (find (holds_byte (unat offset)) (placed 0 ds))"
  using strptr_count_placed[OF assms, of offset] by simp

theorem strptr_finds_byte_witness:
  "strptr_count [sample_data ELF_T_BYTE 0 10, (sample_data ELF_T_BYTE 32 10)\<lparr>d_align := 8\<rparr>] 0 17 = Inr (0, 33)"
proof -
  let ?ds = "[sample_data ELF_T_BYTE 0 10, (sample_data ELF_T_BYTE 32 10)\<lparr>d_align := 8\<rparr>]"
  have "\<forall>d\<in>set ?ds. strings_ok d" "placed_end 0 ?ds < 2 ^ 63"
    by (simp_all add: strings_ok_def sample_data_def align_up_def)
  from strptr_finds_byte[OF this, of 17] show ?thesis
    by (simp add: holds_byte_def byte_place_def sample_data_def align_up_def Let_def ptr_add_def)
qed

text \<open>A descriptor with a string table, whose sections have been read.\<close>

definition strings_elf :: Elf where
  "strings_elf = (data_elf (data_scn SHT_STRTAB 64 10))\<lparr>e_flags := LIBELF_F_SHDRS_LOADED, e_rawsize := 112\<rparr>"

definition strings_state :: libelf_state where
  "strings_state = put_elf 0 strings_elf (sample_state (replicate 112 0))"

lemma strings_state_ok:
  "get_elf strings_state 0 = Some strings_elf" "elf_inv strings_state strings_elf" "scns_loaded strings_elf"
  "file_there strings_state strings_elf" "heap_fresh strings_state"
  "e_scns strings_elf n = Some s \<Longrightarrow> scn_data_ok (heap strings_state) s"
  by (simp_all add: strings_state_def strings_elf_def data_elf_def table_elf_def reading_elf_def initial_elf_def
      elf_inv_def raw_ok_def scn_inv_def hdr_inv_def rb_inv_def rb_keys_def sample_state_def window_def mem_read_def
      slice_at_def heap_fresh_def put_elf_def get_elf_def data_scn_def new_scn_def scns_loaded_def file_there_def
      scn_data_ok_def split: if_splits)
    (auto simp: scn_data_ok_def)

end
