(* ===== verification/Elf_Ar.thy ===== *)
theory Elf_Ar
  imports Elf_State
begin

text \<open>
  Archives: \<open>libelf_ar_util.c\<close>, \<open>libelf_ar.c\<close> (its member part that makes descriptors is in \<open>Elf_Open\<close>),
  \<open>elf_getarhdr.c\<close>, \<open>elf_getarsym.c\<close>, \<open>elf_next.c\<close> and \<open>elf_rand.c\<close>. Places in an archive are offsets from its
  first byte. The name strings of a translated header are values, with their terminators.
\<close>

section \<open>Member headers\<close>

text \<open>\<open>struct ar_hdr\<close> of \<open><ar.h>\<close>: character fields without padding, 60 bytes.\<close>

record ar_hdr =
  h_name :: bytes
  h_date :: bytes
  h_uid :: bytes
  h_gid :: bytes
  h_mode :: bytes
  h_size :: bytes
  h_fmag :: bytes

definition ar_hdr_of :: "bytes \<Rightarrow> ar_hdr" where
  "ar_hdr_of bs =
     \<lparr>h_name = take 16 bs, h_date = take 12 (drop 16 bs), h_uid = take 6 (drop 28 bs),
      h_gid = take 6 (drop 34 bs), h_mode = take 8 (drop 40 bs), h_size = take 10 (drop 48 bs),
      h_fmag = take 2 (drop 58 bs)\<rparr>"

definition read_ar_hdr :: "heap \<Rightarrow> ptr \<Rightarrow> ar_hdr option" where
  "read_ar_hdr h p = map_option ar_hdr_of (mem_read h p 60)"

abbreviation "BLANK \<equiv> (0x20 :: u8)"
abbreviation "SLASH \<equiv> (0x2F :: u8)"

definition ARMAG :: bytes where
  "ARMAG = [0x21, 0x3C, 0x61, 0x72, 0x63, 0x68, 0x3E, 0x0A]"

abbreviation "SARMAG \<equiv> (8 :: nat)"

definition ARFMAG :: bytes where
  "ARFMAG = [0x60, 0x0A]"

definition IS_EXTENDED_BSD_NAME :: "bytes \<Rightarrow> bool" where
  "IS_EXTENDED_BSD_NAME name \<longleftrightarrow> take 3 name = [0x23, 0x31, 0x2F]"

definition LIBELF_AR_BSD_SYMTAB_NAME :: bytes where
  "LIBELF_AR_BSD_SYMTAB_NAME = [0x5F, 0x5F, 0x2E, 0x53, 0x59, 0x4D, 0x44, 0x45, 0x46]"

text \<open>\<open>~1U\<close> has 32 bits and is widened with zeros.\<close>

definition LIBELF_ADJUST_AR_SIZE :: "u64 \<Rightarrow> u64" where
  "LIBELF_ADJUST_AR_SIZE s = (s + 1) AND ucast (NOT (1 :: u32))"

text \<open>The digits after the leading blanks. \<open>None\<close> is a character that is no digit.\<close>

primrec ar_digits :: "bytes \<Rightarrow> u32 \<Rightarrow> u64 \<Rightarrow> u64 option" where
  "ar_digits [] base r = Some r"
| "ar_digits (c # s) base r =
     (if c = BLANK then Some r
      else if c < 0x30 \<or> c > 0x39 then None
      else if ucast c - 0x30 \<ge> base then Some r
      else ar_digits s base (r * ucast base + (ucast c - 0x30)))"

definition libelf_ar_get_number :: "bytes \<Rightarrow> u32 \<Rightarrow> u64 option option" where
  "libelf_ar_get_number src base = do {
     c_assert (base \<le> 10);
     Some (ar_digits (dropWhile (\<lambda>c. c = BLANK) src) base 0) }"

section \<open>Strings\<close>

text \<open>What \<open>strncpy(s, p, n)\<close> stores: \<open>n\<close> bytes; nothing is read behind a terminator.\<close>

primrec c_strncpy :: "heap \<Rightarrow> ptr \<Rightarrow> nat \<Rightarrow> bytes option" where
  "c_strncpy h p 0 = Some []"
| "c_strncpy h p (Suc n) = do {
     b \<leftarrow> mem_read h p 1;
     if hd b = 0 then Some (replicate (Suc n) 0)
     else do { r \<leftarrow> c_strncpy h (ptr_add p 1) n; Some (hd b # r) } }"

text \<open>The string at \<open>p\<close>, without its terminator; the memory may end before a terminator comes.\<close>

definition c_string :: "heap \<Rightarrow> ptr \<Rightarrow> bytes option" where
  "c_string h p = do {
     buf \<leftarrow> h (fst p);
     let s = takeWhile (\<lambda>b. b \<noteq> 0) (drop (snd p) buf);
     if snd p + length s < length buf then Some s else None }"

text \<open>The loop that looks for a byte in the next \<open>n\<close> ones: how many come before it.\<close>

primrec scan_byte :: "heap \<Rightarrow> ptr \<Rightarrow> u8 \<Rightarrow> nat \<Rightarrow> nat option" where
  "scan_byte h p c 0 = Some 0"
| "scan_byte h p c (Suc n) = do {
     b \<leftarrow> mem_read h p 1;
     if hd b = c then Some 0 else map_option Suc (scan_byte h (ptr_add p 1) c n) }"

section \<open>Names: \<open>libelf_ar_util.c\<close>\<close>

text \<open>The three forms of a name: a reference to the string table, a name behind the header, a plain name.\<close>

definition ar_name_svr4 :: "libelf_state \<Rightarrow> bytes \<Rightarrow> Elf \<Rightarrow> (bytes option \<times> libelf_state) option" where
  "ar_name_svr4 st name ar = do {
     n \<leftarrow> libelf_ar_get_number (drop 1 name) 10;
     case n of
       None \<Rightarrow> Some (None, set_error ELF_E_ARCHIVE 0 st)
     | Some offset \<Rightarrow>
         if offset > e_rawstrtabsz ar then Some (None, set_error ELF_E_ARCHIVE 0 st)
         else do {
           let k = unat (e_rawstrtabsz ar) - unat offset;
           len \<leftarrow> (case e_rawstrtab ar of
                    None \<Rightarrow> if k = 0 then Some 0 else None
                  | Some t \<Rightarrow> scan_byte (heap st) (ptr_add t (unat offset)) SLASH k);
           let (ok, st) = c_alloc st;
           if \<not> ok then Some (None, set_error ELF_E_RESOURCE 0 st)
           else do {
             s \<leftarrow> (case e_rawstrtab ar of
                    None \<Rightarrow> Some []
                  | Some t \<Rightarrow> c_strncpy (heap st) (ptr_add t (unat offset)) len);
             Some (Some (s @ [0]), st) } } }"

definition ar_name_bsd :: "libelf_state \<Rightarrow> ptr \<Rightarrow> bytes \<Rightarrow> (bytes option \<times> libelf_state) option" where
  "ar_name_bsd st arh name = do {
     n \<leftarrow> libelf_ar_get_number (drop 3 name) 10;
     case n of
       None \<Rightarrow> Some (None, set_error ELF_E_ARCHIVE 0 st)
     | Some len \<Rightarrow> do {
         let (ok, st) = c_alloc st;
         if \<not> ok then Some (None, set_error ELF_E_RESOURCE 0 st)
         else do {
           s \<leftarrow> c_strncpy (heap st) (ptr_add arh 60) (unat len);
           Some (Some (s @ [0]), st) } } }"

text \<open>The length of a plain name: without trailing blanks, and without the \<open>/\<close> that ends it unless it is
  \<open>/\<close> or \<open>//\<close>.\<close>

definition plain_name_length :: "bytes \<Rightarrow> nat" where
  "plain_name_length name =
     (let w = rev (dropWhile (\<lambda>c. c = BLANK) (rev name)) in
      if w = [] then 0
      else
        let q = length w - 1
        in if w ! q = SLASH \<and> (q > 1 \<or> (q = 1 \<and> w ! 0 \<noteq> SLASH)) then q else q + 1)"

definition ar_name_plain :: "libelf_state \<Rightarrow> ptr \<Rightarrow> bytes \<Rightarrow> (bytes option \<times> libelf_state) option" where
  "ar_name_plain st arh name = do {
     let (ok, st) = c_alloc st;
     if \<not> ok then Some (None, set_error ELF_E_RESOURCE 0 st)
     else do {
       s \<leftarrow> c_strncpy (heap st) arh (plain_name_length name);
       Some (Some (s @ [0]), st) } }"

definition libelf_ar_get_translated_name ::
  "libelf_state \<Rightarrow> ptr \<Rightarrow> Elf \<Rightarrow> (bytes option \<times> libelf_state) option" where
  "libelf_ar_get_translated_name st arh ar = do {
     c_assert (e_kind ar = ELF_K_AR);
     raw \<leftarrow> e_rawfile ar;
     c_assert (fst arh = fst raw \<and> snd raw \<le> snd arh \<and> int (snd arh) < int (snd raw) + sint (e_rawsize ar));
     name \<leftarrow> mem_read (heap st) arh 16;
     if name ! 0 = SLASH \<and> 0x30 \<le> name ! 1 \<and> name ! 1 \<le> 0x39 then ar_name_svr4 st name ar
     else if IS_EXTENDED_BSD_NAME name then ar_name_bsd st arh name
     else ar_name_plain st arh name }"

definition libelf_ar_get_raw_name :: "libelf_state \<Rightarrow> ptr \<Rightarrow> (bytes option \<times> libelf_state) option" where
  "libelf_ar_get_raw_name st arh = do {
     let (ok, st) = c_alloc st;
     if \<not> ok then Some (None, set_error ELF_E_RESOURCE 0 st)
     else do {
       s \<leftarrow> c_strncpy (heap st) arh 16;
       Some (Some (s @ [0]), st) } }"

section \<open>Opening an archive: \<open>_libelf_ar_open\<close>\<close>

text \<open>\<open>READ_AR_HEADER\<close> at offset \<open>s\<close>; \<open>Some None\<close> is the jump to the error label.\<close>

definition READ_AR_HEADER :: "heap \<Rightarrow> ptr \<Rightarrow> nat \<Rightarrow> nat \<Rightarrow> (ar_hdr \<times> u64) option option" where
  "READ_AR_HEADER h raw s sz =
     (if s + 60 > sz then Some None
      else do {
        arh \<leftarrow> read_ar_hdr h (ptr_add raw s);
        if h_fmag arh \<noteq> ARFMAG then Some None
        else do {
          n \<leftarrow> libelf_ar_get_number (h_size arh) 10;
          Some (map_option (Pair arh) n) } })"

definition ar_symbol_table :: "Elf \<Rightarrow> ptr \<Rightarrow> nat \<Rightarrow> u64 \<Rightarrow> Elf \<times> nat" where
  "ar_symbol_table e raw s sz =
     (e\<lparr>e_rawsymtab := Some (ptr_add raw (s + 60)), e_rawsymtabsz := sz\<rparr>,
      s + 60 + unat (LIBELF_ADJUST_AR_SIZE sz))"

definition ar_string_table :: "Elf \<Rightarrow> ptr \<Rightarrow> nat \<Rightarrow> u64 \<Rightarrow> Elf \<times> nat" where
  "ar_string_table e raw s sz =
     (e\<lparr>e_rawstrtab := Some (ptr_add raw (s + 60)), e_rawstrtabsz := sz\<rparr>,
      s + 60 + unat (LIBELF_ADJUST_AR_SIZE sz))"

text \<open>
  The search for the special members: the descriptor as it is left, and the offset of the first ordinary
  member, or \<open>None\<close> at the error label.
\<close>

definition ar_special_members :: "heap \<Rightarrow> Elf \<Rightarrow> ptr \<Rightarrow> (Elf \<times> nat option) option" where
  "ar_special_members h e raw = do {
     let fsz = nat (sint (e_rawsize e));
     r \<leftarrow> READ_AR_HEADER h raw SARMAG fsz;
     case r of
       None \<Rightarrow> Some (e, None)
     | Some (arh, sz) \<Rightarrow>
         if h_name arh ! 0 = SLASH then
           if sz = 0 then Some (e, None)
           else
             let e = e\<lparr>e_flags := e_flags e OR LIBELF_F_AR_VARIANT_SVR4\<rparr>
             in if h_name arh ! 1 = BLANK then do {
                  let (e, s) = ar_symbol_table e raw SARMAG sz;
                  r \<leftarrow> READ_AR_HEADER h raw s fsz;
                  Some (case r of
                    None \<Rightarrow> (e, None)
                  | Some (arh, sz) \<Rightarrow>
                      if h_name arh ! 0 = SLASH \<and> h_name arh ! 1 = SLASH \<and> h_name arh ! 2 = BLANK
                      then map_prod id Some (ar_string_table e raw s sz)
                      else (e, Some s)) }
                else if h_name arh ! 1 = SLASH \<and> h_name arh ! 2 = BLANK
                then Some (map_prod id Some (ar_string_table e raw SARMAG sz))
                else Some (e, Some SARMAG)
         else if take 9 (h_name arh) = LIBELF_AR_BSD_SYMTAB_NAME
         then Some (map_prod id Some (ar_symbol_table e raw SARMAG sz))
         else Some (e, Some SARMAG) }"

text \<open>A descriptor that is not returned is not released either.\<close>

definition libelf_ar_open :: "libelf_state \<Rightarrow> nat \<Rightarrow> bool \<Rightarrow> (nat option \<times> libelf_state) option" where
  "libelf_ar_open st i reporterror = do {
     st \<leftarrow> libelf_init_elf st i ELF_K_AR;
     e \<leftarrow> get_elf st i;
     let e = e\<lparr>e_nchildren := 0, e_next := - 1\<rparr>;
     raw \<leftarrow> e_rawfile e;
     c_assert (0 < sint (e_rawsize e));
     (e, next) \<leftarrow> ar_special_members (heap st) e raw;
     Some (case next of
         Some s \<Rightarrow> (Some i, put_elf i (e\<lparr>e_next := of_nat s\<rparr>) st)
       | None \<Rightarrow>
           if \<not> reporterror then (Some i, put_elf i (e\<lparr>e_kind := ELF_K_NONE\<rparr>) st)
           else (None, set_error ELF_E_ARCHIVE 0 (put_elf i e st))) }"

section \<open>The header of a member: \<open>_libelf_ar_gethdr\<close>, \<open>elf_getarhdr.c\<close>\<close>

text \<open>
  The numbers of the header, in the order the code reads them. \<open>uid_t\<close>, \<open>gid_t\<close> and \<open>mode_t\<close> have 32 bits. A
  number that cannot be read is the jump to the error label, which sets no error. \<open>ar_date\<close> is not
  set; it is what \<open>malloc\<close> left there.
\<close>

definition ar_header_numbers :: "ar_hdr \<Rightarrow> (u64 \<times> u64 \<times> u64 \<times> u64) option option" where
  "ar_header_numbers h = do {
     uid \<leftarrow> libelf_ar_get_number (h_uid h) 10;
     gid \<leftarrow> libelf_ar_get_number (h_gid h) 10;
     mode \<leftarrow> libelf_ar_get_number (h_mode h) 8;
     sz \<leftarrow> libelf_ar_get_number (h_size h) 10;
     nlen \<leftarrow> (if IS_EXTENDED_BSD_NAME (h_name h) then libelf_ar_get_number (drop 3 (h_name h)) 10
              else Some (Some 0));
     Some (do {
       uid \<leftarrow> uid; gid \<leftarrow> gid; mode \<leftarrow> mode; sz \<leftarrow> sz; nlen \<leftarrow> nlen;
       Some (ucast (ucast uid :: u32), ucast (ucast gid :: u32), ucast (ucast mode :: u32), sz - nlen) }) }"

definition libelf_ar_gethdr :: "libelf_state \<Rightarrow> nat \<Rightarrow> (Elf_Arhdr option \<times> libelf_state) option" where
  "libelf_ar_gethdr st i = do {
     e \<leftarrow> get_elf st i;
     case e_parent e of
       None \<Rightarrow> Some (None, set_error ELF_E_ARGUMENT 0 st)
     | Some j \<Rightarrow> do {
         parent \<leftarrow> get_elf st j;
         c_assert (e_flags e AND LIBELF_F_AR_HEADER = 0);
         arh \<leftarrow> (case e_hdr e of HDR_RAWHDR p \<Rightarrow> Some p | _ \<Rightarrow> None);
         raw \<leftarrow> e_rawfile parent;
         c_assert (fst arh = fst raw \<and> snd raw + SARMAG \<le> snd arh);
         if int (snd arh) > int (snd raw) + sint (e_rawsize parent) - 60
         then Some (None, set_error ELF_E_ARCHIVE 0 st)
         else do {
           let (ok, st) = c_alloc st;
           if \<not> ok then Some (None, set_error ELF_E_RESOURCE 0 st)
           else do {
             (name, st) \<leftarrow> libelf_ar_get_translated_name st arh parent;
             case name of
               None \<Rightarrow> Some (None, st)
             | Some name \<Rightarrow> do {
                 h \<leftarrow> read_ar_hdr (heap st) arh;
                 n \<leftarrow> ar_header_numbers h;
                 case n of
                   None \<Rightarrow> Some (None, st)
                 | Some (uid, gid, mode, msz) \<Rightarrow> do {
                     (rawname, st) \<leftarrow> libelf_ar_get_raw_name st arh;
                     case rawname of
                       None \<Rightarrow> Some (None, st)
                     | Some rawname \<Rightarrow>
                         let eh = \<lparr>ar_date = 0, ar_name = name, ar_gid = gid, ar_mode = mode,
                                   ar_rawname = rawname, ar_size = msz, ar_uid = uid, ar_flags = 0\<rparr>
                         in Some (Some eh, put_elf i
                              (e\<lparr>e_hdr := HDR_ARHDR eh, e_flags := e_flags e OR LIBELF_F_AR_HEADER\<rparr>) st) } } } } } }"

definition elf_getarhdr :: "libelf_state \<Rightarrow> nat option \<Rightarrow> (Elf_Arhdr option \<times> libelf_state) option" where
  "elf_getarhdr st e =
     (case e of
        None \<Rightarrow> Some (None, set_error ELF_E_ARGUMENT 0 st)
      | Some i \<Rightarrow> do {
          e \<leftarrow> get_elf st i;
          if e_flags e AND LIBELF_F_AR_HEADER \<noteq> 0
          then (case e_hdr e of HDR_ARHDR h \<Rightarrow> Some (Some h, st) | _ \<Rightarrow> None)
          else libelf_ar_gethdr st i })"

section \<open>Archive symbol tables: \<open>libelf_ar.c\<close>, \<open>elf_getarsym.c\<close>\<close>

definition arsym_sentinel :: Elf_Arsym where
  "arsym_sentinel = \<lparr>as_off = 0, as_hash = - 1, as_name = None\<rparr>"

definition arsym_at :: "heap \<Rightarrow> ptr \<Rightarrow> u64 \<Rightarrow> Elf_Arsym option" where
  "arsym_at h s off = do {
     name \<leftarrow> c_string h s;
     Some \<lparr>as_off = off, as_hash = elf_hash name, as_name = Some s\<rparr> }"

definition GET_LONG :: "endian \<Rightarrow> heap \<Rightarrow> ptr \<Rightarrow> u64 option" where
  "GET_LONG host h p = map_option (get_word host) (mem_read h p 8)"

text \<open>
  The loop over \<open>n\<close> entries of a BSD table at offset \<open>p\<close>; \<open>s0\<close> is the start of the strings, \<open>end\<close> that of what
  follows the table. The counter of the code has 32 bits; a member has less than \<open>10\<^sup>10\<close> bytes, so less
  than \<open>2\<^sup>3\<^sup>0\<close> entries.
\<close>

primrec bsd_symbols ::
  "nat \<Rightarrow> endian \<Rightarrow> heap \<Rightarrow> ptr \<Rightarrow> u64 \<Rightarrow> nat \<Rightarrow> nat \<Rightarrow> nat \<Rightarrow> Elf_Arsym list option option" where
  "bsd_symbols 0 host h t rawsize p s0 fin = Some (Some [])"
| "bsd_symbols (Suc n) host h t rawsize p s0 fin = do {
     stroffset \<leftarrow> GET_LONG host h (ptr_add t p);
     fileoffset \<leftarrow> GET_LONG host h (ptr_add t (p + 8));
     if sint stroffset < 0 \<or> sint fileoffset < 0 \<or> sint fileoffset \<ge> sint rawsize then Some None
     else if s0 + unat stroffset \<ge> fin then Some None
     else do {
       y \<leftarrow> arsym_at h (ptr_add t (s0 + unat stroffset)) fileoffset;
       ys \<leftarrow> bsd_symbols n host h t rawsize (p + 16) s0 fin;
       Some (map_option (Cons y) ys) } }"

text \<open>The last part of both functions: the sentinel, and the table in the descriptor.\<close>

definition arsym_result ::
  "libelf_state \<Rightarrow> nat \<Rightarrow> Elf \<Rightarrow> Elf_Arsym list option \<Rightarrow> Elf_Arsym list option \<times> libelf_state" where
  "arsym_result st i e syms =
     (case syms of
        None \<Rightarrow> (None, set_error ELF_E_ARCHIVE 0 st)
      | Some ys \<Rightarrow>
          let tab = ys @ [arsym_sentinel]
          in (Some tab, put_elf i (e\<lparr>e_symtab := Some tab, e_symtabsz := of_nat (length tab)\<rparr>) st))"

definition libelf_ar_process_bsd_symtab ::
  "libelf_state \<Rightarrow> nat \<Rightarrow> (Elf_Arsym list option \<times> libelf_state) option" where
  "libelf_ar_process_bsd_symtab st i = do {
     e \<leftarrow> get_elf st i;
     c_assert (e_symtab e = None);
     let sz = unat (e_rawsymtabsz e);
     if sz < 16 then Some (None, set_error ELF_E_ARCHIVE 0 st)
     else do {
       t \<leftarrow> e_rawsymtab e;
       arraysize \<leftarrow> GET_LONG (host_order st) (heap st) t;
       if sint arraysize < 0 \<or> unat arraysize \<ge> sz \<or> unat arraysize mod 16 \<noteq> 0
       then Some (None, set_error ELF_E_ARCHIVE 0 st)
       else do {
         strtabsize \<leftarrow> GET_LONG (host_order st) (heap st) (ptr_add t (8 + unat arraysize));
         let s0 = 16 + unat arraysize;
         if sint strtabsize < 0 \<or> s0 + unat strtabsize > sz
         then Some (None, set_error ELF_E_ARCHIVE 0 st)
         else do {
           let (ok, st) = c_alloc st;
           if \<not> ok then Some (None, set_error ELF_E_RESOURCE 0 st)
           else do {
             ys \<leftarrow> bsd_symbols (unat arraysize div 16) (host_order st) (heap st) t (e_rawsize e) 8 s0 sz;
             Some (arsym_result st i e ys) } } } } }"

definition GET_WORD :: "heap \<Rightarrow> ptr \<Rightarrow> u32 option" where
  "GET_WORD h p = map_option (get_word MSB) (mem_read h p 4)"

abbreviation "INTSZ \<equiv> (4 :: nat)"

text \<open>The loop over \<open>n\<close> entries of an SVR4 table; \<open>s\<close> is the place of the next string.\<close>

primrec svr4_symbols ::
  "nat \<Rightarrow> heap \<Rightarrow> ptr \<Rightarrow> u64 \<Rightarrow> nat \<Rightarrow> nat \<Rightarrow> nat \<Rightarrow> Elf_Arsym list option option" where
  "svr4_symbols 0 h t rawsize p s fin = Some (Some [])"
| "svr4_symbols (Suc n) h t rawsize p s fin =
     (if s \<ge> fin then Some None
      else do {
        off \<leftarrow> GET_WORD h (ptr_add t p);
        if uint off \<ge> sint rawsize then Some None
        else do {
          y \<leftarrow> arsym_at h (ptr_add t s) (ucast off);
          k \<leftarrow> scan_byte h (ptr_add t s) 0 (fin - s);
          ys \<leftarrow> svr4_symbols n h t rawsize (p + INTSZ) (min fin (s + k + 1)) fin;
          Some (map_option (Cons y) ys) } })"

definition libelf_ar_process_svr4_symtab ::
  "libelf_state \<Rightarrow> nat \<Rightarrow> (Elf_Arsym list option \<times> libelf_state) option" where
  "libelf_ar_process_svr4_symtab st i = do {
     e \<leftarrow> get_elf st i;
     c_assert (e_symtab e = None);
     let sz = unat (e_rawsymtabsz e);
     if sz < INTSZ then Some (None, set_error ELF_E_ARCHIVE 0 st)
     else do {
       t \<leftarrow> e_rawsymtab e;
       n \<leftarrow> GET_WORD (heap st) t;
       let nentries = unat n;
       if nentries = 0 \<or> INTSZ + nentries * INTSZ \<ge> sz
       then Some (None, set_error ELF_E_ARCHIVE 0 st)
       else do {
         let (ok, st) = c_alloc st;
         if \<not> ok then Some (None, set_error ELF_E_RESOURCE 0 st)
         else do {
           ys \<leftarrow> svr4_symbols nentries (heap st) t (e_rawsize e) INTSZ (INTSZ + nentries * INTSZ) sz;
           Some (arsym_result st i e ys) } } } }"

text \<open>The second component is the value stored through \<open>ptr\<close>.\<close>

definition elf_getarsym ::
  "libelf_state \<Rightarrow> nat option \<Rightarrow> (Elf_Arsym list option \<times> u64 \<times> libelf_state) option" where
  "elf_getarsym st ar =
     (case ar of
        None \<Rightarrow> Some (None, 0, set_error ELF_E_ARGUMENT 0 st)
      | Some i \<Rightarrow> do {
          e \<leftarrow> get_elf st i;
          if e_kind e \<noteq> ELF_K_AR then Some (None, 0, set_error ELF_E_ARGUMENT 0 st)
          else if e_symtab e \<noteq> None then Some (e_symtab e, e_symtabsz e, st)
          else if e_rawsymtab e \<noteq> None
          then do {
            (tab, st) \<leftarrow> (if e_flags e AND LIBELF_F_AR_VARIANT_SVR4 \<noteq> 0
                          then libelf_ar_process_svr4_symtab st i
                          else libelf_ar_process_bsd_symtab st i);
            Some (tab, (case tab of None \<Rightarrow> 0 | Some t \<Rightarrow> of_nat (length t)), st) }
          else Some (None, 0, set_error ELF_E_ARCHIVE 0 st) })"

section \<open>Moving in an archive: \<open>elf_next.c\<close>, \<open>elf_rand.c\<close>\<close>

text \<open>Offsets are \<open>off_t\<close>: 64 bits, compared as signed numbers.\<close>

definition elf_next :: "libelf_state \<Rightarrow> nat option \<Rightarrow> (Elf_Cmd \<times> libelf_state) option" where
  "elf_next st e =
     (case e of
        None \<Rightarrow> Some (ELF_C_NULL, st)
      | Some i \<Rightarrow> do {
          e \<leftarrow> get_elf st i;
          case e_parent e of
            None \<Rightarrow> Some (ELF_C_NULL, set_error ELF_E_ARGUMENT 0 st)
          | Some j \<Rightarrow> do {
              parent \<leftarrow> get_elf st j;
              c_assert (e_kind parent = ELF_K_AR);
              c_assert (e_cmd parent = ELF_C_READ);
              p \<leftarrow> e_rawfile e;
              raw \<leftarrow> e_rawfile parent;
              c_assert (fst p = fst raw \<and> snd raw < snd p);
              let next = of_nat (snd p - snd raw) + e_rawsize e;
              let next = (next + 1) AND NOT 1;
              let st = put_elf j (parent\<lparr>e_next := (if sint next \<ge> sint (e_rawsize parent) then 0 else next)\<rparr>) st;
              Some (if sint next > sint (e_rawsize parent) then (ELF_C_NULL, set_error ELF_E_ARGUMENT 0 st)
                    else (ELF_C_READ, st)) } })"

definition elf_rand :: "libelf_state \<Rightarrow> nat option \<Rightarrow> u64 \<Rightarrow> (u64 \<times> libelf_state) option" where
  "elf_rand st ar offset =
     (case ar of
        None \<Rightarrow> Some (0, set_error ELF_E_ARGUMENT 0 st)
      | Some i \<Rightarrow> do {
          e \<leftarrow> get_elf st i;
          if e_kind e \<noteq> ELF_K_AR \<or> offset AND 1 \<noteq> 0 \<or> sint offset < 8 \<or> sint offset \<ge> sint (e_rawsize e)
          then Some (0, set_error ELF_E_ARGUMENT 0 st)
          else if sint (offset + 60) \<le> 0 \<or> sint (offset + 60) \<ge> sint (e_rawsize e)
          then Some (0, set_error ELF_E_ARGUMENT 0 st)
          else do {
            raw \<leftarrow> e_rawfile e;
            arh \<leftarrow> read_ar_hdr (heap st) (ptr_add raw (unat offset));
            if h_fmag arh \<noteq> ARFMAG then Some (0, set_error ELF_E_ARCHIVE 0 st)
            else Some (offset, put_elf i (e\<lparr>e_next := offset\<rparr>) st) } })"

end
