(* ===== verification/Elf_Open.thy ===== *)
theory Elf_Open
  imports Elf_Ar Scn_Data
begin

text \<open>
  Opening and closing descriptors: \<open>libelf_memory.c\<close>, \<open>elf_memory.c\<close>, \<open>libelf_open.c\<close>, \<open>elf_open.c\<close>, \<open>elf_begin.c\<close>,
  \<open>elf_end.c\<close>, the member part of \<open>libelf_ar.c\<close>, and the small accessors \<open>elf_getbase.c\<close>, \<open>elf_getident.c\<close>,
  \<open>elf_rawfile.c\<close>.
\<close>

section \<open>Images in memory: \<open>libelf_memory.c\<close>, \<open>elf_memory.c\<close>\<close>

text \<open>The error of an identification, \<open>ELF_E_NONE\<close> if there is none.\<close>

definition ident_error :: "u32 \<Rightarrow> int \<Rightarrow> u32 \<Rightarrow> Elf_Error" where
  "ident_error byteorder cls version =
     (if version > EV_CURRENT then ELF_E_VERSION
      else if (byteorder \<noteq> ELFDATA2LSB \<and> byteorder \<noteq> ELFDATA2MSB)
        \<or> (cls \<noteq> ELFCLASS32 \<and> cls \<noteq> ELFCLASS64) then ELF_E_HEADER
      else ELF_E_NONE)"

text \<open>The part of \<open>_libelf_memory\<close> that looks at the image.\<close>

definition identify_image ::
  "libelf_state \<Rightarrow> nat \<Rightarrow> ptr \<Rightarrow> u64 \<Rightarrow> bool \<Rightarrow> (nat option \<times> libelf_state) option" where
  "identify_image st i img sz reporterror = do {
     is_elf \<leftarrow> (if sz > of_nat EI_NIDENT
                 then do { m \<leftarrow> mem_read (heap st) img 4; Some (m = ELFMAG) } else Some False);
     if is_elf then do {
       ident \<leftarrow> mem_read (heap st) img 7;
       let byteorder = (ucast (ident ! 5) :: u32);
       let cls = uint (ident ! 4);
       let version = (ucast (ident ! 6) :: u32);
       let err = ident_error byteorder cls version;
       if err \<noteq> ELF_E_NONE then
         if reporterror then do {
           st \<leftarrow> libelf_release_elf (set_error err 0 st) i;
           Some (None, st) }
         else Some (Some i, st)
       else do {
         st \<leftarrow> libelf_init_elf st i ELF_K_ELF;
         e \<leftarrow> get_elf st i;
         Some (Some i, put_elf i
           (e\<lparr>e_byteorder := byteorder, e_class := cls, e_version := version\<rparr>) st) } }
     else do {
       is_ar \<leftarrow> (if sz \<ge> of_nat SARMAG
                  then do { m \<leftarrow> mem_read (heap st) img SARMAG; Some (m = ARMAG) } else Some False);
       if is_ar then libelf_ar_open st i reporterror else Some (Some i, st) } }"

definition libelf_memory ::
  "libelf_state \<Rightarrow> ptr \<Rightarrow> u64 \<Rightarrow> bool \<Rightarrow> (nat option \<times> libelf_state) option" where
  "libelf_memory st img sz reporterror = do {
     c_assert (sz > 0);
     let (r, st) = libelf_allocate_elf st;
     case r of
       None \<Rightarrow> Some (None, st)
     | Some i \<Rightarrow> do {
         e \<leftarrow> get_elf st i;
         identify_image (put_elf i (e\<lparr>e_cmd := ELF_C_READ, e_rawfile := Some img, e_rawsize := sz\<rparr>) st)
           i img sz reporterror } }"

definition elf_memory :: "libelf_state \<Rightarrow> ptr option \<Rightarrow> u64 \<Rightarrow> (nat option \<times> libelf_state) option" where
  "elf_memory st img sz =
     (if libelf_version st = EV_NONE then Some (None, set_error ELF_E_SEQUENCE 0 st)
      else case img of
        None \<Rightarrow> Some (None, set_error ELF_E_ARGUMENT 0 st)
      | Some p \<Rightarrow> if sz = 0 then Some (None, set_error ELF_E_ARGUMENT 0 st) else libelf_memory st p sz True)"

definition elf_openmemory :: "libelf_state \<Rightarrow> ptr option \<Rightarrow> u64 \<Rightarrow> (nat option \<times> libelf_state) option" where
  "elf_openmemory st img sz =
     (if libelf_version st = EV_NONE then Some (None, set_error ELF_E_SEQUENCE 0 st)
      else case img of
        None \<Rightarrow> Some (None, set_error ELF_E_ARGUMENT 0 st)
      | Some p \<Rightarrow> if sz = 0 then Some (None, set_error ELF_E_ARGUMENT 0 st) else libelf_memory st p sz False)"

section \<open>Members of archives: \<open>_libelf_ar_open_member\<close>\<close>

text \<open>Offsets are \<open>off_t\<close>, so the comparisons are signed; \<open>sz -= nsz\<close> is a difference of \<open>size_t\<close>.\<close>

definition member_descriptor ::
  "libelf_state \<Rightarrow> int \<Rightarrow> Elf_Cmd \<Rightarrow> nat \<Rightarrow> ptr \<Rightarrow> ptr \<Rightarrow> u64 \<Rightarrow> (nat option \<times> libelf_state) option" where
  "member_descriptor st fd c j arh member sz = do {
     (r, st) \<leftarrow> elf_memory st (Some member) sz;
     case r of
       None \<Rightarrow> Some (None, st)
     | Some i \<Rightarrow> do {
         e \<leftarrow> get_elf st i;
         let st = put_elf i (e\<lparr>e_fd := fd, e_cmd := c, e_hdr := HDR_RAWHDR arh\<rparr>) st;
         elf \<leftarrow> get_elf st j;
         let st = put_elf j (elf\<lparr>e_nchildren := e_nchildren elf + 1\<rparr>) st;
         e \<leftarrow> get_elf st i;
         Some (Some i, put_elf i (e\<lparr>e_parent := Some j\<rparr>) st) } }"

definition libelf_ar_open_member ::
  "libelf_state \<Rightarrow> int \<Rightarrow> Elf_Cmd \<Rightarrow> nat \<Rightarrow> (nat option \<times> libelf_state) option" where
  "libelf_ar_open_member st fd c j = do {
     elf \<leftarrow> get_elf st j;
     c_assert (e_kind elf = ELF_K_AR);
     let next = e_next elf;
     if next = 0 then Some (None, st)
     else do {
       c_assert (next AND 1 = 0);
       let fin = next + 60;
       if fin < next \<or> sint fin > sint (e_rawsize elf) then Some (None, set_error ELF_E_ARCHIVE 0 st)
       else do {
         raw \<leftarrow> e_rawfile elf;
         let arh = ptr_add raw (unat next);
         h \<leftarrow> read_ar_hdr (heap st) arh;
         n \<leftarrow> libelf_ar_get_number (h_size h) 10;
         case n of
           None \<Rightarrow> Some (None, set_error ELF_E_ARCHIVE 0 st)
         | Some sz \<Rightarrow>
             let fin = fin + sz in
             if sint fin < sint next \<or> sint fin > sint (e_rawsize elf)
             then Some (None, set_error ELF_E_ARCHIVE 0 st)
             else if IS_EXTENDED_BSD_NAME (h_name h) then do {
               n \<leftarrow> libelf_ar_get_number (drop 3 (h_name h)) 10;
               case n of
                 None \<Rightarrow> Some (None, set_error ELF_E_ARCHIVE 0 st)
               | Some nsz \<Rightarrow> member_descriptor st fd c j arh (ptr_add arh (60 + unat nsz)) (sz - nsz) }
             else member_descriptor st fd c j arh (ptr_add arh 60) sz } } }"

section \<open>Files: \<open>libelf_open.c\<close>, \<open>elf_open.c\<close>\<close>

text \<open>
  The system calls, parameters of the model: \<open>fstat\<close> gives the type and size of a file or an error number, \<open>mmap\<close>
  the bytes mapped, the \<open>k\<close>-th \<open>read\<close> of a call, for at most \<open>n\<close> bytes, the bytes read or an error number. \<open>errno\<close> is
  what it holds after a call that has not failed.
\<close>

datatype file_type = S_IFREG | S_IFCHR | S_IFIFO | S_IFSOCK | S_IFOTHER

record os =
  os_fstat :: "int \<Rightarrow> u32 + file_type \<times> u64"
  os_mmap :: "int \<Rightarrow> u64 \<Rightarrow> bytes option"
  os_read :: "int \<Rightarrow> nat \<Rightarrow> nat \<Rightarrow> u32 + bytes"
  os_errno :: u32

text \<open>A buffer the library allocates and fills.\<close>

definition new_buffer :: "libelf_state \<Rightarrow> bytes \<Rightarrow> ptr \<times> libelf_state" where
  "new_buffer st bs =
     ((next_buf st, 0), st\<lparr>heap := (heap st)(next_buf st \<mapsto> bs), next_buf := Suc (next_buf st)\<rparr>)"

text \<open>
  The two loops of \<open>_libelf_read_special_file\<close>: \<open>buf\<close> is what was read so far into a buffer of \<open>bufsz\<close> bytes,
  \<open>k\<close> the number of reads. The result is the error, or the bytes and the size of the buffer. The loop
  ends only when the file does.
\<close>

partial_function (option) read_special ::
  "os \<Rightarrow> int \<Rightarrow> libelf_state \<Rightarrow> bytes \<Rightarrow> u64 \<Rightarrow> nat \<Rightarrow> ((Elf_Error \<times> u32 + bytes \<times> u64) \<times> libelf_state) option"
where
  "read_special os fd st buf bufsz k =
     (let grow = (of_nat (length buf) = bufsz);
          (ok, st) = (if grow then c_alloc st else (True, st));
          bufsz = (if grow then bufsz * 2 else bufsz)
      in if \<not> ok then Some (Inl (ELF_E_RESOURCE, 0), st)
         else do {
           c_assert (bufsz - of_nat (length buf) > 0);
           case os_read os fd k (unat (bufsz - of_nat (length buf))) of
             Inl err \<Rightarrow> Some (Inl (ELF_E_IO, err), st)
           | Inr bs \<Rightarrow>
               if bs = [] then Some (Inr (buf, bufsz), st)
               else do {
                 c_assert (length bs \<le> unat (bufsz - of_nat (length buf)));
                 read_special os fd st (buf @ bs) bufsz (Suc k) } })"

abbreviation "LIBELF_INITSIZE \<equiv> (65536 :: u64)"

definition libelf_read_special_file ::
  "os \<Rightarrow> libelf_state \<Rightarrow> int \<Rightarrow> ((ptr \<times> u64) option \<times> libelf_state) option" where
  "libelf_read_special_file os st fd =
     (let (ok, st) = c_alloc st
      in if \<not> ok then Some (None, set_error ELF_E_RESOURCE 0 st)
         else do {
           (r, st) \<leftarrow> read_special os fd st [] LIBELF_INITSIZE 0;
           Some (case r of
             Inl (err, oserr) \<Rightarrow> (None, set_error err oserr st)
           | Inr (bs, bufsz) \<Rightarrow>
               if bufsz > of_nat (length bs) \<and> bs = [] then (None, set_error ELF_E_ARGUMENT 0 st)
               else
                 let (ok, st) = (if bufsz > of_nat (length bs) then c_alloc st else (True, st))
                 in if \<not> ok then (None, set_error ELF_E_RESOURCE 0 st)
                    else let (p, st) = new_buffer st bs in (Some (p, of_nat (length bs)), st)) })"

text \<open>A regular file, mapped or read. The last component is the flag of the way taken.\<close>

definition open_regular ::
  "os \<Rightarrow> libelf_state \<Rightarrow> int \<Rightarrow> u64 \<Rightarrow> (ptr \<times> u32) option \<times> libelf_state" where
  "open_regular os st fd fsize =
     (case os_mmap os fd fsize of
        Some bs \<Rightarrow> let (p, st) = new_buffer st bs in (Some (p, LIBELF_F_RAWFILE_MMAP), st)
      | None \<Rightarrow>
          let (ok, st) = c_alloc st in
          if \<not> ok then (None, set_error ELF_E_RESOURCE 0 st)
          else case os_read os fd 0 (unat fsize) of
            Inl err \<Rightarrow> (None, set_error ELF_E_IO err st)
          | Inr bs \<Rightarrow>
              if length bs \<noteq> unat fsize then (None, set_error ELF_E_IO (os_errno os) st)
              else let (p, st) = new_buffer st bs in (Some (p, LIBELF_F_RAWFILE_MALLOC), st))"

section \<open>Closing: \<open>elf_end.c\<close>\<close>

text \<open>\<open>RB_FOREACH_SAFE\<close> with \<open>_libelf_release_scn\<close>, from section \<open>x\<close> on.\<close>

partial_function (option) release_scns ::
  "libelf_state \<Rightarrow> nat \<Rightarrow> nat option \<Rightarrow> libelf_state option"
where
  "release_scns st i x =
     (case x of
        None \<Rightarrow> Some st
      | Some k \<Rightarrow> do {
          e \<leftarrow> get_elf st i;
          y \<leftarrow> RB_NEXT (e_scn e) k;
          st \<leftarrow> libelf_release_scn st i k;
          release_scns st i y })"

definition release_rawfile :: "libelf_state \<Rightarrow> Elf \<Rightarrow> libelf_state" where
  "release_rawfile st e =
     (if e_flags e AND LIBELF_F_RAWFILE_MALLOC \<noteq> 0 \<or> e_flags e AND LIBELF_F_RAWFILE_MMAP \<noteq> 0
      then c_free st (e_rawfile e) else st)"

text \<open>The body of the loop for a descriptor that goes away.\<close>

definition end_release :: "libelf_state \<Rightarrow> nat \<Rightarrow> libelf_state option" where
  "end_release st i = do {
     e \<leftarrow> get_elf st i;
     st \<leftarrow> (if e_kind e = ELF_K_ELF then release_scns st i (RB_MIN (e_scn e)) else Some st);
     c_assert (e_kind e \<noteq> ELF_K_NUM);
     let st = release_rawfile st e;
     st \<leftarrow> (case e_parent e of
              None \<Rightarrow> Some st
            | Some j \<Rightarrow> do {
                p \<leftarrow> get_elf st j;
                Some (put_elf j (p\<lparr>e_nchildren := e_nchildren p - 1\<rparr>) st) });
     libelf_release_elf st i }"

partial_function (option) end_loop :: "libelf_state \<Rightarrow> nat option \<Rightarrow> libelf_state option" where
  "end_loop st x =
     (case x of
        None \<Rightarrow> Some st
      | Some i \<Rightarrow> do {
          e \<leftarrow> get_elf st i;
          if e_activations e \<noteq> 0 then Some st
          else if e_kind e = ELF_K_AR \<and> e_nchildren e > 0 then Some st
          else do {
            st \<leftarrow> end_release st i;
            end_loop st (e_parent e) } })"

definition elf_end :: "libelf_state \<Rightarrow> nat option \<Rightarrow> (int \<times> libelf_state) option" where
  "elf_end st e =
     (case e of
        None \<Rightarrow> Some (0, st)
      | Some i \<Rightarrow> do {
          e \<leftarrow> get_elf st i;
          if e_activations e = 0 then Some (0, st)
          else do {
            let n = e_activations e - 1;
            let st = put_elf i (e\<lparr>e_activations := n\<rparr>) st;
            if n > 0 then Some (n, st)
            else do {
              c_assert (n = 0);
              st \<leftarrow> end_loop st (Some i);
              Some (0, st) } } })"

section \<open>\<open>_libelf_open_object\<close>, \<open>elf_begin.c\<close>, \<open>elf_open.c\<close>\<close>

definition libelf_open_object ::
  "os \<Rightarrow> libelf_state \<Rightarrow> int \<Rightarrow> Elf_Cmd \<Rightarrow> bool \<Rightarrow> (nat option \<times> libelf_state) option" where
  "libelf_open_object os st fd c reporterror = do {
     c_assert (c = ELF_C_READ \<or> c = ELF_C_RDWR \<or> c = ELF_C_WRITE);
     case os_fstat os fd of
       Inl err \<Rightarrow> Some (None, set_error ELF_E_IO err st)
     | Inr (mode, fsize) \<Rightarrow>
         if mode = S_IFOTHER then Some (None, set_error ELF_E_ARGUMENT 0 st)
         else if c = ELF_C_WRITE then do {
           let (r, st) = libelf_allocate_elf st;
           case r of
             None \<Rightarrow> Some (None, st)
           | Some i \<Rightarrow> do {
               st \<leftarrow> libelf_init_elf st i ELF_K_ELF;
               e \<leftarrow> get_elf st i;
               Some (Some i, put_elf i
                 (e\<lparr>e_byteorder := libelf_byteorder st, e_fd := fd, e_cmd := c,
                    e_flags := (if mode \<noteq> S_IFREG then e_flags e OR LIBELF_F_SPECIAL_FILE
                                else e_flags e)\<rparr>) st) } }
         else do {
           (m, fsize, flags, st) \<leftarrow>
             (if mode = S_IFREG then
                if fsize = 0 then Some (None, fsize, 0, set_error ELF_E_ARGUMENT 0 st)
                else case open_regular os st fd fsize of
                  (None, st) \<Rightarrow> Some (None, fsize, 0, st)
                | (Some (m, flag), st) \<Rightarrow> Some (Some m, fsize, flag, st)
              else do {
                (r, st) \<leftarrow> libelf_read_special_file os st fd;
                Some (case r of
                  None \<Rightarrow> (None, fsize, 0, st)
                | Some (m, fsize) \<Rightarrow> (Some m, fsize, LIBELF_F_RAWFILE_MALLOC OR LIBELF_F_SPECIAL_FILE, st)) });
           case m of
             None \<Rightarrow> Some (None, st)
           | Some m \<Rightarrow> do {
               (r, st) \<leftarrow> libelf_memory st m fsize reporterror;
               case r of
                 None \<Rightarrow> do {
                   c_assert (flags AND LIBELF_F_RAWFILE_MALLOC \<noteq> 0 \<or> flags AND LIBELF_F_RAWFILE_MMAP \<noteq> 0);
                   Some (None, c_free st (Some m)) }
               | Some i \<Rightarrow> do {
                   e \<leftarrow> get_elf st i;
                   if c = ELF_C_RDWR \<and> e_kind e = ELF_K_AR then do {
                     (n, st) \<leftarrow> elf_end st (Some i);
                     Some (None, set_error ELF_E_ARGUMENT 0 st) }
                   else Some (Some i, put_elf i
                     (e\<lparr>e_flags := e_flags e OR flags, e_fd := fd, e_cmd := c\<rparr>) st) } } } }"

definition elf_begin ::
  "os \<Rightarrow> libelf_state \<Rightarrow> int \<Rightarrow> Elf_Cmd \<Rightarrow> nat option \<Rightarrow> (nat option \<times> libelf_state) option" where
  "elf_begin os st fd c a =
     (if libelf_version st = EV_NONE then Some (None, set_error ELF_E_SEQUENCE 0 st)
      else if c = ELF_C_NULL then Some (None, st)
      else if c = ELF_C_WRITE then libelf_open_object os st fd c True
      else if c \<noteq> ELF_C_RDWR \<and> c \<noteq> ELF_C_READ then Some (None, set_error ELF_E_ARGUMENT 0 st)
      else case a of
        None \<Rightarrow> libelf_open_object os st fd c True
      | Some j \<Rightarrow>
          if c = ELF_C_RDWR then Some (None, set_error ELF_E_ARGUMENT 0 st)
          else do {
            e \<leftarrow> get_elf st j;
            if (e_fd e \<noteq> - 1 \<and> e_fd e \<noteq> fd) \<or> c \<noteq> e_cmd e then Some (None, set_error ELF_E_ARGUMENT 0 st)
            else if e_kind e = ELF_K_AR then libelf_ar_open_member st (e_fd e) c j
            else Some (Some j, put_elf j (e\<lparr>e_activations := e_activations e + 1\<rparr>) st) })"

definition elf_open :: "os \<Rightarrow> libelf_state \<Rightarrow> int \<Rightarrow> (nat option \<times> libelf_state) option" where
  "elf_open os st fd =
     (if libelf_version st = EV_NONE then Some (None, set_error ELF_E_SEQUENCE 0 st)
      else libelf_open_object os st fd ELF_C_READ False)"

section \<open>Accessors: \<open>elf_getbase.c\<close>, \<open>elf_getident.c\<close>, \<open>elf_rawfile.c\<close>\<close>

text \<open>The place of a member in its archive.\<close>

definition elf_getbase :: "libelf_state \<Rightarrow> nat option \<Rightarrow> (u64 \<times> libelf_state) option" where
  "elf_getbase st e =
     (case e of
        None \<Rightarrow> Some (- 1, set_error ELF_E_ARGUMENT 0 st)
      | Some i \<Rightarrow> do {
          e \<leftarrow> get_elf st i;
          case e_parent e of
            None \<Rightarrow> Some (0, st)
          | Some j \<Rightarrow> do {
              parent \<leftarrow> get_elf st j;
              p \<leftarrow> e_rawfile e;
              raw \<leftarrow> e_rawfile parent;
              if fst p = fst raw then Some (of_nat (snd p) - of_nat (snd raw), st) else None } })"

text \<open>The second component is the value stored through \<open>sz\<close>.\<close>

definition elf_getident ::
  "libelf_state \<Rightarrow> nat option \<Rightarrow> (ptr option \<times> u64 \<times> libelf_state) option" where
  "elf_getident st e =
     (case e of
        None \<Rightarrow> Some (None, 0, set_error ELF_E_ARGUMENT 0 st)
      | Some i \<Rightarrow> do {
          e \<leftarrow> get_elf st i;
          if e_cmd e = ELF_C_WRITE \<and> e_rawfile e = None then Some (None, 0, set_error ELF_E_SEQUENCE 0 st)
          else do {
            c_assert (e_kind e \<noteq> ELF_K_AR \<or> e_cmd e = ELF_C_READ);
            Some (e_rawfile e,
              (if e_kind e = ELF_K_AR then of_nat SARMAG
               else if e_kind e = ELF_K_ELF then of_nat EI_NIDENT else e_rawsize e), st) } })"

definition elf_rawfile :: "libelf_state \<Rightarrow> nat option \<Rightarrow> (ptr option \<times> u64 \<times> libelf_state) option" where
  "elf_rawfile st e =
     (case e of
        None \<Rightarrow> Some (None, 0, set_error ELF_E_ARGUMENT 0 st)
      | Some i \<Rightarrow> do {
          e \<leftarrow> get_elf st i;
          Some (e_rawfile e, e_rawsize e,
            (if e_rawfile e = None \<and> e_cmd e = ELF_C_WRITE then set_error ELF_E_SEQUENCE 0 st else st)) })"

section \<open>Opening an image\<close>

lemma read_ar_header_total:
  assumes "window h raw n"
  shows "\<exists>r. READ_AR_HEADER h raw s n = Some r"
proof (cases "s + 60 > n")
  case False
  then obtain bs where "mem_read h (ptr_add raw s) 60 = Some bs"
    using window_sub[OF assms, of s 60] window_readE by (metis not_less)
  then show ?thesis by (auto simp: READ_AR_HEADER_def read_ar_hdr_def libelf_ar_get_number_def)
qed (simp add: READ_AR_HEADER_def)

lemma adjust_even:
  "unat (LIBELF_ADJUST_AR_SIZE sz) mod 2 = 0" "unat (LIBELF_ADJUST_AR_SIZE sz) < 2 ^ 32"
proof -
  have "LIBELF_ADJUST_AR_SIZE sz AND 1 = 0"
    by (simp add: LIBELF_ADJUST_AR_SIZE_def and.assoc)
  then have "unat (LIBELF_ADJUST_AR_SIZE sz mod 2) = 0" by (simp add: and_one_eq)
  then show "unat (LIBELF_ADJUST_AR_SIZE sz) mod 2 = 0" by (simp add: unat_mod)
  have "LIBELF_ADJUST_AR_SIZE sz = (sz + 1) AND 0xFFFFFFFE" by (simp add: LIBELF_ADJUST_AR_SIZE_def)
  then show "unat (LIBELF_ADJUST_AR_SIZE sz) < 2 ^ 32"
    using word_and_le1[of "sz + 1" "0xFFFFFFFE"] by (simp add: word_le_nat_alt)
qed

text \<open>What \<open>_libelf_ar_open\<close> sets besides the kind and the children: the tables, and the place of the first member.\<close>

definition ar_tables :: "Elf \<Rightarrow> Elf \<Rightarrow> bool" where
  "ar_tables e e' \<longleftrightarrow> e' = e\<lparr>e_flags := e_flags e', e_rawsymtab := e_rawsymtab e',
       e_rawsymtabsz := e_rawsymtabsz e', e_rawstrtab := e_rawstrtab e', e_rawstrtabsz := e_rawstrtabsz e'\<rparr>
     \<and> (e_flags e' = e_flags e \<or> e_flags e' = e_flags e OR LIBELF_F_AR_VARIANT_SVR4)"

lemma ar_tables_simps:
  assumes "ar_tables e e'"
  shows "e_kind e' = e_kind e" "e_cmd e' = e_cmd e" "e_parent e' = e_parent e" "e_activations e' = e_activations e"
    "e_rawfile e' = e_rawfile e" "e_rawsize e' = e_rawsize e" "e_scn e' = e_scn e" "e_scns e' = e_scns e"
    "e_ehdr e' = e_ehdr e" "e_nchildren e' = e_nchildren e" "e_symtab e' = e_symtab e"
    "e_phdr e' = e_phdr e" "e_class e' = e_class e"
  using assms by (cases e; cases e'; simp add: ar_tables_def)+

lemma ar_tables_set:
  "ar_tables e e" "ar_tables e (e\<lparr>e_flags := e_flags e OR LIBELF_F_AR_VARIANT_SVR4\<rparr>)"
  "ar_tables e e1 \<Longrightarrow> ar_tables e (fst (ar_symbol_table e1 raw s sz))"
  "ar_tables e e1 \<Longrightarrow> ar_tables e (fst (ar_string_table e1 raw s sz))"
  proof -
  show "ar_tables e e" "ar_tables e (e\<lparr>e_flags := e_flags e OR LIBELF_F_AR_VARIANT_SVR4\<rparr>)"
    by (cases e; simp add: ar_tables_def)+
  show "ar_tables e e1 \<Longrightarrow> ar_tables e (fst (ar_symbol_table e1 raw s sz))"
    "ar_tables e e1 \<Longrightarrow> ar_tables e (fst (ar_string_table e1 raw s sz))"
    by (cases e; cases e1; auto simp: ar_tables_def ar_symbol_table_def ar_string_table_def)+
qed

lemma ar_table_offset:
  "snd (ar_symbol_table e raw s sz) mod 2 = s mod 2" "snd (ar_symbol_table e raw s sz) < s + 60 + 2 ^ 32"
  "snd (ar_string_table e raw s sz) mod 2 = s mod 2" "snd (ar_string_table e raw s sz) < s + 60 + 2 ^ 32"
  "s \<le> snd (ar_symbol_table e raw s sz)" "s \<le> snd (ar_string_table e raw s sz)"
  using adjust_even[of sz] by (auto simp: ar_symbol_table_def ar_string_table_def mod_add_eq[of _ 2, symmetric])

lemma ar_special_total:
  assumes "window h raw (nat (sint (e_rawsize e)))"
  shows "\<exists>e' r. ar_special_members h e raw = Some (e', r) \<and> ar_tables e e'
    \<and> (\<forall>s. r = Some s \<longrightarrow> s mod 2 = 0 \<and> 8 \<le> s \<and> s < 2 ^ 34)"
  proof -
  let ?n = "nat (sint (e_rawsize e))"
  let ?e = "e\<lparr>e_flags := e_flags e OR LIBELF_F_AR_VARIANT_SVR4\<rparr>"
  note hdr = read_ar_header_total[OF assms]
  from hdr[of SARMAG] obtain r where r: "READ_AR_HEADER h raw SARMAG ?n = Some r" by blast
  show ?thesis
  proof (cases r)
    case None
    then show ?thesis using r ar_tables_set(1) by (simp add: ar_special_members_def)
  next
    case (Some x)
    then obtain arh sz where x: "r = Some (arh, sz)" by (cases x) simp
    obtain e1 s1 where t1: "ar_symbol_table ?e raw SARMAG sz = (e1, s1)" by (cases "ar_symbol_table ?e raw SARMAG sz")
    from hdr[of s1] obtain r2 where r2: "READ_AR_HEADER h raw s1 ?n = Some r2" by blast
    have s1: "s1 mod 2 = 0" "8 \<le> s1" "s1 < 68 + 2 ^ 32" and e1: "ar_tables e e1"
      using ar_table_offset(1,2,5)[where e = ?e and raw = raw and s = SARMAG and sz = sz] ar_tables_set(3)[OF ar_tables_set(2)[of e], of raw SARMAG sz] t1
      by simp_all
    let ?ok = "\<lambda>t. ar_tables e (fst t) \<and> snd t mod 2 = 0 \<and> 8 \<le> snd t \<and> snd t < 2 ^ 34"
    let ?Q = "\<lambda>u. \<exists>e' r. u = Some (e', r) \<and> ar_tables e e' \<and> (\<forall>s. r = Some s \<longrightarrow> s mod 2 = 0 \<and> 8 \<le> s \<and> s < 2 ^ 34)"
    have table: "?ok (ar_symbol_table e' raw s z)" "?ok (ar_string_table e' raw s z)"
      if "ar_tables e e'" "s mod 2 = 0" "8 \<le> s" "s < 68 + 2 ^ 32" for e' s z
      using that ar_table_offset[where e = e' and raw = raw and s = s and sz = z] ar_tables_set(3,4)[OF that(1), of raw s z] by auto
    have Q: "?Q (Some (map_prod id Some t))" if "?ok t" for t
      using that by (cases t) auto
    have Q0: "?Q (Some (x, None))" "?Q (Some (x, Some SARMAG))" if "ar_tables e x" for x
      using that by auto
    note sets = ar_tables_set(1,2)[of e]
    have second: "?Q (Some (case r2 of None \<Rightarrow> (e1, None) | Some (arh, sz) \<Rightarrow>
        if h_name arh ! 0 = SLASH \<and> h_name arh ! 1 = SLASH \<and> h_name arh ! 2 = BLANK
        then map_prod id Some (ar_string_table e1 raw s1 sz) else (e1, Some s1)))"
      using Q[OF table(2)[OF e1 s1]] Q0(1)[OF e1] s1 e1
      by (cases r2) (auto split: prod.splits if_splits simp del: One_nat_def)
    show ?thesis
      unfolding ar_special_members_def Let_def r x bind.simps option.case prod.case t1 r2
      using second Q[OF table(1)[OF sets(1)]] Q[OF table(2)[OF sets(2)]] Q0 sets
      by (simp split: if_split del: One_nat_def)
  qed
qed

text \<open>A descriptor as it is after opening the image of \<open>sz\<close> bytes at \<open>img\<close>.\<close>

definition opened :: "libelf_state \<Rightarrow> ptr \<Rightarrow> u64 \<Rightarrow> Elf \<Rightarrow> bool" where
  "opened st img sz e \<longleftrightarrow> elf_inv st e \<and> e_rawfile e = Some img \<and> e_rawsize e = sz \<and> e_cmd e = ELF_C_READ
     \<and> e_parent e = None \<and> e_activations e = 1 \<and> e_nchildren e = 0 \<and> e_symtab e = None
     \<and> e_scn e = RB_NULL \<and> e_scns e = Map.empty \<and> e_ehdr e = None \<and> e_phdr e = None \<and> e_nphdr e = 0
     \<and> (e_flags e = 0 \<or> e_flags e = LIBELF_F_AR_VARIANT_SVR4) \<and> e_hdr e = HDR_NULL \<and> e_fd e = - 1
     \<and> (e_kind e = ELF_K_NONE \<or> e_kind e = ELF_K_AR \<or> e_kind e = ELF_K_ELF)
     \<and> (e_kind e = ELF_K_AR \<longrightarrow> (\<exists>s. e_next e = of_nat s \<and> s mod 2 = 0 \<and> 8 \<le> s \<and> s < 2 ^ 34))"

text \<open>The identification bytes of an image that is long enough and has the magic number.\<close>

definition elf_ident :: "bytes \<Rightarrow> (u32 \<times> int \<times> u32) option" where
  "elf_ident bs =
     (if EI_NIDENT < length bs \<and> take 4 bs = ELFMAG
      then Some (ucast (bs ! 5), uint (bs ! 4), ucast (bs ! 6)) else None)"

text \<open>An image with a magic number that is refused for what follows it.\<close>

definition refused :: "bytes \<Rightarrow> bool" where
  "refused bs \<longleftrightarrow>
     (case elf_ident bs of Some (bo, cls, ver) \<Rightarrow> ident_error bo cls ver \<noteq> ELF_E_NONE
      | None \<Rightarrow> SARMAG \<le> length bs \<and> take SARMAG bs = ARMAG)"

text \<open>What opening does with the descriptor of number \<open>i\<close>: the others stay, and no memory is written.\<close>

definition open_frame :: "nat \<Rightarrow> libelf_state \<Rightarrow> libelf_state \<Rightarrow> bool" where
  "open_frame i st st' \<longleftrightarrow> frame_ok i st st' \<and> next_buf st' = next_buf st \<and> malloc_ok st' = malloc_ok st
     \<and> (next_elf st' = Suc i \<or> next_elf st' = i \<and> st' = set_error ELF_E_RESOURCE ENOMEM (snd (c_alloc st)))"

lemma mem_read_take:
  "mem_read h p k = Some bs \<Longrightarrow> n \<le> k \<Longrightarrow> mem_read h p n = Some (take n bs)"
  using mem_read_sub[of h p k bs 0 n] by simp

lemma ar_open_ok:
  assumes e: "get_elf st i = Some e" "e_kind e = ELF_K_NONE" "e_rawfile e = Some img" "0 < sint (e_rawsize e)"
    and w: "window (heap st) img (nat (sint (e_rawsize e)))"
  shows "\<exists>r e' s. libelf_ar_open st i b = Some (r, if r = None then set_error ELF_E_ARCHIVE 0 (put_elf i e' st) else put_elf i e' st)
    \<and> ar_tables (e\<lparr>e_kind := e_kind e', e_nchildren := 0, e_next := e_next e'\<rparr>) e'
    \<and> (r = None \<or> r = Some i) \<and> (\<not> b \<longrightarrow> r \<noteq> None)
    \<and> (e_kind e' = ELF_K_AR \<and> (r \<noteq> None \<longrightarrow> e_next e' = of_nat s \<and> s mod 2 = 0 \<and> 8 \<le> s \<and> s < 2 ^ 34)
       \<or> e_kind e' = ELF_K_NONE)"
proof -
  let ?e = "e\<lparr>e_kind := ELF_K_AR\<rparr>"
  let ?e1 = "?e\<lparr>e_nchildren := 0, e_next := - 1\<rparr>"
  have i: "libelf_init_elf st i ELF_K_AR = Some (put_elf i ?e st)"
    using e by (simp add: libelf_init_elf_def Let_def)
  have "window (heap (put_elf i ?e st)) img (nat (sint (e_rawsize ?e1)))" using w by simp
  from ar_special_total[OF this] obtain e2 r where s: "ar_special_members (heap (put_elf i ?e st)) ?e1 img = Some (e2, r)"
    "ar_tables ?e1 e2" "\<forall>s. r = Some s \<longrightarrow> s mod 2 = 0 \<and> 8 \<le> s \<and> s < 2 ^ 34" by blast
  have o: "libelf_ar_open st i b = Some (case r of
         Some s \<Rightarrow> (Some i, put_elf i (e2\<lparr>e_next := of_nat s\<rparr>) (put_elf i ?e st))
       | None \<Rightarrow>
           if \<not> b then (Some i, put_elf i (e2\<lparr>e_kind := ELF_K_NONE\<rparr>) (put_elf i ?e st))
           else (None, set_error ELF_E_ARCHIVE 0 (put_elf i e2 (put_elf i ?e st))))"
    unfolding libelf_ar_open_def i bind.simps elf_store_simps(1) Let_def using e(3,4) s(1) by simp
  have t: "ar_tables (e\<lparr>e_kind := k, e_nchildren := 0, e_next := n\<rparr>) (e2\<lparr>e_kind := k, e_next := n\<rparr>)" for k n
    using s(2) by (cases e; cases e2) (simp add: ar_tables_def)
  have k: "e_kind e2 = ELF_K_AR" "e_next e2 = - 1" using ar_tables_simps(1)[OF s(2)] s(2) by (cases e2; simp add: ar_tables_def)+
  show ?thesis
  proof (cases r)
    case (Some n)
    have n: "e2\<lparr>e_next := of_nat n\<rparr> = e2\<lparr>e_kind := ELF_K_AR, e_next := of_nat n\<rparr>" using k by (cases e2) simp
    show ?thesis using o s(3) t[where k = ELF_K_AR and n = "of_nat n", folded n] k Some
      by (intro exI[of _ "Some i"] exI[of _ "e2\<lparr>e_next := of_nat n\<rparr>"] exI[of _ n]) simp
  next
    case None
    have n: "e2 = e2\<lparr>e_kind := ELF_K_AR, e_next := - 1\<rparr>" using k by (cases e2) simp
    show ?thesis
    proof (cases b)
      case True
      then show ?thesis using o None t[where k = ELF_K_AR and n = "- 1", folded n] k
        by (intro exI[of _ None] exI[of _ e2]) simp
    next
      case False
      have n: "e2\<lparr>e_kind := ELF_K_NONE\<rparr> = e2\<lparr>e_kind := ELF_K_NONE, e_next := - 1\<rparr>" using k by (cases e2) simp
      show ?thesis using o None t[where k = ELF_K_NONE and n = "- 1", folded n] False k(2)
        by (intro exI[of _ "Some i"] exI[of _ "e2\<lparr>e_kind := ELF_K_NONE\<rparr>"]) simp
    qed
  qed
qed

lemma allocate_elf_cases:
  obtains (fail) "\<not> fst (c_alloc st)" "libelf_allocate_elf st = (None, set_error ELF_E_RESOURCE ENOMEM (snd (c_alloc st)))"
  | (ok) st1 where "fst (c_alloc st)" "libelf_allocate_elf st = (Some (next_elf st), st1)"
      "st1 = put_elf (next_elf st) (initial_elf (libelf_version st)) ((snd (c_alloc st))\<lparr>next_elf := Suc (next_elf st)\<rparr>)"
proof (cases "fst (c_alloc st)")
  case True
  have f: "next_elf (snd (c_alloc st)) = next_elf st" "libelf_version (snd (c_alloc st)) = libelf_version st"
    by (simp_all add: c_alloc_def)
  show thesis by (rule ok) (use True f in \<open>simp_all add: libelf_allocate_elf_def case_prod_unfold Let_def\<close>)
next
  case False
  show thesis by (rule fail) (use False in \<open>simp_all add: libelf_allocate_elf_def case_prod_unfold Let_def\<close>)
qed

lemma opened_initial:
  assumes "window (heap st) img (unat sz)" "0 < sint sz"
    and "e = (initial_elf v)\<lparr>e_kind := k, e_flags := fl, e_cmd := ELF_C_READ, e_rawfile := Some img, e_rawsize := sz,
       e_byteorder := bo, e_class := cls, e_version := ver, e_next := nx, e_rawsymtab := sy, e_rawsymtabsz := sysz,
       e_rawstrtab := str, e_rawstrtabsz := strsz\<rparr>"
    and "fl = 0 \<or> fl = LIBELF_F_AR_VARIANT_SVR4" "k = ELF_K_NONE \<or> k = ELF_K_AR \<or> k = ELF_K_ELF"
    and "k = ELF_K_AR \<Longrightarrow> \<exists>s. nx = of_nat s \<and> s mod 2 = 0 \<and> 8 \<le> s \<and> s < 2 ^ 34"
  shows "opened st img sz e"
  using assms
  by (simp add: opened_def elf_inv_def scn_inv_def hdr_inv_def raw_ok_def initial_elf_def rb_inv_def rb_keys_def)

lemma open_frameI:
  "frame_ok i st st' \<Longrightarrow> next_buf st' = next_buf st \<Longrightarrow> malloc_ok st' = malloc_ok st \<Longrightarrow> next_elf st' = Suc i \<Longrightarrow>
   open_frame i st st'"
  by (simp add: open_frame_def)

lemma state_fields [simp]:
  "next_elf (put_elf i e st) = next_elf st" "next_buf (put_elf i e st) = next_buf st"
  "next_elf (snd (c_alloc st)) = next_elf st" "next_buf (snd (c_alloc st)) = next_buf st"
  "libelf_version (snd (c_alloc st)) = libelf_version st"
  "malloc_ok (put_elf i e st) = malloc_ok st" "malloc_ok (snd (c_alloc st)) = malloc_ok st"
  "malloc_ok (set_error er os st) = malloc_ok st"
  by (simp_all add: put_elf_def c_alloc_def set_error_def)

lemma identify_image_ok:
  assumes bs: "mem_read (heap st) img (unat sz) = Some bs" and sz: "0 < sint sz"
    and e: "get_elf st i = Some e" "e = (initial_elf v)\<lparr>e_cmd := ELF_C_READ, e_rawfile := Some img, e_rawsize := sz\<rparr>"
  shows "\<exists>r st'. identify_image st i img sz b = Some (r, st')
    \<and> frame_ok i st st' \<and> next_buf st' = next_buf st \<and> next_elf st' = next_elf st \<and> malloc_ok st' = malloc_ok st
    \<and> (\<forall>j. r = Some j \<longrightarrow> j = i
        \<and> (\<exists>e. get_elf st' i = Some e \<and> opened st' img sz e
            \<and> (e_kind e = ELF_K_ELF \<longleftrightarrow>
                 elf_ident bs = Some (e_byteorder e, e_class e, e_version e)
                 \<and> ident_error (e_byteorder e) (e_class e) (e_version e) = ELF_E_NONE)))
    \<and> (r = None \<longrightarrow> b \<and> refused bs)"
proof -
  have len: "length bs = unat sz" using bs by (rule mem_read_length)
  have big: "sz > of_nat EI_NIDENT \<longleftrightarrow> EI_NIDENT < length bs" "sz \<ge> of_nat SARMAG \<longleftrightarrow> SARMAG \<le> length bs"
    by (simp_all add: word_less_nat_alt word_le_nat_alt len)
  have w: "window (heap st) img (unat sz)" using bs by (simp add: window_def)
  have n: "nat (sint sz) = unat sz" using sz sint_unat_nonneg[of sz] by simp
  let ?is = "EI_NIDENT < length bs \<and> take 4 bs = ELFMAG"
  have ise: "(if sz > of_nat EI_NIDENT then do { m \<leftarrow> mem_read (heap st) img 4; Some (m = ELFMAG) } else Some False) = Some ?is"
    using mem_read_take[OF bs, of 4] len unfolding big(1) by simp
  show ?thesis
  proof (cases "elf_ident bs")
    case None
    then have no: "\<not> ?is" by (auto simp: elf_ident_def)
    let ?ar = "SARMAG \<le> length bs \<and> take SARMAG bs = ARMAG"
    have ar: "(if sz \<ge> of_nat SARMAG then do { m \<leftarrow> mem_read (heap st) img SARMAG; Some (m = ARMAG) } else Some False) = Some ?ar"
      using mem_read_take[OF bs, of SARMAG] len unfolding big(2) by simp
    have m: "identify_image st i img sz b = (if ?ar then libelf_ar_open st i b else Some (Some i, st))"
      unfolding identify_image_def ise bind.simps if_not_P[OF no] ar ..
    show ?thesis
    proof (cases ?ar)
      case False
      have "opened st img sz e"
        by (rule opened_initial[OF w sz, where v = v and k = ELF_K_NONE and fl = 0])
          (use e(2) in \<open>simp_all add: initial_elf_def\<close>)
      then show ?thesis using m False e None by (simp add: initial_elf_def)
    next
      case True
      have k: "e_kind e = ELF_K_NONE" "e_rawfile e = Some img" "0 < sint (e_rawsize e)"
        "window (heap st) img (nat (sint (e_rawsize e)))"
        using e(2) sz w n by (simp_all add: initial_elf_def)
      from ar_open_ok[OF e(1) k, of b] obtain r e' s where r:
        "libelf_ar_open st i b = Some (r, if r = None then set_error ELF_E_ARCHIVE 0 (put_elf i e' st) else put_elf i e' st)"
        "ar_tables (e\<lparr>e_kind := e_kind e', e_nchildren := 0, e_next := e_next e'\<rparr>) e'"
        "r = None \<or> r = Some i" "\<not> b \<longrightarrow> r \<noteq> None"
        "e_kind e' = ELF_K_AR \<and> (r \<noteq> None \<longrightarrow> e_next e' = of_nat s \<and> s mod 2 = 0 \<and> 8 \<le> s \<and> s < 2 ^ 34)
         \<or> e_kind e' = ELF_K_NONE"
        by (elim exE conjE) (rule that)
      have "opened st img sz e'" if "r \<noteq> None"
        by (rule opened_initial[OF w sz, where v = v and k = "e_kind e'" and fl = "e_flags e'" and nx = "e_next e'"
             and sy = "e_rawsymtab e'" and sysz = "e_rawsymtabsz e'" and str = "e_rawstrtab e'" and strsz = "e_rawstrtabsz e'"])
          (use e(2) r(2,5) that in \<open>auto simp: initial_elf_def ar_tables_def\<close>)
      then show ?thesis using m True r(1,3-5) None by (auto simp: opened_def refused_def)
    qed
  next
    case (Some x)
    then have yes: ?is by (auto simp: elf_ident_def split: if_splits)
    let ?bo = "ucast (bs ! 5) :: u32" and ?cls = "uint (bs ! 4)" and ?ver = "ucast (bs ! 6) :: u32"
    have id: "elf_ident bs = Some (?bo, ?cls, ?ver)" using yes by (simp add: elf_ident_def)
    have rd: "mem_read (heap st) img 7 = Some (take 7 bs)" using mem_read_take[OF bs, of 7] yes len by simp
    show ?thesis
    proof (cases "ident_error ?bo ?cls ?ver = ELF_E_NONE")
      case True
      let ?e = "e\<lparr>e_kind := ELF_K_ELF, e_scn := RB_NULL, e_scns := Map.empty, e_byteorder := ?bo, e_class := ?cls, e_version := ?ver\<rparr>"
      have "identify_image st i img sz b = Some (Some i, put_elf i ?e st)"
        unfolding identify_image_def ise bind.simps if_P[OF yes] rd Let_def
        using True e by (simp add: libelf_init_elf_def Let_def initial_elf_def)
      moreover have "opened (put_elf i ?e st) img sz ?e"
        by (rule opened_initial[where v = v and k = ELF_K_ELF and fl = 0, OF _ sz])
          (use e(2) w in \<open>simp_all add: initial_elf_def\<close>)
      ultimately show ?thesis using id True by simp
    next
      case False
      have "identify_image st i img sz b = (if b then do {
             st \<leftarrow> libelf_release_elf (set_error (ident_error ?bo ?cls ?ver) 0 st) i; Some (None, st) }
           else Some (Some i, st))"
        unfolding identify_image_def ise bind.simps if_P[OF yes] rd Let_def using False by simp
      moreover have "opened st img sz e"
        by (rule opened_initial[OF w sz, where v = v and k = ELF_K_NONE and fl = 0])
          (use e(2) in \<open>simp_all add: initial_elf_def\<close>)
      moreover have "e_byteorder e = 0" "e_kind e = ELF_K_NONE" "e_scn e = RB_NULL"
        using e(2) by (simp_all add: initial_elf_def)
      moreover have "refused bs" "ident_error 0 cls v \<noteq> ELF_E_NONE" for cls v
        using id False by (simp_all add: refused_def ident_error_def)
      ultimately show ?thesis using id e(1)
        by (auto simp: libelf_release_elf_def frame_ok_def get_elf_def)
    qed
  qed
qed

lemma libelf_memory_ok:
  assumes bs: "mem_read (heap st) img (unat sz) = Some bs" and sz: "0 < sint sz"
  shows "\<exists>r st'. libelf_memory st img sz b = Some (r, st') \<and> open_frame (next_elf st) st st'
    \<and> (\<forall>i. r = Some i \<longrightarrow> i = next_elf st \<and> next_elf st' = Suc i
        \<and> (\<exists>e. get_elf st' i = Some e \<and> opened st' img sz e
            \<and> (e_kind e = ELF_K_ELF \<longleftrightarrow>
                 elf_ident bs = Some (e_byteorder e, e_class e, e_version e)
                 \<and> ident_error (e_byteorder e) (e_class e) (e_version e) = ELF_E_NONE)))
    \<and> (r = None \<longrightarrow> \<not> fst (c_alloc st) \<or> b \<and> refused bs)"
proof -
  have pos: "sz > 0" using sz by (auto simp: word_neq_0_conv[symmetric])
  show ?thesis
  proof (cases st rule: allocate_elf_cases)
    case fail
    then show ?thesis using pos by (auto simp: libelf_memory_def open_frame_def intro!: exI[of _ None])
  next
    case (ok st1)
    let ?i = "next_elf st"
    let ?e = "(initial_elf (libelf_version st))\<lparr>e_cmd := ELF_C_READ, e_rawfile := Some img, e_rawsize := sz\<rparr>"
    let ?st = "put_elf ?i ?e st1"
    have h: "heap ?st = heap st" "frame_ok ?i st ?st" "next_buf ?st = next_buf st" "next_elf ?st = Suc ?i"
      "malloc_ok ?st = malloc_ok st"
      by (simp_all add: ok(3) frame_ok_def c_alloc_def put_elf_def get_elf_def)
    have m: "libelf_memory st img sz b = identify_image ?st ?i img sz b"
      using ok(2) pos by (simp add: libelf_memory_def ok(3))
    have "mem_read (heap ?st) img (unat sz) = Some bs" using bs h(1) by simp
    from identify_image_ok[OF this sz elf_store_simps(1) refl, of b] obtain r st' where r:
      "identify_image ?st ?i img sz b = Some (r, st')" "frame_ok ?i ?st st'" "next_buf st' = next_buf ?st"
      "next_elf st' = next_elf ?st" "malloc_ok st' = malloc_ok ?st" "\<forall>j. r = Some j \<longrightarrow> j = ?i
        \<and> (\<exists>e. get_elf st' ?i = Some e \<and> opened st' img sz e
            \<and> (e_kind e = ELF_K_ELF \<longleftrightarrow>
                 elf_ident bs = Some (e_byteorder e, e_class e, e_version e)
                 \<and> ident_error (e_byteorder e) (e_class e) (e_version e) = ELF_E_NONE))" "r = None \<longrightarrow> b \<and> refused bs" by blast
    have "open_frame ?i st st'"
      by (rule open_frameI[OF frame_trans[OF h(2) r(2)]]) (use r(3-5) h(3-5) in simp_all)
    then show ?thesis using m r(1,4,6,7) h(4) by auto
  qed
qed

section \<open>Sections that were only read\<close>

text \<open>Reading the header and the section table adds no data descriptor to a section and allocates no buffer.\<close>

definition only_read :: "Elf \<Rightarrow> bool" where
  "only_read e \<longleftrightarrow> (\<forall>n s. e_scns e n = Some s \<longrightarrow> s_data s = [] \<and> s_rawdata s = [])
     \<and> e_kind e = ELF_K_ELF \<and> e_cmd e = ELF_C_READ \<and> (e_class e = ELFCLASS32 \<or> e_class e = ELFCLASS64)
     \<and> e_nphdr e < 2 ^ 32"

definition st_read :: "nat \<Rightarrow> nat \<Rightarrow> libelf_state \<Rightarrow> bool" where
  "st_read nb i st \<longleftrightarrow> next_buf st = nb \<and> (\<forall>e. get_elf st i = Some e \<longrightarrow> only_read e)"

lemma st_read_simps [simp]:
  "st_read nb i (set_error er os st) = st_read nb i st" "st_read nb i (snd (c_alloc st)) = st_read nb i st"
  "st_read nb i (put_elf i e st) \<longleftrightarrow> next_buf st = nb \<and> only_read e"
  by (simp_all add: st_read_def)

lemma st_read_buf: "st_read nb i st \<Longrightarrow> next_buf st = nb"
  by (simp add: st_read_def)

lemma only_read_upd [simp]:
  "only_read (e\<lparr>e_ehdr := x\<rparr>) = only_read e" "only_read e \<Longrightarrow> only_read (e\<lparr>e_nphdr := y\<rparr>) = (y < 2 ^ 32)"
  "only_read (e\<lparr>e_nscn := y\<rparr>) = only_read e" "only_read (e\<lparr>e_strndx := y\<rparr>) = only_read e"
  "only_read (e\<lparr>e_flags := f\<rparr>) = only_read e"
  by (simp_all add: only_read_def)

lemma only_read_put:
  "only_read e \<Longrightarrow> s_data s = [] \<Longrightarrow> s_rawdata s = [] \<Longrightarrow> e_scns e' = (e_scns e)(n \<mapsto> s) \<Longrightarrow>
   e_kind e' = e_kind e \<Longrightarrow> e_cmd e' = e_cmd e \<Longrightarrow> e_class e' = e_class e \<Longrightarrow> e_nphdr e' = e_nphdr e \<Longrightarrow> only_read e'"
  by (auto simp: only_read_def)

lemma ucast_count [simp]: "(ucast (x :: u16) :: u64) < 0x100000000" "(ucast (y :: u32) :: u64) < 0x100000000"
proof -
  have "unat (ucast x :: u64) = unat x" "unat (ucast y :: u64) = unat y" by (transfer; simp)+
  then show "(ucast x :: u64) < 0x100000000" "(ucast y :: u64) < 0x100000000"
    using unat_lt2p[of x] unat_lt2p[of y] by (simp_all add: word_less_nat_alt)
qed

lemma allocate_scn_only_read:
  assumes "libelf_allocate_scn st i n = Some (r, st')" "st_read nb i st"
  shows "st_read nb i st'"
proof (cases "fst (c_alloc st)")
  case False
  then show ?thesis using assms by (auto simp: libelf_allocate_scn_def Let_def case_prod_unfold)
next
  case True
  then obtain e t where e: "get_elf st i = Some e"
    "st' = put_elf i (e\<lparr>e_scn := t, e_scns := (e_scns e)(n \<mapsto> new_scn (e_class e) n)\<rparr>) (snd (c_alloc st))"
    using assms(1) by (auto simp: libelf_allocate_scn_def Let_def case_prod_unfold bind_Some_iff)
  have nd: "only_read e" "next_buf st = nb" using assms(2) e(1) by (simp_all add: st_read_def)
  have "only_read (e\<lparr>e_scn := t, e_scns := (e_scns e)(n \<mapsto> new_scn (e_class e) n)\<rparr>)"
    by (rule only_read_put[OF nd(1), where s = "new_scn (e_class e) n"]) (simp_all add: new_scn_def)
  then show ?thesis unfolding e(2) using nd(2) by simp
qed

lemma put_scn_only_read:
  assumes "put_scn i n s st = Some st'" "st_read nb i st" "s_data s = []" "s_rawdata s = []"
  shows "st_read nb i st'"
proof -
  obtain e where e: "get_elf st i = Some e" "st' = put_elf i (e\<lparr>e_scns := (e_scns e)(n \<mapsto> s)\<rparr>) st"
    using assms(1) by (auto simp: put_scn_def bind_Some_iff)
  have nd: "only_read e" "next_buf st = nb" using assms(2) e(1) by (simp_all add: st_read_def)
  have "only_read (e\<lparr>e_scns := (e_scns e)(n \<mapsto> s)\<rparr>)" by (rule only_read_put[OF nd(1) assms(3,4)]) simp_all
  then show ?thesis unfolding e(2) using nd(2) by simp
qed

lemma get_scn_only_read:
  assumes "get_scn st i n = Some s" "st_read nb i st"
  shows "s_data s = []" "s_rawdata s = []"
proof -
  obtain e where "get_elf st i = Some e" "e_scns e n = Some s"
    using assms(1) by (auto simp: get_scn_def bind_Some_iff)
  then show "s_data s = []" "s_rawdata s = []" using assms(2) by (simp_all add: st_read_def only_read_def)
qed

lemma load_scns_only_read:
  "load_scns n st i ec off k = Some (r, st') \<Longrightarrow> st_read nb i st \<Longrightarrow> st_read nb i st'"
proof (induction n arbitrary: st off k)
  case 0
  then show ?case by simp
next
  case (Suc n)
  obtain r1 st1 where a: "libelf_allocate_scn st i k = Some (r1, st1)"
    using Suc.prems(1) by (auto simp: bind_Some_iff)
  have d1: "st_read nb i st1" by (rule allocate_scn_only_read[OF a Suc.prems(2)])
  show ?case
  proof (cases r1)
    case None
    then show ?thesis using Suc.prems(1) a d1 by simp
  next
    case (Some k')
    then obtain sh s st2 where b: "get_scn st1 i k' = Some s"
      "put_scn i k' (s\<lparr>s_shdr := sh, s_offset := shdr_offset sh, s_rawoff := shdr_offset sh, s_size := shdr_size sh\<rparr>) st1 = Some st2"
      "load_scns n st2 i ec (off + FSZ ec (Shdr_DEF ec)) (Suc k) = Some (r, st')"
      using Suc.prems(1) a by (auto simp: bind_Some_iff)
    have "st_read nb i st2"
      by (rule put_scn_only_read[OF b(2) d1]) (use get_scn_only_read[OF b(1) d1] in simp_all)
    then show ?thesis by (rule Suc.IH[OF b(3)])
  qed
qed

lemma fsize_only_read:
  "libelf_fsize st t ec v c = (z, st') \<Longrightarrow> st_read nb i st' = st_read nb i st"
  by (auto simp: libelf_fsize_def Let_def split: if_splits)

lemma load_extended_only_read:
  assumes r: "libelf_load_extended st i ec shoff phnum strndx = Some (r, st')" and d: "st_read nb i st"
  shows "st_read nb i st'"
proof -
  obtain e where e: "get_elf st i = Some e" using r by (auto simp: libelf_load_extended_def bind_Some_iff)
  obtain fsz st1 where f: "libelf_fsize st ELF_T_SHDR ec (e_version e) 1 = (fsz, st1)"
    by (cases "libelf_fsize st ELF_T_SHDR ec (e_version e) 1")
  have d1: "st_read nb i st1" using fsize_only_read[OF f, of nb i] d by simp
  show ?thesis
  proof (cases "shoff + fsz < shoff \<or> e_rawsize e < shoff + fsz")
    case True
    then show ?thesis using r e f d1 by (auto simp: libelf_load_extended_def split: if_splits)
  next
    case False
    then obtain r2 st2 where a: "libelf_allocate_scn st1 i 0 = Some (r2, st2)"
      using r e f by (auto simp: libelf_load_extended_def bind_Some_iff)
    have d2: "st_read nb i st2" by (rule allocate_scn_only_read[OF a d1])
    show ?thesis
    proof (cases r2)
      case None
      then show ?thesis using r e f a d2 False by (auto simp: libelf_load_extended_def split: if_splits)
    next
      case (Some n)
      obtain e2 where e2: "get_elf st2 i = Some e2" using r e f a False Some
        by (auto simp: libelf_load_extended_def bind_Some_iff)
      have nd: "only_read e2" using d2 e2 by (simp add: st_read_def)
      have upd: "only_read (e2\<lparr>e_scns := (e_scns e2)(n \<mapsto> s\<lparr>s_shdr := sh\<rparr>)\<rparr>)" if "e_scns e2 n = Some s" for s sh
        by (rule only_read_put[OF nd, where s = "s\<lparr>s_shdr := sh\<rparr>"]) (use nd that in \<open>simp_all add: only_read_def\<close>)
      show ?thesis
        using r e f a False Some e2 upd st_read_buf[OF d2] by (auto simp: libelf_load_extended_def bind_Some_iff Let_def split: if_splits)
    qed
  qed
qed

lemma ehdr_from_file_only_read:
  assumes r: "ehdr_from_file st i ec = Some (r, st')" and d: "st_read nb i st"
  shows "st_read nb i st'"
proof -
  obtain e where e: "get_elf st i = Some e" using r by (auto simp: ehdr_from_file_def bind_Some_iff)
  then have nd: "only_read e" using d by (simp add: st_read_def)
  have "st_read nb i st'" if "libelf_load_extended (put_elf i (e\<lparr>e_ehdr := Some eh\<rparr>) st) i ec x y z = Some (r, st')"
    for eh x y z by (rule load_extended_only_read[OF that]) (use nd st_read_buf[OF d] in simp)
  then show ?thesis using r e nd st_read_buf[OF d] by (auto simp: ehdr_from_file_def bind_Some_iff Let_def split: if_splits)
qed

lemma libelf_ehdr_only_read:
  assumes r: "libelf_ehdr st (Some i) ec a = Some (r, st')" and d: "st_read nb i st"
  shows "st_read nb i st'"
proof -
  obtain e where e: "get_elf st i = Some e" using r by (auto simp: libelf_ehdr_def bind_Some_iff split: if_splits)
  then have nd: "only_read e" using d by (simp add: st_read_def)
  define e1 where "e1 = (if e_class e = ELFCLASSNONE then e\<lparr>e_class := ec\<rparr> else e)"
  then have e1: "e1 = e" using nd by (auto simp: only_read_def)
  then have n1: "only_read e1" using nd by simp
  obtain fsz st1 where f: "libelf_fsize (put_elf i e1 st) ELF_T_EHDR ec (e_version e1) 1 = (fsz, st1)"
    by (cases "libelf_fsize (put_elf i e1 st) ELF_T_EHDR ec (e_version e1) 1")
  have d1: "st_read nb i st1" using fsize_only_read[OF f, of nb i] n1 st_read_buf[OF d] by simp
  have ms: "libelf_msize st1 ELF_T_EHDR ec EV_CURRENT = Some (z, st2) \<Longrightarrow> st_read nb i st2" for z st2
    using d1 by (auto simp: libelf_msize_def bind_Some_iff Let_def split: if_splits)
  have last: "st_read nb i st'" if "ehdr_from_file (put_elf i e2 s) i ec = Some (r, st')" "only_read e2" "next_buf s = nb" for e2 s
    by (rule ehdr_from_file_only_read[OF that(1)]) (use that(2,3) in simp)
  show ?thesis
  proof (cases "libelf_msize st1 ELF_T_EHDR ec EV_CURRENT")
    case None
    then show ?thesis using r e n1 d1 d last d[THEN st_read_buf]
      by (auto simp: libelf_ehdr_def bind_Some_iff Let_def f e1_def[symmetric] split: if_splits)
  next
    case (Some p)
    obtain z st2 where p: "p = (z, st2)" by (cases p)
    have d2: "st_read nb i st2" by (rule ms) (use Some p in simp)
    show ?thesis using r[unfolded libelf_ehdr_def option.case e bind.simps Let_def e1_def[symmetric] f prod.case Some p] d n1 d1 d2 last d2[THEN st_read_buf] d[THEN st_read_buf] d1[THEN st_read_buf]
      by (auto simp: case_prod_unfold split: if_splits)
  qed
qed

lemma load_sections_only_read:
  assumes r: "load_sections st i ec = Some (r, st')" and d: "st_read nb i st"
  shows "st_read nb i st'"
proof -
  obtain b st1 where h: "libelf_ehdr st (Some i) ec False = Some (b, st1)"
    using r by (auto simp: load_sections_def bind_Some_iff)
  have d1: "st_read nb i st1" by (rule libelf_ehdr_only_read[OF h d])
  have "st_read nb i st'" if l: "libelf_load_section_headers st1 i = Some (r, st')"
  proof -
    obtain e where e: "get_elf st1 i = Some e" using l by (auto simp: libelf_load_section_headers_def bind_Some_iff)
    obtain fsz st2 where f: "libelf_fsize st1 ELF_T_SHDR (e_class e) (e_version e) 1 = (fsz, st2)"
      by (cases "libelf_fsize st1 ELF_T_SHDR (e_class e) (e_version e) 1")
    have d2: "st_read nb i st2" using fsize_only_read[OF f, of nb i] d1 by simp
    have n: "st_read nb i st3" if "load_scns n st2 i ec off k = Some (b, st3)" for n ec off k b st3
      by (rule load_scns_only_read[OF that d2])
    have n': "only_read e3" if "load_scns n st2 i ec off k = Some (b, st3)" "get_elf st3 i = Some e3" for n ec off k b st3 e3
      using n[OF that(1)] that(2) by (simp add: st_read_def)
    show ?thesis using l e d2 n n' n[THEN st_read_buf] 
      by (auto simp: libelf_load_section_headers_def bind_Some_iff Let_def f split: if_splits)
  qed
  then show ?thesis using r h d1 by (auto simp: load_sections_def bind_Some_iff split: if_splits)
qed

lemma getscn_only_read:
  assumes r: "elf_getscn st (Some i) k = Some (r, st')" and d: "st_read nb i st"
  shows "st_read nb i st'"
proof -
  obtain e where e: "get_elf st i = Some e" using r by (auto simp: elf_getscn_def bind_Some_iff)
  show ?thesis
  proof (cases "elf_class_known e")
    case False
    then show ?thesis using r e d by (auto simp: elf_getscn_def)
  next
    case True
    then obtain b st1 where l: "load_sections st i (e_class e) = Some (b, st1)"
      using r e by (auto simp: elf_getscn_def bind_Some_iff)
    have "st_read nb i st1" by (rule load_sections_only_read[OF l d])
    then show ?thesis using r e l True by (auto simp: elf_getscn_def bind_Some_iff split: if_splits option.splits)
  qed
qed

section \<open>From an image to the data of a section\<close>

lemma elf_memory_eq:
  "libelf_version st \<noteq> EV_NONE \<Longrightarrow> 0 < sint sz \<Longrightarrow> elf_memory st (Some img) sz = libelf_memory st img sz True"
  by (auto simp: elf_memory_def)

lemma opened_elf:
  assumes "opened st img sz e" "e_kind e = ELF_K_ELF"
  shows "elf_inv st e" "scns_pending e" "raw_ok st e"
    "e_class e = ELFCLASS32 \<or> e_class e = ELFCLASS64 \<Longrightarrow> only_read e"
  using assms by (auto simp: opened_def scns_pending_def elf_inv_def only_read_def rb_keys_def)

lemma ident_error_class:
  "ident_error bo cls v = ELF_E_NONE \<Longrightarrow> cls = ELFCLASS32 \<or> cls = ELFCLASS64"
  by (auto simp: ident_error_def split: if_splits)

text \<open>From what was opened to the data of a section.\<close>

lemma opened_data_safe:
  assumes fr: "open_frame k st st1" "heap_fresh st"
    and e: "get_elf st1 i = Some e" "opened st1 img sz e" "e_kind e = ELF_K_ELF" "e_class e = ELFCLASS32 \<or> e_class e = ELFCLASS64"
  shows "\<exists>s st2. elf_getscn st1 (Some i) ndx = Some (s, st2)
      \<and> (\<forall>p. s = Some p \<longrightarrow> (\<exists>d st3 e3. elf_getdata st2 (Some p) None = Some (d, st3)
            \<and> get_elf st3 i = Some e3 \<and> elf_inv st3 e3 \<and> ref_ok st3 d))"
proof -
  have rd: "st_read (next_buf st1) i st1" using opened_elf(4)[OF e(2-4)] e(1) by (simp add: st_read_def)
  from elf_getscn_ok[OF e(1) opened_elf(1)[OF e(2,3)] disjI1[OF opened_elf(2)[OF e(2,3)]], of ndx]
  obtain s st2 e2 where g: "elf_getscn st1 (Some i) ndx = Some (s, st2)" "get_elf st2 i = Some e2" "elf_inv st2 e2"
    "frame_ok i st1 st2" "\<forall>p. s = Some p \<longrightarrow> p = (i, unat ndx) \<and> e_scns e2 (unat ndx) \<noteq> None" by blast
  have rd2: "next_buf st2 = next_buf st1" "only_read e2"
    using getscn_only_read[OF g(1) rd] g(2) by (simp_all add: st_read_def)
  have fresh: "heap_fresh st2" using fr(2,1) frame_fields(1)[OF g(4)] rd2(1)
    by (auto simp: heap_fresh_def open_frame_def frame_ok_def)
  have "\<exists>d st3 e3. elf_getdata st2 (Some p) None = Some (d, st3) \<and> get_elf st3 i = Some e3 \<and> elf_inv st3 e3 \<and> ref_ok st3 d"
    if p: "s = Some p" for p
  proof -
    have p: "p = (i, unat ndx)" and x: "e_scns e2 (unat ndx) \<noteq> None" using g(5) p by blast+
    then obtain sc where sc: "e_scns e2 (unat ndx) = Some sc" by blast
    have ro: "raw_ok st2 e2 \<or> e_rawfile e2 = None"
      using elf_invD(3)[OF g(3)] rd2(2) by (simp add: only_read_def)
    have "scn_data_ok (heap st2) sc" using rd2(2) sc by (simp add: only_read_def scn_data_ok_def)
    moreover have "e_kind e2 = ELF_K_ELF" "e_class e2 = ELFCLASS32 \<or> e_class e2 = ELFCLASS64"
      using rd2(2) by (simp_all add: only_read_def)
    moreover have "file_there st2 e2" using ro by (auto simp: file_there_def)
    ultimately obtain d st3 e3 where "elf_getdata st2 (Some (i, unat ndx)) None = Some (d, st3)"
      "data_post st2 i e2 (unat ndx) d st3 e3" "ref_ok st3 d"
      using getdata_first_ok[OF g(2,3) _ _ fresh sc] by blast
    then show ?thesis unfolding p by (auto simp: data_post_def)
  qed
  then show ?thesis using g(1) by blast
qed

text \<open>
  C1. Any image: opening the bytes of a file, whatever they are, asking for any section of what was opened and for
  its data returns, without an access outside the image or the buffers the library allocated. A descriptor is an
  ELF descriptor exactly when the identification is complete and valid, with the class, byte order and
  version it gives; the data descriptor, if there is one, has a buffer of its size, and the descriptor
  satisfies its invariant.
\<close>

theorem image_to_data_safe:
  assumes img: "mem_read (heap st) img (unat sz) = Some bs" "0 < sint sz"
    and st: "heap_fresh st" "libelf_version st \<noteq> EV_NONE"
  shows "\<exists>r st1. elf_memory st (Some img) sz = Some (r, st1)
    \<and> (\<forall>i. r = Some i \<longrightarrow> (\<exists>e. get_elf st1 i = Some e \<and> elf_inv st1 e
       \<and> (e_kind e = ELF_K_ELF \<longleftrightarrow> elf_ident bs = Some (e_byteorder e, e_class e, e_version e)
            \<and> ident_error (e_byteorder e) (e_class e) (e_version e) = ELF_E_NONE)
       \<and> (e_kind e = ELF_K_ELF \<longrightarrow> (\<exists>s st2. elf_getscn st1 (Some i) ndx = Some (s, st2)
            \<and> (\<forall>p. s = Some p \<longrightarrow> (\<exists>d st3 e3. elf_getdata st2 (Some p) None = Some (d, st3)
                 \<and> get_elf st3 i = Some e3 \<and> elf_inv st3 e3 \<and> ref_ok st3 d))))))"
proof -
  from libelf_memory_ok[OF img, of True] obtain r st1 where m: "libelf_memory st img sz True = Some (r, st1)"
    "open_frame (next_elf st) st st1" "\<forall>i. r = Some i \<longrightarrow> i = next_elf st \<and> next_elf st1 = Suc i
        \<and> (\<exists>e. get_elf st1 i = Some e \<and> opened st1 img sz e
            \<and> (e_kind e = ELF_K_ELF \<longleftrightarrow> elf_ident bs = Some (e_byteorder e, e_class e, e_version e)
                 \<and> ident_error (e_byteorder e) (e_class e) (e_version e) = ELF_E_NONE))" by blast
  show ?thesis
    unfolding elf_memory_eq[OF st(2) img(2)] m(1)
  proof (intro exI[of _ r] exI[of _ st1] conjI allI impI, rule refl)
    fix i assume i: "r = Some i"
    with m(3) obtain e where e: "get_elf st1 i = Some e" "opened st1 img sz e"
      "e_kind e = ELF_K_ELF \<longleftrightarrow> elf_ident bs = Some (e_byteorder e, e_class e, e_version e)
         \<and> ident_error (e_byteorder e) (e_class e) (e_version e) = ELF_E_NONE" by blast
    have cls: "e_kind e = ELF_K_ELF \<Longrightarrow> e_class e = ELFCLASS32 \<or> e_class e = ELFCLASS64"
      using e(3) ident_error_class by blast
    show "\<exists>e. get_elf st1 i = Some e \<and> elf_inv st1 e
       \<and> (e_kind e = ELF_K_ELF \<longleftrightarrow> elf_ident bs = Some (e_byteorder e, e_class e, e_version e)
            \<and> ident_error (e_byteorder e) (e_class e) (e_version e) = ELF_E_NONE)
       \<and> (e_kind e = ELF_K_ELF \<longrightarrow> (\<exists>s st2. elf_getscn st1 (Some i) ndx = Some (s, st2)
            \<and> (\<forall>p. s = Some p \<longrightarrow> (\<exists>d st3 e3. elf_getdata st2 (Some p) None = Some (d, st3)
                 \<and> get_elf st3 i = Some e3 \<and> elf_inv st3 e3 \<and> ref_ok st3 d))))"
      using e(1,3) opened_data_safe[OF m(2) st(1) e(1,2) _ cls, of ndx] e(2) by (intro exI[of _ e] conjI impI) (simp_all add: opened_def)
  qed
qed

text \<open>The bytes of an ELF identification for a 64-bit little-endian object, and then anything.\<close>

theorem image_to_data_safe_witness:
  "\<exists>r st1. elf_memory (sample_state (ELFMAG @ [2, 1, 1] @ replicate 200 9)) (Some (0, 0)) 207 = Some (r, st1)"
proof -
  let ?bs = "ELFMAG @ [2, 1, 1] @ replicate 200 (9 :: u8)"
  have "mem_read (heap (sample_state ?bs)) (0, 0) (unat (207 :: u64)) = Some ?bs" "heap_fresh (sample_state ?bs)"
    "libelf_version (sample_state ?bs) \<noteq> EV_NONE"
    by (simp_all add: sample_state_def mem_read_def slice_at_def ELFMAG_def heap_fresh_def)
  moreover have "0 < sint (207 :: u64)" by simp
  ultimately show ?thesis using image_to_data_safe[of "sample_state ?bs" "(0, 0)" 207 ?bs 1] by blast
qed

end
