(* ===== verification/Elf_Members.thy ===== *)
theory Elf_Members
  imports Elf_Open
begin

text \<open>
  The members of an archive: what \<open>elf_begin\<close>, \<open>elf_next\<close> and \<open>elf_end\<close> visit, against a reference that parses the
  bytes of the archive, and where the image of a member lies.
\<close>

section \<open>Numbers in member headers\<close>

definition number10 :: "bytes \<Rightarrow> u64 option" where
  "number10 bs = ar_digits (dropWhile (\<lambda>c. c = BLANK) bs) 10 0"

lemma get_number_10 [simp]: "libelf_ar_get_number bs 10 = Some (number10 bs)"
  by (simp add: libelf_ar_get_number_def number10_def)

lemma ar_digits_bound:
  assumes "ar_digits s 10 r = Some v" "unat r < 10 ^ k" "k + length s \<le> 19"
  shows "unat v < 10 ^ (k + length s)"
  using assms
proof (induction s arbitrary: r k)
  case Nil
  then show ?case by simp
next
  case (Cons c s)
  show ?case
  proof (cases "c = BLANK \<or> (ucast c - 0x30 :: u32) \<ge> 10")
    case True
    then have "v = r" using Cons.prems(1) by (auto split: if_splits)
    moreover have "(10 :: nat) ^ k \<le> 10 ^ (k + length (c # s))" by (rule power_increasing) simp_all
    ultimately show ?thesis using Cons.prems(2) by (auto intro: order_less_le_trans)
  next
    case False
    let ?d = "ucast c - 0x30 :: u64"
    let ?r = "r * 10 + ?d"
    have d: "\<not> c < 0x30" "\<not> c > 0x39" and r: "ar_digits s 10 ?r = Some v"
      using Cons.prems(1) False by (auto split: if_splits)
    have "unat ?d = unat c - 48" using d by (subst unat_minus_le) (auto simp: word_le_nat_alt word_less_nat_alt)
    then have d9: "unat ?d \<le> 9" using d by (simp add: word_less_nat_alt)
    have "(10 :: nat) ^ Suc k \<le> 10 ^ 19" using Cons.prems(3) by (intro power_increasing) simp_all
    then have "unat r * 10 + unat ?d < 2 ^ 64" "unat r * 10 < 2 ^ 64" using Cons.prems(2) d9 by simp_all
    then have "unat ?r = unat r * 10 + unat ?d" by (simp add: unat_word_ariths)
    then have "unat ?r < 10 ^ Suc k" using Cons.prems(2) d9 by simp
    from Cons.IH[OF r this] Cons.prems(3) show ?thesis by simp
  qed
qed

lemma number10_bound:
  assumes "number10 bs = Some v" "length bs \<le> 16"
  shows "unat v < 10 ^ 16"
proof -
  let ?s = "dropWhile (\<lambda>c. c = BLANK) bs"
  have len: "length ?s \<le> 16" using assms(2) length_dropWhile_le[of "\<lambda>c. c = BLANK" bs] by linarith
  have "ar_digits ?s 10 0 = Some v" "unat (0 :: u64) < 10 ^ 0" "0 + length ?s \<le> 19"
    using assms(1) len by (simp_all add: number10_def)
  then have "unat v < 10 ^ (0 + length ?s)" by (rule ar_digits_bound)
  also have "(10 :: nat) ^ (0 + length ?s) \<le> 10 ^ 16" using len by (intro power_increasing) simp_all
  finally show ?thesis .
qed

section \<open>The reference\<close>

text \<open>The size field of a header and the length of a BSD name behind it, which the size includes.\<close>

definition member_sizes :: "ar_hdr \<Rightarrow> (u64 \<times> u64) option" where
  "member_sizes h = do {
     sz \<leftarrow> number10 (h_size h);
     nsz \<leftarrow> (if IS_EXTENDED_BSD_NAME (h_name h) then number10 (drop 3 (h_name h)) else Some 0);
     Some (sz, nsz) }"

definition header_at :: "bytes \<Rightarrow> nat \<Rightarrow> ar_hdr option" where
  "header_at bs nx = map_option ar_hdr_of (slice_at bs nx 60)"

text \<open>The member whose header is at \<open>nx\<close>: the place and size of its contents, and the place of the next header.\<close>

definition member_at :: "bytes \<Rightarrow> nat \<Rightarrow> (nat \<times> nat \<times> nat) option" where
  "member_at bs nx = do {
     h \<leftarrow> header_at bs nx;
     (sz, nsz) \<leftarrow> member_sizes h;
     if nx + 60 + unat sz \<le> length bs \<and> nsz \<le> sz
     then Some (nx + 60 + unat nsz, unat sz - unat nsz, 2 * ((nx + 60 + unat sz + 1) div 2)) else None }"

lemma member_at_next: "member_at bs nx = Some (off, n, nx') \<Longrightarrow> nx < nx' \<and> nx < length bs \<and> off + n \<le> length bs"
  by (auto simp: member_at_def bind_Some_iff word_le_nat_alt split: if_splits)

function ar_members :: "bytes \<Rightarrow> nat \<Rightarrow> (nat \<times> nat) list" where
  "ar_members bs nx =
     (case member_at bs nx of None \<Rightarrow> []
      | Some (off, n, nx') \<Rightarrow> (off, n) # (if nx' < length bs then ar_members bs nx' else []))"
  by pat_completeness auto
termination
  by (relation "measure (\<lambda>(bs, nx). length bs - nx)") (auto dest: member_at_next)

declare ar_members.simps [simp del]

text \<open>The loop of a client that looks at every member; \<open>n\<close> bounds the number of rounds.\<close>

primrec ar_walk ::
  "nat \<Rightarrow> os \<Rightarrow> libelf_state \<Rightarrow> int \<Rightarrow> nat \<Rightarrow> ((u64 \<times> u64) list \<times> libelf_state) option" where
  "ar_walk 0 os st fd j = None"
| "ar_walk (Suc n) os st fd j = do {
     (r, st) \<leftarrow> elf_begin os st fd ELF_C_READ (Some j);
     case r of
       None \<Rightarrow> Some ([], st)
     | Some i \<Rightarrow> do {
         (base, st) \<leftarrow> elf_getbase st r;
         (p, sz, st) \<leftarrow> elf_rawfile st r;
         (c, st) \<leftarrow> elf_next st r;
         (k, st) \<leftarrow> elf_end st r;
         (ms, st) \<leftarrow> ar_walk n os st fd j;
         Some ((base, sz) # ms, st) } }"

section \<open>Opening a member\<close>

text \<open>
  An archive that is open for reading, with its bytes, its next member at \<open>nx\<close> (0 is the end). The bound on its
  size keeps the file offsets of the code from overflowing.
\<close>

definition archive :: "libelf_state \<Rightarrow> nat \<Rightarrow> Elf \<Rightarrow> ptr \<Rightarrow> bytes \<Rightarrow> nat \<Rightarrow> bool" where
  "archive st j a raw bs nx \<longleftrightarrow> get_elf st j = Some a \<and> e_kind a = ELF_K_AR \<and> e_cmd a = ELF_C_READ
     \<and> e_rawfile a = Some raw \<and> mem_read (heap st) raw (unat (e_rawsize a)) = Some bs
     \<and> unat (e_rawsize a) < 2 ^ 62 \<and> e_next a = of_nat nx \<and> nx < 2 ^ 62 \<and> even nx \<and> (nx = 0 \<or> 8 \<le> nx)
     \<and> j < next_elf st \<and> libelf_version st \<noteq> EV_NONE"

lemma unat_small: "nx < 2 ^ 63 \<Longrightarrow> unat (of_nat nx :: u64) = nx"
  by (simp add: unat_of_nat)

lemma sint_small: "unat (x :: u64) < 2 ^ 63 \<Longrightarrow> sint x = int (unat x)"
proof -
  assume "unat x < 2 ^ 63"
  then have "int (unat x) < int (2 ^ 63)" by (rule iffD2[OF of_nat_less_iff])
  then have "uint x < 2 ^ 63" unfolding uint_nat by simp
  moreover have "- (2 ^ 63) \<le> uint x" by (rule order_trans[of _ 0]) simp_all
  ultimately show "sint x = int (unat x)" by (simp add: sint_uint signed_take_bit_int_eq_self)
qed

text \<open>
  \<open>name_wraps bs nx\<close>: the member at \<open>nx\<close> is inside the archive, but the BSD name before its contents is longer than the size
  that includes it. \<open>names_fit bs nx\<close>: no member from \<open>nx\<close> on is like that, up to the first that is not one at all.
\<close>

definition name_wraps :: "bytes \<Rightarrow> nat \<Rightarrow> bool" where
  "name_wraps bs nx =
     (case header_at bs nx of None \<Rightarrow> False
      | Some h \<Rightarrow> (case member_sizes h of None \<Rightarrow> False
         | Some (sz, nsz) \<Rightarrow> nx + 60 + unat sz \<le> length bs \<and> sz < nsz))"

function names_fit :: "bytes \<Rightarrow> nat \<Rightarrow> bool" where
  "names_fit bs nx \<longleftrightarrow> \<not> name_wraps bs nx
     \<and> (case member_at bs nx of None \<Rightarrow> True | Some (off, n, nx') \<Rightarrow> nx' < length bs \<longrightarrow> names_fit bs nx')"
  by pat_completeness auto
termination
  by (relation "measure (\<lambda>(bs, nx). length bs - nx)") (auto dest: member_at_next)

declare names_fit.simps [simp del]

lemma names_fit_here: "names_fit bs nx \<Longrightarrow> \<not> name_wraps bs nx"
  by (simp add: names_fit.simps[of bs nx])

lemma names_fit_next: "names_fit bs nx \<Longrightarrow> member_at bs nx = Some (off, n, nx') \<Longrightarrow> nx' < length bs \<Longrightarrow> names_fit bs nx'"
  by (simp add: names_fit.simps[of bs nx])

lemma header_fields_length:
  "header_at bs nx = Some h \<Longrightarrow> length (h_size h) = 10 \<and> length (h_name h) = 16"
  by (auto simp: header_at_def ar_hdr_of_def dest: slice_at_length)

lemma read_header_at:
  assumes "mem_read h raw n = Some bs"
  shows "nx + 60 \<le> n \<Longrightarrow> read_ar_hdr h (ptr_add raw nx) = header_at bs nx"
    "nx + 60 > n \<Longrightarrow> header_at bs nx = None"
  using mem_read_sub[OF assms, of nx 60] mem_read_length[OF assms]
  by (auto simp: read_ar_hdr_def header_at_def slice_at_def)

lemma header_sizes_small:
  assumes "header_at bs nx = Some h"
  shows "number10 (h_size h) = Some sz \<Longrightarrow> unat sz < 10 ^ 16"
    "number10 (drop 3 (h_name h)) = Some nsz \<Longrightarrow> unat nsz < 10 ^ 16"
  using header_fields_length[OF assms] number10_bound[of "h_size h" sz] number10_bound[of "drop 3 (h_name h)" nsz]
  by simp_all

lemma open_member_eq:
  assumes a: "archive st j a raw bs nx" and nx: "nx \<noteq> 0"
  shows "libelf_ar_open_member st fd c j =
    (case header_at bs nx of
       None \<Rightarrow> Some (None, set_error ELF_E_ARCHIVE 0 st)
     | Some h \<Rightarrow>
         (case number10 (h_size h) of
            None \<Rightarrow> Some (None, set_error ELF_E_ARCHIVE 0 st)
          | Some sz \<Rightarrow>
              if nx + 60 + unat sz > length bs then Some (None, set_error ELF_E_ARCHIVE 0 st)
              else (case member_sizes h of
                 None \<Rightarrow> Some (None, set_error ELF_E_ARCHIVE 0 st)
               | Some (sz, nsz) \<Rightarrow> member_descriptor st fd c j (ptr_add raw nx) (ptr_add raw (nx + 60 + unat nsz)) (sz - nsz))))"
proof -
  note A = a[unfolded archive_def]
  have len: "length bs = unat (e_rawsize a)" using A by (auto dest: mem_read_length)
  have rs: "sint (e_rawsize a) = int (length bs)" using A len by (simp add: sint_small)
  have u: "unat (of_nat nx :: u64) = nx" using A by (simp add: unat_small)
  have u60: "unat (of_nat nx + 60 :: u64) = nx + 60" using A u by (simp add: unat_word_ariths)
  have n0: "(of_nat nx :: u64) \<noteq> 0" using nx u by (metis unat_0)
  have ev: "(of_nat nx :: u64) AND 1 = 0"
  proof -
    have "unat (of_nat nx mod 2 :: u64) = 0" using A u by (simp add: unat_mod)
    then show ?thesis by (simp add: and_one_eq unat_eq_zero)
  qed
  have s60: "sint (of_nat nx + 60 :: u64) = int (nx + 60)" using A u60 by (simp add: sint_small)
  have snx: "sint (of_nat nx :: u64) = int nx" using A u by (simp add: sint_small)
  have c1: "(of_nat nx + 60 :: u64) < of_nat nx \<or> sint (of_nat nx + 60 :: u64) > sint (e_rawsize a) \<longleftrightarrow> nx + 60 > length bs"
    using u u60 s60 rs by (auto simp: word_less_nat_alt)
  show ?thesis
  proof (cases "nx + 60 > length bs")
    case True
    then show ?thesis using A n0 ev c1 read_header_at(2)[of "heap st" raw "length bs" bs nx] len
      by (simp add: libelf_ar_open_member_def Let_def)
  next
    case False
    then obtain h where h: "header_at bs nx = Some h" "read_ar_hdr (heap st) (ptr_add raw nx) = Some h"
      using read_header_at(1)[of "heap st" raw "length bs" bs nx] A len by (auto simp: header_at_def slice_at_def)
    show ?thesis
    proof (cases "number10 (h_size h)")
      case None
      then show ?thesis using A n0 ev c1 False h u by (simp add: libelf_ar_open_member_def Let_def)
    next
      case (Some sz)
      have sz: "unat sz < 10 ^ 16" by (rule header_sizes_small(1)[OF h(1) Some])
      have f: "sint (of_nat nx + 60 + sz :: u64) = int (nx + 60 + unat sz)"
        using A u60 sz by (subst sint_small) (simp_all add: unat_word_ariths)
      have c2: "sint (of_nat nx + 60 + sz :: u64) < sint (of_nat nx :: u64)
          \<or> sint (of_nat nx + 60 + sz :: u64) > sint (e_rawsize a) \<longleftrightarrow> nx + 60 + unat sz > length bs"
        unfolding f rs snx of_nat_less_iff by linarith
      have g: "get_elf st j = Some a" "e_kind a = ELF_K_AR" "e_next a = of_nat nx" "e_rawfile a = Some raw"
        using A by simp_all
      show ?thesis
      proof (cases "nx + 60 + unat sz > length bs")
        case True
        then show ?thesis unfolding libelf_ar_open_member_def g bind.simps Let_def
          using n0 ev c1 c2 False h u Some by simp
      next
        case small: False
        then show ?thesis unfolding libelf_ar_open_member_def g bind.simps Let_def
          using n0 ev c1 c2 False h u Some by (simp add: member_sizes_def add.assoc split: option.split)
      qed
    qed
  qed
qed

text \<open>The state after a step that leaves the memory and every descriptor but the archive and new ones alone.\<close>

definition same_but :: "nat \<Rightarrow> Elf \<Rightarrow> libelf_state \<Rightarrow> libelf_state \<Rightarrow> bool" where
  "same_but j a st st' \<longleftrightarrow> heap st' = heap st \<and> libelf_version st' = libelf_version st \<and> malloc_ok st' = malloc_ok st
     \<and> next_elf st \<le> next_elf st' \<and> get_elf st' j = Some a \<and> (\<forall>k. k < next_elf st \<longrightarrow> k \<noteq> j \<longrightarrow> get_elf st' k = get_elf st k)"

lemma same_but_trans: "same_but j a st st1 \<Longrightarrow> same_but j b st1 st2 \<Longrightarrow> same_but j b st st2"
  by (auto simp: same_but_def)

lemma same_but_error [simp]: "get_elf st j = Some a \<Longrightarrow> same_but j a st (set_error er os st)"
  by (simp add: same_but_def set_error_def get_elf_def)

lemma same_but_refl [simp]: "get_elf st j = Some a \<Longrightarrow> same_but j a st st"
  by (simp add: same_but_def)

text \<open>A descriptor of a member that was just opened.\<close>

definition member_elf :: "nat \<Rightarrow> ptr \<Rightarrow> u64 \<Rightarrow> Elf \<Rightarrow> bool" where
  "member_elf j p sz e \<longleftrightarrow> e_parent e = Some j \<and> e_rawfile e = Some p \<and> e_rawsize e = sz \<and> e_activations e = 1
     \<and> e_nchildren e = 0 \<and> e_scn e = RB_NULL \<and> e_kind e \<noteq> ELF_K_NUM \<and> e_flags e AND LIBELF_F_RAWFILE_MALLOC = 0
     \<and> e_flags e AND LIBELF_F_RAWFILE_MMAP = 0"

lemma member_descriptor_ok:
  assumes a: "get_elf st j = Some a" "j < next_elf st" "libelf_version st \<noteq> EV_NONE"
    and m: "mem_read (heap st) p (unat sz) = Some ms" "unat sz < 2 ^ 62"
  obtains (none) st' where "member_descriptor st fd c j arh p sz = Some (None, st')" "same_but j a st st'"
      "sz = 0 \<or> \<not> fst (c_alloc st) \<or> refused ms"
  | (some) i e st' where "member_descriptor st fd c j arh p sz = Some (Some i, st')" "i = next_elf st" "next_elf st' = Suc i"
      "same_but j (a\<lparr>e_nchildren := e_nchildren a + 1\<rparr>) st st'" "get_elf st' i = Some e" "member_elf j p sz e" "sz \<noteq> 0"
proof (cases "sz = 0")
  case True
  then have "member_descriptor st fd c j arh p sz = Some (None, set_error ELF_E_ARGUMENT 0 st)"
    using a by (simp add: member_descriptor_def elf_memory_def)
  then show thesis using a True by (intro none[where st' = "set_error ELF_E_ARGUMENT 0 st"]) simp_all
next
  case False
  then have "0 < unat sz" by (simp add: unat_gt_0)
  moreover have "sint sz = int (unat sz)" by (rule sint_small) (use m(2) in simp)
  ultimately have pos: "0 < sint sz" by (simp only: of_nat_0_less_iff)
  note md = member_descriptor_def[of st fd c j arh p sz, unfolded elf_memory_eq[OF a(3) pos]]
  from libelf_memory_ok[OF m(1) pos, of True] obtain r st1 where r: "libelf_memory st p sz True = Some (r, st1)"
    "open_frame (next_elf st) st st1" "r = None \<longrightarrow> \<not> fst (c_alloc st) \<or> refused ms"
    "\<forall>i. r = Some i \<longrightarrow> i = next_elf st \<and> next_elf st1 = Suc i \<and> (\<exists>e. get_elf st1 i = Some e \<and> opened st1 p sz e)" by blast
  have j: "get_elf st1 j = Some a" using r(2) a(1,2) by (simp add: open_frame_def frame_ok_def)
  have same: "same_but j a st st1" using r(2) j by (auto simp: same_but_def open_frame_def frame_ok_def)
  show thesis
  proof (cases r)
    case None
    then show thesis using r(1,3) same by (intro none[of st1]) (simp_all add: md)
  next
    case (Some i)
    then obtain e where e: "i = next_elf st" "next_elf st1 = Suc i" "get_elf st1 i = Some e" "opened st1 p sz e"
      using r(4) by blast
    let ?e = "e\<lparr>e_fd := fd, e_cmd := c, e_hdr := HDR_RAWHDR arh\<rparr>"
    let ?a = "a\<lparr>e_nchildren := e_nchildren a + 1\<rparr>"
    let ?st = "put_elf i (?e\<lparr>e_parent := Some j\<rparr>) (put_elf j ?a (put_elf i ?e st1))"
    have ne: "j \<noteq> i" "i \<noteq> j" using a(2) e(1) by simp_all
    have "member_descriptor st fd c j arh p sz = Some (Some i, ?st)"
      unfolding md r(1) Some using e(3) j ne by simp
    moreover have "same_but j ?a st ?st" using same ne e(1) by (auto simp: same_but_def)
    moreover have "member_elf j p sz (?e\<lparr>e_parent := Some j\<rparr>)" using e(4) by (auto simp: member_elf_def opened_def)
    ultimately show thesis using e(1,2) False by (intro some[where i = i and e = "?e\<lparr>e_parent := Some j\<rparr>" and st' = ?st]) simp_all
  qed
qed

lemma end_member:
  assumes e: "get_elf st i = Some e" "member_elf j p sz e" and a: "get_elf st j = Some a" "e_activations a \<noteq> 0" "j \<noteq> i"
  obtains st' where "elf_end st (Some i) = Some (0, st')" "heap st' = heap st" "libelf_version st' = libelf_version st"
    "malloc_ok st' = malloc_ok st" "next_elf st' = next_elf st" "get_elf st' j = Some (a\<lparr>e_nchildren := e_nchildren a - 1\<rparr>)"
    "\<And>k. k \<noteq> i \<Longrightarrow> k \<noteq> j \<Longrightarrow> get_elf st' k = get_elf st k"
proof -
  note M = e(2)[unfolded member_elf_def]
  let ?e = "e\<lparr>e_activations := 0\<rparr>"
  let ?s1 = "put_elf i ?e st"
  let ?a = "a\<lparr>e_nchildren := e_nchildren a - 1\<rparr>"
  let ?s2 = "(put_elf j ?a ?s1)\<lparr>elfs := (elfs (put_elf j ?a ?s1))(i := None)\<rparr>"
  have rel: "release_scns s i None = Some s" for s by (simp add: release_scns.simps)
  have "end_release ?s1 i = Some ?s2"
    using M a by (simp add: end_release_def rel release_rawfile_def libelf_release_elf_def RB_MIN_def)
  moreover have "end_loop ?s2 (Some j) = Some ?s2"
    by (subst end_loop.simps) (use a in \<open>simp add: get_elf_def put_elf_def\<close>)
  ultimately have "end_loop ?s1 (Some i) = Some ?s2"
    by (subst end_loop.simps) (use M in simp)
  then have "elf_end st (Some i) = Some (0, ?s2)" using e(1) M by (simp add: elf_end_def)
  then show thesis by (rule that) (use a(3) in \<open>simp_all add: get_elf_def put_elf_def\<close>)
qed

section \<open>The next member\<close>

lemma unat_and_not_1: "unat (x AND NOT 1 :: u64) = 2 * (unat x div 2)"
proof -
  have "x AND NOT 1 = push_bit 1 (drop_bit 1 x)"
    by (rule bit_word_eqI) (auto simp: bit_simps simp del: push_bit_Suc drop_bit_Suc One_nat_def)
  moreover have "2 * (unat x div 2) \<le> unat x" by simp
  then have "2 * (unat x div 2) < 2 ^ 64" using unat_lt2p[of x] by simp
  ultimately show ?thesis by (simp add: push_bit_eq_mult drop_bit_eq_div unat_word_ariths unat_div)
qed

text \<open>The archive after \<open>elf_next\<close>: at the next header, or at the end.\<close>

definition after_member :: "bytes \<Rightarrow> nat \<Rightarrow> nat" where
  "after_member bs nx' = (if nx' < length bs then nx' else 0)"

lemma next_member:
  assumes e: "get_elf st i = Some e" "member_elf j (ptr_add raw off) (of_nat n) e"
    and a: "get_elf st j = Some a" "e_kind a = ELF_K_AR" "e_cmd a = ELF_C_READ" "e_rawfile a = Some raw"
      "unat (e_rawsize a) = length bs" "length bs < 2 ^ 62"
    and off: "0 < off" "off + n \<le> length bs"
  obtains c st' where "elf_next st (Some i) = Some (c, st')"
    "st' = put_elf j (a\<lparr>e_next := of_nat (after_member bs (2 * ((off + n + 1) div 2)))\<rparr>) st
     \<or> st' = set_error ELF_E_ARGUMENT 0 (put_elf j (a\<lparr>e_next := of_nat (after_member bs (2 * ((off + n + 1) div 2)))\<rparr>) st)"
proof -
  let ?x = "of_nat off + of_nat n + 1 :: u64"
  let ?nx = "2 * ((off + n + 1) div 2)"
  note M = e(2)[unfolded member_elf_def]
  have x: "unat ?x = off + n + 1" using off a(6) by (simp add: unat_word_ariths unat_of_nat)
  have nx: "unat (?x AND NOT 1) = ?nx" unfolding unat_and_not_1 x ..
  have s: "sint (?x AND NOT 1) = int ?nx" unfolding nx[symmetric] by (rule sint_small) (use nx off a(6) in simp)
  have r: "sint (e_rawsize a) = int (length bs)" unfolding a(5)[symmetric] by (rule sint_small) (use a(5,6) in simp)
  have w: "?x AND NOT 1 = of_nat ?nx" unfolding nx[symmetric] by simp
  have c: "sint (?x AND NOT 1) \<ge> sint (e_rawsize a) \<longleftrightarrow> \<not> ?nx < length bs" unfolding s r of_nat_le_iff not_less ..
  have v: "(if sint (?x AND NOT 1) \<ge> sint (e_rawsize a) then 0 else ?x AND NOT 1) = of_nat (after_member bs ?nx)"
    using w unfolding c after_member_def by (cases "?nx < length bs") (simp_all only: simp_thms if_True if_False semiring_1_class.of_nat_0)
  let ?st = "put_elf j (a\<lparr>e_next := of_nat (after_member bs ?nx)\<rparr>) st"
  have p: "fst (ptr_add raw off) = fst raw" "snd (ptr_add raw off) - snd raw = off" "snd raw < snd (ptr_add raw off)"
    using off(1) by (cases raw; simp)+
  have "elf_next st (Some i) = Some (let z = ?x AND NOT 1;
        st = put_elf j (a\<lparr>e_next := (if sint z \<ge> sint (e_rawsize a) then 0 else z)\<rparr>) st
      in if sint z > sint (e_rawsize a) then (ELF_C_NULL, set_error ELF_E_ARGUMENT 0 st) else (ELF_C_READ, st))"
    using e(1) a M p by (simp add: elf_next_def Let_def)
  then have "elf_next st (Some i) = Some (if sint (?x AND NOT 1) > sint (e_rawsize a)
      then (ELF_C_NULL, set_error ELF_E_ARGUMENT 0 ?st) else (ELF_C_READ, ?st))"
    unfolding Let_def v .
  then show thesis by (cases "sint (?x AND NOT 1) > sint (e_rawsize a)") (auto intro: that)
qed

text \<open>What opening the member at the place of the descriptor does.\<close>

lemma begin_archive:
  assumes a: "archive st j a raw bs nx" and fd: "e_fd a = - 1 \<or> e_fd a = fd"
  shows "elf_begin os st fd ELF_C_READ (Some j) = libelf_ar_open_member st (e_fd a) ELF_C_READ j"
  using a fd by (auto simp: archive_def elf_begin_def)

lemma begin_none:
  assumes a: "archive st j a raw bs nx" and fd: "e_fd a = - 1 \<or> e_fd a = fd"
    and m: "nx = 0 \<or> member_at bs nx = None \<and> \<not> name_wraps bs nx"
  obtains st' where "elf_begin os st fd ELF_C_READ (Some j) = Some (None, st')" "same_but j a st st'"
proof (cases "nx = 0")
  case True
  then have "libelf_ar_open_member st (e_fd a) ELF_C_READ j = Some (None, st)"
    using a by (simp add: libelf_ar_open_member_def archive_def)
  then show thesis using a by (intro that[of st]) (simp_all add: begin_archive[OF a fd] archive_def)
next
  case False
  have none: "member_at bs nx = None" "\<not> name_wraps bs nx" using m False by blast+
  have "libelf_ar_open_member st (e_fd a) ELF_C_READ j = Some (None, set_error ELF_E_ARCHIVE 0 st)"
  proof (cases "header_at bs nx")
    case None
    then show ?thesis by (simp add: open_member_eq[OF a False])
  next
    case (Some h)
    note h = Some
    show ?thesis
    proof (cases "member_sizes h")
      case None
      then show ?thesis using h by (simp add: open_member_eq[OF a False] split: option.split)
    next
      case (Some z)
      then obtain sz nsz where z: "member_sizes h = Some (sz, nsz)" "number10 (h_size h) = Some sz"
        by (cases z) (auto simp: member_sizes_def bind_Some_iff)
      have "nx + 60 + unat sz > length bs"
      proof (cases "nsz \<le> sz")
        case True
        then show ?thesis using none(1) h z(1) by (simp add: member_at_def split: if_splits)
      next
        case False
        then show ?thesis using none(2) h z(1) by (simp add: name_wraps_def not_le)
      qed
      then show ?thesis using h z by (simp add: open_member_eq[OF a False])
    qed
  qed
  then show thesis using a by (intro that[of "set_error ELF_E_ARCHIVE 0 st"]) (simp_all add: begin_archive[OF a fd] archive_def)
qed

section \<open>The traversal\<close>

lemma begin_member:
  assumes a: "archive st j a raw bs nx" and fd: "e_fd a = - 1 \<or> e_fd a = fd" and nx: "nx \<noteq> 0"
    and m: "member_at bs nx = Some (off, n, nx')"
  shows "elf_begin os st fd ELF_C_READ (Some j)
      = member_descriptor st (e_fd a) ELF_C_READ j (ptr_add raw nx) (ptr_add raw off) (of_nat n)"
    "0 < off" "off + n \<le> length bs" "nx' = 2 * ((off + n + 1) div 2)" "nx < nx'"
proof -
  obtain h sz nsz where h: "header_at bs nx = Some h" "member_sizes h = Some (sz, nsz)"
    "nx + 60 + unat sz \<le> length bs" "nsz \<le> sz"
    "off = nx + 60 + unat nsz" "n = unat sz - unat nsz" "nx' = 2 * ((nx + 60 + unat sz + 1) div 2)"
    using m by (auto simp: member_at_def bind_Some_iff split: if_splits)
  have z: "number10 (h_size h) = Some sz" using h(2) by (auto simp: member_sizes_def bind_Some_iff)
  have n: "of_nat n = sz - nsz" unfolding h(6) unat_sub[OF h(4), symmetric] by simp
  show "elf_begin os st fd ELF_C_READ (Some j)
      = member_descriptor st (e_fd a) ELF_C_READ j (ptr_add raw nx) (ptr_add raw off) (of_nat n)"
    unfolding n h(5) begin_archive[OF a fd] open_member_eq[OF a nx] h(1) option.case z h(2) prod.case
    using h(3) by simp
  have le: "unat nsz \<le> unat sz" using h(4) by (simp add: word_le_nat_alt)
  then have s: "off + n = nx + 60 + unat sz" using h(5,6) by simp
  show "0 < off" using h(5) by simp
  show "off + n \<le> length bs" using s h(3) by simp
  show "nx' = 2 * ((off + n + 1) div 2)" unfolding s by (rule h(7))
  then show "nx < nx'" unfolding s by linarith
qed

lemma archiveD:
  assumes "archive st j a raw bs nx"
  shows "get_elf st j = Some a" "e_kind a = ELF_K_AR" "e_cmd a = ELF_C_READ" "e_rawfile a = Some raw"
    "mem_read (heap st) raw (length bs) = Some bs" "unat (e_rawsize a) = length bs" "length bs < 2 ^ 62"
    "j < next_elf st" "libelf_version st \<noteq> EV_NONE"
  using assms mem_read_length[of "heap st" raw "unat (e_rawsize a)" bs] by (auto simp: archive_def)

lemma archive_next:
  assumes a: "archive st j a raw bs nx" and s: "same_but j (a\<lparr>e_next := of_nat nx'\<rparr>) st st'"
    and nx: "nx' < 2 ^ 62" "even nx'" "nx' = 0 \<or> 8 \<le> nx'"
  shows "archive st' j (a\<lparr>e_next := of_nat nx'\<rparr>) raw bs nx'"
  using a s nx by (auto simp: archive_def same_but_def)

text \<open>One round: the member cannot be opened, or it is reported and the archive moves on.\<close>

lemma walk_round:
  assumes a: "archive st j a raw bs nx" and fd: "e_fd a = - 1 \<or> e_fd a = fd" and nx: "nx \<noteq> 0"
    and m: "member_at bs nx = Some (off, n, nx')" and act: "e_activations a \<noteq> 0"
  obtains (stop) st' where "ar_walk (Suc f) os st fd j = Some ([], st')" "same_but j a st st'"
      "n = 0 \<or> (\<exists>k. \<not> malloc_ok st k) \<or> refused (take n (drop off bs))"
  | (step) st' where "same_but j (a\<lparr>e_next := of_nat (after_member bs nx')\<rparr>) st st'"
      "ar_walk (Suc f) os st fd j
         = do { (ms, st) \<leftarrow> ar_walk f os st' fd j; Some ((of_nat off, of_nat n) # ms, st) }"
proof -
  note A = archiveD[OF a] and B = begin_member[OF a fd nx m]
  have n: "unat (of_nat n :: u64) = n" using B(3) A(7) by (simp add: unat_of_nat)
  have img: "mem_read (heap st) (ptr_add raw off) (unat (of_nat n :: u64)) = Some (take n (drop off bs))"
    unfolding n by (rule mem_read_sub[OF A(5) B(3)])
  have n62: "unat (of_nat n :: u64) < 2 ^ 62" using n B(3) A(7) by simp
  show thesis
  proof (rule member_descriptor_ok[OF A(1,8,9) img n62, of "e_fd a" ELF_C_READ "ptr_add raw nx"])
    fix st' assume s: "member_descriptor st (e_fd a) ELF_C_READ j (ptr_add raw nx) (ptr_add raw off) (of_nat n) = Some (None, st')"
      "same_but j a st st'" "(of_nat n :: u64) = 0 \<or> \<not> fst (c_alloc st) \<or> refused (take n (drop off bs))"
    have "n = 0" if "(of_nat n :: u64) = 0" using n that by simp
    then have "n = 0 \<or> (\<exists>k. \<not> malloc_ok st k) \<or> refused (take n (drop off bs))" using s(3) by (auto simp: c_alloc_def)
    then show thesis using s by (intro stop[of st']) (simp_all add: B(1))
  next
    fix i e st1 assume s: "member_descriptor st (e_fd a) ELF_C_READ j (ptr_add raw nx) (ptr_add raw off) (of_nat n) = Some (Some i, st1)"
      "i = next_elf st" "next_elf st1 = Suc i" "same_but j (a\<lparr>e_nchildren := e_nchildren a + 1\<rparr>) st st1"
      "get_elf st1 i = Some e" "member_elf j (ptr_add raw off) (of_nat n) e"
    let ?a1 = "a\<lparr>e_nchildren := e_nchildren a + 1\<rparr>"
    let ?a2 = "?a1\<lparr>e_next := of_nat (after_member bs nx')\<rparr>"
    have j: "get_elf st1 j = Some ?a1" "j \<noteq> i" using s(2,4) A(8) by (simp_all add: same_but_def)
    have base: "elf_getbase st1 (Some i) = Some (of_nat off, st1)" "elf_rawfile st1 (Some i) = Some (Some (ptr_add raw off), of_nat n, st1)"
      using s(5,6) j(1) A(4) by (simp_all add: elf_getbase_def elf_rawfile_def member_elf_def)
    obtain c st2 where nxt: "elf_next st1 (Some i) = Some (c, st2)" "st2 = put_elf j ?a2 st1 \<or> st2 = set_error ELF_E_ARGUMENT 0 (put_elf j ?a2 st1)"
      using next_member[OF s(5,6) j(1) _ _ _ _ A(7) B(2,3)] A(2-4,6) unfolding B(4) by auto
    have e2: "get_elf st2 i = Some e" "get_elf st2 j = Some ?a2" "next_elf st2 = Suc i" "heap st2 = heap st1" "libelf_version st2 = libelf_version st1"
      "malloc_ok st2 = malloc_ok st1" "\<And>k. k \<noteq> j \<Longrightarrow> get_elf st2 k = get_elf st1 k"
      using nxt(2) s(3,5) j(2) by (auto simp: set_error_def get_elf_def put_elf_def)
    obtain st3 where end3: "elf_end st2 (Some i) = Some (0, st3)" "heap st3 = heap st2" "libelf_version st3 = libelf_version st2"
      "malloc_ok st3 = malloc_ok st2" "next_elf st3 = next_elf st2" "get_elf st3 j = Some (?a2\<lparr>e_nchildren := e_nchildren ?a2 - 1\<rparr>)"
      "\<And>k. k \<noteq> i \<Longrightarrow> k \<noteq> j \<Longrightarrow> get_elf st3 k = get_elf st2 k"
      using end_member[OF e2(1) s(6) e2(2) _ j(2)] act by auto
    have restored: "?a2\<lparr>e_nchildren := e_nchildren ?a2 - 1\<rparr> = a\<lparr>e_next := of_nat (after_member bs nx')\<rparr>" by (cases a) simp
    have "same_but j (a\<lparr>e_next := of_nat (after_member bs nx')\<rparr>) st st3"
      using s(2,4) e2(3-7) end3(2-7) unfolding restored by (auto simp: same_but_def)
    moreover have "ar_walk (Suc f) os st fd j
        = do { (ms, st) \<leftarrow> ar_walk f os st3 fd j; Some ((of_nat off, of_nat n) # ms, st) }"
      by (simp add: B(1) s(1) base nxt(1) end3(1))
    ultimately show thesis by (rule step)
  qed
qed

lemma walk_ok:
  assumes "archive st j a raw bs nx" "e_fd a = - 1 \<or> e_fd a = fd" "nx \<noteq> 0" "e_activations a \<noteq> 0" "names_fit bs nx"
    "length bs - nx < f"
  shows "\<exists>n st' x. ar_walk f os st fd j = Some (map (\<lambda>(off, k). (of_nat off, of_nat k)) (take n (ar_members bs nx)), st')
    \<and> same_but j (a\<lparr>e_next := x\<rparr>) st st'
    \<and> (n < length (ar_members bs nx) \<longrightarrow> (case ar_members bs nx ! n of (off, k) \<Rightarrow>
         k = 0 \<or> (\<exists>i. \<not> malloc_ok st i) \<or> refused (take k (drop off bs))))"
  using assms
proof (induction bs nx arbitrary: st a f rule: ar_members.induct)
  case (1 bs nx)
  obtain g where f: "f = Suc g" using 1(7) by (cases f) auto
  have same: "a\<lparr>e_next := e_next a\<rparr> = a" by simp
  show ?case
  proof (cases "member_at bs nx")
    case None
    obtain st' where b: "elf_begin os st fd ELF_C_READ (Some j) = Some (None, st')" "same_but j a st st'"
      using begin_none[OF 1(2,3), of os] None names_fit_here[OF 1(6)] by blast
    show ?thesis using b None unfolding f ar_members.simps[of bs nx] None
      by (intro exI[of _ "0 :: nat"] exI[of _ st'] exI[of _ "e_next a"]) simp
  next
    case (Some y)
    then obtain off n nx' where m: "member_at bs nx = Some (off, n, nx')" by (cases y) auto
    note B = begin_member[OF 1(2,3,4) m] and N = member_at_next[OF m] and A = archiveD[OF 1(2)]
    have ms: "ar_members bs nx = (off, n) # (if nx' < length bs then ar_members bs nx' else [])"
      by (subst ar_members.simps) (simp add: m)
    show ?thesis
    proof (rule walk_round[OF 1(2,3,4) m 1(5), of g os])
      fix st' assume s: "ar_walk (Suc g) os st fd j = Some ([], st')" "same_but j a st st'"
        "n = 0 \<or> (\<exists>k. \<not> malloc_ok st k) \<or> refused (take n (drop off bs))"
      show ?thesis unfolding f s(1) ms using s(2,3) by (intro exI[of _ "0 :: nat"] exI[of _ st'] exI[of _ "e_next a"]) simp
    next
      fix st1 assume s: "same_but j (a\<lparr>e_next := of_nat (after_member bs nx')\<rparr>) st st1"
        "ar_walk (Suc g) os st fd j = do { (ms, st) \<leftarrow> ar_walk g os st1 fd j; Some ((of_nat off, of_nat n) # ms, st) }"
      have nx8: "8 \<le> nx" using 1(2,4) by (auto simp: archive_def)
      have nxt: "after_member bs nx' < 2 ^ 62" "even (after_member bs nx')" "after_member bs nx' = 0 \<or> 8 \<le> after_member bs nx'"
        using A(7) B(4) N nx8 by (auto simp: after_member_def)
      note ar = archive_next[OF 1(2) s(1) nxt]
      have mo: "malloc_ok st1 = malloc_ok st" using s(1) by (simp add: same_but_def)
      show ?thesis
      proof (cases "nx' < length bs")
        case False
        obtain h where g: "g = Suc h" using 1(7) N unfolding f by (cases g) auto
        from ar False have ar0: "archive st1 j (a\<lparr>e_next := of_nat 0\<rparr>) raw bs 0" by (simp add: after_member_def)
        obtain st' where b: "elf_begin os st1 fd ELF_C_READ (Some j) = Some (None, st')" "same_but j (a\<lparr>e_next := of_nat 0\<rparr>) st1 st'"
          using begin_none[OF ar0 _ disjI1[OF refl], of fd os] 1(3) by auto
        have "same_but j (a\<lparr>e_next := of_nat 0\<rparr>) st st'" using same_but_trans[OF s(1) b(2)] by simp
        then show ?thesis using b(1) False unfolding f s(2) ms unfolding g
          by (intro exI[of _ "1 :: nat"] exI[of _ st'] exI[of _ "of_nat 0"]) simp
      next
        case True
        then have am: "after_member bs nx' = nx'" by (simp add: after_member_def)
        let ?a = "a\<lparr>e_next := of_nat nx'\<rparr>"
        have pre: "archive st1 j ?a raw bs nx'" "e_fd ?a = - 1 \<or> e_fd ?a = fd" "nx' \<noteq> 0" "e_activations ?a \<noteq> 0"
          using ar[unfolded am] 1(3,5) N by simp_all
        have fuel: "length bs - nx' < g" using 1(7) N True unfolding f by linarith
        from 1(1)[OF m refl refl True pre(1-4) names_fit_next[OF 1(6) m True] fuel] obtain k st' x where w:
          "ar_walk g os st1 fd j = Some (map (\<lambda>(off, k). (of_nat off, of_nat k)) (take k (ar_members bs nx')), st')"
          "same_but j (?a\<lparr>e_next := x\<rparr>) st1 st'"
          "k < length (ar_members bs nx') \<longrightarrow> (case ar_members bs nx' ! k of (off, k) \<Rightarrow>
             k = 0 \<or> (\<exists>i. \<not> malloc_ok st1 i) \<or> refused (take k (drop off bs)))"
          by (elim exE conjE) (rule that)
        have "same_but j (a\<lparr>e_next := x\<rparr>) st st'" using same_but_trans[OF s(1) w(2)] by simp
        then show ?thesis unfolding f s(2) ms w(1) using w(3) True mo
          by (intro exI[of _ "Suc k"] exI[of _ st'] exI[of _ x]) (simp split: prod.splits)
      qed
    qed
  qed
qed

section \<open>Properties\<close>

text \<open>
  C2. A client that opens an image of less than \<open>2 ^ 62\<close> bytes that is an archive and visits its members with \<open>elf_begin\<close>,
  \<open>elf_next\<close> and \<open>elf_end\<close> comes to an end, after at most as many rounds as the image has bytes, provided that no member it comes
  to has a BSD name longer than the size that includes it (\<open>names_fit\<close>; there the subtraction in \<open>_libelf_ar_open_member\<close> wraps
  around, see below). The members it sees, by the
  offset and size of their contents, are those the bytes of the archive have from the first member on, in their order;
  it stops before the last one only at a member that is empty, that has a magic number but is refused as an object,
  or when an allocation can fail. The archive ends up with the children it had, and nothing else changes.
\<close>

theorem archive_traversal:
  assumes img: "mem_read (heap st) img (unat sz) = Some bs" "sz \<noteq> 0" "unat sz < 2 ^ 62"
    and v: "libelf_version st \<noteq> EV_NONE"
    and e: "elf_memory st (Some img) sz = Some (Some j, st1)" "get_elf st1 j = Some a" "e_kind a = ELF_K_AR"
    and first: "first = unat (e_next a)" and fit: "names_fit bs first"
  shows "8 \<le> first \<and> even first \<and> first < 2 ^ 34
    \<and> (\<exists>n st' x. ar_walk (Suc (length bs)) os st1 fd j
          = Some (map (\<lambda>(off, k). (of_nat off, of_nat k)) (take n (ar_members bs first)), st')
        \<and> (n < length (ar_members bs first) \<longrightarrow> (case ar_members bs first ! n of (off, k) \<Rightarrow>
             k = 0 \<or> (\<exists>i. \<not> malloc_ok st i) \<or> refused (take k (drop off bs))))
        \<and> same_but j (a\<lparr>e_next := x\<rparr>) st1 st')"
proof -
  have "0 < unat sz" using img(2) by (simp add: unat_gt_0)
  moreover have "sint sz = int (unat sz)" by (rule sint_small) (use img(3) in simp)
  ultimately have pos: "0 < sint sz" by (simp only: of_nat_0_less_iff)
  from libelf_memory_ok[OF img(1) pos, of True] have m: "open_frame (next_elf st) st st1" "j = next_elf st" "next_elf st1 = Suc j"
    "opened st1 img sz a" using e(1,2) unfolding elf_memory_eq[OF v pos] by auto
  then obtain s where s: "e_next a = of_nat s" "even s" "8 \<le> s" "s < 2 ^ 34" using e(3) by (auto simp: opened_def)
  then have fs: "first = s" using first by (simp add: unat_of_nat)
  have st1: "heap st1 = heap st" "libelf_version st1 = libelf_version st" "malloc_ok st1 = malloc_ok st"
    using m(1) by (auto simp: open_frame_def frame_ok_def)
  have ar: "archive st1 j a img bs s"
    using m(2-4) e(2,3) img v s unfolding archive_def st1 by (auto simp: opened_def)
  have "e_fd a = - 1 \<or> e_fd a = fd" "s \<noteq> 0" "e_activations a \<noteq> 0" "length bs - s < Suc (length bs)"
    using m(4) s(3) by (auto simp: opened_def)
  from walk_ok[OF ar this(1-3) fit[unfolded fs] this(4), of os] show ?thesis
    unfolding st1 fs using s by (elim exE conjE) (intro conjI exI; assumption)
qed

text \<open>An archive with a member of two bytes.\<close>

definition sample_archive :: bytes where
  "sample_archive = ARMAG @ [0x61, SLASH] @ replicate 14 BLANK @ replicate 32 BLANK @ [0x32] @ replicate 9 BLANK @ ARFMAG @ [1, 2]"

theorem archive_traversal_witness:
  "\<forall>os. \<exists>st1 n st'. elf_memory (sample_state sample_archive) (Some (0, 0)) 70 = Some (Some 0, st1)
     \<and> ar_walk 71 os st1 3 0 = Some (take n [(68, 2)], st')"
proof
  fix os
  have "(case elf_memory (sample_state sample_archive) (Some (0, 0)) 70 of
      Some (Some k, st) \<Rightarrow> k = 0 \<and> (case get_elf st 0 of Some e \<Rightarrow> e_kind e = ELF_K_AR \<and> e_next e = 8 | None \<Rightarrow> False)
    | _ \<Rightarrow> False)" by code_simp
  then obtain st1 a where e: "elf_memory (sample_state sample_archive) (Some (0, 0)) 70 = Some (Some 0, st1)"
    "get_elf st1 0 = Some a" "e_kind a = ELF_K_AR" "e_next a = 8" by (auto split: option.splits)
  have ms: "ar_members sample_archive 8 = [(68, 2)]" "ar_members sample_archive 70 = []" "length sample_archive = 70" by code_simp+
  have img: "mem_read (heap (sample_state sample_archive)) (0, 0) (unat (70 :: u64)) = Some sample_archive"
    "libelf_version (sample_state sample_archive) \<noteq> EV_NONE"
    using ms(3) by (simp_all add: sample_state_def mem_read_def slice_at_def)
  have fst: "unat (e_next a) = 8" using e(4) by simp
  have fit: "names_fit sample_archive 8" by code_simp
  from archive_traversal[OF img(1) _ _ img(2) e(1-3) fst[symmetric] fit, of os 3] obtain n st' where
    "ar_walk 71 os st1 3 0 = Some (map (\<lambda>(off, k). (of_nat off, of_nat k)) (take n (ar_members sample_archive 8)), st')"
    by (auto simp: ms(3))
  then have "ar_walk 71 os st1 3 0 = Some (take n [(68, 2)], st')" using ms(1) by (simp add: take_map[symmetric])
  then show "\<exists>st1 n st'. elf_memory (sample_state sample_archive) (Some (0, 0)) 70 = Some (Some 0, st1)
     \<and> ar_walk 71 os st1 3 0 = Some (take n [(68, 2)], st')" using e(1) by blast
qed

text \<open>
  The size of a BSD member includes the length of its name; a header can have a name longer than the size. Here the name
  has nine bytes and the member three: the descriptor of the member has the size \<open>2\<^sup>6\<^sup>4 - 6\<close>.
\<close>

definition wrapping_archive :: bytes where
  "wrapping_archive = ARMAG @ [0x23, 0x31, SLASH, 0x39] @ replicate 12 BLANK @ replicate 32 BLANK @ [0x33] @ replicate 9 BLANK
     @ ARFMAG @ replicate 20 7"

theorem bsd_name_wraps_size:
  "\<not> names_fit wrapping_archive 8
   \<and> (case elf_memory (sample_state wrapping_archive) (Some (0, 0)) 88 of
        Some (Some j, st) \<Rightarrow>
          (case libelf_ar_open_member st 3 ELF_C_READ j of
             Some (Some i, st) \<Rightarrow> (case get_elf st i of Some e \<Rightarrow> e_rawsize e = - 6 | None \<Rightarrow> False)
           | _ \<Rightarrow> False)
      | _ \<Rightarrow> False)"
proof
  show "\<not> names_fit wrapping_archive 8" by code_simp
  show "case elf_memory (sample_state wrapping_archive) (Some (0, 0)) 88 of
        Some (Some j, st) \<Rightarrow>
          (case libelf_ar_open_member st 3 ELF_C_READ j of
             Some (Some i, st) \<Rightarrow> (case get_elf st i of Some e \<Rightarrow> e_rawsize e = - 6 | None \<Rightarrow> False)
           | _ \<Rightarrow> False)
      | _ \<Rightarrow> False" by code_simp
qed

end
