(* ===== verification/Elf_Release.thy ===== *)
theory Elf_Release
  imports Elf_Open
begin

text \<open>
  Releasing sections and descriptors (\<open>elf_end.c\<close>, and the end of \<open>_libelf_write_elf\<close>): the loops end.
\<close>

section \<open>The order of release\<close>

context section_index
begin

lemma least_None: "inv t \<Longrightarrow> least t = None \<longleftrightarrow> keys t = {}"
proof
  assume a: "inv t" "least t = None"
  show "keys t = {}"
  proof (rule ccontr)
    assume "keys t \<noteq> {}"
    then obtain k where "k \<in> keys t" by blast
    then have "(LEAST k. k \<in> keys t) \<in> keys t \<and> (\<forall>k\<in>keys t. (LEAST k. k \<in> keys t) \<le> k)" by (auto intro: LeastI Least_le)
    then have "least t = Some (LEAST k. k \<in> keys t)" using least_Some[OF a(1)] by blast
    then show False using a(2) by simp
  qed
next
  assume a: "inv t" "keys t = {}"
  then show "least t = None" using least_Some[OF a(1)] by (cases "least t") auto
qed

text \<open>Removing the least key makes its successor the least.\<close>

lemma succ_least:
  assumes "inv t" "least t = Some k" "inv t'" "keys t' = keys t - {k}"
  shows "succ t k = Some (least t')"
proof -
  have k: "k \<in> keys t" "\<forall>m\<in>keys t. k \<le> m" using least_Some[OF assms(1)] assms(2) by auto
  show ?thesis
  proof (cases "least t'")
    case None
    then have "keys t - {k} = {}" using least_None[OF assms(3)] assms(4) by simp
    then have "\<forall>m\<in>keys t. m \<le> k" by auto
    then show ?thesis using succ_None[OF assms(1) k(1)] None by simp
  next
    case (Some m)
    then have "m \<in> keys t - {k}" "\<forall>j\<in>keys t - {k}. m \<le> j" using least_Some[OF assms(3)] assms(4) by auto
    then have "m \<in> keys t \<and> k < m \<and> (\<forall>j\<in>keys t. k < j \<longrightarrow> m \<le> j)" using k(2) by (auto simp: le_neq_trans)
    then show ?thesis using succ_Some[OF assms(1) k(1)] Some by simp
  qed
qed

end

section \<open>Sections\<close>

text \<open>The library never allocates the buffer of a raw data descriptor.\<close>

definition raw_plain :: "Elf \<Rightarrow> bool" where
  "raw_plain e \<longleftrightarrow> (\<forall>n s. e_scns e n = Some s \<longrightarrow> (\<forall>d\<in>set (s_rawdata s). d_flags d AND LIBELF_F_DATA_MALLOCED = 0))"

text \<open>Freeing a set of buffers, and the buffers that data descriptors and sections own.\<close>

definition drop_bufs :: "nat set \<Rightarrow> heap \<Rightarrow> heap" where
  "drop_bufs B h = (\<lambda>b. if b \<in> B then None else h b)"

definition data_bufs :: "Libelf_Data list \<Rightarrow> nat set" where
  "data_bufs ds = {b. \<exists>d\<in>set ds. d_flags d AND LIBELF_F_DATA_MALLOCED \<noteq> 0 \<and> (\<exists>n. d_buf (d_data d) = Some (b, n))}"

definition scn_bufs :: "Elf \<Rightarrow> nat set" where
  "scn_bufs e = {b. \<exists>n s. e_scns e n = Some s \<and> b \<in> data_bufs (s_data s)}"

lemma drop_bufs_simps [simp]: "drop_bufs {} h = h" "drop_bufs A (drop_bufs B h) = drop_bufs (A \<union> B) h"
  by (auto simp: drop_bufs_def fun_eq_iff)

lemma drop_buf: "h(b := None) = drop_bufs {b} h"
  by (auto simp: drop_bufs_def fun_eq_iff)

lemma data_bufs_simps: "data_bufs [] = {}" "data_bufs (d # ds) = data_bufs [d] \<union> data_bufs ds"
  by (auto simp: data_bufs_def)

lemma release_data_1: "libelf_release_data st d = st\<lparr>heap := drop_bufs (data_bufs [d]) (heap st)\<rparr>"
  by (cases "d_buf (d_data d)") (auto simp: libelf_release_data_def c_free_def data_bufs_def drop_buf split: prod.split)

lemma release_data_heap: "foldl libelf_release_data st ds = st\<lparr>heap := drop_bufs (data_bufs ds) (heap st)\<rparr>"
proof (induction ds arbitrary: st)
  case (Cons d ds)
  have "foldl libelf_release_data st (d # ds) = foldl libelf_release_data (st\<lparr>heap := drop_bufs (data_bufs [d]) (heap st)\<rparr>) ds"
    by (simp add: release_data_1)
  also have "\<dots> = st\<lparr>heap := drop_bufs (data_bufs ds \<union> data_bufs [d]) (heap st)\<rparr>" unfolding Cons.IH by simp
  finally show ?case unfolding data_bufs_simps(2)[of d ds] by (simp only: Un_commute)
qed (simp add: data_bufs_simps)

lemma data_bufs_none: "\<forall>d\<in>set ds. d_flags d AND LIBELF_F_DATA_MALLOCED = 0 \<Longrightarrow> data_bufs ds = {}"
  by (auto simp: data_bufs_def)

lemma release_scn_ok:
  assumes e: "get_elf st i = Some e" "scn_inv e" "raw_plain e" "k \<in> rb_keys (e_scn e)"
  obtains t s where "libelf_release_scn st i k
      = Some (put_elf i (e\<lparr>e_scn := t, e_scns := (e_scns e)(k := None)\<rparr>) (st\<lparr>heap := drop_bufs (data_bufs (s_data s)) (heap st)\<rparr>))"
    "rb_inv t" "rb_keys t = rb_keys (e_scn e) - {k}" "e_scns e k = Some s"
proof -
  obtain s where s: "e_scns e k = Some s" using e(2,4) by (auto simp: scn_inv_def)
  have inv: "rb_inv (e_scn e)" using e(2) by (simp add: scn_inv_def)
  obtain t where t: "RB_REMOVE (e_scn e) k = Some t" "rb_inv t" "rb_keys t = rb_keys (e_scn e) - {k}"
    using scn.del_key[OF inv e(4)] by blast
  have r: "\<forall>d\<in>set (s_rawdata s). d_flags d AND LIBELF_F_DATA_MALLOCED = 0" using e(3) s by (auto simp: raw_plain_def)
  have "libelf_release_scn st i k
      = Some (put_elf i (e\<lparr>e_scn := t, e_scns := (e_scns e)(k := None)\<rparr>) (st\<lparr>heap := drop_bufs (data_bufs (s_data s)) (heap st)\<rparr>))"
    unfolding libelf_release_scn_def e(1) bind.simps s Let_def release_data_heap t(1) using r data_bufs_none[OF r] by simp
  then show thesis using t(2,3) s that by blast
qed

lemma scn_bufs_split:
  "e_scns e k = Some s \<Longrightarrow> scn_bufs e = scn_bufs (e\<lparr>e_scn := t, e_scns := (e_scns e)(k := None)\<rparr>) \<union> data_bufs (s_data s)"
  by (rule set_eqI) (simp add: scn_bufs_def, metis option.sel)

lemma release_scns_ok:
  assumes "get_elf st i = Some e" "scn_inv e" "raw_plain e"
  shows "release_scns st i (RB_MIN (e_scn e))
    = Some (put_elf i (e\<lparr>e_scn := RB_NULL, e_scns := Map.empty\<rparr>) (st\<lparr>heap := drop_bufs (scn_bufs e) (heap st)\<rparr>))"
  using assms
proof (induction "card (rb_keys (e_scn e))" arbitrary: st e)
  case 0
  have inv: "rb_inv (e_scn e)" "rb_keys (e_scn e) = dom (e_scns e)" using "0.prems" by (simp_all add: scn_inv_def)
  have "finite (rb_keys (e_scn e))" by (simp add: rb_keys_def)
  then have k: "rb_keys (e_scn e) = {}" using 0(1) by simp
  then have "RB_MIN (e_scn e) = None" using scn.least_None[OF inv(1)] by simp
  moreover have t: "e_scn e = RB_NULL" "e_scns e = Map.empty" using k inv(2) by (simp_all add: rb_keys_empty)
  moreover have "scn_bufs e = {}" using t by (simp add: scn_bufs_def)
  moreover have "put_elf i (e\<lparr>e_scn := RB_NULL, e_scns := Map.empty\<rparr>) (st\<lparr>heap := heap st\<rparr>) = st"
    using t "0.prems"(1) by (cases e; cases st) (auto simp: put_elf_def get_elf_def)
  ultimately show ?case by (simp add: release_scns.simps)
next
  case (Suc n)
  have inv: "rb_inv (e_scn e)" using Suc.prems(2) by (simp add: scn_inv_def)
  have fin: "finite (rb_keys (e_scn e))" by (simp add: rb_keys_def)
  have "rb_keys (e_scn e) \<noteq> {}" using Suc(2) by auto
  then obtain k where k: "RB_MIN (e_scn e) = Some k" using scn.least_None[OF inv] by (cases "RB_MIN (e_scn e)") auto
  then have mem: "k \<in> rb_keys (e_scn e)" using scn.least_Some[OF inv] by simp
  obtain t s where r: "libelf_release_scn st i k
      = Some (put_elf i (e\<lparr>e_scn := t, e_scns := (e_scns e)(k := None)\<rparr>) (st\<lparr>heap := drop_bufs (data_bufs (s_data s)) (heap st)\<rparr>))"
    "rb_inv t" "rb_keys t = rb_keys (e_scn e) - {k}" "e_scns e k = Some s" by (rule release_scn_ok[OF Suc.prems mem])
  have nx: "RB_NEXT (e_scn e) k = Some (RB_MIN t)" by (rule scn.succ_least[OF inv k r(2,3)])
  let ?e1 = "e\<lparr>e_scn := t, e_scns := (e_scns e)(k := None)\<rparr>"
  let ?st1 = "put_elf i ?e1 (st\<lparr>heap := drop_bufs (data_bufs (s_data s)) (heap st)\<rparr>)"
  have "n = card (rb_keys (e_scn ?e1))" using Suc(2) r(3) mem fin by simp
  moreover have "scn_inv ?e1" using Suc.prems(2) r(2,3) by (auto simp: scn_inv_def)
  moreover have "raw_plain ?e1" using Suc.prems(3) by (auto simp: raw_plain_def split: if_splits)
  ultimately have "release_scns ?st1 i (RB_MIN t)
      = Some (put_elf i (?e1\<lparr>e_scn := RB_NULL, e_scns := Map.empty\<rparr>) (?st1\<lparr>heap := drop_bufs (scn_bufs ?e1) (heap ?st1)\<rparr>))"
    using Suc(1)[of ?e1 ?st1] by simp
  moreover have "put_elf i a ((put_elf i b (st\<lparr>heap := h\<rparr>))\<lparr>heap := h'\<rparr>) = put_elf i a (st\<lparr>heap := h'\<rparr>)" for a b h h'
    by (simp add: put_elf_def)
  moreover have "heap ?st1 = drop_bufs (data_bufs (s_data s)) (heap st)" by (simp add: put_elf_def)
  ultimately have "release_scns ?st1 i (RB_MIN t)
      = Some (put_elf i (e\<lparr>e_scn := RB_NULL, e_scns := Map.empty\<rparr>) (st\<lparr>heap := drop_bufs (scn_bufs e) (heap st)\<rparr>))"
    unfolding scn_bufs_split[OF r(4), of t] by simp
  then show ?case using Suc.prems(1) k nx r(1) by (simp add: release_scns.simps[of st i "Some k"])
qed
section \<open>References between descriptors\<close>

text \<open>The buffers a descriptor owns: its file, unless it is an image of the client or a member, and the data of its sections.\<close>

definition raw_bufs :: "Elf \<Rightarrow> nat set" where
  "raw_bufs e =
     (if e_flags e AND LIBELF_F_RAWFILE_MALLOC \<noteq> 0 \<or> e_flags e AND LIBELF_F_RAWFILE_MMAP \<noteq> 0
      then fst ` set_option (e_rawfile e) else {})"

definition own_bufs :: "Elf \<Rightarrow> nat set" where
  "own_bufs e = raw_bufs e \<union> (if e_kind e = ELF_K_ELF then scn_bufs e else {})"

text \<open>The open members of an archive, by their parent pointers.\<close>

definition children :: "libelf_state \<Rightarrow> nat \<Rightarrow> nat set" where
  "children st j = {k. \<exists>c. get_elf st k = Some c \<and> e_parent c = Some j}"

definition descr_ok :: "libelf_state \<Rightarrow> nat \<Rightarrow> Elf \<Rightarrow> bool" where
  "descr_ok st i e \<longleftrightarrow> e_kind e \<noteq> ELF_K_NUM \<and> 0 \<le> e_activations e
     \<and> (e_kind e = ELF_K_ELF \<longrightarrow> scn_inv e \<and> raw_plain e)
     \<and> (e_kind e = ELF_K_AR \<longrightarrow> e_nchildren e = int (card (children st i)))
     \<and> (\<forall>j. e_parent e = Some j \<longrightarrow> j < i \<and> (\<exists>p. get_elf st j = Some p \<and> e_kind p = ELF_K_AR))"

definition refs_inv :: "libelf_state \<Rightarrow> bool" where
  "refs_inv st \<longleftrightarrow> (\<forall>i e. get_elf st i = Some e \<longrightarrow> i < next_elf st \<and> descr_ok st i e)"

text \<open>A descriptor is needed if the client holds it, or if it is the archive of a member that is needed.\<close>

inductive needed :: "libelf_state \<Rightarrow> nat \<Rightarrow> bool" for st where
  held: "get_elf st i = Some e \<Longrightarrow> 0 < e_activations e \<Longrightarrow> needed st i"
| archive_of: "needed st i \<Longrightarrow> get_elf st i = Some e \<Longrightarrow> e_parent e = Some j \<Longrightarrow> needed st j"

text \<open>The invariant of the descriptors: the counts are right and every descriptor is needed.\<close>

definition refs_ok :: "libelf_state \<Rightarrow> bool" where
  "refs_ok st \<longleftrightarrow> refs_inv st \<and> (\<forall>i. get_elf st i \<noteq> None \<longrightarrow> needed st i)"

definition busy :: "libelf_state \<Rightarrow> nat \<Rightarrow> bool" where
  "busy st i \<longleftrightarrow> (\<exists>e. get_elf st i = Some e \<and> 0 < e_activations e) \<or> children st i \<noteq> {}"

lemma refsD:
  assumes "refs_inv st" "get_elf st i = Some e"
  shows "i < next_elf st" "e_kind e \<noteq> ELF_K_NUM" "0 \<le> e_activations e"
    "e_kind e = ELF_K_ELF \<Longrightarrow> scn_inv e" "e_kind e = ELF_K_ELF \<Longrightarrow> raw_plain e"
    "e_kind e = ELF_K_AR \<Longrightarrow> e_nchildren e = int (card (children st i))"
    "e_parent e = Some j \<Longrightarrow> j < i" "e_parent e = Some j \<Longrightarrow> \<exists>p. get_elf st j = Some p \<and> e_kind p = ELF_K_AR"
  using assms unfolding refs_inv_def descr_ok_def by blast+

lemma childrenE:
  assumes "refs_inv st" "k \<in> children st j"
  obtains c p where "get_elf st k = Some c" "e_parent c = Some j" "j < k" "get_elf st j = Some p" "e_kind p = ELF_K_AR"
  using assms refsD(7,8)[OF assms(1)] unfolding children_def by blast

lemma children_finite: "refs_inv st \<Longrightarrow> finite (children st j)"
  by (rule finite_subset[of _ "{..<next_elf st}"]) (auto simp: children_def refsD(1))

lemma not_busy_not_needed:
  assumes "refs_inv st" "\<not> busy st i"
  shows "\<not> needed st i"
proof
  assume "needed st i"
  then show False using assms(2)
    by (cases rule: needed.cases) (auto simp: busy_def children_def)
qed

lemma needed_live: "refs_inv st \<Longrightarrow> needed st i \<Longrightarrow> get_elf st i \<noteq> None"
  by (erule needed.cases) (auto dest: refsD(8))

text \<open>If every descriptor is held or has an open member, all are needed: members have higher numbers.\<close>

lemma busy_needed:
  assumes r: "refs_inv st" and b: "\<forall>i. get_elf st i \<noteq> None \<longrightarrow> busy st i"
  shows "get_elf st i \<noteq> None \<Longrightarrow> needed st i"
proof (induction "next_elf st - i" arbitrary: i rule: less_induct)
  case less
  from b less(2) consider (held) e where "get_elf st i = Some e" "0 < e_activations e" | (child) k where "k \<in> children st i"
    unfolding busy_def by blast
  then show ?case
  proof cases
    case held
    then show ?thesis by (rule needed.held)
  next
    case child
    then obtain c where c: "get_elf st k = Some c" "e_parent c = Some i" "i < k" using childrenE[OF r] by metis
    have "next_elf st - k < next_elf st - i" using c(1,3) refsD(1)[OF r c(1)] by simp
    from less(1)[OF this] c(1) have "needed st k" by simp
    then show ?thesis using c(1,2) by (rule needed.archive_of)
  qed
qed

lemma needed_busy: "needed st i \<Longrightarrow> busy st i"
  by (erule needed.cases) (auto simp: busy_def children_def)

section \<open>Closing a descriptor\<close>

text \<open>The descriptors after \<open>i\<close> has gone.\<close>

definition without_elf :: "libelf_state \<Rightarrow> nat \<Rightarrow> Elf \<Rightarrow> nat \<Rightarrow> Elf option" where
  "without_elf st i e =
     ((\<lambda>j. if e_parent e = Some j then map_option (\<lambda>p. p\<lparr>e_nchildren := e_nchildren p - 1\<rparr>) (elfs st j) else elfs st j)(i := None))"

lemma release_rawfile_eq: "release_rawfile st e = st\<lparr>heap := drop_bufs (raw_bufs e) (heap st)\<rparr>"
  by (cases "e_rawfile e") (auto simp: release_rawfile_def c_free_def raw_bufs_def drop_buf)

lemma end_release_ok:
  assumes r: "refs_inv st" and e: "get_elf st i = Some e"
  shows "end_release st i = Some (st\<lparr>elfs := without_elf st i e, heap := drop_bufs (own_bufs e) (heap st)\<rparr>)"
proof -
  note D = refsD[OF r e]
  let ?B = "if e_kind e = ELF_K_ELF then scn_bufs e else {}"
  obtain e1 where s: "(if e_kind e = ELF_K_ELF then release_scns st i (RB_MIN (e_scn e)) else Some st)
      = Some (put_elf i e1 (st\<lparr>heap := drop_bufs ?B (heap st)\<rparr>))" "e_kind e = ELF_K_ELF \<longrightarrow> e_scn e1 = RB_NULL" "e_kind e1 = e_kind e"
  proof (cases "e_kind e = ELF_K_ELF")
    case True
    show thesis by (rule that[of "e\<lparr>e_scn := RB_NULL, e_scns := Map.empty\<rparr>"]) (use True release_scns_ok[OF e D(4,5)] in simp_all)
  next
    case False
    have "st = put_elf i e (st\<lparr>heap := heap st\<rparr>)" using e by (cases st) (auto simp: put_elf_def get_elf_def)
    then show thesis by (intro that[of e]) (use False in simp_all)
  qed
  have p: "e_parent e = Some j \<Longrightarrow> j \<noteq> i \<and> (\<exists>p. elfs st j = Some p)" for j using D(7,8)[of j] by (auto simp: get_elf_def)
  show ?thesis
  proof (cases "e_parent e")
    case None
    then show ?thesis unfolding end_release_def e bind.simps s(1) release_rawfile_eq Let_def using s(2,3) D(2)
      by (simp add: libelf_release_elf_def without_elf_def own_bufs_def put_elf_def get_elf_def)
  next
    case (Some j)
    then obtain p where j: "j \<noteq> i" "elfs st j = Some p" using p by blast
    then show ?thesis unfolding end_release_def e bind.simps s(1) release_rawfile_eq Let_def using s(2,3) D(2) Some
      by (auto simp: libelf_release_elf_def without_elf_def own_bufs_def put_elf_def get_elf_def fun_eq_iff)
  qed
qed
text \<open>One round: a descriptor that nothing needs goes, and the counts are right again.\<close>

definition goes_away :: "libelf_state \<Rightarrow> nat \<Rightarrow> Elf \<Rightarrow> libelf_state \<Rightarrow> bool" where
  "goes_away st i e st1 \<longleftrightarrow> refs_inv st \<and> get_elf st i = Some e \<and> \<not> busy st i
     \<and> st1 = st\<lparr>elfs := without_elf st i e, heap := drop_bufs (own_bufs e) (heap st)\<rparr>"

lemma goes_awayD:
  assumes "goes_away st i e st1"
  shows "refs_inv st" "get_elf st i = Some e" "\<not> busy st i"
    "st1 = st\<lparr>elfs := without_elf st i e, heap := drop_bufs (own_bufs e) (heap st)\<rparr>"
  using assms unfolding goes_away_def by blast+

lemma gone: "goes_away st i e st1 \<Longrightarrow> get_elf st1 i = None"
  by (simp add: goes_away_def get_elf_def without_elf_def)

lemma kept:
  "goes_away st i e st1 \<Longrightarrow> j \<noteq> i \<Longrightarrow> get_elf st1 j = (if e_parent e = Some j
     then map_option (\<lambda>p. p\<lparr>e_nchildren := e_nchildren p - 1\<rparr>) (get_elf st j) else get_elf st j)"
  by (simp add: goes_away_def get_elf_def without_elf_def)

lemma kept_shape:
  assumes g: "goes_away st i e st1" and a: "get_elf st1 j = Some c"
  shows "\<exists>c0 n. get_elf st j = Some c0 \<and> c = c0\<lparr>e_nchildren := n\<rparr>"
proof -
  have j: "j \<noteq> i" using gone[OF g] a by auto
  show ?thesis
  proof (cases "e_parent e = Some j")
    case True
    then show ?thesis using a kept[OF g j] by auto
  next
    case False
    then show ?thesis using a kept[OF g j] by (intro exI[of _ c] exI[of _ "e_nchildren c"]) (cases c; simp)
  qed
qed

lemma kept_live:
  "goes_away st i e st1 \<Longrightarrow> j \<noteq> i \<Longrightarrow> get_elf st j = Some c \<Longrightarrow> \<exists>n. get_elf st1 j = Some (c\<lparr>e_nchildren := n\<rparr>)"
  by (cases "e_parent e = Some j") (auto simp: kept intro: exI[of _ "e_nchildren c"])

lemma no_children: "goes_away st i e st1 \<Longrightarrow> children st i = {}"
  by (simp add: goes_away_def busy_def)

lemma children_kept:
  assumes g: "goes_away st i e st1"
  shows "children st1 j = children st j - {i}"
proof (intro equalityI subsetI)
  fix k assume "k \<in> children st1 j"
  then obtain c where c: "get_elf st1 k = Some c" "e_parent c = Some j" by (auto simp: children_def)
  then show "k \<in> children st j - {i}" using kept_shape[OF g c(1)] gone[OF g] by (auto simp: children_def)
next
  fix k assume "k \<in> children st j - {i}"
  then obtain c where c: "get_elf st k = Some c" "e_parent c = Some j" "k \<noteq> i" by (auto simp: children_def)
  then show "k \<in> children st1 j" using kept_live[OF g c(3,1)] by (auto simp: children_def)
qed

lemma child_iff: "goes_away st i e st1 \<Longrightarrow> i \<in> children st j \<longleftrightarrow> e_parent e = Some j"
  by (simp add: goes_away_def children_def)

lemma count_kept:
  assumes g: "goes_away st i e st1" and c: "get_elf st1 j = Some c" and c0: "get_elf st j = Some c0" "e_kind c0 = ELF_K_AR"
  shows "e_nchildren c = int (card (children st1 j))"
proof -
  note r = goes_awayD(1)[OF g]
  have ne: "j \<noteq> i" using c gone[OF g] by auto
  show ?thesis
  proof (cases "e_parent e = Some j")
    case True
    then have "e_nchildren c = int (card (children st j)) - 1" using c kept[OF g ne] c0(1) refsD(6)[OF r c0] by auto
    moreover have "i \<in> children st j" using True child_iff[OF g] by simp
    moreover have "0 < card (children st j)" using \<open>i \<in> children st j\<close> children_finite[OF r] card_gt_0_iff by blast
    ultimately show ?thesis unfolding children_kept[OF g] by simp
  next
    case False
    then show ?thesis unfolding children_kept[OF g] using c kept[OF g ne] c0(1) refsD(6)[OF r c0] child_iff[OF g] by simp
  qed
qed

lemma refs_inv_kept:
  assumes g: "goes_away st i e st1"
  shows "refs_inv st1"
proof -
  have "j < next_elf st1 \<and> descr_ok st1 j c" if c: "get_elf st1 j = Some c" for j c
  proof -
    from kept_shape[OF g c] obtain c0 n where c0: "get_elf st j = Some c0" "c = c0\<lparr>e_nchildren := n\<rparr>" by blast
    note D = refsD[OF goes_awayD(1)[OF g] c0(1)]
    have "\<exists>p. get_elf st1 k = Some p \<and> e_kind p = ELF_K_AR" if p: "e_parent c0 = Some k" for k
    proof -
      obtain p where p': "get_elf st k = Some p" "e_kind p = ELF_K_AR" using D(8)[OF p] by blast
      have "k \<noteq> i" using c0(1) p no_children[OF g] by (auto simp: children_def)
      then show ?thesis using kept_live[OF g _ p'(1)] p'(2) by auto
    qed
    moreover have "scn_inv c" "raw_plain c" if "e_kind c0 = ELF_K_ELF"
      using D(4,5)[OF that] c0(2) by (simp_all add: scn_inv_def raw_plain_def)
    moreover have "next_elf st1 = next_elf st" using goes_awayD(4)[OF g] by simp
    ultimately show ?thesis using D(1-3,7) count_kept[OF g c c0(1)] c0(2) by (simp add: descr_ok_def)
  qed
  then show ?thesis by (simp add: refs_inv_def)
qed

lemma needed_kept:
  assumes g: "goes_away st i e st1"
  shows "needed st1 j \<longleftrightarrow> needed st j"
proof
  assume "needed st1 j"
  then show "needed st j"
    by induction (use kept_shape[OF g] in \<open>fastforce intro: needed.held, fastforce intro: needed.archive_of\<close>)
next
  assume "needed st j"
  then show "needed st1 j"
  proof induction
    case (held k c)
    then have "k \<noteq> i" using goes_awayD(3)[OF g] by (auto simp: busy_def)
    then show ?case using kept_live[OF g _ held(1)] held(2) by (auto intro: needed.held)
  next
    case (archive_of k c j)
    have "k \<noteq> i" using gone[OF g] needed_live[OF refs_inv_kept[OF g] archive_of.IH] by auto
    then show ?case using kept_live[OF g _ archive_of(2)] archive_of by (auto intro: needed.archive_of)
  qed
qed

lemma busy_kept: "goes_away st i e st1 \<Longrightarrow> j \<noteq> i \<Longrightarrow> e_parent e \<noteq> Some j \<Longrightarrow> busy st j \<Longrightarrow> busy st1 j"
  using children_kept[of st i e st1 j] child_iff[of st i e st1 j] by (auto simp: busy_def kept)

text \<open>The buffers of the descriptors that nothing needs.\<close>

definition unneeded_bufs :: "libelf_state \<Rightarrow> nat set" where
  "unneeded_bufs st = {b. \<exists>j e. get_elf st j = Some e \<and> \<not> needed st j \<and> b \<in> own_bufs e}"

lemma own_bufs_nchildren [simp]: "own_bufs (e\<lparr>e_nchildren := n\<rparr>) = own_bufs e"
  by (simp add: own_bufs_def raw_bufs_def scn_bufs_def)

lemma unneeded_kept:
  assumes K: "goes_away st i e st1"
  shows "unneeded_bufs st = unneeded_bufs st1 \<union> own_bufs e"
proof (intro equalityI subsetI)
  fix b assume "b \<in> unneeded_bufs st"
  then obtain j c where c: "get_elf st j = Some c" "\<not> needed st j" "b \<in> own_bufs c" unfolding unneeded_bufs_def by blast
  show "b \<in> unneeded_bufs st1 \<union> own_bufs e"
  proof (cases "j = i")
    case True
    then show ?thesis using c(1,3) goes_awayD(2)[OF K] by simp
  next
    case False
    then obtain n where "get_elf st1 j = Some (c\<lparr>e_nchildren := n\<rparr>)" using kept_live[OF K _ c(1)] by blast
    moreover have "\<not> needed st1 j" using needed_kept[OF K] c(2) by simp
    moreover have "b \<in> own_bufs (c\<lparr>e_nchildren := n\<rparr>)" using c(3) by simp
    ultimately show ?thesis unfolding unneeded_bufs_def by blast
  qed
next
  fix b assume "b \<in> unneeded_bufs st1 \<union> own_bufs e"
  then show "b \<in> unneeded_bufs st"
  proof
    assume "b \<in> unneeded_bufs st1"
    then obtain j c where c: "get_elf st1 j = Some c" "\<not> needed st1 j" "b \<in> own_bufs c" unfolding unneeded_bufs_def by blast
    then obtain c0 n where "get_elf st j = Some c0" "c = c0\<lparr>e_nchildren := n\<rparr>" using kept_shape[OF K] by blast
    then show ?thesis using c(2,3) needed_kept[OF K] unfolding unneeded_bufs_def by auto
  next
    assume "b \<in> own_bufs e"
    then show ?thesis using goes_awayD(2)[OF K] not_busy_not_needed[OF goes_awayD(1,3)[OF K]] unfolding unneeded_bufs_def by blast
  qed
qed

text \<open>A descriptor stays as it is, but for the count of its open members.\<close>

definition kept_elfs :: "libelf_state \<Rightarrow> libelf_state \<Rightarrow> bool" where
  "kept_elfs st st' \<longleftrightarrow> st' = st\<lparr>elfs := elfs st', heap := heap st'\<rparr>
     \<and> (\<forall>j e'. get_elf st' j = Some e' \<longrightarrow> (\<exists>e n. get_elf st j = Some e \<and> e' = e\<lparr>e_nchildren := n\<rparr>))"

lemma kept_elfs_trans: "kept_elfs a b \<Longrightarrow> kept_elfs b c \<Longrightarrow> kept_elfs a c"
proof -
  assume a: "kept_elfs a b" and b: "kept_elfs b c"
  have "\<exists>e n. get_elf a j = Some e \<and> e' = e\<lparr>e_nchildren := n\<rparr>" if "get_elf c j = Some e'" for j e'
  proof -
    obtain e1 n where e1: "get_elf b j = Some e1" "e' = e1\<lparr>e_nchildren := n\<rparr>" using b \<open>get_elf c j = Some e'\<close> unfolding kept_elfs_def by blast
    obtain e2 m where "get_elf a j = Some e2" "e1 = e2\<lparr>e_nchildren := m\<rparr>" using a e1(1) unfolding kept_elfs_def by blast
    then show ?thesis using e1(2) by auto
  qed
  moreover have "c = a\<lparr>elfs := elfs c, heap := heap c\<rparr>" using a b unfolding kept_elfs_def by (cases a; cases b; cases c) simp
  ultimately show "kept_elfs a c" unfolding kept_elfs_def by blast
qed

lemma kept_elfs_refl: "kept_elfs st st"
proof -
  have "\<exists>e n. get_elf st j = Some e \<and> e' = e\<lparr>e_nchildren := n\<rparr>" if "get_elf st j = Some e'" for j e'
    using that by (intro exI[of _ e'] exI[of _ "e_nchildren e'"]) simp
  then show ?thesis by (simp add: kept_elfs_def)
qed

lemma end_loop_ok:
  assumes "refs_inv st" "\<forall>i. x = Some i \<longrightarrow> get_elf st i \<noteq> None" "\<forall>j. get_elf st j \<noteq> None \<longrightarrow> x \<noteq> Some j \<longrightarrow> busy st j"
  shows "\<exists>st'. end_loop st x = Some st' \<and> refs_ok st' \<and> kept_elfs st st' \<and> (\<forall>j. get_elf st' j \<noteq> None \<longleftrightarrow> needed st j)
    \<and> heap st' = drop_bufs (unneeded_bufs st) (heap st)"
  using assms
proof (induction "case x of None \<Rightarrow> 0 | Some i \<Rightarrow> Suc i" arbitrary: st x rule: less_induct)
  case less
  note r = less(2)
  have stay: ?case if b: "\<forall>j. get_elf st j \<noteq> None \<longrightarrow> busy st j" and l: "end_loop st x = Some st"
  proof -
    have n: "\<And>j. get_elf st j \<noteq> None \<longleftrightarrow> needed st j" using busy_needed[OF r b] needed_live[OF r] by blast
    then have "unneeded_bufs st = {}" unfolding unneeded_bufs_def by fastforce
    then show ?thesis using r n l kept_elfs_refl by (auto simp: refs_ok_def)
  qed
  show ?case
  proof (cases x)
    case None
    then show ?thesis using stay less(4) by (simp add: end_loop.simps)
  next
    case (Some i)
    then obtain e where e: "get_elf st i = Some e" using less(3) by auto
    note D = refsD[OF r e]
    show ?thesis
    proof (cases "busy st i")
      case True
      have "e_activations e \<noteq> 0 \<or> e_kind e = ELF_K_AR \<and> e_nchildren e > 0"
      proof (cases "children st i = {}")
        case True
        then show ?thesis using \<open>busy st i\<close> e by (auto simp: busy_def)
      next
        case False
        then have "e_kind e = ELF_K_AR" using e by (auto elim!: childrenE[OF r])
        then show ?thesis using D(6) False children_finite[OF r] by (simp add: card_gt_0_iff)
      qed
      then have "end_loop st x = Some st" using Some e by (subst end_loop.simps) auto
      moreover have "\<forall>j. get_elf st j \<noteq> None \<longrightarrow> busy st j" using less(4) True Some by auto
      ultimately show ?thesis by (intro stay)
    next
      case False
      let ?st1 = "st\<lparr>elfs := without_elf st i e, heap := drop_bufs (own_bufs e) (heap st)\<rparr>"
      have K: "goes_away st i e ?st1" using r e False by (simp add: goes_away_def)
      have a: "e_activations e = 0" "\<not> (e_kind e = ELF_K_AR \<and> e_nchildren e > 0)"
        using False e D(3,6) no_children[OF K] by (auto simp: busy_def)
      have l: "end_loop st x = end_loop ?st1 (e_parent e)"
        using Some e a end_release_ok[OF r e] by (subst end_loop.simps) auto
      have m: "(case e_parent e of None \<Rightarrow> 0 | Some i \<Rightarrow> Suc i) < (case x of None \<Rightarrow> 0 | Some i \<Rightarrow> Suc i)"
        using Some D(7) by (auto split: option.split)
      have p: "\<forall>j. e_parent e = Some j \<longrightarrow> get_elf ?st1 j \<noteq> None"
      proof (intro allI impI)
        fix j assume j: "e_parent e = Some j"
        then obtain q where q: "get_elf st j = Some q" using D(8) by blast
        show "get_elf ?st1 j \<noteq> None" using kept_live[OF K _ q] D(7)[OF j] by auto
      qed
      have b: "\<forall>j. get_elf ?st1 j \<noteq> None \<longrightarrow> e_parent e \<noteq> Some j \<longrightarrow> busy ?st1 j"
      proof (intro allI impI)
        fix j assume j: "get_elf ?st1 j \<noteq> None" "e_parent e \<noteq> Some j"
        have "j \<noteq> i" using j(1) gone[OF K] by auto
        then have "j \<noteq> i" "get_elf st j \<noteq> None" using j kept[OF K, of j] by auto
        then show "busy ?st1 j" using busy_kept[OF K _ j(2)] less(4) Some by auto
      qed
      from less(1)[OF m refs_inv_kept[OF K] p b] obtain st' where s: "end_loop ?st1 (e_parent e) = Some st'" "refs_ok st'"
        "kept_elfs ?st1 st'" "\<forall>j. get_elf st' j \<noteq> None \<longleftrightarrow> needed ?st1 j" "heap st' = drop_bufs (unneeded_bufs ?st1) (heap ?st1)"
        by blast
      have "kept_elfs st ?st1" using kept_shape[OF K] by (simp add: kept_elfs_def)
      then have k: "kept_elfs st st'" using s(3) by (rule kept_elfs_trans)
      have "unneeded_bufs st = unneeded_bufs ?st1 \<union> own_bufs e"
        using unneeded_kept[OF K] .
      then have "heap st' = drop_bufs (unneeded_bufs st) (heap st)" using s(5) by simp
      then show ?thesis using l s(1,2,4) k needed_kept[OF K] by auto
    qed
  qed
qed

lemma activations_refs:
  assumes ok: "refs_ok st" and e: "get_elf st i = Some e" and n: "0 \<le> n"
  shows "refs_inv (put_elf i (e\<lparr>e_activations := n\<rparr>) st)"
    "get_elf st j \<noteq> None \<Longrightarrow> j \<noteq> i \<or> 0 < n \<Longrightarrow> busy (put_elf i (e\<lparr>e_activations := n\<rparr>) st) j"
proof -
  let ?st = "put_elf i (e\<lparr>e_activations := n\<rparr>) st"
  have r: "refs_inv st" using ok by (simp add: refs_ok_def)
  have g: "get_elf ?st j = (if j = i then Some (e\<lparr>e_activations := n\<rparr>) else get_elf st j)" for j by (simp add: put_elf_def get_elf_def)
  have c: "children ?st j = children st j" for j using e by (auto simp: children_def g)
  have "descr_ok ?st j x" if x: "get_elf ?st j = Some x" for j x
  proof -
    obtain x0 m where x0: "get_elf st j = Some x0" "x = x0\<lparr>e_activations := m\<rparr>" "0 \<le> m"
    proof (cases "j = i")
      case True
      then show thesis using that[of e n] x e n g by simp
    next
      case False
      then show thesis using that[of x "e_activations x"] x refsD(3)[OF r] g by simp
    qed
    note D = refsD[OF r x0(1)]
    have "\<exists>p. get_elf ?st k = Some p \<and> e_kind p = ELF_K_AR" if k: "e_parent x0 = Some k" for k
      using D(8)[OF k] e by (auto simp: g)
    then show ?thesis using D(2,4-7) x0(2,3) c by (simp add: descr_ok_def scn_inv_def raw_plain_def)
  qed
  moreover have "j < next_elf ?st" if "get_elf ?st j = Some x" for j x
    using that refsD(1)[OF r] e by (cases "j = i") (auto simp: g)
  ultimately show "refs_inv ?st" by (simp add: refs_inv_def)
  assume j: "get_elf st j \<noteq> None" "j \<noteq> i \<or> 0 < n"
  then have "busy st j" using ok needed_busy by (simp add: refs_ok_def)
  then show "busy ?st j" using j(2) unfolding busy_def c g by auto
qed

text \<open>The state with one activation less.\<close>

definition deactivated :: "libelf_state \<Rightarrow> nat \<Rightarrow> Elf \<Rightarrow> libelf_state" where
  "deactivated st i e = put_elf i (e\<lparr>e_activations := e_activations e - 1\<rparr>) st"

lemma elf_end_held:
  assumes ok: "refs_ok st" and e: "get_elf st i = Some e" "0 < e_activations e"
  obtains st' where "elf_end st (Some i) = Some (e_activations e - 1, st')" "refs_ok st'" "kept_elfs (deactivated st i e) st'"
    "\<And>j. get_elf st' j \<noteq> None \<longleftrightarrow> needed (deactivated st i e) j"
    "heap st' = drop_bufs (unneeded_bufs (deactivated st i e)) (heap st)"
proof -
  let ?st0 = "deactivated st i e"
  have n: "0 \<le> e_activations e - 1" using e(2) by simp
  note A = activations_refs[OF ok e(1) n, folded deactivated_def]
  let ?x = "if e_activations e - 1 > 0 then None else Some i"
  have l: "\<forall>i. ?x = Some i \<longrightarrow> get_elf ?st0 i \<noteq> None" by (simp add: deactivated_def)
  have b: "\<forall>j. get_elf ?st0 j \<noteq> None \<longrightarrow> ?x \<noteq> Some j \<longrightarrow> busy ?st0 j"
  proof (intro allI impI)
    fix j assume j: "get_elf ?st0 j \<noteq> None" "?x \<noteq> Some j"
    have "get_elf st j \<noteq> None" using j(1) e(1) by (cases "j = i") (auto simp: deactivated_def)
    then show "busy ?st0 j" by (rule A(2)) (use j(2) in \<open>auto split: if_splits\<close>)
  qed
  from end_loop_ok[OF A(1) l b] obtain st' where s: "end_loop ?st0 ?x = Some st'" "refs_ok st'" "kept_elfs ?st0 st'"
    "\<forall>j. get_elf st' j \<noteq> None \<longleftrightarrow> needed ?st0 j" "heap st' = drop_bufs (unneeded_bufs ?st0) (heap ?st0)" by blast
  have "elf_end st (Some i) = Some (e_activations e - 1, st')"
    using s(1) e by (simp add: elf_end_def Let_def deactivated_def end_loop.simps[of _ None] split: if_splits)
  moreover have "heap ?st0 = heap st" by (simp add: deactivated_def)
  ultimately show thesis using s(2-5) that by metis
qed

text \<open>
  C6. Closing a descriptor collects what the client no longer needs, and nothing else. If the reference counts are right
  and every descriptor is needed (\<open>refs_ok\<close>), \<open>elf_end\<close> returns, with the number of activations left, and the same holds
  again. The descriptors that remain are those that the client still holds and the archives that such a descriptor is a member
  of: an archive that was closed while members were open goes with its last member. The remaining descriptors change only
  in the count of open members. The memory that is freed is that of the files and section data the others own.
\<close>

theorem elf_end_collects:
  assumes ok: "refs_ok st" and e: "get_elf st i = Some e" "0 < e_activations e"
  shows "\<exists>st'. elf_end st (Some i) = Some (e_activations e - 1, st') \<and> refs_ok st' \<and> kept_elfs (deactivated st i e) st'
    \<and> (\<forall>j. get_elf st' j \<noteq> None \<longleftrightarrow> needed (deactivated st i e) j)
    \<and> heap st' = drop_bufs (unneeded_bufs (deactivated st i e)) (heap st)"
  by (rule elf_end_held[OF assms]) blast

text \<open>An archive that the client has closed, with its last open member.\<close>

definition closed_archive :: libelf_state where
  "closed_archive = (sample_state [1, 2, 3])\<lparr>next_elf := 2,
     elfs := [0 \<mapsto> (initial_elf EV_CURRENT)\<lparr>e_activations := 0, e_kind := ELF_K_AR, e_nchildren := 1,
                     e_rawfile := Some (0, 0), e_flags := LIBELF_F_RAWFILE_MALLOC\<rparr>,
              1 \<mapsto> (initial_elf EV_CURRENT)\<lparr>e_parent := Some 0, e_rawfile := Some (0, 1)\<rparr>]\<rparr>"

lemma initial_elf_act [simp]:
  "e_activations (initial_elf v) = 1" "e_parent (initial_elf v) = None" "e_kind (initial_elf v) = ELF_K_NONE" "e_flags (initial_elf v) = 0"
  by (simp_all add: initial_elf_def)

lemma closed_archive_refs: "refs_ok closed_archive"
proof -
  have g: "get_elf closed_archive j = (if j = 0 then Some ((initial_elf EV_CURRENT)\<lparr>e_activations := 0, e_kind := ELF_K_AR,
      e_nchildren := 1, e_rawfile := Some (0, 0), e_flags := LIBELF_F_RAWFILE_MALLOC\<rparr>)
    else if j = 1 then Some ((initial_elf EV_CURRENT)\<lparr>e_parent := Some 0, e_rawfile := Some (0, 1)\<rparr>) else None)" for j
    by (simp add: closed_archive_def get_elf_def)
  have c: "children closed_archive 0 = {1}" by (auto simp: children_def g initial_elf_def)
  have n: "next_elf closed_archive = 2" by (simp add: closed_archive_def)
  let ?m = "(initial_elf EV_CURRENT)\<lparr>e_parent := Some 0, e_rawfile := Some (0, 1)\<rparr>"
  have h: "needed closed_archive 1" by (rule needed.held[where e = ?m]) (simp_all add: g)
  have "needed closed_archive 0" by (rule needed.archive_of[OF h, where e = ?m]) (simp_all add: g)
  moreover have "refs_inv closed_archive"
    unfolding refs_inv_def descr_ok_def n using c by (auto simp: g initial_elf_def split: if_splits)
  ultimately show ?thesis using h by (auto simp: refs_ok_def g)
qed

theorem elf_end_collects_witness:
  "\<exists>st'. elf_end closed_archive (Some 1) = Some (0, st') \<and> get_elf st' 0 = None \<and> get_elf st' 1 = None \<and> heap st' 0 = None"
proof -
  let ?e = "(initial_elf EV_CURRENT)\<lparr>e_parent := Some 0, e_rawfile := Some (0, 1)\<rparr>"
  let ?st0 = "deactivated closed_archive 1 ?e"
  have e: "get_elf closed_archive 1 = Some ?e" "0 < e_activations ?e"
    by (simp_all add: closed_archive_def get_elf_def)
  have g: "get_elf ?st0 j = (if j = 0 then Some ((initial_elf EV_CURRENT)\<lparr>e_activations := 0, e_kind := ELF_K_AR,
      e_nchildren := 1, e_rawfile := Some (0, 0), e_flags := LIBELF_F_RAWFILE_MALLOC\<rparr>)
    else if j = 1 then Some (?e\<lparr>e_activations := 0\<rparr>) else None)" for j
    by (simp add: closed_archive_def get_elf_def deactivated_def put_elf_def)
  have n: "\<not> needed ?st0 j" for j :: nat
  proof
    assume "needed ?st0 j"
    then show False
    proof induction
      case (held k c)
      then show ?case unfolding g by (auto split: if_splits)
    qed
  qed
  let ?a = "(initial_elf EV_CURRENT)\<lparr>e_activations := 0, e_kind := ELF_K_AR, e_nchildren := 1, e_rawfile := Some (0, 0),
    e_flags := LIBELF_F_RAWFILE_MALLOC\<rparr>"
  have "get_elf ?st0 0 = Some ?a" using g[of 0] by simp
  moreover have "0 \<in> own_bufs ?a" by (simp add: own_bufs_def raw_bufs_def)
  ultimately have u: "0 \<in> unneeded_bufs ?st0" using n unfolding unneeded_bufs_def by blast
  from elf_end_collects[OF closed_archive_refs e] obtain st' where
    "elf_end closed_archive (Some 1) = Some (e_activations ?e - 1, st')" "\<forall>j. get_elf st' j \<noteq> None \<longleftrightarrow> needed ?st0 j"
    "heap st' = drop_bufs (unneeded_bufs ?st0) (heap closed_archive)" by blast
  then show ?thesis using n u by (intro exI[of _ st']) (simp add: drop_bufs_def)
qed

end
