(* ===== verification/Elf_Refs.thy ===== *)
theory Elf_Refs
  imports Elf_Release
begin

text \<open>
  Descriptors over the life of a client: opening images, files and members, moving between members, and closing keep
  the reference counts right, so that nothing is left when the client has closed what it opened.
\<close>

section \<open>Changes of the descriptors\<close>

lemma refs_ok_busy: "refs_ok st \<longleftrightarrow> refs_inv st \<and> (\<forall>i. get_elf st i \<noteq> None \<longrightarrow> busy st i)"
  using busy_needed needed_busy unfolding refs_ok_def by blast

lemma refs_no_elfs: "elfs st = Map.empty \<Longrightarrow> refs_ok st"
  by (simp add: refs_ok_def refs_inv_def get_elf_def)

text \<open>A descriptor is new, or changes, without moving to another archive.\<close>

lemma refs_upd:
  assumes ok: "refs_ok st" and st': "elfs st' = (elfs st)(i \<mapsto> e)" "next_elf st \<le> next_elf st'" "i < next_elf st'"
    and par: "e_parent e = (case get_elf st i of None \<Rightarrow> None | Some e0 \<Rightarrow> e_parent e0)"
    and act: "0 \<le> e_activations e" "0 < e_activations e \<or> children st i \<noteq> {}"
    and kind: "e_kind e \<noteq> ELF_K_NUM" "e_kind e = ELF_K_ELF \<Longrightarrow> scn_inv e \<and> raw_plain e"
      "e_kind e = ELF_K_AR \<Longrightarrow> e_nchildren e = int (card (children st i))" "children st i \<noteq> {} \<Longrightarrow> e_kind e = ELF_K_AR"
  shows "refs_ok st'"
proof -
  have r: "refs_inv st" and b: "\<And>j. get_elf st j \<noteq> None \<Longrightarrow> busy st j" using ok by (auto simp: refs_ok_busy)
  have g: "get_elf st' j = (if j = i then Some e else get_elf st j)" for j by (simp add: get_elf_def st'(1))
  have c: "children st' j = children st j" for j
    using par by (auto simp: children_def g split: if_splits option.splits)
  have "descr_ok st' j x" if x: "get_elf st' j = Some x" for j x
  proof -
    have p: "\<exists>q. get_elf st' k = Some q \<and> e_kind q = ELF_K_AR" if q: "get_elf st k = Some q" "e_kind q = ELF_K_AR" "j \<in> children st k" for k q
      using q kind(4) by (cases "k = i") (auto simp: g)
    show ?thesis
    proof (cases "j = i")
      case True
      then have x: "x = e" using x g by simp
      have "k < i \<and> (\<exists>q. get_elf st' k = Some q \<and> e_kind q = ELF_K_AR)" if k: "e_parent e = Some k" for k
      proof -
        obtain e0 where e0: "get_elf st i = Some e0" "e_parent e0 = Some k" using par k by (auto split: option.splits)
        then show ?thesis using refsD(7,8)[OF r e0] p True by (auto simp: children_def)
      qed
      then show ?thesis unfolding x using act(1) kind True c by (simp add: descr_ok_def)
    next
      case False
      then have x0: "get_elf st j = Some x" using x g by simp
      note D = refsD[OF r x0]
      have "\<exists>q. get_elf st' k = Some q \<and> e_kind q = ELF_K_AR" if "e_parent x = Some k" for k
        using D(8)[OF that] p x0 that by (auto simp: children_def)
      then show ?thesis using D(2-7) c by (simp add: descr_ok_def)
    qed
  qed
  moreover have "j < next_elf st'" if "get_elf st' j = Some x" for j x
    using that st'(2,3) refsD(1)[OF r, of j x] by (auto simp: g split: if_splits)
  moreover have "busy st' j" if "get_elf st' j \<noteq> None" for j
    using that b[of j] act(2) by (cases "j = i") (auto simp: busy_def c g)
  ultimately show ?thesis by (simp add: refs_ok_busy refs_inv_def)
qed

text \<open>The cases the operations need: nothing of the descriptors changes, one is added, one changes in place.\<close>

definition same_elfs :: "libelf_state \<Rightarrow> libelf_state \<Rightarrow> bool" where
  "same_elfs st st' \<longleftrightarrow> elfs st' = elfs st \<and> next_elf st' = next_elf st"

lemma same_elfs_simps [simp]:
  "same_elfs st st" "same_elfs st (set_error er os st)" "same_elfs st (snd (c_alloc st))" "same_elfs st (c_free st p)"
  "same_elfs st (snd (new_buffer st bs))"
  by (auto simp: same_elfs_def set_error_def c_alloc_def c_free_def new_buffer_def split: option.split)

lemma same_elfs_trans: "same_elfs a b \<Longrightarrow> same_elfs b c \<Longrightarrow> same_elfs a c"
  by (simp add: same_elfs_def)

lemma refs_same: "same_elfs st st' \<Longrightarrow> refs_ok st \<Longrightarrow> refs_ok st'"
proof -
  assume a: "same_elfs st st'" "refs_ok st"
  have "get_elf st' = get_elf st" using a(1) by (simp add: same_elfs_def get_elf_def fun_eq_iff)
  moreover from this have "children st' = children st" by (simp add: children_def fun_eq_iff)
  ultimately show "refs_ok st'" using a by (simp add: refs_ok_busy refs_inv_def descr_ok_def busy_def same_elfs_def)
qed

lemma refs_error [simp]: "refs_ok (set_error er os st) \<longleftrightarrow> refs_ok st"
proof
  assume "refs_ok (set_error er os st)"
  then show "refs_ok st" by (rule refs_same[rotated]) (simp add: same_elfs_def set_error_def)
qed (rule refs_same[OF same_elfs_simps(2)])

lemma refs_put:
  assumes "refs_ok st" "get_elf st i = Some e0" "e_parent e = e_parent e0" "e_activations e0 \<le> e_activations e"
    "e_kind e \<noteq> ELF_K_NUM" "e_kind e = ELF_K_ELF \<Longrightarrow> scn_inv e \<and> raw_plain e"
    "e_kind e = e_kind e0 \<and> e_nchildren e = e_nchildren e0 \<or> e_kind e0 \<noteq> ELF_K_AR \<and> (e_kind e = ELF_K_AR \<longrightarrow> e_nchildren e = 0)"
  shows "refs_ok (put_elf i e st)"
proof -
  have r: "refs_inv st" "busy st i" using assms(1,2) by (auto simp: refs_ok_busy)
  note D = refsD[OF r(1) assms(2)]
  have k: "children st i \<noteq> {} \<Longrightarrow> e_kind e0 = ELF_K_AR" using assms(2) by (auto elim!: childrenE[OF r(1)])
  show ?thesis
  proof (rule refs_upd[OF assms(1), where i = i and e = e])
    show "elfs (put_elf i e st) = (elfs st)(i \<mapsto> e)" by (simp add: put_elf_def)
    show "i < next_elf (put_elf i e st)" using D(1) by simp
    show "0 < e_activations e \<or> children st i \<noteq> {}" using r(2) assms(2,4) by (auto simp: busy_def)
    show "e_nchildren e = int (card (children st i))" if "e_kind e = ELF_K_AR"
      using that assms(7) D(6) k by (cases "children st i = {}") auto
    show "e_kind e = ELF_K_AR" if "children st i \<noteq> {}" using k[OF that] assms(7) by auto
  qed (use assms(2-6) D(3) in simp_all)
qed

lemma refs_fresh:
  assumes "refs_ok st"
  shows "children st (next_elf st) = {}" "get_elf st (next_elf st) = None"
proof -
  have r: "refs_inv st" using assms by (simp add: refs_ok_def)
  show n: "get_elf st (next_elf st) = None" using refsD(1)[OF r] by (cases "get_elf st (next_elf st)") auto
  show "children st (next_elf st) = {}" using n by (auto elim!: childrenE[OF r])
qed

text \<open>A descriptor becomes a member of an archive.\<close>

lemma refs_adopt:
  assumes ok: "refs_ok st" and e: "get_elf st i = Some e" "e_parent e = None" "0 < e_activations e" and a: "get_elf st j = Some a" "e_kind a = ELF_K_AR" "j < i"
  shows "refs_ok (put_elf i (e\<lparr>e_parent := Some j\<rparr>) (put_elf j (a\<lparr>e_nchildren := e_nchildren a + 1\<rparr>) st))"
proof -
  let ?st = "put_elf i (e\<lparr>e_parent := Some j\<rparr>) (put_elf j (a\<lparr>e_nchildren := e_nchildren a + 1\<rparr>) st)"
  have r: "refs_inv st" and b: "\<And>k. get_elf st k \<noteq> None \<Longrightarrow> busy st k" using ok by (auto simp: refs_ok_busy)
  have g: "get_elf ?st k = (if k = i then Some (e\<lparr>e_parent := Some j\<rparr>) else if k = j then Some (a\<lparr>e_nchildren := e_nchildren a + 1\<rparr>)
      else get_elf st k)" for k by (simp add: get_elf_def put_elf_def)
  have c: "children ?st k = (if k = j then insert i (children st k) else children st k)" for k
    using e a by (auto simp: children_def g split: if_splits)
  have i: "i \<notin> children st j" using e by (simp add: children_def)
  have "descr_ok ?st k x" if x: "get_elf ?st k = Some x" for k x
  proof -
    have p: "\<exists>q. get_elf ?st m = Some q \<and> e_kind q = ELF_K_AR" if q: "get_elf st m = Some q" "e_kind q = ELF_K_AR" for m q
      using q e(1) a(1) by (auto simp: g)
    consider (i) "k = i" "x = e\<lparr>e_parent := Some j\<rparr>" | (j) "k = j" "k \<noteq> i" "x = a\<lparr>e_nchildren := e_nchildren a + 1\<rparr>"
      | (other) "k \<noteq> i" "k \<noteq> j" "get_elf st k = Some x" using x unfolding g by (auto split: if_splits)
    then show ?thesis
    proof cases
      case i
      note D = refsD[OF r e(1)]
      have "scn_inv x" "raw_plain x" if "e_kind e = ELF_K_ELF" using D(4,5)[OF that] i(2) by (simp_all add: scn_inv_def raw_plain_def)
      then show ?thesis using D(2,3,6) i a(3) c p[OF a(1,2)] by (auto simp: descr_ok_def)
    next
      case j
      note D = refsD[OF r a(1)]
      have "e_nchildren x = int (card (children ?st k))"
        unfolding j(1) c j(3) using D(6)[OF a(2)] i children_finite[OF r, of j] by simp
      then show ?thesis using D(2,3,7) p D(8) j a(2) by (auto simp: descr_ok_def)
    next
      case other
      note D = refsD[OF r other(3)]
      show ?thesis using D(2-7) c p D(8) other(2) by (auto simp: descr_ok_def)
    qed
  qed
  moreover have "k < next_elf ?st" if "get_elf ?st k = Some x" for k x
    using that refsD(1)[OF r e(1)] refsD(1)[OF r a(1)] refsD(1)[OF r, of k x] by (auto simp: g split: if_splits)
  moreover have "busy ?st k" if "get_elf ?st k \<noteq> None" for k
    using that b[of k] e a by (auto simp: busy_def c g split: if_splits)
  ultimately show ?thesis by (simp add: refs_ok_busy refs_inv_def)
qed

section \<open>The operations\<close>

lemma case_option_Some:
  "(case x of None \<Rightarrow> a | Some y \<Rightarrow> f y) = Some r \<longleftrightarrow> x = None \<and> a = Some r \<or> (\<exists>y. x = Some y \<and> f y = Some r)"
  by (cases x) simp_all

text \<open>Opening gives no descriptor, or a new one that is in no archive.\<close>

definition opens :: "libelf_state \<Rightarrow> nat option \<Rightarrow> libelf_state \<Rightarrow> bool" where
  "opens st r st' \<longleftrightarrow> refs_ok st'
     \<and> (\<forall>j. j < next_elf st \<longrightarrow> get_elf st' j = get_elf st j)
     \<and> (\<forall>i. r = Some i \<longrightarrow> next_elf st \<le> i
          \<and> (\<exists>e. get_elf st' i = Some e \<and> e_parent e = None \<and> 0 < e_activations e))"

text \<open>The descriptor numbered \<open>i\<close> is being opened: nothing refers to it.\<close>

definition being_opened :: "libelf_state \<Rightarrow> nat \<Rightarrow> libelf_state \<Rightarrow> Elf \<Rightarrow> bool" where
  "being_opened st i st1 e \<longleftrightarrow> refs_ok st1 \<and> get_elf st1 i = Some e \<and> e_parent e = None \<and> e_activations e = 1 \<and> e_scn e = RB_NULL
     \<and> e_scns e = Map.empty \<and> next_elf st \<le> i \<and> (\<forall>j. j < next_elf st \<longrightarrow> get_elf st1 j = get_elf st j) \<and> children st1 i = {}"

lemma no_sections: "e_scn e = RB_NULL \<Longrightarrow> e_scns e = Map.empty \<Longrightarrow> scn_inv e \<and> raw_plain e"
  by (simp add: scn_inv_def raw_plain_def rb_inv_def rb_keys_def)

lemma being_opened_put:
  assumes o: "being_opened st i st1 e" and k: "e_kind e1 \<noteq> ELF_K_NUM" "e_kind e1 = ELF_K_AR \<Longrightarrow> e_nchildren e1 = 0"
    and s: "e_parent e1 = None" "e_activations e1 = 1" "e_scn e1 = RB_NULL" "e_scns e1 = Map.empty"
  shows "being_opened st i (put_elf i e1 st1) e1"
proof -
  note O = o[unfolded being_opened_def]
  have "refs_ok (put_elf i e1 st1)"
  proof (rule refs_upd[where i = i and e = e1])
    show "elfs (put_elf i e1 st1) = (elfs st1)(i \<mapsto> e1)" by (simp add: put_elf_def)
    show "i < next_elf (put_elf i e1 st1)" using O refsD(1) by (auto simp: refs_ok_def)
  qed (use O k s no_sections in auto)
  moreover have "children (put_elf i e1 st1) i = {}" using O s(1) by (auto simp: children_def get_elf_def put_elf_def split: if_splits)
  ultimately show ?thesis using O s by (auto simp: being_opened_def)
qed

lemma being_opened_opens: "being_opened st i st1 e \<Longrightarrow> opens st (Some i) st1"
  by (simp add: being_opened_def opens_def)

lemma opens_same:
  assumes "opens st r st1" "same_elfs st1 st2"
  shows "opens st r st2"
proof -
  have "get_elf st2 = get_elf st1" using assms(2) by (simp add: same_elfs_def get_elf_def fun_eq_iff)
  then show ?thesis using assms refs_same by (simp add: opens_def)
qed

lemma opens_None: "refs_ok st \<Longrightarrow> same_elfs st st' \<Longrightarrow> opens st None st'"
  using refs_same by (simp add: opens_def same_elfs_def get_elf_def)

lemma allocate_opens:
  assumes "refs_ok st" "libelf_allocate_elf st = (r, st1)"
  shows "case r of None \<Rightarrow> same_elfs st st1 | Some i \<Rightarrow> i = next_elf st \<and> being_opened st i st1 (initial_elf (libelf_version st))"
proof (cases st rule: allocate_elf_cases)
  case fail
  then have "r = None" "st1 = set_error ELF_E_RESOURCE ENOMEM (snd (c_alloc st))" using assms(2) by simp_all
  then show ?thesis by (simp add: same_elfs_def set_error_def c_alloc_def)
next
  case (ok st2)
  let ?i = "next_elf st" and ?e = "initial_elf (libelf_version st)"
  have r: "r = Some ?i" "st1 = put_elf ?i ?e ((snd (c_alloc st))\<lparr>next_elf := Suc ?i\<rparr>)" using ok(2,3) assms(2) by simp_all
  have e: "elfs st1 = (elfs st)(?i \<mapsto> ?e)" "next_elf st1 = Suc ?i" unfolding r(2) by (simp_all add: put_elf_def c_alloc_def)
  note F = refs_fresh[OF assms(1)]
  have "refs_ok st1" by (rule refs_upd[OF assms(1) e(1)]) (use e(2) F in \<open>simp_all add: initial_elf_def\<close>)
  moreover have "children st1 ?i = {}" using F(1) e(1) by (auto simp: children_def get_elf_def initial_elf_def split: if_splits)
  ultimately have "being_opened st ?i st1 ?e" using e(1) by (auto simp: being_opened_def get_elf_def initial_elf_def)
  then show ?thesis using r(1) by simp
qed

lemma refs_drop:
  assumes o: "being_opened st i st1 e" and s: "st2 = st1\<lparr>elfs := (elfs st1)(i := None)\<rparr>"
  shows "opens st None st2"
proof -
  note O = o[unfolded being_opened_def]
  have r: "refs_inv st1" and b: "\<And>k. get_elf st1 k \<noteq> None \<Longrightarrow> busy st1 k" using O by (auto simp: refs_ok_busy)
  have g: "get_elf st2 k = (if k = i then None else get_elf st1 k)" for k by (simp add: s get_elf_def)
  have c: "children st2 k = children st1 k" for k using O by (auto simp: children_def g)
  have "descr_ok st2 k x \<and> k < next_elf st2" if x: "get_elf st2 k = Some x" for k x
  proof -
    have x1: "get_elf st1 k = Some x" "k \<noteq> i" using x g by (auto split: if_splits)
    note D = refsD[OF r x1(1)]
    have "\<exists>q. get_elf st2 m = Some q \<and> e_kind q = ELF_K_AR" if m: "e_parent x = Some m" for m
      using D(8)[OF m] O x1(1) m by (auto simp: g children_def)
    then show ?thesis using D c by (simp add: descr_ok_def s)
  qed
  moreover have "busy st2 k" if "get_elf st2 k \<noteq> None" for k using that b[of k] by (auto simp: busy_def c g split: if_splits)
  ultimately show ?thesis using O by (simp add: opens_def refs_ok_busy refs_inv_def g)
qed
lemma opens_weaken: "opens st r st' \<Longrightarrow> opens st None st'"
  by (simp add: opens_def)

lemma special_members_tables:
  assumes m: "ar_special_members h e raw = Some (e', r)"
  shows "ar_tables e e'"
proof -
  let ?e = "e\<lparr>e_flags := e_flags e OR LIBELF_F_AR_VARIANT_SVR4\<rparr>"
  let ?P = "\<lambda>u. \<forall>e' r. u = Some (e', r) \<longrightarrow> ar_tables e e'"
  obtain r0 where r0: "READ_AR_HEADER h raw SARMAG (nat (sint (e_rawsize e))) = Some r0"
    using m by (auto simp: ar_special_members_def Let_def bind_Some_iff)
  have "?P (ar_special_members h e raw)"
  proof (cases r0)
    case None
    then show ?thesis using r0 ar_tables_set(1) by (simp add: ar_special_members_def)
  next
    case (Some x)
    then obtain arh sz where x: "r0 = Some (arh, sz)" by (cases x) simp
    obtain e1 s1 where t1: "ar_symbol_table ?e raw SARMAG sz = (e1, s1)" by (cases "ar_symbol_table ?e raw SARMAG sz")
    have e1: "ar_tables e e1" using ar_tables_set(3)[OF ar_tables_set(2)[of e], of raw SARMAG sz] t1 by simp
    have sym: "ar_tables e a" if "map_prod id Some (ar_symbol_table x raw s z) = (a, b)" "ar_tables e x" for a b x s z
      using that(1) ar_tables_set(3)[OF that(2), of raw s z] by (cases "ar_symbol_table x raw s z") auto
    have str: "ar_tables e a" if "map_prod id Some (ar_string_table x raw s z) = (a, b)" "ar_tables e x" for a b x s z
      using that(1) ar_tables_set(4)[OF that(2), of raw s z] by (cases "ar_string_table x raw s z") auto
    have second: "?P (m2 \<bind> (\<lambda>r. Some (case r of None \<Rightarrow> (e1, None) | Some (arh, sz) \<Rightarrow>
        if h_name arh ! 0 = SLASH \<and> h_name arh ! 1 = SLASH \<and> h_name arh ! 2 = BLANK
        then map_prod id Some (ar_string_table e1 raw s1 sz) else (e1, Some s1))))" for m2
    proof (cases m2)
      case (Some r2)
      then show ?thesis using e1 by (cases r2) (auto split: if_split_asm dest: str)
    qed simp
    show ?thesis
      unfolding ar_special_members_def Let_def r0 x bind.simps option.case prod.case t1
      using second ar_tables_set(1,2)[of e] by (auto split: if_split_asm dest: sym str simp del: One_nat_def)
  qed
  then show ?thesis using m by blast
qed

lemma ar_open_opens:
  assumes o: "being_opened st i st1 e" and k: "e_kind e = ELF_K_NONE" and m: "libelf_ar_open st1 i b = Some (r, st2)"
  shows "opens st r st2"
proof -
  note O = o[unfolded being_opened_def]
  let ?e = "e\<lparr>e_kind := ELF_K_AR\<rparr>"
  have i: "libelf_init_elf st1 i ELF_K_AR = Some (put_elf i ?e st1)" using O k by (simp add: libelf_init_elf_def Let_def)
  obtain raw e1 n where a: "ar_special_members (heap st1) (?e\<lparr>e_nchildren := 0, e_next := - 1\<rparr>) raw = Some (e1, n)"
    "(r, st2) = (case n of Some s \<Rightarrow> (Some i, put_elf i (e1\<lparr>e_next := of_nat s\<rparr>) (put_elf i ?e st1))
       | None \<Rightarrow> if \<not> b then (Some i, put_elf i (e1\<lparr>e_kind := ELF_K_NONE\<rparr>) (put_elf i ?e st1))
                 else (None, set_error ELF_E_ARCHIVE 0 (put_elf i e1 (put_elf i ?e st1))))"
    using m unfolding libelf_ar_open_def i bind.simps elf_store_simps(1) Let_def by (auto simp: bind_Some_iff)
  note t = ar_tables_simps[OF special_members_tables[OF a(1)]]
  have p: "being_opened st i (put_elf i (e1\<lparr>e_kind := kd, e_next := nx\<rparr>) st1) (e1\<lparr>e_kind := kd, e_next := nx\<rparr>)"
    if "kd \<noteq> ELF_K_NUM" for kd nx
    by (rule being_opened_put[OF o]) (use that t O in simp_all)
  have q: "e1 = e1\<lparr>e_kind := ELF_K_AR, e_next := e_next e1\<rparr>" "e1\<lparr>e_next := nx\<rparr> = e1\<lparr>e_kind := ELF_K_AR, e_next := nx\<rparr>"
    "e1\<lparr>e_kind := kd\<rparr> = e1\<lparr>e_kind := kd, e_next := e_next e1\<rparr>" for nx kd using t(1) by (cases e1; simp)+
  show ?thesis
  proof (cases n)
    case (Some s)
    then have r: "r = Some i" "st2 = put_elf i (e1\<lparr>e_kind := ELF_K_AR, e_next := of_nat s\<rparr>) st1" using a(2) q(2) by simp_all
    show ?thesis unfolding r by (rule being_opened_opens[OF p]) simp
  next
    case None
    show ?thesis
    proof (cases b)
      case True
      then have r: "r = None" "st2 = set_error ELF_E_ARCHIVE 0 (put_elf i e1 st1)" using a(2) None by simp_all
      have "opens st (Some i) (put_elf i e1 st1)" by (subst (1) q(1)) (rule being_opened_opens[OF p], simp)
      then show ?thesis unfolding r by (rule opens_same[OF opens_weaken]) simp
    next
      case False
      then have r: "r = Some i" "st2 = put_elf i (e1\<lparr>e_kind := ELF_K_NONE, e_next := e_next e1\<rparr>) st1" using a(2) None q(3) by simp_all
      show ?thesis unfolding r by (rule being_opened_opens[OF p]) simp
    qed
  qed
qed

lemma identify_opens:
  assumes o: "being_opened st i st1 e" and k: "e_kind e = ELF_K_NONE" and m: "identify_image st1 i img sz b = Some (r, st2)"
  shows "opens st r st2"
proof -
  note O = o[unfolded being_opened_def]
  have rel: "libelf_release_elf (set_error err os st1) i = Some ((set_error err os st1)\<lparr>elfs := (elfs (set_error err os st1))(i := None)\<rparr>)" for err os
    using O by (simp add: libelf_release_elf_def)
  have drop: "opens st None ((set_error err os st1)\<lparr>elfs := (elfs (set_error err os st1))(i := None)\<rparr>)" for err os
    by (rule opens_same[OF refs_drop[OF o refl]]) (simp add: same_elfs_def set_error_def)
  have ie: "libelf_init_elf st1 i ELF_K_ELF = Some (put_elf i (e\<lparr>e_kind := ELF_K_ELF, e_scn := RB_NULL, e_scns := Map.empty\<rparr>) st1)"
    using O k by (simp add: libelf_init_elf_def Let_def)
  have elf: "opens st (Some i) (put_elf i (e\<lparr>e_kind := ELF_K_ELF, e_scn := RB_NULL, e_scns := Map.empty,
      e_byteorder := bo, e_class := cls, e_version := v\<rparr>) st1)" for bo cls v
    by (rule being_opened_opens[OF being_opened_put[OF o]]) (use O in simp_all)
  show ?thesis using m being_opened_opens[OF o] ar_open_opens[OF o k] drop elf unfolding identify_image_def
    by (auto simp: bind_Some_iff rel ie Let_def split: if_splits)
qed

lemma memory_opens:
  assumes ok: "refs_ok st" and m: "libelf_memory st img sz b = Some (r, st')"
  shows "opens st r st'"
proof -
  obtain r0 st1 where a: "libelf_allocate_elf st = (r0, st1)" by (cases "libelf_allocate_elf st")
  note A = allocate_opens[OF ok a]
  show ?thesis
  proof (cases r0)
    case None
    then have "r = None" "st' = st1" using m a by (auto simp: libelf_memory_def bind_Some_iff)
    then show ?thesis using opens_None[OF ok] A None by simp
  next
    case (Some i)
    let ?e = "(initial_elf (libelf_version st))\<lparr>e_cmd := ELF_C_READ, e_rawfile := Some img, e_rawsize := sz\<rparr>"
    have o: "being_opened st i st1 (initial_elf (libelf_version st))" using A Some by auto
    then have "identify_image (put_elf i ?e st1) i img sz b = Some (r, st')"
      using m a Some by (auto simp: libelf_memory_def bind_Some_iff being_opened_def)
    moreover have "being_opened st i (put_elf i ?e st1) ?e" by (rule being_opened_put[OF o]) (simp_all add: initial_elf_def)
    moreover have "e_kind ?e = ELF_K_NONE" by (simp add: initial_elf_def)
    ultimately show ?thesis by (rule identify_opens[rotated 2])
  qed
qed

lemma elf_memory_opens:
  assumes "refs_ok st" "elf_memory st img sz = Some (r, st')"
  shows "opens st r st'"
  using assms memory_opens[OF assms(1)] opens_None[OF assms(1)]
  by (auto simp: elf_memory_def split: if_splits option.splits)

lemma member_refs:
  assumes ok: "refs_ok st" and a: "get_elf st j = Some a" "e_kind a = ELF_K_AR"
    and m: "member_descriptor st fd c j arh p sz = Some (r, st')"
  shows "refs_ok st'"
proof -
  obtain r1 st1 where o: "elf_memory st (Some p) sz = Some (r1, st1)" using m by (auto simp: member_descriptor_def bind_Some_iff)
  note O = elf_memory_opens[OF ok o, unfolded opens_def]
  show ?thesis
  proof (cases r1)
    case None
    then show ?thesis using m o O by (auto simp: member_descriptor_def)
  next
    case (Some i)
    have j: "j < next_elf st" using refsD(1)[OF _ a(1)] ok by (simp add: refs_ok_def)
    obtain e where e: "get_elf st1 i = Some e" "e_parent e = None" "0 < e_activations e" "next_elf st \<le> i" using O Some by blast
    have aj: "get_elf st1 j = Some a" using O j a by simp
    have ne: "i \<noteq> j" using j e(4) by simp
    let ?e = "e\<lparr>e_fd := fd, e_cmd := c, e_hdr := HDR_RAWHDR arh\<rparr>"
    have k: "e_kind e \<noteq> ELF_K_NUM" "e_kind e = ELF_K_ELF \<Longrightarrow> scn_inv e \<and> raw_plain e"
      using refsD(2,4,5)[OF _ e(1)] O by (auto simp: refs_ok_def)
    have "refs_ok (put_elf i ?e st1)"
      by (rule refs_put[OF _ e(1)]) (use O e k in \<open>simp_all add: scn_inv_def raw_plain_def\<close>)
    from refs_adopt[OF this elf_store_simps(1) _ _ _ a(2), where j = j]
    have "refs_ok (put_elf i (?e\<lparr>e_parent := Some j\<rparr>) (put_elf j (a\<lparr>e_nchildren := e_nchildren a + 1\<rparr>) (put_elf i ?e st1)))"
      using e aj ne j by simp
    moreover have "st' = put_elf i (?e\<lparr>e_parent := Some j\<rparr>) (put_elf j (a\<lparr>e_nchildren := e_nchildren a + 1\<rparr>) (put_elf i ?e st1))"
      using m o Some e(1) aj ne by (simp add: member_descriptor_def)
    ultimately show ?thesis by simp
  qed
qed

lemma open_member_refs:
  assumes ok: "refs_ok st" and m: "libelf_ar_open_member st fd c j = Some (r, st')"
  shows "refs_ok st'"
proof -
  obtain a where a: "get_elf st j = Some a" "e_kind a = ELF_K_AR" using m by (auto simp: libelf_ar_open_member_def bind_Some_iff)
  from m ok show ?thesis unfolding libelf_ar_open_member_def
    by (auto simp: bind_Some_iff Let_def case_option_Some split: if_split_asm intro: member_refs[OF ok a])
qed
lemma end_refs:
  assumes ok: "refs_ok st" and m: "elf_end st x = Some (n, st')"
  shows "refs_ok st'"
proof (cases x)
  case None
  then show ?thesis using m ok by (simp add: elf_end_def)
next
  case (Some i)
  then obtain e where e: "get_elf st i = Some e" using m by (auto simp: elf_end_def bind_Some_iff)
  show ?thesis
  proof (cases "e_activations e = 0")
    case True
    then show ?thesis using m ok Some e by (simp add: elf_end_def)
  next
    case False
    have "0 < e_activations e" using ok refsD(3)[OF _ e] False by (force simp: refs_ok_def)
    then show ?thesis using m Some by (auto elim: elf_end_held[OF ok e])
  qed
qed

lemma c_alloc_same: "c_alloc st = (ok, st') \<Longrightarrow> same_elfs st st'"
  by (auto simp: c_alloc_def same_elfs_def)

lemma new_buffer_same: "new_buffer st bs = (p, st') \<Longrightarrow> same_elfs st st'"
  by (auto simp: new_buffer_def same_elfs_def)

lemma read_special_same:
  assumes "read_special os fd st buf sz k = Some y"
  shows "same_elfs st (snd y)"
proof (rule read_special.raw_induct[OF _ assms, where P = "\<lambda>os fd st buf sz k y. same_elfs st (snd y)"], goal_cases)
  case (1 rec os fd st buf sz k y)
  obtain ok st1 where g: "(if of_nat (length buf) = sz then c_alloc st else (True, st)) = (ok, st1)" by fastforce
  have s1: "same_elfs st st1" using g c_alloc_same by (auto split: if_splits)
  have r: "same_elfs st (snd y)" if "rec os fd st1 b z n = Some y" for b z n
    using 1(1)[OF that] s1 by (rule same_elfs_trans[rotated])
  show ?case using 1(2) s1 r unfolding Let_def g prod.case
    by (auto simp: bind_Some_iff split: if_split_asm sum.split_asm)
qed

lemma special_file_same: "libelf_read_special_file os st fd = Some (r, st') \<Longrightarrow> same_elfs st st'"
proof -
  assume m: "libelf_read_special_file os st fd = Some (r, st')"
  obtain ok st1 where a: "c_alloc st = (ok, st1)" by fastforce
  have s1: "same_elfs st st1" by (rule c_alloc_same[OF a])
  show "same_elfs st st'"
  proof (cases ok)
    case False
    then show ?thesis using m a s1 same_elfs_trans[OF s1] by (auto simp: libelf_read_special_file_def)
  next
    case True
    then obtain x st2 where x: "read_special os fd st1 [] LIBELF_INITSIZE 0 = Some (x, st2)"
      using m a by (auto simp: libelf_read_special_file_def bind_Some_iff)
    have s2: "same_elfs st st2" using read_special_same[OF x] s1 same_elfs_trans by simp
    have t: "same_elfs st s" if "same_elfs st2 s" for s using s2 that by (rule same_elfs_trans)
    have al: "same_elfs st s" if "c_alloc st2 = (ok, s)" for ok s
      using t c_alloc_same[OF that] by simp
    have nb: "same_elfs st s'" if "new_buffer s bs = (p, s')" "same_elfs st s" for s bs p s'
      using that(2) new_buffer_same[OF that(1)] by (rule same_elfs_trans)
    have er: "same_elfs st (set_error er os s)" if "same_elfs st s" for er os s
      using that same_elfs_simps(2) by (rule same_elfs_trans)
    show ?thesis using m a True x s2
      by (auto simp: libelf_read_special_file_def Let_def dest: al nb intro: er
          split: if_split_asm sum.split_asm prod.split_asm)
  qed
qed

lemma open_regular_same: "open_regular os st fd sz = (r, st') \<Longrightarrow> same_elfs st st'"
  by (auto simp: open_regular_def same_elfs_def new_buffer_def set_error_def c_alloc_def Let_def split: option.splits sum.splits if_splits prod.splits)
text \<open>The descriptor that was opened gets its flags and its file.\<close>

lemma refs_set_file:
  assumes "opens st (Some i) st1" "get_elf st1 i = Some e"
  shows "refs_ok (put_elf i (e\<lparr>e_flags := fl, e_fd := fd, e_cmd := c\<rparr>) st1)"
proof -
  have ok: "refs_ok st1" using assms(1) by (simp add: opens_def)
  then have r: "refs_inv st1" by (simp add: refs_ok_def)
  note D = refsD[OF r assms(2)]
  show ?thesis by (rule refs_put[OF ok assms(2)]) (use D(2,4,5) in \<open>simp_all add: scn_inv_def raw_plain_def\<close>)
qed

lemma open_new_refs:
  assumes ok: "refs_ok st" and r: "libelf_allocate_elf st = (Some i, st1)"
  obtains st2 e where "libelf_init_elf st1 i ELF_K_ELF = Some st2" "get_elf st2 i = Some e"
    "\<And>bo fd c fl. refs_ok (put_elf i (e\<lparr>e_byteorder := bo, e_fd := fd, e_cmd := c, e_flags := fl\<rparr>) st2)"
proof -
  let ?e = "initial_elf (libelf_version st)"
  have o: "being_opened st i st1 ?e" using allocate_opens[OF ok r] by auto
  let ?e1 = "?e\<lparr>e_kind := ELF_K_ELF, e_scn := RB_NULL, e_scns := Map.empty\<rparr>"
  have i: "libelf_init_elf st1 i ELF_K_ELF = Some (put_elf i ?e1 st1)"
    using o by (simp add: being_opened_def libelf_init_elf_def Let_def)
  have "refs_ok (put_elf i (?e1\<lparr>e_byteorder := bo, e_fd := fd, e_cmd := c, e_flags := fl\<rparr>) st1)" for bo fd c fl
    using being_opened_put[OF o, of "?e1\<lparr>e_byteorder := bo, e_fd := fd, e_cmd := c, e_flags := fl\<rparr>"]
    by (simp add: being_opened_def initial_elf_def)
  then show thesis by (intro that[OF i elf_store_simps(1)]) simp
qed

lemma opened_image_refs:
  assumes ok: "refs_ok st" and s: "same_elfs st st1" and l: "libelf_memory st1 p fsize b = Some (x, st2)"
    and k: "(case x of
                 None \<Rightarrow> do {
                   c_assert (flags AND LIBELF_F_RAWFILE_MALLOC \<noteq> 0 \<or> flags AND LIBELF_F_RAWFILE_MMAP \<noteq> 0);
                   Some (None, c_free st2 (Some p)) }
               | Some i \<Rightarrow> do {
                   e \<leftarrow> get_elf st2 i;
                   if c = ELF_C_RDWR \<and> e_kind e = ELF_K_AR then do {
                     (n, st) \<leftarrow> elf_end st2 (Some i);
                     Some (None, set_error ELF_E_ARGUMENT 0 st) }
                   else Some (Some i, put_elf i (e\<lparr>e_flags := e_flags e OR flags, e_fd := fd, e_cmd := c\<rparr>) st2) }) = Some (r, st')"
  shows "refs_ok st'"
proof -
  have o: "opens st1 x st2" by (rule memory_opens[OF refs_same[OF s ok] l])
  then have ok2: "refs_ok st2" by (simp add: opens_def)
  show ?thesis
  proof (cases x)
    case None
    then show ?thesis using k refs_same[OF same_elfs_simps(4) ok2] by (auto simp: bind_Some_iff)
  next
    case (Some i)
    then show ?thesis using k refs_set_file[OF o[unfolded Some]] end_refs[OF ok2]
      by (auto simp: bind_Some_iff split: if_split_asm)
  qed
qed

lemma open_new_object_refs:
  assumes ok: "refs_ok st" and m: "libelf_open_object os st fd ELF_C_WRITE b = Some (r, st')"
  shows "refs_ok st'"
proof -
  let ?c = ELF_C_WRITE
  obtain x st1 where a: "libelf_allocate_elf st = (x, st1)" by fastforce
  show ?thesis
  proof (cases x)
    case None
    then show ?thesis using m a ok allocate_opens[OF ok a] refs_same
      by (auto simp: libelf_open_object_def bind_Some_iff split: sum.split_asm if_split_asm)
  next
    case (Some i)
    obtain st2 e where w: "libelf_init_elf st1 i ELF_K_ELF = Some st2" "get_elf st2 i = Some e"
      "\<And>bo fd c fl. refs_ok (put_elf i (e\<lparr>e_byteorder := bo, e_fd := fd, e_cmd := c, e_flags := fl\<rparr>) st2)"
      using open_new_refs[OF ok a[unfolded Some]] by blast
    have "e\<lparr>e_byteorder := bo, e_fd := fd, e_cmd := ?c, e_flags := e_flags e\<rparr> = e\<lparr>e_byteorder := bo, e_fd := fd, e_cmd := ?c\<rparr>" for bo
      by (cases e) simp
    then have "refs_ok (put_elf i (e\<lparr>e_byteorder := bo, e_fd := fd, e_cmd := ?c\<rparr>) st2)" for bo
      using w(3)[where fl = "e_flags e" and c = ?c and fd = fd and bo = bo] by metis
    with w show ?thesis using m a Some ok
      by (auto simp: libelf_open_object_def bind_Some_iff split: sum.split_asm if_split_asm)
  qed
qed

lemma open_object_refs:
  assumes ok: "refs_ok st" and m: "libelf_open_object os st fd c b = Some (r, st')"
  shows "refs_ok st'"
proof -
  show ?thesis
  proof (cases "c = ELF_C_WRITE")
    case True
    then show ?thesis using open_new_object_refs[OF ok] m by simp
  next
    case False
    show ?thesis
    proof (cases "os_fstat os fd")
      case (Inl err)
      then show ?thesis using m ok by (auto simp: libelf_open_object_def bind_Some_iff)
    next
      case (Inr t)
      obtain mode sz where t: "t = (mode, sz)" by (cases t)
      let ?first = "if mode = S_IFREG then
                if sz = 0 then Some (None, sz, 0, set_error ELF_E_ARGUMENT 0 st)
                else case open_regular os st fd sz of
                  (None, st) \<Rightarrow> Some (None, sz, 0, st)
                | (Some (m, flag), st) \<Rightarrow> Some (Some m, sz, flag, st)
              else do {
                (r, st) \<leftarrow> libelf_read_special_file os st fd;
                Some (case r of
                  None \<Rightarrow> (None, sz, 0, st)
                | Some (m, fsize) \<Rightarrow> (Some m, fsize, LIBELF_F_RAWFILE_MALLOC OR LIBELF_F_SPECIAL_FILE, st)) }"
      have same: "same_elfs st s" if "?first = Some (mp, z, fl, s)" for mp z fl s
        using that by (auto simp: bind_Some_iff dest!: open_regular_same special_file_same
            split: if_split_asm option.split_asm prod.split_asm)
      show ?thesis
      proof (cases "mode = S_IFOTHER")
        case True
        then show ?thesis using m ok Inr t by (auto simp: libelf_open_object_def bind_Some_iff)
      next
        case other: False
        from m obtain mp z fl s where f: "?first = Some (mp, z, fl, s)"
          by (simp add: libelf_open_object_def Inr t other \<open>c \<noteq> ELF_C_WRITE\<close> bind_Some_iff[of "c_assert _"]
              cong: if_cong) (auto simp: bind_Some_iff simp del: c_assert_Some)
        show ?thesis
        proof (cases mp)
          case None
          then show ?thesis using m refs_same[OF same[OF f] ok]
            by (simp add: libelf_open_object_def Inr t other \<open>c \<noteq> ELF_C_WRITE\<close> f bind_Some_iff[of "c_assert _"])
        next
          case (Some q)
          then obtain x st2 where l: "libelf_memory s q z b = Some (x, st2)"
            using m by (auto simp: libelf_open_object_def Inr t other \<open>c \<noteq> ELF_C_WRITE\<close> f bind_Some_iff)
          show ?thesis
            by (rule opened_image_refs[OF ok same[OF f] l, where flags = fl and c = c and fd = fd and r = r])
              (use m Some l in \<open>simp add: libelf_open_object_def Inr t other \<open>c \<noteq> ELF_C_WRITE\<close> f bind_Some_iff[of "c_assert _"]\<close>)
        qed
      qed
    qed
  qed
qed

lemma begin_refs:
  assumes ok: "refs_ok st" and m: "elf_begin os st fd c a = Some (r, st')"
  shows "refs_ok st'"
proof -
  have again: "refs_ok (put_elf j (e\<lparr>e_activations := e_activations e + 1\<rparr>) st)" if e: "get_elf st j = Some e" for j e
  proof -
    have r: "refs_inv st" using ok by (simp add: refs_ok_def)
    note D = refsD[OF r e]
    show ?thesis by (rule refs_put[OF ok e]) (use D(2,4,5) in \<open>simp_all add: scn_inv_def raw_plain_def\<close>)
  qed
  show ?thesis using m ok open_object_refs[OF ok] open_member_refs[OF ok] again
    by (auto simp: elf_begin_def bind_Some_iff split: if_split_asm option.split_asm)
qed

lemma open_refs:
  assumes "refs_ok st" "elf_open os st fd = Some (r, st')"
  shows "refs_ok st'"
  using assms open_object_refs[OF assms(1)] by (auto simp: elf_open_def split: if_split_asm)

lemma refs_set_next:
  assumes ok: "refs_ok st" and e: "get_elf st i = Some e"
  shows "refs_ok (put_elf i (e\<lparr>e_next := n\<rparr>) st)"
proof -
  have r: "refs_inv st" using ok by (simp add: refs_ok_def)
  note D = refsD[OF r e]
  show ?thesis by (rule refs_put[OF ok e]) (use D(2,4,5) in \<open>simp_all add: scn_inv_def raw_plain_def\<close>)
qed

lemma next_refs:
  assumes "refs_ok st" "elf_next st x = Some (r, st')"
  shows "refs_ok st'"
  using assms refs_set_next[OF assms(1)]
  by (auto simp: elf_next_def bind_Some_iff Let_def split: if_split_asm option.split_asm)

lemma rand_refs:
  assumes "refs_ok st" "elf_rand st x off = Some (r, st')"
  shows "refs_ok st'"
  using assms refs_set_next[OF assms(1)]
  by (auto simp: elf_rand_def bind_Some_iff Let_def split: if_split_asm option.split_asm)

section \<open>The life of a client\<close>

text \<open>
  What a client does with descriptors, call after call, from a library that has none. A call that fails returns an error
  and is a step too. \<open>fd\<close> and the system calls differ from step to step.
\<close>

inductive client :: "libelf_state \<Rightarrow> bool" where
  start: "elfs st = Map.empty \<Longrightarrow> client st"
| begins: "client st \<Longrightarrow> elf_begin os st fd c a = Some (r, st') \<Longrightarrow> client st'"
| opens: "client st \<Longrightarrow> elf_open os st fd = Some (r, st') \<Longrightarrow> client st'"
| memory: "client st \<Longrightarrow> elf_memory st img sz = Some (r, st') \<Longrightarrow> client st'"
| open_memory: "client st \<Longrightarrow> elf_openmemory st img sz = Some (r, st') \<Longrightarrow> client st'"
| moves: "client st \<Longrightarrow> elf_next st x = Some (cmd, st') \<Longrightarrow> client st'"
| jumps: "client st \<Longrightarrow> elf_rand st x off = Some (n, st') \<Longrightarrow> client st'"
| ends: "client st \<Longrightarrow> elf_end st x = Some (k, st') \<Longrightarrow> client st'"

lemma openmemory_refs:
  assumes "refs_ok st" "elf_openmemory st img sz = Some (r, st')"
  shows "refs_ok st'"
  using assms memory_opens[OF assms(1)] by (auto simp: elf_openmemory_def opens_def split: if_split_asm option.split_asm)

lemma client_refs: "client st \<Longrightarrow> refs_ok st"
proof (induction rule: client.induct)
  case (memory st img sz r st')
  then show ?case using elf_memory_opens by (simp add: opens_def)
qed (auto intro: refs_no_elfs begin_refs open_refs openmemory_refs next_refs rand_refs end_refs)
lemma end_returns: "refs_ok st \<Longrightarrow> get_elf st i \<noteq> None \<Longrightarrow> \<exists>k st'. elf_end st (Some i) = Some (k, st')"
proof -
  assume ok: "refs_ok st" and "get_elf st i \<noteq> None"
  then obtain e where e: "get_elf st i = Some e" by blast
  have "0 \<le> e_activations e" using refsD(3)[OF _ e] ok by (simp add: refs_ok_def)
  then consider "e_activations e = 0" | "0 < e_activations e" by linarith
  then show ?thesis
  proof cases
    case 1
    then show ?thesis using e by (simp add: elf_end_def)
  next
    case 2
    then show ?thesis by (auto elim: elf_end_held[OF ok e])
  qed
qed

lemma unheld_none:
  assumes "refs_ok st" "\<forall>i e. get_elf st i = Some e \<longrightarrow> e_activations e = 0"
  shows "get_elf st i = None"
proof -
  have "\<not> needed st j" for j
  proof
    assume "needed st j"
    then show False by induction (use assms(2) in force)+
  qed
  then show ?thesis using assms(1) by (auto simp: refs_ok_def)
qed

text \<open>
  C7. Descriptors over the life of a client. After any sequence of calls that open images, files, devices and members of
  archives, move in an archive, and close, whether they succeed or fail, the reference counts are right (\<open>refs_ok\<close>: an archive
  counts its open members, every parent is an archive that is still there, every descriptor is held or is the archive of one
  that is). Closing any descriptor returns. When no activation is left, no descriptor is left: archives that were
  closed before their members are not lost. A descriptor that a failed call allocated and did not return counts as held.
\<close>

theorem client_descriptors:
  assumes "client st"
  shows "refs_ok st \<and> (\<forall>i. get_elf st i \<noteq> None \<longrightarrow> (\<exists>k st'. elf_end st (Some i) = Some (k, st') \<and> client st'))
    \<and> ((\<forall>i e. get_elf st i = Some e \<longrightarrow> e_activations e = 0) \<longrightarrow> (\<forall>i. get_elf st i = None))"
proof -
  have ok: "refs_ok st" using assms by (rule client_refs)
  then show ?thesis using end_returns unheld_none client.ends[OF assms] by metis
qed

text \<open>A file of three bytes, opened from memory.\<close>

theorem client_descriptors_witness:
  "\<exists>st. elf_memory (sample_state [1, 2, 3]) (Some (0, 0)) 3 = Some (Some 0, st) \<and> refs_ok st
     \<and> (\<exists>k st'. elf_end st (Some 0) = Some (k, st'))"
proof -
  let ?m = "elf_memory (sample_state [1, 2, 3]) (Some (0, 0)) 3"
  have m: "map_option fst ?m = Some (Some 0)" "map_option (\<lambda>(r, st). map_option e_activations (get_elf st 0)) ?m = Some (Some 1)"
    by code_simp+
  then obtain st where st: "?m = Some (Some 0, st)" by (cases ?m) auto
  then have "get_elf st 0 \<noteq> None" using m(2) by auto
  moreover have "client st" by (rule client.memory[OF client.start st]) (simp add: sample_state_def)
  ultimately show ?thesis using st client_descriptors by blast
qed

end
