(* ===== verification/Elf_Reader.thy ===== *)
theory Elf_Reader
  imports Elf_Open Elf_Strings
begin

text \<open>
  A client that reads an object: the reading calls of the interface as a datatype, the pointers a client can have as its
  typing, and sequences of typed calls. On an image with any contents no such sequence gets stuck.
\<close>

section \<open>The calls\<close>

datatype reader_call =
    GETEHDR int | GETPHDR int | GETPHDRNUM | GETSHDRNUM | GETSHDRSTRNDX
  | GETSCN u64 | NEXTSCN "nat option" | NDXSCN nat | GETSHDR nat
  | GETDATA nat "data_ref option" | RAWDATA nat "data_ref option" | STRPTR u64 u64

text \<open>What a call leaves behind; \<open>None\<close> if an assertion of the library fails or memory outside the buffers is used.\<close>

fun read_call :: "reader_call \<Rightarrow> libelf_state \<Rightarrow> nat \<Rightarrow> libelf_state option" where
  "read_call (GETEHDR ec) st i = map_option snd (libelf_ehdr st (Some i) ec False)"
| "read_call (GETPHDR ec) st i = map_option snd (libelf_getphdr st (Some i) ec)"
| "read_call GETPHDRNUM st i = map_option (snd \<circ> snd) (elf_getphdrnum st (Some i))"
| "read_call GETSHDRNUM st i = map_option (snd \<circ> snd) (elf_getshdrnum st (Some i))"
| "read_call GETSHDRSTRNDX st i = map_option (snd \<circ> snd) (elf_getshdrstrndx st (Some i))"
| "read_call (GETSCN n) st i = map_option snd (elf_getscn st (Some i) n)"
| "read_call (NEXTSCN s) st i = map_option snd (elf_nextscn st (Some i) (map_option (Pair i) s))"
| "read_call (NDXSCN n) st i = map_option snd (elf_ndxscn st (Some (i, n)))"
| "read_call (GETSHDR n) st i = map_option snd (gelf_getshdr st (Some (i, n)) True)"
| "read_call (GETDATA n d) st i = map_option snd (elf_getdata st (Some (i, n)) d)"
| "read_call (RAWDATA n d) st i = map_option snd (elf_rawdata st (Some (i, n)) d)"
| "read_call (STRPTR n off) st i = map_option snd (elf_strptr st (Some i) n off)"

text \<open>
  A client has a section from \<open>elf_getscn\<close> or \<open>elf_nextscn\<close>, that is after the section table was loaded, and a data
  descriptor from \<open>elf_getdata\<close> or \<open>elf_rawdata\<close>. It asks for the program headers only if there are any: without them the
  call would stop at an assertion (\<open>getphdr_without_table_stops\<close>).
\<close>

definition has_scn :: "libelf_state \<Rightarrow> nat \<Rightarrow> nat \<Rightarrow> bool" where
  "has_scn st i n \<longleftrightarrow> (\<exists>e. get_elf st i = Some e \<and> scns_loaded e \<and> e_scns e n \<noteq> None)"

definition has_phdrs :: "libelf_state \<Rightarrow> nat \<Rightarrow> bool" where
  "has_phdrs st i \<longleftrightarrow> (\<exists>e. get_elf st i = Some e \<and> e_ehdr e \<noteq> None \<and> e_nphdr e \<noteq> 0)"

fun call_typed :: "libelf_state \<Rightarrow> nat \<Rightarrow> reader_call \<Rightarrow> bool" where
  "call_typed st i (GETEHDR ec) \<longleftrightarrow> ec = ELFCLASS32 \<or> ec = ELFCLASS64"
| "call_typed st i (GETPHDR ec) \<longleftrightarrow> (ec = ELFCLASS32 \<or> ec = ELFCLASS64) \<and> has_phdrs st i"
| "call_typed st i (NEXTSCN (Some n)) \<longleftrightarrow> has_scn st i n"
| "call_typed st i (NDXSCN n) \<longleftrightarrow> has_scn st i n"
| "call_typed st i (GETSHDR n) \<longleftrightarrow> has_scn st i n"
| "call_typed st i (GETDATA n d) \<longleftrightarrow> has_scn st i n \<and> (\<forall>x. d = Some x \<longrightarrow> get_data st x \<noteq> None)"
| "call_typed st i (RAWDATA n d) \<longleftrightarrow> has_scn st i n \<and> (\<forall>x. d = Some x \<longrightarrow> get_data st x \<noteq> None)"
| "call_typed st i _ \<longleftrightarrow> True"

section \<open>The state of a reader\<close>

definition reading :: "libelf_state \<Rightarrow> nat \<Rightarrow> Elf \<Rightarrow> bool" where
  "reading st i e \<longleftrightarrow> get_elf st i = Some e \<and> elf_inv st e \<and> heap_fresh st \<and> e_kind e = ELF_K_ELF \<and> e_cmd e = ELF_C_READ
     \<and> (e_class e = ELFCLASS32 \<or> e_class e = ELFCLASS64) \<and> e_nphdr e < 2 ^ 32
     \<and> (\<forall>n s. e_scns e n = Some s \<longrightarrow> scn_data_ok (heap st) s) \<and> (scns_loaded e \<or> only_read e)"

lemma readingD:
  assumes "reading st i e"
  shows "get_elf st i = Some e" "elf_inv st e" "heap_fresh st" "e_kind e = ELF_K_ELF" "e_cmd e = ELF_C_READ"
    "e_class e = ELFCLASS32 \<or> e_class e = ELFCLASS64" "e_nphdr e < 2 ^ 32"
    "e_scns e n = Some s \<Longrightarrow> scn_data_ok (heap st) s" "scns_loaded e \<or> only_read e" "raw_ok st e" "file_there st e"
  using assms by (auto simp: reading_def elf_inv_def file_there_def)

lemma reading_error [simp]: "reading (set_error er os st) i e = reading st i e"
  by (simp add: reading_def heap_fresh_def)

text \<open>The section table was neither loaded nor is it still to be loaded: the library gave up in the middle.\<close>

definition table_lost :: "Elf \<Rightarrow> bool" where
  "table_lost e \<longleftrightarrow> \<not> scns_pending e \<and> \<not> scns_loaded e"

lemma only_read_reading:
  assumes "get_elf st i = Some e" "elf_inv st e" "heap_fresh st" "only_read e"
  shows "reading st i e"
  using assms by (auto simp: reading_def only_read_def scn_data_ok_def)

lemma fresh_frame: "heap_fresh st \<Longrightarrow> frame_ok i st st' \<Longrightarrow> next_buf st' = next_buf st \<Longrightarrow> heap_fresh st'"
  by (simp add: heap_fresh_def frame_ok_def)

text \<open>The header: nothing changes once it is there, and before that no section has data.\<close>

lemma reading_ehdr_cached:
  assumes r: "reading st i e" "e_ehdr e \<noteq> None" and ec: "ec = ELFCLASS32 \<or> ec = ELFCLASS64"
  shows "\<exists>b st'. libelf_ehdr st (Some i) ec False = Some (b, st') \<and> only_error st st'
    \<and> (b \<longleftrightarrow> ec = e_class e \<and> e_version e = EV_CURRENT)"
proof (cases "ec = e_class e \<and> e_version e = EV_CURRENT")
  case True
  then show ?thesis using ehdr_cached[OF readingD(1)[OF r(1)] r(2) readingD(4)[OF r(1)], of False] readingD(6)[OF r(1)]
      put_elf_same[OF readingD(1)[OF r(1)]] by (intro exI[of _ True] exI[of _ st]) simp
next
  case False
  then show ?thesis using readingD(1,4,6)[OF r(1)] ec
    by (auto simp: libelf_ehdr_def c_assert_def)
qed

lemma reading_ehdr:
  assumes r: "reading st i e" "\<not> table_lost e" and ec: "ec = ELFCLASS32 \<or> ec = ELFCLASS64"
  shows "\<exists>b st' e'. libelf_ehdr st (Some i) ec False = Some (b, st') \<and> reading st' i e' \<and> \<not> table_lost e'
    \<and> (b \<longrightarrow> e_ehdr e' \<noteq> None \<and> e_version e' = EV_CURRENT)"
proof (cases "e_ehdr e = None")
  case False
  then obtain b st' where "libelf_ehdr st (Some i) ec False = Some (b, st')" "only_error st st'" "b \<longleftrightarrow> ec = e_class e \<and> e_version e = EV_CURRENT"
    using reading_ehdr_cached[OF r(1) _ ec] by blast
  then show ?thesis using r False by (auto simp: only_error_def)
next
  case True
  note D = readingD[OF r(1)]
  have p: "scns_pending e" using r(2) True by (auto simp: table_lost_def scns_loaded_def)
  have o: "only_read e" using D(9) True by (auto simp: scns_loaded_def)
  from libelf_ehdr_ok[OF D(1,2) ec, of False] obtain b st' e' where h: "libelf_ehdr st (Some i) ec False = Some (b, st')"
    "get_elf st' i = Some e'" "elf_inv st' e'" "frame_ok i st st'" "same_file e e'" "b \<longrightarrow> e_ehdr e' \<noteq> None \<and> e_version e = EV_CURRENT"
    "e_flags e' = e_flags e" "rb_keys (e_scn e') \<subseteq> {0}" using True by (auto elim!: call_okE)
  have s: "st_read (next_buf st) i st'" by (rule libelf_ehdr_only_read[OF h(1)]) (simp add: st_read_def D(1) o)
  have "heap_fresh st'" by (rule fresh_frame[OF D(3) h(4) st_read_buf[OF s]])
  then have "reading st' i e'" by (rule only_read_reading[OF h(2,3)]) (use s h(2) in \<open>simp add: st_read_def\<close>)
  moreover have "scns_pending e'" using p h(5,7,8) by (simp add: scns_pending_def same_file_def)
  moreover have "b \<longrightarrow> e_ehdr e' \<noteq> None \<and> e_version e' = EV_CURRENT" using h(5,6) by (simp add: same_file_def)
  ultimately show ?thesis using h(1)
    by (intro exI[of _ b] exI[of _ st'] exI[of _ e']) (simp add: table_lost_def)
qed

text \<open>The section table: it is loaded, still to be loaded, or the memory was exhausted.\<close>

definition out_of_memory :: "libelf_state \<Rightarrow> bool" where
  "out_of_memory st \<longleftrightarrow> libelf_error st = (elf_error_code ELF_E_RESOURCE AND 0xFF) OR push_bit 8 ENOMEM"

lemma load_scns_fails: "load_scns n st i ec off k = Some (False, st') \<Longrightarrow> out_of_memory st'"
proof (induction n arbitrary: st off k)
  case 0
  then show ?case by simp
next
  case (Suc n)
  obtain r1 st1 where a: "libelf_allocate_scn st i k = Some (r1, st1)"
    using Suc.prems(1) by (auto simp: bind_Some_iff)
  show ?case
  proof (cases r1)
    case None
    then have "out_of_memory st1" using a
      by (auto simp: libelf_allocate_scn_def Let_def case_prod_unfold bind_Some_iff out_of_memory_def set_error_def split: if_splits)
    then show ?thesis using Suc.prems a None by simp
  next
    case (Some k')
    then show ?thesis using Suc a by (auto simp: bind_Some_iff)
  qed
qed

lemma load_headers_fails:
  assumes "libelf_load_section_headers st i = Some (False, st')"
  shows "(\<exists>er. st' = set_error er 0 st) \<or> out_of_memory st'"
proof -
  obtain e where e: "get_elf st i = Some e" using assms by (auto simp: libelf_load_section_headers_def bind_Some_iff)
  obtain fsz st1 where f: "libelf_fsize st ELF_T_SHDR (e_class e) (e_version e) 1 = (fsz, st1)"
    by (cases "libelf_fsize st ELF_T_SHDR (e_class e) (e_version e) 1")
  have pos: "fsz > 0" using assms e f by (auto simp: libelf_load_section_headers_def bind_Some_iff Let_def)
  then have "st1 = st" using f by (auto simp: libelf_fsize_def Let_def split: if_splits)
  then show ?thesis using assms e f pos
    by (auto simp: libelf_load_section_headers_def bind_Some_iff Let_def dest!: load_scns_fails split: if_splits)
qed

lemma reading_load:
  assumes r: "reading st i e" "\<not> table_lost e"
  shows "\<exists>b st' e'. load_sections st i (e_class e) = Some (b, st') \<and> reading st' i e' \<and> (b \<longrightarrow> scns_loaded e')
    \<and> (table_lost e' \<longrightarrow> out_of_memory st') \<and> (scns_loaded e \<longrightarrow> b \<and> st' = st)"
proof (cases "scns_loaded e")
  case True
  then show ?thesis using load_sections_done[OF readingD(1,2)[OF r(1)] True] r(1) by (auto simp: table_lost_def)
next
  case False
  note D = readingD[OF r(1)]
  have p: "scns_pending e" and o: "only_read e" using r(2) False D(9) by (auto simp: table_lost_def)
  from load_sections_ok[OF D(1,2,6) p] obtain b st' e' where l: "load_sections st i (e_class e) = Some (b, st')"
    "get_elf st' i = Some e'" "elf_inv st' e'" "frame_ok i st st'" "b \<longrightarrow> scns_loaded e'" by (auto elim!: call_okE)
  have s: "st_read (next_buf st) i st'" by (rule load_sections_only_read[OF l(1)]) (simp add: st_read_def D(1) o)
  have "heap_fresh st'" by (rule fresh_frame[OF D(3) l(4) st_read_buf[OF s]])
  then have rd: "reading st' i e'" by (rule only_read_reading[OF l(2,3)]) (use s l(2) in \<open>simp add: st_read_def\<close>)
  have "out_of_memory st'" if lost: "table_lost e'"
  proof -
    have nb: "\<not> b" using lost l(5) by (auto simp: table_lost_def)
    from reading_ehdr[OF r D(6)] obtain b1 st1 e1 where h: "libelf_ehdr st (Some i) (e_class e) False = Some (b1, st1)"
      "reading st1 i e1" "\<not> table_lost e1" by blast
    have e': "st' \<noteq> st1" "st' \<noteq> set_error er 0 st1" for er
      using lost l(2) h(3) readingD(1)[OF h(2)] by auto
    then have "libelf_load_section_headers st1 i = Some (False, st')"
      using l(1) nb h(1) by (auto simp: load_sections_def bind_Some_iff split: if_splits)
    then show ?thesis using load_headers_fails e'(2) by blast
  qed
  then show ?thesis using l(1,5) rd False by blast
qed

lemma reading_getscn:
  assumes r: "reading st i e" "\<not> table_lost e"
  shows "\<exists>x st' e'. elf_getscn st (Some i) n = Some (x, st') \<and> reading st' i e' \<and> (table_lost e' \<longrightarrow> out_of_memory st')
    \<and> (\<forall>p. x = Some p \<longrightarrow> p = (i, unat n) \<and> scns_loaded e' \<and> e_scns e' (unat n) \<noteq> None)"
proof -
  note D = readingD[OF r(1)]
  from reading_load[OF r] obtain b st1 e1 where l: "load_sections st i (e_class e) = Some (b, st1)" "reading st1 i e1"
    "b \<longrightarrow> scns_loaded e1" "table_lost e1 \<longrightarrow> out_of_memory st1" by blast
  note D1 = readingD[OF l(2)]
  have keys: "rb_keys (e_scn e1) = dom (e_scns e1)" and "sorted_wrt (<) (inorder (e_scn e1))"
    using D1(2) by (simp_all add: elf_inv_def scn_inv_def rb_inv_def)
  then have g: "elf_getscn st (Some i) n = Some (if \<not> b then (None, st1)
      else if unat n \<in> dom (e_scns e1) then (Some (i, unat n), st1) else (None, set_error ELF_E_ARGUMENT 0 st1))"
    using D(1,4,6) D1(1) l(1) by (auto simp: elf_getscn_def elf_class_known_def getscn_walk_eq)
  consider (no) "\<not> b" | (found) "b" "unat n \<in> dom (e_scns e1)" | (out) "b" "unat n \<notin> dom (e_scns e1)" by blast
  then show ?thesis
  proof cases
    case out
    then have "\<not> table_lost e1" using l(3) by (auto simp: table_lost_def)
    then show ?thesis using g out l(2) by (intro exI[of _ None] exI[of _ "set_error ELF_E_ARGUMENT 0 st1"] exI[of _ e1]) simp
  qed (use g l in auto)
qed

text \<open>What \<open>elf_getdata\<close> and \<open>elf_rawdata\<close> do to the section: nothing, or one more data descriptor.\<close>

lemma get_elf_release [simp]: "get_elf (libelf_release_data st d) i = get_elf st i"
  by (simp add: libelf_release_data_def c_free_def get_elf_def split: option.split)

lemma get_elf_heap [simp]: "get_elf (st\<lparr>heap := h\<rparr>) i = get_elf st i"
  by (simp add: get_elf_def)

lemma getdata_translate_none:
  assumes "getdata_translate st i n e t off cnt d = Some (None, st')"
  shows "get_elf st' i = get_elf st i"
proof -
  obtain b st1 where m: "c_malloc st (unat (d_size (d_data d))) = (b, st1)" by (cases "c_malloc st (unat (d_size (d_data d)))")
  then have g: "get_elf st1 i = get_elf st i"
    by (auto simp: c_malloc_def c_alloc_def case_prod_unfold Let_def get_elf_def split: if_splits)
  show ?thesis using assms g
    by (auto simp: getdata_translate_def m bind_Some_iff Let_def case_prod_unfold split: option.splits if_splits)
qed

lemma getdata_new_none:
  assumes "getdata_new st i n = Some (None, st')" "get_elf st i = Some e" "e_scns e n = Some s"
  shows "get_elf st' i = Some e"
proof (cases "getdata_sized st i n e s (libelf_xlate_shtype (shdr_type (s_shdr s))) = Some (None, st')
    \<and> (e_class e = ELFCLASS32 \<or> e_class e = ELFCLASS64) \<and> elf_type_valid (libelf_xlate_shtype (shdr_type (s_shdr s)))")
  case False
  then show ?thesis using assms by (auto simp: getdata_new_def Let_def bind_Some_iff split: if_splits)
next
  case True
  then have g: "e_class e = ELFCLASS32 \<or> e_class e = ELFCLASS64" "elf_type_valid (libelf_xlate_shtype (shdr_type (s_shdr s)))"
    by simp_all
  note r = conjunct1[OF True, unfolded getdata_sized_eq[OF g refl refl refl refl]]
  then show ?thesis using assms(2) getdata_translate_none
    by (auto simp: bind_Some_iff case_prod_unfold split: if_splits)
qed

lemma getdata_grows:
  assumes e: "get_elf st i = Some e" "e_scns e n = Some s" "e_kind e = ELF_K_ELF"
    and r: "elf_getdata st (Some (i, n)) None = Some (x, st')"
  shows "\<exists>s'. get_scn st' i n = Some s' \<and> (s' = s \<or> x = Some (i, n, False, length (s_data s)) \<and> (\<exists>d. s' = s\<lparr>s_data := s_data s @ [d]\<rparr>))"
proof (cases "s_data s = []")
  case False
  then have "st' = st" using e r by (simp add: elf_getdata_def)
  then show ?thesis using e by (simp add: get_scn_def)
next
  case True
  then have new: "getdata_new st i n = Some (x, st')" using e r by (simp add: elf_getdata_def)
  show ?thesis
  proof (cases x)
    case None
    then show ?thesis using getdata_new_none[OF new[unfolded None] e(1,2)] e(2) by (simp add: get_scn_def)
  next
    case (Some y)
    from getdata_new_append[OF new[unfolded Some] e(1,2)] show ?thesis
      using e(2) Some by (auto simp: append_data_def get_scn_def put_scn_def scn_list_def bind_Some_iff)
  qed
qed

lemma rawdata_grows:
  assumes e: "get_elf st i = Some e" "e_scns e n = Some s" "s_rawdata s = []"
    and r: "elf_rawdata st (Some (i, n)) None = Some (x, st')"
  shows "\<exists>s'. get_scn st' i n = Some s' \<and> (s' = s \<or> x = Some (i, n, True, length (s_rawdata s)) \<and> (\<exists>d. s' = s\<lparr>s_rawdata := s_rawdata s @ [d]\<rparr>))"
proof -
  have a: "get_elf (snd (c_alloc st)) i = Some e" using e(1) by simp
  show ?thesis using e r a
    by (auto simp: elf_rawdata_def bind_Some_iff Let_def allocate_data_eq append_data_def get_scn_def put_scn_def scn_list_def
        split: if_splits option.splits)
qed

lemma reading_data:
  assumes r: "reading st i e" "scns_loaded e" "e_scns e n = Some s" and p: "data_post st i e n x st' e'"
    and s': "get_scn st' i n = Some s'" "s' = s \<or> (\<exists>D. x = Some y \<and> get_data st' y = Some D
        \<and> data_ok (heap st') D \<and> (s' = s\<lparr>s_data := s_data s @ [D]\<rparr> \<or> s' = s\<lparr>s_rawdata := s_rawdata s @ [D]\<rparr>))"
  shows "reading st' i e'" "scns_loaded e'"
proof -
  note D = readingD[OF r(1)]
  have P: "get_elf st' i = Some e'" "elf_inv st' e'" "heap_fresh st'" "heap_grows (heap st) (heap st')"
    "same_file e e'" "same_header e e'" "\<And>k. k \<noteq> n \<Longrightarrow> e_scns e' k = e_scns e k"
    using p by (auto simp: data_post_def)
  show l: "scns_loaded e'" using r(2) P(5,6) by (simp add: scns_loaded_def same_file_def same_header_def)
  have n: "e_scns e' n = Some s'" using s'(1) P(1) by (simp add: get_scn_def)
  have old: "scn_data_ok (heap st') t" if "e_scns e k = Some t" for k t
    using D(8)[OF that] data_ok_grows[OF _ P(4)] by (auto simp: scn_data_ok_def)
  have "scn_data_ok (heap st') t" if t: "e_scns e' k = Some t" for k t
  proof (cases "k = n")
    case True
    then show ?thesis using t n s'(2) old[OF r(3)] by (auto simp: scn_data_ok_def)
  next
    case False
    then show ?thesis using t P(7) old by simp
  qed
  then show "reading st' i e'" using D(4-7) P(1-3,5,6) l by (simp add: reading_def same_file_def same_header_def)
qed

lemma reading_getdata:
  assumes r: "reading st i e" "scns_loaded e" "e_scns e n = Some s"
  shows "\<exists>x st' e'. elf_getdata st (Some (i, n)) None = Some (x, st') \<and> reading st' i e' \<and> scns_loaded e'"
proof -
  note D = readingD[OF r(1)]
  from getdata_first_ok[OF D(1,2,4,11,3) r(3) D(8)[OF r(3)] D(6)] obtain x st' e' where g:
    "elf_getdata st (Some (i, n)) None = Some (x, st')" "data_post st i e n x st' e'" "ref_ok st' x" by blast
  from getdata_grows[OF D(1) r(3) D(4) g(1)] obtain s' where s': "get_scn st' i n = Some s'"
    "s' = s \<or> x = Some (i, n, False, length (s_data s)) \<and> (\<exists>d. s' = s\<lparr>s_data := s_data s @ [d]\<rparr>)" by blast
  have "s' = s \<or> (\<exists>D. x = Some (i, n, False, length (s_data s)) \<and> get_data st' (i, n, False, length (s_data s)) = Some D
      \<and> data_ok (heap st') D \<and> (s' = s\<lparr>s_data := s_data s @ [D]\<rparr> \<or> s' = s\<lparr>s_rawdata := s_rawdata s @ [D]\<rparr>))"
    using s' g(3) by (auto simp: get_data_def scn_list_def)
  from reading_data[OF r g(2) s'(1) this] show ?thesis using g(1) by blast
qed

lemma reading_rawdata:
  assumes r: "reading st i e" "scns_loaded e" "e_scns e n = Some s"
  shows "\<exists>x st' e'. elf_rawdata st (Some (i, n)) None = Some (x, st') \<and> reading st' i e' \<and> scns_loaded e'"
proof -
  note D = readingD[OF r(1)]
  obtain p where p: "e_rawfile e = Some p" using D(10) by (auto simp: raw_ok_def)
  show ?thesis
  proof (cases "s_rawdata s = []")
    case False
    then show ?thesis using r p D(1,4) by (simp add: elf_rawdata_def) blast
  next
    case True
    from rawdata_first_ok[OF D(1,2,4,10,3) p r(3) True D(6)] obtain x st' e' where g:
      "elf_rawdata st (Some (i, n)) None = Some (x, st')" "data_post st i e n x st' e'"
      "\<forall>y. x = Some y \<longrightarrow> (\<exists>D. get_data st' y = Some D \<and> data_ok (heap st') D)" by blast
    from rawdata_grows[OF D(1) r(3) True g(1)] obtain s' where s': "get_scn st' i n = Some s'"
      "s' = s \<or> x = Some (i, n, True, length (s_rawdata s)) \<and> (\<exists>d. s' = s\<lparr>s_rawdata := s_rawdata s @ [d]\<rparr>)" by blast
    have "s' = s \<or> (\<exists>D. x = Some (i, n, True, length (s_rawdata s)) \<and> get_data st' (i, n, True, length (s_rawdata s)) = Some D
        \<and> data_ok (heap st') D \<and> (s' = s\<lparr>s_data := s_data s @ [D]\<rparr> \<or> s' = s\<lparr>s_rawdata := s_rawdata s @ [D]\<rparr>))"
      using s' g(3) by (auto simp: get_data_def scn_list_def)
    from reading_data[OF r g(2) s'(1) this] show ?thesis using g(1) by blast
  qed
qed

lemma next_data_some: "get_data st x \<noteq> None \<Longrightarrow> \<exists>r. next_data st x = Some r"
  by (cases x) (auto simp: get_data_def next_data_def bind_Some_iff)

lemma reading_strptr:
  assumes r: "reading st i e" "\<not> table_lost e"
  shows "\<exists>x st' e'. elf_strptr st (Some i) n off = Some (x, st') \<and> reading st' i e' \<and> (table_lost e' \<longrightarrow> out_of_memory st')
    \<and> (\<forall>p. x = Some p \<longrightarrow> in_section st' i (unat n) p)"
proof -
  from reading_getscn[OF r, of n] obtain y st1 e1 where g: "elf_getscn st (Some i) n = Some (y, st1)" "reading st1 i e1"
    "table_lost e1 \<longrightarrow> out_of_memory st1" "\<forall>p. y = Some p \<longrightarrow> p = (i, unat n) \<and> scns_loaded e1 \<and> e_scns e1 (unat n) \<noteq> None" by blast
  show ?thesis
  proof (cases y)
    case None
    then show ?thesis using g readingD(1,4)[OF r(1)] by (auto simp: elf_strptr_def)
  next
    case (Some p)
    then have l: "scns_loaded e1" "e_scns e1 (unat n) \<noteq> None" "p = (i, unat n)" using g(4) by auto
    note D = readingD[OF g(2)]
    have again: "elf_getscn st1 (Some i) n = Some (y, st1)"
      using elf_getscn_loaded[OF D(1,2) l(1), of n] l(2,3) D(2) Some by (auto simp: elf_inv_def scn_inv_def)
    have "elf_strptr st (Some i) n off = elf_strptr st1 (Some i) n off"
      using readingD(1,4)[OF r(1)] D(1,4) by (simp add: elf_strptr_def g(1) again)
    moreover from elf_strptr_ok[OF D(1,2) l(1) D(11,3), of n off] D(8) obtain x st' where x:
      "elf_strptr st1 (Some i) n off = Some (x, st')" "\<forall>p. x = Some p \<longrightarrow> in_section st' i (unat n) p" "only_error st1 st' \<or> (\<exists>x st2. elf_getdata st1 (Some (i, unat n)) None = Some (x, st2)
          \<and> e_scns e1 (unat n) \<noteq> None \<and> only_error st2 st')" by blast
    moreover have "\<exists>e'. reading st' i e' \<and> scns_loaded e'"
      using x(3) reading_getdata[OF g(2) l(1), of "unat n"] g(2) l(1) by (auto simp: only_error_def)
    ultimately show ?thesis by (auto simp: table_lost_def)
  qed
qed

section \<open>Program headers\<close>

lemma those_total:
  "(\<forall>x\<in>set xs. \<exists>y. f x = Some y \<and> P y) \<Longrightarrow> \<exists>ys. those (map f xs) = Some ys \<and> (\<forall>y\<in>set ys. P y)"
  by (induction xs) fastforce+

lemma phdrs_of_total:
  assumes "\<forall>fs\<in>set fss. members_ok ec (Phdr_DEF ec) fs" "ec = ELFCLASS32 \<or> ec = ELFCLASS64"
  shows "\<exists>ph. phdrs_of ec fss = Some ph"
proof -
  have "\<exists>y. those (map Elf32_Phdr_of fss) = Some y" if "ec = ELFCLASS32"
    using those_total[of fss Elf32_Phdr_of "\<lambda>_. True"] assms(1) phdr_of_total(1) that by (simp add: Phdr_DEF_def)
  moreover have "\<exists>y. those (map Elf64_Phdr_of fss) = Some y" if "ec = ELFCLASS64"
    using those_total[of fss Elf64_Phdr_of "\<lambda>_. True"] assms(1) phdr_of_total(2) that by (simp add: Phdr_DEF_def)
  ultimately show ?thesis using assms(2) by (auto simp: phdrs_of_def)
qed

lemma file_phdrs_total:
  assumes "raw_ok st e" "off + n * FSZ ec (Phdr_DEF ec) \<le> unat (e_rawsize e)" "ec = ELFCLASS32 \<or> ec = ELFCLASS64"
  shows "\<exists>fss ph. file_structs st e ec (Phdr_DEF ec) off n = Some fss \<and> phdrs_of ec fss = Some ph"
proof -
  let ?F = "FSZ ec (Phdr_DEF ec)"
  have "\<exists>fs. file_struct st e ec (Phdr_DEF ec) (off + k * ?F) = Some fs \<and> members_ok ec (Phdr_DEF ec) fs" if "k < n" for k
  proof -
    have "Suc k * ?F \<le> n * ?F" by (rule mult_le_mono1) (use that in simp)
    then have "off + k * ?F + ?F \<le> unat (e_rawsize e)" using assms(2) by simp
    then show ?thesis by (rule file_struct_total[OF assms(1)])
  qed
  then have "\<exists>fss. file_structs st e ec (Phdr_DEF ec) off n = Some fss \<and> (\<forall>fs\<in>set fss. members_ok ec (Phdr_DEF ec) fs)"
    unfolding file_structs_def by (intro those_total) simp
  then show ?thesis using phdrs_of_total[OF _ assms(3)] by blast
qed

lemma phdrs_fsize:
  assumes "e_class e = ELFCLASS32 \<or> e_class e = ELFCLASS64" "e_version e = EV_CURRENT" "n < 2 ^ 32"
  shows "\<exists>st1. gelf_fsize st (Some e) ELF_T_PHDR n (e_version e) = (of_nat (unat n * FSZ (e_class e) (Phdr_DEF (e_class e))), st1)
    \<and> only_error st st1" and "unat n * FSZ (e_class e) (Phdr_DEF (e_class e)) < 2 ^ 64"
    and "0 < FSZ (e_class e) (Phdr_DEF (e_class e))"
proof -
  have f: "FSZ (e_class e) (Phdr_DEF (e_class e)) = (if e_class e = ELFCLASS32 then 32 else 56)"
    using assms(1) by (auto simp: Phdr_DEF_def layout_simps)
  show "\<exists>st1. gelf_fsize st (Some e) ELF_T_PHDR n (e_version e) = (of_nat (unat n * FSZ (e_class e) (Phdr_DEF (e_class e))), st1)
    \<and> only_error st st1"
    using assms by (auto simp: gelf_fsize_def libelf_fsize_def Let_def Phdr_DEF_def layout_simps mult.commute)
  have "unat n < 2 ^ 32" using assms(3) by (simp add: word_less_nat_alt)
  then show "unat n * FSZ (e_class e) (Phdr_DEF (e_class e)) < 2 ^ 64" using f by simp
  show "0 < FSZ (e_class e) (Phdr_DEF (e_class e))" using f by simp
qed

lemma reading_getphdr:
  assumes r: "reading st i e" "\<not> table_lost e" and p: "e_ehdr e \<noteq> None" "e_nphdr e \<noteq> 0"
    and ec: "ec = ELFCLASS32 \<or> ec = ELFCLASS64"
  shows "\<exists>b st' e'. libelf_getphdr st (Some i) ec = Some (b, st') \<and> reading st' i e' \<and> \<not> table_lost e'"
proof -
  note D = readingD[OF r(1)]
  obtain eh where eh: "e_ehdr e = Some eh" using p(1) by blast
  from reading_ehdr_cached[OF r(1) p(1) ec] obtain b st1 where h: "libelf_ehdr st (Some i) ec False = Some (b, st1)"
    "only_error st st1" "b \<longleftrightarrow> ec = e_class e \<and> e_version e = EV_CURRENT" by blast
  have r1: "reading st1 i e" using h(2) r(1) by (auto simp: only_error_def)
  note g1 = readingD(1)[OF r1]
  show ?thesis
  proof (cases "e_phdr e = None \<and> b")
    case False
    then show ?thesis using D(1,4) ec h(1) r r1 by (auto simp: libelf_getphdr_def)
  next
    case True
    then have cv: "ec = e_class e" "e_version e = EV_CURRENT" using h(3) by simp_all
    let ?F = "FSZ ec (Phdr_DEF ec)" and ?n = "unat (e_nphdr e)" and ?off = "ehdr_phoff eh"
    let ?w = "of_nat (?n * ?F) :: u64"
    from phdrs_fsize(1)[OF D(6) cv(2) D(7), of st1] obtain st2 where f:
      "gelf_fsize st1 (Some e) ELF_T_PHDR (e_nphdr e) (e_version e) = (?w, st2)" "only_error st1 st2" unfolding cv(1) by blast
    have w: "unat ?w = ?n * ?F" using phdrs_fsize(2)[OF D(6) cv(2) D(7)] unfolding cv(1) by (simp add: unat_of_nat del: of_nat_mult)
    have "0 < ?n" using p(2) by (simp add: unat_gt_0)
    then have pos: "?w > 0" using w phdrs_fsize(3)[OF D(6) cv(2) D(7)] unfolding word_less_nat_alt cv(1) by simp
    have r2: "reading st2 i e" using f(2) r1 by (auto simp: only_error_def)
    have eq: "libelf_getphdr st (Some i) ec = (if ?off + ?w < ?off then Some (False, set_error ELF_E_HEADER 0 st2)
       else if e_rawsize e < ?off + ?w then Some (False, set_error ELF_E_HEADER 0 st2)
       else do {
         (msz, st) \<leftarrow> libelf_msize st2 ELF_T_PHDR ec EV_CURRENT;
         if msz = 0 then Some (False, st)
         else do {
           let (ok, st) = c_alloc st;
           if \<not> ok then Some (False, set_error ELF_E_RESOURCE 0 st)
           else do {
             m \<leftarrow> libelf_elfmachine (Some e);
             fss \<leftarrow> file_structs st e ec (Phdr_DEF ec) (unat ?off) ?n;
             ph \<leftarrow> phdrs_of ec fss;
             Some (True, put_elf i (e\<lparr>e_phdr := Some ph\<rparr>) st) } } })"
      using D(1,4) ec True h(1) g1 eh f(1) pos by (simp add: libelf_getphdr_def)
    have msz: "libelf_msize st2 ELF_T_PHDR ec EV_CURRENT = Some (of_nat (msize_table ec ELF_T_PHDR), st2)" "msize_table ec ELF_T_PHDR \<noteq> 0"
      using ec by (auto simp: libelf_msize_def Let_def layout_simps)
    have mach: "\<exists>m. libelf_elfmachine (Some e) = Some m" using eh D(4,6) by (auto simp: libelf_elfmachine_def)
    let ?st3 = "snd (c_alloc st2)"
    have r3: "reading ?st3 i e" using r2 by (simp add: reading_def)
    have set: "reading (put_elf i (e\<lparr>e_phdr := Some ph\<rparr>) ?st3) i (e\<lparr>e_phdr := Some ph\<rparr>) \<and> \<not> table_lost (e\<lparr>e_phdr := Some ph\<rparr>)" for ph
      using r3 r(2) by (auto simp: reading_def table_lost_def scns_pending_def scns_loaded_def only_read_def elf_inv_def scn_inv_def
          hdr_inv_def raw_ok_def heap_fresh_def)
    show ?thesis
    proof (cases "?off + ?w < ?off \<or> e_rawsize e < ?off + ?w \<or> \<not> fst (c_alloc st2)")
      case True
      then show ?thesis using eq msz r2 r3 r(2) by (auto simp: case_prod_unfold)
    next
      case False
      have "unat ?off + ?n * ?F \<le> unat (e_rawsize e)"
        using False no_overflow_sum[of ?off ?w] w by (simp add: not_less word_le_nat_alt)
      then obtain fss ph where "file_structs ?st3 e ec (Phdr_DEF ec) (unat ?off) ?n = Some fss" "phdrs_of ec fss = Some ph"
        using file_phdrs_total[OF readingD(10)[OF r3] _ ec] by blast
      then show ?thesis using eq False msz mach set[of ph] r2 r(2) by (auto simp: case_prod_unfold)
    qed
  qed
qed

section \<open>Typed calls\<close>

text \<open>Progress and preservation for one call.\<close>

definition call_returns :: "libelf_state option \<Rightarrow> nat \<Rightarrow> bool" where
  "call_returns r i \<longleftrightarrow> (\<exists>st' e'. r = Some st' \<and> reading st' i e' \<and> (table_lost e' \<longrightarrow> out_of_memory st'))"

lemma call_returnsI:
  "r = Some (b, st') \<Longrightarrow> reading st' i e' \<Longrightarrow> \<not> table_lost e' \<or> out_of_memory st' \<Longrightarrow> call_returns (map_option snd r) i"
  by (auto simp: call_returns_def)

lemma reading_count:
  assumes r: "reading st i e" "\<not> table_lost e"
  shows "call_returns (map_option (snd \<circ> snd) (libelf_getcount field st (Some i))) i"
proof -
  from reading_ehdr[OF r readingD(6)[OF r(1)]] obtain b st1 e1 where "libelf_ehdr st (Some i) (e_class e) False = Some (b, st1)"
    "reading st1 i e1" "\<not> table_lost e1" by blast
  then show ?thesis using readingD(1,4,6)[OF r(1)] readingD(1)[of st1 i e1]
    by (cases b) (auto simp: libelf_getcount_def elf_class_known_def call_returns_def)
qed

lemma reading_list_data:
  assumes r: "reading st i e" "\<not> table_lost e" and n: "has_scn st i n" "get_data st x \<noteq> None"
  shows "call_returns (map_option snd (elf_getdata st (Some (i, n)) (Some x))) i"
    "call_returns (map_option snd (elf_rawdata st (Some (i, n)) (Some x))) i"
proof -
  note D = readingD[OF r(1)]
  obtain s where s: "e_scns e n = Some s" using n(1) D(1) by (auto simp: has_scn_def)
  obtain d where d: "next_data st x = Some d" using next_data_some[OF n(2)] by blast
  obtain p where p: "e_rawfile e = Some p" using D(10) by (auto simp: raw_ok_def)
  show "call_returns (map_option snd (elf_getdata st (Some (i, n)) (Some x))) i"
    using D(1,4) s d r by (cases x) (auto simp: elf_getdata_def call_returns_def)
  show "call_returns (map_option snd (elf_rawdata st (Some (i, n)) (Some x))) i"
    using D(1,4) s d p r by (auto simp: elf_rawdata_def call_returns_def)
qed

lemma reading_call:
  assumes r: "reading st i e" "\<not> table_lost e" and c: "call_typed st i c"
  shows "call_returns (read_call c st i) i"
proof -
  note D = readingD[OF r(1)]
  have scn: "\<exists>s. scns_loaded e \<and> e_scns e n = Some s" if "has_scn st i n" for n
    using that D(1) by (auto simp: has_scn_def)
  have getscn: "call_returns (map_option snd (elf_getscn st (Some i) n)) i" for n
    using reading_getscn[OF r, of n] by (auto simp: call_returns_def)
  show ?thesis
  proof (cases c)
    case (GETEHDR ec)
    then show ?thesis using reading_ehdr[OF r, of ec] c by (auto simp: call_returns_def)
  next
    case (GETPHDR ec)
    then show ?thesis using reading_getphdr[OF r, of ec] c D(1) by (auto simp: call_returns_def has_phdrs_def)
  next
    case (NEXTSCN s)
    show ?thesis
    proof (cases s)
      case None
      then show ?thesis using NEXTSCN getscn[of 1] D(1,4) by (simp add: elf_nextscn_def)
    next
      case (Some n)
      then obtain t where t: "e_scns e n = Some t" using scn[of n] c NEXTSCN by auto
      have "rb_inv (e_scn e)" "n \<in> rb_keys (e_scn e)" using D(2) t by (auto simp: elf_inv_def scn_inv_def)
      note next_scn = locate_next[OF this]
      show ?thesis using NEXTSCN Some D(1,4) r next_scn by (auto simp: elf_nextscn_def call_returns_def)
    qed
  next
    case (NDXSCN n)
    then show ?thesis using scn[of n] c D(1) r by (auto simp: elf_ndxscn_def get_scn_def call_returns_def)
  next
    case (GETSHDR n)
    then show ?thesis using scn[of n] c D(1,4,6) r
      by (auto simp: gelf_getshdr_def libelf_getshdr_def call_returns_def)
  next
    case (GETDATA n d)
    then obtain s where s: "scns_loaded e" "e_scns e n = Some s" using scn[of n] c by auto
    have "call_returns (map_option snd (elf_getdata st (Some (i, n)) None)) i"
      using reading_getdata[OF r(1) s] by (auto simp: call_returns_def table_lost_def)
    then show ?thesis using GETDATA c reading_list_data(1)[OF r, of n] by (cases d) auto
  next
    case (RAWDATA n d)
    then obtain s where s: "scns_loaded e" "e_scns e n = Some s" using scn[of n] c by auto
    have "call_returns (map_option snd (elf_rawdata st (Some (i, n)) None)) i"
      using reading_rawdata[OF r(1) s] by (auto simp: call_returns_def table_lost_def)
    then show ?thesis using RAWDATA c reading_list_data(2)[OF r, of n] by (cases d) auto
  next
    case (STRPTR n off)
    then show ?thesis using reading_strptr[OF r, of n off] by (auto simp: call_returns_def)
  qed (use getscn reading_count[OF r] in \<open>simp_all add: elf_getphdrnum_def elf_getshdrnum_def elf_getshdrstrndx_def
      libelf_getphdrnum_def libelf_getshdrnum_def libelf_getshdrstrndx_def\<close>)
qed

text \<open>The typed calls of a client on one descriptor, until the library has given up on the section table.\<close>

inductive reads :: "nat \<Rightarrow> libelf_state \<Rightarrow> libelf_state \<Rightarrow> bool" for i st where
  start: "reads i st st"
| call: "reads i st st1 \<Longrightarrow> get_elf st1 i = Some e \<Longrightarrow> \<not> table_lost e \<Longrightarrow> call_typed st1 i c \<Longrightarrow> read_call c st1 i = Some st2
    \<Longrightarrow> reads i st st2"

lemma reads_reading: "reads i st st2 \<Longrightarrow> reading st i e \<Longrightarrow> \<exists>e2. reading st2 i e2"
proof (induction rule: reads.induct)
  case start
  then show ?case by blast
next
  case (call st1 e1 c st2)
  then obtain e2 where e2: "reading st1 i e2" by blast
  then have "e2 = e1" using readingD(1)[OF e2] call.hyps(2) by simp
  with e2 have "reading st1 i e1" by simp
  from reading_call[OF this call.hyps(3,4)] call.hyps(5) show ?case by (auto simp: call_returns_def)
qed

lemma opened_reading:
  assumes img: "mem_read (heap st) img (unat sz) = Some bs" "0 < sint sz" and st: "heap_fresh st" "libelf_version st \<noteq> EV_NONE"
    and o: "elf_memory st (Some img) sz = Some (Some i, st1)" "get_elf st1 i = Some e" "e_kind e = ELF_K_ELF"
  shows "reading st1 i e"
proof -
  have m: "libelf_memory st img sz True = Some (Some i, st1)" using o(1) elf_memory_eq[OF st(2) img(2)] by simp
  from libelf_memory_ok[OF img, of True] m o(2) have l: "open_frame (next_elf st) st st1" "opened st1 img sz e"
    "e_kind e = ELF_K_ELF \<longleftrightarrow> elf_ident bs = Some (e_byteorder e, e_class e, e_version e)
       \<and> ident_error (e_byteorder e) (e_class e) (e_version e) = ELF_E_NONE" by auto
  have "e_class e = ELFCLASS32 \<or> e_class e = ELFCLASS64" using l(3) o(3) ident_error_class by blast
  then have only: "only_read e" by (rule opened_elf(4)[OF l(2) o(3)])
  have "heap_fresh st1" using fresh_frame[OF st(1)] l(1) by (auto simp: open_frame_def)
  then show ?thesis by (rule only_read_reading[OF o(2) opened_elf(1)[OF l(2) o(3)] _ only])
qed

section \<open>A section table that was given up\<close>

lemma min_max_differ:
  assumes "rb_inv t" "a \<in> rb_keys t" "b \<in> rb_keys t" "a \<noteq> b"
  shows "t \<noteq> RB_NULL" "RB_MIN t \<noteq> RB_MAX t"
proof -
  show t: "t \<noteq> RB_NULL" using assms(2) by (auto simp: rb_keys_def)
  show "RB_MIN t \<noteq> RB_MAX t"
  proof
    assume eq: "RB_MIN t = RB_MAX t"
    obtain m where m: "RB_MIN t = Some m" using RB_MIN_eq[OF t] by blast
    then have "RB_MAX t = Some m" using eq by simp
    then show False using RB_MIN_Some[OF assms(1)] RB_MAX_Some[OF assms(1)] m assms(2-4) by (metis le_antisym)
  qed
qed

lemma load_scns_keys:
  "load_scns n st i ec off k = Some (b, st') \<Longrightarrow> get_elf st i = Some e \<Longrightarrow> rb_inv (e_scn e) \<Longrightarrow> \<forall>m\<ge>k. m \<notin> rb_keys (e_scn e) \<Longrightarrow>
   \<exists>e' m. get_elf st' i = Some e' \<and> rb_inv (e_scn e') \<and> rb_keys (e_scn e') = rb_keys (e_scn e) \<union> {k..<k + m}"
proof (induction n arbitrary: st e off k)
  case 0
  then show ?case by (intro exI[of _ e] exI[of _ 0]) simp
next
  case (Suc n)
  have "k \<notin> rb_keys (e_scn e)" using Suc.prems(4) by simp
  with Suc.prems(2,3) show ?case
  proof (cases rule: allocate_scn_ok)
    case (fail st1)
    then show ?thesis using Suc.prems by (intro exI[of _ e] exI[of _ 0]) simp
  next
    case (ok t st1)
    then obtain s st2 where s: "put_scn i k s st1 = Some st2"
      "load_scns n st2 i ec (off + FSZ ec (Shdr_DEF ec)) (Suc k) = Some (b, st')"
      using Suc.prems(1) by (auto simp: bind_Some_iff get_scn_def)
    obtain e2 where e2: "get_elf st2 i = Some e2" "e_scn e2 = t" using s(1) ok(2) by (auto simp: put_scn_def)
    have t: "rb_inv (e_scn e2)" "rb_keys (e_scn e2) = insert k (rb_keys (e_scn e))" using ok(3,4) e2(2) by simp_all
    have "\<forall>m\<ge>Suc k. m \<notin> rb_keys (e_scn e2)" using t(2) Suc.prems(4) by simp
    from Suc.IH[OF s(2) e2(1) t(1) this] obtain e' m where m: "get_elf st' i = Some e'" "rb_inv (e_scn e')"
      "rb_keys (e_scn e') = rb_keys (e_scn e2) \<union> {Suc k..<Suc k + m}" by blast
    have "rb_keys (e_scn e') = rb_keys (e_scn e) \<union> {k..<k + Suc m}" unfolding m(3) t(2) by auto
    then show ?thesis using m(1,2) by blast
  qed
qed

text \<open>Whether or not the table is loaded to its end, the header stays.\<close>

lemma load_scns_frame:
  "load_scns n st i ec off k = Some (b, st') \<Longrightarrow> get_elf st i = Some e \<Longrightarrow>
   \<exists>e'. get_elf st' i = Some e' \<and> same_header e e' \<and> same_file e e'"
proof (induction n arbitrary: st e off k)
  case 0
  then show ?case by simp
next
  case (Suc n)
  obtain x st1 where a: "libelf_allocate_scn st i k = Some (x, st1)" using Suc.prems(1) by (auto simp: bind_Some_iff)
  then obtain e1 where e1: "get_elf st1 i = Some e1" "same_header e e1" "same_file e e1"
    using Suc.prems(2) by (auto simp: libelf_allocate_scn_def Let_def case_prod_unfold bind_Some_iff same_header_def same_file_def
        split: if_splits)
  show ?case
  proof (cases x)
    case None
    then show ?thesis using Suc.prems(1) a e1 by auto
  next
    case (Some k')
    then obtain s st2 where s: "put_scn i k' s st1 = Some st2" "load_scns n st2 i ec (off + FSZ ec (Shdr_DEF ec)) (Suc k) = Some (b, st')"
      using Suc.prems(1) a by (auto simp: bind_Some_iff)
    then obtain e2 where e2: "get_elf st2 i = Some e2" "same_header e e2" "same_file e e2"
      using e1 by (auto simp: put_scn_def same_header_def same_file_def)
    from Suc.IH[OF s(2) e2(1)] e2(2,3) show ?thesis using same_header_trans same_file_trans by blast
  qed
qed

text \<open>Loading the table, step by step.\<close>

definition table_misplaced :: "Elf \<Rightarrow> ehdr \<Rightarrow> bool" where
  "table_misplaced e eh \<longleftrightarrow> (let w = of_nat (FSZ (e_class e) (Shdr_DEF (e_class e))) :: u64
     in ehdr_shoff eh > e_rawsize e \<or> w \<noteq> ucast (ehdr_shentsize eh) \<or> e_nscn e > (- 1) div w
        \<or> w * e_nscn e > e_rawsize e - ehdr_shoff eh)"

definition load_from :: "libelf_state \<Rightarrow> nat \<Rightarrow> Elf \<Rightarrow> ehdr \<Rightarrow> nat \<Rightarrow> (bool \<times> libelf_state) option" where
  "load_from st i e eh i0 = load_scns (unat (e_nscn e) - i0) st i (e_class e)
     (unat (ehdr_shoff eh) + i0 * FSZ (e_class e) (Shdr_DEF (e_class e))) i0"

lemma load_headers_eq:
  assumes e: "get_elf st i = Some e" "e_ehdr e = Some eh" "e_kind e = ELF_K_ELF" "e_version e = EV_CURRENT"
    "e_flags e AND LIBELF_F_SHDRS_LOADED = 0" and ec: "e_class e = ELFCLASS32 \<or> e_class e = ELFCLASS64"
  shows "libelf_load_section_headers st i =
    (if table_misplaced e eh then Some (False, set_error ELF_E_HEADER 0 st)
     else if e_scn e \<noteq> RB_NULL \<and> RB_MIN (e_scn e) \<noteq> RB_MAX (e_scn e) then None
     else do {
       (ok, st) \<leftarrow> load_from st i e eh (if e_scn e \<noteq> RB_NULL then 1 else 0);
       if \<not> ok then Some (False, st)
       else do { e \<leftarrow> get_elf st i; Some (True, put_elf i (e\<lparr>e_flags := e_flags e OR LIBELF_F_SHDRS_LOADED\<rparr>) st) } })"
proof -
  let ?F = "FSZ (e_class e) (Shdr_DEF (e_class e))"
  have fz: "libelf_fsize st ELF_T_SHDR (e_class e) (e_version e) 1 = (of_nat ?F, st)" "?F = (if e_class e = ELFCLASS32 then 40 else 64)"
    using shdr_fsize_current(1,2)[OF ec] e(4) by simp_all
  then have fpos: "(of_nat ?F :: u64) > 0" "unat (of_nat ?F :: u64) = ?F" using ec by auto
  obtain m where m: "libelf_elfmachine (Some e) = Some m" using e ec by (auto simp: libelf_elfmachine_def)
  show ?thesis
    unfolding libelf_load_section_headers_def e(1,2) bind.simps c_assert_def if_P[OF e(5)] Let_def fz(1) prod.case
      if_P[OF fpos(1)] m if_P[OF ec] fpos(2) table_misplaced_def load_from_def
    by (cases "e_scn e \<noteq> RB_NULL \<and> RB_MIN (e_scn e) \<noteq> RB_MAX (e_scn e)") auto
qed

text \<open>After a part of the table was loaded, loading it again stops at the assertion that there is at most one section.\<close>

lemma load_headers_again:
  assumes e: "get_elf st i = Some e" "elf_inv st e" "raw_ok st e" "e_ehdr e = Some eh" "rb_keys (e_scn e) \<subseteq> {0}"
    and k: "e_kind e = ELF_K_ELF" "e_version e = EV_CURRENT" "e_flags e AND LIBELF_F_SHDRS_LOADED = 0"
    and cmd: "e_cmd e \<noteq> ELF_C_WRITE"
    and r: "libelf_load_section_headers st i = Some (False, st1)" "get_elf st1 i = Some e1" "table_lost e1"
  shows "e_ehdr e1 = Some eh" "e_class e1 = e_class e" "e_flags e1 = e_flags e" "e_version e1 = EV_CURRENT" "libelf_load_section_headers st1 i = None"
proof -
  let ?i0 = "if e_scn e \<noteq> RB_NULL then 1 else 0 :: nat"
  have ec: "e_class e = ELFCLASS32 \<or> e_class e = ELFCLASS64" using elf_invD(2)[OF e(2)] e(4) by (auto simp: hdr_inv_def)
  note eq = load_headers_eq[OF e(1,4) k ec]
  have good: "\<not> table_misplaced e eh" using eq r e(1,5) k cmd by (auto simp: table_lost_def scns_pending_def)
  have l: "load_from st i e eh ?i0 = Some (False, st1)"
  proof -
    define lf where "lf = load_from st i e eh ?i0"
    have "lf \<bind> (\<lambda>(ok, st). if \<not> ok then Some (False, st) else do { e \<leftarrow> get_elf st i;
        Some (True, put_elf i (e\<lparr>e_flags := e_flags e OR LIBELF_F_SHDRS_LOADED\<rparr>) st) }) = Some (False, st1)"
      using r(1) unfolding eq if_not_P[OF good] lf_def[symmetric] by (simp split: if_splits)
    then show ?thesis unfolding lf_def[symmetric] by (cases lf) (auto simp: bind_Some_iff split: if_splits)
  qed
  have kk: "\<forall>m\<ge>?i0. m \<notin> rb_keys (e_scn e)" using e(5) rb_keys_empty[of "e_scn e"] by auto
  have "rb_inv (e_scn e)" using e(2) by (simp add: elf_inv_def scn_inv_def)
  from load_scns_keys[OF l[unfolded load_from_def] e(1) this kk] r(2) obtain m where m: "rb_inv (e_scn e1)"
    "rb_keys (e_scn e1) = rb_keys (e_scn e) \<union> {?i0..<?i0 + m}" by auto
  from load_scns_frame[OF l[unfolded load_from_def] e(1)] r(2)
  have h: "same_header e e1" "same_file e e1" by auto
  have r3: "\<not> rb_keys (e_scn e1) \<subseteq> {0}"
    using r(3) h k cmd by (auto simp: table_lost_def scns_pending_def same_header_def same_file_def)
  have "rb_keys (e_scn e) = (if ?i0 = 0 then {} else {0})" using e(5) rb_keys_empty[of "e_scn e"] by auto
  then have two: "0 \<in> rb_keys (e_scn e1)" "1 \<in> rb_keys (e_scn e1)"
    using m(2) r3 by (auto split: if_splits)
  have h1: "e_ehdr e1 = Some eh" "e_class e1 = e_class e" "e_kind e1 = ELF_K_ELF" "e_version e1 = EV_CURRENT"
    "e_flags e1 AND LIBELF_F_SHDRS_LOADED = 0" using h e(4) k by (simp_all add: same_header_def same_file_def)
  have "table_misplaced e1 eh = table_misplaced e eh" using h by (simp add: table_misplaced_def same_header_def same_file_def)
  then show "libelf_load_section_headers st1 i = None"
    using load_headers_eq[OF r(2) h1(1,3-5)] h1(2) ec good min_max_differ[OF m(1) two] by simp
  show "e_ehdr e1 = Some eh" "e_class e1 = e_class e" "e_flags e1 = e_flags e" "e_version e1 = EV_CURRENT" using h1(1,2,4) h by (simp_all add: same_header_def)
qed

lemma getscn_lost:
  assumes r: "reading st i e" "\<not> table_lost e" and g: "elf_getscn st (Some i) n = Some (x, st1)" "get_elf st1 i = Some e1" "table_lost e1"
  shows "x = None \<and> elf_getscn st1 (Some i) m = None"
proof -
  note D = readingD[OF r(1)]
  have known: "elf_class_known e" using D(4,6) by (simp add: elf_class_known_def)
  from reading_load[OF r] obtain b st' e' where l: "load_sections st i (e_class e) = Some (b, st')" "reading st' i e'"
    "b \<longrightarrow> scns_loaded e'" by blast
  have s: "x = None \<and> st1 = st'" "\<not> b"
    using g l(3) readingD(1)[OF l(2)] D(1) known l(1) by (auto simp: elf_getscn_def table_lost_def split: if_splits option.splits)
  then have e': "e' = e1" "reading st1 i e1" using l(2) g(2) readingD(1)[OF l(2)] by auto
  note D1 = readingD[OF e'(2)]
  from reading_ehdr[OF r D(6)] obtain b1 st2 e2 where h: "libelf_ehdr st (Some i) (e_class e) False = Some (b1, st2)"
    "reading st2 i e2" "\<not> table_lost e2" "b1 \<longrightarrow> e_ehdr e2 \<noteq> None \<and> e_version e2 = EV_CURRENT" by blast
  note D2 = readingD[OF h(2)]
  have "st1 \<noteq> st2" using g(2,3) h(3) D2(1) by auto
  then have p: "b1" "e_flags e2 AND LIBELF_F_SHDRS_LOADED = 0" "libelf_load_section_headers st2 i = Some (False, st1)"
    using l(1) h(1) s D2(1,5) by (auto simp: load_sections_def split: if_splits)
  then have pend: "scns_pending e2" using h(3) D2(5) by (auto simp: table_lost_def scns_loaded_def)
  obtain eh where eh: "e_ehdr e2 = Some eh" using p(1) h(4) by auto
  have ver: "e_version e2 = EV_CURRENT" using p(1) h(4) by blast
  have k: "rb_keys (e_scn e2) \<subseteq> {0}" "e_cmd e2 \<noteq> ELF_C_WRITE" using pend by (simp_all add: scns_pending_def)
  note again = load_headers_again[OF D2(1,2,10) eh k(1) D2(4) ver p(2) k(2) p(3) g(2,3)]
  have "libelf_ehdr st1 (Some i) (e_class e1) False = Some (True, st1)"
    using ehdr_cached[OF D1(1) _ D1(4) again(4) D1(6)] again(1) put_elf_same[OF D1(1)] by simp
  then have "load_sections st1 i (e_class e1) = None"
    using again(3,5) p(2) D1(1,5) by (simp add: load_sections_def)
  then show ?thesis using s(1) D1(1,4,6) by (auto simp: elf_getscn_def elf_class_known_def)
qed

section \<open>Properties\<close>

text \<open>
  C8. A typed reader never gets stuck. Open an image with any contents and make any sequence of reading calls, with the
  sections and data descriptors the library has returned, as long as the section table was not given up. Then the next such
  call returns: no assertion of the library fails, and no byte outside the image and the buffers of the library is used. The
  descriptor has its invariant, every data descriptor of a section lies in a buffer of its size, and the section table
  is given up only when an allocation has failed, with \<open>ELF_E_RESOURCE\<close>.
\<close>

theorem reader_never_stuck:
  assumes img: "mem_read (heap st) img (unat sz) = Some bs" "0 < sint sz" and st: "heap_fresh st" "libelf_version st \<noteq> EV_NONE"
    and o: "elf_memory st (Some img) sz = Some (Some i, st1)" "get_elf st1 i = Some e" "e_kind e = ELF_K_ELF"
    and calls: "reads i st1 st2" "get_elf st2 i = Some e2" "\<not> table_lost e2" and c: "call_typed st2 i c"
  shows "\<exists>st3 e3. read_call c st2 i = Some st3 \<and> get_elf st3 i = Some e3 \<and> elf_inv st3 e3
    \<and> (\<forall>n s. e_scns e3 n = Some s \<longrightarrow> scn_data_ok (heap st3) s) \<and> (table_lost e3 \<longrightarrow> out_of_memory st3)"
proof -
  obtain e' where e': "reading st2 i e'" using reads_reading[OF calls(1) opened_reading[OF img st o]] by blast
  then have "reading st2 i e2" using readingD(1)[OF e'] calls(2) by simp
  from reading_call[OF this calls(3) c] show ?thesis using readingD(1,2,8) unfolding call_returns_def by metis
qed

theorem reader_never_stuck_witness:
  "\<exists>st1 st3. elf_memory (sample_state (ELFMAG @ [2, 1, 1] @ replicate 200 9)) (Some (0, 0)) 207 = Some (Some 0, st1)
     \<and> read_call (GETSCN 1) st1 0 = Some st3"
proof -
  let ?st = "sample_state (ELFMAG @ [2, 1, 1] @ replicate 200 9)"
  have "case elf_memory ?st (Some (0, 0)) 207 of None \<Rightarrow> False
    | Some (r, st1) \<Rightarrow> r = Some 0 \<and> (case get_elf st1 0 of None \<Rightarrow> False | Some e \<Rightarrow> e_kind e = ELF_K_ELF \<and> scns_pending e)"
    by code_simp
  then obtain st1 e where o: "elf_memory ?st (Some (0, 0)) 207 = Some (Some 0, st1)" "get_elf st1 0 = Some e"
    "e_kind e = ELF_K_ELF" "scns_pending e" by (auto split: option.splits)
  have s: "mem_read (heap ?st) (0, 0) (unat (207 :: u64)) = Some (ELFMAG @ [2, 1, 1] @ replicate 200 9)" "0 < sint (207 :: u64)"
    "heap_fresh ?st" "libelf_version ?st \<noteq> EV_NONE"
    by (simp_all add: sample_state_def mem_read_def slice_at_def ELFMAG_def heap_fresh_def)
  have "\<not> table_lost e" using o(4) by (simp add: table_lost_def)
  from reader_never_stuck[OF s o(1-3) reads.start o(2) this, of "GETSCN 1"] o(1) show ?thesis by auto
qed

text \<open>
  C29. \<open>elf_strptr\<close> is safe: for any section number and offset, whatever the file and the data descriptors of the
  application hold, the call returns, and a pointer it returns points at a byte of the section asked for: inside
  the buffer of one of the section's data descriptors, at less than the descriptor's size. (The string it points to need not
  end inside that buffer.) The section table must have been read already, or the descriptor must be one opened for reading whose
  table nothing has read yet: it is then read by the call itself. A table that was given up in the middle is excluded, since
  any call stops at an assertion there.
\<close>

theorem strptr_in_bounds:
  assumes e: "get_elf st i = Some e" "elf_inv st e" "file_there st e" "heap_fresh st"
    and t: "scns_loaded e \<or> only_read e \<and> scns_pending e"
    and d: "\<And>n s. e_scns e n = Some s \<Longrightarrow> scn_data_ok (heap st) s"
  shows "\<exists>r st'. elf_strptr st (Some i) scndx offset = Some (r, st')
    \<and> (\<forall>p. r = Some p \<longrightarrow> in_section st' i (unat scndx) p)"
proof (cases "scns_loaded e")
  case True
  from elf_strptr_ok[OF e(1,2) True e(3,4), of scndx offset] d show ?thesis by blast
next
  case False
  then have "reading st i e" "\<not> table_lost e"
    using t only_read_reading[OF e(1,2,4)] by (simp_all add: table_lost_def)
  from reading_strptr[OF this, of scndx offset] show ?thesis by blast
qed

theorem strptr_in_bounds_witness:
  "\<exists>r st'. elf_strptr strings_state (Some 0) 1 3 = Some (r, st') \<and> (\<forall>p. r = Some p \<longrightarrow> in_section st' 0 1 p)"
proof -
  note s = strings_state_ok
  have "\<exists>r st'. elf_strptr strings_state (Some 0) 1 3 = Some (r, st') \<and> (\<forall>p. r = Some p \<longrightarrow> in_section st' 0 (unat (1 :: u64)) p)"
    by (rule strptr_in_bounds[OF s(1,2,4,5) disjI1[OF s(3)] s(6)])
  then show ?thesis by simp
qed

text \<open>
  C39. A section table that was given up stops the program. When an allocation fails in the middle of loading the section
  table, \<open>elf_getscn\<close> returns NULL and leaves the sections that were loaded in the tree. The next call of \<open>elf_getscn\<close>, for any
  section, does not return: \<open>_libelf_load_section_headers\<close> takes the sections for section 0 of extended numbering and the
  assertion that there is only one fails.
\<close>

theorem lost_table_stops:
  assumes "reading st i e" "\<not> table_lost e" "elf_getscn st (Some i) n = Some (x, st1)" "get_elf st1 i = Some e1" "table_lost e1"
  shows "x = None \<and> elf_getscn st1 (Some i) m = None"
  using getscn_lost[OF assms] by blast

text \<open>A 64-bit header without program headers and with a table of three sections behind it.\<close>

definition three_scns :: bytes where
  "three_scns = ELFMAG @ [2, 1, 1] @ replicate 9 0 @ [1, 0, 62, 0, 1] @ replicate 19 0 @ [64] @ replicate 7 0
     @ replicate 10 0 @ [64, 0, 3] @ replicate 3 0 @ replicate 192 0"

theorem lost_table_stops_witness:
  "\<exists>st x st1. elf_memory ((sample_state three_scns)\<lparr>malloc_ok := (\<lambda>k. k \<noteq> 4)\<rparr>) (Some (0, 0)) 256 = Some (Some 0, st)
     \<and> elf_getscn st (Some 0) 2 = Some (x, st1) \<and> elf_getscn st1 (Some 0) 2 = None"
proof -
  let ?st = "(sample_state three_scns)\<lparr>malloc_ok := (\<lambda>k. k \<noteq> 4)\<rparr>"
  have "do { (r, st) \<leftarrow> elf_memory ?st (Some (0, 0)) 256; e \<leftarrow> get_elf st 0; (x, st1) \<leftarrow> elf_getscn st (Some 0) 2; e1 \<leftarrow> get_elf st1 0;
      Some (r = Some 0 \<and> e_kind e = ELF_K_ELF \<and> scns_pending e \<and> table_lost e1) } = Some True"
    by code_simp
  then obtain st e x st1 e1 where o: "elf_memory ?st (Some (0, 0)) 256 = Some (Some 0, st)" "get_elf st 0 = Some e"
    "e_kind e = ELF_K_ELF" "scns_pending e" "elf_getscn st (Some 0) 2 = Some (x, st1)" "get_elf st1 0 = Some e1" "table_lost e1"
    by (auto simp: bind_Some_iff)
  have s: "mem_read (heap ?st) (0, 0) (unat (256 :: u64)) = Some three_scns" "0 < sint (256 :: u64)"
    "heap_fresh ?st" "libelf_version ?st \<noteq> EV_NONE"
    by (simp_all add: sample_state_def mem_read_def slice_at_def three_scns_def ELFMAG_def heap_fresh_def)
  have "\<not> table_lost e" using o(4) by (simp add: table_lost_def)
  from lost_table_stops[OF opened_reading[OF s o(1-3)] this o(5-7)] o(1,5) show ?thesis by blast
qed

text \<open>
  C40. Asking for the program headers of an object that has none stops the program. After \<open>elf_getphdrnum\<close> has succeeded with the
  count zero, as for every relocatable object, \<open>elf32_getphdr\<close> or \<open>elf64_getphdr\<close> of the class of the object does not
  return: \<open>_libelf_getphdr\<close> asserts that the table has a size before it looks at the count.
\<close>

theorem getphdr_without_table_stops:
  assumes "reading st i e" "\<not> table_lost e" "elf_getphdrnum st (Some i) = Some (0, Some 0, st1)"
    and "get_elf st1 i = Some e1" "e_phdr e1 = None"
  shows "libelf_getphdr st1 (Some i) (e_class e1) = None"
proof -
  note D = readingD[OF assms(1)]
  from reading_ehdr[OF assms(1,2) D(6)] obtain b st' e' where h: "libelf_ehdr st (Some i) (e_class e) False = Some (b, st')"
    "reading st' i e'" "b \<longrightarrow> e_ehdr e' \<noteq> None \<and> e_version e' = EV_CURRENT" by blast
  note D' = readingD[OF h(2)]
  have known: "elf_class_known e" using D(4,6) by (simp add: elf_class_known_def)
  have b: "b" "st1 = st'" "e_nphdr e' = 0" using assms(3) D(1) D'(1) known h(1)
    by (auto simp: elf_getphdrnum_def libelf_getphdrnum_def libelf_getcount_def split: if_splits)
  have e1: "e1 = e'" using assms(4) b(2) D'(1) by simp
  obtain eh where eh: "e_ehdr e' = Some eh" using h(3) b(1) by auto
  have c: "libelf_ehdr st' (Some i) (e_class e') False = Some (True, st')"
    using ehdr_cached[OF D'(1) _ D'(4) _ D'(6)] h(3) b(1) put_elf_same[OF D'(1)] by simp
  have "fst (gelf_fsize st' (Some e') ELF_T_PHDR 0 (e_version e')) = 0"
    by (auto simp: gelf_fsize_def libelf_fsize_def Let_def)
  then show ?thesis unfolding b(2) e1 using D'(1,4,6) c eh b(3) assms(5) e1
    by (auto simp: libelf_getphdr_def c_assert_def Let_def case_prod_unfold)
qed

theorem getphdr_without_table_stops_witness:
  "\<exists>st st1. elf_memory (sample_state three_scns) (Some (0, 0)) 256 = Some (Some 0, st)
     \<and> elf_getphdrnum st (Some 0) = Some (0, Some 0, st1) \<and> libelf_getphdr st1 (Some 0) ELFCLASS64 = None"
proof -
  let ?st = "sample_state three_scns"
  have "do { (r, st) \<leftarrow> elf_memory ?st (Some (0, 0)) 256; e \<leftarrow> get_elf st 0; (x, v, st1) \<leftarrow> elf_getphdrnum st (Some 0);
      e1 \<leftarrow> get_elf st1 0; Some (r = Some 0 \<and> e_kind e = ELF_K_ELF \<and> scns_pending e \<and> x = 0 \<and> v = Some 0
        \<and> e_phdr e1 = None \<and> e_class e1 = ELFCLASS64) } = Some True"
    by code_simp
  then obtain st e st1 e1 where o: "elf_memory ?st (Some (0, 0)) 256 = Some (Some 0, st)" "get_elf st 0 = Some e"
    "e_kind e = ELF_K_ELF" "scns_pending e" "elf_getphdrnum st (Some 0) = Some (0, Some 0, st1)" "get_elf st1 0 = Some e1"
    "e_phdr e1 = None" "e_class e1 = ELFCLASS64"
    by (auto simp: bind_Some_iff)
  have s: "mem_read (heap ?st) (0, 0) (unat (256 :: u64)) = Some three_scns" "0 < sint (256 :: u64)"
    "heap_fresh ?st" "libelf_version ?st \<noteq> EV_NONE"
    by (simp_all add: sample_state_def mem_read_def slice_at_def three_scns_def ELFMAG_def heap_fresh_def)
  have "\<not> table_lost e" using o(4) by (simp add: table_lost_def)
  from getphdr_without_table_stops[OF opened_reading[OF s o(1-3)] this o(5-7)] o(1,5,8) show ?thesis by auto
qed

end
