(* ===== verification/Elf_Update.thy ===== *)
theory Elf_Update
  imports Elf_Open
begin

text \<open>
  \<open>elf_update.c\<close>: the layout of an object (the extents of its headers, tables and sections) and writing it to its file.
\<close>

section \<open>Extents\<close>

text \<open>The list of extents is a value, so that releasing it has no counterpart.\<close>

datatype elf_extent = ELF_EXTENT_EHDR | ELF_EXTENT_PHDR | ELF_EXTENT_SECTION | ELF_EXTENT_SHDR

text \<open>\<open>ex_desc\<close> is used for sections only.\<close>

record Elf_Extent =
  ex_start :: u64
  ex_size :: u64
  ex_type :: elf_extent
  ex_desc :: "nat option"

text \<open>
  The loop of \<open>_libelf_extent_is_unused\<close>: the number of extents before the new one, the last of which is what the code
  stores through \<open>prevt\<close>. The assertion of the code in the second case holds by the first.
\<close>

primrec extent_is_unused :: "Elf_Extent list \<Rightarrow> u64 \<Rightarrow> u64 \<Rightarrow> nat option" where
  "extent_is_unused [] start sz = Some 0"
| "extent_is_unused (t # ts) start sz =
     (let tmin = ex_start t; tmax = tmin + ex_size t; smax = start + sz in
      if tmax \<le> start then map_option Suc (extent_is_unused ts start sz)
      else if smax \<le> tmin then Some 0 else None)"

definition insert_extent ::
  "libelf_state \<Rightarrow> Elf_Extent list \<Rightarrow> elf_extent \<Rightarrow> u64 \<Rightarrow> u64 \<Rightarrow> nat option \<Rightarrow> Elf_Extent list option \<times> libelf_state" where
  "insert_extent st extents type start sz desc =
     (case extent_is_unused extents start sz of
        None \<Rightarrow> (None, set_error ELF_E_LAYOUT 0 st)
      | Some k \<Rightarrow>
          let (ok, st) = c_alloc st in
          if \<not> ok then (None, set_error ELF_E_RESOURCE ENOMEM st)
          else (Some (take k extents @ \<lparr>ex_start = start, ex_size = sz, ex_type = type, ex_desc = desc\<rparr>
                  # drop k extents), st))"

section \<open>The extent of a section\<close>

fun shdr_entsize :: "shdr \<Rightarrow> u64" where
  "shdr_entsize (Sh32 s) = ucast (sh_entsize32 s)" | "shdr_entsize (Sh64 s) = sh_entsize s"

fun set_sh_layout :: "u64 \<Rightarrow> u64 \<Rightarrow> u64 \<Rightarrow> u64 \<Rightarrow> shdr \<Rightarrow> shdr" where
  "set_sh_layout al ent off sz (Sh32 s) = Sh32 (s\<lparr>sh_addralign32 := ucast al, sh_entsize32 := ucast ent,
     sh_offset32 := ucast off, sh_size32 := ucast sz\<rparr>)"
| "set_sh_layout al ent off sz (Sh64 s) = Sh64 (s\<lparr>sh_addralign := al, sh_entsize := ent, sh_offset := off, sh_size := sz\<rparr>)"

definition app_layout :: "Elf \<Rightarrow> bool" where
  "app_layout e \<longleftrightarrow> e_flags e AND ELF_F_LAYOUT \<noteq> 0"

text \<open>One data descriptor: its checks, and the size and alignment of the section with it.\<close>

definition data_extent ::
  "libelf_state \<Rightarrow> Elf \<Rightarrow> Elf_Data \<Rightarrow> u64 \<Rightarrow> u64 \<Rightarrow> ((Elf_Data \<times> u64 \<times> u64) option \<times> libelf_state) option" where
  "data_extent st e d scn_size scn_alignment =
     (if \<not> elf_type_valid (d_type d) then Some (None, set_error ELF_E_DATA 0 st)
      else if d_version d \<noteq> e_version e then Some (None, set_error ELF_E_VERSION 0 st)
      else if d_align d = 0 \<or> d_align d AND (d_align d - 1) \<noteq> 0 then Some (None, set_error ELF_E_DATA 0 st)
      else do {
        (msz, st) \<leftarrow> libelf_msize st (d_type d) (e_class e) (e_version e);
        if msz = 0 then Some (None, st)
        else if d_size d mod msz \<noteq> 0 then Some (None, set_error ELF_E_DATA 0 st)
        else if app_layout e \<and> d_off d AND (d_align d - 1) \<noteq> 0 then Some (None, set_error ELF_E_LAYOUT 0 st)
        else
          let scn_alignment = (if d_align d > scn_alignment then d_align d else scn_alignment) in
          if app_layout e
          then Some (Some (d, (if d_off d + d_size d > scn_size then d_off d + d_size d else scn_size), scn_alignment), st)
          else
            let off = c_roundup scn_size (d_align d);
                (fsz, st) = libelf_fsize st (d_type d) (e_class e) (d_version d) (d_size d div msz)
            in Some (Some (d\<lparr>d_off := off\<rparr>, off + fsz, scn_alignment), st) })"

text \<open>The loop over the data descriptors, which keeps the offsets it stored before an error.\<close>

primrec data_extents ::
  "libelf_state \<Rightarrow> Elf \<Rightarrow> Libelf_Data list \<Rightarrow> u64 \<Rightarrow> u64
   \<Rightarrow> (Libelf_Data list \<times> (u64 \<times> u64) option \<times> libelf_state) option" where
  "data_extents st e [] scn_size scn_alignment = Some ([], Some (scn_size, scn_alignment), st)"
| "data_extents st e (ld # lds) scn_size scn_alignment = do {
     (r, st) \<leftarrow> data_extent st e (d_data ld) scn_size scn_alignment;
     case r of
       None \<Rightarrow> Some (ld # lds, None, st)
     | Some (d, scn_size, scn_alignment) \<Rightarrow> do {
         (lds, r, st) \<leftarrow> data_extents st e lds scn_size scn_alignment;
         Some (ld\<lparr>d_data := d\<rparr> # lds, r, st) } }"

text \<open>The labels \<open>updatedescriptor\<close> and \<open>computeoffset\<close>.\<close>

definition section_descriptor :: "libelf_state \<Rightarrow> nat \<Rightarrow> nat \<Rightarrow> u64 \<Rightarrow> u64 \<Rightarrow> (bool \<times> libelf_state) option" where
  "section_descriptor st i n sz off = do {
     s \<leftarrow> get_scn st i n;
     st \<leftarrow> put_scn i n (s\<lparr>s_size := sz, s_offset := off\<rparr>) st;
     Some (True, st) }"

definition section_offset ::
  "libelf_state \<Rightarrow> nat \<Rightarrow> nat \<Rightarrow> u64 \<Rightarrow> u64 \<Rightarrow> u64 \<Rightarrow> u64 \<Rightarrow> (bool \<times> libelf_state) option" where
  "section_offset st i n rc al ent sz = do {
     s \<leftarrow> get_scn st i n;
     let off = c_roundup rc al;
     st \<leftarrow> put_scn i n (s\<lparr>s_shdr := set_sh_layout al ent off sz (s_shdr s)\<rparr>) st;
     section_descriptor st i n sz off }"

text \<open>The data of a section that was changed but not read, and the loop over the data.\<close>

definition section_data_extents ::
  "libelf_state \<Rightarrow> nat \<Rightarrow> nat \<Rightarrow> ((u64 \<times> u64) option \<times> libelf_state) option" where
  "section_data_extents st i n = do {
     e \<leftarrow> get_elf st i;
     s \<leftarrow> e_scns e n;
     (ok, st) \<leftarrow>
       (if s_data s = [] \<and> e_cmd e \<noteq> ELF_C_WRITE
        then do { (d, st) \<leftarrow> elf_getdata st (Some (i, n)) None; Some (d \<noteq> None, st) }
        else Some (True, st));
     if \<not> ok then Some (None, st)
     else do {
       s \<leftarrow> get_scn st i n;
       (lds, r, st) \<leftarrow> data_extents st e (s_data s) 0 0;
       st \<leftarrow> put_scn i n (s\<lparr>s_data := lds\<rparr>) st;
       Some (r, st) } }"

text \<open>The contents were not read and not changed: size and offset are those of the header.\<close>

definition keeps_size :: "Elf_Scn \<Rightarrow> bool" where
  "keeps_size s \<longleftrightarrow> s_data s = [] \<and> s_flags s AND ELF_F_DIRTY = 0"

definition compute_section_extents :: "libelf_state \<Rightarrow> nat \<Rightarrow> nat \<Rightarrow> u64 \<Rightarrow> (bool \<times> libelf_state) option" where
  "compute_section_extents st i n rc = do {
     e \<leftarrow> get_elf st i;
     s \<leftarrow> e_scns e n;
     let sh = s_shdr s;
     c_assert (shdr_type sh \<noteq> SHT_NULL \<and> shdr_type sh \<noteq> SHT_NOBITS);
     let elftype = libelf_xlate_shtype (shdr_type sh);
     if \<not> elf_type_valid elftype then Some (False, set_error ELF_E_SECTION 0 st)
     else do {
       let falign = of_nat (libelf_falign elftype (e_class e));
       let sh_align = (if shdr_align sh = 0 then falign else shdr_align sh);
       if keeps_size s
       then (if app_layout e then section_descriptor st i n (shdr_size sh) (shdr_offset sh)
             else section_offset st i n rc sh_align (shdr_entsize sh) (shdr_size sh))
       else do {
         (r, st) \<leftarrow> section_data_extents st i n;
         case r of
           None \<Rightarrow> Some (False, st)
         | Some (scn_size, scn_alignment) \<Rightarrow>
             if app_layout e
             then (if scn_alignment > sh_align \<or> shdr_offset sh mod sh_align \<noteq> 0 \<or> shdr_size sh < scn_size
                     \<or> shdr_offset sh mod falign \<noteq> 0
                   then Some (False, set_error ELF_E_LAYOUT 0 st)
                   else section_descriptor st i n (shdr_size sh) (shdr_offset sh))
             else
               let sh_align = (if scn_alignment > sh_align then scn_alignment else sh_align);
                   (ent, st) = (if shdr_entsize sh = 0
                     then let (fsz, st) = libelf_fsize st elftype (e_class e) (e_version e) 1
                          in (if fsz = 1 then 0 else fsz, st)
                     else (shdr_entsize sh, st))
               in section_offset st i n rc sh_align ent scn_size } } }"

section \<open>The layout of the object\<close>

text \<open>
  The loop of \<open>_libelf_resync_sections\<close>; \<open>RB_FOREACH\<close> visits the sections in the order of the tree. The first result is
  the offset after the last section, negative if there was an error.
\<close>

primrec resync_scns ::
  "libelf_state \<Rightarrow> nat \<Rightarrow> nat list \<Rightarrow> u64 \<Rightarrow> Elf_Extent list \<Rightarrow> (u64 \<times> Elf_Extent list \<times> libelf_state) option" where
  "resync_scns st i [] rc extents = Some (rc, extents, st)"
| "resync_scns st i (n # ns) rc extents = do {
     s \<leftarrow> get_scn st i n;
     if shdr_type (s_shdr s) = SHT_NOBITS \<or> shdr_type (s_shdr s) = SHT_NULL then resync_scns st i ns rc extents
     else do {
       (ok, st) \<leftarrow> compute_section_extents st i n rc;
       if \<not> ok then Some (- 1, extents, st)
       else do {
         s \<leftarrow> get_scn st i n;
         if s_size s = 0 then resync_scns st i ns rc extents
         else
           let (r, st) = insert_extent st extents ELF_EXTENT_SECTION (s_offset s) (s_size s) (Some n) in
           case r of
             None \<Rightarrow> Some (- 1, extents, st)
           | Some extents \<Rightarrow>
               resync_scns st i ns (if rc < s_offset s + s_size s then s_offset s + s_size s else rc) extents } } }"

definition resync_sections ::
  "libelf_state \<Rightarrow> nat \<Rightarrow> u64 \<Rightarrow> Elf_Extent list \<Rightarrow> (u64 \<times> Elf_Extent list \<times> libelf_state) option" where
  "resync_sections st i rc extents = do {
     e \<leftarrow> get_elf st i;
     resync_scns st i (inorder (e_scn e)) rc extents }"

fun ehdr_ident :: "ehdr \<Rightarrow> bytes" where
  "ehdr_ident (Eh32 h) = e_ident32 h" | "ehdr_ident (Eh64 h) = e_ident h"

fun ehdr_fields :: "ehdr \<Rightarrow> fval list" where
  "ehdr_fields (Eh32 h) = Elf32_Ehdr_fields h" | "ehdr_fields (Eh64 h) = Elf64_Ehdr_fields h"

fun shdr_fields :: "shdr \<Rightarrow> fval list" where
  "shdr_fields (Sh32 s) = Elf32_Shdr_fields s" | "shdr_fields (Sh64 s) = Elf64_Shdr_fields s"

fun phdrs_fields :: "phdrs \<Rightarrow> fval list list" where
  "phdrs_fields (Ph32 ps) = map Elf32_Phdr_fields ps" | "phdrs_fields (Ph64 ps) = map Elf64_Phdr_fields ps"

fun ehdr_version :: "ehdr \<Rightarrow> u32" where
  "ehdr_version (Eh32 h) = eh_version32 h" | "ehdr_version (Eh64 h) = eh_version h"

text \<open>\<open>INITIALIZE_EHDR\<close>, with the three sizes as arguments.\<close>

definition init_ident :: "int \<Rightarrow> u32 \<Rightarrow> bytes \<Rightarrow> bytes" where
  "init_ident ec version ident =
     ident[0 := 0x7f, 1 := 0x45, 2 := 0x4c, 3 := 0x46, EI_CLASS := of_int ec, EI_VERSION := ucast (version AND 0xFF)]"

fun init_ehdr :: "int \<Rightarrow> u32 \<Rightarrow> u64 \<Rightarrow> u64 \<Rightarrow> u64 \<Rightarrow> ehdr \<Rightarrow> ehdr" where
  "init_ehdr ec version ehsz phsz shsz (Eh32 h) = Eh32 (h\<lparr>e_ident32 := init_ident ec version (e_ident32 h),
     e_ehsize32 := ucast ehsz, e_phentsize32 := ucast phsz, e_shentsize32 := ucast shsz\<rparr>)"
| "init_ehdr ec version ehsz phsz shsz (Eh64 h) = Eh64 (h\<lparr>e_ident := init_ident ec version (e_ident h),
     e_ehsize := ucast ehsz, e_phentsize := ucast phsz, e_shentsize := ucast shsz\<rparr>)"

definition initialize_ehdr :: "libelf_state \<Rightarrow> nat \<Rightarrow> u32 \<Rightarrow> libelf_state option" where
  "initialize_ehdr st i version = do {
     e \<leftarrow> get_elf st i;
     eh \<leftarrow> e_ehdr e;
     let (ehsz, st) = libelf_fsize st ELF_T_EHDR (e_class e) version 1;
     let (phsz, st) = (if e_nphdr e = 0 then (0, st) else libelf_fsize st ELF_T_PHDR (e_class e) version 1);
     let (shsz, st) = libelf_fsize st ELF_T_SHDR (e_class e) version 1;
     Some (put_elf i (e\<lparr>e_ehdr := Some (init_ehdr (e_class e) version ehsz phsz shsz eh)\<rparr>) st) }"

text \<open>The checks of the header, in order; \<open>None\<close> is success.\<close>

definition ehdr_update_error :: "Elf \<Rightarrow> ehdr \<Rightarrow> Elf_Error option" where
  "ehdr_update_error e eh =
     (if sint (ehdr_phoff eh) < 0 \<or> sint (ehdr_shoff eh) < 0 then Some ELF_E_HEADER
      else if (if ehdr_version eh = EV_NONE then EV_CURRENT else ehdr_version eh) \<noteq> e_version e then Some ELF_E_VERSION
      else if uint (ehdr_ident eh ! EI_CLASS) \<noteq> e_class e then Some ELF_E_CLASS
      else if e_cmd e \<noteq> ELF_C_WRITE \<and> ucast (ehdr_ident eh ! EI_DATA) \<noteq> e_byteorder e then Some ELF_E_HEADER
      else None)"

text \<open>The header, up to its extent.\<close>

definition resync_ehdr :: "libelf_state \<Rightarrow> nat \<Rightarrow> ((u64 \<times> Elf_Extent list) option \<times> libelf_state) option" where
  "resync_ehdr st i = do {
     e \<leftarrow> get_elf st i;
     c_assert (e_class e = ELFCLASS32 \<or> e_class e = ELFCLASS64);
     (ok, st) \<leftarrow> libelf_ehdr st (Some i) (e_class e) False;
     if \<not> ok then Some (None, st)
     else do {
       e \<leftarrow> get_elf st i;
       eh \<leftarrow> e_ehdr e;
       case ehdr_update_error e eh of
         Some err \<Rightarrow> Some (None, set_error err 0 st)
       | None \<Rightarrow> do {
           let version = (if ehdr_version eh = EV_NONE then EV_CURRENT else ehdr_version eh);
           st \<leftarrow> initialize_ehdr (put_elf i (e\<lparr>e_byteorder := ucast (ehdr_ident eh ! EI_DATA)\<rparr>) st) i version;
           (f, st) \<leftarrow> elf_flagehdr st (Some i) ELF_C_SET ELF_F_DIRTY;
           let (rc, st) = libelf_fsize st ELF_T_EHDR (e_class e) version 1;
           let (r, st) = insert_extent st [] ELF_EXTENT_EHDR 0 rc None;
           Some (map_option (Pair rc) r, st) } } }"

text \<open>The program header table: the offset after it, its own offset and the extents.\<close>

definition resync_phdr ::
  "libelf_state \<Rightarrow> nat \<Rightarrow> u64 \<Rightarrow> Elf_Extent list \<Rightarrow> ((u64 \<times> u64 \<times> Elf_Extent list) option \<times> libelf_state) option" where
  "resync_phdr st i rc extents = do {
     e \<leftarrow> get_elf st i;
     eh \<leftarrow> e_ehdr e;
     if e_nphdr e = 0 then Some (Some (rc, 0, extents), st)
     else do {
       let (fsz, st) = libelf_fsize st ELF_T_PHDR (e_class e) (e_version e) (e_nphdr e);
       let al = of_nat (libelf_falign ELF_T_PHDR (e_class e));
       if app_layout e \<and> (sint rc > sint (ehdr_phoff eh) \<or> ehdr_phoff eh mod al \<noteq> 0)
       then Some (None, set_error ELF_E_LAYOUT 0 st)
       else do {
         let phoff = (if app_layout e then ehdr_phoff eh else c_roundup rc al);
         (ok, st) \<leftarrow> libelf_getphdr st (Some i) (e_class e);
         let (r, st) = insert_extent st extents ELF_EXTENT_PHDR phoff fsz None;
         Some (map_option (\<lambda>extents. (phoff + fsz, phoff, extents)) r, st) } } }"

text \<open>The section header table. \<open>rc\<close> and \<open>shoff\<close> are \<open>off_t\<close>.\<close>

definition resync_shdr ::
  "libelf_state \<Rightarrow> nat \<Rightarrow> u64 \<Rightarrow> u64 \<Rightarrow> Elf_Extent list \<Rightarrow> ((u64 \<times> u64 \<times> Elf_Extent list) option \<times> libelf_state) option" where
  "resync_shdr st i shnum rc extents = do {
     e \<leftarrow> get_elf st i;
     eh \<leftarrow> e_ehdr e;
     if shnum = 0 then Some (Some (rc, 0, extents), st)
     else
       let (fsz, st) = libelf_fsize st ELF_T_SHDR (e_class e) (e_version e) shnum;
           al = of_nat (libelf_falign ELF_T_SHDR (e_class e)) in
       if app_layout e \<and> ehdr_shoff eh mod al \<noteq> 0 then Some (None, set_error ELF_E_LAYOUT 0 st)
       else
         let shoff = (if app_layout e then ehdr_shoff eh else c_roundup rc al);
             rc = (if sint (shoff + fsz) > sint rc then shoff + fsz else rc);
             (r, st) = insert_extent st extents ELF_EXTENT_SHDR shoff fsz None
         in Some (map_option (\<lambda>extents. (rc, shoff, extents)) r, st) }"

fun set_e_offsets :: "u64 \<Rightarrow> u64 \<Rightarrow> ehdr \<Rightarrow> ehdr" where
  "set_e_offsets phoff shoff (Eh32 h) = Eh32 (h\<lparr>e_phoff32 := ucast phoff, e_shoff32 := ucast shoff\<rparr>)"
| "set_e_offsets phoff shoff (Eh64 h) = Eh64 (h\<lparr>e_phoff := phoff, e_shoff := shoff\<rparr>)"

text \<open>The end of \<open>_libelf_resync_elf\<close>; the results of the two functions for the counts are not looked at.\<close>

definition resync_counts :: "libelf_state \<Rightarrow> nat \<Rightarrow> u64 \<Rightarrow> u64 \<Rightarrow> u64 \<Rightarrow> u64 \<Rightarrow> libelf_state option" where
  "resync_counts st i phnum shnum phoff shoff = do {
     (ok, st) \<leftarrow> libelf_setphnum st i phnum;
     (ok, st) \<leftarrow> libelf_setshnum st i shnum;
     e \<leftarrow> get_elf st i;
     if app_layout e then Some st
     else do { (ok, st) \<leftarrow> ehdr_update st i (set_e_offsets phoff shoff); Some st } }"

text \<open>The size of the object, negative if there was an error.\<close>

definition resync_elf :: "libelf_state \<Rightarrow> nat \<Rightarrow> (u64 \<times> Elf_Extent list \<times> libelf_state) option" where
  "resync_elf st i = do {
     (r, st) \<leftarrow> resync_ehdr st i;
     case r of
       None \<Rightarrow> Some (- 1, [], st)
     | Some (rc, extents) \<Rightarrow> do {
         e \<leftarrow> get_elf st i;
         let shnum = e_nscn e;
         let phnum = e_nphdr e;
         (r, st) \<leftarrow> resync_phdr st i rc extents;
         case r of
           None \<Rightarrow> Some (- 1, extents, st)
         | Some (rc, phoff, extents) \<Rightarrow> do {
             e \<leftarrow> get_elf st i;
             (ok, st) \<leftarrow> (if e_cmd e \<noteq> ELF_C_WRITE \<and> e_flags e AND LIBELF_F_SHDRS_LOADED = 0
                          then libelf_load_section_headers st i else Some (True, st));
             if \<not> ok then Some (- 1, extents, st)
             else do {
               (rc, extents, st) \<leftarrow> resync_sections st i rc extents;
               if sint rc < 0 then Some (- 1, extents, st)
               else do {
                 (r, st) \<leftarrow> resync_shdr st i shnum rc extents;
                 case r of
                   None \<Rightarrow> Some (- 1, extents, st)
                 | Some (rc, shoff, extents) \<Rightarrow> do {
                     st \<leftarrow> resync_counts st i phnum shnum phoff shoff;
                     Some (rc, extents, st) } } } } } }"

section \<open>Writing the parts\<close>

text \<open>\<open>memset\<close> with the fill character, from offset \<open>a\<close> of the new file to \<open>b\<close>, if it is greater.\<close>

definition fill_gap :: "libelf_state \<Rightarrow> ptr \<Rightarrow> u64 \<Rightarrow> u64 \<Rightarrow> libelf_state option" where
  "fill_gap st nf a b =
     (if a < b
      then do {
        h \<leftarrow> mem_write (heap st) (ptr_add nf (unat a)) (replicate (unat (b - a)) (of_int (libelf_fillchar st)));
        Some (st\<lparr>heap := h\<rparr>) }
      else Some st)"

text \<open>
  \<open>_libelf_xlate\<close> from a structure or an array of structures of the library, whose bytes in memory are \<open>bs\<close>, to the
  new file. The structures are values of the descriptor; for the translation they are put into a buffer of their own.
\<close>

definition xlate_struct ::
  "libelf_state \<Rightarrow> Elf \<Rightarrow> Elf_Type \<Rightarrow> bytes option \<Rightarrow> u64 \<Rightarrow> ptr \<Rightarrow> u64 \<Rightarrow> (bool \<times> libelf_state) option" where
  "xlate_struct st e t bs msz db fsz = do {
     m \<leftarrow> libelf_elfmachine (Some e);
     let nb = next_buf st;
     let src = zero_data\<lparr>d_buf := map_option (\<lambda>bs. (nb, 0)) bs, d_size := msz, d_type := t, d_version := e_version e\<rparr>;
     let dst = zero_data\<lparr>d_buf := Some db, d_size := fsz, d_version := e_version e\<rparr>;
     (ok, dst, st) \<leftarrow> libelf_xlate (st\<lparr>heap := (heap st)(nb := bs)\<rparr>) (Some dst) (Some src) False
                       (e_byteorder e) (e_class e) m ELF_TOFILE;
     Some (ok, st\<lparr>heap := (heap st)(nb := None)\<rparr>) }"

text \<open>The loop over the raw data of an unchanged section; \<open>rc\<close> is the offset reached.\<close>

primrec write_raw ::
  "libelf_state \<Rightarrow> Elf \<Rightarrow> Elf_Scn \<Rightarrow> ptr \<Rightarrow> Libelf_Data list \<Rightarrow> u64 \<Rightarrow> (u64 \<times> libelf_state) option" where
  "write_raw st e s nf [] rc = Some (rc, st)"
| "write_raw st e s nf (ld # lds) rc = do {
     let d = d_data ld;
     let pos = s_offset s + d_off d;
     st \<leftarrow> fill_gap st nf rc pos;
     c_assert (d_buf d \<noteq> None);
     c_assert (d_type d = ELF_T_BYTE);
     c_assert (d_version d = e_version e);
     raw \<leftarrow> e_rawfile e;
     h \<leftarrow> mem_copy (heap st) (ptr_add nf (unat pos)) (ptr_add raw (unat (s_rawoff s + d_off d))) (unat (d_size d));
     write_raw (st\<lparr>heap := h\<rparr>) e s nf lds (pos + d_size d) }"

text \<open>The loop over the data descriptors.\<close>

primrec write_data ::
  "libelf_state \<Rightarrow> Elf \<Rightarrow> Elf_Scn \<Rightarrow> ptr \<Rightarrow> Libelf_Data list \<Rightarrow> u64 \<Rightarrow> (u64 \<times> libelf_state) option" where
  "write_data st e s nf [] rc = Some (rc, st)"
| "write_data st e s nf (ld # lds) rc = do {
     let d = d_data ld;
     (msz, st) \<leftarrow> libelf_msize st (d_type d) (e_class e) (e_version e);
     if msz = 0 then Some (- 1, st)
     else do {
       let pos = s_offset s + d_off d;
       st \<leftarrow> fill_gap st nf rc pos;
       c_assert (d_buf d \<noteq> None);
       c_assert (d_version d = e_version e);
       c_assert (d_size d mod msz = 0);
       let (fsz, st) = libelf_fsize st (d_type d) (e_class e) (e_version e) (d_size d div msz);
       m \<leftarrow> libelf_elfmachine (Some e);
       let dst = zero_data\<lparr>d_buf := Some (ptr_add nf (unat pos)), d_size := fsz, d_version := e_version e\<rparr>;
       (ok, dst, st) \<leftarrow> libelf_xlate st (Some dst) (Some d) False (e_byteorder e) (e_class e) m ELF_TOFILE;
       if \<not> ok then Some (- 1, st) else write_data st e s nf lds (pos + fsz) } }"

definition write_scn :: "libelf_state \<Rightarrow> nat \<Rightarrow> ptr \<Rightarrow> Elf_Extent \<Rightarrow> (u64 \<times> libelf_state) option" where
  "write_scn st i nf ex = do {
     c_assert (ex_type ex = ELF_EXTENT_SECTION);
     n \<leftarrow> ex_desc ex;
     e \<leftarrow> get_elf st i;
     s \<leftarrow> e_scns e n;
     let rc = ex_start ex;
     let sht = shdr_type (s_shdr s);
     if sht = SHT_NOBITS \<or> sht = SHT_NULL \<or> shdr_size (s_shdr s) = 0 then Some (rc, st)
     else do {
       let elftype = libelf_xlate_shtype sht;
       c_assert (elf_type_valid elftype);
       c_assert (unat (s_offset s) mod libelf_falign elftype (e_class e) = 0);
       if s_data s = []
       then do {
         (d, st) \<leftarrow> elf_rawdata st (Some (i, n)) None;
         if d = None then Some (- 1, st)
         else do {
           s \<leftarrow> get_scn st i n;
           write_raw st e s nf (s_rawdata s) rc } }
       else write_data st e s nf (s_data s) rc } }"

definition write_ehdr :: "libelf_state \<Rightarrow> nat \<Rightarrow> ptr \<Rightarrow> Elf_Extent \<Rightarrow> (u64 \<times> libelf_state) option" where
  "write_ehdr st i nf ex = do {
     c_assert (ex_type ex = ELF_EXTENT_EHDR);
     c_assert (ex_start ex = 0);
     e \<leftarrow> get_elf st i;
     (ok, st) \<leftarrow> libelf_ehdr st (Some i) (e_class e) False;
     c_assert ok;
     e \<leftarrow> get_elf st i;
     eh \<leftarrow> e_ehdr e;
     let (fsz, st) = libelf_fsize st ELF_T_EHDR (e_class e) (e_version e) 1;
     (msz, st) \<leftarrow> libelf_msize st ELF_T_EHDR (e_class e) (e_version e);
     if msz = 0 then Some (- 1, st)
     else do {
       (ok, st) \<leftarrow> xlate_struct st e ELF_T_EHDR
         (Some (struct_store (host_order st) (e_class e) (Ehdr_DEF (e_class e)) (ehdr_fields eh))) msz nf fsz;
       Some (if ok then fsz else - 1, st) } }"

definition write_phdr :: "libelf_state \<Rightarrow> nat \<Rightarrow> ptr \<Rightarrow> Elf_Extent \<Rightarrow> (u64 \<times> libelf_state) option" where
  "write_phdr st i nf ex = do {
     c_assert (ex_type ex = ELF_EXTENT_PHDR);
     e \<leftarrow> get_elf st i;
     (ok, st) \<leftarrow> libelf_ehdr st (Some i) (e_class e) False;
     c_assert ok;
     e \<leftarrow> get_elf st i;
     eh \<leftarrow> e_ehdr e;
     let phnum = e_nphdr e;
     c_assert (phnum > 0);
     let phoff = ehdr_phoff eh;
     c_assert (phoff > 0);
     c_assert (ex_start ex = phoff);
     c_assert (unat phoff mod libelf_falign ELF_T_PHDR (e_class e) = 0);
     (msz, st) \<leftarrow> libelf_msize st ELF_T_PHDR (e_class e) (e_version e);
     if msz = 0 then Some (- 1, st)
     else do {
       let (fsz, st) = libelf_fsize st ELF_T_PHDR (e_class e) (e_version e) phnum;
       c_assert (fsz > 0);
       (ok, st) \<leftarrow> libelf_getphdr st (Some i) (e_class e);
       e \<leftarrow> get_elf st i;
       (ok, st) \<leftarrow> xlate_struct st e ELF_T_PHDR
         (if ok then map_option (\<lambda>phs. concat (map (struct_store (host_order st) (e_class e) (Phdr_DEF (e_class e)))
            (phdrs_fields phs))) (e_phdr e) else None)
         (phnum * msz) (ptr_add nf (unat (ex_start ex))) fsz;
       Some (if ok then phoff + fsz else - 1, st) } }"

text \<open>The loop over the section headers.\<close>

primrec write_shdrs ::
  "libelf_state \<Rightarrow> Elf \<Rightarrow> ptr \<Rightarrow> u64 \<Rightarrow> u64 \<Rightarrow> u64 \<Rightarrow> nat list \<Rightarrow> (bool \<times> libelf_state) option" where
  "write_shdrs st e nf start msz fsz [] = Some (True, st)"
| "write_shdrs st e nf start msz fsz (n # ns) = do {
     s \<leftarrow> e_scns e n;
     (ok, st) \<leftarrow> xlate_struct st e ELF_T_SHDR
       (Some (struct_store (host_order st) (e_class e) (Shdr_DEF (e_class e)) (shdr_fields (s_shdr s)))) msz
       (ptr_add nf (unat start + s_ndx s * unat fsz)) fsz;
     if \<not> ok then Some (False, st) else write_shdrs st e nf start msz fsz ns }"

definition write_shdr :: "libelf_state \<Rightarrow> nat \<Rightarrow> ptr \<Rightarrow> Elf_Extent \<Rightarrow> (u64 \<times> libelf_state) option" where
  "write_shdr st i nf ex = do {
     c_assert (ex_type ex = ELF_EXTENT_SHDR);
     e \<leftarrow> get_elf st i;
     (ok, st) \<leftarrow> libelf_ehdr st (Some i) (e_class e) False;
     c_assert ok;
     e \<leftarrow> get_elf st i;
     eh \<leftarrow> e_ehdr e;
     let nscn = e_nscn e;
     let shoff = ehdr_shoff eh;
     c_assert (nscn > 0);
     c_assert (unat shoff mod libelf_falign ELF_T_SHDR (e_class e) = 0);
     c_assert (ex_start ex = shoff);
     (msz, st) \<leftarrow> libelf_msize st ELF_T_SHDR (e_class e) (e_version e);
     if msz = 0 then Some (- 1, st)
     else do {
       let (fsz, st) = libelf_fsize st ELF_T_SHDR (e_class e) (e_version e) 1;
       (ok, st) \<leftarrow> write_shdrs st e nf (ex_start ex) msz fsz (inorder (e_scn e));
       Some (if ok then ex_start ex + nscn * fsz else - 1, st) } }"

section \<open>Writing the file\<close>

definition write_extent :: "libelf_state \<Rightarrow> nat \<Rightarrow> ptr \<Rightarrow> Elf_Extent \<Rightarrow> (u64 \<times> libelf_state) option" where
  "write_extent st i nf ex =
     (case ex_type ex of
        ELF_EXTENT_EHDR \<Rightarrow> write_ehdr st i nf ex
      | ELF_EXTENT_PHDR \<Rightarrow> write_phdr st i nf ex
      | ELF_EXTENT_SECTION \<Rightarrow> write_scn st i nf ex
      | ELF_EXTENT_SHDR \<Rightarrow> write_shdr st i nf ex)"

text \<open>The loop over the extents. The result is the offset reached, \<open>None\<close> for the jump to the error label.\<close>

primrec write_extents ::
  "libelf_state \<Rightarrow> nat \<Rightarrow> ptr \<Rightarrow> Elf_Extent list \<Rightarrow> u64 \<Rightarrow> (u64 option \<times> libelf_state) option" where
  "write_extents st i nf [] rc = Some (Some rc, st)"
| "write_extents st i nf (ex # exs) rc = do {
     st \<leftarrow> fill_gap st nf rc (ex_start ex);
     (nrc, st) \<leftarrow> write_extent st i nf ex;
     if sint nrc < 0 then Some (None, st)
     else do {
       c_assert (ex_start ex + ex_size ex = nrc);
       c_assert (sint rc < sint nrc);
       write_extents st i nf exs nrc } }"

text \<open>
  The system calls of the output; an error number means failure. \<open>write\<close> gives the number of bytes written.
\<close>

record os_out = os +
  os_ftruncate :: "int \<Rightarrow> u32 option"
  os_lseek :: "int \<Rightarrow> u32 option"
  os_munmap :: "u32 option"
  os_write :: "int \<Rightarrow> bytes \<Rightarrow> u32 + nat"

text \<open>The old contents of a regular file are given up. A pointer to unmapped memory stays in the descriptor.\<close>

definition drop_contents :: "os_out \<Rightarrow> libelf_state \<Rightarrow> nat \<Rightarrow> (bool \<times> libelf_state) option" where
  "drop_contents os st i = do {
     e \<leftarrow> get_elf st i;
     if e_flags e AND LIBELF_F_SPECIAL_FILE \<noteq> 0 then Some (True, st)
     else case os_ftruncate os (e_fd e) of
       Some err \<Rightarrow> Some (False, set_error ELF_E_IO err st)
     | None \<Rightarrow>
         case os_lseek os (e_fd e) of
           Some err \<Rightarrow> Some (False, set_error ELF_E_IO err st)
         | None \<Rightarrow>
             if e_flags e AND LIBELF_F_RAWFILE_MMAP = 0 then Some (True, st)
             else do {
               c_assert (e_rawfile e \<noteq> None);
               c_assert (e_cmd e = ELF_C_RDWR);
               Some (case os_munmap os of
                   Some err \<Rightarrow> (False, set_error ELF_E_IO err st)
                 | None \<Rightarrow> (True, c_free st (e_rawfile e))) } }"

text \<open>
  The new contents of a descriptor that was opened for reading and writing: the buffer, or a new mapping. The last
  component says whether the buffer still is to be freed. \<open>MAP_FAILED\<close> is the old pointer, which leads nowhere.
\<close>

definition new_contents ::
  "os_out \<Rightarrow> libelf_state \<Rightarrow> nat \<Rightarrow> ptr \<Rightarrow> u64 \<Rightarrow> (bool \<times> libelf_state \<times> bool) option" where
  "new_contents os st i nf newsize = do {
     e \<leftarrow> get_elf st i;
     if e_cmd e \<noteq> ELF_C_RDWR then do { c_assert (e_rawfile e = None); Some (True, st, True) }
     else do {
       c_assert (e_rawfile e \<noteq> None);
       c_assert (e_flags e AND LIBELF_F_RAWFILE_MALLOC \<noteq> 0 \<or> e_flags e AND LIBELF_F_RAWFILE_MMAP \<noteq> 0);
       if e_flags e AND LIBELF_F_RAWFILE_MALLOC \<noteq> 0
       then do {
         c_assert (e_flags e AND LIBELF_F_RAWFILE_MMAP = 0);
         Some (True, put_elf i (e\<lparr>e_rawfile := Some nf, e_rawsize := newsize\<rparr>) (c_free st (e_rawfile e)), False) }
       else case os_mmap os (e_fd e) newsize of
         None \<Rightarrow> Some (False, set_error ELF_E_IO (os_errno os) st, True)
       | Some bs \<Rightarrow>
           let (p, st) = new_buffer st bs
           in Some (True, put_elf i (e\<lparr>e_rawfile := Some p, e_rawsize := newsize\<rparr>) st, True) } }"

text \<open>The flags, the sections and the headers of the descriptor are reset.\<close>

definition reset_descriptor :: "libelf_state \<Rightarrow> nat \<Rightarrow> libelf_state option" where
  "reset_descriptor st i = do {
     e \<leftarrow> get_elf st i;
     let st = put_elf i (e\<lparr>e_flags := e_flags e AND NOT ELF_F_DIRTY\<rparr>) st;
     st \<leftarrow> release_scns st i (RB_MIN (e_scn e));
     e \<leftarrow> get_elf st i;
     Some (put_elf i (e\<lparr>e_ehdr := None, e_phdr := None\<rparr>) st) }"

text \<open>
  What follows the loop over the extents. The second result is what was handed to \<open>write\<close>.
\<close>

definition write_file ::
  "os_out \<Rightarrow> libelf_state \<Rightarrow> nat \<Rightarrow> ptr \<Rightarrow> u64 \<Rightarrow> (u64 \<times> bytes option \<times> libelf_state) option" where
  "write_file os st i nf newsize = do {
     (ok, st) \<leftarrow> drop_contents os st i;
     if \<not> ok then Some (- 1, None, c_free st (Some nf))
     else do {
       e \<leftarrow> get_elf st i;
       bs \<leftarrow> mem_read (heap st) nf (unat newsize);
       case os_write os (e_fd e) bs of
         Inl err \<Rightarrow> Some (- 1, Some bs, c_free (set_error ELF_E_IO err st) (Some nf))
       | Inr k \<Rightarrow>
           if k \<noteq> unat newsize then Some (- 1, Some bs, c_free (set_error ELF_E_IO (os_errno os) st) (Some nf))
           else do {
             (ok, st, tmp) \<leftarrow> new_contents os st i nf newsize;
             if \<not> ok then Some (- 1, Some bs, c_free st (Some nf))
             else do {
               st \<leftarrow> reset_descriptor st i;
               Some (newsize, Some bs, (if tmp then c_free st (Some nf) else st)) } } } }"

definition write_elf ::
  "os_out \<Rightarrow> libelf_state \<Rightarrow> nat \<Rightarrow> u64 \<Rightarrow> Elf_Extent list \<Rightarrow> (u64 \<times> bytes option \<times> libelf_state) option" where
  "write_elf os st i newsize extents = do {
     e \<leftarrow> get_elf st i;
     c_assert (e_kind e = ELF_K_ELF);
     c_assert (e_cmd e = ELF_C_RDWR \<or> e_cmd e = ELF_C_WRITE);
     c_assert (0 \<le> e_fd e);
     let (p, st) = c_malloc st (unat newsize);
     case p of
       None \<Rightarrow> Some (- 1, None, set_error ELF_E_RESOURCE ENOMEM st)
     | Some nf \<Rightarrow> do {
         (rc, st) \<leftarrow> write_extents st i nf extents 0;
         case rc of
           None \<Rightarrow> Some (- 1, None, c_free st (Some nf))
         | Some rc \<Rightarrow> do {
             c_assert (rc = newsize);
             write_file os st i nf newsize } } }"

section \<open>\<open>elf_update\<close>\<close>

text \<open>The size of the object, or -1; what was handed to \<open>write\<close>; the new state.\<close>

definition elf_update ::
  "os_out \<Rightarrow> libelf_state \<Rightarrow> nat option \<Rightarrow> Elf_Cmd \<Rightarrow> (u64 \<times> bytes option \<times> libelf_state) option" where
  "elf_update os st e c =
     (case e of
        None \<Rightarrow> Some (- 1, None, set_error ELF_E_ARGUMENT 0 st)
      | Some i \<Rightarrow> do {
          e \<leftarrow> get_elf st i;
          if e_kind e \<noteq> ELF_K_ELF \<or> (c \<noteq> ELF_C_NULL \<and> c \<noteq> ELF_C_WRITE)
          then Some (- 1, None, set_error ELF_E_ARGUMENT 0 st)
          else if e_class e \<noteq> ELFCLASS32 \<and> e_class e \<noteq> ELFCLASS64
          then Some (- 1, None, set_error ELF_E_CLASS 0 st)
          else do {
            let st = (if e_version e = EV_NONE then put_elf i (e\<lparr>e_version := EV_CURRENT\<rparr>) st else st);
            if c = ELF_C_WRITE \<and> e_cmd e = ELF_C_READ then Some (- 1, None, set_error ELF_E_MODE 0 st)
            else do {
              (rc, extents, st) \<leftarrow> resync_elf st i;
              (rc, out, st) \<leftarrow>
                (if sint rc < 0 \<or> c = ELF_C_NULL then Some (rc, None, st)
                 else if e_fd e < 0 then Some (- 1, None, set_error ELF_E_SEQUENCE 0 st)
                 else write_elf os st i rc extents);
              e \<leftarrow> get_elf st i;
              Some (rc, out, put_elf i (e\<lparr>e_flags := e_flags e AND NOT LIBELF_F_SHDRS_LOADED\<rparr>) st) } } })"

end
