(* ===== verification/Update_Layout.thy ===== *)
theory Update_Layout
  imports Elf_Update "HOL-Library.Multiset"
begin

text \<open>
  What the first half of \<open>elf_update\<close> computes: the extent list stays sorted and free of overlaps, and the places the
  library chooses are those of a layout in natural numbers.
\<close>

section \<open>The extent list\<close>

definition ex_end :: "Elf_Extent \<Rightarrow> nat" where
  "ex_end t = unat (ex_start t) + unat (ex_size t)"

text \<open>Extents in the order of the file that do not overlap and do not reach behind the largest offset.\<close>

definition extents_ok :: "Elf_Extent list \<Rightarrow> bool" where
  "extents_ok exs \<longleftrightarrow> sorted_wrt (\<lambda>s t. ex_end s \<le> unat (ex_start t)) exs \<and> (\<forall>t\<in>set exs. ex_end t < 2 ^ 64)"

definition is_free :: "Elf_Extent list \<Rightarrow> u64 \<Rightarrow> u64 \<Rightarrow> bool" where
  "is_free exs start sz \<longleftrightarrow> (\<forall>t\<in>set exs. ex_end t \<le> unat start \<or> unat start + unat sz \<le> unat (ex_start t))"

lemma unat_add_small: "unat (x :: u64) + unat y < 2 ^ 64 \<Longrightarrow> unat (x + y) = unat x + unat y"
  by (simp add: unat_word_ariths)

lemma word_of_unat: "unat (w :: u64) = n \<Longrightarrow> w = of_nat n"
  by auto

lemma extent_is_unused_free:
  assumes "extents_ok exs" "unat start + unat sz < 2 ^ 64"
  shows "is_free exs start sz \<Longrightarrow> \<exists>k\<le>length exs. extent_is_unused exs start sz = Some k
      \<and> (\<forall>t\<in>set (take k exs). ex_end t \<le> unat start) \<and> (\<forall>t\<in>set (drop k exs). unat start + unat sz \<le> unat (ex_start t))"
    "\<not> is_free exs start sz \<Longrightarrow> extent_is_unused exs start sz = None"
proof -
  have "if is_free exs start sz
      then \<exists>k\<le>length exs. extent_is_unused exs start sz = Some k
        \<and> (\<forall>t\<in>set (take k exs). ex_end t \<le> unat start) \<and> (\<forall>t\<in>set (drop k exs). unat start + unat sz \<le> unat (ex_start t))
      else extent_is_unused exs start sz = None"
    using assms
  proof (induction exs)
    case Nil
    then show ?case by (simp add: is_free_def)
  next
    case (Cons t ts)
    have ok: "extents_ok ts" "ex_end t < 2 ^ 64" "\<forall>u\<in>set ts. ex_end t \<le> unat (ex_start u)"
      using Cons.prems(1) by (auto simp: extents_ok_def)
    have e: "unat (ex_start t + ex_size t) = ex_end t" "unat (start + sz) = unat start + unat sz"
      using ok(2) Cons.prems(2) by (simp_all add: unat_add_small ex_end_def)
    consider (before) "ex_end t \<le> unat start" | (after) "\<not> ex_end t \<le> unat start" "unat start + unat sz \<le> unat (ex_start t)"
      | (overlap) "\<not> ex_end t \<le> unat start" "\<not> unat start + unat sz \<le> unat (ex_start t)" by blast
    then show ?case
    proof cases
      case before
      have u: "extent_is_unused (t # ts) start sz = map_option Suc (extent_is_unused ts start sz)"
        using before e by (simp add: word_le_nat_alt)
      have f: "is_free (t # ts) start sz = is_free ts start sz" using before by (simp add: is_free_def)
      show ?thesis
      proof (cases "is_free ts start sz")
        case True
        then obtain k where "k \<le> length ts" "extent_is_unused ts start sz = Some k"
          "\<forall>t\<in>set (take k ts). ex_end t \<le> unat start" "\<forall>t\<in>set (drop k ts). unat start + unat sz \<le> unat (ex_start t)"
          using Cons.IH[OF ok(1) Cons.prems(2)] by auto
        then show ?thesis unfolding f u using True before by (auto intro!: exI[of _ "Suc k"])
      next
        case False
        then show ?thesis unfolding f u using Cons.IH[OF ok(1) Cons.prems(2)] by simp
      qed
    next
      case after
      have le: "unat start + unat sz \<le> unat (ex_start u)" if "u \<in> set (t # ts)" for u
        using that after(2) ok(3) by (force simp: ex_end_def)
      then have "is_free (t # ts) start sz" by (auto simp: is_free_def)
      moreover have "extent_is_unused (t # ts) start sz = Some 0" using after e by (simp add: word_le_nat_alt)
      ultimately show ?thesis using le by simp
    next
      case overlap
      then show ?thesis using e by (simp add: is_free_def word_le_nat_alt)
    qed
  qed
  then show "is_free exs start sz \<Longrightarrow> \<exists>k\<le>length exs. extent_is_unused exs start sz = Some k
      \<and> (\<forall>t\<in>set (take k exs). ex_end t \<le> unat start) \<and> (\<forall>t\<in>set (drop k exs). unat start + unat sz \<le> unat (ex_start t))"
    "\<not> is_free exs start sz \<Longrightarrow> extent_is_unused exs start sz = None" by simp_all
qed

lemma insert_extent_cases:
  assumes ok: "extents_ok exs" and sz: "unat start + unat sz < 2 ^ 64"
  obtains (overlap) "\<not> is_free exs start sz" "insert_extent st exs ty start sz d = (None, set_error ELF_E_LAYOUT 0 st)"
  | (memory) "is_free exs start sz" "\<not> fst (c_alloc st)"
      "insert_extent st exs ty start sz d = (None, set_error ELF_E_RESOURCE ENOMEM (snd (c_alloc st)))"
  | (inserted) exs' where "is_free exs start sz" "fst (c_alloc st)"
      "insert_extent st exs ty start sz d = (Some exs', snd (c_alloc st))" "extents_ok exs'"
      "mset exs' = add_mset \<lparr>ex_start = start, ex_size = sz, ex_type = ty, ex_desc = d\<rparr> (mset exs)"
proof (cases "is_free exs start sz")
  case False
  then show thesis using extent_is_unused_free(2)[OF ok sz] by (intro overlap) (simp_all add: insert_extent_def)
next
  case True
  then obtain k where k: "k \<le> length exs" "extent_is_unused exs start sz = Some k"
    "\<forall>t\<in>set (take k exs). ex_end t \<le> unat start" "\<forall>t\<in>set (drop k exs). unat start + unat sz \<le> unat (ex_start t)"
    using extent_is_unused_free(1)[OF ok sz True] by blast
  let ?x = "\<lparr>ex_start = start, ex_size = sz, ex_type = ty, ex_desc = d\<rparr>"
  let ?exs = "take k exs @ ?x # drop k exs"
  show thesis
  proof (cases "fst (c_alloc st)")
    case False
    then show thesis using k(2) True by (intro memory) (simp_all add: insert_extent_def case_prod_unfold Let_def)
  next
    case a: True
    have "sorted_wrt (\<lambda>s t. ex_end s \<le> unat (ex_start t)) (take k exs @ drop k exs)"
      using ok by (simp add: extents_ok_def)
    moreover have "ex_end x \<le> unat (ex_start y)" if "x \<in> set (take k exs)" "y \<in> set (drop k exs)" for x y
      using bspec[OF k(3) that(1)] bspec[OF k(4) that(2)] by linarith
    ultimately have "extents_ok ?exs" using ok sz k(3,4)
      by (auto simp: extents_ok_def sorted_wrt_append ex_end_def dest: in_set_takeD in_set_dropD)
    moreover have "mset ?exs = add_mset ?x (mset (take k exs @ drop k exs))" by (simp only: mset.simps mset_append union_mset_add_mset_right)
    ultimately show thesis using k(2) True a
      by (intro inserted[of ?exs]) (simp_all add: insert_extent_def case_prod_unfold Let_def)
  qed
qed

text \<open>
  C19. Inserting into the extent list is exact. On extents in the order of the file that do not overlap, a new range is
  accepted precisely if it overlaps none of them and the allocation succeeds; the new list holds the extent and the old
  ones, in order and without overlaps. A range that is not free is refused with \<open>ELF_E_LAYOUT\<close> before any allocation, a failed
  allocation with \<open>ELF_E_RESOURCE\<close> and \<open>ENOMEM\<close>. The range may not wrap around.
\<close>

theorem insert_extent_exact:
  assumes "extents_ok exs" "unat start + unat sz < 2 ^ 64"
  shows "if is_free exs start sz \<and> fst (c_alloc st)
    then \<exists>exs'. insert_extent st exs ty start sz d = (Some exs', snd (c_alloc st)) \<and> extents_ok exs'
      \<and> mset exs' = add_mset \<lparr>ex_start = start, ex_size = sz, ex_type = ty, ex_desc = d\<rparr> (mset exs)
    else insert_extent st exs ty start sz d =
      (None, if is_free exs start sz then set_error ELF_E_RESOURCE ENOMEM (snd (c_alloc st)) else set_error ELF_E_LAYOUT 0 st)"
  by (rule insert_extent_cases[OF assms, of st ty d]) simp_all

theorem insert_extent_exact_witness:
  "insert_extent (sample_state []) [\<lparr>ex_start = 0, ex_size = 64, ex_type = ELF_EXTENT_EHDR, ex_desc = None\<rparr>]
     ELF_EXTENT_SECTION 63 8 (Some 1) = (None, set_error ELF_E_LAYOUT 0 (sample_state []))
   \<and> (\<exists>exs'. fst (insert_extent (sample_state []) [\<lparr>ex_start = 0, ex_size = 64, ex_type = ELF_EXTENT_EHDR, ex_desc = None\<rparr>]
     ELF_EXTENT_SECTION 64 8 (Some 1)) = Some exs' \<and> size (mset exs') = 2)"
proof -
  let ?exs = "[\<lparr>ex_start = 0, ex_size = 64, ex_type = ELF_EXTENT_EHDR, ex_desc = None\<rparr>]"
  have e: "extents_ok ?exs" "unat (63 :: u64) + unat (8 :: u64) < 2 ^ 64" "unat (64 :: u64) + unat (8 :: u64) < 2 ^ 64"
    "\<not> is_free ?exs 63 8" "is_free ?exs 64 8 \<and> fst (c_alloc (sample_state []))"
    by (simp_all add: extents_ok_def ex_end_def is_free_def c_alloc_def sample_state_def)
  have "insert_extent (sample_state []) ?exs ELF_EXTENT_SECTION 63 8 (Some 1) = (None, set_error ELF_E_LAYOUT 0 (sample_state []))"
    using insert_extent_exact[OF e(1,2), of "sample_state []" ELF_EXTENT_SECTION "Some 1"] e(4) by (simp only: if_False simp_thms)
  moreover obtain exs' where x: "insert_extent (sample_state []) ?exs ELF_EXTENT_SECTION 64 8 (Some 1) = (Some exs', snd (c_alloc (sample_state [])))"
    "mset exs' = add_mset \<lparr>ex_start = 64, ex_size = 8, ex_type = ELF_EXTENT_SECTION, ex_desc = Some 1\<rparr> (mset ?exs)"
    using insert_extent_exact[OF e(1,3), of "sample_state []" ELF_EXTENT_SECTION "Some 1"] unfolding if_P[OF e(5)] by blast
  have "size (mset exs') = 2" unfolding x(2) by simp
  ultimately show ?thesis using x(1) by (simp del: size_mset)
qed

section \<open>The layout in natural numbers\<close>

definition data_fsz :: "int \<Rightarrow> Elf_Data \<Rightarrow> nat" where
  "data_fsz ec d = fsize_table ec (d_type d) * (unat (d_size d) div msize_table ec (d_type d))"

text \<open>The data of a section from offset \<open>x\<close> of the section on: the end, and the descriptors with their offsets.\<close>

primrec data_end :: "int \<Rightarrow> Libelf_Data list \<Rightarrow> nat \<Rightarrow> nat" where
  "data_end ec [] x = x"
| "data_end ec (ld # lds) x = data_end ec lds (align_up (unat (d_align (d_data ld))) x + data_fsz ec (d_data ld))"

primrec data_places :: "int \<Rightarrow> Libelf_Data list \<Rightarrow> nat \<Rightarrow> Libelf_Data list" where
  "data_places ec [] x = []"
| "data_places ec (ld # lds) x =
     (let off = align_up (unat (d_align (d_data ld))) x
      in ld\<lparr>d_data := (d_data ld)\<lparr>d_off := of_nat off\<rparr>\<rparr> # data_places ec lds (off + data_fsz ec (d_data ld)))"

definition data_valid :: "int \<Rightarrow> Elf_Data \<Rightarrow> bool" where
  "data_valid ec d \<longleftrightarrow> elf_type_valid (d_type d) \<and> d_version d = EV_CURRENT \<and> d_align d \<noteq> 0 \<and> d_align d AND (d_align d - 1) = 0
     \<and> 0 < msize_table ec (d_type d) \<and> unat (d_size d) mod msize_table ec (d_type d) = 0"

text \<open>A section whose place \<open>elf_update\<close> can compute: it accepts the type and all data descriptors.\<close>

definition scn_valid :: "int \<Rightarrow> Elf_Scn \<Rightarrow> bool" where
  "scn_valid ec s \<longleftrightarrow> elf_type_valid (libelf_xlate_shtype (shdr_type (s_shdr s)))
     \<and> (keeps_size s \<or> (\<forall>ld\<in>set (s_data s). data_valid ec (d_data ld)))"

text \<open>The alignment of the type of a section in the file, 1 if the type is not known.\<close>

definition scn_falign :: "int \<Rightarrow> Elf_Scn \<Rightarrow> nat" where
  "scn_falign ec s = max 1 (libelf_falign (libelf_xlate_shtype (shdr_type (s_shdr s))) ec)"

definition scn_align :: "int \<Rightarrow> Elf_Scn \<Rightarrow> nat" where
  "scn_align ec s = Max (set ((if shdr_align (s_shdr s) = 0 then scn_falign ec s else unat (shdr_align (s_shdr s)))
     # (if keeps_size s then [] else map (\<lambda>ld. unat (d_align (d_data ld))) (s_data s))))"

definition scn_bytes :: "int \<Rightarrow> Elf_Scn \<Rightarrow> nat" where
  "scn_bytes ec s = (if keeps_size s then unat (shdr_size (s_shdr s)) else data_end ec (s_data s) 0)"

definition in_file :: "Elf_Scn \<Rightarrow> bool" where
  "in_file s \<longleftrightarrow> shdr_type (s_shdr s) \<noteq> SHT_NOBITS \<and> shdr_type (s_shdr s) \<noteq> SHT_NULL"

definition scn_end :: "int \<Rightarrow> Elf_Scn \<Rightarrow> nat \<Rightarrow> nat" where
  "scn_end ec s x = (if in_file s \<and> scn_bytes ec s \<noteq> 0 then align_up (scn_align ec s) x + scn_bytes ec s else x)"

text \<open>
  Where a section starts behind offset \<open>x\<close>: at the next multiple of its alignment. (Only for an empty section, whose place
  takes no room, may an alignment near \<open>2 ^ 64\<close> leave none; it is then 0.)
\<close>

definition scn_start :: "int \<Rightarrow> Elf_Scn \<Rightarrow> nat \<Rightarrow> nat" where
  "scn_start ec s x = (if x + (scn_align ec s - 1) < 2 ^ 64 then align_up (scn_align ec s) x else 0)"

text \<open>The size of the entries: what the header states, or that of the type; a section of bytes has none.\<close>

definition scn_entsize :: "int \<Rightarrow> Elf_Scn \<Rightarrow> nat" where
  "scn_entsize ec s = (if keeps_size s \<or> shdr_entsize (s_shdr s) \<noteq> 0 then unat (shdr_entsize (s_shdr s))
     else if fsize_table ec (libelf_xlate_shtype (shdr_type (s_shdr s))) = 1 then 0
     else fsize_table ec (libelf_xlate_shtype (shdr_type (s_shdr s))))"

text \<open>A section header with its alignment, entry size, offset and size in place.\<close>

definition place_shdr :: "nat \<Rightarrow> nat \<Rightarrow> nat \<Rightarrow> nat \<Rightarrow> shdr \<Rightarrow> shdr" where
  "place_shdr al ent off sz sh =
     (case sh of
        Sh32 h \<Rightarrow> Sh32 (h\<lparr>sh_offset32 := of_nat off, sh_size32 := of_nat sz, sh_addralign32 := of_nat al, sh_entsize32 := of_nat ent\<rparr>)
      | Sh64 h \<Rightarrow> Sh64 (h\<lparr>sh_offset := of_nat off, sh_size := of_nat sz, sh_addralign := of_nat al, sh_entsize := of_nat ent\<rparr>))"

definition place_scn :: "int \<Rightarrow> Elf_Scn \<Rightarrow> nat \<Rightarrow> Elf_Scn" where
  "place_scn ec s x =
     s\<lparr>s_shdr := place_shdr (scn_align ec s) (scn_entsize ec s) (scn_start ec s x) (scn_bytes ec s) (s_shdr s),
       s_data := (if keeps_size s then s_data s else data_places ec (s_data s) 0),
       s_size := of_nat (scn_bytes ec s), s_offset := of_nat (scn_start ec s x)\<rparr>"

text \<open>The sections \<open>ns\<close> one behind the other from offset \<open>x\<close> on. Those that take no room in the file are left as they are.\<close>

primrec placed_scns :: "int \<Rightarrow> (nat \<Rightarrow> Elf_Scn option) \<Rightarrow> nat list \<Rightarrow> nat \<Rightarrow> nat \<Rightarrow> Elf_Scn option" where
  "placed_scns ec S [] x = S"
| "placed_scns ec S (n # ns) x =
     (let s = the (S n)
      in placed_scns ec (if in_file s then S(n \<mapsto> place_scn ec s x) else S) ns (scn_end ec s x))"

definition scns_end :: "int \<Rightarrow> Elf_Scn list \<Rightarrow> nat \<Rightarrow> nat" where
  "scns_end ec ss x = foldl (\<lambda>x s. scn_end ec s x) x ss"

section \<open>Steps that change nothing but the error number and the count of allocations\<close>

definition quiet :: "libelf_state \<Rightarrow> libelf_state \<Rightarrow> bool" where
  "quiet st st' \<longleftrightarrow> st' = st\<lparr>libelf_error := libelf_error st', mallocs := mallocs st'\<rparr>"

lemma quiet_refl [simp]: "quiet st st"
  by (simp add: quiet_def)

lemma quiet_error [simp]: "quiet st0 (set_error er os st) = quiet st0 st"
  by (cases st0; cases st) (simp add: quiet_def set_error_def)

lemma quiet_alloc [simp]: "quiet st0 (snd (c_alloc st)) = quiet st0 st"
  by (cases st0; cases st) (simp add: quiet_def c_alloc_def)

lemma quiet_put: "quiet st st' \<Longrightarrow> quiet (put_elf i e st) (put_elf i e st')"
  by (cases st; cases st') (simp add: quiet_def put_elf_def)

lemma quiet_trans: "quiet st st1 \<Longrightarrow> quiet st1 st2 \<Longrightarrow> quiet st st2"
  by (cases st; cases st1; cases st2) (simp add: quiet_def)

lemma quiet_fields:
  assumes "quiet st st'"
  shows "get_elf st' i = get_elf st i" "heap st' = heap st" "next_buf st' = next_buf st" "next_elf st' = next_elf st"
    "libelf_byteorder st' = libelf_byteorder st" "libelf_version st' = libelf_version st"
    "libelf_fillchar st' = libelf_fillchar st" "host_order st' = host_order st" "malloc_ok st' = malloc_ok st"
  using assms by (cases st; cases st'; simp add: quiet_def get_elf_def host_order_def)+

lemma quiet_put_put: "quiet (put_elf i e st) st' \<Longrightarrow> quiet (put_elf i e' st) (put_elf i e' st')"
  by (cases st; cases st') (simp add: quiet_def put_elf_def)

lemma quiet_fsize: "libelf_fsize st t ec v c = (z, st') \<Longrightarrow> quiet st st'"
  by (auto simp: libelf_fsize_def Let_def split: if_splits)

lemma quiet_msize: "libelf_msize st t ec v = Some (z, st') \<Longrightarrow> quiet st st'"
  by (auto simp: libelf_msize_def Let_def bind_Some_iff split: if_splits)

lemma msize_valid:
  assumes "elf_type_valid t" "ec = ELFCLASS32 \<or> ec = ELFCLASS64"
  shows "libelf_msize st t ec EV_CURRENT = Some (of_nat (msize_table ec t),
    if msize_table ec t = 0 then set_error ELF_E_UNIMPL 0 st else st)"
  using assms by (auto simp: libelf_msize_def Let_def of_nat_64_zero[OF msize_le_64])

lemma fsize_count:
  assumes "elf_type_valid t" "ec = ELFCLASS32 \<or> ec = ELFCLASS64" "0 < fsize_table ec t"
    "fsize_table ec t * unat c < 2 ^ 64"
  obtains z where "libelf_fsize st t ec EV_CURRENT c = (z, st)" "unat z = fsize_table ec t * unat c"
proof -
  have "(of_nat (fsize_table ec t) :: u64) \<noteq> 0" using assms(3) of_nat_64_zero[OF fsize_le_64, of ec t] by simp
  moreover have "(if ec = ELFCLASS64 then ELFCLASS64 else ELFCLASS32) = ec" using assms(2) by auto
  ultimately have "libelf_fsize st t ec EV_CURRENT c = (of_nat (fsize_table ec t) * c, st)"
    using assms(1) by (simp add: libelf_fsize_def Let_def)
  moreover have "unat (of_nat (fsize_table ec t) * c) = fsize_table ec t * unat c"
    using assms(4) by (simp add: unat_word_ariths unat_of_nat_64[OF fsize_le_64])
  ultimately show thesis by (rule that)
qed

lemma align_up_bounds: "0 < al \<Longrightarrow> x \<le> align_up al x" "0 < al \<Longrightarrow> align_up al x < x + al"
    "0 < al \<Longrightarrow> 0 < x \<Longrightarrow> al \<le> align_up al x" "align_up al 0 = 0" "al dvd align_up al x"
proof -
  show "0 < al \<Longrightarrow> x \<le> align_up al x" "0 < al \<Longrightarrow> align_up al x < x + al"
    using nat_roundup_props[of al x] by (simp_all add: align_up_def)
  show "align_up al 0 = 0" by (cases al) (simp_all add: align_up_def)
  show "al dvd align_up al x" by (simp add: align_up_def)
  assume a: "0 < al" "0 < x"
  then have "1 \<le> (x + (al - 1)) div al" by (simp add: div_greater_zero_iff Suc_leI)
  then have "1 * al \<le> ((x + (al - 1)) div al) * al" by (rule mult_le_mono1)
  then show "al \<le> align_up al x" unfolding align_up_def by (simp only: mult_1)
qed

lemma c_roundup_nat:
  assumes "align_up (unat al) x < 2 ^ 63" "al \<noteq> 0" "x < 2 ^ 63"
  shows "unat (c_roundup (of_nat x) al) = align_up (unat al) x"
proof -
  have x: "unat (of_nat x :: u64) = x" using assms(3) by (simp add: unat_of_nat)
  have al: "0 < unat al" using assms(2) by (simp add: unat_gt_0)
  have "x + (unat al - 1) < 2 ^ 64"
  proof (cases "x = 0")
    case True
    then show ?thesis using unat_lt2p[of al] by simp
  next
    case False
    then show ?thesis using align_up_bounds(3)[OF al, of x] assms by simp
  qed
  then show ?thesis using unat_c_roundup[OF al, of "of_nat x"] x by (simp add: align_up_def)
qed

text \<open>No allocation fails.\<close>

definition never_fails :: "libelf_state \<Rightarrow> bool" where
  "never_fails st \<longleftrightarrow> (\<forall>k. malloc_ok st k)"

lemma never_fails_alloc: "never_fails st \<Longrightarrow> fst (c_alloc st)"
  by (simp add: never_fails_def c_alloc_def)

lemma quiet_never_fails: "quiet st st' \<Longrightarrow> never_fails st' = never_fails st"
  by (simp add: never_fails_def quiet_fields)

lemma put_never_fails [simp]: "never_fails (put_elf i e st) = never_fails st"
  by (simp add: never_fails_def put_elf_def)

section \<open>The data of a section\<close>

definition lib_layout :: "Elf \<Rightarrow> bool" where
  "lib_layout e \<longleftrightarrow> \<not> app_layout e \<and> e_version e = EV_CURRENT \<and> e_kind e = ELF_K_ELF
     \<and> (e_class e = ELFCLASS32 \<or> e_class e = ELFCLASS64)"

lemma data_extent_cases:
  assumes e: "lib_layout e"
    and x: "align_up (unat (d_align d)) x + data_fsz (e_class e) d < 2 ^ 63" "x < 2 ^ 63"
  obtains (bad) st' where "data_extent st e d (of_nat x) al = Some (None, st')" "quiet st st'" "\<not> data_valid (e_class e) d"
  | (good) off where "off = align_up (unat (d_align d)) x" "data_valid (e_class e) d"
      "data_extent st e d (of_nat x) al
         = Some (Some (d\<lparr>d_off := of_nat off\<rparr>, of_nat (off + data_fsz (e_class e) d), if d_align d > al then d_align d else al), st)"
proof (cases "elf_type_valid (d_type d) \<and> d_version d = EV_CURRENT \<and> d_align d \<noteq> 0 \<and> d_align d AND (d_align d - 1) = 0
    \<and> msize_table (e_class e) (d_type d) \<noteq> 0 \<and> d_size d mod of_nat (msize_table (e_class e) (d_type d)) = 0")
  case False
  have "\<exists>st'. data_extent st e d (of_nat x) al = Some (None, st') \<and> quiet st st'"
  proof (cases "elf_type_valid (d_type d)")
    case True
    then show ?thesis
      using False e msize_valid[OF True, of "e_class e" st]
      by (auto simp: data_extent_def lib_layout_def of_nat_64_zero[OF msize_le_64])
  qed (simp add: data_extent_def)
  moreover have "\<not> data_valid (e_class e) d"
  proof
    assume v: "data_valid (e_class e) d"
    have "unat (d_size d mod of_nat (msize_table (e_class e) (d_type d))) = 0"
      using v unfolding unat_mod unat_of_nat_64[OF msize_le_64] by (simp add: data_valid_def)
    then show False using False v by (simp add: data_valid_def unat_eq_0)
  qed
  ultimately show thesis using bad by blast
next
  case True
  let ?t = "d_type d" and ?ec = "e_class e"
  let ?m = "msize_table ?ec ?t" and ?f = "fsize_table ?ec ?t"
  let ?off = "align_up (unat (d_align d)) x"
  have ec: "?ec = ELFCLASS32 \<or> ?ec = ELFCLASS64" using e by (simp add: lib_layout_def)
  have m: "libelf_msize st ?t ?ec EV_CURRENT = Some (of_nat ?m, st)" "(of_nat ?m :: u64) \<noteq> 0"
    using True msize_valid[of ?t ?ec st] ec of_nat_64_zero[OF msize_le_64, of ?ec ?t] by auto
  have um: "unat (of_nat ?m :: u64) = ?m" by (rule unat_of_nat_64[OF msize_le_64])
  have "unat (d_size d mod of_nat ?m) = unat (0 :: u64)" using True by (simp only:)
  then have "unat (d_size d) mod ?m = 0" unfolding unat_mod um by simp
  then have valid: "data_valid ?ec d" using True by (simp add: data_valid_def)
  have f: "0 < ?f" using True fsize_msize_rel(2)[of ?ec ?t] by simp
  have cnt: "unat (d_size d div of_nat ?m) = unat (d_size d) div ?m" using um by (simp add: unat_div)
  have lt: "?f * unat (d_size d div of_nat ?m) < 2 ^ 64" unfolding cnt using x(1) by (simp add: data_fsz_def)
  obtain z where z: "libelf_fsize st ?t ?ec EV_CURRENT (d_size d div of_nat ?m) = (z, st)"
    "unat z = ?f * unat (d_size d div of_nat ?m)" by (rule fsize_count[OF conjunct1[OF True] ec f lt])
  have z2: "unat z = data_fsz ?ec d" using z(2) unfolding cnt data_fsz_def .
  have "unat (c_roundup (of_nat x) (d_align d)) = ?off" by (rule c_roundup_nat) (use x True in simp_all)
  then have off: "c_roundup (of_nat x) (d_align d) = of_nat ?off" by (rule word_of_unat)
  have z': "z = of_nat (data_fsz ?ec d)" by (rule word_of_unat[OF z2])
  show thesis
    by (rule good[OF refl valid])
      (use True e m z(1) off in \<open>simp add: data_extent_def lib_layout_def Let_def z'\<close>)
qed

lemma data_end_ge: "(\<And>ld. ld \<in> set lds \<Longrightarrow> d_align (d_data ld) \<noteq> 0) \<Longrightarrow> x \<le> data_end ec lds x"
proof (induction lds arbitrary: x)
  case Nil
  then show ?case by simp
next
  case (Cons ld lds)
  have "0 < unat (d_align (d_data ld))" using Cons.prems[of ld] by (simp add: unat_gt_0)
  then have "x \<le> align_up (unat (d_align (d_data ld))) x + data_fsz ec (d_data ld)"
    using align_up_bounds(1)[of "unat (d_align (d_data ld))" x] by linarith
  also have "\<dots> \<le> data_end ec lds (align_up (unat (d_align (d_data ld))) x + data_fsz ec (d_data ld))"
    using Cons by simp
  finally show ?case by simp
qed

lemma data_extents_ok:
  assumes e: "lib_layout e" and al: "\<forall>ld\<in>set lds. d_align (d_data ld) \<noteq> 0"
    and x: "data_end (e_class e) lds x < 2 ^ 63"
  shows "\<exists>lds' r st'. data_extents st e lds (of_nat x) al = Some (lds', r, st') \<and> quiet st st'
    \<and> (r = None \<and> (\<exists>ld\<in>set lds. \<not> data_valid (e_class e) (d_data ld))
      \<or> lds' = data_places (e_class e) lds x \<and> (\<forall>ld\<in>set lds. data_valid (e_class e) (d_data ld))
        \<and> (\<exists>a. r = Some (of_nat (data_end (e_class e) lds x), a)
             \<and> unat a = Max (set (unat al # map (\<lambda>ld. unat (d_align (d_data ld))) lds))))"
  using al x
proof (induction lds arbitrary: x al st)
  case Nil
  then show ?case by simp
next
  case (Cons ld lds)
  let ?d = "d_data ld" and ?ec = "e_class e"
  let ?off = "align_up (unat (d_align ?d)) x"
  let ?x = "?off + data_fsz ?ec ?d"
  have le: "?x \<le> data_end ?ec lds ?x" by (rule data_end_ge) (use Cons.prems(1) in simp)
  have "0 < unat (d_align ?d)" using Cons.prems(1) by (simp add: unat_gt_0)
  then have "x \<le> ?off" by (rule align_up_bounds(1))
  then have xs: "?x < 2 ^ 63" "x < 2 ^ 63" "data_end ?ec lds ?x < 2 ^ 63" using le Cons.prems(2) by simp_all
  show ?case
  proof (rule data_extent_cases[OF e xs(1,2), of st al])
    fix st1 assume "data_extent st e ?d (of_nat x) al = Some (None, st1)" "quiet st st1" "\<not> data_valid ?ec ?d"
    then show ?thesis by simp
  next
    fix off assume g: "off = ?off" "data_valid ?ec ?d"
      "data_extent st e ?d (of_nat x) al = Some (Some (?d\<lparr>d_off := of_nat off\<rparr>, of_nat (off + data_fsz ?ec ?d),
         if d_align ?d > al then d_align ?d else al), st)"
    let ?al = "if d_align ?d > al then d_align ?d else al"
    have m: "unat ?al = max (unat (d_align ?d)) (unat al)" by (auto simp: word_less_nat_alt)
    have "\<forall>ld\<in>set lds. d_align (d_data ld) \<noteq> 0" using Cons.prems(1) by simp
    from Cons.IH[OF this xs(3), of st ?al] obtain lds' r st' where r:
      "data_extents st e lds (of_nat ?x) ?al = Some (lds', r, st')" "quiet st st'"
      "r = None \<and> (\<exists>ld\<in>set lds. \<not> data_valid ?ec (d_data ld)) \<or> lds' = data_places ?ec lds ?x \<and> (\<forall>ld\<in>set lds. data_valid ?ec (d_data ld))
        \<and> (\<exists>a. r = Some (of_nat (data_end ?ec lds ?x), a)
             \<and> unat a = Max (set (unat ?al # map (\<lambda>ld. unat (d_align (d_data ld))) lds)))"
      by (elim exE conjE) (rule that)
    have "Max (set (unat ?al # map (\<lambda>ld. unat (d_align (d_data ld))) lds))
        = Max (set (unat al # map (\<lambda>ld. unat (d_align (d_data ld))) (ld # lds)))"
      unfolding m by (cases "lds = []") (simp_all add: max.commute max.left_commute)
    then show ?thesis using g r by (auto simp: Let_def)
  qed
qed

section \<open>One section\<close>

text \<open>What a section is after its place was chosen.\<close>

definition placed_scn :: "int \<Rightarrow> Elf_Scn \<Rightarrow> nat \<Rightarrow> Elf_Scn \<Rightarrow> bool" where
  "placed_scn ec s x s' \<longleftrightarrow> s' = place_scn ec s x \<and> scn_valid ec s"

text \<open>The header of the reference is the one the code stores.\<close>

lemma ucast_word_of_nat: "ucast (of_nat n :: u64) = (of_nat n :: u32)"
  by (simp add: unsigned_of_nat word_of_nat_eq_iff take_bit_take_bit)

lemma place_shdr_set: "place_shdr al ent off sz sh = set_sh_layout (of_nat al) (of_nat ent) (of_nat off) (of_nat sz) sh"
  by (cases sh) (simp_all add: place_shdr_def ucast_word_of_nat)

lemma c_roundup_start:
  assumes "unat al = scn_align ec s" "al \<noteq> 0" "x < 2 ^ 63"
  shows "c_roundup (of_nat x) al = of_nat (scn_start ec s x)"
proof -
  have x: "unat (of_nat x :: u64) = x" using assms(3) by (simp add: unat_of_nat)
  have al: "0 < unat al" using assms(2) by (simp add: unat_gt_0)
  show ?thesis
  proof (cases "x + (unat al - 1) < 2 ^ 64")
    case True
    then show ?thesis using unat_c_roundup[OF al, of "of_nat x"] x assms(1)
      by (intro word_of_unat) (simp add: scn_start_def align_up_def)
  next
    case False
    have "unat (al - 1) = unat al - 1" using al by (simp add: unat_minus_one unat_gt_0)
    then have "unat (of_nat x + (al - 1)) = (x + (unat al - 1)) mod 2 ^ 64" using x by (simp add: unat_word_ariths)
    also have "\<dots> = x + (unat al - 1) - 2 ^ 64"
      using False assms(3) unat_lt2p[of al] by (subst le_mod_geq) simp_all
    also have "\<dots> < unat al" using assms(3) al unat_lt2p[of al] by simp
    finally have "unat ((of_nat x + (al - 1)) div al) = 0" by (simp add: unat_div)
    then have "(of_nat x + (al - 1)) div al = 0" using unat_eq_0 by blast
    then show ?thesis using False assms(1) by (simp add: c_roundup_def scn_start_def)
  qed
qed

lemma scn_start_align:
  assumes "align_up (scn_align ec s) x < 2 ^ 63" "x < 2 ^ 63" "0 < scn_align ec s"
  shows "scn_start ec s x = align_up (scn_align ec s) x"
proof (cases "x = 0")
  case True
  then show ?thesis using align_up_bounds(4) by (simp add: scn_start_def)
next
  case False
  then have "scn_align ec s < 2 ^ 63" using align_up_bounds(3)[OF assms(3), of x] assms(1) by simp
  then have "x + (scn_align ec s - 1) < 2 ^ 64" using assms(2) by simp
  then show ?thesis by (simp add: scn_start_def)
qed

lemma scn_start_dvd: "scn_align ec s dvd scn_start ec s x"
  by (simp add: scn_start_def align_up_bounds(5))

lemma placed_scn_layout:
  assumes "placed_scn ec s x s'"
  obtains al ent off where "s' = s\<lparr>s_shdr := set_sh_layout al ent off (of_nat (scn_bytes ec s)) (s_shdr s),
           s_data := (if keeps_size s then s_data s else data_places ec (s_data s) 0),
           s_size := of_nat (scn_bytes ec s), s_offset := off\<rparr>" "scn_valid ec s"
  using assms that by (auto simp: placed_scn_def place_scn_def place_shdr_set)

lemma section_types:
  "libelf_xlate_shtype t \<in> {ELF_T_DYN, ELF_T_SYM, ELF_T_ADDR, ELF_T_GNUHASH, ELF_T_WORD, ELF_T_BYTE, ELF_T_NOTE,
     ELF_T_REL, ELF_T_RELA, ELF_T_MOVE, ELF_T_SYMINFO, ELF_T_VDEF, ELF_T_VNEED, ELF_T_HALF, ELF_T_INVALID (- 1)}"
  unfolding libelf_xlate_shtype_def by (simp split: if_split)

lemma falign_section:
  "elf_type_valid (libelf_xlate_shtype t) \<Longrightarrow> libelf_falign (libelf_xlate_shtype t) ec \<in> {1, 2, 4, 8}"
  using section_types[of t] by (auto simp: libelf_falign_def split: if_splits)

lemma section_offset_eq:
  assumes "get_elf st i = Some e" "e_scns e n = Some s"
  shows "section_offset st i n rc al ent sz = Some (True, put_elf i (e\<lparr>e_scns := (e_scns e)(n \<mapsto>
      s\<lparr>s_shdr := set_sh_layout al ent (c_roundup rc al) sz (s_shdr s), s_size := sz, s_offset := c_roundup rc al\<rparr>)\<rparr>) st)"
proof -
  have p: "put_elf i a (put_elf i b st) = put_elf i a st" for a b by (simp add: put_elf_def)
  show ?thesis using assms
    by (simp add: section_offset_def section_descriptor_def get_scn_def put_scn_def p Let_def)
qed

lemma put_elf_self: "get_elf st i = Some e \<Longrightarrow> put_elf i e st = st"
  by (cases st) (auto simp: put_elf_def get_elf_def)

lemma put_elf_twice [simp]: "put_elf i a (put_elf i b st) = put_elf i a st"
  by (simp add: put_elf_def)

text \<open>What \<open>_libelf_compute_section_extents\<close> does for section \<open>n\<close> at offset \<open>x\<close>.\<close>

definition lays_section :: "libelf_state \<Rightarrow> nat \<Rightarrow> Elf \<Rightarrow> nat \<Rightarrow> Elf_Scn \<Rightarrow> nat \<Rightarrow> (bool \<times> libelf_state) option \<Rightarrow> bool" where
  "lays_section st i e n s x R \<longleftrightarrow> (\<exists>ok s' st'. R = Some (ok, st')
    \<and> quiet (put_elf i (e\<lparr>e_scns := (e_scns e)(n \<mapsto> s')\<rparr>) st) st'
    \<and> (if ok then placed_scn (e_class e) s x s' else \<not> scn_valid (e_class e) s))"

lemma lays_sectionI:
  assumes "R = Some (True, st')" "quiet (put_elf i (e\<lparr>e_scns := (e_scns e)(n \<mapsto> s')\<rparr>) st) st'" "placed_scn (e_class e) s x s'"
  shows "lays_section st i e n s x R"
  using assms unfolding lays_section_def by auto

lemma lays_section_fails:
  assumes "R = Some (False, st')" "quiet (put_elf i (e\<lparr>e_scns := (e_scns e)(n \<mapsto> s')\<rparr>) st) st'" "\<not> scn_valid (e_class e) s"
  shows "lays_section st i e n s x R"
  using assms unfolding lays_section_def by auto

text \<open>The alignment that the header states, or that of the type.\<close>

definition header_align :: "int \<Rightarrow> Elf_Scn \<Rightarrow> u64" where
  "header_align ec s = (if shdr_align (s_shdr s) = 0 then of_nat (libelf_falign (libelf_xlate_shtype (shdr_type (s_shdr s))) ec)
     else shdr_align (s_shdr s))"

lemma header_align:
  assumes "elf_type_valid (libelf_xlate_shtype (shdr_type (s_shdr s)))"
  shows "unat (header_align ec s) = (if shdr_align (s_shdr s) = 0 then scn_falign ec s else unat (shdr_align (s_shdr s)))"
    "header_align ec s \<noteq> 0"
proof -
  have fa: "libelf_falign (libelf_xlate_shtype (shdr_type (s_shdr s))) ec \<in> {1, 2, 4, 8}" by (rule falign_section[OF assms])
  then have "unat (of_nat (libelf_falign (libelf_xlate_shtype (shdr_type (s_shdr s))) ec) :: u64)
      = libelf_falign (libelf_xlate_shtype (shdr_type (s_shdr s))) ec" by auto
  then show "unat (header_align ec s) = (if shdr_align (s_shdr s) = 0 then scn_falign ec s else unat (shdr_align (s_shdr s)))"
    using fa by (auto simp: scn_falign_def header_align_def)
  show "header_align ec s \<noteq> 0" using fa by (auto simp: header_align_def)
qed

lemma kept_section_ok:
  assumes e: "get_elf st i = Some e" "lib_layout e" "e_scns e n = Some s" "in_file s"
    and t: "elf_type_valid (libelf_xlate_shtype (shdr_type (s_shdr s)))" and keep: "keeps_size s"
    and x: "scn_bytes (e_class e) s < 2 ^ 63" "x < 2 ^ 63"
      "scn_bytes (e_class e) s \<noteq> 0 \<Longrightarrow> align_up (scn_align (e_class e) s) x + scn_bytes (e_class e) s < 2 ^ 63"
  shows "lays_section st i e n s x (compute_section_extents st i n (of_nat x))"
proof -
  let ?ec = "e_class e" and ?al = "header_align (e_class e) s"
  let ?s = "s\<lparr>s_shdr := set_sh_layout ?al (shdr_entsize (s_shdr s)) (c_roundup (of_nat x) ?al) (shdr_size (s_shdr s)) (s_shdr s),
    s_size := shdr_size (s_shdr s), s_offset := c_roundup (of_nat x) ?al\<rparr>"
  have "\<not> app_layout e" using e(2) by (simp add: lib_layout_def)
  then have c: "compute_section_extents st i n (of_nat x) = Some (True, put_elf i (e\<lparr>e_scns := (e_scns e)(n \<mapsto> ?s)\<rparr>) st)"
    using e(1,3,4) t keep by (simp add: compute_section_extents_def section_offset_eq Let_def in_file_def header_align_def)
  have a: "unat ?al = scn_align ?ec s" using header_align(1)[OF t] keep by (simp add: scn_align_def)
  have "place_scn ?ec s x = ?s"
    using c_roundup_start[OF a header_align(2)[OF t] x(2), symmetric] word_of_unat[OF a, symmetric] keep
    by (simp add: place_scn_def place_shdr_set scn_bytes_def scn_entsize_def)
  then have "placed_scn ?ec s x ?s" using keep t by (simp add: placed_scn_def scn_valid_def)
  then show ?thesis by (rule lays_sectionI[OF c quiet_refl])
qed

lemma computed_section_ok:
  assumes e: "get_elf st i = Some e" "lib_layout e" "e_cmd e = ELF_C_WRITE" "e_scns e n = Some s" "in_file s"
    and t: "elf_type_valid (libelf_xlate_shtype (shdr_type (s_shdr s)))" and k: "\<not> keeps_size s"
    and al: "\<forall>ld\<in>set (s_data s). d_align (d_data ld) \<noteq> 0"
    and x: "scn_bytes (e_class e) s < 2 ^ 63" "x < 2 ^ 63"
      "scn_bytes (e_class e) s \<noteq> 0 \<Longrightarrow> align_up (scn_align (e_class e) s) x + scn_bytes (e_class e) s < 2 ^ 63"
  shows "lays_section st i e n s x (compute_section_extents st i n (of_nat x))"
proof -
  let ?ec = "e_class e" and ?sal = "header_align (e_class e) s" and ?sz = "of_nat (data_end (e_class e) (s_data s) 0) :: u64"
  let ?t = "libelf_xlate_shtype (shdr_type (s_shdr s))"
  have nn: "shdr_type (s_shdr s) \<noteq> SHT_NULL \<and> shdr_type (s_shdr s) \<noteq> SHT_NOBITS" "\<not> app_layout e"
    using e(2,5) by (simp_all add: in_file_def lib_layout_def)
  have de: "data_end ?ec (s_data s) 0 < 2 ^ 63" using x(1) k by (simp add: scn_bytes_def)
  from data_extents_ok[OF e(2) al de, of st 0, unfolded semiring_1_class.of_nat_0 unat_0] obtain lds r st1 where d:
    "data_extents st e (s_data s) 0 0 = Some (lds, r, st1)" "quiet st st1"
    "r = None \<and> (\<exists>ld\<in>set (s_data s). \<not> data_valid ?ec (d_data ld)) \<or> lds = data_places ?ec (s_data s) 0 \<and> (\<forall>ld\<in>set (s_data s). data_valid ?ec (d_data ld))
      \<and> (\<exists>a. r = Some (?sz, a) \<and> unat a = Max (set (0 # map (\<lambda>ld. unat (d_align (d_data ld))) (s_data s))))"
    by (elim exE conjE) (rule that)
  let ?st1 = "put_elf i (e\<lparr>e_scns := (e_scns e)(n \<mapsto> s\<lparr>s_data := lds\<rparr>)\<rparr>) st1"
  have g: "get_elf st1 i = Some e" using e(1) quiet_fields(1)[OF d(2)] by simp
  have sd: "section_data_extents st i n = Some (r, ?st1)"
    using e(1,3,4) d(1) g by (simp add: section_data_extents_def get_scn_def put_scn_def)
  show ?thesis
  proof (cases r)
    case None
    then have "compute_section_extents st i n (of_nat x) = Some (False, ?st1)"
      using e(1,4) nn t k sd by (simp add: compute_section_extents_def Let_def)
    moreover have "\<not> scn_valid ?ec s" using d(3) None k by (auto simp: scn_valid_def)
    ultimately show ?thesis using quiet_put[OF d(2)] by (intro lays_section_fails)
  next
    case (Some p)
    then obtain a where a: "r = Some (?sz, a)" "lds = data_places ?ec (s_data s) 0" "\<forall>ld\<in>set (s_data s). data_valid ?ec (d_data ld)"
      "unat a = Max (set (0 # map (\<lambda>ld. unat (d_align (d_data ld))) (s_data s)))" using d(3) by auto
    let ?al = "if a > ?sal then a else ?sal" and ?s = "s\<lparr>s_data := lds\<rparr>"
    obtain fsz st2 where f: "libelf_fsize ?st1 ?t ?ec (e_version e) 1 = (fsz, st2)"
      by (cases "libelf_fsize ?st1 ?t ?ec (e_version e) 1")
    define ent st3 where "ent = (if shdr_entsize (s_shdr s) = 0 then if fsz = 1 then 0 else fsz else shdr_entsize (s_shdr s))"
      and "st3 = (if shdr_entsize (s_shdr s) = 0 then st2 else ?st1)"
    have q: "quiet ?st1 st3" using quiet_fsize[OF f] by (simp add: st3_def)
    have g3: "get_elf st3 i = Some (e\<lparr>e_scns := (e_scns e)(n \<mapsto> ?s)\<rparr>)" using quiet_fields(1)[OF q, of i] by simp
    let ?s' = "?s\<lparr>s_shdr := set_sh_layout ?al ent (c_roundup (of_nat x) ?al) ?sz (s_shdr s), s_size := ?sz,
      s_offset := c_roundup (of_nat x) ?al\<rparr>"
    have "compute_section_extents st i n (of_nat x) = section_offset st3 i n (of_nat x) ?al ent ?sz"
      using e(1,4) nn t k sd a(1) f by (auto simp: compute_section_extents_def Let_def ent_def st3_def header_align_def)
    also have "\<dots> = Some (True, put_elf i (e\<lparr>e_scns := (e_scns e)(n \<mapsto> ?s')\<rparr>) st3)"
      by (subst section_offset_eq[OF g3, where s = ?s]) simp_all
    finally have c: "compute_section_extents st i n (of_nat x) = \<dots>" .
    have "unat ?al = max (unat ?sal) (unat a)" by (auto simp: word_less_nat_alt)
    then have ual: "unat ?al = scn_align ?ec s" unfolding header_align(1)[OF t] a(4) scn_align_def using k
      by (cases "s_data s = []") (simp_all add: scn_falign_def)
    have "?al \<noteq> 0" using header_align(2)[OF t] by (auto simp: word_less_nat_alt)
    then have off: "c_roundup (of_nat x) ?al = of_nat (scn_start ?ec s x)" by (intro c_roundup_start[OF ual] x(2))
    have "fsz = of_nat (fsize_table ?ec ?t)"
    proof -
      have ec: "(if ?ec = ELFCLASS64 then ELFCLASS64 else ELFCLASS32) = ?ec" and "e_version e = EV_CURRENT"
        using e(2) by (auto simp: lib_layout_def)
      then show ?thesis using arg_cong[OF f, of fst] libelf_fsize_current[OF t, of ?st1 ?ec 1, unfolded ec] by simp
    qed
    moreover have "(of_nat (fsize_table ?ec ?t) :: u64) = 1 \<longleftrightarrow> fsize_table ?ec ?t = 1"
      using unat_of_nat_64[OF fsize_le_64, of ?ec ?t] by (metis of_nat_1 unat_1)
    ultimately have ent: "ent = of_nat (scn_entsize ?ec s)" using k by (simp add: ent_def scn_entsize_def)
    have "place_scn ?ec s x = ?s'" using off[symmetric] word_of_unat[OF ual, symmetric] ent k a(2)
      by (simp add: place_scn_def place_shdr_set scn_bytes_def)
    then have "placed_scn ?ec s x ?s'" using k t a(3) by (simp add: placed_scn_def scn_valid_def)
    then show ?thesis using quiet_put_put[OF quiet_trans[OF quiet_put[OF d(2)] q]] by (intro lays_sectionI[OF c])
  qed
qed

lemma compute_section_ok:
  assumes e: "get_elf st i = Some e" "lib_layout e" "e_cmd e = ELF_C_WRITE" "e_scns e n = Some s" "in_file s"
    and al: "\<forall>ld\<in>set (s_data s). d_align (d_data ld) \<noteq> 0"
    and x: "scn_bytes (e_class e) s < 2 ^ 63" "x < 2 ^ 63"
      "scn_bytes (e_class e) s \<noteq> 0 \<Longrightarrow> align_up (scn_align (e_class e) s) x + scn_bytes (e_class e) s < 2 ^ 63"
  shows "lays_section st i e n s x (compute_section_extents st i n (of_nat x))"
proof (cases "elf_type_valid (libelf_xlate_shtype (shdr_type (s_shdr s)))")
  case False
  have self: "put_elf i (e\<lparr>e_scns := (e_scns e)(n \<mapsto> s)\<rparr>) st = st"
    using e(1,4) by (cases st; cases e) (auto simp: put_elf_def get_elf_def fun_upd_idem)
  have "compute_section_extents st i n (of_nat x) = Some (False, set_error ELF_E_SECTION 0 st)"
    using e(1,4,5) False by (simp add: compute_section_extents_def in_file_def)
  then show ?thesis by (rule lays_section_fails[where s' = s]) (simp_all add: self scn_valid_def False)
next
  case True
  then show ?thesis using kept_section_ok[OF e(1,2,4,5) _ _ x] computed_section_ok[OF e _ _ al x] by blast
qed

section \<open>All sections\<close>

text \<open>Extents one behind the other, from \<open>lo\<close> on; \<open>hi\<close> is the end of the last.\<close>

primrec chained :: "nat \<Rightarrow> Elf_Extent list \<Rightarrow> nat \<Rightarrow> bool" where
  "chained lo [] hi \<longleftrightarrow> lo = hi"
| "chained lo (t # ts) hi \<longleftrightarrow> lo \<le> unat (ex_start t) \<and> ex_size t \<noteq> 0 \<and> chained (ex_end t) ts hi"

lemma chained_append: "chained lo (xs @ ys) hi \<longleftrightarrow> (\<exists>m. chained lo xs m \<and> chained m ys hi)"
  by (induction xs arbitrary: lo) auto

lemma chained_le: "chained lo ts hi \<Longrightarrow> lo \<le> hi \<and> (\<forall>t\<in>set ts. ex_end t \<le> hi)"
proof (induction ts arbitrary: lo)
  case Nil
  then show ?case by simp
next
  case (Cons t ts)
  then have "lo \<le> unat (ex_start t)" "ex_end t \<le> hi" "\<forall>t\<in>set ts. ex_end t \<le> hi" by auto
  then show ?case by (auto simp: ex_end_def)
qed

lemma extent_at_end:
  "(\<And>t. t \<in> set exs \<Longrightarrow> ex_end t \<le> unat start) \<Longrightarrow> extent_is_unused exs start sz = Some (length exs)"
proof (induction exs)
  case Nil
  then show ?case by simp
next
  case (Cons t ts)
  have le: "unat (ex_start t) + unat (ex_size t) \<le> unat start" using Cons.prems[of t] by (simp add: ex_end_def)
  then have "unat (ex_start t + ex_size t) = unat (ex_start t) + unat (ex_size t)"
    using unat_lt2p[of start] by (intro unat_add_small) simp
  then show ?case using Cons le by (simp add: word_le_nat_alt)
qed

lemma insert_at_end:
  assumes "chained lo exs x" "x \<le> unat start"
  shows "insert_extent st exs ty start sz d =
    (if fst (c_alloc st) then (Some (exs @ [\<lparr>ex_start = start, ex_size = sz, ex_type = ty, ex_desc = d\<rparr>]), snd (c_alloc st))
     else (None, set_error ELF_E_RESOURCE ENOMEM (snd (c_alloc st))))"
proof -
  have "extent_is_unused exs start sz = Some (length exs)"
    using chained_le[OF assms(1)] assms(2) by (intro extent_at_end) (meson order_trans)
  then show ?thesis by (simp add: insert_extent_def case_prod_unfold Let_def)
qed

lemma chained_snoc:
  assumes "chained lo exs x" "x \<le> unat start" "sz \<noteq> 0"
  shows "chained lo (exs @ [\<lparr>ex_start = start, ex_size = sz, ex_type = ty, ex_desc = d\<rparr>]) (unat start + unat sz)"
  using assms by (auto simp: chained_append ex_end_def)

definition scn_extent :: "nat \<Rightarrow> Elf_Scn \<Rightarrow> Elf_Extent" where
  "scn_extent n s = \<lparr>ex_start = s_offset s, ex_size = s_size s, ex_type = ELF_EXTENT_SECTION, ex_desc = Some n\<rparr>"

definition has_extent :: "Elf_Scn \<Rightarrow> bool" where
  "has_extent s \<longleftrightarrow> in_file s \<and> s_size s \<noteq> 0"

text \<open>The extents of the sections \<open>ns\<close> that have one.\<close>

definition scn_extents :: "(nat \<Rightarrow> Elf_Scn option) \<Rightarrow> nat list \<Rightarrow> Elf_Extent list" where
  "scn_extents X ns = map (\<lambda>n. scn_extent n (the (X n))) (filter (\<lambda>n. has_extent (the (X n))) ns)"

definition aligned_data :: "Elf_Scn \<Rightarrow> bool" where
  "aligned_data s \<longleftrightarrow> (\<forall>ld\<in>set (s_data s). d_align (d_data ld) \<noteq> 0)"

lemma scn_align_pos: "0 < scn_align ec s"
proof -
  let ?x = "if shdr_align (s_shdr s) = 0 then scn_falign ec s else unat (shdr_align (s_shdr s))"
  have "0 < ?x" by (simp add: scn_falign_def unat_gt_0 less_max_iff_disj)
  also have "?x \<le> scn_align ec s" unfolding scn_align_def by (rule Max_ge) simp_all
  finally show ?thesis .
qed

lemma scn_end_ge: "x \<le> scn_end ec s x"
  using align_up_bounds(1)[OF scn_align_pos[of ec s], of x] by (auto simp: scn_end_def)

lemma scns_end_Cons: "scns_end ec (s # ss) x = scns_end ec ss (scn_end ec s x)"
  by (simp add: scns_end_def)

lemma scns_end_ge: "x \<le> scns_end ec ss x"
proof (induction ss arbitrary: x)
  case Nil
  then show ?case by (simp add: scns_end_def)
next
  case (Cons s ss)
  then show ?case unfolding scns_end_Cons using scn_end_ge[of x ec s] by (meson order_trans)
qed

lemma set_sh_layout_type [simp]: "shdr_type (set_sh_layout al ent off sz sh) = shdr_type sh"
  by (cases sh) simp_all

lemma placed_scn_fields:
  assumes "placed_scn ec s x s'"
  shows "s_size s' = of_nat (scn_bytes ec s)" "in_file s' = in_file s" "s_ndx s' = s_ndx s" "s_flags s' = s_flags s"
    "s_offset s' = of_nat (scn_start ec s x)"
  using assms by (simp_all add: placed_scn_def place_scn_def place_shdr_set in_file_def)

definition scn_laid_out :: "int \<Rightarrow> Elf_Scn \<Rightarrow> Elf_Scn \<Rightarrow> bool" where
  "scn_laid_out ec s s' \<longleftrightarrow> (if in_file s then \<exists>x. placed_scn ec s x s' else s' = s)"

definition sections_placed :: "Elf \<Rightarrow> nat list \<Rightarrow> (nat \<Rightarrow> Elf_Scn option) \<Rightarrow> bool" where
  "sections_placed e ns X \<longleftrightarrow> (\<forall>n. if n \<in> set ns then \<exists>s'. X n = Some s' \<and> scn_laid_out (e_class e) (the (e_scns e n)) s'
     else X n = e_scns e n)"

lemma placed_other:
  assumes "sections_placed e ns X" "n \<notin> set ns" "e_scns e n = Some s" "\<not> in_file s"
  shows "sections_placed e (n # ns) X \<and> X n = Some s"
proof -
  have "X n = Some s" using assms by (simp add: sections_placed_def)
  moreover have "scn_laid_out ec s s" for ec using assms(4) by (simp add: scn_laid_out_def)
  ultimately show ?thesis using assms(1,3) unfolding sections_placed_def by auto
qed

lemma placed_this:
  assumes "sections_placed (e\<lparr>e_scns := (e_scns e)(n \<mapsto> s')\<rparr>) ns X" "n \<notin> set ns" "e_scns e n = Some s"
    "scn_laid_out (e_class e) s s'"
  shows "sections_placed e (n # ns) X \<and> X n = Some s'"
proof -
  have "X n = Some s'" using assms(1,2) by (simp add: sections_placed_def)
  moreover have "\<exists>s''. X m = Some s'' \<and> scn_laid_out (e_class e) (the (e_scns e m)) s''" if "m \<noteq> n" "m \<in> set ns" for m
    using spec[OF assms(1)[unfolded sections_placed_def], of m] that by simp
  moreover have "X m = e_scns e m" if "m \<noteq> n" "m \<notin> set ns" for m
    using spec[OF assms(1)[unfolded sections_placed_def], of m] that by simp
  ultimately have "if m \<in> set (n # ns) then \<exists>s'. X m = Some s' \<and> scn_laid_out (e_class e) (the (e_scns e m)) s'
      else X m = e_scns e m" for m using assms(3,4) by (cases "m = n") auto
  then show ?thesis using \<open>X n = Some s'\<close> unfolding sections_placed_def by blast
qed

definition scns_valid :: "Elf \<Rightarrow> nat list \<Rightarrow> bool" where
  "scns_valid e ns \<longleftrightarrow> (\<forall>n\<in>set ns. \<forall>s. e_scns e n = Some s \<longrightarrow> in_file s \<longrightarrow> scn_valid (e_class e) s)"

lemma scns_valid_Cons: "e_scns e n = Some s \<Longrightarrow> scns_valid e (n # ns) \<longleftrightarrow> (in_file s \<longrightarrow> scn_valid (e_class e) s) \<and> scns_valid e ns"
  by (auto simp: scns_valid_def)

lemma scns_valid_other: "n \<notin> set ns \<Longrightarrow> scns_valid (e\<lparr>e_scns := (e_scns e)(n \<mapsto> s)\<rparr>) ns = scns_valid e ns"
  by (auto simp: scns_valid_def)

text \<open>What the loop of \<open>_libelf_resync_sections\<close> does for the sections \<open>ns\<close> from offset \<open>x\<close> on.\<close>

definition lays_sections ::
  "libelf_state \<Rightarrow> nat \<Rightarrow> Elf \<Rightarrow> nat list \<Rightarrow> nat \<Rightarrow> Elf_Extent list \<Rightarrow> (u64 \<times> Elf_Extent list \<times> libelf_state) option \<Rightarrow> bool" where
  "lays_sections st i e ns x exs R \<longleftrightarrow> (\<exists>rc exs' X st'. R = Some (rc, exs', st')
     \<and> quiet (put_elf i (e\<lparr>e_scns := X\<rparr>) st) st'
     \<and> (rc = - 1 \<and> \<not> (never_fails st \<and> scns_valid e ns)
        \<or> rc = of_nat (scns_end (e_class e) (map (\<lambda>n. the (e_scns e n)) ns) x)
        \<and> sections_placed e ns X \<and> X = placed_scns (e_class e) (e_scns e) ns x
        \<and> exs' = exs @ scn_extents X ns \<and> chained 0 exs' (scns_end (e_class e) (map (\<lambda>n. the (e_scns e n)) ns) x)))"

lemma lays_fails:
  assumes "R = Some (- 1, exs', st')" "quiet (put_elf i (e\<lparr>e_scns := X\<rparr>) st) st'" "\<not> (never_fails st \<and> scns_valid e ns)"
  shows "lays_sections st i e ns x exs R"
  using assms by (auto simp: lays_sections_def)

text \<open>The rest of the loop, from a state in which the first section is placed.\<close>

lemma lays_Cons:
  assumes r: "lays_sections st2 i (e\<lparr>e_scns := (e_scns e)(n \<mapsto> s')\<rparr>) ns y (exs @ new) R"
    and q: "quiet (put_elf i (e\<lparr>e_scns := (e_scns e)(n \<mapsto> s')\<rparr>) st) st2"
    and s: "e_scns e n = Some s" "n \<notin> set ns" "scn_laid_out (e_class e) s s'"
      "s' = (if in_file s then place_scn (e_class e) s x else s)" and y: "scn_end (e_class e) s x = y"
    and ext: "\<And>X. X n = Some s' \<Longrightarrow> scn_extents X (n # ns) = new @ scn_extents X ns"
  shows "lays_sections st i e (n # ns) x exs R"
proof -
  let ?e = "e\<lparr>e_scns := (e_scns e)(n \<mapsto> s')\<rparr>" and ?last = "scns_end (e_class e) (map (\<lambda>n. the (e_scns e n)) (n # ns)) x"
  have same: "map (\<lambda>n. the (e_scns ?e n)) ns = map (\<lambda>n. the (e_scns e n)) ns" using s(2) by auto
  have fin: "scns_end (e_class e) (map (\<lambda>n. the (e_scns e n)) ns) y = ?last" using s(1) y by (simp add: scns_end_Cons)
  have cl: "e_class ?e = e_class e" by simp
  obtain rc exs' X st' where R: "R = Some (rc, exs', st')" "quiet (put_elf i (?e\<lparr>e_scns := X\<rparr>) st2) st'"
    "rc = - 1 \<and> \<not> (never_fails st2 \<and> scns_valid ?e ns) \<or> rc = of_nat ?last \<and> sections_placed ?e ns X
      \<and> X = placed_scns (e_class e) (e_scns ?e) ns y \<and> exs' = (exs @ new) @ scn_extents X ns \<and> chained 0 exs' ?last"
    using r unfolding lays_sections_def cl same fin by (elim exE conjE) (rule that)
  have q': "quiet (put_elf i (e\<lparr>e_scns := X\<rparr>) st) st'" using quiet_trans[OF quiet_put_put[OF q] R(2)] by simp
  have "\<not> (never_fails st \<and> scns_valid e (n # ns))" if "\<not> (never_fails st2 \<and> scns_valid ?e ns)"
    using that quiet_never_fails[OF q] scns_valid_Cons[OF s(1)] scns_valid_other[OF s(2)] by simp
  moreover have "placed_scns (e_class e) (e_scns ?e) ns y = placed_scns (e_class e) (e_scns e) (n # ns) x"
    using s(1,4) y by (cases "in_file s") (simp_all add: Let_def fun_upd_idem)
  moreover have "sections_placed e (n # ns) X \<and> (exs @ new) @ scn_extents X ns = exs @ scn_extents X (n # ns)" if "sections_placed ?e ns X"
    using placed_this[OF that s(2,1,3)] ext by simp
  ultimately show ?thesis using R(1,3) q' unfolding lays_sections_def
    by (intro exI[of _ rc] exI[of _ exs'] exI[of _ X] exI[of _ st'] conjI) (assumption, assumption, metis)
qed

text \<open>The extent of a section that has bytes.\<close>

lemma placed_extent:
  assumes pl: "placed_scn ec s x s'" and s: "in_file s" "scn_bytes ec s \<noteq> 0" and x: "scn_end ec s x < 2 ^ 63" and ch: "chained 0 exs x"
  shows "s_size s' \<noteq> 0" "s_offset s' + s_size s' = of_nat (scn_end ec s x)" "(of_nat x :: u64) < of_nat (scn_end ec s x)"
    "insert_extent st exs ELF_EXTENT_SECTION (s_offset s') (s_size s') (Some n)
      = (if fst (c_alloc st) then (Some (exs @ [scn_extent n s']), snd (c_alloc st))
         else (None, set_error ELF_E_RESOURCE ENOMEM (snd (c_alloc st))))"
    "chained 0 (exs @ [scn_extent n s']) (scn_end ec s x)"
proof -
  note P = placed_scn_fields[OF pl]
  have y: "scn_end ec s x = align_up (scn_align ec s) x + scn_bytes ec s" using s by (simp add: scn_end_def)
  have b: "scn_bytes ec s < 2 ^ 64" "align_up (scn_align ec s) x < 2 ^ 64" using x unfolding y by simp_all
  have us: "unat (s_size s') = scn_bytes ec s" using P(1) b(1) by (simp add: unat_of_nat)
  then show sz: "s_size s' \<noteq> 0" using s(2) by (metis unat_0)
  have "align_up (scn_align ec s) x < 2 ^ 63" "x < 2 ^ 63" using x scn_end_ge[of x ec s] unfolding y by simp_all
  then have "scn_start ec s x = align_up (scn_align ec s) x" by (rule scn_start_align[OF _ _ scn_align_pos])
  then have off: "unat (s_offset s') = align_up (scn_align ec s) x" using P(5) b(2) by (simp add: unat_of_nat)
  have fin: "unat (s_offset s') + unat (s_size s') = scn_end ec s x" unfolding y off us ..
  have le: "x \<le> unat (s_offset s')" unfolding off by (rule align_up_bounds(1)[OF scn_align_pos])
  have "unat (s_offset s' + s_size s') = scn_end ec s x"
    unfolding fin[symmetric] by (rule unat_add_small) (use fin x in simp)
  then show sum: "s_offset s' + s_size s' = of_nat (scn_end ec s x)" by (rule word_of_unat)
  have "x < scn_end ec s x" using le fin us s(2) by linarith
  then show "(of_nat x :: u64) < of_nat (scn_end ec s x)" using x by (simp add: word_less_nat_alt unat_of_nat)
  show "insert_extent st exs ELF_EXTENT_SECTION (s_offset s') (s_size s') (Some n)
      = (if fst (c_alloc st) then (Some (exs @ [scn_extent n s']), snd (c_alloc st))
         else (None, set_error ELF_E_RESOURCE ENOMEM (snd (c_alloc st))))"
    unfolding scn_extent_def by (rule insert_at_end[OF ch le])
  show "chained 0 (exs @ [scn_extent n s']) (scn_end ec s x)"
    using chained_snoc[OF ch le sz] unfolding fin scn_extent_def .
qed

lemma resync_scns_ok:
  assumes "get_elf st i = Some e" "lib_layout e" "e_cmd e = ELF_C_WRITE"
    and "distinct ns" "\<forall>n\<in>set ns. \<exists>s. e_scns e n = Some s \<and> aligned_data s"
    and "scns_end (e_class e) (map (\<lambda>n. the (e_scns e n)) ns) x < 2 ^ 63" "chained 0 exs x"
  shows "lays_sections st i e ns x exs (resync_scns st i ns (of_nat x) exs)"
  using assms
proof (induction ns arbitrary: st e x exs)
  case Nil
  have "put_elf i (e\<lparr>e_scns := e_scns e\<rparr>) st = st" using Nil.prems(1) by (cases st; cases e) (auto simp: put_elf_def get_elf_def)
  then show ?case using Nil.prems unfolding lays_sections_def
    by (intro exI[of _ "of_nat x :: u64"] exI[of _ exs] exI[of _ "e_scns e"] exI[of _ st]) (simp add: scns_end_def scn_extents_def sections_placed_def)
next
  case (Cons n ns)
  let ?ec = "e_class e" and ?R = "resync_scns st i (n # ns) (of_nat x) exs"
  obtain s where s: "e_scns e n = Some s" "aligned_data s" using Cons.prems(5) by auto
  have gs: "get_scn st i n = Some s" using Cons.prems(1) s(1) by (simp add: get_scn_def)
  let ?rest = "map (\<lambda>n. the (e_scns e n)) ns"
  have x1: "scn_end ?ec s x < 2 ^ 63" "x < 2 ^ 63" "scns_end ?ec ?rest (scn_end ?ec s x) < 2 ^ 63"
    using Cons.prems(6) s(1) scns_end_ge[of "scn_end ?ec s x" ?ec ?rest] scn_end_ge[of x ?ec s] by (auto simp: scns_end_Cons)
  have n: "n \<notin> set ns" "distinct ns" using Cons.prems(4) by simp_all
  have ih: "lays_sections st2 i (e\<lparr>e_scns := (e_scns e)(n \<mapsto> s')\<rparr>) ns (scn_end ?ec s x) exs2 (resync_scns st2 i ns (of_nat (scn_end ?ec s x)) exs2)"
    if "get_elf st2 i = Some (e\<lparr>e_scns := (e_scns e)(n \<mapsto> s')\<rparr>)" "chained 0 exs2 (scn_end ?ec s x)" for st2 s' exs2
  proof -
    let ?e = "e\<lparr>e_scns := (e_scns e)(n \<mapsto> s')\<rparr>"
    have "map (\<lambda>k. the (e_scns ?e k)) ns = ?rest" using n(1) by auto
    then have "scns_end (e_class ?e) (map (\<lambda>k. the (e_scns ?e k)) ns) (scn_end ?ec s x) < 2 ^ 63" using x1(3) by (simp only:) simp
    then show ?thesis
      by (intro Cons.IH[OF that(1)]) (use Cons.prems(2,3,5) n that(2) in \<open>simp_all add: lib_layout_def app_layout_def\<close>)
  qed
  show ?case
  proof (cases "in_file s")
    case False
    have self: "e\<lparr>e_scns := (e_scns e)(n \<mapsto> s)\<rparr> = e" using s(1) by (cases e) (simp add: fun_upd_idem)
    have y: "scn_end ?ec s x = x" using False by (simp add: scn_end_def)
    have q: "quiet (put_elf i (e\<lparr>e_scns := (e_scns e)(n \<mapsto> s)\<rparr>) st) st"
      using Cons.prems(1) unfolding self by (cases st) (auto simp: put_elf_def get_elf_def fun_upd_idem)
    have "?R = resync_scns st i ns (of_nat x) exs" using gs False by (simp add: in_file_def)
    then show ?thesis using ih[of st s exs, unfolded self y] Cons.prems(1,7) False
      by (intro lays_Cons[OF _ q s(1) n(1) _ _ y, of exs "[]"]) (simp_all add: self scn_laid_out_def scn_extents_def has_extent_def)
  next
    case True
    have b: "scn_bytes ?ec s < 2 ^ 63" "scn_bytes ?ec s \<noteq> 0 \<Longrightarrow> align_up (scn_align ?ec s) x + scn_bytes ?ec s < 2 ^ 63"
      using x1(1) True by (auto simp: scn_end_def split: if_splits)
    have al: "\<forall>ld\<in>set (s_data s). d_align (d_data ld) \<noteq> 0" using s(2) by (simp add: aligned_data_def)
    from compute_section_ok[OF Cons.prems(1-3) s(1) True al b(1) x1(2) b(2), unfolded lays_section_def] obtain ok s' st1 where c:
      "compute_section_extents st i n (of_nat x) = Some (ok, st1)"
      "quiet (put_elf i (e\<lparr>e_scns := (e_scns e)(n \<mapsto> s')\<rparr>) st) st1" "if ok then placed_scn ?ec s x s' else \<not> scn_valid ?ec s"
      by blast
    have nn: "\<not> (shdr_type (s_shdr s) = SHT_NOBITS \<or> shdr_type (s_shdr s) = SHT_NULL)" using True by (simp add: in_file_def)
    have e1: "get_elf st1 i = Some (e\<lparr>e_scns := (e_scns e)(n \<mapsto> s')\<rparr>)" using quiet_fields(1)[OF c(2), of i] by simp
    then have gs1: "get_scn st1 i n = Some s'" by (simp add: get_scn_def)
    show ?thesis
    proof (cases ok)
      case False
      then show ?thesis using gs nn c True scns_valid_Cons[OF s(1)] by (intro lays_fails[OF _ c(2), where exs' = exs]) simp_all
    next
      case ok: True
      then have pl: "placed_scn ?ec s x s'" "scn_laid_out ?ec s s'" "s' = (if in_file s then place_scn ?ec s x else s)"
        using c(3) True by (auto simp: scn_laid_out_def placed_scn_def)
      note P = placed_scn_fields[OF pl(1)]
      show ?thesis
      proof (cases "scn_bytes ?ec s = 0")
        case zero: True
        have y: "scn_end ?ec s x = x" using zero by (simp add: scn_end_def)
        have "?R = resync_scns st1 i ns (of_nat x) exs" using gs nn c(1) ok gs1 P(1) zero by simp
        then show ?thesis using ih[OF e1, of exs, unfolded y] Cons.prems(7) P(1) zero
          by (intro lays_Cons[OF _ c(2) s(1) n(1) pl(2,3) y, of exs "[]"]) (simp_all add: scn_extents_def has_extent_def)
      next
        case some: False
        note X = placed_extent[OF pl(1) True some x1(1) Cons.prems(7)]
        show ?thesis
        proof (cases "fst (c_alloc st1)")
          case False
          have "?R = Some (- 1, exs, set_error ELF_E_RESOURCE ENOMEM (snd (c_alloc st1)))"
            using gs nn c(1) ok gs1 X(1,4) False by (simp add: Let_def)
          moreover have "\<not> never_fails st" using never_fails_alloc[of st1] False quiet_never_fails[OF c(2)] by auto
          ultimately show ?thesis using c(2) by (intro lays_fails[of ?R exs "set_error ELF_E_RESOURCE ENOMEM (snd (c_alloc st1))" i "(e_scns e)(n \<mapsto> s')" e]) simp_all
        next
          case al: True
          have "?R = resync_scns (snd (c_alloc st1)) i ns (of_nat (scn_end ?ec s x)) (exs @ [scn_extent n s'])"
            using gs nn c(1) ok gs1 X(1-4) al by (simp add: Let_def)
          moreover have "quiet (put_elf i (e\<lparr>e_scns := (e_scns e)(n \<mapsto> s')\<rparr>) st) (snd (c_alloc st1))" using c(2) by simp
          moreover have "get_elf (snd (c_alloc st1)) i = Some (e\<lparr>e_scns := (e_scns e)(n \<mapsto> s')\<rparr>)" using e1 by simp
          ultimately show ?thesis using ih[of "snd (c_alloc st1)", OF _ X(5)] P(2) X(1) True
            by (intro lays_Cons[OF _ _ s(1) n(1) pl(2,3) refl, where new = "[scn_extent n s']" and ?st2.0 = "snd (c_alloc st1)"])
              (simp_all add: scn_extents_def has_extent_def)
        qed
      qed
    qed
  qed
qed

end
