(* ===== verification/Update_Object.thy ===== *)
theory Update_Object
  imports Update_Layout
begin

text \<open>
  The layout of a whole object that is being created: what \<open>_libelf_resync_elf\<close> leaves in the descriptor and in the list
  of extents, and that its result is the size of the object in natural numbers.
\<close>

section \<open>The reference\<close>

definition hdr_end :: "int \<Rightarrow> nat" where
  "hdr_end ec = fsize_table ec ELF_T_EHDR"

definition ph_start :: "int \<Rightarrow> nat" where
  "ph_start ec = align_up (libelf_falign ELF_T_PHDR ec) (hdr_end ec)"

definition ph_end :: "Elf \<Rightarrow> nat" where
  "ph_end e = (if e_nphdr e = 0 then hdr_end (e_class e)
     else ph_start (e_class e) + fsize_table (e_class e) ELF_T_PHDR * unat (e_nphdr e))"

definition object_scns :: "Elf \<Rightarrow> Elf_Scn list" where
  "object_scns e = map (\<lambda>n. the (e_scns e n)) (inorder (e_scn e))"

definition area_end :: "Elf \<Rightarrow> nat" where
  "area_end e = scns_end (e_class e) (object_scns e) (ph_end e)"

definition sh_start :: "Elf \<Rightarrow> nat" where
  "sh_start e = align_up (libelf_falign ELF_T_SHDR (e_class e)) (area_end e)"

definition object_size :: "Elf \<Rightarrow> nat" where
  "object_size e = (if e_nscn e = 0 then area_end e
     else sh_start e + fsize_table (e_class e) ELF_T_SHDR * unat (e_nscn e))"

section \<open>Objects under creation\<close>

definition ehdr_fits :: "int \<Rightarrow> ehdr \<Rightarrow> bool" where
  "ehdr_fits ec eh \<longleftrightarrow> (ec = ELFCLASS32 \<and> (\<exists>h. eh = Eh32 h) \<or> ec = ELFCLASS64 \<and> (\<exists>h. eh = Eh64 h))
     \<and> length (ehdr_ident eh) = EI_NIDENT"

definition shdr_fits :: "int \<Rightarrow> shdr \<Rightarrow> bool" where
  "shdr_fits ec sh \<longleftrightarrow> (ec = ELFCLASS32 \<and> (\<exists>h. sh = Sh32 h) \<or> ec = ELFCLASS64 \<and> (\<exists>h. sh = Sh64 h))"

definition phdrs_fit :: "int \<Rightarrow> nat \<Rightarrow> phdrs \<Rightarrow> bool" where
  "phdrs_fit ec n ph \<longleftrightarrow> (ec = ELFCLASS32 \<and> (\<exists>ps. ph = Ph32 ps \<and> length ps = n)
     \<or> ec = ELFCLASS64 \<and> (\<exists>ps. ph = Ph64 ps \<and> length ps = n))"

text \<open>
  A descriptor whose object the library lays out and writes afresh: its headers have its class, its sections are
  those from 0 on, the alignments of the data are set.
\<close>

definition creating :: "libelf_state \<Rightarrow> nat \<Rightarrow> Elf \<Rightarrow> ehdr \<Rightarrow> bool" where
  "creating st i e eh \<longleftrightarrow> get_elf st i = Some e \<and> lib_layout e \<and> e_cmd e = ELF_C_WRITE \<and> e_rawfile e = None
     \<and> scn_inv e \<and> e_ehdr e = Some eh \<and> ehdr_fits (e_class e) eh
     \<and> (e_nphdr e \<noteq> 0 \<longrightarrow> (\<exists>ph. e_phdr e = Some ph \<and> phdrs_fit (e_class e) (unat (e_nphdr e)) ph))
     \<and> (e_nscn e = 0 \<longrightarrow> e_nphdr e < PN_XNUM)
     \<and> rb_keys (e_scn e) = {..<unat (e_nscn e)}
     \<and> (\<forall>n s. e_scns e n = Some s \<longrightarrow> aligned_data s \<and> shdr_fits (e_class e) (s_shdr s))"

lemma creatingD:
  assumes "creating st i e eh"
  shows "get_elf st i = Some e" "lib_layout e" "e_cmd e = ELF_C_WRITE" "scn_inv e" "e_ehdr e = Some eh"
    "ehdr_fits (e_class e) eh" "e_kind e = ELF_K_ELF" "e_version e = EV_CURRENT" "\<not> app_layout e"
    "e_class e = ELFCLASS32 \<or> e_class e = ELFCLASS64" "rb_keys (e_scn e) = {..<unat (e_nscn e)}"
    "e_nscn e = 0 \<longrightarrow> e_nphdr e < PN_XNUM" "e_rawfile e = None"
  using assms by (simp_all add: creating_def lib_layout_def)

lemma fsize_one:
  assumes "elf_type_valid t" "ec = ELFCLASS32 \<or> ec = ELFCLASS64" "0 < fsize_table ec t"
  shows "libelf_fsize st t ec EV_CURRENT 1 = (of_nat (fsize_table ec t), st)"
proof -
  have "(of_nat (fsize_table ec t) :: u64) \<noteq> 0" using assms(3) of_nat_64_zero[OF fsize_le_64, of ec t] by simp
  moreover have "(if ec = ELFCLASS64 then ELFCLASS64 else ELFCLASS32) = ec" using assms(2) by auto
  ultimately show ?thesis using assms(1) by (simp add: libelf_fsize_def Let_def)
qed

lemma header_sizes:
  assumes "ec = ELFCLASS32 \<or> ec = ELFCLASS64"
  shows "libelf_fsize st ELF_T_EHDR ec EV_CURRENT 1 = (of_nat (hdr_end ec), st)"
    "libelf_fsize st ELF_T_PHDR ec EV_CURRENT 1 = (of_nat (fsize_table ec ELF_T_PHDR), st)"
    "libelf_fsize st ELF_T_SHDR ec EV_CURRENT 1 = (of_nat (fsize_table ec ELF_T_SHDR), st)"
    "hdr_end ec \<in> {52, 64}" "0 < fsize_table ec ELF_T_PHDR" "0 < fsize_table ec ELF_T_SHDR"
  using assms by (auto simp: fsize_one hdr_end_def)

text \<open>The header at the beginning of the layout.\<close>

definition started_ehdr :: "Elf \<Rightarrow> ehdr \<Rightarrow> ehdr" where
  "started_ehdr e eh = init_ehdr (e_class e) EV_CURRENT (of_nat (hdr_end (e_class e)))
     (if e_nphdr e = 0 then 0 else of_nat (fsize_table (e_class e) ELF_T_PHDR)) (of_nat (fsize_table (e_class e) ELF_T_SHDR)) eh"

definition started :: "Elf \<Rightarrow> ehdr \<Rightarrow> Elf" where
  "started e eh = e\<lparr>e_byteorder := ucast (ehdr_ident eh ! EI_DATA), e_ehdr := Some (started_ehdr e eh),
     e_flags := e_flags e OR ELF_F_DIRTY\<rparr>"

definition ehdr_extent :: "int \<Rightarrow> Elf_Extent" where
  "ehdr_extent ec = \<lparr>ex_start = 0, ex_size = of_nat (hdr_end ec), ex_type = ELF_EXTENT_EHDR, ex_desc = None\<rparr>"

lemma libelf_ehdr_there:
  assumes "get_elf st i = Some e" "e_kind e = ELF_K_ELF" "e_version e = EV_CURRENT" "e_ehdr e \<noteq> None"
    "e_class e = ELFCLASS32 \<or> e_class e = ELFCLASS64"
  shows "libelf_ehdr st (Some i) (e_class e) a = Some (True, st)"
  using ehdr_cached[OF assms(1,4,2,3,5)] put_elf_self[OF assms(1)] by simp

lemma resync_ehdr_ok:
  assumes c: "creating st i e eh"
  shows "\<exists>r st' e'. resync_ehdr st i = Some (r, st') \<and> quiet (put_elf i e' st) st'
    \<and> (r = None \<and> \<not> (never_fails st \<and> ehdr_update_error e eh = None)
       \<or> r = Some (of_nat (hdr_end (e_class e)), [ehdr_extent (e_class e)])
         \<and> ehdr_update_error e eh = None \<and> e' = started e eh)"
proof -
  note C = creatingD[OF c] and H = header_sizes[OF creatingD(10)[OF c]]
  note self = put_elf_self[OF C(1)]
  have h: "libelf_ehdr st (Some i) (e_class e) False = Some (True, st)"
    by (rule libelf_ehdr_there) (use C in simp_all)
  show ?thesis
  proof (cases "ehdr_update_error e eh")
    case (Some err)
    have "resync_ehdr st i = Some (None, set_error err 0 st)"
      using C h Some by (auto simp: resync_ehdr_def)
    then show ?thesis by (intro exI[of _ None] exI[of _ "set_error err 0 st"] exI[of _ e]) (simp add: self Some)
  next
    case None
    let ?v = "if ehdr_version eh = EV_NONE then EV_CURRENT else ehdr_version eh"
    have v: "?v = EV_CURRENT" using None C(8) unfolding ehdr_update_error_def by (auto split: if_splits)
    let ?e1 = "e\<lparr>e_byteorder := ucast (ehdr_ident eh ! EI_DATA)\<rparr>"
    let ?e2 = "?e1\<lparr>e_ehdr := Some (started_ehdr e eh)\<rparr>"
    have i: "initialize_ehdr (put_elf i ?e1 st) i EV_CURRENT = Some (put_elf i ?e2 st)"
      using C(5) H(1-3) by (simp add: initialize_ehdr_def started_ehdr_def Let_def)
    have f: "\<exists>r. elf_flagehdr (put_elf i ?e2 st) (Some i) ELF_C_SET ELF_F_DIRTY = Some (r, put_elf i (started e eh) st)"
      using C(7,10) by (auto simp: elf_flagehdr_def elf_flagelf_def Let_def flag_update_def started_def)
    then obtain r where f: "elf_flagehdr (put_elf i ?e2 st) (Some i) ELF_C_SET ELF_F_DIRTY = Some (r, put_elf i (started e eh) st)" by blast
    let ?st = "put_elf i (started e eh) st"
    have z: "resync_ehdr st i = (let (r, st) = insert_extent ?st [] ELF_EXTENT_EHDR 0 (of_nat (hdr_end (e_class e))) None
        in Some (map_option (Pair (of_nat (hdr_end (e_class e)))) r, st))"
      unfolding resync_ehdr_def C(1) bind.simps h prod.case C(5) None option.case Let_def v i f H(1)
      using C(10) by simp
    show ?thesis unfolding z
      using insert_at_end[of 0 "[]" 0 0 ?st ELF_EXTENT_EHDR "of_nat (hdr_end (e_class e))" None]
      using never_fails_alloc[of ?st]
      by (auto simp: ehdr_extent_def None intro: exI[of _ "started e eh"])
  qed
qed

section \<open>The tables\<close>

definition phdr_extents :: "Elf \<Rightarrow> Elf_Extent list" where
  "phdr_extents e = (if e_nphdr e = 0 then [] else
     [\<lparr>ex_start = of_nat (ph_start (e_class e)), ex_size = of_nat (fsize_table (e_class e) ELF_T_PHDR * unat (e_nphdr e)),
       ex_type = ELF_EXTENT_PHDR, ex_desc = None\<rparr>])"

definition shdr_extents :: "Elf \<Rightarrow> Elf_Extent list" where
  "shdr_extents e = (if e_nscn e = 0 then [] else
     [\<lparr>ex_start = of_nat (sh_start e), ex_size = of_nat (fsize_table (e_class e) ELF_T_SHDR * unat (e_nscn e)),
       ex_type = ELF_EXTENT_SHDR, ex_desc = None\<rparr>])"

lemma header_aligns:
  assumes "ec = ELFCLASS32 \<or> ec = ELFCLASS64"
  shows "libelf_falign ELF_T_PHDR ec \<in> {4, 8}" "libelf_falign ELF_T_SHDR ec \<in> {4, 8}"
  using assms by (auto simp: libelf_falign_def)

lemma unat_small_nat: "n < 2 ^ 63 \<Longrightarrow> unat (of_nat n :: u64) = n"
  by (simp add: unat_of_nat)

lemma chained_ehdr:
  assumes "ec = ELFCLASS32 \<or> ec = ELFCLASS64"
  shows "chained 0 [ehdr_extent ec] (hdr_end ec)"
  using header_sizes(4)[OF assms] by (auto simp: ehdr_extent_def ex_end_def)

text \<open>A table of \<open>k\<close> entries behind the end \<open>x\<close> of what is laid out.\<close>

lemma insert_table:
  assumes ec: "ec = ELFCLASS32 \<or> ec = ELFCLASS64" and t: "t = ELF_T_PHDR \<or> t = ELF_T_SHDR"
    and k: "k \<noteq> 0" and ch: "chained 0 exs x"
    and b: "align_up (libelf_falign t ec) x + fsize_table ec t * unat k < 2 ^ 63"
  obtains z where "libelf_fsize st t ec EV_CURRENT k = (z, st)" "z = of_nat (fsize_table ec t * unat k)"
    "c_roundup (of_nat x) (of_nat (libelf_falign t ec)) = of_nat (align_up (libelf_falign t ec) x)"
    "insert_extent st' exs ty (of_nat (align_up (libelf_falign t ec) x)) z None =
       (if fst (c_alloc st') then (Some (exs @ [\<lparr>ex_start = of_nat (align_up (libelf_falign t ec) x), ex_size = z,
          ex_type = ty, ex_desc = None\<rparr>]), snd (c_alloc st'))
        else (None, set_error ELF_E_RESOURCE ENOMEM (snd (c_alloc st'))))"
    "chained 0 (exs @ [\<lparr>ex_start = of_nat (align_up (libelf_falign t ec) x), ex_size = z, ex_type = ty, ex_desc = None\<rparr>])
       (align_up (libelf_falign t ec) x + fsize_table ec t * unat k)"
    "x < 2 ^ 63"
proof -
  let ?a = "libelf_falign t ec" and ?f = "fsize_table ec t"
  have a: "?a \<in> {4, 8}" "0 < ?a" using header_aligns[OF ec] t by auto
  have f: "elf_type_valid t" "0 < ?f" using t header_sizes(5,6)[OF ec] by auto
  have x: "x \<le> align_up ?a x" by (rule align_up_bounds(1)[OF a(2)])
  then have x63: "x < 2 ^ 63" using b by simp
  have "?f * unat k < 2 ^ 64" using b by simp
  then obtain z where z: "libelf_fsize st t ec EV_CURRENT k = (z, st)" "unat z = ?f * unat k"
    by (rule fsize_count[OF f(1) ec f(2)])
  have ua: "unat (of_nat ?a :: u64) = ?a" using a(1) by auto
  have off: "unat (of_nat (align_up ?a x) :: u64) = align_up ?a x" using b by (intro unat_small_nat) simp
  have "c_roundup (of_nat x) (of_nat ?a) = of_nat (align_up (unat (of_nat ?a :: u64)) x)"
    by (rule word_of_unat, rule c_roundup_nat) (use a b ua x63 in auto)
  then have r: "c_roundup (of_nat x) (of_nat ?a) = of_nat (align_up ?a x)" unfolding ua .
  have "0 < unat z" using f(2) k by (simp add: z(2) unat_gt_0)
  then have z0: "z \<noteq> 0" by (simp add: unat_gt_0)
  show thesis
    by (rule that[OF z(1) word_of_unat[OF z(2)] r insert_at_end[OF ch] _ x63])
      (use x off chained_snoc[OF ch _ z0, of "of_nat (align_up ?a x)"] z(2) in simp_all)
qed

lemma resync_phdr_ok:
  assumes e: "get_elf st i = Some e" "lib_layout e" "e_ehdr e \<noteq> None" "e_nphdr e \<noteq> 0 \<Longrightarrow> e_phdr e \<noteq> None"
    and b: "ph_end e < 2 ^ 63"
  shows "\<exists>r st'. resync_phdr st i (of_nat (hdr_end (e_class e))) [ehdr_extent (e_class e)] = Some (r, st') \<and> quiet st st'
    \<and> (r = None \<and> \<not> never_fails st \<or> r = Some (of_nat (ph_end e), if e_nphdr e = 0 then 0 else of_nat (ph_start (e_class e)),
           ehdr_extent (e_class e) # phdr_extents e)
         \<and> chained 0 (ehdr_extent (e_class e) # phdr_extents e) (ph_end e))"
proof -
  have ec: "e_class e = ELFCLASS32 \<or> e_class e = ELFCLASS64" and v: "e_version e = EV_CURRENT" and lay: "\<not> app_layout e"
    and kind: "e_kind e = ELF_K_ELF"
    using e(2) by (simp_all add: lib_layout_def)
  obtain eh where eh: "e_ehdr e = Some eh" using e(3) by blast
  note ch = chained_ehdr[OF ec]
  show ?thesis
  proof (cases "e_nphdr e = 0")
    case True
    then show ?thesis using e(1) eh ch by (simp add: resync_phdr_def phdr_extents_def ph_end_def)
  next
    case False
    then have fin: "ph_end e = align_up (libelf_falign ELF_T_PHDR (e_class e)) (hdr_end (e_class e))
        + fsize_table (e_class e) ELF_T_PHDR * unat (e_nphdr e)"
      by (simp add: ph_end_def ph_start_def)
    have g: "libelf_getphdr st (Some i) (e_class e) = Some (True, st)"
      using e(1,4) False ec kind by (simp add: libelf_getphdr_def)
    show ?thesis
    proof (rule insert_table[OF ec disjI1[OF refl] False ch b[unfolded fin], where st = st and st' = st and ty = ELF_EXTENT_PHDR])
      fix z assume z: "libelf_fsize st ELF_T_PHDR (e_class e) EV_CURRENT (e_nphdr e) = (z, st)"
        "z = of_nat (fsize_table (e_class e) ELF_T_PHDR * unat (e_nphdr e))"
        "c_roundup (of_nat (hdr_end (e_class e))) (of_nat (libelf_falign ELF_T_PHDR (e_class e)))
           = of_nat (align_up (libelf_falign ELF_T_PHDR (e_class e)) (hdr_end (e_class e)))"
        "insert_extent st [ehdr_extent (e_class e)] ELF_EXTENT_PHDR
            (of_nat (align_up (libelf_falign ELF_T_PHDR (e_class e)) (hdr_end (e_class e)))) z None =
          (if fst (c_alloc st) then (Some ([ehdr_extent (e_class e)] @ [\<lparr>ex_start = of_nat (align_up (libelf_falign ELF_T_PHDR (e_class e))
              (hdr_end (e_class e))), ex_size = z, ex_type = ELF_EXTENT_PHDR, ex_desc = None\<rparr>]), snd (c_alloc st))
           else (None, set_error ELF_E_RESOURCE ENOMEM (snd (c_alloc st))))"
        "chained 0 ([ehdr_extent (e_class e)] @ [\<lparr>ex_start = of_nat (align_up (libelf_falign ELF_T_PHDR (e_class e))
              (hdr_end (e_class e))), ex_size = z, ex_type = ELF_EXTENT_PHDR, ex_desc = None\<rparr>])
           (align_up (libelf_falign ELF_T_PHDR (e_class e)) (hdr_end (e_class e)) + fsize_table (e_class e) ELF_T_PHDR * unat (e_nphdr e))"
      have "of_nat (align_up (libelf_falign ELF_T_PHDR (e_class e)) (hdr_end (e_class e))) + z = of_nat (ph_end e)"
        unfolding z(2) fin by simp
      moreover have nf: "\<not> fst (c_alloc st) \<longrightarrow> \<not> never_fails st" using never_fails_alloc by blast
      ultimately show ?thesis
        using e(1) eh False lay v z(1,3,4,5) g nf unfolding fin
        by (simp add: resync_phdr_def phdr_extents_def ph_start_def z(2)[symmetric] Let_def)
    qed
  qed
qed

lemma sint_of_small: "n < 2 ^ 63 \<Longrightarrow> sint (of_nat n :: u64) = int n"
  by (simp add: signed_of_nat signed_take_bit_int_eq_self)

lemma resync_shdr_ok:
  assumes e: "get_elf st i = Some e" "lib_layout e" "e_ehdr e \<noteq> None" and ch: "chained 0 exs x"
    and x: "sh = align_up (libelf_falign ELF_T_SHDR (e_class e)) x" "n \<noteq> 0 \<Longrightarrow> y = sh + fsize_table (e_class e) ELF_T_SHDR * unat n"
      "n = 0 \<Longrightarrow> y = x" "y < 2 ^ 63"
  shows "\<exists>r st'. resync_shdr st i n (of_nat x) exs = Some (r, st') \<and> quiet st st'
    \<and> (r = None \<and> \<not> never_fails st \<or> (\<exists>exs'. r = Some (of_nat y, if n = 0 then 0 else of_nat sh, exs')
         \<and> exs' = exs @ (if n = 0 then [] else [\<lparr>ex_start = of_nat sh,
             ex_size = of_nat (fsize_table (e_class e) ELF_T_SHDR * unat n), ex_type = ELF_EXTENT_SHDR, ex_desc = None\<rparr>])
         \<and> chained 0 exs' y))"
proof -
  have ec: "e_class e = ELFCLASS32 \<or> e_class e = ELFCLASS64" and v: "e_version e = EV_CURRENT" and lay: "\<not> app_layout e"
    using e(2) by (simp_all add: lib_layout_def)
  obtain eh where eh: "e_ehdr e = Some eh" using e(3) by blast
  show ?thesis
  proof (cases "n = 0")
    case True
    then show ?thesis using e(1) eh ch x(3) by (simp add: resync_shdr_def)
  next
    case False
    let ?f = "fsize_table (e_class e) ELF_T_SHDR * unat n"
    let ?ex = "\<lparr>ex_start = of_nat sh, ex_size = of_nat ?f, ex_type = ELF_EXTENT_SHDR, ex_desc = None\<rparr>"
    have y: "y = sh + ?f" by (rule x(2)[OF False])
    have b: "align_up (libelf_falign ELF_T_SHDR (e_class e)) x + ?f < 2 ^ 63" using x(1,4) y by simp
    show ?thesis
    proof (rule insert_table[OF ec disjI2[OF refl] False ch b, where st = st and st' = st and ty = ELF_EXTENT_SHDR, folded x(1)])
      fix z assume z: "libelf_fsize st ELF_T_SHDR (e_class e) EV_CURRENT n = (z, st)" "z = of_nat ?f"
        "c_roundup (of_nat x) (of_nat (libelf_falign ELF_T_SHDR (e_class e))) = of_nat sh"
        "insert_extent st exs ELF_EXTENT_SHDR (of_nat sh) z None =
          (if fst (c_alloc st) then (Some (exs @ [\<lparr>ex_start = of_nat sh, ex_size = z, ex_type = ELF_EXTENT_SHDR, ex_desc = None\<rparr>]),
             snd (c_alloc st)) else (None, set_error ELF_E_RESOURCE ENOMEM (snd (c_alloc st))))"
        "chained 0 (exs @ [\<lparr>ex_start = of_nat sh, ex_size = z, ex_type = ELF_EXTENT_SHDR, ex_desc = None\<rparr>]) (sh + ?f)" "x < 2 ^ 63"
      have sum: "of_nat sh + z = (of_nat y :: u64)" unfolding z(2) y by simp
      have "x \<le> y" unfolding y x(1) using align_up_bounds(1)[of "libelf_falign ELF_T_SHDR (e_class e)" x] header_aligns(2)[OF ec] by auto
      then have i: "of_nat x = (of_nat y :: u64)" if "\<not> sint (of_nat x :: u64) < sint (of_nat y :: u64)"
        using that unfolding sint_of_small[OF x(4)] sint_of_small[OF z(6)] by simp
      have "resync_shdr st i n (of_nat x) exs = (if fst (c_alloc st)
          then Some (Some (of_nat y, of_nat sh, exs @ [?ex]), snd (c_alloc st))
          else Some (None, set_error ELF_E_RESOURCE ENOMEM (snd (c_alloc st))))"
        using e(1) eh False lay v z(1,3) z(4)[unfolded z(2)] sum[unfolded z(2)] i
        by (simp add: resync_shdr_def z(2) Let_def del: of_nat_mult)
      then show ?thesis using z(5) False never_fails_alloc[of st] unfolding z(2) y by auto
    qed
  qed
qed

section \<open>The counts\<close>

definition counts_shdr :: "u64 \<Rightarrow> u64 \<Rightarrow> shdr \<Rightarrow> shdr" where
  "counts_shdr ph sn sh =
     (case sh of
        Sh32 h \<Rightarrow> Sh32 (h\<lparr>sh_size32 := (if sn \<ge> SHN_LORESERVE then ucast sn else sh_size32 h),
          sh_info32 := (if ph \<ge> PN_XNUM then ucast ph else sh_info32 h)\<rparr>)
      | Sh64 h \<Rightarrow> Sh64 (h\<lparr>sh_size := (if sn \<ge> SHN_LORESERVE then sn else sh_size h),
          sh_info := (if ph \<ge> PN_XNUM then ucast ph else sh_info h)\<rparr>))"

lemma counts_shdr_set:
  "counts_shdr ph sn sh = (let sh = (if ph \<ge> PN_XNUM then set_sh_info ph sh else sh)
     in if sn \<ge> SHN_LORESERVE then set_sh_size sn sh else sh)"
  by (cases sh) (simp_all add: counts_shdr_def)

text \<open>Section 0 holds the counts that do not fit the header.\<close>

definition counts_scn :: "u64 \<Rightarrow> u64 \<Rightarrow> Elf_Scn \<Rightarrow> Elf_Scn" where
  "counts_scn ph sn s = (if ph \<ge> PN_XNUM \<or> sn \<ge> SHN_LORESERVE
     then s\<lparr>s_shdr := counts_shdr ph sn (s_shdr s), s_flags := s_flags s OR ELF_F_DIRTY\<rparr> else s)"

definition counts_scns :: "u64 \<Rightarrow> u64 \<Rightarrow> (nat \<Rightarrow> Elf_Scn option) \<Rightarrow> nat \<Rightarrow> Elf_Scn option" where
  "counts_scns ph sn X = X(0 := map_option (counts_scn ph sn) (X 0))"

definition counts_ehdr :: "u64 \<Rightarrow> u64 \<Rightarrow> ehdr \<Rightarrow> ehdr" where
  "counts_ehdr ph sn eh = set_e_shnum (if sn \<ge> SHN_LORESERVE then 0 else ucast sn)
     (set_e_phnum (if ph \<ge> PN_XNUM then ucast PN_XNUM else ucast ph) eh)"

lemma or_twice: "(a OR b) OR b = a OR (b :: u32)"
  by (simp add: or.assoc)

lemma ehdr_update_eq:
  "get_elf st i = Some e \<Longrightarrow> e_ehdr e = Some eh \<Longrightarrow> ehdr_update st i f = Some (True, put_elf i (e\<lparr>e_ehdr := Some (f eh)\<rparr>) st)"
  by (simp add: ehdr_update_def)

lemma setphnum_eq:
  assumes e: "get_elf st i = Some e" "e_ehdr e = Some eh" and inv: "ph \<ge> PN_XNUM \<Longrightarrow> elf_inv st e \<and> e_scns e 0 \<noteq> None"
  shows "libelf_setphnum st i ph = Some (True, put_elf i (e\<lparr>e_scns := counts_scns ph 0 (e_scns e),
    e_ehdr := Some (set_e_phnum (if ph \<ge> PN_XNUM then ucast PN_XNUM else ucast ph) eh)\<rparr>) st)"
proof (cases "ph \<ge> PN_XNUM")
  case True
  then obtain s where s: "e_scns e 0 = Some s" "elf_inv st e" using inv by auto
  show ?thesis using True scn0_update_ok[OF e(1) s(2,1), of "set_sh_info ph"] s(1) e
    by (simp add: libelf_setphnum_def ehdr_update_eq counts_scns_def counts_scn_def counts_shdr_set)
next
  case False
  have "counts_scns ph 0 (e_scns e) = e_scns e"
    using False by (cases "e_scns e 0") (auto simp: counts_scns_def counts_scn_def)
  then show ?thesis using False e by (simp add: libelf_setphnum_def ehdr_update_eq)
qed

lemma write_inv:
  "e_cmd e = ELF_C_WRITE \<Longrightarrow> scn_inv e \<Longrightarrow> e_ehdr e = Some eh \<Longrightarrow> ehdr_fits (e_class e) eh \<Longrightarrow> elf_inv st e"
  by (auto simp: elf_inv_def hdr_inv_def ehdr_fits_def)

lemma counts_scns_inv: "scn_inv e \<Longrightarrow> e_scn e' = e_scn e \<Longrightarrow> e_scns e' = counts_scns ph sn (e_scns e) \<Longrightarrow> scn_inv e'"
  by (auto simp: scn_inv_def counts_scns_def counts_scn_def dom_def split: if_splits)

lemma ident_fields [simp]:
  "ehdr_ident (set_e_shnum v eh) = ehdr_ident eh" "ehdr_ident (set_e_phnum v eh) = ehdr_ident eh"
  "ehdr_ident (set_e_offsets a b eh) = ehdr_ident eh"
  by (cases eh; simp)+

lemma ehdr_fits_kept [simp]:
  "ehdr_fits ec (set_e_shnum v eh) = ehdr_fits ec eh" "ehdr_fits ec (set_e_phnum v eh) = ehdr_fits ec eh"
  "ehdr_fits ec (set_e_offsets a b eh) = ehdr_fits ec eh"
  by (cases eh; simp add: ehdr_fits_def)+

lemma resync_counts_eq:
  assumes e: "get_elf st i = Some e" "e_ehdr e = Some eh" "e_cmd e = ELF_C_WRITE" "scn_inv e" "ehdr_fits (e_class e) eh"
    and lay: "\<not> app_layout e" and s0: "ph \<ge> PN_XNUM \<or> sn \<ge> SHN_LORESERVE \<Longrightarrow> e_scns e 0 \<noteq> None"
  shows "resync_counts st i ph sn po so = Some (put_elf i (e\<lparr>e_scns := counts_scns ph sn (e_scns e),
    e_ehdr := Some (set_e_offsets po so (counts_ehdr ph sn eh))\<rparr>) st)"
proof -
  let ?eh1 = "set_e_phnum (if ph \<ge> PN_XNUM then ucast PN_XNUM else ucast ph) eh"
  let ?e1 = "e\<lparr>e_scns := counts_scns ph 0 (e_scns e), e_ehdr := Some ?eh1\<rparr>"
  let ?e2 = "e\<lparr>e_scns := counts_scns ph sn (e_scns e), e_ehdr := Some (counts_ehdr ph sn eh)\<rparr>"
  let ?st1 = "put_elf i ?e1 st"
  have p: "libelf_setphnum st i ph = Some (True, ?st1)"
    by (rule setphnum_eq[OF e(1,2)]) (use s0 write_inv[OF e(3,4,2,5)] in auto)
  have inv1: "elf_inv ?st1 ?e1"
    by (rule write_inv[where eh = ?eh1]) (use e counts_scns_inv[OF e(4), where e' = ?e1 and ph = ph and sn = 0] in simp_all)
  have n: "libelf_setshnum ?st1 i sn = Some (True, put_elf i ?e2 st)"
  proof (cases "sn \<ge> SHN_LORESERVE")
    case True
    then obtain s where s: "e_scns e 0 = Some s" using s0 by auto
    have s1: "e_scns ?e1 0 = Some (counts_scn ph 0 s)" using s by (simp add: counts_scns_def)
    have "scn0_update ?st1 i (set_sh_size sn) = Some (True, put_elf i (?e1\<lparr>e_scns := (e_scns ?e1)(0 \<mapsto> counts_scn ph sn s)\<rparr>) st)"
      using scn0_update_ok[OF _ inv1 s1, of i "set_sh_size sn"] True
      by (simp add: counts_scn_def counts_shdr_set or_twice)
    then show ?thesis using True s
      by (simp add: libelf_setshnum_def ehdr_update_eq counts_ehdr_def counts_scns_def)
  next
    case False
    then have "counts_scn ph sn = counts_scn ph 0" by (intro ext) (simp add: counts_scn_def counts_shdr_set)
    then have "counts_scns ph sn = counts_scns ph 0" by (intro ext) (simp add: counts_scns_def)
    then show ?thesis using False by (simp add: libelf_setshnum_def ehdr_update_eq counts_ehdr_def)
  qed
  show ?thesis using p n lay by (simp add: resync_counts_def ehdr_update_eq app_layout_def)
qed

section \<open>The whole object\<close>

definition object_extents :: "Elf \<Rightarrow> (nat \<Rightarrow> Elf_Scn option) \<Rightarrow> Elf_Extent list" where
  "object_extents e X = ehdr_extent (e_class e) # phdr_extents e @ scn_extents X (inorder (e_scn e)) @ shdr_extents e"

text \<open>
  The header of the object, with every member the library sets: the magic number, class and version of the identification, the
  offsets and entry sizes of the tables, the size of the header and the counts. The rest is the application's.
\<close>

definition laid_out_ident :: "int \<Rightarrow> bytes \<Rightarrow> bytes" where
  "laid_out_ident ec ident = ident[0 := 0x7f, 1 := 0x45, 2 := 0x4c, 3 := 0x46, 4 := of_int ec, 6 := 1]"

definition laid_out_ehdr :: "Elf \<Rightarrow> ehdr \<Rightarrow> ehdr" where
  "laid_out_ehdr e eh =
     (let ec = e_class e;
          phoff = (if e_nphdr e = 0 then 0 else ph_start ec);
          shoff = (if e_nscn e = 0 then 0 else sh_start e);
          phsize = (if e_nphdr e = 0 then 0 else fsize_table ec ELF_T_PHDR);
          shsize = fsize_table ec ELF_T_SHDR;
          phnum = (if e_nphdr e \<ge> PN_XNUM then PN_XNUM else e_nphdr e);
          shnum = (if e_nscn e \<ge> SHN_LORESERVE then 0 else e_nscn e)
      in case eh of
           Eh32 h \<Rightarrow> Eh32 (h\<lparr>e_ident32 := laid_out_ident ec (e_ident32 h), e_phoff32 := of_nat phoff, e_shoff32 := of_nat shoff,
             e_ehsize32 := of_nat (hdr_end ec), e_phentsize32 := of_nat phsize, e_phnum32 := ucast phnum,
             e_shentsize32 := of_nat shsize, e_shnum32 := ucast shnum\<rparr>)
         | Eh64 h \<Rightarrow> Eh64 (h\<lparr>e_ident := laid_out_ident ec (e_ident h), e_phoff := of_nat phoff, e_shoff := of_nat shoff,
             e_ehsize := of_nat (hdr_end ec), e_phentsize := of_nat phsize, e_phnum := ucast phnum,
             e_shentsize := of_nat shsize, e_shnum := ucast shnum\<rparr>))"

lemma laid_out_ident_init: "laid_out_ident ec ident = init_ident ec EV_CURRENT ident"
  by (simp add: laid_out_ident_def init_ident_def)

lemma ucast_16_of_nat: "ucast (of_nat n :: u64) = (of_nat n :: u16)"
  by (simp add: unsigned_of_nat word_of_nat_eq_iff take_bit_take_bit)

text \<open>The same header as the steps of the code make it.\<close>

lemma laid_out_ehdr_set:
  "laid_out_ehdr e eh = set_e_offsets (if e_nphdr e = 0 then 0 else of_nat (ph_start (e_class e)))
     (if e_nscn e = 0 then 0 else of_nat (sh_start e)) (counts_ehdr (e_nphdr e) (e_nscn e) (started_ehdr e eh))"
  by (cases eh) (simp_all add: laid_out_ehdr_def Let_def counts_ehdr_def started_ehdr_def laid_out_ident_init
      ucast_16_of_nat ucast_word_of_nat)

text \<open>The sections of the object, laid out one behind the other in the order of their indices.\<close>

definition laid_scns :: "Elf \<Rightarrow> nat \<Rightarrow> Elf_Scn option" where
  "laid_scns e = placed_scns (e_class e) (e_scns e) (inorder (e_scn e)) (ph_end e)"

definition laid_out :: "Elf \<Rightarrow> ehdr \<Rightarrow> (nat \<Rightarrow> Elf_Scn option) \<Rightarrow> Elf" where
  "laid_out e eh X = e\<lparr>e_byteorder := ucast (ehdr_ident eh ! EI_DATA), e_flags := e_flags e OR ELF_F_DIRTY,
     e_scns := counts_scns (e_nphdr e) (e_nscn e) X, e_ehdr := Some (laid_out_ehdr e eh)\<rparr>"

lemma ident_init [simp]: "length (ehdr_ident (init_ehdr ec v a b c eh)) = length (ehdr_ident eh)"
  by (cases eh) (simp_all add: init_ident_def)

lemma ehdr_fits_init [simp]: "ehdr_fits ec (init_ehdr ec' v a b c eh) = ehdr_fits ec eh"
  by (cases eh; simp add: ehdr_fits_def init_ident_def)

lemma area_end_ge: "hdr_end (e_class e) \<le> ph_end e" "ph_end e \<le> area_end e" "area_end e \<le> object_size e"
  if "e_class e = ELFCLASS32 \<or> e_class e = ELFCLASS64"
  using align_up_bounds(1)[of "libelf_falign ELF_T_PHDR (e_class e)" "hdr_end (e_class e)"]
    align_up_bounds(1)[of "libelf_falign ELF_T_SHDR (e_class e)" "area_end e"] header_aligns[OF that]
    scns_end_ge[of "ph_end e" "e_class e" "object_scns e"]
  by (auto simp: ph_end_def ph_start_def object_size_def sh_start_def area_end_def)

lemma sections_placed_inv:
  assumes "scn_inv e" "sections_placed e (inorder (e_scn e)) X" "e_scn e' = e_scn e" "e_scns e' = X"
  shows "scn_inv e'"
proof -
  have k: "set (inorder (e_scn e)) = dom (e_scns e)" using assms(1) by (simp add: scn_inv_def rb_keys_def)
  have x: "if n \<in> dom (e_scns e) then \<exists>s'. X n = Some s' \<and> scn_laid_out (e_class e) (the (e_scns e n)) s' else X n = None" for n
    using assms(2) unfolding sections_placed_def k by (metis domIff)
  have "s_ndx s' = s_ndx s" if "scn_laid_out (e_class e) s s'" for s s'
    using that placed_scn_fields(3) by (auto simp: scn_laid_out_def split: if_splits)
  then have "s_ndx s' = n" if "X n = Some s'" for n s'
    using x[of n] that assms(1) by (auto simp: scn_inv_def split: if_splits)
  moreover have "X n = None \<longleftrightarrow> e_scns e n = None" for n using x[of n] by (auto split: if_splits)
  then have "dom X = dom (e_scns e)" by (simp add: dom_def)
  ultimately show ?thesis using assms(1,3,4) by (simp add: scn_inv_def)
qed

text \<open>Why the layout can fail: memory, the header, or a section whose place cannot be computed.\<close>

definition can_lay_out :: "libelf_state \<Rightarrow> Elf \<Rightarrow> ehdr \<Rightarrow> bool" where
  "can_lay_out st e eh \<longleftrightarrow> never_fails st \<and> ehdr_update_error e eh = None \<and> scns_valid e (inorder (e_scn e))"

text \<open>The stages of \<open>_libelf_resync_elf\<close> for the object: the program header table, the sections, the section header table
  and the counts. Each starts from a descriptor whose header was started.\<close>

lemma started_fields:
  assumes "creating st i e eh"
  shows "e_class (started e eh) = e_class e" "e_nphdr (started e eh) = e_nphdr e" "e_nscn (started e eh) = e_nscn e"
    "e_scns (started e eh) = e_scns e" "e_scn (started e eh) = e_scn e" "e_ehdr (started e eh) = Some (started_ehdr e eh)"
    "e_cmd (started e eh) = ELF_C_WRITE" "e_phdr (started e eh) = e_phdr e" "ph_end (started e eh) = ph_end e"
    "phdr_extents (started e eh) = phdr_extents e" "lib_layout (started e eh)"
  using creatingD(2,3)[OF assms]
  by (simp_all add: started_def ph_end_def phdr_extents_def lib_layout_def app_layout_def bit.conj_disj_distrib2)

lemma phdr_stage:
  assumes c: "creating st i e eh" and small: "ph_end e < 2 ^ 63" and q: "quiet (put_elf i (started e eh) st) st1"
  obtains r st2 where "resync_phdr st1 i (of_nat (hdr_end (e_class e))) [ehdr_extent (e_class e)] = Some (r, st2)"
    "quiet (put_elf i (started e eh) st) st2"
    "r = None \<and> \<not> can_lay_out st e eh
      \<or> r = Some (of_nat (ph_end e), if e_nphdr e = 0 then 0 else of_nat (ph_start (e_class e)), ehdr_extent (e_class e) # phdr_extents e)
        \<and> chained 0 (ehdr_extent (e_class e) # phdr_extents e) (ph_end e)"
proof -
  note E = started_fields[OF c]
  have g: "get_elf st1 i = Some (started e eh)" using quiet_fields(1)[OF q, of i] by simp
  have ph: "e_nphdr (started e eh) \<noteq> 0 \<Longrightarrow> e_phdr (started e eh) \<noteq> None" using c unfolding E by (auto simp: creating_def)
  from resync_phdr_ok[OF g E(11) _ ph, unfolded E] small obtain r st2 where r:
    "resync_phdr st1 i (of_nat (hdr_end (e_class e))) [ehdr_extent (e_class e)] = Some (r, st2)" "quiet st1 st2"
    "r = None \<and> \<not> never_fails st1
      \<or> r = Some (of_nat (ph_end e), if e_nphdr e = 0 then 0 else of_nat (ph_start (e_class e)), ehdr_extent (e_class e) # phdr_extents e)
        \<and> chained 0 (ehdr_extent (e_class e) # phdr_extents e) (ph_end e)" by auto
  then show thesis using quiet_never_fails[OF q]
    by (intro that[OF r(1) quiet_trans[OF q r(2)]]) (auto simp: can_lay_out_def)
qed

lemma sections_stage:
  assumes c: "creating st i e eh" and small: "area_end e < 2 ^ 63" and q: "quiet (put_elf i (started e eh) st) st2"
    and ch: "chained 0 exs (ph_end e)"
  obtains rc exs' X st3 where "resync_sections st2 i (of_nat (ph_end e)) exs = Some (rc, exs', st3)"
    "quiet (put_elf i ((started e eh)\<lparr>e_scns := X\<rparr>) st) st3"
    "sint rc < 0 \<and> \<not> can_lay_out st e eh
      \<or> \<not> sint rc < 0 \<and> rc = of_nat (area_end e) \<and> sections_placed e (inorder (e_scn e)) X \<and> X = laid_scns e
        \<and> exs' = exs @ scn_extents X (inorder (e_scn e)) \<and> chained 0 exs' (area_end e)"
proof -
  note C = creatingD[OF c] and E = started_fields[OF c]
  have g: "get_elf st2 i = Some (started e eh)" using quiet_fields(1)[OF q, of i] by simp
  have k: "set (inorder (e_scn e)) = dom (e_scns e)" "distinct (inorder (e_scn e))"
    using C(4) by (auto simp: scn_inv_def rb_keys_def rb_inv_def strict_sorted_iff)
  have dom: "\<forall>n\<in>set (inorder (e_scn (started e eh))). \<exists>s. e_scns (started e eh) n = Some s \<and> aligned_data s"
    using k(1) c unfolding E creating_def by auto
  have area: "scns_end (e_class e) (map (\<lambda>n. the (e_scns e n)) (inorder (e_scn e))) (ph_end e) = area_end e"
    by (simp add: area_end_def object_scns_def)
  have bound: "scns_end (e_class e) (map (\<lambda>n. the (e_scns e n)) (inorder (e_scn e))) (ph_end e) < 2 ^ 63"
    unfolding area by (rule small)
  from resync_scns_ok[OF g E(11,7) _ dom, unfolded E lays_sections_def, OF k(2) bound ch, unfolded area, folded laid_scns_def] obtain rc exs' X st3 where r:
    "resync_scns st2 i (inorder (e_scn e)) (of_nat (ph_end e)) exs = Some (rc, exs', st3)"
    "quiet (put_elf i ((started e eh)\<lparr>e_scns := X\<rparr>) st2) st3"
    "rc = - 1 \<and> \<not> (never_fails st2 \<and> scns_valid (started e eh) (inorder (e_scn e)))
      \<or> rc = of_nat (area_end e) \<and> sections_placed (started e eh) (inorder (e_scn e)) X
        \<and> X = laid_scns e \<and> exs' = exs @ scn_extents X (inorder (e_scn e)) \<and> chained 0 exs' (area_end e)"
    by (elim exE conjE) (rule that)
  have "resync_sections st2 i (of_nat (ph_end e)) exs = Some (rc, exs', st3)" using g r(1) E by (simp add: resync_sections_def)
  moreover have "\<not> sint (of_nat (area_end e) :: u64) < 0" "sint (- 1 :: u64) < 0" unfolding sint_of_small[OF small] by simp_all
  moreover have "\<not> can_lay_out st e eh" if "\<not> (never_fails st2 \<and> scns_valid (started e eh) (inorder (e_scn e)))"
    using that quiet_never_fails[OF q] by (auto simp: can_lay_out_def scns_valid_def E)
  moreover have "sections_placed (started e eh) (inorder (e_scn e)) X = sections_placed e (inorder (e_scn e)) X"
    unfolding sections_placed_def E ..
  ultimately show thesis using r(3) by (intro that[OF _ quiet_trans[OF quiet_put_put[OF q] r(2)]]) auto
qed

lemma table_stage:
  assumes c: "creating st i e eh" and sz: "object_size e < 2 ^ 63" and q: "quiet (put_elf i ((started e eh)\<lparr>e_scns := X\<rparr>) st) st3"
    and ch: "chained 0 exs (area_end e)"
  obtains r st4 where "resync_shdr st3 i (e_nscn e) (of_nat (area_end e)) exs = Some (r, st4)"
    "quiet (put_elf i ((started e eh)\<lparr>e_scns := X\<rparr>) st) st4"
    "r = None \<and> \<not> can_lay_out st e eh
      \<or> r = Some (of_nat (object_size e), if e_nscn e = 0 then 0 else of_nat (sh_start e), exs @ shdr_extents e)
        \<and> chained 0 (exs @ shdr_extents e) (object_size e)"
proof -
  let ?e3 = "(started e eh)\<lparr>e_scns := X\<rparr>" and ?sh = "sh_start e" and ?n = "e_nscn e"
  note E = started_fields[OF c]
  have g: "get_elf st3 i = Some ?e3" using quiet_fields(1)[OF q, of i] by simp
  have lay: "lib_layout ?e3" using E(11) by (simp add: lib_layout_def app_layout_def)
  have cl: "e_class ?e3 = e_class e" "e_ehdr ?e3 \<noteq> None" using E by simp_all
  have sh: "?sh = align_up (libelf_falign ELF_T_SHDR (e_class ?e3)) (area_end e)"
    "?n \<noteq> 0 \<Longrightarrow> object_size e = ?sh + fsize_table (e_class ?e3) ELF_T_SHDR * unat ?n"
    "?n = 0 \<Longrightarrow> object_size e = area_end e"
    unfolding cl by (simp_all add: sh_start_def object_size_def)
  have ext: "shdr_extents e = (if ?n = 0 then [] else [\<lparr>ex_start = of_nat ?sh,
      ex_size = of_nat (fsize_table (e_class ?e3) ELF_T_SHDR * unat ?n), ex_type = ELF_EXTENT_SHDR, ex_desc = None\<rparr>])"
    unfolding cl by (simp add: shdr_extents_def)
  from resync_shdr_ok[OF g lay cl(2) ch sh sz, folded ext] obtain r st4 where r:
    "resync_shdr st3 i ?n (of_nat (area_end e)) exs = Some (r, st4)" "quiet st3 st4"
    "r = None \<and> \<not> never_fails st3 \<or> r = Some (of_nat (object_size e), if ?n = 0 then 0 else of_nat ?sh, exs @ shdr_extents e)
       \<and> chained 0 (exs @ shdr_extents e) (object_size e)" by blast
  then show thesis using quiet_never_fails[OF q]
    by (intro that[OF r(1) quiet_trans[OF q r(2)]]) (auto simp: can_lay_out_def)
qed

lemma counts_stage:
  assumes c: "creating st i e eh" and pl: "sections_placed e (inorder (e_scn e)) X"
    and q: "quiet (put_elf i ((started e eh)\<lparr>e_scns := X\<rparr>) st) st4"
  shows "resync_counts st4 i (e_nphdr e) (e_nscn e) (if e_nphdr e = 0 then 0 else of_nat (ph_start (e_class e)))
    (if e_nscn e = 0 then 0 else of_nat (sh_start e)) = Some (put_elf i (laid_out e eh X) st4)"
proof -
  let ?e3 = "(started e eh)\<lparr>e_scns := X\<rparr>" and ?n = "e_nscn e" and ?p = "e_nphdr e"
  note C = creatingD[OF c] and E = started_fields[OF c]
  have g: "get_elf st4 i = Some ?e3" using quiet_fields(1)[OF q, of i] by simp
  have inv: "scn_inv ?e3" by (rule sections_placed_inv[OF C(4) pl]) (simp_all add: E)
  have lay: "\<not> app_layout ?e3" using E(11) by (simp add: lib_layout_def app_layout_def)
  have s0: "e_scns ?e3 0 \<noteq> None" if "?p \<ge> PN_XNUM \<or> ?n \<ge> SHN_LORESERVE"
  proof -
    have "?n \<noteq> 0" using that c by (auto simp: creating_def)
    then have "0 \<in> rb_keys (e_scn e)" unfolding C(11) by (simp add: unat_gt_0)
    then have "0 \<in> set (inorder (e_scn e))" by (simp add: rb_keys_def)
    then show ?thesis using spec[OF pl[unfolded sections_placed_def], of 0] by auto
  qed
  show ?thesis
    by (subst resync_counts_eq[OF g, where eh = "started_ehdr e eh"])
      (use E inv s0 lay C(6) in \<open>simp_all add: started_ehdr_def started_def laid_out_def laid_out_ehdr_set\<close>)
qed

definition lays_out ::
  "libelf_state \<Rightarrow> nat \<Rightarrow> Elf \<Rightarrow> ehdr \<Rightarrow> (u64 \<times> Elf_Extent list \<times> libelf_state) option \<Rightarrow> bool" where
  "lays_out st i e eh R \<longleftrightarrow> (\<exists>rc exs st' e'. R = Some (rc, exs, st') \<and> quiet (put_elf i e' st) st'
    \<and> (rc = - 1 \<and> \<not> can_lay_out st e eh \<or> rc = of_nat (object_size e) \<and> ehdr_update_error e eh = None
        \<and> chained 0 exs (object_size e)
        \<and> (\<exists>X. X = laid_scns e \<and> sections_placed e (inorder (e_scn e)) X \<and> exs = object_extents e X \<and> e' = laid_out e eh X)))"

lemma lays_out_fails:
  "R = Some (- 1, exs, st') \<Longrightarrow> quiet (put_elf i e' st) st' \<Longrightarrow> \<not> can_lay_out st e eh \<Longrightarrow> lays_out st i e eh R"
  by (auto simp: lays_out_def)

lemma resync_elf_ok:
  assumes c: "creating st i e eh" and sz: "object_size e < 2 ^ 63"
  shows "lays_out st i e eh (resync_elf st i)"
proof -
  let ?ec = "e_class e" and ?p = "e_nphdr e" and ?n = "e_nscn e"
  let ?po = "if ?p = 0 then 0 else of_nat (ph_start ?ec)" and ?so = "if ?n = 0 then 0 else of_nat (sh_start e)"
  have small: "ph_end e < 2 ^ 63" "area_end e < 2 ^ 63" using area_end_ge[OF creatingD(10)[OF c]] sz by linarith+
  from resync_ehdr_ok[OF c] obtain r1 st1 e1 where r1: "resync_ehdr st i = Some (r1, st1)" "quiet (put_elf i e1 st) st1"
    "r1 = None \<and> \<not> (never_fails st \<and> ehdr_update_error e eh = None)
      \<or> r1 = Some (of_nat (hdr_end ?ec), [ehdr_extent ?ec]) \<and> ehdr_update_error e eh = None \<and> e1 = started e eh"
    by (elim exE conjE) (rule that)
  show ?thesis
  proof (cases r1)
    case None
    then show ?thesis using r1 by (intro lays_out_fails[OF _ r1(2), of _ "[]"]) (auto simp: resync_elf_def can_lay_out_def)
  next
    case (Some r1')
    then have s1: "r1 = Some (of_nat (hdr_end ?ec), [ehdr_extent ?ec])" "ehdr_update_error e eh = None" "e1 = started e eh"
      using r1(3) by simp_all
    note E = started_fields[OF c] and q1 = r1(2)[unfolded s1(3)]
    have g1: "get_elf st1 i = Some (started e eh)" using quiet_fields(1)[OF q1, of i] by simp
    obtain r2 st2 where r2: "resync_phdr st1 i (of_nat (hdr_end ?ec)) [ehdr_extent ?ec] = Some (r2, st2)"
      "quiet (put_elf i (started e eh) st) st2"
      "r2 = None \<and> \<not> can_lay_out st e eh \<or> r2 = Some (of_nat (ph_end e), ?po, ehdr_extent ?ec # phdr_extents e)
        \<and> chained 0 (ehdr_extent ?ec # phdr_extents e) (ph_end e)" by (rule phdr_stage[OF c small(1) q1])
    show ?thesis
    proof (cases r2)
      case None
      then show ?thesis using r1(1) s1(1) g1 r2(1,3) E
        by (intro lays_out_fails[OF _ r2(2), of _ "[ehdr_extent ?ec]"]) (simp_all add: resync_elf_def)
    next
      case (Some r2')
      then have s2: "r2 = Some (of_nat (ph_end e), ?po, ehdr_extent ?ec # phdr_extents e)"
        "chained 0 (ehdr_extent ?ec # phdr_extents e) (ph_end e)" using r2(3) by simp_all
      have g2: "get_elf st2 i = Some (started e eh)" using quiet_fields(1)[OF r2(2), of i] by simp
      obtain rc exs X st3 where r3: "resync_sections st2 i (of_nat (ph_end e)) (ehdr_extent ?ec # phdr_extents e) = Some (rc, exs, st3)"
        "quiet (put_elf i ((started e eh)\<lparr>e_scns := X\<rparr>) st) st3"
        "sint rc < 0 \<and> \<not> can_lay_out st e eh \<or> \<not> sint rc < 0 \<and> rc = of_nat (area_end e) \<and> sections_placed e (inorder (e_scn e)) X \<and> X = laid_scns e
          \<and> exs = (ehdr_extent ?ec # phdr_extents e) @ scn_extents X (inorder (e_scn e)) \<and> chained 0 exs (area_end e)"
        by (rule sections_stage[OF c small(2) r2(2) s2(2)])
      show ?thesis
      proof (cases "sint rc < 0")
        case True
        then show ?thesis using r1(1) s1(1) g1 g2 r2(1) s2(1) r3(1,3) E
          by (intro lays_out_fails[OF _ r3(2), of _ exs]) (simp_all add: resync_elf_def)
      next
        case False
        then have s3: "rc = of_nat (area_end e)" "sections_placed e (inorder (e_scn e)) X"
          "exs = (ehdr_extent ?ec # phdr_extents e) @ scn_extents X (inorder (e_scn e))" "chained 0 exs (area_end e)"
          "X = laid_scns e" using r3(3) by blast+
        obtain r4 st4 where r4: "resync_shdr st3 i ?n (of_nat (area_end e)) exs = Some (r4, st4)"
          "quiet (put_elf i ((started e eh)\<lparr>e_scns := X\<rparr>) st) st4"
          "r4 = None \<and> \<not> can_lay_out st e eh \<or> r4 = Some (of_nat (object_size e), ?so, exs @ shdr_extents e)
             \<and> chained 0 (exs @ shdr_extents e) (object_size e)" by (rule table_stage[OF c sz r3(2) s3(4)])
        note run = r1(1) s1(1) g1 g2 r2(1) s2(1) r3(1) E s3(1) False r4(1)
        show ?thesis
        proof (cases r4)
          case None
          then show ?thesis using run r4(3) by (intro lays_out_fails[OF _ r4(2), of _ exs]) (simp_all add: resync_elf_def)
        next
          case (Some r4')
          then have s4: "r4 = Some (of_nat (object_size e), ?so, exs @ shdr_extents e)" "chained 0 (exs @ shdr_extents e) (object_size e)"
            using r4(3) by simp_all
          have "resync_elf st i = Some (of_nat (object_size e), exs @ shdr_extents e, put_elf i (laid_out e eh X) st4)"
            using run s4(1) counts_stage[OF c s3(2) r4(2)] by (simp add: resync_elf_def del: of_nat_add of_nat_mult)
          moreover have "exs @ shdr_extents e = object_extents e X" using s3(3) by (simp add: object_extents_def)
          ultimately show ?thesis using quiet_put_put[OF r4(2)] s4(2) s3(2,5) s1(2) unfolding lays_out_def by blast
        qed
      qed
    qed
  qed
qed

lemma placed_valid:
  assumes "sections_placed e ns X"
  shows "scns_valid e ns"
  unfolding scns_valid_def
proof (intro ballI allI impI)
  fix n s assume n: "n \<in> set ns" "e_scns e n = Some s" "in_file s"
  then have "\<exists>s'. X n = Some s' \<and> scn_laid_out (e_class e) s s'"
    using spec[OF assms[unfolded sections_placed_def], of n] by simp
  then show "scn_valid (e_class e) s" using n(3) by (auto simp: scn_laid_out_def placed_scn_def)
qed

text \<open>
  C9. The layout that \<open>elf_update\<close> chooses is exactly that of the reference. For an object under creation whose reference layout
  is smaller than 2^63 bytes, \<open>elf_update\<close> with \<open>ELF_C_NULL\<close> returns, without a failed assertion or a wrap-around: the
  size of the reference layout, or -1 if an allocation failed, the header is refused or the type or a data descriptor of a
  section is not acceptable. In the first case the ELF header, the program header table, the sections with
  contents and the section header table lie one behind the other in the file. The sections are those of \<open>laid_scns\<close>: each
  starts at the next multiple of its alignment and is as large as its data in the representation of the file, its header
  holds that offset and size, the alignment (the largest of the header and the data) and the entry size of its type, and its
  data descriptors their offsets. The header of the object is \<open>laid_out_ehdr\<close>, with the offsets, sizes and counts of the tables. Beyond
  that the descriptor is marked dirty, with the byte order of its header. Nothing is written, and no other descriptor and no
  memory changes.
\<close>

theorem update_computes_layout:
  assumes c: "creating st i e eh" and sz: "object_size e < 2 ^ 63"
  shows "\<exists>rc st' e'. elf_update os st (Some i) ELF_C_NULL = Some (rc, None, st') \<and> get_elf st' i = Some e'
    \<and> heap st' = heap st \<and> (\<forall>j. j \<noteq> i \<longrightarrow> get_elf st' j = get_elf st j)
    \<and> (rc = - 1 \<and> \<not> can_lay_out st e eh
      \<or> rc = of_nat (object_size e) \<and> ehdr_update_error e eh = None \<and> scns_valid e (inorder (e_scn e))
        \<and> chained 0 (object_extents e (laid_scns e)) (object_size e)
        \<and> e' = e\<lparr>e_byteorder := ucast (ehdr_ident eh ! EI_DATA), e_ehdr := Some (laid_out_ehdr e eh),
             e_scns := counts_scns (e_nphdr e) (e_nscn e) (laid_scns e),
             e_flags := (e_flags e OR ELF_F_DIRTY) AND NOT LIBELF_F_SHDRS_LOADED\<rparr>)"
proof -
  note C = creatingD[OF c]
  from resync_elf_ok[OF c sz, unfolded lays_out_def] obtain rc exs st1 e1 where r:
    "resync_elf st i = Some (rc, exs, st1)" "quiet (put_elf i e1 st) st1"
    "rc = - 1 \<and> \<not> can_lay_out st e eh \<or> rc = of_nat (object_size e) \<and> ehdr_update_error e eh = None \<and> chained 0 exs (object_size e)
      \<and> (\<exists>X. X = laid_scns e \<and> sections_placed e (inorder (e_scn e)) X \<and> exs = object_extents e X \<and> e1 = laid_out e eh X)"
    by (elim exE conjE) (rule that)
  let ?e2 = "e1\<lparr>e_flags := e_flags e1 AND NOT LIBELF_F_SHDRS_LOADED\<rparr>" and ?st2 = "put_elf i (e1\<lparr>e_flags := e_flags e1 AND NOT LIBELF_F_SHDRS_LOADED\<rparr>) st1"
  note Q = quiet_fields[OF r(2)]
  have u: "elf_update os st (Some i) ELF_C_NULL = Some (rc, None, ?st2)"
    using C(1,7,8,10) r(1) Q(1)[of i] by (auto simp: elf_update_def)
  have others: "\<forall>j. j \<noteq> i \<longrightarrow> get_elf ?st2 j = get_elf st j" using Q(1) by simp
  have h: "heap ?st2 = heap st" using Q(2) by simp
  have "rc = - 1 \<and> \<not> can_lay_out st e eh
      \<or> rc = of_nat (object_size e) \<and> ehdr_update_error e eh = None \<and> scns_valid e (inorder (e_scn e))
        \<and> chained 0 (object_extents e (laid_scns e)) (object_size e)
        \<and> ?e2 = e\<lparr>e_byteorder := ucast (ehdr_ident eh ! EI_DATA), e_ehdr := Some (laid_out_ehdr e eh),
             e_scns := counts_scns (e_nphdr e) (e_nscn e) (laid_scns e),
             e_flags := (e_flags e OR ELF_F_DIRTY) AND NOT LIBELF_F_SHDRS_LOADED\<rparr>"
    using r(3) placed_valid[of e "inorder (e_scn e)"] by (auto simp: laid_out_def)
  then show ?thesis using u others h elf_store_simps(1)[of i ?e2 st1] by blast
qed

text \<open>A new object of two sections, the second with five bytes of data.\<close>

definition sample_scn :: "nat \<Rightarrow> u32 \<Rightarrow> Libelf_Data list \<Rightarrow> Elf_Scn" where
  "sample_scn n t lds = \<lparr>s_shdr = Sh64 \<lparr>sh_name = 0, sh_type = t, sh_flags = 0, sh_addr = 0, sh_offset = 0, sh_size = 0,
     sh_link = 0, sh_info = 0, sh_addralign = 0, sh_entsize = 0\<rparr>,
     s_data = lds, s_rawdata = [], s_flags = ELF_F_DIRTY, s_ndx = n, s_offset = 0, s_rawoff = 0, s_size = 0\<rparr>"

definition new_object_ehdr :: ehdr where
  "new_object_ehdr = Eh64 \<lparr>e_ident = [0x7f, 0x45, 0x4c, 0x46, 2, 1, 1, 0, 0, 0, 0, 0, 0, 0, 0, 0], e_type = 1, e_machine = 62,
     eh_version = 1, e_entry = 0, e_phoff = 0, e_shoff = 0, eh_flags = 0, e_ehsize = 0, e_phentsize = 0, e_phnum = 0,
     e_shentsize = 0, e_shnum = 0, e_shstrndx = 0\<rparr>"

definition new_object :: Elf where
  "new_object = (initial_elf EV_CURRENT)\<lparr>e_kind := ELF_K_ELF, e_class := ELFCLASS64, e_cmd := ELF_C_WRITE, e_fd := 3,
     e_byteorder := ELFDATA2LSB, e_ehdr := Some new_object_ehdr,
     e_scn := RB_NODE RB_NULL RB_BLACK 0 (RB_NODE RB_NULL RB_RED 1 RB_NULL),
     e_scns := [0 \<mapsto> sample_scn 0 SHT_NULL [],
       1 \<mapsto> sample_scn 1 SHT_PROGBITS [\<lparr>d_data = (sample_data ELF_T_BYTE 0 5)\<lparr>d_align := 8\<rparr>, d_flags = 0\<rparr>]],
     e_nscn := 2\<rparr>"

lemma new_object_creating:
  "creating (put_elf 0 new_object (sample_state [1, 2, 3, 4, 5])) 0 new_object new_object_ehdr"
  by (auto simp: creating_def new_object_def new_object_ehdr_def initial_elf_def lib_layout_def app_layout_def scn_inv_def
      rb_inv_def rb_keys_def ehdr_fits_def sample_scn_def aligned_data_def shdr_fits_def sample_data_def less_Suc_eq
      split: if_splits)

lemma new_object_size: "object_size new_object = 200"
  by code_simp

lemma new_object_can_lay_out: "can_lay_out (put_elf 0 new_object (sample_state [1, 2, 3, 4, 5])) new_object new_object_ehdr"
proof -
  have "msize_table ELFCLASS64 ELF_T_BYTE = 1" by code_simp
  moreover have "ehdr_update_error new_object new_object_ehdr = None" by code_simp
  ultimately have "scns_valid new_object (inorder (e_scn new_object)) \<and> ehdr_update_error new_object new_object_ehdr = None"
    by (auto simp: scns_valid_def new_object_def sample_scn_def sample_data_def in_file_def scn_valid_def data_valid_def
        libelf_xlate_shtype_def keeps_size_def)
  then show ?thesis by (simp add: can_lay_out_def never_fails_def sample_state_def put_elf_def)
qed

theorem update_computes_layout_witness:
  "\<forall>os. \<exists>st'. elf_update os (put_elf 0 new_object (sample_state [1, 2, 3, 4, 5])) (Some 0) ELF_C_NULL = Some (200, None, st')"
proof
  fix os
  have "object_size new_object < 2 ^ 63" by (simp add: new_object_size)
  from update_computes_layout[OF new_object_creating this, of os] new_object_can_lay_out
  show "\<exists>st'. elf_update os (put_elf 0 new_object (sample_state [1, 2, 3, 4, 5])) (Some 0) ELF_C_NULL = Some (200, None, st')"
    unfolding new_object_size by auto
qed

end
