(* ===== verification/Update_Image.thy ===== *)
theory Update_Image
  imports Update_Object Elf_Release
begin

text \<open>
  The bytes of an object that is being created: what the converters write into the image, the image as a list of bytes, and
  that \<open>_libelf_write_elf\<close> hands exactly these bytes to \<open>write\<close>.
\<close>

section \<open>What a converter writes\<close>

text \<open>The types whose elements have one size, and \<open>ELF_T_BYTE\<close>.\<close>

definition fixed_type :: "Elf_Type \<Rightarrow> bool" where
  "fixed_type t \<longleftrightarrow> \<not> byte_sized t \<or> t = ELF_T_BYTE"

text \<open>The representation in the file of data of type \<open>t\<close>; \<open>sw\<close> says that the byte orders differ.\<close>

definition file_bytes :: "endian \<Rightarrow> int \<Rightarrow> Elf_Type \<Rightarrow> bool \<Rightarrow> bytes \<Rightarrow> bytes" where
  "file_bytes host ec t sw bs =
     (case struct_def ec t of
        Some ms \<Rightarrow> concat (map (struct_tof host ec ms sw) (chunks (sizeof_struct ec ms) (length bs div sizeof_struct ec ms) bs))
      | None \<Rightarrow>
          (case prim_type ec t of
             Some f \<Rightarrow> if sw
               then concat (map (prim_swap host ec f) (chunks (field_size ec f) (length bs div field_size ec f) bs)) else bs
           | None \<Rightarrow> bs))"

lemma translator_writes:
  assumes c: "cvt_table t ELF_TOFILE ec = Some c" "fixed_type t" "0 < fsize_table ec t"
    and n: "unat cnt = n" "unat dsz = n * fsize_table ec t" "n * msize_table ec t < 2 ^ 64"
    and src: "mem_read h sb (n * msize_table ec t) = Some bs" and dst: "window h db (n * fsize_table ec t)" "fst db \<noteq> fst sb"
  shows "length (file_bytes host ec t sw bs) = n * fsize_table ec t
    \<and> (\<exists>h'. c host h db dsz sb cnt sw = Some (h', True) \<and> mem_write h db (file_bytes host ec t sw bs) = Some h')"
proof -
  have l: "length bs = n * msize_table ec t" using src by (rule mem_read_length)
  have w: "mem_read h db (n * fsize_table ec t) \<noteq> None" using dst(1) by (simp add: window_def)
  have safe: "fwd_safe db sb k" for k using dst(2) by (simp add: fwd_safe_def)
  consider (b) "t = ELF_T_BYTE" | (s) ms where "struct_def ec t = Some ms" "\<not> byte_sized t"
    | (p) f where "prim_type ec t = Some f" "\<not> byte_sized t"
    using c fsize_pos_iff[of ec t] by (auto simp: fixed_type_def)
  then show ?thesis
  proof cases
    case b
    then have one: "fsize_table ec t = 1" "msize_table ec t = 1" "byte_sized t"
      by (auto simp: fsize_table_def msize_table_def byte_sized_def)
    have f: "file_bytes host ec t sw bs = bs" using b by (simp add: file_bytes_def)
    have "\<not> dsz < cnt" using n one by (simp add: word_less_nat_alt)
    moreover obtain h' where "mem_write h db bs = Some h'" using mem_write_total[OF w, of bs] l one by auto
    ultimately show ?thesis using c(1) b src n(1) l one dst(2) f by (auto simp: cvt_BYTE_tox_def mem_copy_def)
  next
    case s
    have c': "c = cvt_comp_tof ec ms" using c(1) s by (cases t) (auto simp: byte_sized_def)
    have t: "fsize_table ec t = FSZ ec ms" "msize_table ec t = sizeof_struct ec ms" using table_struct[OF s(1)] by auto
    have "0 < sizeof_struct ec ms" using c(3) t FSZ_le_sizeof[of ec ms] by simp
    then have k: "length bs div sizeof_struct ec ms = n" using l t by simp
    have f: "file_bytes host ec t sw bs = concat (map (struct_tof host ec ms sw) (chunks (sizeof_struct ec ms) n bs))"
      using s(1) k by (simp add: file_bytes_def)
    note sp = fwd_loop_spec[where f = "struct_tof host ec ms sw", OF length_struct_tof FSZ_le_sizeof src[unfolded t] w[unfolded t] safe]
    have "length (file_bytes host ec t sw bs) = n * FSZ ec ms"
      unfolding f by (rule length_image[OF length_struct_tof]) (use l t in simp_all)
    then show ?thesis using sp n(1) t unfolding f c' by (auto simp: cvt_comp_tof_def)
  next
    case p
    note tp = table_prim[OF p(1)]
    have c': "c = cvt_prim_tof ec f" using c(1) p tp by (cases t) (auto simp: byte_sized_def)
    have t: "fsize_table ec t = field_size ec f" "msize_table ec t = field_size ec f" using tp by auto
    have k: "length bs div field_size ec f = n" using l t c(3) by simp
    have cn: "unat (cnt * of_nat (field_size ec f)) = n * field_size ec f"
      using n(1,3) fsize_le_64[of ec t] unfolding t by (simp add: unat_word_ariths unat_of_nat_64)
    have f: "file_bytes host ec t sw bs = (if sw then concat (map (prim_swap host ec f) (chunks (field_size ec f) n bs)) else bs)"
      using tp p(1) k by (simp add: file_bytes_def)
    show ?thesis
    proof (cases sw)
      case True
      note sp = fwd_loop_spec[where f = "prim_swap host ec f", OF length_prim_swap le_refl src[unfolded t] w[unfolded t] safe]
      have "length (file_bytes host ec t sw bs) = n * field_size ec f"
        unfolding f using True length_image[where f = "prim_swap host ec f", OF length_prim_swap, where n = n and bs = bs] l t by simp
      then show ?thesis using sp n(1) t True unfolding f c' by (auto simp: cvt_prim_tof_def)
    next
      case False
      obtain h' where "mem_write h db bs = Some h'" using mem_write_total[OF w, of bs] l t by auto
      then show ?thesis using False src cn l t unfolding f c' by (simp add: cvt_prim_tof_def mem_copy_def)
    qed
  qed
qed

lemma file_bytes_nil: "0 < fsize_table ec t \<Longrightarrow> file_bytes host ec t sw [] = []"
  by (auto simp: file_bytes_def split: option.split)

lemma xlate_writes:
  assumes ec: "ec = ELFCLASS32 \<or> ec = ELFCLASS64" and t: "elf_type_valid (d_type src)" "fixed_type (d_type src)"
      "0 < fsize_table ec (d_type src)"
    and v: "d_version src = EV_CURRENT" "d_version dst = EV_CURRENT" and enc: "enc = ELFDATA2LSB \<or> enc = ELFDATA2MSB"
    and b: "d_buf src = Some sb" "d_buf dst = Some db" "fst db \<noteq> fst sb" "snd sb mod libelf_malign (d_type src) ec = 0"
    and n: "unat (d_size src) = n * msize_table ec (d_type src)" "unat (d_size src) < 2 ^ 60"
      "d_size dst = of_nat (n * fsize_table ec (d_type src))"
    and src: "mem_read (heap st) sb (unat (d_size src)) = Some bs"
    and dst: "window (heap st) db (n * fsize_table ec (d_type src))"
  shows "\<exists>dst' h'. libelf_xlate st (Some dst) (Some src) False enc ec m ELF_TOFILE = Some (True, dst', st\<lparr>heap := h'\<rparr>)
    \<and> mem_write (heap st) db (file_bytes (host_order st) ec (d_type src) (enc \<noteq> libelf_byteorder st) bs) = Some h'
    \<and> length (file_bytes (host_order st) ec (d_type src) (enc \<noteq> libelf_byteorder st) bs) = n * fsize_table ec (d_type src)"
proof -
  let ?t = "d_type src" let ?f = "fsize_table ec ?t" and ?m = "msize_table ec ?t"
  let ?bs = "file_bytes (host_order st) ec ?t (enc \<noteq> libelf_byteorder st) bs"
  have m0: "0 < ?m" using t(3) fsize_msize_rel(2)[of ec ?t] by simp
  have msz: "libelf_msize st ?t ec EV_CURRENT = Some (of_nat ?m, st)"
    using msize_valid[OF t(1) ec, of st] m0 by simp
  have z: "(of_nat ?f :: u64) \<noteq> 0" "(of_nat ?m :: u64) \<noteq> 0"
    using of_nat_64_zero[OF fsize_le_64] of_nat_64_zero[OF msize_le_64] t(3) m0 by auto
  have enc0: "enc \<noteq> ELFDATANONE" using enc by auto
  have x: "libelf_xlate st (Some dst) (Some src) False enc ec m ELF_TOFILE
      = xlate_sized st dst src db sb (of_nat ?f) (of_nat ?m) enc ec m ELF_TOFILE"
    using ec t(1) v b(1,2) enc enc0 msz z by (auto simp: libelf_xlate_def Let_def fsize_1)
  let ?cnt = "d_size src div of_nat ?m"
  note sm = small_product[OF m0 msize_le_64 fsize_le_64, of ec ?t "d_size src"]
  have "?f \<le> 2 * ?m" using fsize_msize_rel(1)[of ec ?t] by simp
  then have cnt: "unat ?cnt = n" "unat (?cnt * of_nat ?f) = n * ?f"
    using sm n(1,2) m0 by auto
  have dsz: "d_size dst = ?cnt * of_nat ?f" unfolding n(3) by (rule sym, rule word_of_unat[OF cnt(2)])
  have mod0: "d_size src mod of_nat ?m = 0"
  proof -
    have "unat (d_size src mod of_nat ?m) = 0" using n(1) by (simp add: unat_mod unat_of_nat_64[OF msize_le_64])
    then show ?thesis by (simp add: unat_eq_0)
  qed
  have no: "\<not> buffers_overlap sb (unat (d_size src)) db (unat (d_size dst))" using b(3) by (simp add: buffers_overlap_def)
  obtain c where c: "cvt_table ?t ELF_TOFILE ec = Some c" using cvt_table_total[OF t(3)] by blast
  have tr: "libelf_get_translator ?t ELF_TOFILE ec m = Some (Some c)"
    using ec t(1) c by (auto simp: libelf_get_translator_def)
  have lt: "n * ?m < 2 ^ 64" using n(1,2) by simp
  note w = translator_writes[OF c t(2,3) cnt lt src[unfolded n(1)] dst b(3), of "host_order st" "enc \<noteq> libelf_byteorder st"]
  have ne: "db \<noteq> sb" using b(3) by auto
  show ?thesis
  proof (cases "d_size src = 0")
    case True
    then have "n = 0" using n(1) m0 by simp
    then have "bs = []" using src True by (auto dest: mem_read_length)
    then have "?bs = []" using t(3) by (simp add: file_bytes_nil)
    moreover have "mem_write (heap st) db [] = Some (heap st)"
      using dst by (auto simp: window_def mem_read_def mem_write_def patch_at_def slice_at_def fun_upd_idem split: option.splits if_splits)
    moreover have "xlate_sized st dst src db sb (of_nat ?f) (of_nat ?m) enc ec m ELF_TOFILE
        = Some (True, Some (dst\<lparr>d_type := ?t, d_size := ?cnt * of_nat ?f\<rparr>), st\<lparr>heap := heap st\<rparr>)"
      using mod0 no b(4) True dsz by (simp add: xlate_sized_def Let_def)
    ultimately show ?thesis using x \<open>n = 0\<close> by auto
  next
    case False
    from w obtain h' where h: "c (host_order st) (heap st) db (?cnt * of_nat ?f) sb ?cnt (enc \<noteq> libelf_byteorder st) = Some (h', True)"
      "mem_write (heap st) db ?bs = Some h'" by blast
    have "xlate_sized st dst src db sb (of_nat ?f) (of_nat ?m) enc ec m ELF_TOFILE
        = Some (True, Some (dst\<lparr>d_type := ?t, d_size := ?cnt * of_nat ?f\<rparr>), st\<lparr>heap := h'\<rparr>)"
      using mod0 no b(4) False dsz ne tr h(1) by (simp add: xlate_sized_def Let_def)
    then show ?thesis unfolding x using conjunct1[OF w] h(2) by auto
  qed
qed

section \<open>The image in the new buffer\<close>

text \<open>The memory is \<open>H\<close>, and buffer \<open>b\<close> of \<open>tot\<close> bytes, which starts with \<open>img\<close>.\<close>

definition image_at :: "heap \<Rightarrow> nat \<Rightarrow> nat \<Rightarrow> bytes \<Rightarrow> heap \<Rightarrow> bool" where
  "image_at H b tot img h \<longleftrightarrow> (\<exists>rest. h = H(b \<mapsto> img @ rest) \<and> length img + length rest = tot)"

lemma image_window: "image_at H b tot img h \<Longrightarrow> length img + n \<le> tot \<Longrightarrow> window h (b, length img) n"
  by (auto simp: image_at_def window_def mem_read_def slice_at_def)

lemma image_read: "image_at H b tot img h \<Longrightarrow> fst p \<noteq> b \<Longrightarrow> mem_read h p n = mem_read H p n"
  by (auto simp: image_at_def mem_read_def)

lemma image_write_eq:
  assumes "image_at H b tot img h" "mem_write h (b, length img) bs = Some h'"
  shows "image_at H b tot (img @ bs) h'"
proof -
  obtain rest where r: "h = H(b \<mapsto> img @ rest)" "length img + length rest = tot" using assms(1) by (auto simp: image_at_def)
  have "length bs \<le> length rest" "h' = H(b \<mapsto> (img @ bs) @ drop (length bs) rest)"
    using assms(2) unfolding r(1) by (auto simp: mem_write_def patch_at_def split: if_splits)
  then show ?thesis using r(2) by (auto simp: image_at_def)
qed

lemma image_write:
  assumes "image_at H b tot img h" "length img + length bs \<le> tot"
  obtains h' where "mem_write h (b, length img) bs = Some h'" "image_at H b tot (img @ bs) h'"
proof -
  obtain h' where "mem_write h (b, length img) bs = Some h'"
    by (rule window_writeE[OF image_window[OF assms] refl])
  then show thesis using image_write_eq[OF assms(1)] that by blast
qed

text \<open>What lies in a buffer other than the image.\<close>

lemma image_upd: "image_at H b tot img h \<Longrightarrow> nb \<noteq> b \<Longrightarrow> image_at (H(nb := x)) b tot img (h(nb := x))"
  by (auto simp: image_at_def fun_upd_twist)

lemma image_end: "image_at H b (length img) img h \<Longrightarrow> h = H(b \<mapsto> img)"
  by (auto simp: image_at_def)

definition fill_bytes :: "libelf_state \<Rightarrow> nat \<Rightarrow> bytes" where
  "fill_bytes st n = replicate n (of_int (libelf_fillchar st))"

lemma length_fill_bytes [simp]: "length (fill_bytes st n) = n"
  by (simp add: fill_bytes_def)

lemma fill_gap_ok:
  assumes img: "image_at H b tot img (heap st)" and k: "length img \<le> k" "k \<le> tot" "tot < 2 ^ 63"
  obtains h' where "fill_gap st (b, 0) (of_nat (length img)) (of_nat k) = Some (st\<lparr>heap := h'\<rparr>)"
    "image_at H b tot (img @ fill_bytes st (k - length img)) h'"
proof -
  have u: "unat (of_nat (length img) :: u64) = length img" "unat (of_nat k :: u64) = k"
    using k by (simp_all add: unat_of_nat)
  have lt: "(of_nat (length img) :: u64) < of_nat k \<longleftrightarrow> length img < k" unfolding word_less_nat_alt u ..
  have d: "unat (of_nat k - of_nat (length img) :: u64) = k - length img"
    using u k(1) by (simp add: unat_sub word_le_nat_alt)
  show thesis
  proof (cases "length img < k")
    case True
    obtain h' where "mem_write (heap st) (b, length img) (fill_bytes st (k - length img)) = Some h'"
      "image_at H b tot (img @ fill_bytes st (k - length img)) h'"
      by (rule image_write[OF img, of "fill_bytes st (k - length img)"]) (use k in simp, rule that)
    then show thesis using True lt u d by (intro that[of h']) (simp_all add: fill_gap_def fill_bytes_def ptr_add_def)
  next
    case False
    then show thesis using k(1) img lt by (intro that[of "heap st"]) (simp_all add: fill_gap_def fill_bytes_def)
  qed
qed

section \<open>Structures\<close>

text \<open>The members of a structure in the representation of the file.\<close>

definition fields_bytes :: "endian \<Rightarrow> bool \<Rightarrow> fval list \<Rightarrow> bytes" where
  "fields_bytes host sw vs = WRITE_MEMBERS host (SWAP_MEMBERS sw vs)"

lemma struct_tof_store: "members_ok ec ms vs \<Longrightarrow> struct_tof host ec ms sw (struct_store host ec ms vs) = fields_bytes host sw vs"
  by (simp add: struct_tof_def struct_load_store fields_bytes_def)

lemma length_fields_bytes: "members_ok ec ms vs \<Longrightarrow> length (fields_bytes host sw vs) = FSZ ec ms"
  by (simp add: fields_bytes_def length_WRITE_MEMBERS SWAP_MEMBERS_ok)

lemma length_stored:
  "(\<And>vs. vs \<in> set vss \<Longrightarrow> members_ok ec ms vs) \<Longrightarrow>
   length (concat (map (struct_store host ec ms) vss)) = length vss * sizeof_struct ec ms"
  by (rule length_concat_map_const) (simp add: length_struct_store)

lemma file_bytes_stored:
  assumes t: "struct_def ec t = Some ms" "0 < sizeof_struct ec ms" and ok: "\<And>vs. vs \<in> set vss \<Longrightarrow> members_ok ec ms vs"
  shows "file_bytes host ec t sw (concat (map (struct_store host ec ms) vss)) = concat (map (fields_bytes host sw) vss)"
proof -
  let ?ss = "map (struct_store host ec ms) vss"
  have "chunks (sizeof_struct ec ms) (length ?ss) (concat ?ss) = ?ss"
    using ok by (intro chunks_concat) (auto simp: length_struct_store)
  then have "file_bytes host ec t sw (concat ?ss) = concat (map (struct_tof host ec ms sw) ?ss)"
    using t length_stored[OF ok, of vss host] by (simp add: file_bytes_def)
  also have "map (struct_tof host ec ms sw) ?ss = map (fields_bytes host sw) vss"
    using struct_tof_store[OF ok] by simp
  finally show ?thesis .
qed

lemma header_defs:
  "struct_def ec ELF_T_EHDR = Some (Ehdr_DEF ec)" "struct_def ec ELF_T_PHDR = Some (Phdr_DEF ec)"
  "struct_def ec ELF_T_SHDR = Some (Shdr_DEF ec)"
  by (simp_all add: Ehdr_DEF_def Phdr_DEF_def Shdr_DEF_def)

lemma ehdr_fields_ok: "ehdr_fits ec eh \<Longrightarrow> members_ok ec (Ehdr_DEF ec) (ehdr_fields eh)"
  by (auto simp: ehdr_fits_def Ehdr_DEF_def members_ok_def member_list_defs field_ok_simps Elf32_Ehdr_fields_def Elf64_Ehdr_fields_def)

lemma shdr_fields_ok: "shdr_fits ec sh \<Longrightarrow> members_ok ec (Shdr_DEF ec) (shdr_fields sh)"
  by (auto simp: shdr_fits_def Shdr_DEF_def members_ok_def member_list_defs field_ok_simps Elf32_Shdr_fields_def Elf64_Shdr_fields_def)

lemma phdr_fields_ok:
  "phdrs_fit ec n ph \<Longrightarrow> vs \<in> set (phdrs_fields ph) \<Longrightarrow> members_ok ec (Phdr_DEF ec) vs"
  "phdrs_fit ec n ph \<Longrightarrow> length (phdrs_fields ph) = n"
  by (auto simp: phdrs_fit_def Phdr_DEF_def members_ok_def member_list_defs field_ok_simps Elf32_Phdr_fields_def Elf64_Phdr_fields_def)

text \<open>The state between two writes into the image.\<close>

definition writing :: "libelf_state \<Rightarrow> nat \<Rightarrow> Elf \<Rightarrow> heap \<Rightarrow> nat \<Rightarrow> nat \<Rightarrow> bytes \<Rightarrow> bool" where
  "writing st i e H b tot img \<longleftrightarrow> get_elf st i = Some e \<and> image_at H b tot img (heap st)
     \<and> H (next_buf st) = None \<and> next_buf st \<noteq> b \<and> tot < 2 ^ 59 \<and> lib_layout e \<and> e_ehdr e \<noteq> None
     \<and> (e_byteorder e = ELFDATA2LSB \<or> e_byteorder e = ELFDATA2MSB)"

lemma writing_step: "writing st i e H b tot img \<Longrightarrow> image_at H b tot img' h \<Longrightarrow> writing (st\<lparr>heap := h\<rparr>) i e H b tot img'"
  by (simp add: writing_def get_elf_def)

lemma writingD:
  assumes "writing st i e H b tot img"
  shows "get_elf st i = Some e" "image_at H b tot img (heap st)" "tot < 2 ^ 59" "lib_layout e"
    "e_class e = ELFCLASS32 \<or> e_class e = ELFCLASS64" "e_version e = EV_CURRENT" "e_kind e = ELF_K_ELF" "e_ehdr e \<noteq> None"
  using assms by (simp_all add: writing_def lib_layout_def)

abbreviation swapped :: "libelf_state \<Rightarrow> Elf \<Rightarrow> bool" where
  "swapped st e \<equiv> e_byteorder e \<noteq> libelf_byteorder st"

lemma elfmachine_there: "writing st i e H b tot img \<Longrightarrow> \<exists>m. libelf_elfmachine (Some e) = Some m"
  using writingD(5,7)[of st i e H b tot img] by (auto simp: libelf_elfmachine_def)

lemma twice_bound: "(a :: nat) \<le> 2 * c \<Longrightarrow> l + c \<le> tot \<Longrightarrow> tot < 2 ^ 59 \<Longrightarrow> a < 2 ^ 60"
  by simp

lemma xlate_struct_ok:
  assumes w: "writing st i e H b tot img" and t: "struct_def (e_class e) t = Some ms" "elf_type_valid t"
    and ok: "\<And>vs. vs \<in> set vss \<Longrightarrow> members_ok (e_class e) ms vs" and fit: "length img + length vss * FSZ (e_class e) ms \<le> tot"
  obtains h' where "xlate_struct st e t (Some (concat (map (struct_store (host_order st) (e_class e) ms) vss)))
      (of_nat (length vss * sizeof_struct (e_class e) ms)) (b, length img) (of_nat (length vss * FSZ (e_class e) ms))
      = Some (True, st\<lparr>heap := h'\<rparr>)"
    "image_at H b tot (img @ concat (map (fields_bytes (host_order st) (swapped st e)) vss)) h'"
proof -
  let ?ec = "e_class e" let ?bs = "concat (map (struct_store (host_order st) ?ec ms) vss)" and ?nb = "next_buf st"
  let ?n = "length vss" and ?fb = "concat (map (fields_bytes (host_order st) (swapped st e)) vss)"
  have W: "image_at H b tot img (heap st)" "H ?nb = None" "?nb \<noteq> b" "tot < 2 ^ 59" "?ec = ELFCLASS32 \<or> ?ec = ELFCLASS64"
    "e_version e = EV_CURRENT" "e_byteorder e = ELFDATA2LSB \<or> e_byteorder e = ELFDATA2MSB"
    using w by (simp_all add: writing_def lib_layout_def)
  note ts = table_struct[OF t(1)]
  have tt: "fsize_table ?ec t = FSZ ?ec ms" "msize_table ?ec t = sizeof_struct ?ec ms" "fixed_type t"
    using ts t(1) by (simp_all add: fixed_type_def)
  have tf: "0 < fsize_table ?ec t" unfolding fsize_pos_iff using t(1) by blast
  have pos: "0 < sizeof_struct ?ec ms" using tt(1) tf FSZ_le_sizeof[of ?ec ms] by simp
  have lb: "length ?bs = ?n * sizeof_struct ?ec ms" by (rule length_stored[OF ok])
  have fb: "file_bytes (host_order st) ?ec t (swapped st e) ?bs = ?fb" by (rule file_bytes_stored[OF t(1) pos ok])
  have "sizeof_struct ?ec ms \<le> 2 * FSZ ?ec ms" using msize_le_twice[of ?ec t] tt(1,2) by simp
  then have "?n * sizeof_struct ?ec ms \<le> ?n * (2 * FSZ ?ec ms)" by (rule mult_le_mono2)
  also have "\<dots> = 2 * (?n * FSZ ?ec ms)" by (simp only: mult.left_commute)
  finally have le: "?n * sizeof_struct ?ec ms < 2 ^ 60" using fit W(4) by (rule twice_bound)
  have ud: "unat (of_nat (?n * sizeof_struct ?ec ms) :: u64) = ?n * sizeof_struct ?ec ms"
    by (rule unat_small_nat) (use le in simp)
  obtain m where m: "libelf_elfmachine (Some e) = Some m" using elfmachine_there[OF w] by blast
  let ?st1 = "st\<lparr>heap := (heap st)(?nb := Some ?bs)\<rparr>"
  let ?src = "zero_data\<lparr>d_buf := Some (?nb, 0), d_size := of_nat (?n * sizeof_struct ?ec ms), d_type := t, d_version := e_version e\<rparr>"
  let ?dst = "zero_data\<lparr>d_buf := Some (b, length img), d_size := of_nat (?n * FSZ ?ec ms), d_version := e_version e\<rparr>"
  have img1: "image_at (H(?nb := Some ?bs)) b tot img (heap ?st1)" using image_upd[OF W(1,3)] by simp
  have "\<exists>dst' h'. libelf_xlate ?st1 (Some ?dst) (Some ?src) False (e_byteorder e) ?ec m ELF_TOFILE = Some (True, dst', ?st1\<lparr>heap := h'\<rparr>)
    \<and> mem_write (heap ?st1) (b, length img) (file_bytes (host_order ?st1) ?ec (d_type ?src) (e_byteorder e \<noteq> libelf_byteorder ?st1) ?bs) = Some h'
    \<and> length (file_bytes (host_order ?st1) ?ec (d_type ?src) (e_byteorder e \<noteq> libelf_byteorder ?st1) ?bs) = ?n * fsize_table ?ec (d_type ?src)"
  proof (rule xlate_writes[OF W(5), where sb = "(?nb, 0)"])
    show "mem_read (heap ?st1) (?nb, 0) (unat (d_size ?src)) = Some ?bs"
      using lb ud by (simp add: mem_read_def slice_at_def)
    show "window (heap ?st1) (b, length img) (?n * fsize_table ?ec (d_type ?src))"
      using image_window[OF img1, of "?n * FSZ ?ec ms"] fit tt(1) by simp
  qed (use t(2) tt tf W(3,6,7) ud le in simp_all)
  then obtain dst' h' where x: "libelf_xlate ?st1 (Some ?dst) (Some ?src) False (e_byteorder e) ?ec m ELF_TOFILE
      = Some (True, dst', ?st1\<lparr>heap := h'\<rparr>)" "mem_write (heap ?st1) (b, length img) ?fb = Some h'"
    using fb by (auto simp: host_order_def)
  have "image_at (H(?nb := Some ?bs)) b tot (img @ ?fb) h'" by (rule image_write_eq[OF img1 x(2)])
  from image_upd[OF this W(3), of None] have "image_at H b tot (img @ ?fb) (h'(?nb := None))"
    using W(2) by (simp add: fun_upd_idem)
  moreover have "xlate_struct st e t (Some ?bs) (of_nat (?n * sizeof_struct ?ec ms)) (b, length img) (of_nat (?n * FSZ ?ec ms))
      = Some (True, st\<lparr>heap := h'(?nb := None)\<rparr>)"
    using m x(1) by (simp add: xlate_struct_def Let_def)
  ultimately show thesis using that by blast
qed

section \<open>The headers and tables\<close>

definition hdr_bytes :: "libelf_state \<Rightarrow> Elf \<Rightarrow> fval list \<Rightarrow> bytes" where
  "hdr_bytes st e vs = fields_bytes (host_order st) (swapped st e) vs"

lemma hdr_bytes_heap [simp]: "hdr_bytes (st\<lparr>heap := h\<rparr>) e = hdr_bytes st e"
  by (intro ext) (simp add: hdr_bytes_def host_order_def)

lemma hdr_table_sizes:
  "fsize_table ec ELF_T_EHDR = FSZ ec (Ehdr_DEF ec)" "msize_table ec ELF_T_EHDR = sizeof_struct ec (Ehdr_DEF ec)"
  "fsize_table ec ELF_T_PHDR = FSZ ec (Phdr_DEF ec)" "msize_table ec ELF_T_PHDR = sizeof_struct ec (Phdr_DEF ec)"
  "fsize_table ec ELF_T_SHDR = FSZ ec (Shdr_DEF ec)" "msize_table ec ELF_T_SHDR = sizeof_struct ec (Shdr_DEF ec)"
  using table_struct[OF header_defs(1)] table_struct[OF header_defs(2)] table_struct[OF header_defs(3)] by auto

lemma hdr_msize:
  assumes "ec = ELFCLASS32 \<or> ec = ELFCLASS64" "t \<in> {ELF_T_EHDR, ELF_T_PHDR, ELF_T_SHDR}"
  shows "libelf_msize st t ec EV_CURRENT = Some (of_nat (msize_table ec t), st)" "(of_nat (msize_table ec t) :: u64) \<noteq> 0"
proof -
  have "elf_type_valid t" using assms(2) by auto
  moreover have "0 < msize_table ec t"
    using assms header_sizes(4-6)[OF assms(1)] fsize_msize_rel(1)[of ec t] by (auto simp: hdr_end_def)
  ultimately show "libelf_msize st t ec EV_CURRENT = Some (of_nat (msize_table ec t), st)" "(of_nat (msize_table ec t) :: u64) \<noteq> 0"
    using msize_valid[of t ec st] assms(1) of_nat_64_zero[OF msize_le_64, of ec t] by simp_all
qed

lemma writing_ehdr: "writing st i e H b tot img \<Longrightarrow> libelf_ehdr st (Some i) (e_class e) False = Some (True, st)"
  using writingD[of st i e H b tot img] by (intro libelf_ehdr_there) simp_all

lemma write_ehdr_ok:
  assumes w: "writing st i e H b tot []" and eh: "e_ehdr e = Some eh" "ehdr_fits (e_class e) eh" and fit: "hdr_end (e_class e) \<le> tot"
  shows "\<exists>h'. write_ehdr st i (b, 0) (ehdr_extent (e_class e)) = Some (of_nat (hdr_end (e_class e)), st\<lparr>heap := h'\<rparr>)
    \<and> image_at H b tot (hdr_bytes st e (ehdr_fields eh)) h'"
proof -
  let ?ec = "e_class e"
  note W = writingD[OF w] and S = hdr_table_sizes(1,2)[of ?ec]
  have m: "libelf_msize st ELF_T_EHDR ?ec EV_CURRENT = Some (of_nat (sizeof_struct ?ec (Ehdr_DEF ?ec)), st)"
    "(of_nat (sizeof_struct ?ec (Ehdr_DEF ?ec)) :: u64) \<noteq> 0"
    using hdr_msize(1)[OF W(5), of ELF_T_EHDR st] hdr_msize(2)[OF W(5), of ELF_T_EHDR] unfolding S by simp_all
  have he: "hdr_end ?ec = FSZ ?ec (Ehdr_DEF ?ec)" unfolding hdr_end_def S ..
  have ok: "\<And>vs. vs \<in> set [ehdr_fields eh] \<Longrightarrow> members_ok ?ec (Ehdr_DEF ?ec) vs" using ehdr_fields_ok[OF eh(2)] by simp
  have v: "elf_type_valid ELF_T_EHDR" by simp
  have fit': "length ([] :: bytes) + length [ehdr_fields eh] * FSZ ?ec (Ehdr_DEF ?ec) \<le> tot" using fit he by simp
  obtain h' where x: "xlate_struct st e ELF_T_EHDR (Some (struct_store (host_order st) ?ec (Ehdr_DEF ?ec) (ehdr_fields eh)))
      (of_nat (sizeof_struct ?ec (Ehdr_DEF ?ec))) (b, 0) (of_nat (FSZ ?ec (Ehdr_DEF ?ec))) = Some (True, st\<lparr>heap := h'\<rparr>)"
    "image_at H b tot (hdr_bytes st e (ehdr_fields eh)) h'"
    using xlate_struct_ok[OF w header_defs(1) v ok fit'] by (auto simp: hdr_bytes_def)
  have "write_ehdr st i (b, 0) (ehdr_extent ?ec) = Some (of_nat (hdr_end ?ec), st\<lparr>heap := h'\<rparr>)"
    using W(1,6) writing_ehdr[OF w] eh(1) header_sizes(1)[OF W(5), of st] m x(1) he
    by (simp add: write_ehdr_def ehdr_extent_def Let_def)
  then show ?thesis using x(2) by blast
qed

lemma write_phdr_ok:
  assumes w: "writing st i e H b tot img" and eh: "e_ehdr e = Some eh" "ehdr_phoff eh = of_nat (ph_start (e_class e))"
    and p: "e_nphdr e \<noteq> 0" "e_phdr e = Some ph" "phdrs_fit (e_class e) (unat (e_nphdr e)) ph"
    and len: "length img = ph_start (e_class e)" "ph_end e \<le> tot" and ex: "phdr_extents e = [ex]"
  shows "\<exists>h'. write_phdr st i (b, 0) ex = Some (of_nat (ph_end e), st\<lparr>heap := h'\<rparr>)
    \<and> image_at H b tot (img @ concat (map (hdr_bytes st e) (phdrs_fields ph))) h'"
proof -
  let ?ec = "e_class e" let ?n = "length (phdrs_fields ph)" and ?s = "sizeof_struct ?ec (Phdr_DEF ?ec)" and ?f = "FSZ ?ec (Phdr_DEF ?ec)"
  note W = writingD[OF w] and S = hdr_table_sizes(3,4)[of ?ec]
  have n: "?n = unat (e_nphdr e)" by (rule phdr_fields_ok(2)[OF p(3)])
  have fin: "ph_end e = ph_start ?ec + ?n * ?f" using p(1) unfolding n by (simp add: ph_end_def S(1) mult.commute)
  have m: "libelf_msize st ELF_T_PHDR ?ec EV_CURRENT = Some (of_nat ?s, st)" "(of_nat ?s :: u64) \<noteq> 0"
    using hdr_msize(1)[OF W(5), of ELF_T_PHDR st] hdr_msize(2)[OF W(5), of ELF_T_PHDR] unfolding S by simp_all
  have ok: "\<And>vs. vs \<in> set (phdrs_fields ph) \<Longrightarrow> members_ok ?ec (Phdr_DEF ?ec) vs" by (rule phdr_fields_ok(1)[OF p(3)])
  have v: "elf_type_valid ELF_T_PHDR" by simp
  have fit: "length img + ?n * ?f \<le> tot" using len fin by simp
  obtain h' where x: "xlate_struct st e ELF_T_PHDR (Some (concat (map (struct_store (host_order st) ?ec (Phdr_DEF ?ec)) (phdrs_fields ph))))
      (of_nat (?n * ?s)) (b, length img) (of_nat (?n * ?f)) = Some (True, st\<lparr>heap := h'\<rparr>)"
    "image_at H b tot (img @ concat (map (hdr_bytes st e) (phdrs_fields ph))) h'"
    using xlate_struct_ok[OF w header_defs(2) v ok fit] by (auto simp: hdr_bytes_def[abs_def])
  have f0: "0 < ?f" using header_sizes(5)[OF W(5)] unfolding S .
  have small: "ph_end e < 2 ^ 63" "ph_start ?ec < 2 ^ 63" using len W(3) fin by simp_all
  have "fsize_table ?ec ELF_T_PHDR * unat (e_nphdr e) < 2 ^ 64" using small(1) fin unfolding S(1) n by (simp add: mult.commute)
  then obtain z where z: "libelf_fsize st ELF_T_PHDR ?ec EV_CURRENT (e_nphdr e) = (z, st)" "unat z = fsize_table ?ec ELF_T_PHDR * unat (e_nphdr e)"
    by (rule fsize_count[OF v W(5) header_sizes(5)[OF W(5)]])
  have uz: "unat z = ?n * ?f" using z(2) unfolding S(1) n by (simp only: mult.commute)
  then have zz: "z = of_nat (?n * ?f)" by (rule word_of_unat)
  have z0: "0 < z" using uz f0 p(1) n by (simp add: word_less_nat_alt unat_gt_0)
  have ps: "hdr_end ?ec \<le> ph_start ?ec" unfolding ph_start_def
    by (rule align_up_bounds(1)) (use header_aligns(1)[OF W(5)] in auto)
  have up: "unat (of_nat (ph_start ?ec) :: u64) = ph_start ?ec" by (rule unat_small_nat[OF small(2)])
  have p0: "(0 :: u64) < of_nat (ph_start ?ec)" unfolding word_less_nat_alt up using ps header_sizes(4)[OF W(5)] by auto
  have al: "ph_start ?ec mod libelf_falign ELF_T_PHDR ?ec = 0"
    using align_up_bounds(5)[of "libelf_falign ELF_T_PHDR ?ec" "hdr_end ?ec"] by (simp add: ph_start_def mod_eq_0_iff_dvd)
  have ex': "ex_type ex = ELF_EXTENT_PHDR" "ex_start ex = of_nat (ph_start ?ec)" using ex p(1) by (auto simp: phdr_extents_def)
  have g: "libelf_getphdr st (Some i) ?ec = Some (True, st)"
    using W(1,5,7,8) p(2) by (simp add: libelf_getphdr_def)
  have pn: "0 < e_nphdr e" using p(1) by (simp add: word_greater_zero_iff)
  have cnt: "e_nphdr e * of_nat ?s = of_nat (?n * ?s)" unfolding n by simp
  have sum: "of_nat (ph_start ?ec) + z = of_nat (ph_end e)" unfolding zz fin by simp
  have "write_phdr st i (b, 0) ex = Some (of_nat (ph_end e), st\<lparr>heap := h'\<rparr>)"
    unfolding write_phdr_def W(1) bind.simps writing_ehdr[OF w] prod.case eh(1) Let_def W(6) m(1) z(1) g ex' eh(2) up al
    using m(2) x(1) p(2) z0 p0 pn sum cnt len(1) by (simp add: zz ptr_add_def del: of_nat_mult of_nat_add)
  then show ?thesis using x(2) by blast
qed

definition shdr_bytes :: "libelf_state \<Rightarrow> Elf \<Rightarrow> nat \<Rightarrow> bytes" where
  "shdr_bytes st e n = hdr_bytes st e (shdr_fields (s_shdr (the (e_scns e n))))"

lemma write_shdrs_ok:
  assumes "writing st i e H b tot img" and "ns = [k..<m]"
    and "\<forall>n\<in>set ns. \<exists>s. e_scns e n = Some s \<and> s_ndx s = n \<and> shdr_fits (e_class e) (s_shdr s)"
    and "length img = x + k * FSZ (e_class e) (Shdr_DEF (e_class e))" "length img + length ns * FSZ (e_class e) (Shdr_DEF (e_class e)) \<le> tot"
  shows "\<exists>h'. write_shdrs st e (b, 0) (of_nat x) (of_nat (sizeof_struct (e_class e) (Shdr_DEF (e_class e))))
      (of_nat (FSZ (e_class e) (Shdr_DEF (e_class e)))) ns = Some (True, st\<lparr>heap := h'\<rparr>)
    \<and> image_at H b tot (img @ concat (map (shdr_bytes st e) ns)) h'"
  using assms
proof (induction ns arbitrary: st img k)
  case Nil
  then show ?case using writingD(2)[OF Nil.prems(1)] by (auto intro: exI[of _ "heap st"])
next
  case (Cons n ns)
  let ?ec = "e_class e" let ?s = "sizeof_struct ?ec (Shdr_DEF ?ec)" and ?f = "FSZ ?ec (Shdr_DEF ?ec)"
  have km: "k < m" "n = k" "ns = [Suc k..<m]" using Cons.prems(2) by (cases "k < m"; simp add: upt_rec)+
  obtain s where s: "e_scns e n = Some s" "s_ndx s = n" "shdr_fits ?ec (s_shdr s)" using Cons.prems(3) by auto
  have ok: "\<And>vs. vs \<in> set [shdr_fields (s_shdr s)] \<Longrightarrow> members_ok ?ec (Shdr_DEF ?ec) vs" using shdr_fields_ok[OF s(3)] by simp
  have v: "elf_type_valid ELF_T_SHDR" by simp
  have fit: "length img + length [shdr_fields (s_shdr s)] * ?f \<le> tot" using Cons.prems(5) by simp
  obtain h1 where x: "xlate_struct st e ELF_T_SHDR (Some (struct_store (host_order st) ?ec (Shdr_DEF ?ec) (shdr_fields (s_shdr s))))
      (of_nat ?s) (b, length img) (of_nat ?f) = Some (True, st\<lparr>heap := h1\<rparr>)"
    "image_at H b tot (img @ shdr_bytes st e n) h1"
    using xlate_struct_ok[OF Cons.prems(1) header_defs(3) v ok fit] s(1) by (auto simp: hdr_bytes_def shdr_bytes_def)
  have lb: "length (shdr_bytes st e n) = ?f"
    using length_fields_bytes[OF ok] s(1) by (simp add: shdr_bytes_def hdr_bytes_def)
  have w1: "writing (st\<lparr>heap := h1\<rparr>) i e H b tot (img @ shdr_bytes st e n)" by (rule writing_step[OF Cons.prems(1) x(2)])
  have "\<exists>h'. write_shdrs (st\<lparr>heap := h1\<rparr>) e (b, 0) (of_nat x) (of_nat ?s) (of_nat ?f) ns = Some (True, st\<lparr>heap := h1\<rparr>\<lparr>heap := h'\<rparr>)
    \<and> image_at H b tot ((img @ shdr_bytes st e n) @ concat (map (shdr_bytes (st\<lparr>heap := h1\<rparr>) e) ns)) h'"
    by (rule Cons.IH[OF w1 km(3)]) (use Cons.prems(3-5) lb in simp_all)
  moreover have "shdr_bytes (st\<lparr>heap := h1\<rparr>) e = shdr_bytes st e" by (intro ext) (simp add: shdr_bytes_def)
  moreover have "write_shdrs st e (b, 0) (of_nat x) (of_nat ?s) (of_nat ?f) (n # ns)
      = write_shdrs (st\<lparr>heap := h1\<rparr>) e (b, 0) (of_nat x) (of_nat ?s) (of_nat ?f) ns"
  proof -
    have "length img \<le> tot" "tot < 2 ^ 59" using Cons.prems(5) writingD(3)[OF Cons.prems(1)] by simp_all
    then have "unat (of_nat x :: u64) = x" using Cons.prems(4) by (intro unat_small_nat) simp
    moreover have "?f \<le> 64" using fsize_le_64[of ?ec ELF_T_SHDR] unfolding hdr_table_sizes .
    then have "unat (of_nat ?f :: u64) = ?f" by (rule unat_of_nat_64)
    ultimately have "ptr_add (b, 0) (unat (of_nat x :: u64) + s_ndx s * unat (of_nat ?f :: u64)) = (b, length img)"
      using s(2) km(2) Cons.prems(4) by (simp add: ptr_add_def)
    then show ?thesis using s(1) x(1) by simp
  qed
  ultimately show ?case by simp
qed

lemma sorted_upt: "sorted_wrt (<) (ns :: nat list) \<Longrightarrow> set ns = {..<n} \<Longrightarrow> ns = [0..<n]"
  using strict_sorted_equal[of ns "[0..<n]"] by (simp add: atLeast_upt lessThan_atLeast0)

lemma write_shdr_ok:
  assumes w: "writing st i e H b tot img" and eh: "e_ehdr e = Some eh" "ehdr_shoff eh = of_nat (length img)"
    and n: "e_nscn e \<noteq> 0" "inorder (e_scn e) = [0..<unat (e_nscn e)]"
    and s: "\<forall>n\<in>set (inorder (e_scn e)). \<exists>s. e_scns e n = Some s \<and> s_ndx s = n \<and> shdr_fits (e_class e) (s_shdr s)"
    and len: "libelf_falign ELF_T_SHDR (e_class e) dvd length img"
      "length img + fsize_table (e_class e) ELF_T_SHDR * unat (e_nscn e) \<le> tot"
    and ex: "ex_type ex = ELF_EXTENT_SHDR" "ex_start ex = of_nat (length img)"
  shows "\<exists>h'. write_shdr st i (b, 0) ex
      = Some (of_nat (length img + fsize_table (e_class e) ELF_T_SHDR * unat (e_nscn e)), st\<lparr>heap := h'\<rparr>)
    \<and> image_at H b tot (img @ concat (map (shdr_bytes st e) (inorder (e_scn e)))) h'"
proof -
  let ?ec = "e_class e" let ?s = "sizeof_struct ?ec (Shdr_DEF ?ec)" and ?f = "FSZ ?ec (Shdr_DEF ?ec)"
  note W = writingD[OF w] and S = hdr_table_sizes(5,6)[of ?ec]
  have m: "libelf_msize st ELF_T_SHDR ?ec EV_CURRENT = Some (of_nat ?s, st)" "(of_nat ?s :: u64) \<noteq> 0"
    using hdr_msize(1)[OF W(5), of ELF_T_SHDR st] hdr_msize(2)[OF W(5), of ELF_T_SHDR] unfolding S by simp_all
  have u: "unat (of_nat (length img) :: u64) = length img" by (rule unat_small_nat) (use len W(3) in simp)
  have al: "length img mod libelf_falign ELF_T_SHDR ?ec = 0" using len(1) by simp
  have n0: "0 < e_nscn e" using n(1) by (simp add: word_greater_zero_iff)
  have len0: "length img = length img + 0 * ?f" by simp
  have fit: "length img + length (inorder (e_scn e)) * ?f \<le> tot" using len(2) unfolding n(2) S by (simp add: mult.commute)
  from write_shdrs_ok[OF w n(2) s len0 fit] obtain h' where x:
    "write_shdrs st e (b, 0) (of_nat (length img)) (of_nat ?s) (of_nat ?f) (inorder (e_scn e)) = Some (True, st\<lparr>heap := h'\<rparr>)"
    "image_at H b tot (img @ concat (map (shdr_bytes st e) (inorder (e_scn e)))) h'" by blast
  have "of_nat (length img) + e_nscn e * of_nat ?f = (of_nat (length img + fsize_table ?ec ELF_T_SHDR * unat (e_nscn e)) :: u64)"
    unfolding S by (simp add: mult.commute)
  then have "write_shdr st i (b, 0) ex = Some (of_nat (length img + fsize_table ?ec ELF_T_SHDR * unat (e_nscn e)), st\<lparr>heap := h'\<rparr>)"
    using W(1,6) writing_ehdr[OF w] eh n0 al m x(1) header_sizes(3)[OF W(5), of st, unfolded S] u ex
    by (simp add: write_shdr_def Let_def del: of_nat_add of_nat_mult)
  then show ?thesis using x(2) by blast
qed

section \<open>The data of a section\<close>

definition data_bytes :: "heap \<Rightarrow> Elf_Data \<Rightarrow> bytes" where
  "data_bytes H d = (case Option.bind (d_buf d) (\<lambda>p. mem_read H p (unat (d_size d))) of Some bs \<Rightarrow> bs | None \<Rightarrow> [])"

text \<open>A data descriptor whose buffer exists, is aligned and holds elements of one size.\<close>

definition data_there :: "heap \<Rightarrow> int \<Rightarrow> Elf_Data \<Rightarrow> bool" where
  "data_there H ec d \<longleftrightarrow> data_valid ec d \<and> fixed_type (d_type d)
     \<and> (\<exists>sb. d_buf d = Some sb \<and> snd sb mod libelf_malign (d_type d) ec = 0 \<and> window H sb (unat (d_size d)))"

text \<open>The contents of a section from its offset \<open>x\<close> on.\<close>

primrec scn_image :: "(nat \<Rightarrow> bytes) \<Rightarrow> (Elf_Data \<Rightarrow> bytes) \<Rightarrow> int \<Rightarrow> Libelf_Data list \<Rightarrow> nat \<Rightarrow> bytes" where
  "scn_image fill enc ec [] x = []"
| "scn_image fill enc ec (ld # lds) x =
     (let off = align_up (unat (d_align (d_data ld))) x
      in fill (off - x) @ enc (d_data ld) @ scn_image fill enc ec lds (off + data_fsz ec (d_data ld)))"

definition enc_data :: "libelf_state \<Rightarrow> Elf \<Rightarrow> heap \<Rightarrow> Elf_Data \<Rightarrow> bytes" where
  "enc_data st e H d = file_bytes (host_order st) (e_class e) (d_type d) (swapped st e) (data_bytes H d)"

lemma enc_data_heap [simp]: "enc_data (st\<lparr>heap := h\<rparr>) e H = enc_data st e H"
  by (intro ext) (simp add: enc_data_def host_order_def)

lemma fill_bytes_heap [simp]: "fill_bytes (st\<lparr>heap := h\<rparr>) = fill_bytes st"
  by (intro ext) (simp add: fill_bytes_def)

lemma data_counts:
  assumes v: "data_valid ec d" and ec: "ec = ELFCLASS32 \<or> ec = ELFCLASS64" and b: "data_fsz ec d < 2 ^ 64"
  shows "libelf_msize st (d_type d) ec EV_CURRENT = Some (of_nat (msize_table ec (d_type d)), st)"
    "(of_nat (msize_table ec (d_type d)) :: u64) \<noteq> 0" "d_size d mod of_nat (msize_table ec (d_type d)) = 0"
    "libelf_fsize st (d_type d) ec EV_CURRENT (d_size d div of_nat (msize_table ec (d_type d))) = (of_nat (data_fsz ec d), st)"
    "unat (d_size d) = unat (d_size d) div msize_table ec (d_type d) * msize_table ec (d_type d)"
    "0 < fsize_table ec (d_type d)"
proof -
  let ?m = "msize_table ec (d_type d)" and ?f = "fsize_table ec (d_type d)"
  have V: "elf_type_valid (d_type d)" "0 < ?m" "unat (d_size d) mod ?m = 0" using v by (simp_all add: data_valid_def)
  have um: "unat (of_nat ?m :: u64) = ?m" by (rule unat_of_nat_64[OF msize_le_64])
  show "libelf_msize st (d_type d) ec EV_CURRENT = Some (of_nat ?m, st)" "(of_nat ?m :: u64) \<noteq> 0"
    using msize_valid[OF V(1) ec, of st] V(2) of_nat_64_zero[OF msize_le_64, of ec "d_type d"] by simp_all
  have "unat (d_size d mod of_nat ?m) = 0" using V(3) by (simp add: unat_mod um)
  then show "d_size d mod of_nat ?m = 0" by (simp add: unat_eq_0)
  show f: "0 < ?f" using V(2) fsize_msize_rel(2)[of ec "d_type d"] by simp
  have cnt: "unat (d_size d div of_nat ?m) = unat (d_size d) div ?m" using um by (simp add: unat_div)
  have "?f * unat (d_size d div of_nat ?m) < 2 ^ 64" unfolding cnt using b by (simp add: data_fsz_def)
  then obtain z where z: "libelf_fsize st (d_type d) ec EV_CURRENT (d_size d div of_nat ?m) = (z, st)"
    "unat z = ?f * unat (d_size d div of_nat ?m)" by (rule fsize_count[OF V(1) ec f])
  have "z = of_nat (data_fsz ec d)" by (rule word_of_unat) (simp add: z(2) cnt data_fsz_def)
  then show "libelf_fsize st (d_type d) ec EV_CURRENT (d_size d div of_nat ?m) = (of_nat (data_fsz ec d), st)" using z(1) by simp
  show "unat (d_size d) = unat (d_size d) div ?m * ?m" using V(3) by auto
qed

text \<open>One data descriptor: the gap before it is filled and its contents are translated into the image.\<close>

lemma write_datum:
  assumes w: "writing st i e H b tot img" and th: "data_there H (e_class e) d" and b: "H b = None" and l: "length img = o1 + x"
    and le: "o1 + (align_up (unat (d_align d)) x + data_fsz (e_class e) d) \<le> tot"
  obtains h1 m dst' h2 where
    "fill_gap st (b, 0) (of_nat (length img)) (of_nat (o1 + align_up (unat (d_align d)) x)) = Some (st\<lparr>heap := h1\<rparr>)"
    "libelf_elfmachine (Some e) = Some m"
    "libelf_xlate (st\<lparr>heap := h1\<rparr>) (Some (zero_data\<lparr>d_buf := Some (b, o1 + align_up (unat (d_align d)) x),
        d_size := of_nat (data_fsz (e_class e) d), d_version := e_version e\<rparr>))
      (Some (d\<lparr>d_off := of_nat (align_up (unat (d_align d)) x)\<rparr>)) False (e_byteorder e) (e_class e) m ELF_TOFILE
      = Some (True, dst', st\<lparr>heap := h2\<rparr>)"
    "image_at H b tot (img @ fill_bytes st (align_up (unat (d_align d)) x - x) @ enc_data st e H d) h2"
    "length (img @ fill_bytes st (align_up (unat (d_align d)) x - x) @ enc_data st e H d)
      = o1 + (align_up (unat (d_align d)) x + data_fsz (e_class e) d)"
proof -
  let ?ec = "e_class e" and ?t = "d_type d" let ?m = "msize_table ?ec ?t" and ?f = "fsize_table ?ec ?t"
  let ?off = "align_up (unat (d_align d)) x" and ?n = "unat (d_size d) div ?m"
  note W = writingD[OF w]
  obtain sb where sb: "data_valid ?ec d" "fixed_type ?t" "d_buf d = Some sb" "snd sb mod libelf_malign ?t ?ec = 0"
    "window H sb (unat (d_size d))" using th by (auto simp: data_there_def)
  have V: "elf_type_valid ?t" "d_version d = EV_CURRENT" "d_align d \<noteq> 0" using sb(1) by (simp_all add: data_valid_def)
  have "0 < unat (d_align d)" using V(3) by (simp add: unat_gt_0)
  then have xo: "x \<le> ?off" by (rule align_up_bounds(1))
  have t63: "tot < 2 ^ 63" using W(3) by simp
  have fz: "data_fsz ?ec d = ?n * ?f" by (simp add: data_fsz_def mult.commute)
  have "data_fsz ?ec d < 2 ^ 64" using le W(3) by simp
  note D = data_counts[OF sb(1) W(5) this]
  obtain bs where bs: "mem_read H sb (unat (d_size d)) = Some bs" using sb(5) by (auto simp: window_def)
  have ne: "fst sb \<noteq> b" using b bs by (auto simp: mem_read_def)
  obtain h1 where g: "fill_gap st (b, 0) (of_nat (length img)) (of_nat (o1 + ?off)) = Some (st\<lparr>heap := h1\<rparr>)"
    "image_at H b tot (img @ fill_bytes st (?off - x)) h1"
    using fill_gap_ok[OF W(2), of "o1 + ?off"] xo le t63 l by auto
  let ?st1 = "st\<lparr>heap := h1\<rparr>" and ?img1 = "img @ fill_bytes st (?off - x)"
  have w1: "writing ?st1 i e H b tot ?img1" by (rule writing_step[OF w g(2)])
  have l1: "length ?img1 = o1 + ?off" using xo l by simp
  obtain m where m: "libelf_elfmachine (Some e) = Some m" using elfmachine_there[OF w1] by blast
  let ?src = "d\<lparr>d_off := of_nat ?off\<rparr>"
  let ?dst = "zero_data\<lparr>d_buf := Some (b, length ?img1), d_size := of_nat (data_fsz ?ec d), d_version := e_version e\<rparr>"
  have d60: "unat (d_size d) < 2 ^ 60"
  proof -
    have "?n * ?m \<le> ?n * (2 * ?f)" by (rule mult_le_mono2[OF msize_le_twice])
    also have "\<dots> = 2 * data_fsz ?ec d" unfolding fz by (simp only: mult.left_commute)
    finally have "unat (d_size d) \<le> 2 * data_fsz ?ec d" using D(5) by simp
    then show ?thesis using W(3) le by (intro twice_bound[of _ "data_fsz ?ec d" "o1 + ?off" tot]) simp_all
  qed
  have "\<exists>dst' h'. libelf_xlate ?st1 (Some ?dst) (Some ?src) False (e_byteorder e) ?ec m ELF_TOFILE = Some (True, dst', ?st1\<lparr>heap := h'\<rparr>)
    \<and> mem_write (heap ?st1) (b, length ?img1) (file_bytes (host_order ?st1) ?ec (d_type ?src) (e_byteorder e \<noteq> libelf_byteorder ?st1) bs) = Some h'
    \<and> length (file_bytes (host_order ?st1) ?ec (d_type ?src) (e_byteorder e \<noteq> libelf_byteorder ?st1) bs) = ?n * fsize_table ?ec (d_type ?src)"
  proof (rule xlate_writes[OF W(5), where sb = sb])
    show "mem_read (heap ?st1) sb (unat (d_size ?src)) = Some bs" using image_read[OF g(2) ne] bs by simp
    show "window (heap ?st1) (b, length ?img1) (?n * fsize_table ?ec (d_type ?src))"
      using image_window[OF g(2), of "data_fsz ?ec d"] le l1 by (simp add: fz)
    show "e_byteorder e = ELFDATA2LSB \<or> e_byteorder e = ELFDATA2MSB" using w1 by (simp add: writing_def)
    show "unat (d_size ?src) = ?n * msize_table ?ec (d_type ?src)" using D(5) by simp
  qed (use V sb D(6) ne d60 W(6) fz in simp_all)
  then obtain dst' h2 where x: "libelf_xlate ?st1 (Some ?dst) (Some ?src) False (e_byteorder e) ?ec m ELF_TOFILE
      = Some (True, dst', ?st1\<lparr>heap := h2\<rparr>)" "mem_write (heap ?st1) (b, length ?img1) (enc_data st e H d) = Some h2"
    "length (enc_data st e H d) = data_fsz ?ec d"
    using bs fz sb(3) by (auto simp: enc_data_def data_bytes_def host_order_def)
  have "image_at H b tot (?img1 @ enc_data st e H d) h2" by (rule image_write_eq[OF _ x(2)]) (use g(2) in simp)
  then show thesis using g(1) m x(1,3) l1 by (intro that[of h1 m dst' h2]) simp_all
qed

lemma write_data_ok:
  assumes "writing st i e H b tot img" and "\<forall>ld\<in>set lds. data_there H (e_class e) (d_data ld)" "H b = None"
    and "s_offset s = of_nat o1" "length img = o1 + x" "o1 + data_end (e_class e) lds x \<le> tot"
  shows "\<exists>h'. write_data st e s (b, 0) (data_places (e_class e) lds x) (of_nat (length img))
      = Some (of_nat (o1 + data_end (e_class e) lds x), st\<lparr>heap := h'\<rparr>)
    \<and> image_at H b tot (img @ scn_image (fill_bytes st) (enc_data st e H) (e_class e) lds x) h'
    \<and> length (img @ scn_image (fill_bytes st) (enc_data st e H) (e_class e) lds x) = o1 + data_end (e_class e) lds x"
  using assms
proof (induction lds arbitrary: st img x)
  case Nil
  then show ?case using writingD(2)[OF Nil.prems(1)] by (auto intro: exI[of _ "heap st"])
next
  case (Cons ld lds)
  let ?ec = "e_class e" and ?d = "d_data ld" let ?off = "align_up (unat (d_align ?d)) x" let ?x = "?off + data_fsz ?ec ?d"
  let ?src = "?d\<lparr>d_off := of_nat ?off\<rparr>"
  note W = writingD[OF Cons.prems(1)]
  have th: "data_there H ?ec ?d" using Cons.prems(2) by simp
  have V: "data_valid ?ec ?d" "elf_type_valid (d_type ?d)" "d_version ?d = EV_CURRENT" "d_buf ?d \<noteq> None"
    using th by (auto simp: data_there_def data_valid_def)
  have al: "\<And>ld. ld \<in> set lds \<Longrightarrow> d_align (d_data ld) \<noteq> 0" using Cons.prems(2) by (auto simp: data_there_def data_valid_def)
  have "?x \<le> data_end ?ec lds ?x" by (rule data_end_ge[OF al])
  then have le: "o1 + ?x \<le> tot" using Cons.prems(6) by simp
  have t63: "tot < 2 ^ 63" using W(3) by simp
  obtain h1 m dst' h2 where D: "fill_gap st (b, 0) (of_nat (length img)) (of_nat (o1 + ?off)) = Some (st\<lparr>heap := h1\<rparr>)"
    "libelf_elfmachine (Some e) = Some m"
    "libelf_xlate (st\<lparr>heap := h1\<rparr>) (Some (zero_data\<lparr>d_buf := Some (b, o1 + ?off), d_size := of_nat (data_fsz ?ec ?d), d_version := e_version e\<rparr>))
      (Some ?src) False (e_byteorder e) ?ec m ELF_TOFILE = Some (True, dst', st\<lparr>heap := h2\<rparr>)"
    "image_at H b tot (img @ fill_bytes st (?off - x) @ enc_data st e H ?d) h2"
    "length (img @ fill_bytes st (?off - x) @ enc_data st e H ?d) = o1 + ?x"
    by (rule write_datum[OF Cons.prems(1) th Cons.prems(3,5) le])
  let ?st2 = "st\<lparr>heap := h2\<rparr>" and ?img2 = "img @ fill_bytes st (?off - x) @ enc_data st e H ?d"
  have w2: "writing ?st2 i e H b tot ?img2" by (rule writing_step[OF Cons.prems(1) D(4)])
  have ih: "\<exists>h'. write_data ?st2 e s (b, 0) (data_places ?ec lds ?x) (of_nat (length ?img2))
      = Some (of_nat (o1 + data_end ?ec lds ?x), ?st2\<lparr>heap := h'\<rparr>)
    \<and> image_at H b tot (?img2 @ scn_image (fill_bytes ?st2) (enc_data ?st2 e H) ?ec lds ?x) h'
    \<and> length (?img2 @ scn_image (fill_bytes ?st2) (enc_data ?st2 e H) ?ec lds ?x) = o1 + data_end ?ec lds ?x"
    by (rule Cons.IH[OF w2 _ Cons.prems(3,4) D(5)]) (use Cons.prems(2,6) in simp_all)
  have pos: "s_offset s + of_nat ?off = of_nat (o1 + ?off)" using Cons.prems(4) by simp
  have up: "unat (of_nat (o1 + ?off) :: u64) = o1 + ?off" by (rule unat_small_nat) (use le t63 in linarith)
  have fin: "of_nat (o1 + ?off) + of_nat (data_fsz ?ec ?d) = (of_nat (length ?img2) :: u64)" unfolding D(5) by simp
  have "data_fsz ?ec ?d < 2 ^ 64" using le W(3) by simp
  note D1 = data_counts(1-4)[OF V(1) W(5) this]
  have "write_data st e s (b, 0) (data_places ?ec (ld # lds) x) (of_nat (length img)) = (do {
       st \<leftarrow> fill_gap st (b, 0) (of_nat (length img)) (of_nat (o1 + ?off));
       (ok, dst, st) \<leftarrow> libelf_xlate st (Some (zero_data\<lparr>d_buf := Some (b, o1 + ?off),
           d_size := of_nat (data_fsz ?ec ?d), d_version := e_version e\<rparr>)) (Some ?src) False (e_byteorder e) ?ec m ELF_TOFILE;
       if \<not> ok then Some (- 1, st) else write_data st e s (b, 0) (data_places ?ec lds ?x) (of_nat (o1 + ?off) + of_nat (data_fsz ?ec ?d)) })"
    using pos up D(2) D1 V(2-4) W(6) unfolding data_places.simps Let_def write_data.simps
    by (simp add: ptr_add_def del: of_nat_add cong: if_cong)
  then have step: "write_data st e s (b, 0) (data_places ?ec (ld # lds) x) (of_nat (length img))
      = write_data ?st2 e s (b, 0) (data_places ?ec lds ?x) (of_nat (length ?img2))"
    using D(1,3) unfolding fin by simp
  show ?case unfolding step using ih unfolding scn_image.simps Let_def by simp
qed

section \<open>Sections and extents\<close>

lemma scn_image_places: "(\<And>d off. enc (d\<lparr>d_off := off\<rparr>) = enc d) \<Longrightarrow>
  scn_image fill enc ec (data_places ec lds x) y = scn_image fill enc ec lds y"
  by (induction lds arbitrary: x y) (simp_all add: Let_def data_fsz_def)

lemma data_bytes_off [simp]: "data_bytes H (d\<lparr>d_off := off\<rparr>) = data_bytes H d"
  by (simp add: data_bytes_def)

lemma enc_data_off [simp]: "enc_data st e H (d\<lparr>d_off := off\<rparr>) = enc_data st e H d"
  by (simp add: enc_data_def)

lemma write_scn_ok:
  assumes w: "writing st i e H b tot img" and s: "e_scns e n = Some s" "s_data s = data_places (e_class e) lds 0" "lds \<noteq> []"
    and f: "in_file s" "shdr_size (s_shdr s) \<noteq> 0" "elf_type_valid (libelf_xlate_shtype (shdr_type (s_shdr s)))"
      "libelf_falign (libelf_xlate_shtype (shdr_type (s_shdr s))) (e_class e) dvd length img"
    and d: "\<forall>ld\<in>set lds. data_there H (e_class e) (d_data ld)" "H b = None"
    and o: "s_offset s = of_nat (length img)" "length img + data_end (e_class e) lds 0 \<le> tot"
  shows "\<exists>h'. write_scn st i (b, 0) (scn_extent n s) = Some (of_nat (length img + data_end (e_class e) lds 0), st\<lparr>heap := h'\<rparr>)
    \<and> image_at H b tot (img @ scn_image (fill_bytes st) (enc_data st e H) (e_class e) (s_data s) 0) h'
    \<and> length (img @ scn_image (fill_bytes st) (enc_data st e H) (e_class e) (s_data s) 0) = length img + data_end (e_class e) lds 0"
proof -
  note W = writingD[OF w]
  have len: "length img = length img + 0" by simp
  from write_data_ok[OF w d o(1) len o(2)] obtain h' where x:
    "write_data st e s (b, 0) (data_places (e_class e) lds 0) (of_nat (length img)) = Some (of_nat (length img + data_end (e_class e) lds 0), st\<lparr>heap := h'\<rparr>)"
    "image_at H b tot (img @ scn_image (fill_bytes st) (enc_data st e H) (e_class e) lds 0) h'"
    "length (img @ scn_image (fill_bytes st) (enc_data st e H) (e_class e) lds 0) = length img + data_end (e_class e) lds 0" by blast
  have u: "unat (of_nat (length img) :: u64) = length img" by (rule unat_small_nat) (use o(2) W(3) in simp)
  have "data_places (e_class e) lds 0 \<noteq> []" using s(3) by (cases lds) (simp_all add: Let_def)
  then have "write_scn st i (b, 0) (scn_extent n s) = Some (of_nat (length img + data_end (e_class e) lds 0), st\<lparr>heap := h'\<rparr>)"
    using W(1) s f x(1) o(1) u
    by (simp add: write_scn_def scn_extent_def in_file_def dvd_eq_mod_eq_0 Let_def del: of_nat_add)
  moreover have "scn_image (fill_bytes st) (enc_data st e H) (e_class e) (data_places (e_class e) lds 0) 0
      = scn_image (fill_bytes st) (enc_data st e H) (e_class e) lds 0" by (rule scn_image_places) simp
  ultimately show ?thesis using x(2,3) unfolding s(2) by (intro exI[of _ h']) simp
qed

text \<open>The bytes of an extent of the laid out object \<open>e\<close>, whose data lie in the memory \<open>H\<close>; the bytes of all extents.\<close>

definition extent_bytes :: "libelf_state \<Rightarrow> Elf \<Rightarrow> heap \<Rightarrow> Elf_Extent \<Rightarrow> bytes" where
  "extent_bytes st e H ex =
     (case ex_type ex of
        ELF_EXTENT_EHDR \<Rightarrow> hdr_bytes st e (ehdr_fields (the (e_ehdr e)))
      | ELF_EXTENT_PHDR \<Rightarrow> concat (map (hdr_bytes st e) (phdrs_fields (the (e_phdr e))))
      | ELF_EXTENT_SECTION \<Rightarrow>
          scn_image (fill_bytes st) (enc_data st e H) (e_class e) (s_data (the (e_scns e (the (ex_desc ex))))) 0
      | ELF_EXTENT_SHDR \<Rightarrow> concat (map (shdr_bytes st e) (inorder (e_scn e))))"

primrec extents_image :: "libelf_state \<Rightarrow> Elf \<Rightarrow> heap \<Rightarrow> Elf_Extent list \<Rightarrow> nat \<Rightarrow> bytes" where
  "extents_image st e H [] pos = []"
| "extents_image st e H (ex # exs) pos =
     fill_bytes st (unat (ex_start ex) - pos) @ extent_bytes st e H ex @ extents_image st e H exs (ex_end ex)"

definition writes_extent :: "libelf_state \<Rightarrow> nat \<Rightarrow> Elf \<Rightarrow> heap \<Rightarrow> nat \<Rightarrow> nat \<Rightarrow> Elf_Extent \<Rightarrow> bool" where
  "writes_extent st i e H b tot ex \<longleftrightarrow> (\<forall>h img. writing (st\<lparr>heap := h\<rparr>) i e H b tot img \<longrightarrow> length img = unat (ex_start ex) \<longrightarrow>
     (\<exists>h'. write_extent (st\<lparr>heap := h\<rparr>) i (b, 0) ex = Some (of_nat (ex_end ex), st\<lparr>heap := h'\<rparr>)
        \<and> image_at H b tot (img @ extent_bytes st e H ex) h' \<and> length (img @ extent_bytes st e H ex) = ex_end ex))"

lemma write_extents_ok:
  assumes "chained pos exs fin" "fin \<le> tot" "\<forall>ex\<in>set exs. writes_extent st i e H b tot ex"
    and "writing (st\<lparr>heap := h\<rparr>) i e H b tot img" "length img = pos"
  shows "\<exists>h'. write_extents (st\<lparr>heap := h\<rparr>) i (b, 0) exs (of_nat pos) = Some (Some (of_nat fin), st\<lparr>heap := h'\<rparr>)
    \<and> image_at H b tot (img @ extents_image st e H exs pos) h' \<and> length (img @ extents_image st e H exs pos) = fin"
  using assms
proof (induction exs arbitrary: pos h img)
  case Nil
  then show ?case using writingD(2)[OF Nil.prems(4)] by auto
next
  case (Cons ex exs)
  note w = Cons.prems(4)
  have c: "pos \<le> unat (ex_start ex)" "ex_size ex \<noteq> 0" "chained (ex_end ex) exs fin" using Cons.prems(1) by simp_all
  have fin: "ex_end ex \<le> fin" using chained_le[OF c(3)] by simp
  have tot: "tot < 2 ^ 63" using writingD(3)[OF w] by simp
  have st: "unat (ex_start ex) < ex_end ex" using c(2) by (simp add: ex_end_def unat_gt_0)
  have os: "of_nat (unat (ex_start ex)) = ex_start ex" by simp
  have b: "length img \<le> unat (ex_start ex)" "unat (ex_start ex) \<le> tot" using c(1) Cons.prems(2,5) fin st by simp_all
  obtain h1 where "fill_gap (st\<lparr>heap := h\<rparr>) (b, 0) (of_nat (length img)) (of_nat (unat (ex_start ex))) = Some (st\<lparr>heap := h\<rparr>\<lparr>heap := h1\<rparr>)"
    "image_at H b tot (img @ fill_bytes (st\<lparr>heap := h\<rparr>) (unat (ex_start ex) - length img)) h1"
    by (rule fill_gap_ok[OF writingD(2)[OF w] b tot])
  then have g: "fill_gap (st\<lparr>heap := h\<rparr>) (b, 0) (of_nat pos) (ex_start ex) = Some (st\<lparr>heap := h1\<rparr>)"
    "image_at H b tot (img @ fill_bytes st (unat (ex_start ex) - pos)) h1"
    unfolding os Cons.prems(5) by simp_all
  let ?img1 = "img @ fill_bytes st (unat (ex_start ex) - pos)"
  have w1: "writing (st\<lparr>heap := h1\<rparr>) i e H b tot ?img1" using writing_step[OF w g(2)] by simp
  have "length ?img1 = unat (ex_start ex)" using c(1) Cons.prems(5) by simp
  then obtain h2 where x: "write_extent (st\<lparr>heap := h1\<rparr>) i (b, 0) ex = Some (of_nat (ex_end ex), st\<lparr>heap := h2\<rparr>)"
    "image_at H b tot (?img1 @ extent_bytes st e H ex) h2" "length (?img1 @ extent_bytes st e H ex) = ex_end ex"
    using Cons.prems(3) w1 unfolding writes_extent_def list.set by blast
  have w2: "writing (st\<lparr>heap := h2\<rparr>) i e H b tot (?img1 @ extent_bytes st e H ex)" using writing_step[OF w1 x(2)] by simp
  have "\<forall>ex\<in>set exs. writes_extent st i e H b tot ex" using Cons.prems(3) by simp
  from Cons.IH[OF c(3) Cons.prems(2) this w2 x(3)] obtain h3 where r:
    "write_extents (st\<lparr>heap := h2\<rparr>) i (b, 0) exs (of_nat (ex_end ex)) = Some (Some (of_nat fin), st\<lparr>heap := h3\<rparr>)"
    "image_at H b tot ((?img1 @ extent_bytes st e H ex) @ extents_image st e H exs (ex_end ex)) h3"
    "length ((?img1 @ extent_bytes st e H ex) @ extents_image st e H exs (ex_end ex)) = fin" by blast
  have e63: "ex_end ex < 2 ^ 63" "pos < 2 ^ 63" using fin tot Cons.prems(2) c(1) st by simp_all
  have sum: "ex_start ex + ex_size ex = of_nat (ex_end ex)"
    by (rule word_of_unat) (use unat_add_small[of "ex_start ex" "ex_size ex"] e63(1) in \<open>simp add: ex_end_def\<close>)
  have si: "sint (of_nat (ex_end ex) :: u64) = int (ex_end ex)" "sint (of_nat pos :: u64) = int pos"
    by (rule sint_of_small[OF e63(1)], rule sint_of_small[OF e63(2)])
  have lt: "pos < ex_end ex" using c(1) st by simp
  have "write_extents (st\<lparr>heap := h\<rparr>) i (b, 0) (ex # exs) (of_nat pos) = Some (Some (of_nat fin), st\<lparr>heap := h3\<rparr>)"
    using g(1) x(1) r(1) sum si lt by simp
  then show ?case using r(2,3) by (intro exI[of _ h3]) simp
qed

section \<open>The laid out object\<close>

text \<open>
  What the client has to provide for the object to be written: a file, a byte order, buffers for the data; the sections
  have the alignment of their type, and section 0 has no contents.
\<close>

definition writable :: "libelf_state \<Rightarrow> Elf \<Rightarrow> ehdr \<Rightarrow> bool" where
  "writable st e eh \<longleftrightarrow> heap_fresh st \<and> 0 \<le> e_fd e \<and> e_flags e AND LIBELF_F_RAWFILE_MMAP = 0 \<and> raw_plain e
     \<and> ((ucast (ehdr_ident eh ! EI_DATA) :: u32) = ELFDATA2LSB \<or> (ucast (ehdr_ident eh ! EI_DATA) :: u32) = ELFDATA2MSB)
     \<and> object_size e < 2 ^ 59 \<and> (e_class e = ELFCLASS32 \<longrightarrow> object_size e < 2 ^ 32)
     \<and> (\<forall>s. e_scns e 0 = Some s \<longrightarrow> \<not> in_file s)
     \<and> (\<forall>n s. e_scns e n = Some s \<longrightarrow> in_file s \<longrightarrow> scn_bytes (e_class e) s \<noteq> 0 \<longrightarrow>
          \<not> keeps_size s \<and> scn_falign (e_class e) s dvd scn_align (e_class e) s
          \<and> (\<forall>ld\<in>set (s_data s). data_there (heap st) (e_class e) (d_data ld)))"

lemma writableD:
  assumes "writable st e eh"
  shows "heap_fresh st" "0 \<le> e_fd e" "object_size e < 2 ^ 59" "e_class e = ELFCLASS32 \<Longrightarrow> object_size e < 2 ^ 32"
    "e_scns e 0 = Some s \<Longrightarrow> \<not> in_file s"
    "(ucast (ehdr_ident eh ! EI_DATA) :: u32) = ELFDATA2LSB \<or> (ucast (ehdr_ident eh ! EI_DATA) :: u32) = ELFDATA2MSB"
    "e_flags e AND LIBELF_F_RAWFILE_MMAP = 0" "raw_plain e"
  using assms unfolding writable_def by simp_all

lemma laid_out_fields [simp]:
  "e_class (laid_out e eh X) = e_class e" "e_nphdr (laid_out e eh X) = e_nphdr e" "e_nscn (laid_out e eh X) = e_nscn e"
  "e_scn (laid_out e eh X) = e_scn e" "e_phdr (laid_out e eh X) = e_phdr e" "e_ehdr (laid_out e eh X) = Some (laid_out_ehdr e eh)"
  "e_scns (laid_out e eh X) = counts_scns (e_nphdr e) (e_nscn e) X" "ph_end (laid_out e eh X) = ph_end e"
  "phdr_extents (laid_out e eh X) = phdr_extents e" "e_fd (laid_out e eh X) = e_fd e" "e_cmd (laid_out e eh X) = e_cmd e"
  "e_kind (laid_out e eh X) = e_kind e" "e_version (laid_out e eh X) = e_version e" "e_rawfile (laid_out e eh X) = e_rawfile e"
  "e_byteorder (laid_out e eh X) = ucast (ehdr_ident eh ! EI_DATA)"
  by (simp_all add: laid_out_def ph_end_def phdr_extents_def)

lemma ehdr_fits_laid_out: "ehdr_fits ec (laid_out_ehdr e eh) = ehdr_fits ec eh"
  by (simp add: laid_out_ehdr_set counts_ehdr_def started_ehdr_def)

lemma ucast_32_same: "unat (x :: u64) < 2 ^ 32 \<Longrightarrow> ucast (ucast x :: u32) = x"
  by (simp add: word_unat_eq_iff unat_ucast_mod unat_ucast_up)

lemma shdr_fits_kept:
  "shdr_fits ec (set_sh_layout al ent off sz sh) = shdr_fits ec sh" "shdr_fits ec (set_sh_info v sh) = shdr_fits ec sh"
  "shdr_fits ec (set_sh_size v sh) = shdr_fits ec sh"
  by (cases sh; simp add: shdr_fits_def)+

lemma shdr_fits_counts: "shdr_fits ec (s_shdr (counts_scn ph sn s)) = shdr_fits ec (s_shdr s)"
  by (simp add: counts_scn_def counts_shdr_set Let_def shdr_fits_kept)

lemma scns_end_bytes: "s \<in> set ss \<Longrightarrow> in_file s \<Longrightarrow> scn_bytes ec s \<le> scns_end ec ss x"
proof (induction ss arbitrary: x)
  case Nil
  then show ?case by simp
next
  case (Cons t ss)
  show ?case
  proof (cases "s = t")
    case True
    have "scn_bytes ec s \<le> scn_end ec t x" using True Cons.prems(2) by (simp add: scn_end_def)
    also have "\<dots> \<le> scns_end ec ss (scn_end ec t x)" by (rule scns_end_ge)
    finally show ?thesis by (simp add: scns_end_Cons)
  next
    case False
    then show ?thesis using Cons by (simp add: scns_end_Cons)
  qed
qed

lemma falign_word_dvd:
  assumes "f \<in> {1, 2, 4, 8}" "f dvd k"
  shows "f dvd unat (of_nat k :: u64)"
proof -
  have "f dvd (2 :: nat) ^ 64" using assms(1) by auto
  then have "f dvd k mod 2 ^ 64" using assms(2) by (simp add: dvd_mod)
  then show ?thesis by (simp add: unat_of_nat)
qed

text \<open>Section \<open>n\<close> of the laid out object, when it has an extent.\<close>

lemma laid_out_scn:
  assumes c: "creating st i e eh" and wr: "writable st e eh" and X: "sections_placed e (inorder (e_scn e)) X"
    and n: "n \<in> set (inorder (e_scn e))" "has_extent (the (X n))"
  obtains s s' where "e_scns e n = Some s" "X n = Some s'" "counts_scns (e_nphdr e) (e_nscn e) X n = Some s'"
    "s_data s' = data_places (e_class e) (s_data s) 0" "s_data s \<noteq> []" "in_file s'"
    "shdr_size (s_shdr s') \<noteq> 0" "elf_type_valid (libelf_xlate_shtype (shdr_type (s_shdr s')))"
    "libelf_falign (libelf_xlate_shtype (shdr_type (s_shdr s'))) (e_class e) dvd unat (s_offset s')"
    "\<forall>ld\<in>set (s_data s). data_there (heap st) (e_class e) (d_data ld)"
    "unat (s_size s') = data_end (e_class e) (s_data s) 0"
proof -
  let ?ec = "e_class e"
  have dom: "set (inorder (e_scn e)) = dom (e_scns e)" using creatingD(4)[OF c] by (simp add: scn_inv_def rb_keys_def)
  obtain s where s: "e_scns e n = Some s" using n(1) unfolding dom by auto
  obtain s' where s': "X n = Some s'" "scn_laid_out ?ec s s'"
    using spec[OF X[unfolded sections_placed_def], of n] n(1) s by auto
  have ex: "in_file s'" "s_size s' \<noteq> 0" using n(2) s'(1) by (simp_all add: has_extent_def)
  have fs: "in_file s" using s'(2) ex(1) by (auto simp: scn_laid_out_def split: if_splits)
  then obtain x where p: "placed_scn ?ec s x s'" using s'(2) by (auto simp: scn_laid_out_def)
  note P = placed_scn_fields[OF p]
  have nz: "scn_bytes ?ec s \<noteq> 0" using ex(2) P(1) by (metis semiring_1_class.of_nat_0)
  have n0: "n \<noteq> 0"
  proof
    assume "n = 0"
    then show False using writableD(5)[OF wr] s fs by simp
  qed
  have W: "\<not> keeps_size s" "scn_falign ?ec s dvd scn_align ?ec s" "\<forall>ld\<in>set (s_data s). data_there (heap st) ?ec (d_data ld)"
    using wr s fs nz unfolding writable_def by blast+
  have ge: "scn_bytes ?ec s \<le> object_size e"
  proof -
    have "s \<in> set (object_scns e)" using n(1) s by (force simp: object_scns_def)
    from scns_end_bytes[OF this fs, of ?ec "ph_end e"] have "scn_bytes ?ec s \<le> area_end e" by (simp add: area_end_def)
    then show ?thesis using area_end_ge(3)[OF creatingD(10)[OF c]] by simp
  qed
  have sz: "object_size e < 2 ^ 59" "?ec = ELFCLASS32 \<Longrightarrow> object_size e < 2 ^ 32" using wr by (simp_all add: writable_def)
  have us: "unat (s_size s') = scn_bytes ?ec s" unfolding P(1) by (rule unat_small_nat) (use ge sz(1) in simp)
  have de: "scn_bytes ?ec s = data_end ?ec (s_data s) 0" using W(1) by (simp add: scn_bytes_def)
  obtain al ent off where pl: "s' = s\<lparr>s_shdr := set_sh_layout al ent off (of_nat (scn_bytes ?ec s)) (s_shdr s),
      s_data := data_places ?ec (s_data s) 0, s_size := of_nat (scn_bytes ?ec s), s_offset := off\<rparr>" "scn_valid ?ec s"
    by (rule placed_scn_layout[OF p, unfolded if_not_P[OF W(1)]])
  have ty: "shdr_type (s_shdr s') = shdr_type (s_shdr s)" using pl(1) by simp
  have valid: "elf_type_valid (libelf_xlate_shtype (shdr_type (s_shdr s)))" using pl(2) by (simp add: scn_valid_def)
  have "shdr_size (s_shdr s') \<noteq> 0"
  proof (cases "s_shdr s")
    case (Sh32 h)
    have "shdr_fits ?ec (s_shdr s)" using c s by (auto simp: creating_def)
    then have "?ec = ELFCLASS32" using Sh32 by (simp add: shdr_fits_def)
    then have "unat (of_nat (scn_bytes ?ec s) :: u64) < 2 ^ 32" using us[unfolded P(1)] ge sz by simp
    from ucast_32_same[OF this] show ?thesis using Sh32 pl(1) ex(2) P(1) by simp
  next
    case (Sh64 h)
    then show ?thesis using pl(1) ex(2) P(1) by simp
  qed
  moreover have "libelf_falign (libelf_xlate_shtype (shdr_type (s_shdr s))) ?ec dvd unat (s_offset s')"
  proof -
    have f: "libelf_falign (libelf_xlate_shtype (shdr_type (s_shdr s))) ?ec \<in> {1, 2, 4, 8}" by (rule falign_section[OF valid])
    then have "scn_falign ?ec s = libelf_falign (libelf_xlate_shtype (shdr_type (s_shdr s))) ?ec" by (auto simp: scn_falign_def)
    then have "libelf_falign (libelf_xlate_shtype (shdr_type (s_shdr s))) ?ec dvd scn_start ?ec s x"
      using W(2) scn_start_dvd dvd_trans by metis
    then show ?thesis unfolding P(5) by (rule falign_word_dvd[OF f])
  qed
  moreover have "s_data s \<noteq> []" using nz de by auto
  ultimately show thesis
    using that[OF s s'(1)] s'(1) n0 ty valid W(3) us de ex(1) pl(1) by (simp add: counts_scns_def)
qed

lemma phoff_laid_out:
  assumes "ehdr_fits ec eh" "ec = ELFCLASS32 \<or> ec = ELFCLASS64" "ec = e_class e" "e_nphdr e \<noteq> 0"
  shows "ehdr_phoff (laid_out_ehdr e eh) = of_nat (ph_start ec)"
proof -
  have "ph_start ec \<in> {52, 56, 64}" using assms(2) header_sizes(4)[OF assms(2)] header_aligns(1)[OF assms(2)]
    by (auto simp: ph_start_def align_up_def)
  then have "ucast (ucast (of_nat (ph_start ec) :: u64) :: u32) = (of_nat (ph_start ec) :: u64)"
    by (intro ucast_32_same) auto
  then show ?thesis using assms
    by (cases eh) (auto simp: laid_out_ehdr_set counts_ehdr_def started_ehdr_def)
qed

lemma shoff_laid_out:
  assumes "ehdr_fits (e_class e) eh" "e_nscn e \<noteq> 0" "sh_start e < 2 ^ 64" "e_class e = ELFCLASS32 \<longrightarrow> sh_start e < 2 ^ 32"
  shows "ehdr_shoff (laid_out_ehdr e eh) = of_nat (sh_start e)"
proof (cases eh)
  case (Eh32 h)
  then have "e_class e = ELFCLASS32" using assms(1) by (simp add: ehdr_fits_def)
  then have "unat (of_nat (sh_start e) :: u64) < 2 ^ 32" using assms(4) by (simp add: unat_of_nat)
  from ucast_32_same[OF this] show ?thesis using Eh32 assms(2)
    by (simp add: laid_out_ehdr_set counts_ehdr_def started_ehdr_def)
next
  case (Eh64 h)
  then show ?thesis using assms(2) by (simp add: laid_out_ehdr_set counts_ehdr_def started_ehdr_def)
qed

lemma laid_out_inorder:
  assumes c: "creating st i e eh"
  shows "inorder (e_scn e) = [0..<unat (e_nscn e)]"
  using creatingD(4,11)[OF c] by (intro sorted_upt) (simp_all add: scn_inv_def rb_inv_def rb_keys_def)

lemma laid_out_shdrs:
  assumes c: "creating st i e eh" and X: "sections_placed e (inorder (e_scn e)) X" and n: "n \<in> set (inorder (e_scn e))"
  shows "\<exists>s. e_scns (laid_out e eh X) n = Some s \<and> s_ndx s = n \<and> shdr_fits (e_class e) (s_shdr s)"
proof -
  have inv: "scn_inv e" by (rule creatingD(4)[OF c])
  then obtain s where s: "e_scns e n = Some s" "s_ndx s = n" using n by (auto simp: scn_inv_def rb_keys_def)
  have f: "shdr_fits (e_class e) (s_shdr s)" using c s(1) by (auto simp: creating_def)
  obtain s' where s': "X n = Some s'" "scn_laid_out (e_class e) s s'"
    using spec[OF X[unfolded sections_placed_def], of n] n s by auto
  have "s_ndx s' = n \<and> shdr_fits (e_class e) (s_shdr s')"
  proof (cases "in_file s")
    case True
    then obtain x where "placed_scn (e_class e) s x s'" using s'(2) by (auto simp: scn_laid_out_def)
    then show ?thesis using s f by (auto simp: shdr_fits_kept elim!: placed_scn_layout)
  next
    case False
    then show ?thesis using s s' f by (simp add: scn_laid_out_def)
  qed
  moreover have "s_ndx (counts_scn a b s') = s_ndx s'" for a b by (simp add: counts_scn_def)
  ultimately show ?thesis using s'(1) by (auto simp: counts_scns_def shdr_fits_counts)
qed

text \<open>Each kind of extent of the object, in turn. The image so far ends where the extent starts.\<close>

definition extent_written :: "libelf_state \<Rightarrow> nat \<Rightarrow> Elf \<Rightarrow> heap \<Rightarrow> nat \<Rightarrow> nat \<Rightarrow> bytes \<Rightarrow> Elf_Extent \<Rightarrow> bool" where
  "extent_written st i e H b tot img ex \<longleftrightarrow> (\<exists>h'. write_extent st i (b, 0) ex = Some (of_nat (ex_end ex), st\<lparr>heap := h'\<rparr>)
     \<and> image_at H b tot (img @ extent_bytes st e H ex) h' \<and> length (img @ extent_bytes st e H ex) = ex_end ex)"

lemma ehdr_written:
  assumes c: "creating st i e eh" and w: "writing st1 i (laid_out e eh X) H b (object_size e) []"
  shows "extent_written st1 i (laid_out e eh X) H b (object_size e) [] (ehdr_extent (e_class e))"
proof -
  let ?e = "laid_out e eh X" and ?ec = "e_class e" and ?tot = "object_size e" and ?ex = "ehdr_extent (e_class e)"
  note C = creatingD[OF c]
  have f: "ehdr_fits (e_class ?e) (laid_out_ehdr e eh)" using C(6) by (simp add: ehdr_fits_laid_out)
  have "hdr_end (e_class ?e) \<le> ?tot" using area_end_ge[OF C(10)] by simp
  from write_ehdr_ok[OF w _ f this] obtain h' where x:
    "write_ehdr st1 i (b, 0) ?ex = Some (of_nat (hdr_end ?ec), st1\<lparr>heap := h'\<rparr>)"
    "image_at H b ?tot (hdr_bytes st1 ?e (ehdr_fields (laid_out_ehdr e eh))) h'" by auto
  have "length (hdr_bytes st1 ?e (ehdr_fields (laid_out_ehdr e eh))) = hdr_end ?ec"
    using length_fields_bytes[OF ehdr_fields_ok[OF f]] by (simp add: hdr_bytes_def hdr_end_def hdr_table_sizes)
  moreover have "ex_end ?ex = hdr_end ?ec" using header_sizes(4)[OF C(10)] by (auto simp: ehdr_extent_def ex_end_def)
  ultimately show ?thesis using x unfolding extent_written_def
    by (intro exI[of _ h']) (simp add: write_extent_def extent_bytes_def ehdr_extent_def)
qed

lemma phdr_written:
  assumes c: "creating st i e eh" and wr: "writable st e eh" and w: "writing st1 i (laid_out e eh X) H b (object_size e) img"
    and len: "length img = unat (ex_start ex)" and phdr: "phdr_extents e = [ex]" "e_nphdr e \<noteq> 0"
  shows "extent_written st1 i (laid_out e eh X) H b (object_size e) img ex"
proof -
  let ?e = "laid_out e eh X" and ?ec = "e_class e" and ?tot = "object_size e"
  note C = creatingD[OF c]
  obtain ph where ph: "e_phdr e = Some ph" "phdrs_fit ?ec (unat (e_nphdr e)) ph" using c phdr(2) by (auto simp: creating_def)
  have fin: "ph_end e = ph_start ?ec + fsize_table ?ec ELF_T_PHDR * unat (e_nphdr e)" using phdr(2) by (simp add: ph_end_def)
  have tot: "ph_end e \<le> ?tot" using area_end_ge[OF C(10)] by linarith
  have sz: "?tot < 2 ^ 63" using writableD(3)[OF wr] by simp
  have small: "ph_start ?ec < 2 ^ 63" "fsize_table ?ec ELF_T_PHDR * unat (e_nphdr e) < 2 ^ 63" using fin tot sz by linarith+
  have e1: "ex_start ex = of_nat (ph_start ?ec)" "ex_size ex = of_nat (fsize_table ?ec ELF_T_PHDR * unat (e_nphdr e))"
    "ex_type ex = ELF_EXTENT_PHDR"
    using phdr by (auto simp: phdr_extents_def)
  have en: "ex_end ex = ph_end e" unfolding ex_end_def e1(1,2) unat_small_nat[OF small(1)] unat_small_nat[OF small(2)] fin ..
  have l: "length img = ph_start (e_class ?e)" using len unfolding e1(1) unat_small_nat[OF small(1)] by simp
  have po: "ehdr_phoff (laid_out_ehdr e eh) = of_nat (ph_start (e_class ?e))"
    using phoff_laid_out[OF C(6) C(10) refl phdr(2)] by simp
  have ph': "e_nphdr ?e \<noteq> 0" "e_phdr ?e = Some ph" "phdrs_fit (e_class ?e) (unat (e_nphdr ?e)) ph" "ph_end ?e \<le> ?tot"
    "phdr_extents ?e = [ex]" "e_ehdr ?e = Some (laid_out_ehdr e eh)" using ph phdr tot by simp_all
  from write_phdr_ok[OF w ph'(6) po ph'(1-3) l ph'(4,5)] obtain h' where x:
    "write_phdr st1 i (b, 0) ex = Some (of_nat (ph_end e), st1\<lparr>heap := h'\<rparr>)"
    "image_at H b ?tot (img @ concat (map (hdr_bytes st1 ?e) (phdrs_fields ph))) h'" by auto
  have "length (concat (map (hdr_bytes st1 ?e) (phdrs_fields ph))) = length (phdrs_fields ph) * FSZ ?ec (Phdr_DEF ?ec)"
    by (rule length_concat_map_const) (use length_fields_bytes[OF phdr_fields_ok(1)[OF ph(2)]] in \<open>simp add: hdr_bytes_def\<close>)
  also have "\<dots> = fsize_table ?ec ELF_T_PHDR * unat (e_nphdr e)"
    unfolding phdr_fields_ok(2)[OF ph(2)] hdr_table_sizes by (simp only: mult.commute)
  finally have "length (img @ concat (map (hdr_bytes st1 ?e) (phdrs_fields ph))) = ph_end e" using l fin by simp
  then show ?thesis using x e1(3) ph(1) en unfolding extent_written_def
    by (intro exI[of _ h']) (simp add: write_extent_def extent_bytes_def)
qed

lemma scn_written:
  assumes c: "creating st i e eh" and wr: "writable st e eh" and X: "sections_placed e (inorder (e_scn e)) X"
    and w: "writing st1 i (laid_out e eh X) (heap st) b (object_size e) img" and b: "heap st b = None"
    and n: "n \<in> set (inorder (e_scn e))" "has_extent (the (X n))"
    and len: "length img = unat (ex_start (scn_extent n (the (X n))))" and bound: "ex_end (scn_extent n (the (X n))) \<le> object_size e"
  shows "extent_written st1 i (laid_out e eh X) (heap st) b (object_size e) img (scn_extent n (the (X n)))"
proof (rule laid_out_scn[OF c wr X n])
  let ?e = "laid_out e eh X" and ?ec = "e_class e" and ?H = "heap st" and ?tot = "object_size e"
  fix s s' assume S: "e_scns e n = Some s" "X n = Some s'" "counts_scns (e_nphdr e) (e_nscn e) X n = Some s'"
    "s_data s' = data_places ?ec (s_data s) 0" "s_data s \<noteq> []" "in_file s'" "shdr_size (s_shdr s') \<noteq> 0"
    "elf_type_valid (libelf_xlate_shtype (shdr_type (s_shdr s')))"
    "libelf_falign (libelf_xlate_shtype (shdr_type (s_shdr s'))) ?ec dvd unat (s_offset s')"
    "\<forall>ld\<in>set (s_data s). data_there ?H ?ec (d_data ld)" "unat (s_size s') = data_end ?ec (s_data s) 0"
  let ?ex = "scn_extent n s'"
  have start: "ex_start ?ex = s_offset s'" by (simp add: scn_extent_def)
  then have l: "length img = unat (s_offset s')" using len S(2) by simp
  have en: "ex_end ?ex = length img + data_end ?ec (s_data s) 0" using l S(11) by (simp add: ex_end_def scn_extent_def)
  have S': "e_scns ?e n = Some s'" "s_data s' = data_places (e_class ?e) (s_data s) 0"
    "libelf_falign (libelf_xlate_shtype (shdr_type (s_shdr s'))) (e_class ?e) dvd length img"
    "\<forall>ld\<in>set (s_data s). data_there ?H (e_class ?e) (d_data ld)" "s_offset s' = of_nat (length img)"
    "length img + data_end (e_class ?e) (s_data s) 0 \<le> ?tot"
    using S(2,3,4,9,10) l bound en by simp_all
  from write_scn_ok[OF w S'(1,2) S(5,6,7,8) S'(3,4) b S'(5,6)] obtain h' where x:
    "write_scn st1 i (b, 0) ?ex = Some (of_nat (length img + data_end ?ec (s_data s) 0), st1\<lparr>heap := h'\<rparr>)"
    "image_at ?H b ?tot (img @ scn_image (fill_bytes st1) (enc_data st1 ?e ?H) ?ec (s_data s') 0) h'"
    "length (img @ scn_image (fill_bytes st1) (enc_data st1 ?e ?H) ?ec (s_data s') 0) = length img + data_end ?ec (s_data s) 0"
    by auto
  have ty: "ex_type ?ex = ELF_EXTENT_SECTION" "ex_desc ?ex = Some n" by (simp_all add: scn_extent_def)
  have "extent_bytes st1 ?e ?H ?ex = scn_image (fill_bytes st1) (enc_data st1 ?e ?H) ?ec (s_data s') 0"
    unfolding extent_bytes_def ty using S(3) by simp
  then show ?thesis using x S(2) en ty unfolding extent_written_def by (intro exI[of _ h']) (simp add: write_extent_def)
qed

lemma shdr_written:
  assumes c: "creating st i e eh" and wr: "writable st e eh" and X: "sections_placed e (inorder (e_scn e)) X"
    and w: "writing st1 i (laid_out e eh X) H b (object_size e) img"
    and len: "length img = unat (ex_start ex)" and shdr: "shdr_extents e = [ex]" "e_nscn e \<noteq> 0"
  shows "extent_written st1 i (laid_out e eh X) H b (object_size e) img ex"
proof -
  let ?e = "laid_out e eh X" and ?ec = "e_class e" and ?tot = "object_size e"
  note C = creatingD[OF c] and D = writableD[OF wr]
  have fin: "?tot = sh_start e + fsize_table ?ec ELF_T_SHDR * unat (e_nscn e)" using shdr(2) by (simp add: object_size_def)
  have "?tot < 2 ^ 63" using D(3) by simp
  then have small: "sh_start e < 2 ^ 63" "fsize_table ?ec ELF_T_SHDR * unat (e_nscn e) < 2 ^ 63" using fin by linarith+
  have e1: "ex_start ex = of_nat (sh_start e)" "ex_size ex = of_nat (fsize_table ?ec ELF_T_SHDR * unat (e_nscn e))"
    "ex_type ex = ELF_EXTENT_SHDR" using shdr by (auto simp: shdr_extents_def)
  have l: "length img = sh_start e" using len unfolding e1(1) unat_small_nat[OF small(1)] .
  have en: "ex_end ex = ?tot" unfolding ex_end_def e1(1,2) unat_small_nat[OF small(1)] unat_small_nat[OF small(2)] fin ..
  have "ehdr_shoff (laid_out_ehdr e eh) = of_nat (sh_start e)"
    using small(1) D(4) fin by (intro shoff_laid_out[OF C(6) shdr(2)]) auto
  then have E: "e_ehdr ?e = Some (laid_out_ehdr e eh)" "ehdr_shoff (laid_out_ehdr e eh) = of_nat (length img)" "e_nscn ?e \<noteq> 0"
    "inorder (e_scn ?e) = [0..<unat (e_nscn ?e)]" "libelf_falign ELF_T_SHDR (e_class ?e) dvd length img"
    "length img + fsize_table (e_class ?e) ELF_T_SHDR * unat (e_nscn ?e) \<le> ?tot" "ex_start ex = of_nat (length img)"
    using l shdr(2) laid_out_inorder[OF c] fin e1(1) align_up_bounds(5) by (simp_all add: sh_start_def)
  have s: "\<forall>n\<in>set (inorder (e_scn ?e)). \<exists>s. e_scns ?e n = Some s \<and> s_ndx s = n \<and> shdr_fits (e_class ?e) (s_shdr s)"
    using laid_out_shdrs[OF c X] by simp
  from write_shdr_ok[OF w E(1-4) s E(5,6) e1(3) E(7)] obtain h' where x:
    "write_shdr st1 i (b, 0) ex = Some (of_nat ?tot, st1\<lparr>heap := h'\<rparr>)"
    "image_at H b ?tot (img @ concat (map (shdr_bytes st1 ?e) (inorder (e_scn e)))) h'" using l fin by auto
  have "length (concat (map (shdr_bytes st1 ?e) (inorder (e_scn e)))) = length (inorder (e_scn e)) * FSZ ?ec (Shdr_DEF ?ec)"
  proof (rule length_concat_map_const)
    fix n assume "n \<in> set (inorder (e_scn e))"
    from laid_out_shdrs[OF c X this] obtain s where "e_scns ?e n = Some s" "shdr_fits ?ec (s_shdr s)" by blast
    then show "length (shdr_bytes st1 ?e n) = FSZ ?ec (Shdr_DEF ?ec)"
      using length_fields_bytes[OF shdr_fields_ok] by (simp add: shdr_bytes_def hdr_bytes_def)
  qed
  also have "\<dots> = fsize_table ?ec ELF_T_SHDR * unat (e_nscn e)"
    unfolding laid_out_inorder[OF c] hdr_table_sizes by (simp add: mult.commute)
  finally have "length (img @ concat (map (shdr_bytes st1 ?e) (inorder (e_scn e)))) = ?tot" using l fin by simp
  then show ?thesis using x e1(3) en unfolding extent_written_def
    by (intro exI[of _ h']) (simp add: write_extent_def extent_bytes_def)
qed

lemma laid_out_writes:
  assumes c: "creating st i e eh" and wr: "writable st e eh" and X: "sections_placed e (inorder (e_scn e)) X"
    and ch: "chained 0 (object_extents e X) (object_size e)" and b: "heap st b = None" and ex: "ex \<in> set (object_extents e X)"
  shows "writes_extent st2 i (laid_out e eh X) (heap st) b (object_size e) ex"
  unfolding writes_extent_def
proof (intro allI impI)
  let ?e = "laid_out e eh X" and ?H = "heap st" and ?tot = "object_size e"
  fix h img assume w: "writing (st2\<lparr>heap := h\<rparr>) i ?e ?H b ?tot img" and len: "length img = unat (ex_start ex)"
  have bound: "ex_end ex \<le> ?tot" using chained_le[OF ch] ex by blast
  have eq: "extent_bytes (st2\<lparr>heap := h\<rparr>) ?e ?H ex = extent_bytes st2 ?e ?H ex"
    by (cases "ex_type ex") (simp_all add: extent_bytes_def shdr_bytes_def[abs_def])
  consider (ehdr) "ex = ehdr_extent (e_class e)" | (phdr) "phdr_extents e = [ex]" "e_nphdr e \<noteq> 0"
    | (scn) n where "n \<in> set (inorder (e_scn e))" "has_extent (the (X n))" "ex = scn_extent n (the (X n))"
    | (shdr) "shdr_extents e = [ex]" "e_nscn e \<noteq> 0"
    using ex by (auto simp: object_extents_def phdr_extents_def shdr_extents_def scn_extents_def split: if_splits)
  then have "extent_written (st2\<lparr>heap := h\<rparr>) i ?e ?H b ?tot img ex"
  proof cases
    case ehdr
    then have "img = []" using len by (simp add: ehdr_extent_def)
    then show ?thesis using ehdr_written[OF c] w ehdr by simp
  next
    case phdr
    then show ?thesis by (rule phdr_written[OF c wr w len])
  next
    case scn
    then show ?thesis using scn_written[OF c wr X w b scn(1,2)] len bound by simp
  next
    case shdr
    then show ?thesis by (rule shdr_written[OF c wr X w len])
  qed
  then show "\<exists>h'. write_extent (st2\<lparr>heap := h\<rparr>) i (b, 0) ex = Some (of_nat (ex_end ex), st2\<lparr>heap := h'\<rparr>)
      \<and> image_at ?H b ?tot (img @ extent_bytes st2 ?e ?H ex) h' \<and> length (img @ extent_bytes st2 ?e ?H ex) = ex_end ex"
    unfolding extent_written_def eq by simp
qed

section \<open>The file\<close>

text \<open>The system calls succeed for the bytes \<open>bs\<close>.\<close>

definition os_accepts :: "os_out \<Rightarrow> Elf \<Rightarrow> bytes \<Rightarrow> bool" where
  "os_accepts os e bs \<longleftrightarrow>
     (e_flags e AND LIBELF_F_SPECIAL_FILE \<noteq> 0 \<or> os_ftruncate os (e_fd e) = None \<and> os_lseek os (e_fd e) = None)
     \<and> os_write os (e_fd e) bs = Inr (length bs)"

text \<open>The descriptor after the object was written.\<close>

definition written_elf :: "Elf \<Rightarrow> Elf" where
  "written_elf e = e\<lparr>e_flags := e_flags e AND NOT ELF_F_DIRTY, e_scn := RB_NULL, e_scns := Map.empty, e_ehdr := None, e_phdr := None\<rparr>"

lemma c_free_heap: "\<exists>h. c_free st p = st\<lparr>heap := h\<rparr>"
  by (auto simp: c_free_def split: option.split intro: exI[of _ "heap st"])

lemma put_elf_heap: "put_elf i e (st\<lparr>heap := h\<rparr>) = (put_elf i e st)\<lparr>heap := h\<rparr>"
  by (simp add: put_elf_def)

lemma reset_descriptor_ok:
  assumes "get_elf st i = Some e" "scn_inv e" "raw_plain e"
  shows "\<exists>h. reset_descriptor st i = Some (put_elf i (written_elf e) (st\<lparr>heap := h\<rparr>))"
proof -
  let ?e1 = "e\<lparr>e_flags := e_flags e AND NOT ELF_F_DIRTY\<rparr>"
  have "get_elf (put_elf i ?e1 st) i = Some ?e1" "scn_inv ?e1" "raw_plain ?e1" "e_scn ?e1 = e_scn e"
    using assms(2,3) by (simp_all add: scn_inv_def raw_plain_def)
  from release_scns_ok[OF this(1-3)] this(4) obtain h where
    "release_scns (put_elf i ?e1 st) i (RB_MIN (e_scn e))
      = Some (put_elf i (?e1\<lparr>e_scn := RB_NULL, e_scns := Map.empty\<rparr>) ((put_elf i ?e1 st)\<lparr>heap := h\<rparr>))" by auto
  then show ?thesis using assms(1)
    by (intro exI[of _ h]) (simp add: reset_descriptor_def written_elf_def put_elf_heap[symmetric])
qed

lemma write_file_ok:
  assumes e: "get_elf st i = Some e" "scn_inv e" "raw_plain e" "e_cmd e = ELF_C_WRITE" "e_rawfile e = None"
      "e_flags e AND LIBELF_F_RAWFILE_MMAP = 0"
    and img: "heap st b = Some bs" "unat sz = length bs"
  shows "\<exists>rc out st' e'. write_file os st i (b, 0) sz = Some (rc, out, st')
    \<and> (\<exists>h er. st' = put_elf i e' (st\<lparr>heap := h, libelf_error := er\<rparr>))
    \<and> (if os_accepts os e bs then rc = sz \<and> out = Some bs \<and> e' = written_elf e
       else rc = - 1 \<and> (out = None \<or> out = Some bs) \<and> e' = e)"
proof -
  have rd: "mem_read (heap st) (b, 0) (unat sz) = Some bs" using img by (simp add: mem_read_def slice_at_def)
  have self: "put_elf i e st = st" by (rule put_elf_self[OF e(1)])
  have error: "\<exists>h er. c_free (set_error c os' st) p = put_elf i e (st\<lparr>heap := h, libelf_error := er\<rparr>)" for c os' p
  proof -
    obtain h where "c_free (set_error c os' st) p = (set_error c os' st)\<lparr>heap := h\<rparr>" using c_free_heap by blast
    also have "\<dots> = put_elf i e (st\<lparr>heap := h, libelf_error := libelf_error (set_error c os' st)\<rparr>)"
      using self by (cases st) (simp add: set_error_def put_elf_def)
    finally show ?thesis by blast
  qed
  show ?thesis
  proof (cases "e_flags e AND LIBELF_F_SPECIAL_FILE \<noteq> 0 \<or> os_ftruncate os (e_fd e) = None \<and> os_lseek os (e_fd e) = None")
    case False
    then obtain er where d: "drop_contents os st i = Some (False, set_error ELF_E_IO er st)"
      using e(1) by (cases "os_ftruncate os (e_fd e)"; cases "os_lseek os (e_fd e)") (auto simp: drop_contents_def)
    have "write_file os st i (b, 0) sz = Some (- 1, None, c_free (set_error ELF_E_IO er st) (Some (b, 0)))"
      using d by (simp add: write_file_def)
    moreover have "\<not> os_accepts os e bs" using False by (auto simp: os_accepts_def)
    ultimately show ?thesis using error by auto
  next
    case True
    then have d: "drop_contents os st i = Some (True, st)"
      using e(1,6) by (auto simp: drop_contents_def split: option.splits)
    consider (err) er where "os_write os (e_fd e) bs = Inl er" | (short) k where "os_write os (e_fd e) bs = Inr k" "k \<noteq> unat sz"
      | (ok) "os_write os (e_fd e) bs = Inr (unat sz)" by (cases "os_write os (e_fd e) bs") auto
    then show ?thesis
    proof cases
      case (err er)
      have "write_file os st i (b, 0) sz = Some (- 1, Some bs, c_free (set_error ELF_E_IO er st) (Some (b, 0)))"
        using d e(1) rd err by (simp add: write_file_def)
      moreover have "\<not> os_accepts os e bs" using err by (auto simp: os_accepts_def)
      ultimately show ?thesis using error by auto
    next
      case short
      have "write_file os st i (b, 0) sz = Some (- 1, Some bs, c_free (set_error ELF_E_IO (os_errno os) st) (Some (b, 0)))"
        using d e(1) rd short by (simp add: write_file_def)
      moreover have "\<not> os_accepts os e bs" using short img(2) by (auto simp: os_accepts_def)
      ultimately show ?thesis using error by auto
    next
      case ok
      obtain h where h: "reset_descriptor st i = Some (put_elf i (written_elf e) (st\<lparr>heap := h\<rparr>))"
        using reset_descriptor_ok[OF e(1-3)] by blast
      have "write_file os st i (b, 0) sz = Some (sz, Some bs, c_free (put_elf i (written_elf e) (st\<lparr>heap := h\<rparr>)) (Some (b, 0)))"
        using d e(1,4,5) rd ok h by (simp add: write_file_def new_contents_def)
      moreover have "\<exists>h' er. c_free (put_elf i (written_elf e) (st\<lparr>heap := h\<rparr>)) (Some (b, 0))
          = put_elf i (written_elf e) (st\<lparr>heap := h', libelf_error := er\<rparr>)"
        by (intro exI[of _ "h(b := None)"] exI[of _ "libelf_error st"]) (cases st; simp add: c_free_def put_elf_def)
      moreover have "os_accepts os e bs" using True ok img(2) by (auto simp: os_accepts_def)
      ultimately show ?thesis by auto
    qed
  qed
qed

section \<open>Writing the object\<close>

text \<open>The bytes of the object; only the byte order of the host and the fill character of the state matter.\<close>

definition object_image :: "libelf_state \<Rightarrow> Elf \<Rightarrow> ehdr \<Rightarrow> (nat \<Rightarrow> Elf_Scn option) \<Rightarrow> bytes" where
  "object_image st e eh X = extents_image st (laid_out e eh X) (heap st) (object_extents e X) 0"

lemma extents_image_cong:
  assumes "libelf_byteorder st' = libelf_byteorder st" "libelf_fillchar st' = libelf_fillchar st"
  shows "extents_image st' e H exs pos = extents_image st e H exs pos"
proof -
  have ho: "host_order st' = host_order st" using assms(1) by (simp add: host_order_def)
  have h: "hdr_bytes st' e = hdr_bytes st e" unfolding hdr_bytes_def[abs_def] assms(1) ho ..
  have s: "shdr_bytes st' e = shdr_bytes st e" unfolding shdr_bytes_def[abs_def] h ..
  have d: "enc_data st' e H = enc_data st e H" unfolding enc_data_def[abs_def] assms(1) ho ..
  have f: "fill_bytes st' = fill_bytes st" unfolding fill_bytes_def[abs_def] assms(2) ..
  have "extent_bytes st' e H ex = extent_bytes st e H ex" for ex unfolding extent_bytes_def h s d f ..
  then show ?thesis unfolding f[symmetric] by (induction exs arbitrary: pos) (simp_all add: f)
qed

lemma sections_placed_raw:
  assumes X: "sections_placed e (inorder (e_scn e)) X" and e: "scn_inv e" "raw_plain e"
  shows "raw_plain (laid_out e eh X)"
proof -
  have dom: "set (inorder (e_scn e)) = dom (e_scns e)" using e(1) by (simp add: scn_inv_def rb_keys_def)
  have r: "s_rawdata (counts_scn a b s) = s_rawdata s" for a b s by (simp add: counts_scn_def)
  have l: "s_rawdata s' = s_rawdata s" if "scn_laid_out ec s s'" for ec s s'
    using that by (auto simp: scn_laid_out_def split: if_splits elim!: placed_scn_layout)
  have x: "\<forall>d\<in>set (s_rawdata s). d_flags d AND LIBELF_F_DATA_MALLOCED = 0" if "X n = Some s" for n s
  proof (cases "e_scns e n")
    case None
    then show ?thesis using spec[OF X[unfolded sections_placed_def dom], of n] that by (simp add: domIff)
  next
    case (Some s0)
    then have "scn_laid_out (e_class e) s0 s" using spec[OF X[unfolded sections_placed_def dom], of n] that by (simp add: domIff)
    then show ?thesis using l e(2) Some by (auto simp: raw_plain_def)
  qed
  then show ?thesis unfolding raw_plain_def by (auto simp: counts_scns_def r split: if_splits)
qed

lemma os_accepts_laid_out: "os_accepts os (laid_out e eh X) bs = os_accepts os e bs"
proof -
  have "(e_flags e OR ELF_F_DIRTY) AND LIBELF_F_SPECIAL_FILE = e_flags e AND LIBELF_F_SPECIAL_FILE"
    by (simp add: bit.conj_disj_distrib2)
  then show ?thesis by (simp add: os_accepts_def laid_out_def)
qed

text \<open>\<open>_libelf_write_elf\<close> after the layout.\<close>

lemma write_elf_ok:
  assumes c: "creating st i e eh" and wr: "writable st e eh" and X: "sections_placed e (inorder (e_scn e)) X"
    and ch: "chained 0 (object_extents e X) (object_size e)" and q: "quiet (put_elf i (laid_out e eh X) st) st1"
  shows "\<exists>rc out st' e'. write_elf os st1 i (of_nat (object_size e)) (object_extents e X) = Some (rc, out, st')
    \<and> get_elf st' i = Some e' \<and> (\<forall>j. j \<noteq> i \<longrightarrow> get_elf st' j = get_elf st j)
    \<and> length (object_image st e eh X) = object_size e
    \<and> (rc = - 1 \<and> out = None \<and> \<not> never_fails st
      \<or> (if os_accepts os e (object_image st e eh X)
         then rc = of_nat (object_size e) \<and> out = Some (object_image st e eh X) \<and> e' = written_elf (laid_out e eh X)
         else rc = - 1 \<and> (out = None \<or> out = Some (object_image st e eh X)) \<and> e' = laid_out e eh X))"
proof -
  let ?e = "laid_out e eh X" and ?tot = "object_size e" and ?H = "heap st" and ?b = "next_buf st1"
  note C = creatingD[OF c] and D = writableD[OF wr] and Q = quiet_fields[OF q]
  have g1: "get_elf st1 i = Some ?e" using Q(1)[of i] by simp
  have others: "\<forall>j. j \<noteq> i \<longrightarrow> get_elf st1 j = get_elf st j" using Q(1) by simp
  have fresh: "?H ?b = None" "?H (Suc ?b) = None" using D(1) Q(3) by (simp_all add: heap_fresh_def)
  have ut: "unat (of_nat ?tot :: u64) = ?tot" by (rule unat_small_nat) (use D(3) in simp)
  have inv: "scn_inv ?e" by (rule counts_scns_inv[OF sections_placed_inv[OF C(4) X, of "e\<lparr>e_scns := X\<rparr>"]]) simp_all
  have raw: "raw_plain ?e" by (rule sections_placed_raw[OF X C(4) D(8)])
  have fl: "e_flags ?e AND LIBELF_F_RAWFILE_MMAP = 0" using D(7) by (simp add: laid_out_def bit.conj_disj_distrib2)
  define stA where "stA = snd (c_alloc st1)"
  have qA: "quiet (put_elf i ?e st) stA" using q by (simp add: stA_def)
  note QA = quiet_fields[OF qA]
  let ?h2 = "?H(?b \<mapsto> replicate ?tot 0)"
  define st2 where "st2 = stA\<lparr>next_buf := Suc ?b\<rparr>"
  have m: "c_malloc st1 ?tot = (if fst (c_alloc st1) then (Some (?b, 0), st2\<lparr>heap := ?h2\<rparr>) else (None, stA))"
    using QA(2,3) Q(3) by (simp add: c_malloc_def stA_def st2_def case_prod_unfold Let_def put_elf_def)
  have g2: "get_elf (st2\<lparr>heap := h\<rparr>) j = get_elf (put_elf i ?e st) j" for h j
    using QA(1)[of j] by (simp add: st2_def get_elf_def)
  have img0: "image_at ?H ?b ?tot [] ?h2"
    unfolding image_at_def by (rule exI[of _ "replicate ?tot 0"]) simp
  have w: "writing (st2\<lparr>heap := ?h2\<rparr>) i ?e ?H ?b ?tot []"
    using g2[of ?h2 i] img0 fresh(2) D(3,6) C(2) by (simp add: writing_def lib_layout_def app_layout_def laid_out_def st2_def bit.conj_disj_distrib2)
  have "\<forall>ex\<in>set (object_extents e X). writes_extent st2 i ?e ?H ?b ?tot ex"
    using laid_out_writes[OF c wr X ch fresh(1)] by blast
  from write_extents_ok[OF ch le_refl this w] obtain h' where x:
    "write_extents (st2\<lparr>heap := ?h2\<rparr>) i (?b, 0) (object_extents e X) 0 = Some (Some (of_nat ?tot), st2\<lparr>heap := h'\<rparr>)"
    "image_at ?H ?b ?tot (extents_image st2 ?e ?H (object_extents e X) 0) h'"
    "length (extents_image st2 ?e ?H (object_extents e X) 0) = ?tot" by auto
  have im: "extents_image st2 ?e ?H (object_extents e X) 0 = object_image st e eh X"
    unfolding object_image_def by (rule extents_image_cong) (use QA(5,7) in \<open>simp_all add: st2_def put_elf_def\<close>)
  note x = x[unfolded im]
  have len: "length (object_image st e eh X) = ?tot" by (rule x(3))
  have hb: "heap (st2\<lparr>heap := h'\<rparr>) ?b = Some (object_image st e eh X)"
    using image_end[of ?H ?b "object_image st e eh X" h'] x(2) len by simp
  have fd: "0 \<le> e_fd ?e" "e_kind ?e = ELF_K_ELF" "e_cmd ?e = ELF_C_WRITE" "e_rawfile ?e = None" using D(2) C(3,7,13) by simp_all
  show ?thesis
  proof (cases "fst (c_alloc st1)")
    case False
    have "write_elf os st1 i (of_nat ?tot) (object_extents e X) = Some (- 1, None, set_error ELF_E_RESOURCE ENOMEM stA)"
      using g1 fd m False ut by (simp add: write_elf_def)
    moreover have "\<not> never_fails st" using never_fails_alloc[of st1] False quiet_never_fails[OF q] by auto
    moreover have "get_elf (set_error ELF_E_RESOURCE ENOMEM stA) j = get_elf (put_elf i ?e st) j" for j
      using QA(1)[of j] by (simp add: get_elf_def)
    ultimately show ?thesis using len by auto
  next
    case True
    have "write_elf os st1 i (of_nat ?tot) (object_extents e X) = write_file os (st2\<lparr>heap := h'\<rparr>) i (?b, 0) (of_nat ?tot)"
      using g1 fd m True ut x(1) by (simp add: write_elf_def)
    moreover have gi: "get_elf (st2\<lparr>heap := h'\<rparr>) i = Some ?e" using g2[of h' i] by simp
    have uu: "unat (of_nat ?tot :: u64) = length (object_image st e eh X)" using ut len by simp
    from write_file_ok[OF gi inv raw fd(3,4) fl hb uu, of os] obtain rc out st' e' h er where
      f: "write_file os (st2\<lparr>heap := h'\<rparr>) i (?b, 0) (of_nat ?tot) = Some (rc, out, st')"
      and st': "st' = put_elf i e' (st2\<lparr>heap := h'\<rparr>\<lparr>heap := h, libelf_error := er\<rparr>)"
      and r: "if os_accepts os ?e (object_image st e eh X) then rc = of_nat ?tot \<and> out = Some (object_image st e eh X) \<and> e' = written_elf ?e
       else rc = - 1 \<and> (out = None \<or> out = Some (object_image st e eh X)) \<and> e' = ?e" by (elim exE conjE) (rule that)
    note f
    moreover have "get_elf st' i = Some e'" unfolding st' by simp
    moreover have "\<forall>j. j \<noteq> i \<longrightarrow> get_elf st' j = get_elf st j"
      unfolding st' using g2[of h] by (auto simp: put_elf_def get_elf_def)
    ultimately show ?thesis using len r unfolding os_accepts_laid_out by (metis (no_types, lifting))
  qed
qed

text \<open>What \<open>elf_update\<close> hands to \<open>write\<close>.\<close>

lemma elf_update_image:
  assumes c: "creating st i e eh" and wr: "writable st e eh"
  shows "\<exists>rc out st' e'. elf_update os st (Some i) ELF_C_WRITE = Some (rc, out, st') \<and> get_elf st' i = Some e'
    \<and> (\<forall>j. j \<noteq> i \<longrightarrow> get_elf st' j = get_elf st j)
    \<and> (rc = - 1 \<and> out = None \<and> \<not> can_lay_out st e eh
      \<or> sections_placed e (inorder (e_scn e)) (laid_scns e) \<and> chained 0 (object_extents e (laid_scns e)) (object_size e)
        \<and> length (object_image st e eh (laid_scns e)) = object_size e
        \<and> (if os_accepts os e (object_image st e eh (laid_scns e))
           then rc = of_nat (object_size e) \<and> out = Some (object_image st e eh (laid_scns e))
             \<and> e_scn e' = RB_NULL \<and> e_ehdr e' = None \<and> e_phdr e' = None
           else rc = - 1 \<and> (out = None \<or> out = Some (object_image st e eh (laid_scns e)))))"
proof -
  note C = creatingD[OF c] and D = writableD[OF wr]
  have sz: "object_size e < 2 ^ 63" using D(3) by simp
  from resync_elf_ok[OF c sz, unfolded lays_out_def] obtain rc exs st1 e1 where r:
    "resync_elf st i = Some (rc, exs, st1)" "quiet (put_elf i e1 st) st1"
    "rc = - 1 \<and> \<not> can_lay_out st e eh \<or> rc = of_nat (object_size e) \<and> ehdr_update_error e eh = None \<and> chained 0 exs (object_size e)
      \<and> (\<exists>X. X = laid_scns e \<and> sections_placed e (inorder (e_scn e)) X \<and> exs = object_extents e X \<and> e1 = laid_out e eh X)"
    by (elim exE conjE) (rule that)
  let ?f = "\<lambda>e. e\<lparr>e_flags := e_flags e AND NOT LIBELF_F_SHDRS_LOADED\<rparr>"
  show ?thesis
  proof (cases "rc = - 1 \<and> \<not> can_lay_out st e eh")
    case True
    note Q = quiet_fields[OF r(2)]
    have "elf_update os st (Some i) ELF_C_WRITE = Some (- 1, None, put_elf i (?f e1) st1)"
      using C(1,3,7,8,10) r(1) Q(1)[of i] True by (auto simp: elf_update_def)
    moreover have "\<forall>j. j \<noteq> i \<longrightarrow> get_elf (put_elf i (?f e1) st1) j = get_elf st j" using Q(1) by simp
    ultimately show ?thesis using True by (metis (no_types, lifting) elf_store_simps(1))
  next
    case False
    define X where "X = laid_scns e"
    have X: "rc = of_nat (object_size e)" "chained 0 exs (object_size e)" "sections_placed e (inorder (e_scn e)) X"
      "exs = object_extents e X" "e1 = laid_out e eh X" using r(3) False unfolding X_def by blast+
    from write_elf_ok[OF c wr X(3) X(2)[unfolded X(4)] r(2)[unfolded X(5)], of os] obtain rc2 out st2 e2 where w:
      "write_elf os st1 i (of_nat (object_size e)) (object_extents e X) = Some (rc2, out, st2)" "get_elf st2 i = Some e2"
      "\<forall>j. j \<noteq> i \<longrightarrow> get_elf st2 j = get_elf st j" "length (object_image st e eh X) = object_size e"
      "rc2 = - 1 \<and> out = None \<and> \<not> never_fails st
        \<or> (if os_accepts os e (object_image st e eh X)
           then rc2 = of_nat (object_size e) \<and> out = Some (object_image st e eh X) \<and> e2 = written_elf (laid_out e eh X)
           else rc2 = - 1 \<and> (out = None \<or> out = Some (object_image st e eh X)) \<and> e2 = laid_out e eh X)"
      by (elim exE conjE) (rule that)
    have pos: "\<not> sint rc < 0" unfolding X(1) sint_of_small[OF sz] by simp
    have fd: "\<not> e_fd e < 0" using D(2) by simp
    have "elf_update os st (Some i) ELF_C_WRITE = Some (rc2, out, put_elf i (?f e2) st2)"
      using C(1,3,7,8,10) r(1) pos fd w(1,2) X(1,4) by (auto simp: elf_update_def)
    moreover have "\<forall>j. j \<noteq> i \<longrightarrow> get_elf (put_elf i (?f e2) st2) j = get_elf st j" using w(3) by simp
    moreover have "rc2 = - 1 \<and> out = None \<and> \<not> can_lay_out st e eh
      \<or> (if os_accepts os e (object_image st e eh X)
             then rc2 = of_nat (object_size e) \<and> out = Some (object_image st e eh X)
               \<and> e_scn (?f e2) = RB_NULL \<and> e_ehdr (?f e2) = None \<and> e_phdr (?f e2) = None
             else rc2 = - 1 \<and> (out = None \<or> out = Some (object_image st e eh X)))"
      using w(5) by (auto simp: can_lay_out_def written_elf_def split: if_splits)
    ultimately show ?thesis using X(2-4) w(4) unfolding X_def using elf_store_simps(1)[of i "?f e2" st2] by blast
  qed
qed


lemma new_object_writable: "writable (put_elf 0 new_object (sample_state [1, 2, 3, 4, 5])) new_object new_object_ehdr"
proof -
  have "msize_table ELFCLASS64 ELF_T_BYTE = 1" "libelf_malign ELF_T_BYTE ELFCLASS64 = 1"
    "scn_falign ELFCLASS64 (sample_scn 1 SHT_PROGBITS [\<lparr>d_data = (sample_data ELF_T_BYTE 0 5)\<lparr>d_align := 8\<rparr>, d_flags = 0\<rparr>]) = 1"
    "object_size new_object = 200" "(ucast (ehdr_ident new_object_ehdr ! EI_DATA) :: u32) = ELFDATA2LSB"
    by code_simp+
  then show ?thesis
    by (auto simp: writable_def heap_fresh_def new_object_def initial_elf_def sample_state_def put_elf_def raw_plain_def
        sample_scn_def in_file_def keeps_size_def data_there_def data_valid_def sample_data_def fixed_type_def window_def
        mem_read_def slice_at_def split: if_splits)
qed


end
