(* ===== verification/Update_Read.thy ===== *)
theory Update_Read
  imports Update_Image
begin

text \<open>
  Reading an object back that \<open>elf_update\<close> has written: the image is opened (\<open>elf_begin.c\<close>, \<open>libelf_memory.c\<close>), its header and
  section table are loaded (\<open>libelf_ehdr.c\<close>, \<open>elf_scn.c\<close>) by a library on a host of any byte order.
\<close>

section \<open>The places in the image\<close>

lemma slice_at_shift: "slice_at (xs @ ys) (length xs + off) n = slice_at ys off n"
  by (simp add: slice_at_def)

lemma slice_at_prefix: "length xs = n \<Longrightarrow> slice_at (xs @ ys) 0 n = Some xs"
  by (simp add: slice_at_def)

lemma extents_slice:
  assumes "chained pos exs fin" "\<forall>ex\<in>set exs. length (extent_bytes st e H ex) = unat (ex_size ex)" "ex \<in> set exs"
  shows "pos \<le> unat (ex_start ex)
    \<and> slice_at (extents_image st e H exs pos) (unat (ex_start ex) - pos) (unat (ex_size ex)) = Some (extent_bytes st e H ex)"
  using assms
proof (induction exs arbitrary: pos)
  case Nil
  then show ?case by simp
next
  case (Cons t ts)
  let ?f = "fill_bytes st (unat (ex_start t) - pos)" and ?t = "extent_bytes st e H t" and ?r = "extents_image st e H ts (ex_end t)"
  have t: "pos \<le> unat (ex_start t)" "chained (ex_end t) ts fin" "length ?t = unat (ex_size t)" using Cons.prems by auto
  show ?case
  proof (cases "ex \<in> set ts")
    case True
    then have ih: "ex_end t \<le> unat (ex_start ex)"
      "slice_at ?r (unat (ex_start ex) - ex_end t) (unat (ex_size ex)) = Some (extent_bytes st e H ex)"
      using Cons.IH[OF t(2)] Cons.prems(2) by auto
    have "unat (ex_start ex) - pos = length (?f @ ?t) + (unat (ex_start ex) - ex_end t)"
      using ih(1) t(1,3) by (simp add: ex_end_def)
    then have "slice_at ((?f @ ?t) @ ?r) (unat (ex_start ex) - pos) (unat (ex_size ex)) = Some (extent_bytes st e H ex)"
      unfolding slice_at_shift using ih(2) by (simp only: slice_at_shift)
    moreover have "pos \<le> unat (ex_start ex)" using ih(1) t(1) by (simp add: ex_end_def)
    ultimately show ?thesis by simp
  next
    case False
    then have "ex = t" using Cons.prems(3) by simp
    moreover have "slice_at (?f @ ?t @ ?r) (length ?f + 0) (unat (ex_size t)) = Some ?t"
      unfolding slice_at_shift by (rule slice_at_prefix[OF t(3)])
    ultimately show ?thesis using t(1) by simp
  qed
qed

lemma extents_length:
  "chained pos exs fin \<Longrightarrow> \<forall>ex\<in>set exs. length (extent_bytes st e H ex) = unat (ex_size ex) \<Longrightarrow>
   length (extents_image st e H exs pos) = fin - pos \<and> pos \<le> fin"
proof (induction exs arbitrary: pos)
  case (Cons t ts)
  then have "length (extents_image st e H ts (ex_end t)) = fin - ex_end t" "ex_end t \<le> fin" "pos \<le> unat (ex_start t)" by auto
  then show ?case using Cons.prems(2) by (auto simp: ex_end_def)
qed simp

text \<open>Every extent of the object has as many bytes as its range, whatever buffer is written to.\<close>

lemma extent_length:
  assumes c: "creating st i e eh" and wr: "writable st e eh" and X: "sections_placed e (inorder (e_scn e)) X"
    and ch: "chained 0 (object_extents e X) (object_size e)" and ex: "ex \<in> set (object_extents e X)"
  shows "length (extent_bytes st (laid_out e eh X) (heap st) ex) = unat (ex_size ex)"
proof -
  let ?e = "laid_out e eh X" and ?b = "Suc (next_buf st)" and ?tot = "object_size e"
  note C = creatingD[OF c] and D = writableD[OF wr]
  have free: "heap st ?b = None" "heap st (next_buf st) = None" using D(1) by (simp_all add: heap_fresh_def)
  have le: "ex_end ex \<le> ?tot" using chained_le[OF ch] ex by blast
  let ?img = "replicate (unat (ex_start ex)) (0 :: u8)"
  let ?h = "(heap st)(?b \<mapsto> ?img @ replicate (?tot - unat (ex_start ex)) 0)"
  let ?st = "put_elf i ?e st"
  have img: "image_at (heap st) ?b ?tot ?img ?h" using le by (auto simp: image_at_def ex_end_def)
  have "lib_layout ?e" using C(2) by (simp add: lib_layout_def app_layout_def laid_out_def bit.conj_disj_distrib2)
  then have "writing (?st\<lparr>heap := ?h\<rparr>) i ?e (heap st) ?b ?tot ?img"
    using img free D(3,6) by (simp add: writing_def get_elf_def put_elf_def)
  then have "length (?img @ extent_bytes ?st ?e (heap st) ex) = ex_end ex"
    using laid_out_writes[OF c wr X ch free(1) ex, of ?st] unfolding writes_extent_def by fastforce
  moreover have "extent_bytes ?st ?e (heap st) ex = extent_bytes st ?e (heap st) ex"
    by (cases "ex_type ex") (simp_all add: extent_bytes_def shdr_bytes_def[abs_def] hdr_bytes_def[abs_def] enc_data_def[abs_def]
        fill_bytes_def[abs_def] put_elf_def host_order_def)
  ultimately show ?thesis by (simp add: ex_end_def)
qed

lemma object_slice:
  assumes "creating st i e eh" "writable st e eh" "sections_placed e (inorder (e_scn e)) X"
    "chained 0 (object_extents e X) (object_size e)" "ex \<in> set (object_extents e X)"
  shows "slice_at (object_image st e eh X) (unat (ex_start ex)) (unat (ex_size ex)) = Some (extent_bytes st (laid_out e eh X) (heap st) ex)"
    "length (object_image st e eh X) = object_size e"
proof -
  have l: "\<forall>ex\<in>set (object_extents e X). length (extent_bytes st (laid_out e eh X) (heap st) ex) = unat (ex_size ex)"
    using extent_length[OF assms(1-4)] by blast
  show "slice_at (object_image st e eh X) (unat (ex_start ex)) (unat (ex_size ex)) = Some (extent_bytes st (laid_out e eh X) (heap st) ex)"
    using extents_slice[OF assms(4) l assms(5)] by (simp add: object_image_def)
  show "length (object_image st e eh X) = object_size e" using extents_length[OF assms(4) l] by (simp add: object_image_def)
qed

section \<open>Structures\<close>

text \<open>The byte order of the host is one that the library knows.\<close>

definition host_known :: "libelf_state \<Rightarrow> bool" where
  "host_known st \<longleftrightarrow> libelf_byteorder st = ELFDATA2LSB \<or> libelf_byteorder st = ELFDATA2MSB"

definition order_of :: "u32 \<Rightarrow> endian" where
  "order_of bo = (if bo = ELFDATA2LSB then LSB else MSB)"

lemma order_swapped:
  "host_known st \<Longrightarrow> bo = ELFDATA2LSB \<or> bo = ELFDATA2MSB \<Longrightarrow> (order_of bo \<noteq> host_order st) = (bo \<noteq> libelf_byteorder st)"
  by (auto simp: host_known_def order_of_def host_order_def)

text \<open>What one host writes, another reads.\<close>

lemma fields_read_back:
  assumes host: "host_known st" "host_known st2" and bo: "bo = ELFDATA2LSB \<or> bo = ELFDATA2MSB" and ok: "members_ok ec ms vs"
  shows "SWAP_MEMBERS (bo \<noteq> libelf_byteorder st2) (READ_MEMBERS (host_order st2) ec ms
    (fields_bytes (host_order st) (bo \<noteq> libelf_byteorder st) vs)) = vs"
proof -
  let ?bs = "fields_bytes (host_order st) (bo \<noteq> libelf_byteorder st) vs"
  note l = length_fields_bytes[OF ok, of "host_order st" "bo \<noteq> libelf_byteorder st"]
  have "SWAP_MEMBERS (bo \<noteq> libelf_byteorder st2) (READ_MEMBERS (host_order st2) ec ms ?bs) = READ_MEMBERS (order_of bo) ec ms ?bs"
    using read_members_swapped[OF l, of "order_of bo" "host_order st2"] order_swapped[OF host(2) bo] by simp
  also have "\<dots> = SWAP_MEMBERS (bo \<noteq> libelf_byteorder st) (READ_MEMBERS (host_order st) ec ms ?bs)"
    using read_members_swapped[OF l, of "order_of bo" "host_order st"] order_swapped[OF host(1) bo] by simp
  also have "\<dots> = vs" using ok
    by (simp add: fields_bytes_def SWAP_MEMBERS_ok READ_WRITE_MEMBERS SWAP_MEMBERS_involutive)
  finally show ?thesis .
qed
text \<open>A descriptor that reads an image, and a structure at a place of the image.\<close>

definition reads_image :: "libelf_state \<Rightarrow> Elf \<Rightarrow> nat \<Rightarrow> bytes \<Rightarrow> bool" where
  "reads_image st e b img \<longleftrightarrow> e_rawfile e = Some (b, 0) \<and> heap st b = Some img"

lemma file_struct_image:
  assumes r: "reads_image st2 e2 b img" and host: "host_known st" "host_known st2"
    and bo: "e_byteorder e2 = e_byteorder e" "e_byteorder e = ELFDATA2LSB \<or> e_byteorder e = ELFDATA2MSB"
    and ok: "members_ok ec ms vs" and s: "slice_at img off (FSZ ec ms) = Some (hdr_bytes st e vs)"
  shows "file_struct st2 e2 ec ms off = Some vs"
  using r s fields_read_back[OF host bo(2) ok]
  by (simp add: file_struct_def reads_image_def mem_read_def ptr_add_def hdr_bytes_def bo(1))

lemma slice_at_sub:
  assumes "slice_at xs off n = Some ys" "slice_at ys k m = Some zs"
  shows "slice_at xs (off + k) m = Some zs"
proof -
  have a: "off + n \<le> length xs" "ys = take n (drop off xs)" using assms(1) by (auto simp: slice_at_def split: if_splits)
  have b: "k + m \<le> n" "zs = take m (drop k ys)" using assms(2) a by (auto simp: slice_at_def split: if_splits)
  have "zs = take (min m (n - k)) (drop (k + off) xs)" unfolding b(2) a(2) by (simp add: drop_take)
  moreover have "min m (n - k) = m" using b(1) by simp
  ultimately show ?thesis using a(1) b(1) by (simp add: slice_at_def add.commute)
qed

lemma slice_at_concat:
  assumes "\<And>x. x \<in> set xs \<Longrightarrow> length x = n" "k < length xs"
  shows "slice_at (concat xs) (k * n) n = Some (xs ! k)"
  using assms
proof (induction xs arbitrary: k)
  case Nil
  then show ?case by simp
next
  case (Cons x xs)
  have l: "length x = n" using Cons.prems(1) by simp
  show ?case
  proof (cases k)
    case 0
    then show ?thesis using slice_at_prefix[OF l] by simp
  next
    case (Suc j)
    have "slice_at (concat (x # xs)) (length x + j * n) n = slice_at (concat xs) (j * n) n" unfolding concat.simps slice_at_shift ..
    moreover have "slice_at (concat xs) (j * n) n = Some (xs ! j)" by (rule Cons.IH) (use Cons.prems Suc in auto)
    ultimately show ?thesis using Suc l by simp
  qed
qed

lemma ehdr_of_ehdr_fields: "ehdr_fits ec eh \<Longrightarrow> ehdr_of ec (ehdr_fields eh) = Some eh"
  by (auto simp: ehdr_fits_def ehdr_of_def Elf32_Ehdr_of_fields Elf64_Ehdr_of_fields)

lemma shdr_of_shdr_fields: "shdr_fits ec sh \<Longrightarrow> shdr_of ec (shdr_fields sh) = Some sh"
  by (auto simp: shdr_fits_def shdr_of_def Elf32_Shdr_of_fields Elf64_Shdr_of_fields)

text \<open>The written object, and a descriptor that reads its image on a host of its own.\<close>

definition written_object :: "libelf_state \<Rightarrow> nat \<Rightarrow> Elf \<Rightarrow> ehdr \<Rightarrow> (nat \<Rightarrow> Elf_Scn option) \<Rightarrow> bool" where
  "written_object st i e eh X \<longleftrightarrow> creating st i e eh \<and> writable st e eh \<and> sections_placed e (inorder (e_scn e)) X
     \<and> chained 0 (object_extents e X) (object_size e) \<and> host_known st"

lemma written_objectD:
  assumes "written_object st i e eh X"
  shows "creating st i e eh" "writable st e eh" "sections_placed e (inorder (e_scn e)) X"
    "chained 0 (object_extents e X) (object_size e)" "host_known st"
  using assms by (simp_all add: written_object_def)

definition reads_object :: "libelf_state \<Rightarrow> Elf \<Rightarrow> nat \<Rightarrow> libelf_state \<Rightarrow> Elf \<Rightarrow> ehdr \<Rightarrow> (nat \<Rightarrow> Elf_Scn option) \<Rightarrow> bool" where
  "reads_object st2 e2 b st e eh X \<longleftrightarrow> host_known st2 \<and> reads_image st2 e2 b (object_image st e eh X)
     \<and> e_byteorder e2 = ucast (ehdr_ident eh ! EI_DATA)"

lemma read_ehdr:
  assumes w: "written_object st i e eh X" and r: "reads_object st2 e2 b st e eh X"
  shows "file_struct st2 e2 (e_class e) (Ehdr_DEF (e_class e)) 0 = Some (ehdr_fields (laid_out_ehdr e eh))"
proof -
  note O = written_objectD[OF w] and R = r[unfolded reads_object_def]
  note C = creatingD[OF O(1)]
  let ?ec = "e_class e" and ?e = "laid_out e eh X" and ?ex = "ehdr_extent (e_class e)"
  have f: "ehdr_fits ?ec (laid_out_ehdr e eh)" using C(6) by (simp add: ehdr_fits_laid_out)
  have "object_size e < 2 ^ 63" using writableD(3)[OF O(2)] by simp
  then have "hdr_end ?ec < 2 ^ 63" using area_end_ge[OF C(10)] by linarith
  then have "unat (ex_start ?ex) = 0" "unat (ex_size ?ex) = FSZ ?ec (Ehdr_DEF ?ec)"
    using unat_small_nat[of "hdr_end ?ec"] by (simp_all add: ehdr_extent_def hdr_end_def hdr_table_sizes)
  moreover have "extent_bytes st ?e (heap st) ?ex = hdr_bytes st ?e (ehdr_fields (laid_out_ehdr e eh))"
    by (simp add: extent_bytes_def ehdr_extent_def)
  moreover have "?ex \<in> set (object_extents e X)" by (simp add: object_extents_def)
  ultimately have "slice_at (object_image st e eh X) 0 (FSZ ?ec (Ehdr_DEF ?ec)) = Some (hdr_bytes st ?e (ehdr_fields (laid_out_ehdr e eh)))"
    using object_slice(1)[OF O(1-4), of ?ex] by simp
  from file_struct_image[OF _ O(5) _ _ _ ehdr_fields_ok[OF f] this, of st2 e2 b] show ?thesis
    using R writableD(6)[OF O(2)] by simp
qed

lemma read_shdr:
  assumes w: "written_object st i e eh X" and r: "reads_object st2 e2 b st e eh X" and n: "n < unat (e_nscn e)"
  obtains s where "e_scns (laid_out e eh X) n = Some s"
    "file_struct st2 e2 (e_class e) (Shdr_DEF (e_class e)) (sh_start e + n * FSZ (e_class e) (Shdr_DEF (e_class e))) = Some (shdr_fields (s_shdr s))"
    "shdr_of (e_class e) (shdr_fields (s_shdr s)) = Some (s_shdr s)"
proof -
  note O = written_objectD[OF w] and R = r[unfolded reads_object_def]
  note C = creatingD[OF O(1)]
  let ?ec = "e_class e" and ?e = "laid_out e eh X" let ?F = "FSZ ?ec (Shdr_DEF ?ec)" and ?ns = "inorder (e_scn e)"
  have ns: "?ns = [0..<unat (e_nscn e)]" by (rule laid_out_inorder[OF O(1)])
  have sh: "m \<in> set ?ns \<Longrightarrow> \<exists>s. e_scns ?e m = Some s \<and> s_ndx s = m \<and> shdr_fits ?ec (s_shdr s)" for m
    by (rule laid_out_shdrs[OF O(1,3)])
  obtain s where s: "e_scns ?e n = Some s" "shdr_fits ?ec (s_shdr s)" using sh[of n] n ns by auto
  have nz: "e_nscn e \<noteq> 0" using n by auto
  obtain ex where ex: "shdr_extents e = [ex]" "ex_start ex = of_nat (sh_start e)"
    "ex_size ex = of_nat (fsize_table ?ec ELF_T_SHDR * unat (e_nscn e))" "ex_type ex = ELF_EXTENT_SHDR"
    using nz by (simp add: shdr_extents_def)
  have "object_size e < 2 ^ 63" using writableD(3)[OF O(2)] by simp
  then have small: "sh_start e < 2 ^ 63" "fsize_table ?ec ELF_T_SHDR * unat (e_nscn e) < 2 ^ 63"
    using nz by (simp_all add: object_size_def)
  have "ex \<in> set (object_extents e X)" using ex(1) by (simp add: object_extents_def)
  from object_slice(1)[OF O(1-4) this] have t: "slice_at (object_image st e eh X) (sh_start e) (fsize_table ?ec ELF_T_SHDR * unat (e_nscn e))
      = Some (concat (map (shdr_bytes st ?e) ?ns))"
    unfolding ex(2,3) unat_small_nat[OF small(1)] unat_small_nat[OF small(2)] by (simp add: extent_bytes_def ex(4))
  have "slice_at (concat (map (shdr_bytes st ?e) ?ns)) (n * ?F) ?F = Some (map (shdr_bytes st ?e) ?ns ! n)"
  proof (rule slice_at_concat)
    fix x assume "x \<in> set (map (shdr_bytes st ?e) ?ns)"
    then obtain m where m: "m \<in> set ?ns" "x = shdr_bytes st ?e m" by auto
    obtain s' where "e_scns ?e m = Some s'" "shdr_fits ?ec (s_shdr s')" using sh[OF m(1)] by blast
    then show "length x = ?F" using m(2) length_fields_bytes[OF shdr_fields_ok] by (simp add: shdr_bytes_def hdr_bytes_def)
  qed (use n ns in simp)
  moreover have "map (shdr_bytes st ?e) ?ns ! n = hdr_bytes st ?e (shdr_fields (s_shdr s))"
    using n s(1) by (simp add: ns shdr_bytes_def)
  ultimately have "slice_at (object_image st e eh X) (sh_start e + n * ?F) ?F = Some (hdr_bytes st ?e (shdr_fields (s_shdr s)))"
    using slice_at_sub[OF t] by simp
  from file_struct_image[OF _ O(5) _ _ _ shdr_fields_ok[OF s(2)] this, of st2 e2 b]
  have "file_struct st2 e2 ?ec (Shdr_DEF ?ec) (sh_start e + n * ?F) = Some (shdr_fields (s_shdr s))"
    using R writableD(6)[OF O(2)] by simp
  then show thesis using that[OF s(1)] shdr_of_shdr_fields[OF s(2)] by simp
qed
section \<open>Opening the image\<close>

lemma ident_bytes:
  assumes "ehdr_fits ec eh"
  shows "take 16 (fields_bytes host sw (ehdr_fields eh)) = ehdr_ident eh"
proof -
  obtain vs where "ehdr_fields eh = VIdent (ehdr_ident eh) # vs"
    using assms by (cases eh) (simp_all add: Elf32_Ehdr_fields_def Elf64_Ehdr_fields_def)
  then show ?thesis using assms
    by (simp add: fields_bytes_def WRITE_MEMBERS_def SWAP_MEMBERS_def ehdr_fits_def)
qed

lemma laid_out_ident: "ehdr_ident (laid_out_ehdr e eh) = init_ident (e_class e) EV_CURRENT (ehdr_ident eh)"
  by (cases eh) (simp_all add: laid_out_ehdr_set counts_ehdr_def started_ehdr_def)

text \<open>The image is recognised as an ELF object of the class, byte order and version it was written with.\<close>

lemma object_ident:
  assumes w: "written_object st i e eh X"
  shows "elf_ident (object_image st e eh X) = Some (ucast (ehdr_ident eh ! EI_DATA), e_class e, EV_CURRENT)"
    "ident_error (ucast (ehdr_ident eh ! EI_DATA)) (e_class e) EV_CURRENT = ELF_E_NONE"
    "length (object_image st e eh X) = object_size e" "EI_NIDENT < object_size e"
proof -
  note O = written_objectD[OF w]
  note C = creatingD[OF O(1)] and D = writableD[OF O(2)]
  let ?ec = "e_class e" and ?e = "laid_out e eh X" and ?ex = "ehdr_extent (e_class e)" and ?img = "object_image st e eh X"
  have f: "ehdr_fits ?ec (laid_out_ehdr e eh)" using C(6) by (simp add: ehdr_fits_laid_out)
  have sz: "object_size e < 2 ^ 63" using D(3) by simp
  have he: "hdr_end ?ec \<in> {52, 64}" using C(10) by (auto simp: hdr_end_def)
  have ge: "hdr_end ?ec \<le> object_size e" using area_end_ge[OF C(10)] by linarith
  have "?ex \<in> set (object_extents e X)" by (simp add: object_extents_def)
  note S = object_slice[OF O(1-4) this]
  show len: "length ?img = object_size e" by (rule S(2))
  show big: "EI_NIDENT < object_size e" using he ge by auto
  have u: "unat (ex_start ?ex) = 0" "unat (ex_size ?ex) = hdr_end ?ec"
    using unat_small_nat[of "hdr_end ?ec"] he by (auto simp: ehdr_extent_def)
  have "take (hdr_end ?ec) ?img = hdr_bytes st ?e (ehdr_fields (laid_out_ehdr e eh))"
    using S(1) unfolding u by (simp add: slice_at_def extent_bytes_def ehdr_extent_def split: if_splits)
  then have "take 16 (take (hdr_end ?ec) ?img) = ehdr_ident (laid_out_ehdr e eh)"
    by (simp add: hdr_bytes_def ident_bytes[OF f])
  then have t: "take 16 ?img = init_ident ?ec EV_CURRENT (ehdr_ident eh)" using he by (auto simp: laid_out_ident)
  have l: "length (ehdr_ident eh) = 16" using C(6) by (simp add: ehdr_fits_def)
  have nth: "?img ! k = init_ident ?ec EV_CURRENT (ehdr_ident eh) ! k" if "k < 16" for k
    unfolding t[symmetric] using that by simp
  have "take 4 ?img = take 4 (init_ident ?ec EV_CURRENT (ehdr_ident eh))" unfolding t[symmetric] by simp
  moreover have "take 4 (init_ident ?ec EV_CURRENT (ehdr_ident eh)) = ELFMAG"
    using l by (auto simp: ELFMAG_def init_ident_def list_eq_iff_nth_eq nth_list_update less_Suc_eq numeral_eq_Suc)
  ultimately have m: "take 4 ?img = ELFMAG" by simp
  have "?img ! 4 = of_int ?ec" "?img ! 5 = ehdr_ident eh ! 5" "?img ! 6 = 1"
    using nth[of 4] nth[of 5] nth[of 6] l by (simp_all add: init_ident_def)
  then show "elf_ident ?img = Some (ucast (ehdr_ident eh ! EI_DATA), ?ec, EV_CURRENT)"
    using m len big C(10) by (auto simp: elf_ident_def)
  show "ident_error (ucast (ehdr_ident eh ! EI_DATA)) ?ec EV_CURRENT = ELF_E_NONE"
    using D(6) C(10) by (auto simp: ident_error_def)
qed

text \<open>Opening the image of an ELF object.\<close>

definition image_elf :: "libelf_state \<Rightarrow> ptr \<Rightarrow> u64 \<Rightarrow> u32 \<Rightarrow> int \<Rightarrow> u32 \<Rightarrow> Elf" where
  "image_elf st p sz bo cls ver = (initial_elf (libelf_version st))\<lparr>e_cmd := ELF_C_READ, e_rawfile := Some p, e_rawsize := sz,
     e_kind := ELF_K_ELF, e_byteorder := bo, e_class := cls, e_version := ver\<rparr>"

definition image_state :: "libelf_state \<Rightarrow> Elf \<Rightarrow> libelf_state" where
  "image_state st e = put_elf (next_elf st) e ((snd (c_alloc st))\<lparr>next_elf := Suc (next_elf st)\<rparr>)"

lemma memory_elf:
  assumes img: "heap st b = Some img" "elf_ident img = Some (bo, cls, ver)" "ident_error bo cls ver = ELF_E_NONE"
    and ok: "libelf_version st \<noteq> EV_NONE" "never_fails st" "length img < 2 ^ 63"
  shows "elf_memory st (Some (b, 0)) (of_nat (length img))
    = Some (Some (next_elf st), image_state st (image_elf st (b, 0) (of_nat (length img)) bo cls ver))"
proof -
  let ?sz = "of_nat (length img) :: u64" and ?i = "next_elf st"
  have u: "unat ?sz = length img" by (rule unat_small_nat[OF ok(3)])
  have id: "EI_NIDENT < length img" "take 4 img = ELFMAG" "bo = ucast (img ! 5)" "cls = uint (img ! 4)" "ver = ucast (img ! 6)"
    using img(2) by (auto simp: elf_ident_def split: if_splits)
  have big: "?sz > of_nat EI_NIDENT" using id(1) u by (simp add: word_less_nat_alt)
  have pos: "?sz > 0" "?sz \<noteq> 0" using u id(1) by (auto simp: word_less_nat_alt simp flip: unat_0_iff)
  have nth: "take 7 img ! 4 = img ! 4" "take 7 img ! 5 = img ! 5" "take 7 img ! 6 = img ! 6" by simp_all
  let ?e0 = "(initial_elf (libelf_version st))\<lparr>e_cmd := ELF_C_READ, e_rawfile := Some (b, 0), e_rawsize := ?sz\<rparr>"
  let ?st1 = "put_elf ?i ?e0 ((snd (c_alloc st))\<lparr>next_elf := Suc ?i\<rparr>)"
  have rd: "mem_read (heap ?st1) (b, 0) 4 = Some ELFMAG" "mem_read (heap ?st1) (b, 0) 7 = Some (take 7 img)"
    using img(1) id(1,2) by (simp_all add: mem_read_def slice_at_def)
  have init: "libelf_init_elf ?st1 ?i ELF_K_ELF = Some (put_elf ?i (?e0\<lparr>e_kind := ELF_K_ELF\<rparr>) ?st1)"
    by (simp add: libelf_init_elf_def initial_elf_def)
  have "identify_image ?st1 ?i (b, 0) ?sz True = Some (Some ?i, image_state st (image_elf st (b, 0) ?sz bo cls ver))"
    unfolding identify_image_def if_P[OF big] rd init using img(3) id(3-5)
    by (simp add: nth Let_def image_state_def image_elf_def put_elf_def get_elf_def)
  moreover have "libelf_allocate_elf st = (Some ?i, put_elf ?i (initial_elf (libelf_version st)) ((snd (c_alloc st))\<lparr>next_elf := Suc ?i\<rparr>))"
    using never_fails_alloc[OF ok(2)] by (cases st rule: allocate_elf_cases) simp_all
  ultimately have "libelf_memory st (b, 0) ?sz True = Some (Some ?i, image_state st (image_elf st (b, 0) ?sz bo cls ver))"
    using pos(1) by (simp add: libelf_memory_def)
  then show ?thesis using ok(1) pos(2) by (simp add: elf_memory_def)
qed
section \<open>The header\<close>

text \<open>The counts fit the fields of the header; the other case is extended numbering (\<open>extended_numbers_round_trip\<close>).\<close>

definition plain_counts :: "Elf \<Rightarrow> ehdr \<Rightarrow> bool" where
  "plain_counts e eh \<longleftrightarrow> e_nscn e < SHN_LORESERVE \<and> e_nphdr e < PN_XNUM \<and> (ucast (ehdr_shstrndx eh) :: u64) \<noteq> SHN_XINDEX"

lemma half_zero: "(x :: u16) = 0 \<longleftrightarrow> (ucast x :: u64) = 0"
  by transfer simp

lemma laid_out_counts:
  assumes p: "plain_counts e eh"
  shows "ucast (ehdr_shnum (laid_out_ehdr e eh)) = e_nscn e" "ucast (ehdr_phnum (laid_out_ehdr e eh)) = e_nphdr e"
    "ehdr_shstrndx (laid_out_ehdr e eh) = ehdr_shstrndx eh"
    "ehdr_shentsize (laid_out_ehdr e eh) = ucast (of_nat (fsize_table (e_class e) ELF_T_SHDR) :: u64)"
    "e_nscn e = 0 \<Longrightarrow> ehdr_shoff (laid_out_ehdr e eh) = 0"
proof -
  have u: "ucast (ucast (e_nscn e) :: u16) = e_nscn e" "ucast (ucast (e_nphdr e) :: u16) = e_nphdr e"
    using p by (auto intro!: ucast_half simp: plain_counts_def word_less_nat_alt)
  have q: "\<not> SHN_LORESERVE \<le> e_nscn e" "\<not> PN_XNUM \<le> e_nphdr e" using p by (auto simp: plain_counts_def not_le)
  note d = laid_out_ehdr_set counts_ehdr_def started_ehdr_def if_not_P[OF q(1)] if_not_P[OF q(2)]
  show "ucast (ehdr_shnum (laid_out_ehdr e eh)) = e_nscn e" unfolding d using u(1) by (cases eh) simp_all
  show "ucast (ehdr_phnum (laid_out_ehdr e eh)) = e_nphdr e" unfolding d using u(2) by (cases eh) simp_all
  show "ehdr_shstrndx (laid_out_ehdr e eh) = ehdr_shstrndx eh" unfolding d by (cases eh) simp_all
  show "ehdr_shentsize (laid_out_ehdr e eh) = ucast (of_nat (fsize_table (e_class e) ELF_T_SHDR) :: u64)"
    unfolding d by (cases eh) simp_all
  show "ehdr_shoff (laid_out_ehdr e eh) = 0" if "e_nscn e = 0" unfolding d using that by (cases eh) simp_all
qed

lemma table_place:
  assumes w: "written_object st i e eh X" and n: "e_nscn e \<noteq> 0"
  shows "ehdr_shoff (laid_out_ehdr e eh) = of_nat (sh_start e)" "ehdr_shoff (laid_out_ehdr e eh) \<noteq> 0"
    "unat (ehdr_shoff (laid_out_ehdr e eh)) = sh_start e"
    "object_size e = sh_start e + FSZ (e_class e) (Shdr_DEF (e_class e)) * unat (e_nscn e)" "object_size e < 2 ^ 63"
proof -
  note O = written_objectD[OF w]
  note C = creatingD[OF O(1)] and D = writableD[OF O(2)]
  show fin: "object_size e = sh_start e + FSZ (e_class e) (Shdr_DEF (e_class e)) * unat (e_nscn e)"
    using n by (simp add: object_size_def hdr_table_sizes)
  show sz: "object_size e < 2 ^ 63" using D(3) by simp
  have small: "sh_start e < 2 ^ 63" using fin sz by linarith
  have s32: "e_class e = ELFCLASS32 \<longrightarrow> sh_start e < 2 ^ 32" using D(4) fin by linarith
  show off: "ehdr_shoff (laid_out_ehdr e eh) = of_nat (sh_start e)"
    by (rule shoff_laid_out[OF C(6) n _ s32]) (use small in simp)
  then show u: "unat (ehdr_shoff (laid_out_ehdr e eh)) = sh_start e" using unat_small_nat[OF small] by simp
  have "hdr_end (e_class e) \<le> sh_start e"
    using area_end_ge(1,2)[OF C(10)] align_up_bounds(1)[of "libelf_falign ELF_T_SHDR (e_class e)" "area_end e"] header_aligns[OF C(10)]
    by (auto simp: sh_start_def)
  then have "0 < sh_start e" using header_sizes(4)[OF C(10)] by auto
  then show "ehdr_shoff (laid_out_ehdr e eh) \<noteq> 0" using u by auto
qed

text \<open>A freshly opened descriptor of the image.\<close>

definition fresh_reader :: "libelf_state \<Rightarrow> nat \<Rightarrow> Elf \<Rightarrow> Elf \<Rightarrow> bool" where
  "fresh_reader st3 r E e \<longleftrightarrow> get_elf st3 r = Some E \<and> never_fails st3 \<and> e_kind E = ELF_K_ELF \<and> e_class E = e_class e
     \<and> e_version E = EV_CURRENT \<and> e_cmd E = ELF_C_READ \<and> e_ehdr E = None \<and> e_scn E = RB_NULL \<and> e_scns E = Map.empty
     \<and> e_flags E = 0 \<and> e_rawsize E = of_nat (object_size e)"

lemma read_header:
  assumes w: "written_object st i e eh X" and p: "plain_counts e eh" and r: "reads_object st3 E b st e eh X" and f: "fresh_reader st3 r E e"
  obtains st4 where "libelf_ehdr st3 (Some r) (e_class e) False = Some (True, st4)"
    "get_elf st4 r = Some (E\<lparr>e_ehdr := Some (laid_out_ehdr e eh), e_nphdr := e_nphdr e, e_nscn := e_nscn e,
       e_strndx := ucast (ehdr_shstrndx eh)\<rparr>)"
    "frame_ok r st3 st4" "never_fails st4"
proof -
  let ?ec = "e_class e" and ?leh = "laid_out_ehdr e eh"
  note O = written_objectD[OF w]
  note C = creatingD[OF O(1)] and D = writableD[OF O(2)]
  have F: "get_elf st3 r = Some E" "never_fails st3" "e_kind E = ELF_K_ELF" "e_class E = ?ec" "e_version E = EV_CURRENT" "e_cmd E = ELF_C_READ"
    "e_ehdr E = None" "e_scn E = RB_NULL" "e_flags E = 0" "e_rawsize E = of_nat (object_size e)" using f by (simp_all add: fresh_reader_def)
  let ?st1 = "put_elf r (E\<lparr>e_class := ?ec\<rparr>) st3"
  let ?st2 = "snd (c_alloc ?st1)"
  let ?e2 = "E\<lparr>e_class := ?ec, e_ehdr := Some (ehdr_init ?ec (libelf_version ?st2)), e_flags := (if False then e_flags E OR ELF_F_DIRTY else e_flags E)\<rparr>"
  let ?st = "put_elf r ?e2 ?st2"
  have nf: "never_fails ?st1" "never_fails ?st" using F(2) by (simp_all add: never_fails_def)
  have sz: "object_size e < 2 ^ 63" using D(3) by simp
  have "FSZ ?ec (Ehdr_DEF ?ec) = hdr_end ?ec" by (simp add: hdr_end_def hdr_table_sizes)
  also have "\<dots> \<le> object_size e" using area_end_ge[OF C(10)] by linarith
  finally have fits: "\<not> sint (e_rawsize E) < int (FSZ ?ec (Ehdr_DEF ?ec))" unfolding F(10) sint_of_small[OF sz] by simp
  have start: "libelf_ehdr st3 (Some r) ?ec False = ehdr_from_file ?st r ?ec"
    using libelf_ehdr_fresh[OF F(1) C(10) F(3,5) _ F(7) refl refl refl, of False] F(4,6) fits never_fails_alloc[OF nf(1)] by simp
  have R: "reads_object ?st ?e2 b st e eh X" using r by (simp add: reads_object_def reads_image_def host_known_def)
  have m: "\<exists>m. libelf_elfmachine (Some ?e2) = Some m" using F(3) C(10) by (auto simp: libelf_elfmachine_def split: ehdr.split)
  have eh: "ehdr_of ?ec (ehdr_fields ?leh) = Some ?leh" by (rule ehdr_of_ehdr_fields) (simp add: ehdr_fits_laid_out C(6))
  note cnt = laid_out_counts[OF p]
  have p': "e_nscn e < SHN_LORESERVE" "e_nphdr e \<noteq> PN_XNUM" "(ucast (ehdr_shstrndx eh) :: u64) \<noteq> SHN_XINDEX"
    using p by (auto simp: plain_counts_def)
  have z: "ehdr_shnum ?leh = 0 \<longleftrightarrow> e_nscn e = 0" unfolding cnt(1)[symmetric] by (rule half_zero)
  have off: "ehdr_shoff ?leh = 0 \<longleftrightarrow> e_nscn e = 0" using table_place(2)[OF w] cnt(5) by blast
  let ?E = "E\<lparr>e_ehdr := Some ?leh, e_nphdr := e_nphdr e, e_nscn := e_nscn e, e_strndx := ucast (ehdr_shstrndx eh)\<rparr>"
  have fl: "?e2\<lparr>e_ehdr := Some ?leh, e_nphdr := e_nphdr e, e_nscn := e_nscn e, e_strndx := ucast (ehdr_shstrndx eh)\<rparr> = ?E"
    using F(4) by (cases E) simp
  have "ehdr_from_file ?st r ?ec = Some (True, put_elf r ?E ?st)"
    using m read_ehdr[OF w R] eh cnt(1-3) p' z off fl
    by (auto simp: ehdr_from_file_def Let_def not_le)
  moreover have "frame_ok r st3 (put_elf r ?E ?st)" by (simp add: frame_ok_def c_alloc_def put_elf_def get_elf_def)
  ultimately show thesis using start nf(2) by (intro that[of "put_elf r ?E ?st"]) (simp_all add: never_fails_def)
qed
section \<open>The section table\<close>

lemma allocate_scn_true:
  assumes "libelf_allocate_scn st i k = Some (r, st')" "never_fails st"
  shows "r = Some k" "never_fails st'"
  using assms never_fails_alloc[OF assms(2)]
  by (auto simp: libelf_allocate_scn_def case_prod_unfold Let_def bind_Some_iff never_fails_def split: if_split_asm)

lemma load_scns_true: "load_scns n st i ec off k = Some (b, st') \<Longrightarrow> never_fails st \<Longrightarrow> b \<and> never_fails st'"
proof (induction n arbitrary: st off k)
  case (Suc n)
  from Suc.prems(1) obtain x st1 where a: "libelf_allocate_scn st i k = Some (x, st1)" by (auto simp: bind_Some_iff)
  note A = allocate_scn_true[OF a Suc.prems(2)]
  from Suc.prems(1) obtain st2 where "load_scns n st2 i ec (off + FSZ ec (Shdr_DEF ec)) (Suc k) = Some (b, st')" "malloc_ok st2 = malloc_ok st1"
    by (auto simp: a A(1) bind_Some_iff put_scn_def)
  moreover from this(2) have "never_fails st2" using A(2) by (simp add: never_fails_def)
  ultimately show ?case using Suc.IH by blast
qed simp

lemma table_fits:
  assumes w: "written_object st i e eh X" and p: "plain_counts e eh"
  defines "fsz \<equiv> of_nat (FSZ (e_class e) (Shdr_DEF (e_class e))) :: u64"
  shows "\<not> ehdr_shoff (laid_out_ehdr e eh) > of_nat (object_size e)" "fsz = ucast (ehdr_shentsize (laid_out_ehdr e eh))"
    "\<not> e_nscn e > (- 1) div fsz" "\<not> fsz * e_nscn e > of_nat (object_size e) - ehdr_shoff (laid_out_ehdr e eh)"
proof -
  note O = written_objectD[OF w]
  note C = creatingD[OF O(1)] and D = writableD[OF O(2)]
  let ?F = "FSZ (e_class e) (Shdr_DEF (e_class e))" and ?off = "ehdr_shoff (laid_out_ehdr e eh)" and ?sz = "of_nat (object_size e) :: u64"
  have F: "?F \<in> {40, 64}" using shdr_fsize_current(2)[OF C(10)] by auto
  have uf: "unat fsz = ?F" using F by (auto simp: fsz_def)
  have us: "unat ?sz = object_size e" by (rule unat_small_nat) (use D(3) in simp)
  have n: "unat (e_nscn e) < 0xff00" using p by (simp add: plain_counts_def word_less_nat_alt)
  have le: "unat ?off + ?F * unat (e_nscn e) \<le> object_size e"
  proof (cases "e_nscn e = 0")
    case True
    then show ?thesis using laid_out_counts(5)[OF p True] by simp
  next
    case False
    show ?thesis using table_place(3,4)[OF w False] by simp
  qed
  show "\<not> ?off > ?sz" using le us by (simp add: word_less_nat_alt)
  show "fsz = ucast (ehdr_shentsize (laid_out_ehdr e eh))"
    unfolding laid_out_counts(4)[OF p] hdr_table_sizes using F by (auto simp: fsz_def)
  have m: "?F * unat (e_nscn e) < 2 ^ 64" using F n by auto
  have "unat (fsz * e_nscn e) = ?F * unat (e_nscn e)" using unat_mult_lem[of fsz "e_nscn e"] m uf by simp
  moreover have "unat (?sz - ?off) = object_size e - unat ?off" using le us by (simp add: unat_sub word_le_nat_alt)
  ultimately show "\<not> fsz * e_nscn e > ?sz - ?off" using le by (simp add: word_less_nat_alt)
  have "unat (- 1 :: u64) = 2 ^ 64 - 1" by (simp add: unsigned_minus_1_eq_mask mask_eq_exp_minus_1)
  then have "unat ((- 1) div fsz) = (2 ^ 64 - 1) div ?F" unfolding unat_div uf by simp
  moreover have "unat (e_nscn e) \<le> (2 ^ 64 - 1) div ?F" using F n by auto
  ultimately show "\<not> e_nscn e > (- 1) div fsz" by (simp add: word_less_nat_alt)
qed

text \<open>The section table of the image, loaded.\<close>

lemma read_table:
  assumes w: "written_object st i e eh X" and p: "plain_counts e eh" and r: "reads_object st4 E4 b st e eh X"
    and g: "get_elf st4 r = Some E4" "elf_inv st4 E4" "never_fails st4"
    and E: "e_kind E4 = ELF_K_ELF" "e_version E4 = EV_CURRENT" "e_flags E4 = 0" "e_class E4 = e_class e" "e_cmd E4 = ELF_C_READ"
      "e_ehdr E4 = Some (laid_out_ehdr e eh)" "e_scn E4 = RB_NULL" "e_nscn E4 = e_nscn e" "e_rawsize E4 = of_nat (object_size e)"
  obtains st5 e5 where "libelf_load_section_headers st4 r = Some (True, st5)" "get_elf st5 r = Some e5" "elf_inv st5 e5" "frame_ok r st4 st5"
    "same_file E4 e5" "e_ehdr e5 = e_ehdr E4" "e_nscn e5 = e_nscn E4" "table_loaded st4 E4 e5" "e_class e5 = e_class E4" "never_fails st5"
proof -
  have raw: "raw_ok st4 E4" using g(2) E(5) by (simp add: elf_inv_def)
  from load_section_headers_ok[OF g(1,2) raw E(6) E(1,2)] E(3,7) obtain ok st5 e5 where l:
    "libelf_load_section_headers st4 r = Some (ok, st5)" "get_elf st5 r = Some e5" "elf_inv st5 e5" "frame_ok r st4 st5" "same_file E4 e5"
    "e_ehdr e5 = e_ehdr E4" "e_nscn e5 = e_nscn E4" "ok \<longrightarrow> table_loaded st4 E4 e5" "e_class e5 = e_class E4"
    by (auto simp: rb_keys_def elim!: call_okE)
  have ec: "e_class e = ELFCLASS32 \<or> e_class e = ELFCLASS64" using creatingD(10)[OF written_objectD(1)[OF w]] .
  note T = table_fits[OF w p]
  have "ok \<and> never_fails st5"
  proof -
    obtain k st' where s: "load_scns (unat (e_nscn e) - 0) st4 r (e_class e) (unat (ehdr_shoff (laid_out_ehdr e eh)) + 0 * unat (of_nat (FSZ (e_class e) (Shdr_DEF (e_class e))) :: u64)) 0 = Some (k, st')"
        "ok = k" "malloc_ok st5 = malloc_ok st'"
      using l(1) T shdr_fsize_current(1)[OF ec, of st4] g(1) E
      by (auto simp: libelf_load_section_headers_def bind_Some_iff Let_def split: if_split_asm)
    then show ?thesis using load_scns_true[OF s(1) g(3)] s(2,3) by (simp add: never_fails_def)
  qed
  then show thesis using l by (intro that[of st5 e5]) simp_all
qed
section \<open>Reading back\<close>

lemma image_elf_inv:
  assumes "heap st b = Some img" "length img < 2 ^ 63" "E = image_elf st (b, 0) (of_nat (length img)) bo cls ver"
  shows "elf_inv (image_state st E) E"
proof -
  have "sint (of_nat (length img) :: u64) = int (length img)" by (rule sint_of_small[OF assms(2)])
  moreover have "unat (of_nat (length img) :: u64) = length img" by (rule unat_small_nat[OF assms(2)])
  moreover have "window (heap (image_state st E)) (b, 0) (length img)"
    using assms(1) by (simp add: image_state_def window_def mem_read_def slice_at_def)
  ultimately show ?thesis unfolding assms(3)
    by (simp add: elf_inv_def scn_inv_def hdr_inv_def raw_ok_def image_elf_def initial_elf_def rb_inv_def rb_keys_def image_state_def)
qed

text \<open>The header of a section in the file says where its bytes are.\<close>

lemma placed_header:
  assumes w: "written_object st i e eh X" and n: "n \<in> set (inorder (e_scn e))" "has_extent (the (X n))"
  obtains s where "X n = Some s" "shdr_offset (s_shdr s) = s_offset s" "shdr_size (s_shdr s) = s_size s"
    "slice_at (object_image st e eh X) (unat (s_offset s)) (unat (s_size s))
      = Some (scn_image (fill_bytes st) (enc_data st (laid_out e eh X) (heap st)) (e_class e) (s_data s) 0)"
proof -
  note O = written_objectD[OF w]
  note C = creatingD[OF O(1)] and D = writableD[OF O(2)]
  have dom: "set (inorder (e_scn e)) = dom (e_scns e)" using C(4) by (simp add: scn_inv_def rb_keys_def)
  obtain s0 where s0: "e_scns e n = Some s0" using n(1) unfolding dom by auto
  obtain s where s: "X n = Some s" "scn_laid_out (e_class e) s0 s"
    using spec[OF O(3)[unfolded sections_placed_def], of n] n(1) s0 by auto
  have f: "in_file s" using n(2) s(1) by (simp add: has_extent_def)
  then have "in_file s0" using s(2) by (auto simp: scn_laid_out_def split: if_splits)
  then obtain x where "placed_scn (e_class e) s0 x s" using s(2) by (auto simp: scn_laid_out_def)
  then obtain al ent off sz where pl: "s_shdr s = set_sh_layout al ent off sz (s_shdr s0)" "s_size s = sz" "s_offset s = off"
    by (elim placed_scn_layout) auto
  let ?ex = "scn_extent n s"
  have mem: "?ex \<in> set (object_extents e X)" using n s(1) by (force simp: object_extents_def scn_extents_def)
  have "ex_end ?ex \<le> object_size e" using chained_le[OF O(4)] mem by blast
  then have le: "unat off \<le> object_size e" "unat sz \<le> object_size e" using pl by (simp_all add: ex_end_def scn_extent_def)
  have "shdr_offset (s_shdr s) = off \<and> shdr_size (s_shdr s) = sz"
  proof (cases "s_shdr s0")
    case (Sh32 h)
    have "shdr_fits (e_class e) (s_shdr s0)" using O(1) s0 by (auto simp: creating_def)
    then have "object_size e < 2 ^ 32" using Sh32 D(4) by (simp add: shdr_fits_def)
    then have "unat off < 2 ^ 32" "unat sz < 2 ^ 32" using le by linarith+
    then show ?thesis using Sh32 pl(1) ucast_32_same by simp
  next
    case (Sh64 h)
    then show ?thesis using pl(1) by simp
  qed
  moreover have n0: "counts_scns (e_nphdr e) (e_nscn e) X n = Some s"
  proof -
    have "n \<noteq> 0" using D(5) s0 \<open>in_file s0\<close> by (metis)
    then show ?thesis using s(1) by (simp add: counts_scns_def)
  qed
  moreover have "extent_bytes st (laid_out e eh X) (heap st) ?ex
      = scn_image (fill_bytes st) (enc_data st (laid_out e eh X) (heap st)) (e_class e) (s_data s) 0"
    using n0 by (simp add: extent_bytes_def scn_extent_def)
  ultimately show thesis using that[OF s(1)] object_slice(1)[OF O(1-4) mem] pl by (simp add: scn_extent_def)
qed

lemma reader_getscn:
  assumes g: "get_elf st3 r = Some E" "e_kind E = ELF_K_ELF" and ec: "e_class E = e_class e" "e_class e = ELFCLASS32 \<or> e_class e = ELFCLASS64"
    and h: "libelf_ehdr st3 (Some r) (e_class e) False = Some (True, st4)" "get_elf st4 r = Some E4"
      "e_cmd E4 = ELF_C_READ" "e_flags E4 = 0"
    and t: "libelf_load_section_headers st4 r = Some (True, st5)" "get_elf st5 r = Some e5" "elf_inv st5 e5" "n \<in> rb_keys (e_scn e5)" "n < 2 ^ 64"
  shows "elf_getscn st3 (Some r) (of_nat n) = Some (Some (r, n), st5)"
proof -
  have "sorted_wrt (<) (inorder (e_scn e5))" using t(3) by (simp add: elf_inv_def scn_inv_def rb_inv_def)
  moreover have "unat (of_nat n :: u64) = n" using t(5) by (simp add: unat_of_nat)
  ultimately have "getscn_walk (e_scn e5) (of_nat n) = Some n" using t(4) by (simp add: getscn_walk_eq)
  moreover have "elf_class_known E" using ec g(2) by (auto simp: elf_class_known_def)
  ultimately show ?thesis using g(1) ec(1) h t(1,2)
    by (simp add: elf_getscn_def load_sections_def)
qed

text \<open>The image of a written object, opened and loaded: the descriptor \<open>e5\<close> knows its sections.\<close>

definition loaded_copy :: "libelf_state \<Rightarrow> Elf \<Rightarrow> ehdr \<Rightarrow> (nat \<Rightarrow> Elf_Scn option) \<Rightarrow> libelf_state \<Rightarrow> nat \<Rightarrow> nat \<Rightarrow> libelf_state \<Rightarrow> Elf \<Rightarrow> bool" where
  "loaded_copy st e eh X st2 b r st5 e5 \<longleftrightarrow> get_elf st5 r = Some e5 \<and> elf_inv st5 e5 \<and> reads_object st5 e5 b st e eh X
     \<and> only_read e5 \<and> e_class e5 = e_class e \<and> e_version e5 = EV_CURRENT \<and> e_rawsize e5 = of_nat (object_size e)
     \<and> e_ehdr e5 = Some (laid_out_ehdr e eh) \<and> e_nscn e5 = e_nscn e
     \<and> heap st5 = heap st2 \<and> next_buf st5 = next_buf st2 \<and> never_fails st5"

lemma written_object_read:
  assumes w: "written_object st i e eh X" and p: "plain_counts e eh"
    and img: "heap st2 b = Some (object_image st e eh X)" and st2: "host_known st2" "libelf_version st2 \<noteq> EV_NONE" "never_fails st2"
  shows "\<exists>st3. elf_memory st2 (Some (b, 0)) (of_nat (object_size e)) = Some (Some (next_elf st2), st3)
    \<and> (\<forall>n < unat (e_nscn e). \<exists>st5 e5 s. elf_getscn st3 (Some (next_elf st2)) (of_nat n) = Some (Some (next_elf st2, n), st5)
        \<and> loaded_copy st e eh X st2 b (next_elf st2) st5 e5 \<and> e_scns e5 n = Some s \<and> s_shdr s = s_shdr (the (X n))
        \<and> s_rawoff s = shdr_offset (s_shdr s) \<and> s_size s = shdr_size (s_shdr s))"
proof -
  let ?r = "next_elf st2" and ?img = "object_image st e eh X" and ?ec = "e_class e"
  let ?E = "image_elf st2 (b, 0) (of_nat (object_size e)) (ucast (ehdr_ident eh ! EI_DATA)) ?ec EV_CURRENT"
  let ?st3 = "image_state st2 ?E"
  note O = written_objectD[OF w] and I = object_ident[OF w]
  note C = creatingD[OF O(1)]
  have sz: "length ?img < 2 ^ 63" using writableD(3)[OF O(2)] I(3) by simp
  have m: "elf_memory st2 (Some (b, 0)) (of_nat (object_size e)) = Some (Some ?r, ?st3)"
    using memory_elf[OF img I(1,2) st2(2,3) sz] unfolding I(3) .
  have inv: "elf_inv ?st3 ?E" by (rule image_elf_inv[OF img sz]) (simp add: I(3))
  have E: "get_elf ?st3 ?r = Some ?E" "e_class ?E = ?ec" "e_kind ?E = ELF_K_ELF" by (simp_all add: image_state_def image_elf_def)
  have reads: "reads_object ?st3 ?E b st e eh X"
    using img st2(1) by (simp add: reads_object_def reads_image_def host_known_def image_state_def image_elf_def)
  have fresh: "fresh_reader ?st3 ?r ?E e"
    using E(1) st2(3) by (simp add: fresh_reader_def image_elf_def initial_elf_def never_fails_def image_state_def)
  let ?E4 = "?E\<lparr>e_ehdr := Some (laid_out_ehdr e eh), e_nphdr := e_nphdr e, e_nscn := e_nscn e, e_strndx := ucast (ehdr_shstrndx eh)\<rparr>"
  from read_header[OF w p reads fresh] obtain st4 where h: "libelf_ehdr ?st3 (Some ?r) ?ec False = Some (True, st4)"
    "get_elf st4 ?r = Some ?E4" "frame_ok ?r ?st3 st4" "never_fails st4" .
  have inv4: "elf_inv st4 ?E4"
    using libelf_ehdr_ok[OF E(1) inv C(10), of False] h(1,2) by (auto elim!: call_okE)
  have reads4: "reads_object st4 ?E4 b st e eh X"
    using reads h(3) by (simp add: reads_object_def reads_image_def host_known_def frame_ok_def)
  have E4: "e_kind ?E4 = ELF_K_ELF" "e_version ?E4 = EV_CURRENT" "e_flags ?E4 = 0" "e_class ?E4 = ?ec" "e_cmd ?E4 = ELF_C_READ"
    "e_ehdr ?E4 = Some (laid_out_ehdr e eh)" "e_scn ?E4 = RB_NULL" "e_nscn ?E4 = e_nscn e" "e_rawsize ?E4 = of_nat (object_size e)"
    by (simp_all add: image_elf_def initial_elf_def)
  from read_table[OF w p reads4 h(2) inv4 h(4) E4] obtain st5 e5 where t:
    "libelf_load_section_headers st4 ?r = Some (True, st5)" "get_elf st5 ?r = Some e5" "elf_inv st5 e5" "frame_ok ?r st4 st5"
    "same_file ?E4 e5" "e_ehdr e5 = e_ehdr ?E4" "e_nscn e5 = e_nscn ?E4" "table_loaded st4 ?E4 e5" "e_class e5 = e_class ?E4"
    "never_fails st5" by metis
  have rd: "only_read e5 \<and> next_buf st5 = next_buf st2"
  proof -
    have "st_read (next_buf st2) ?r ?st3"
      using C(10) by (simp add: st_read_def only_read_def image_state_def image_elf_def initial_elf_def)
    moreover have "load_sections ?st3 ?r ?ec = Some (True, st5)"
      using h(1,2) t(1) E4(3,5) by (simp add: load_sections_def)
    ultimately have "st_read (next_buf st2) ?r st5" using load_sections_only_read by blast
    then show ?thesis using t(2) by (simp add: st_read_def)
  qed
  have copy: "loaded_copy st e eh X st2 b ?r st5 e5"
  proof -
    have "heap ?st3 = heap st2" by (simp add: image_state_def)
    then have hp: "heap st5 = heap st2" using h(3) t(4) by (simp add: frame_ok_def)
    have "reads_object st5 e5 b st e eh X"
      using reads4 t(4,5) by (simp add: reads_object_def reads_image_def host_known_def frame_ok_def same_file_def)
    then show ?thesis using t(2,3,5-7,9,10) rd hp E4 by (simp add: loaded_copy_def same_file_def)
  qed
  have "\<exists>s. elf_getscn ?st3 (Some ?r) (of_nat n) = Some (Some (?r, n), st5) \<and> e_scns e5 n = Some s \<and> s_shdr s = s_shdr (the (X n))
      \<and> s_rawoff s = shdr_offset (s_shdr s) \<and> s_size s = shdr_size (s_shdr s)"
    if n: "n < unat (e_nscn e)" for n
  proof -
    have nz: "e_nscn e \<noteq> 0" using n by auto
    obtain s where s: "e_scns e5 n = Some s" "scn_at st4 ?E4 ?ec (sh_start e + n * FSZ ?ec (Shdr_DEF ?ec)) s"
      using t(8) n E4(4,6-8) table_place(3)[OF w nz] unfolding table_loaded_def by (auto simp: rb_keys_def)
    from read_shdr[OF w reads4 n] obtain s' where s': "e_scns (laid_out e eh X) n = Some s'"
      "file_struct st4 ?E4 ?ec (Shdr_DEF ?ec) (sh_start e + n * FSZ ?ec (Shdr_DEF ?ec)) = Some (shdr_fields (s_shdr s'))"
      "shdr_of ?ec (shdr_fields (s_shdr s')) = Some (s_shdr s')" .
    have eq: "s_shdr s = s_shdr s'" "s_rawoff s = shdr_offset (s_shdr s)" "s_size s = shdr_size (s_shdr s)"
      using s(2) s'(2,3) by (auto simp: scn_at_def)
    have "s_shdr s' = s_shdr (the (X n))" using s'(1) p
      by (auto simp: counts_scns_def counts_scn_def plain_counts_def not_le split: if_splits)
    moreover have "elf_getscn ?st3 (Some ?r) (of_nat n) = Some (Some (?r, n), st5)"
    proof (rule reader_getscn[OF E(1,3,2) C(10) h(1,2) E4(5,3) t(1-3)])
      show "n \<in> rb_keys (e_scn e5)" using t(3) s(1) by (auto simp: elf_inv_def scn_inv_def)
      show "n < 2 ^ 64" using n unat_lt2p[of "e_nscn e"] by simp
    qed
    ultimately show ?thesis using s(1) eq by auto
  qed
  then show ?thesis using m copy by metis
qed



end
