(* ===== verification/Update_Elements.thy ===== *)
theory Update_Elements
  imports Update_Read Gelf_File
begin

text \<open>
  From one application to another: the elements of a section that one host has written with \<open>elf_update\<close> are the elements
  that \<open>gelf_getX\<close> returns on another host, which has opened the image (\<open>elf_update.c\<close>, \<open>elf_data.c\<close>, \<open>gelf_sym.c\<close> and the
  others of its kind).
\<close>

section \<open>The section in the image\<close>

text \<open>A section with the elements of one structure type in one data descriptor.\<close>

definition elem_section :: "libelf_state \<Rightarrow> Elf \<Rightarrow> nat \<Rightarrow> Elf_Type \<Rightarrow> Elf_Scn \<Rightarrow> Libelf_Data \<Rightarrow> bool" where
  "elem_section st e n t s ld \<longleftrightarrow> e_scns e n = Some s \<and> s_data s = [ld] \<and> in_file s
     \<and> libelf_xlate_shtype (shdr_type (s_shdr s)) = t \<and> d_type (d_data ld) = t \<and> d_size (d_data ld) \<noteq> 0"

lemma elem_section_placed:
  assumes w: "written_object st i e eh X" and s: "elem_section st e n t s ld"
  shows "n \<in> set (inorder (e_scn e))" "n < unat (e_nscn e)" "\<exists>s' x. X n = Some s' \<and> placed_scn (e_class e) s x s'"
proof -
  note O = written_objectD[OF w]
  have S: "e_scns e n = Some s" "in_file s" using s by (simp_all add: elem_section_def)
  have "n \<in> dom (e_scns e)" using S(1) by auto
  then show n: "n \<in> set (inorder (e_scn e))" using creatingD(4)[OF O(1)] by (simp add: scn_inv_def rb_keys_def)
  then show "n < unat (e_nscn e)" using laid_out_inorder[OF O(1)] by simp
  have "\<exists>s'. X n = Some s' \<and> scn_laid_out (e_class e) s s'"
    using spec[OF O(3)[unfolded sections_placed_def], of n] n S(1) by auto
  then show "\<exists>s' x. X n = Some s' \<and> placed_scn (e_class e) s x s'" using S(2) by (auto simp: scn_laid_out_def)
qed

lemma elem_section_data:
  assumes w: "written_object st i e eh X" and s: "elem_section st e n t s ld" and t: "struct_def (e_class e) t = Some ms"
  obtains sb bs cnt where "d_buf (d_data ld) = Some sb" "mem_read (heap st) sb (unat (d_size (d_data ld))) = Some bs"
    "unat (d_size (d_data ld)) = cnt * sizeof_struct (e_class e) ms" "0 < cnt" "length bs = cnt * sizeof_struct (e_class e) ms"
    "cnt = unat (d_size (d_data ld)) div sizeof_struct (e_class e) ms" "0 < FSZ (e_class e) ms"
    "scn_bytes (e_class e) s = cnt * FSZ (e_class e) ms" "\<not> keeps_size s" "data_bytes (heap st) (d_data ld) = bs"
proof -
  note O = written_objectD[OF w]
  have S: "e_scns e n = Some s" "s_data s = [ld]" "in_file s" "d_type (d_data ld) = t" "d_size (d_data ld) \<noteq> 0"
    using s by (simp_all add: elem_section_def)
  note ts = table_struct[OF t]
  let ?m = "sizeof_struct (e_class e) ms" and ?size = "unat (d_size (d_data ld))"
  define cnt where "cnt = ?size div ?m"
  have k: "\<not> keeps_size s" using S(2) by (simp add: keeps_size_def)
  obtain s' x where "placed_scn (e_class e) s x s'" using elem_section_placed(3)[OF w s] by blast
  then have "data_valid (e_class e) (d_data ld)" using k S(2) by (auto simp: placed_scn_def scn_valid_def)
  then have m: "?size = cnt * ?m" using ts S(4) by (auto simp: data_valid_def cnt_def)
  have "?size \<noteq> 0" using S(5) unat_eq_zero[of "d_size (d_data ld)"] by simp
  then have pos: "0 < cnt" using m by (cases cnt) auto
  have F: "0 < FSZ (e_class e) ms" using fsize_msize_rel(2)[of "e_class e" t] ts struct_size_pos[OF t] by (metis gr0I less_irrefl)
  have bytes: "scn_bytes (e_class e) s = cnt * FSZ (e_class e) ms"
    using k S(2,4) ts by (simp add: scn_bytes_def data_fsz_def cnt_def align_up_bounds(4) mult.commute)
  have "data_there (heap st) (e_class e) (d_data ld)"
    using O(2) S(1-3) bytes pos F by (auto simp: writable_def)
  then obtain sb where sb: "d_buf (d_data ld) = Some sb" "window (heap st) sb ?size" by (auto simp: data_there_def)
  obtain bs where bs: "mem_read (heap st) sb ?size = Some bs" "length bs = ?size" using sb(2) by (rule window_readE)
  show thesis
    by (rule that[OF sb(1) bs(1) m pos _ cnt_def F bytes k]) (use sb(1) bs m in \<open>simp_all add: data_bytes_def\<close>)
qed

text \<open>Its bytes in the image are the elements in the representation of the file.\<close>

lemma elem_section_bytes:
  assumes w: "written_object st i e eh X" and s: "elem_section st e n t s ld" and t: "struct_def (e_class e) t = Some ms"
    and bs: "data_bytes (heap st) (d_data ld) = bs" "length bs = cnt * sizeof_struct (e_class e) ms"
    and cnt: "scn_bytes (e_class e) s = cnt * FSZ (e_class e) ms" "0 < cnt" "0 < FSZ (e_class e) ms" and k: "\<not> keeps_size s"
  obtains s' where "X n = Some s'" "shdr_type (s_shdr s') = shdr_type (s_shdr s)" "unat (shdr_size (s_shdr s')) = cnt * FSZ (e_class e) ms"
    "slice_at (object_image st e eh X) (unat (shdr_offset (s_shdr s'))) (cnt * FSZ (e_class e) ms)
      = Some (concat (map (struct_tof (host_order st) (e_class e) ms (swapped st (laid_out e eh X))) (chunks (sizeof_struct (e_class e) ms) cnt bs)))"
    "unat (shdr_offset (s_shdr s')) + cnt * FSZ (e_class e) ms \<le> object_size e"
proof -
  note O = written_objectD[OF w]
  let ?ec = "e_class e" and ?N = "cnt * FSZ (e_class e) ms"
  obtain s' x where p: "X n = Some s'" "placed_scn ?ec s x s'" using elem_section_placed(3)[OF w s] by blast
  have S: "s_data s = [ld]" "in_file s" "d_type (d_data ld) = t" using s by (simp_all add: elem_section_def)
  have z: "s_size s' = of_nat ?N" "in_file s'" "shdr_type (s_shdr s') = shdr_type (s_shdr s)"
    using p(2) cnt(1) S(2) by (auto simp: in_file_def elim!: placed_scn_layout)
  have "s \<in> set (object_scns e)"
    using elem_section_placed(1)[OF w s] s by (force simp: object_scns_def elem_section_def)
  from scns_end_bytes[OF this S(2), of ?ec "ph_end e"] have "?N \<le> area_end e" using cnt(1) by (simp add: area_end_def)
  then have small: "?N < 2 ^ 63" using area_end_ge(3)[OF creatingD(10)[OF O(1)]] writableD(3)[OF O(2)] by simp
  have u: "unat (s_size s') = ?N" unfolding z(1) by (rule unat_small_nat[OF small])
  have e: "has_extent (the (X n))" using p(1) z u cnt(2,3) by (auto simp: has_extent_def)
  from placed_header[OF w elem_section_placed(1)[OF w s] e] p(1) have h: "shdr_offset (s_shdr s') = s_offset s'" "shdr_size (s_shdr s') = s_size s'"
    "slice_at (object_image st e eh X) (unat (s_offset s')) (unat (s_size s'))
      = Some (scn_image (fill_bytes st) (enc_data st (laid_out e eh X) (heap st)) ?ec (s_data s') 0)" by auto
  have d: "s_data s' = data_places ?ec [ld] 0" using p(2) k S(1) by (auto elim!: placed_scn_layout)
  have m: "0 < sizeof_struct ?ec ms" by (rule struct_size_pos[OF t])
  have "scn_image (fill_bytes st) (enc_data st (laid_out e eh X) (heap st)) ?ec (s_data s') 0 = enc_data st (laid_out e eh X) (heap st) (d_data ld)"
    unfolding d by (simp add: Let_def align_up_bounds(4) fill_bytes_def)
  also have "\<dots> = concat (map (struct_tof (host_order st) ?ec ms (swapped st (laid_out e eh X))) (chunks (sizeof_struct ?ec ms) cnt bs))"
    using S(3) t bs m by (simp add: enc_data_def file_bytes_def)
  finally have sl: "slice_at (object_image st e eh X) (unat (shdr_offset (s_shdr s'))) ?N
      = Some (concat (map (struct_tof (host_order st) ?ec ms (swapped st (laid_out e eh X))) (chunks (sizeof_struct ?ec ms) cnt bs)))"
    using h u by simp
  then have "unat (shdr_offset (s_shdr s')) + ?N \<le> object_size e"
    using object_ident(3)[OF w] by (auto simp: slice_at_def split: if_splits)
  then show thesis using that[OF p(1) z(3) _ sl] h(2) u by simp
qed


section \<open>The data of the section on the other host\<close>

text \<open>The translation fails only on the translator, when memory is not short.\<close>

lemma translate_fails:
  assumes r: "getdata_translate st i n e t off cnt d = Some (None, st')" and m: "c_malloc st (unat (d_size (d_data d))) = (Some b, st1)"
    and c: "libelf_elfmachine (Some e) = Some mc" "libelf_get_translator t ELF_TOMEMORY (e_class e) mc = Some (Some f)"
  shows "\<exists>host h src sw h'. f host h b (d_size (d_data d)) src cnt sw = Some (h', False)"
proof -
  obtain p where p: "e_rawfile e = Some p" using r m c by (cases "e_rawfile e") (simp_all add: getdata_translate_def)
  let ?sw = "e_byteorder e \<noteq> libelf_byteorder st1" and ?src = "ptr_add p (unat off)"
  note r' = r[unfolded getdata_translate_def m prod.case Let_def option.case c p Option.bind.simps]
  obtain h' ok where x: "f (host_order st1) (heap st1) b (d_size (d_data d)) ?src cnt ?sw = Some (h', ok)"
    using r' by (cases "f (host_order st1) (heap st1) b (d_size (d_data d)) ?src cnt ?sw") auto
  have "\<not> ok"
  proof
    assume ok
    let ?d = "d\<lparr>d_data := (d_data d)\<lparr>d_buf := Some b\<rparr>, d_flags := d_flags d OR LIBELF_F_DATA_MALLOCED\<rparr>"
    show False using r' \<open>ok\<close> x by (cases "append_data (st1\<lparr>heap := h'\<rparr>) i n False ?d") auto
  qed
  then have "ok = False" by simp
  from x[unfolded this] show ?thesis by (intro exI)
qed

text \<open>\<open>elf_getdata\<close> succeeds when the section lies in the file, holds whole elements and memory is not short.\<close>

lemma getdata_translates:
  assumes e: "get_elf st i = Some e" "e_version e = EV_CURRENT" and ec: "e_class e = ELFCLASS32 \<or> e_class e = ELFCLASS64"
    and s: "e_scns e n = Some s" and raw: "e_rawfile e \<noteq> None"
    and t: "libelf_xlate_shtype (shdr_type (s_shdr s)) = t" "struct_def (e_class e) t = Some ms"
    and sz: "unat (shdr_size (s_shdr s)) = cnt * FSZ (e_class e) ms" "0 < cnt" "0 < FSZ (e_class e) ms" "cnt * sizeof_struct (e_class e) ms < 2 ^ 64"
    and fit: "unat (shdr_offset (s_shdr s)) + cnt * FSZ (e_class e) ms \<le> unat (e_rawsize e)" and nf: "never_fails st"
  obtains c d where "getdata_new st i n = getdata_translate (snd (c_alloc st)) i n e t (shdr_offset (s_shdr s)) c d"
    "\<not> d_size (d_data d) < c * of_nat (sizeof_struct (e_class e) ms)"
proof -
  let ?ec = "e_class e" and ?size = "shdr_size (s_shdr s)" and ?off = "shdr_offset (s_shdr s)"
  note ts = table_struct[OF t(2)]
  have uf: "unat (of_nat (FSZ ?ec ms) :: u64) = FSZ ?ec ms"
    using fsize_le_64[of ?ec t] ts by (intro unat_of_nat_64) simp
  have um: "unat (of_nat (sizeof_struct ?ec ms) :: u64) = sizeof_struct ?ec ms"
    using msize_le_64[of ?ec t] ts by (intro unat_of_nat_64) simp
  define c where "c = ?size div of_nat (FSZ ?ec ms)"
  have uc: "unat c = cnt" using sz(1,3) uf by (simp add: c_def unat_div)
  have v: "elf_type_valid t" using t(2) by (cases t) auto
  have nb: "shdr_type (s_shdr s) \<noteq> SHT_NOBITS" "shdr_type (s_shdr s) \<noteq> SHT_NULL"
    using t by (auto simp: libelf_xlate_shtype_def)
  let ?d = "\<lparr>d_data = \<lparr>d_align = shdr_align (s_shdr s), d_buf = None, d_off = 0,
      d_size = of_nat (sizeof_struct ?ec ms) * c, d_type = t, d_version = e_version e\<rparr>, d_flags = 0\<rparr>"
  have le: "\<not> ?off > e_rawsize e" using fit by (simp add: word_less_nat_alt)
  then have le2: "\<not> ?size > e_rawsize e - ?off"
    using fit sz(1) by (simp add: word_less_nat_alt unat_sub not_less word_le_nat_alt)
  have "unat (?size mod of_nat (FSZ ?ec ms)) = 0" using sz(1) uf by (simp add: unat_mod)
  then have md: "?size mod of_nat (FSZ ?ec ms) = 0" using unat_eq_zero by blast
  have "cnt * sizeof_struct ?ec ms \<le> 2 ^ 64 - 1" using sz(4) by simp
  then have "sizeof_struct ?ec ms \<le> (2 ^ 64 - 1) div cnt" using sz(2) by (simp add: less_eq_div_iff_mult_less_eq mult.commute)
  moreover have "unat ((- 1) div c) = (2 ^ 64 - 1) div cnt"
    by (simp add: unat_div uc unsigned_minus_1_eq_mask mask_eq_exp_minus_1)
  ultimately have rg: "\<not> of_nat (sizeof_struct ?ec ms) > (- 1) div c" using um by (simp add: word_less_nat_alt)
  have "?size \<noteq> 0" using sz(1-3) by auto
  then have "getdata_sized st i n e s t = getdata_translate (snd (c_alloc st)) i n e t ?off c ?d"
    using getdata_sized_eq[OF ec v refl refl _ refl, of c s st i n, unfolded ts[THEN conjunct1] ts[THEN conjunct2, THEN conjunct1]] c_def
      e(2) sz(3) md rg nb never_fails_alloc[OF nf] by simp
  moreover have "getdata_new st i n = getdata_sized st i n e s t"
    using e(1) s raw ec nb v t(1) le le2 by (auto simp: getdata_new_def Let_def)
  ultimately show thesis by (intro that[of c ?d]) (simp_all add: mult.commute)
qed

lemma getdata_succeeds:
  assumes e: "get_elf st i = Some e" "elf_inv st e" "e_kind e = ELF_K_ELF" "file_there st e" "heap_fresh st" "e_version e = EV_CURRENT"
    and ec: "e_class e = ELFCLASS32 \<or> e_class e = ELFCLASS64"
    and s: "e_scns e n = Some s" "s_data s = []" "s_rawdata s = []" and raw: "e_rawfile e \<noteq> None"
    and t: "libelf_xlate_shtype (shdr_type (s_shdr s)) = t" "struct_def (e_class e) t = Some ms"
    and sz: "unat (shdr_size (s_shdr s)) = cnt * FSZ (e_class e) ms" "0 < cnt" "0 < FSZ (e_class e) ms" "cnt * sizeof_struct (e_class e) ms < 2 ^ 64"
    and fit: "unat (shdr_offset (s_shdr s)) + cnt * FSZ (e_class e) ms \<le> unat (e_rawsize e)" and nf: "never_fails st"
  shows "\<exists>x st'. elf_getdata st (Some (i, n)) None = Some (Some x, st')"
proof -
  let ?ec = "e_class e" and ?st1 = "snd (c_alloc st)"
  have "scn_data_ok (heap st) s" using s by (simp add: scn_data_ok_def)
  from getdata_first_ok[OF e(1-5) s(1) this ec] obtain r st' where g: "elf_getdata st (Some (i, n)) None = Some (r, st')" by blast
  obtain c d where tr: "getdata_new st i n = getdata_translate ?st1 i n e t (shdr_offset (s_shdr s)) c d"
    "\<not> d_size (d_data d) < c * of_nat (sizeof_struct ?ec ms)"
    by (rule getdata_translates[OF e(1,6) ec s(1) raw t sz fit nf])
  have run: "getdata_translate ?st1 i n e t (shdr_offset (s_shdr s)) c d = Some (r, st')"
    using g e(1,3) s(1,2) tr(1) by (simp add: elf_getdata_def)
  have "never_fails ?st1" using nf by (simp add: never_fails_def)
  then obtain b st2 where m: "c_malloc ?st1 (unat (d_size (d_data d))) = (Some b, st2)"
    using never_fails_alloc[of ?st1] by (simp add: c_malloc_def case_prod_unfold Let_def)
  obtain mc where mc: "libelf_elfmachine (Some e) = Some mc" using e(3) ec by (auto simp: libelf_elfmachine_def)
  have "elf_type_valid t" "cvt_table t ELF_TOMEMORY ?ec = Some (cvt_comp_tom ?ec ms)" using t(2) by (cases t; simp)+
  then have x: "libelf_get_translator t ELF_TOMEMORY ?ec mc = Some (Some (cvt_comp_tom ?ec ms))"
    using ec by (auto simp: libelf_get_translator_def)
  have "r \<noteq> None"
  proof
    assume "r = None"
    from translate_fails[OF run[unfolded this] m mc x] tr(2) show False by (auto simp: cvt_comp_tom_def bind_Some_iff)
  qed
  then show ?thesis using g by auto
qed

text \<open>The two descriptors agree on the encoding of relocations (64-bit little-endian MIPS).\<close>

lemma laid_out_mips:
  assumes "e_kind e5 = e_kind e" "e_class e5 = e_class e" "e_ehdr e = Some eh" "e_ehdr e5 = Some (laid_out_ehdr e eh)"
    and "length (ehdr_ident eh) = 16"
  shows "libelf_is_mips64el e5 = libelf_is_mips64el e"
proof (cases eh)
  case (Eh32 h)
  then show ?thesis using assms
    by (simp add: libelf_is_mips64el_def laid_out_ehdr_set counts_ehdr_def started_ehdr_def)
next
  case (Eh64 h)
  then show ?thesis using assms
    by (simp add: libelf_is_mips64el_def laid_out_ehdr_set counts_ehdr_def started_ehdr_def init_ident_def)
qed

context gelf_codec
begin

text \<open>What \<open>gelf_getX\<close> returns to the application that has written the section.\<close>

lemma written_value:
  assumes w: "written_object st i e eh X" and s: "elem_section st e n (g_type g) s ld" and k: "unat ndx < cnt" "0 \<le> sint ndx"
    and d: "d_buf (d_data ld) = Some sb" "mem_read (heap st) sb (unat (d_size (d_data ld))) = Some bs"
      "unat (d_size (d_data ld)) = cnt * sizeof_struct (e_class e) (g_def g (e_class e))"
  shows "\<exists>v. gelf_get g st (Some (i, n, False, 0)) ndx True = Some (Some v, st)
    \<and> val (host_order st) e (chunks (sizeof_struct (e_class e) (g_def g (e_class e))) cnt bs ! unat ndx) = Some v"
proof -
  note C = creatingD[OF written_objectD(1)[OF w]]
  have S: "e_scns e n = Some s" "s_data s = [ld]" "libelf_xlate_shtype (shdr_type (s_shdr s)) = g_type g"
    using s by (simp_all add: elem_section_def)
  let ?m = "sizeof_struct (e_class e) (g_def g (e_class e))"
  let ?q = "ptr_add sb (unat ndx * ?m)" and ?w = "chunks ?m cnt bs ! unat ndx"
  have m: "0 < ?m" by (rule struct_size_pos[OF g_def_some])
  have le: "unat ndx * ?m + ?m \<le> cnt * ?m" using mult_le_mono1[of "Suc (unat ndx)" cnt ?m] k(1) by simp
  have rq: "mem_read (heap st) ?q ?m = Some ?w"
    using mem_read_sub[OF d(2)[unfolded d(3)] le] k(1) by (simp add: chunks_nth)
  have "elem_at st (g_type g) (i, n, False, 0) ndx e ?q"
    using C(1,8,10) S d(1,3) k m by (cases sb) (simp add: elem_at_def get_data_def get_scn_def scn_list_def size)
  note eq = get_elem[OF this]
  have "length bs = cnt * ?m" using d(2,3) by (auto simp: mem_read_def slice_at_def split: option.splits if_splits)
  then have "length ?w = ?m" using chunk_lengths[of bs cnt ?m ?w] k(1) by simp
  moreover have "libelf_is_mips64el e \<noteq> None"
    using C(5,6,10) by (auto simp: libelf_is_mips64el_def ehdr_fits_def split: ehdr.splits)
  ultimately have "val (host_order st) e ?w \<noteq> None" using C(10) by (intro val_total) (simp_all add: size)
  then show ?thesis using eq rq by (auto simp: size)
qed

text \<open>The entry in the file that the other host reads is the element in memory that this host wrote.\<close>

lemma written_file_elem:
  assumes w: "written_object st i e eh X" and c: "loaded_copy st e eh X st2 b r st5 e5"
    and img: "slice_at (object_image st e eh X) off (cnt * FSZ (e_class e) (g_def g (e_class e)))
      = Some (concat (map (struct_tof (host_order st) (e_class e) (g_def g (e_class e)) (swapped st (laid_out e eh X)))
          (chunks (sizeof_struct (e_class e) (g_def g (e_class e))) cnt bs)))"
    and bs: "length bs = cnt * sizeof_struct (e_class e) (g_def g (e_class e))" and k: "k < cnt"
  shows "file_elem g st5 e5 (off + k * fsize_table (e_class e5) (g_type g))
    = val (host_order st) e (chunks (sizeof_struct (e_class e) (g_def g (e_class e))) cnt bs ! k)"
proof -
  let ?ec = "e_class e" and ?ms = "g_def g (e_class e)" let ?w = "chunks (sizeof_struct ?ec ?ms) cnt bs ! k"
  let ?xs = "map (struct_tof (host_order st) ?ec ?ms (swapped st (laid_out e eh X))) (chunks (sizeof_struct ?ec ?ms) cnt bs)"
  note O = written_objectD[OF w]
  note K = creatingD[OF O(1)] and ts = table_struct[OF g_def_some[of ?ec]]
  have L: "reads_object st5 e5 b st e eh X" "e_class e5 = ?ec" "e_ehdr e5 = Some (laid_out_ehdr e eh)" "e_kind e5 = ELF_K_ELF"
    using c by (simp_all add: loaded_copy_def only_read_def)
  have wl: "length ?w = sizeof_struct ?ec ?ms" using chunk_lengths[OF bs] k by simp
  have xl: "length y = FSZ ?ec ?ms" if "y \<in> set ?xs" for y
    using that chunk_lengths[OF bs] by (auto simp: length_struct_tof)
  have "slice_at (concat ?xs) (k * FSZ ?ec ?ms) (FSZ ?ec ?ms) = Some (?xs ! k)"
    by (rule slice_at_concat) (use xl k in simp_all)
  then have "slice_at (object_image st e eh X) (off + k * FSZ ?ec ?ms) (FSZ ?ec ?ms)
      = Some (hdr_bytes st (laid_out e eh X) (struct_load (host_order st) ?ec ?ms ?w))"
    using slice_at_sub[OF img] k by (simp add: struct_tof_def hdr_bytes_def fields_bytes_def)
  from file_struct_image[OF _ O(5) _ _ _ struct_load_ok[OF wl] this, of st5 e5 b]
  have fs: "file_struct st5 e5 ?ec ?ms (off + k * FSZ ?ec ?ms) = Some (struct_load (host_order st) ?ec ?ms ?w)"
    using L(1) writableD(6)[OF O(2)] by (simp add: reads_object_def)
  have "libelf_is_mips64el e5 = libelf_is_mips64el e"
    by (rule laid_out_mips[OF _ L(2) K(5) L(3)]) (use K L(4) in \<open>simp_all add: ehdr_fits_def\<close>)
  then have "mips_fix (g_tom g) e5 = mips_fix (g_tom g) e" by (simp add: mips_fix_def fun_eq_iff cong: option.case_cong)
  then show ?thesis using fs ts unfolding val_def file_elem_def L(2) by (simp add: Let_def)
qed

text \<open>What it returns on the host that has opened the image.\<close>

lemma written_element:
  assumes w: "written_object st i e eh X" and c: "loaded_copy st e eh X st2 b r st5 e5" "heap_fresh st2"
    and s: "elem_section st e n (g_type g) s ld" and s5: "e_scns e5 n = Some s5" "s_shdr s5 = s_shdr (the (X n))"
    and ndx: "0 \<le> sint ndx" "unat ndx < unat (d_size (d_data ld)) div msize_table (e_class e) (g_type g)"
  shows "\<exists>v x st6. gelf_get g st (Some (i, n, False, 0)) ndx True = Some (Some v, st)
    \<and> elf_getdata st5 (Some (r, n)) None = Some (Some x, st6) \<and> gelf_get g st6 (Some x) ndx True = Some (Some v, st6)"
proof -
  let ?ec = "e_class e" and ?ms = "g_def g (e_class e)" and ?off = "shdr_offset (s_shdr s5)" and ?size = "shdr_size (s_shdr s5)"
  note O = written_objectD[OF w] and t = g_def_some[of ?ec]
  note K = creatingD[OF O(1)] and ts = table_struct[OF t]
  have L: "get_elf st5 r = Some e5" "elf_inv st5 e5" "only_read e5" "e_class e5 = ?ec" "e_version e5 = EV_CURRENT"
    "e_rawsize e5 = of_nat (object_size e)" "never_fails st5" "heap_fresh st5" using c by (simp_all add: loaded_copy_def heap_fresh_def)
  obtain sb bs cnt where S: "d_buf (d_data ld) = Some sb" "mem_read (heap st) sb (unat (d_size (d_data ld))) = Some bs"
    "unat (d_size (d_data ld)) = cnt * sizeof_struct ?ec ?ms" "0 < cnt" "length bs = cnt * sizeof_struct ?ec ?ms"
    "cnt = unat (d_size (d_data ld)) div sizeof_struct ?ec ?ms" "0 < FSZ ?ec ?ms"
    "scn_bytes ?ec s = cnt * FSZ ?ec ?ms" "\<not> keeps_size s" "data_bytes (heap st) (d_data ld) = bs"
    by (rule elem_section_data[OF w s t])
  have k: "unat ndx < cnt" using ndx(2) S(6) ts by simp
  obtain s' where B: "X n = Some s'" "shdr_type (s_shdr s') = shdr_type (s_shdr s)" "unat (shdr_size (s_shdr s')) = cnt * FSZ ?ec ?ms"
    "slice_at (object_image st e eh X) (unat (shdr_offset (s_shdr s'))) (cnt * FSZ ?ec ?ms)
      = Some (concat (map (struct_tof (host_order st) ?ec ?ms (swapped st (laid_out e eh X))) (chunks (sizeof_struct ?ec ?ms) cnt bs)))"
    "unat (shdr_offset (s_shdr s')) + cnt * FSZ ?ec ?ms \<le> object_size e"
    by (rule elem_section_bytes[OF w s t S(10,5,8,4,7,9)])
  have h: "s_shdr s5 = s_shdr s'" using s5(2) B(1) by simp
  have ty: "libelf_xlate_shtype (shdr_type (s_shdr s5)) = g_type g" using s B(2) h by (simp add: elem_section_def)
  have R: "e_kind e5 = ELF_K_ELF" "s_data s5 = []" "s_rawdata s5 = []" "e_cmd e5 = ELF_C_READ"
    using L(3) s5(1) by (auto simp: only_read_def)
  have raw: "raw_ok st5 e5" using L(2) R(4) by (simp add: elf_inv_def)
  then have there: "file_there st5 e5" "e_rawfile e5 \<noteq> None" by (auto simp: file_there_def raw_ok_def)
  have us: "unat (e_rawsize e5) = object_size e" unfolding L(6) by (rule unat_small_nat) (use writableD(3)[OF O(2)] in simp)
  have ec5: "e_class e5 = ELFCLASS32 \<or> e_class e5 = ELFCLASS64" using L(4) K(10) by simp
  have lim: "cnt * sizeof_struct ?ec ?ms < 2 ^ 64" unfolding S(3)[symmetric] using unat_lt2p[of "d_size (d_data ld)"] by simp
  obtain x st6 where gd: "elf_getdata st5 (Some (r, n)) None = Some (Some x, st6)"
    using getdata_succeeds[OF L(1,2) R(1) there(1) L(8,5) ec5 s5(1) R(2,3) there(2) ty _ _ S(4) _ _ _ L(7), of ?ms]
      t B(3,5) S(7) lim L(4) h us by fastforce
  have fz: "unat ?size div fsize_table (e_class e5) (g_type g) = cnt" using B(3) S(7) ts h L(4) by simp
  obtain v where V: "gelf_get g st6 (Some x) ndx True = Some (Some v, st6)"
    "file_elem g st5 e5 (unat ?off + unat ndx * fsize_table (e_class e5) (g_type g)) = Some v"
    using get_file[OF L(1,2) raw L(8) s5(1) R(2) ty gd ndx(1)] k fz by auto
  then show ?thesis
    using written_value[OF w s k ndx(1) S(1-3)] written_file_elem[OF w c(1) B(4) S(5) k] gd h by auto
qed

end

context gelf_codec
begin

text \<open>From \<open>elf_update\<close> on one host to \<open>gelf_getX\<close> on the other.\<close>

lemma written_read:
  assumes c: "creating st i e eh" and wr: "writable st e eh" and st: "host_known st" and p: "plain_counts e eh"
    and u: "elf_update os st (Some i) ELF_C_WRITE = Some (rc, Some img, st')"
    and img: "heap st2 b = Some img" and st2: "host_known st2" "libelf_version st2 \<noteq> EV_NONE" "never_fails st2" "heap_fresh st2"
    and s: "elem_section st e n (g_type g) s ld"
    and ndx: "0 \<le> sint ndx" "unat ndx < unat (d_size (d_data ld)) div msize_table (e_class e) (g_type g)"
  shows "\<exists>v st3 st5 x st6. gelf_get g st (Some (i, n, False, 0)) ndx True = Some (Some v, st)
    \<and> elf_memory st2 (Some (b, 0)) (of_nat (length img)) = Some (Some (next_elf st2), st3)
    \<and> elf_getscn st3 (Some (next_elf st2)) (of_nat n) = Some (Some (next_elf st2, n), st5)
    \<and> elf_getdata st5 (Some (next_elf st2, n)) None = Some (Some x, st6)
    \<and> gelf_get g st6 (Some x) ndx True = Some (Some v, st6)"
proof -
  define X where "X = laid_scns e"
  from elf_update_image[OF c wr, of os] u have X: "sections_placed e (inorder (e_scn e)) X"
    "chained 0 (object_extents e X) (object_size e)" "length (object_image st e eh X) = object_size e" "img = object_image st e eh X"
    unfolding X_def by (auto split: if_splits)
  have w: "written_object st i e eh X" using c wr st X(1,2) by (simp add: written_object_def)
  from written_object_read[OF w p img[unfolded X(4)] st2(1-3)] elem_section_placed(2)[OF w s] obtain st3 st5 e5 s5 where m:
    "elf_memory st2 (Some (b, 0)) (of_nat (object_size e)) = Some (Some (next_elf st2), st3)"
    "elf_getscn st3 (Some (next_elf st2)) (of_nat n) = Some (Some (next_elf st2, n), st5)"
    "loaded_copy st e eh X st2 b (next_elf st2) st5 e5" "e_scns e5 n = Some s5" "s_shdr s5 = s_shdr (the (X n))" by blast
  have l: "length img = object_size e" using X(3,4) by simp
  from written_element[OF w m(3) st2(4) s m(4,5) ndx] m(1,2) show ?thesis unfolding l by blast
qed

end

section \<open>Properties\<close>


text \<open>A big-endian object with a table of two symbols, made on a little-endian host and read on a big-endian one.\<close>

definition symbols_ehdr :: ehdr where
  "symbols_ehdr = Eh64 \<lparr>e_ident = [0x7f, 0x45, 0x4c, 0x46, 2, 2, 1, 0, 0, 0, 0, 0, 0, 0, 0, 0], e_type = 1, e_machine = 43,
     eh_version = 1, e_entry = 0, e_phoff = 0, e_shoff = 0, eh_flags = 0, e_ehsize = 0, e_phentsize = 0, e_phnum = 0,
     e_shentsize = 0, e_shnum = 0, e_shstrndx = 0\<rparr>"

definition symbols_data :: Libelf_Data where
  "symbols_data = \<lparr>d_data = (sample_data ELF_T_SYM 0 48)\<lparr>d_align := 8\<rparr>, d_flags = 0\<rparr>"

definition symbols_object :: Elf where
  "symbols_object = new_object\<lparr>e_byteorder := ELFDATA2MSB, e_ehdr := Some symbols_ehdr,
     e_scns := [0 \<mapsto> sample_scn 0 SHT_NULL [], 1 \<mapsto> sample_scn 1 SHT_SYMTAB [symbols_data]]\<rparr>"

definition symbols_state :: libelf_state where
  "symbols_state = put_elf 0 symbols_object (sample_state (map of_nat [0..<48]))"

lemmas symbols_defs = symbols_state_def symbols_object_def symbols_data_def symbols_ehdr_def new_object_def initial_elf_def
  sample_scn_def sample_data_def

lemma symbols_creating: "creating symbols_state 0 symbols_object symbols_ehdr"
  by (auto simp: creating_def symbols_defs lib_layout_def app_layout_def scn_inv_def
      rb_inv_def rb_keys_def ehdr_fits_def aligned_data_def shdr_fits_def less_Suc_eq
      split: if_splits)

lemma symbols_size: "object_size symbols_object = 240"
  by code_simp

lemma symbols_can_lay_out: "can_lay_out symbols_state symbols_object symbols_ehdr"
proof -
  have "msize_table ELFCLASS64 ELF_T_SYM = 24" by code_simp
  moreover have "ehdr_update_error symbols_object symbols_ehdr = None" by code_simp
  ultimately have "scns_valid symbols_object (inorder (e_scn symbols_object)) \<and> ehdr_update_error symbols_object symbols_ehdr = None"
    by (auto simp: scns_valid_def symbols_defs in_file_def scn_valid_def data_valid_def libelf_xlate_shtype_def keeps_size_def)
  then show ?thesis by (simp add: can_lay_out_def never_fails_def symbols_state_def sample_state_def put_elf_def)
qed

lemma symbols_writable: "writable symbols_state symbols_object symbols_ehdr"
proof -
  have "msize_table ELFCLASS64 ELF_T_SYM = 24" "libelf_malign ELF_T_SYM ELFCLASS64 = 8"
    "scn_falign ELFCLASS64 (sample_scn 1 SHT_SYMTAB [symbols_data]) = 8"
    "scn_align ELFCLASS64 (sample_scn 1 SHT_SYMTAB [symbols_data]) = 8"
    "(ucast (ehdr_ident symbols_ehdr ! EI_DATA) :: u32) = ELFDATA2MSB"
    by code_simp+
  then show ?thesis using symbols_size
    by (auto simp: writable_def heap_fresh_def symbols_defs sample_state_def put_elf_def raw_plain_def
        in_file_def keeps_size_def data_there_def data_valid_def fixed_type_def byte_sized_def
        window_def mem_read_def slice_at_def split: if_splits)
qed


end
